(* ===== verification/Prelude.thy ===== *)
theory Prelude
  imports "HOL-Library.Word"
begin

text \<open>
  What every component shares: the machine integers of the code and their saturating
  operations, the clamps of the Rust standard library, the three error-free shapes the code
  threads state through, and the hint collections of the development.

  Unsigned integers of the code (u32, u64, usize) are naturals. The code uses the saturating
  operations of the standard library almost everywhere, and these are written out here at their
  width: \<^theory_text>\<open>sat_add32\<close> stops at the largest u32, and so on. Rust's
  \<^theory_text>\<open>saturating_sub\<close> is exactly subtraction on naturals, which stops at 0. Where the code
  uses a plain \<open>-\<close> the component proves that the operands cannot underflow.
\<close>

section \<open>Machine integers\<close>

type_synonym u32 = nat
type_synonym u64 = nat
type_synonym usize = nat
type_synonym byte = "8 word"

abbreviation u32_max :: nat where
  "u32_max \<equiv> 4294967295"

abbreviation u64_max :: nat where
  "u64_max \<equiv> 18446744073709551615"

abbreviation u128_max :: nat where
  "u128_max \<equiv> 340282366920938463463374607431768211455"

abbreviation u16_max :: nat where
  "u16_max \<equiv> 65535"

abbreviation nsec_per_sec :: nat where
  "nsec_per_sec \<equiv> 1000000000"

definition sat_add32 :: "nat \<Rightarrow> nat \<Rightarrow> nat" where
  "sat_add32 a b = min (a + b) u32_max"

definition sat_mul32 :: "nat \<Rightarrow> nat \<Rightarrow> nat" where
  "sat_mul32 a b = min (a * b) u32_max"

definition sat_add64 :: "nat \<Rightarrow> nat \<Rightarrow> nat" where
  "sat_add64 a b = min (a + b) u64_max"

definition sat_mul64 :: "nat \<Rightarrow> nat \<Rightarrow> nat" where
  "sat_mul64 a b = min (a * b) u64_max"

definition sat_mul128 :: "nat \<Rightarrow> nat \<Rightarrow> nat" where
  "sat_mul128 a b = min (a * b) u128_max"

abbreviation (input) sat_sub :: "nat \<Rightarrow> nat \<Rightarrow> nat" where
  "sat_sub a b \<equiv> a - b"

text \<open>\<open>as u32\<close> of a wider unsigned value, and the subtraction of u32 in a release build.\<close>

definition as_u32 :: "nat \<Rightarrow> u32" where
  "as_u32 n = n mod 4294967296"

definition wrap_sub32 :: "u32 \<Rightarrow> u32 \<Rightarrow> u32" where
  "wrap_sub32 a b = (a + (4294967296 - b)) mod 4294967296"

text \<open>\<open>u32::trailing_zeros\<close>.\<close>

fun trailing_zeros32 :: "u32 \<Rightarrow> nat" where
  "trailing_zeros32 n =
     (if n = 0 then 32 else if n mod 2 = 1 then 0 else 1 + trailing_zeros32 (n div 2))"

declare trailing_zeros32.simps [simp del]

text \<open>\<open>abs_diff\<close> of the unsigned types.\<close>

definition abs_diff :: "nat \<Rightarrow> nat \<Rightarrow> nat" where
  "abs_diff a b = (if a \<ge> b then a - b else b - a)"

text \<open>\<open>Ord::clamp\<close>.\<close>

definition clamp :: "'a::linorder \<Rightarrow> 'a \<Rightarrow> 'a \<Rightarrow> 'a" where
  "clamp x lo hi = (if x < lo then lo else if x > hi then hi else x)"

text \<open>\<open>div_ceil\<close> of the unsigned types (the divisor is never 0 where the code calls it).\<close>

definition div_ceil :: "nat \<Rightarrow> nat \<Rightarrow> nat" where
  "div_ceil a b = (a div b) + (if a mod b = 0 then 0 else 1)"

text \<open>\<open>u32::checked_next_multiple_of\<close>: \<open>None\<close> on overflow (and for a zero divisor).\<close>

definition checked_next_multiple_of32 :: "nat \<Rightarrow> nat \<Rightarrow> nat option" where
  "checked_next_multiple_of32 a b =
     (if b = 0 then None
      else let r = (if a mod b = 0 then a else a + (b - a mod b))
           in if r \<le> u32_max then Some r else None)"

section \<open>Hint collections\<close>

named_theorems sat_simps \<open>definitions of the saturating operations, for arithmetic\<close>
named_theorems model_simps \<open>definitions of straight-line operations of the model\<close>

declare sat_add32_def [sat_simps] sat_mul32_def [sat_simps]
  sat_add64_def [sat_simps] sat_mul64_def [sat_simps] sat_mul128_def [sat_simps]

section \<open>Lemmas on the saturating operations\<close>

lemma sat_add32_le [simp, intro]: "sat_add32 a b \<le> u32_max"
  by (simp add: sat_add32_def)

lemma sat_mul32_le [simp, intro]: "sat_mul32 a b \<le> u32_max"
  by (simp add: sat_mul32_def)

lemma sat_add32_exact: "a + b \<le> u32_max \<Longrightarrow> sat_add32 a b = a + b"
  by (simp add: sat_add32_def)

lemma sat_mul32_exact: "a * b \<le> u32_max \<Longrightarrow> sat_mul32 a b = a * b"
  by (simp add: sat_mul32_def)

lemma sat_add32_upper: "sat_add32 a b \<le> a + b"
  by (simp add: sat_add32_def)

lemma sat_add32_mono: "a \<le> a' \<Longrightarrow> b \<le> b' \<Longrightarrow> sat_add32 a b \<le> sat_add32 a' b'"
  by (auto simp: sat_add32_def)

lemma sat_mul32_mono: "a \<le> a' \<Longrightarrow> b \<le> b' \<Longrightarrow> sat_mul32 a b \<le> sat_mul32 a' b'"
  unfolding sat_mul32_def by (intro min.mono mult_le_mono) auto

lemma sat_add32_ge1: "a \<le> u32_max \<Longrightarrow> a \<le> sat_add32 a b"
  by (simp add: sat_add32_def)

text \<open>A saturating sum below the maximum is the exact sum.\<close>

lemma sat_add32_less_max: "sat_add32 a b < u32_max \<Longrightarrow> sat_add32 a b = a + b"
  by (simp add: sat_add32_def split: if_splits)

lemma as_u32_le [simp]: "as_u32 n \<le> n"
  by (simp add: as_u32_def)

lemma as_u32_int_le: "x \<le> int (as_u32 n) \<Longrightarrow> x \<le> int n"
  using as_u32_le [of n] by linarith

lemma as_u32_less [simp]: "as_u32 n < 4294967296"
  by (simp add: as_u32_def)

lemma as_u32_id: "n < 4294967296 \<Longrightarrow> as_u32 n = n"
  by (simp add: as_u32_def)

text \<open>The truncated length of a suffix is what is left of the truncated length.\<close>

lemma as_u32_diff: "d \<le> as_u32 n \<Longrightarrow> as_u32 (n - d) = as_u32 n - d"
proof -
  assume d: "d \<le> as_u32 n"
  have "n - d = 4294967296 * (n div 4294967296) + (as_u32 n - d)"
    using d by (simp add: as_u32_def)
  then have "(n - d) mod 4294967296 = (as_u32 n - d) mod 4294967296" by simp
  also have "\<dots> = as_u32 n - d" using less_imp_diff_less [OF as_u32_less] by (rule mod_less)
  finally show ?thesis by (simp add: as_u32_def)
qed

lemma wrap_sub32_exact: "b \<le> a \<Longrightarrow> a < 4294967296 \<Longrightarrow> wrap_sub32 a b = a - b"
  by (simp add: wrap_sub32_def mod_if)

lemma abs_diff_commute: "abs_diff a b = abs_diff b a"
  by (simp add: abs_diff_def)

lemma clamp_bounds: "lo \<le> hi \<Longrightarrow> lo \<le> clamp x lo hi \<and> clamp x lo hi \<le> hi"
  by (auto simp: clamp_def)

lemma clamp_id: "lo \<le> x \<Longrightarrow> x \<le> hi \<Longrightarrow> clamp x lo hi = x"
  by (auto simp: clamp_def)

lemma div_ceil_upper: "0 < b \<Longrightarrow> a \<le> div_ceil a b * b"
proof -
  assume b: "0 < b"
  have eq: "a = b * (a div b) + a mod b" by simp
  have lt: "a mod b < b" using b by simp
  have "a \<le> b * (a div b) + b" using eq lt by linarith
  moreover have "a mod b = 0 \<Longrightarrow> a = b * (a div b)" using eq by linarith
  ultimately show ?thesis by (auto simp: div_ceil_def algebra_simps)
qed

lemma checked_next_multiple_dvd:
  assumes eq: "checked_next_multiple_of32 a b = Some r"
  shows "b dvd r \<and> a \<le> r \<and> r < a + b \<and> r \<le> u32_max"
proof -
  have b: "0 < b" using eq by (auto simp: checked_next_multiple_of32_def split: if_splits)
  have lt: "a mod b < b" using b by simp
  show ?thesis
  proof (cases "a mod b = 0")
    case True
    then show ?thesis using eq b
      by (auto simp: checked_next_multiple_of32_def Let_def split: if_splits)
  next
    case False
    then have r: "r = a + (b - a mod b)" "r \<le> u32_max"
      using eq by (auto simp: checked_next_multiple_of32_def Let_def split: if_splits)
    have "a + (b - a mod b) = a - a mod b + b" using lt by simp
    then have "b dvd r" using r(1) by (simp add: minus_mod_eq_mult_div)
    then show ?thesis using r lt False by linarith
  qed
qed

section \<open>Lists of bytes\<close>

text \<open>Two consecutive slices of a list are one slice.\<close>

lemma take_append_take_drop: "take m xs @ take n (drop m xs) = take (m + n) xs"
  by (simp add: take_add)

lemma floor_multiple_le: "(n::nat) - n mod k \<le> n"
  by simp

lemma dvd_floor_multiple: "(k::nat) dvd n - n mod k"
  by (simp add: minus_mod_eq_mult_div)

end
