(* ===== verification/OssBuffer.thy ===== *)
theory OssBuffer
  imports Prelude
begin

text \<open>
  The soft-ring policy of the FreeBSD backend
  (crates/freebsd-oss/src/freebsd\_oss/buffer.rs), with the request and geometry records it
  shares with the node (crates/core/src/backend/mod.rs). All of it is pure u32/u64 arithmetic.
  The build-time switch \<open>freebsd_scaled_secondary_buffer\<close> is the argument \<open>scaled\<close>.
\<close>

section \<open>Requests and geometries\<close>

record capture_request =
  cr_period_bytes :: u32
  cr_graph_rate :: u32
  cr_stride :: u32
  cr_device_rate :: u32

record capture_geometry =
  cg_capacity_bytes :: u32
  cg_quantum_bytes :: u32
  cg_target_fill_bytes :: u32
  cg_peak_fill_bytes :: u32
  cg_required_capacity_bytes :: u32
  cg_device_lost :: bool

record playback_request =
  pr_period_bytes :: u32
  pr_graph_rate :: u32
  pr_stride :: u32
  pr_device_rate :: u32
  pr_write_bytes :: u32
  pr_maximum_write_bytes :: u32

record playback_geometry =
  pg_capacity_bytes :: u32
  pg_quantum_bytes :: u32
  pg_target_fill_bytes :: u32
  pg_target_goal_bytes :: u32
  pg_minimum_fill_bytes :: u32
  pg_required_capacity_bytes :: u32
  pg_delay_capped :: bool

section \<open>The policy\<close>

abbreviation BUFFER_CAPACITY_MIN_BYTES :: u32 where
  "BUFFER_CAPACITY_MIN_BYTES \<equiv> 131072"

definition BUFFER_CAPACITY_MAX_BYTES :: "bool \<Rightarrow> u32" where
  "BUFFER_CAPACITY_MAX_BYTES scaled = (if scaled then 4 * 1024 * 1024 else BUFFER_CAPACITY_MIN_BYTES)"

abbreviation BUFFER_CAPACITY_TARGET_MS :: u64 where
  "BUFFER_CAPACITY_TARGET_MS \<equiv> 200"

abbreviation MIN_BUFFER_BYTES :: u32 where
  "MIN_BUFFER_BYTES \<equiv> 65536"

definition buffer_capacity_limit :: "bool \<Rightarrow> u32 \<Rightarrow> u32 \<Rightarrow> u32" where
  "buffer_capacity_limit scaled stride rate =
     (if scaled
      then clamp (sat_mul64 (sat_mul64 stride rate) BUFFER_CAPACITY_TARGET_MS div 1000)
             BUFFER_CAPACITY_MIN_BYTES (BUFFER_CAPACITY_MAX_BYTES scaled)
      else BUFFER_CAPACITY_MIN_BYTES)"

text \<open>\<open>leading_zeros\<close> of a nonzero u32, counted from the position of its highest set bit.\<close>

fun bit_length :: "nat \<Rightarrow> nat" where
  "bit_length n = (if n = 0 then 0 else Suc (bit_length (n div 2)))"

declare bit_length.simps [simp del]

definition leading_zeros32 :: "u32 \<Rightarrow> nat" where
  "leading_zeros32 n = 32 - bit_length n"

definition normalize_fragment :: "u32 \<Rightarrow> u32" where
  "normalize_fragment value =
     (if value = 0 then 0 else clamp (2 ^ (31 - leading_zeros32 value)) 64 16384)"

definition graph_frames_in_device_bytes :: "u64 \<Rightarrow> u32 \<Rightarrow> u32 \<Rightarrow> u32 \<Rightarrow> u32" where
  "graph_frames_in_device_bytes frames device_rate graph_rate stride =
     (if graph_rate = 0 then min (sat_mul64 frames stride) u32_max
      else min (sat_mul64 (sat_mul64 frames device_rate div graph_rate) stride) u32_max)"

definition max_buffer_period_bytes :: "bool \<Rightarrow> u32 \<Rightarrow> u32 \<Rightarrow> u32 \<Rightarrow> u32" where
  "max_buffer_period_bytes scaled stride0 device_rate graph_rate =
     (let stride = max stride0 1;
          default_max = graph_frames_in_device_bytes 2048 device_rate graph_rate stride;
          cap_frames = buffer_capacity_limit scaled stride device_rate div stride div 4
      in min default_max (sat_mul32 cap_frames stride))"

definition advertised_quantum_cap_frames :: "bool \<Rightarrow> u32 \<Rightarrow> u32 \<Rightarrow> u32 option" where
  "advertised_quantum_cap_frames scaled stride0 rate =
     (let stride = max stride0 1;
          frames = buffer_capacity_limit scaled stride rate div stride div 4
      in if rate = 0 \<or> frames * 44100 \<ge> 2048 * rate then None else Some frames)"

definition playback_desired_delay :: "u32 \<Rightarrow> u32 \<Rightarrow> u32" where
  "playback_desired_delay period delay_eighths = sat_mul32 (period div 8) delay_eighths"

definition playback_fill_floor :: "u32 \<Rightarrow> u32 \<Rightarrow> u32" where
  "playback_fill_floor period blocksize = sat_add32 period (max (period div 4) blocksize)"

definition playback_buffer_required :: "u32 \<Rightarrow> u32 \<Rightarrow> u32 \<Rightarrow> u32 \<Rightarrow> u32" where
  "playback_buffer_required period desired blocksize write_max =
     max (sat_add32 (sat_mul32 period 2) desired)
         (sat_add32 (sat_add32 (playback_fill_floor period blocksize) write_max) blocksize)"

definition playback_buffer_request ::
  "bool \<Rightarrow> u32 \<Rightarrow> u32 \<Rightarrow> u32 \<Rightarrow> u32 \<Rightarrow> u32 \<Rightarrow> u32 \<Rightarrow> u32 \<Rightarrow> u32 \<Rightarrow> u32" where
  "playback_buffer_request scaled period max_period stride rate fragment hardware_chunk write_max
     delay_eighths =
     (let fragment_estimate = (if fragment = 0 then 1024 else fragment);
          transfer = max fragment_estimate hardware_chunk;
          stable = playback_buffer_required max_period
                     (playback_desired_delay max_period delay_eighths) transfer max_period
      in min (max (max (playback_buffer_required period
                          (playback_desired_delay period delay_eighths) transfer write_max)
                       stable)
                  MIN_BUFFER_BYTES)
             (buffer_capacity_limit scaled stride rate))"

definition playback_target_delay :: "u32 \<Rightarrow> u32 \<Rightarrow> u32 \<Rightarrow> u32 \<Rightarrow> u32 \<Rightarrow> u32 \<times> bool" where
  "playback_target_delay granted period blocksize write_max desired =
     (if granted \<ge> sat_mul32 period 2
      then let fl = playback_fill_floor period blocksize;
               ceiling = max (sat_sub granted (sat_add32 write_max blocksize)) period;
               wanted = max desired fl
           in (max (min wanted ceiling) period, wanted > ceiling)
      else (granted div 2, False))"

definition capture_fill_targets :: "u32 \<Rightarrow> u32 \<Rightarrow> u32 \<Rightarrow> u32 \<times> u32" where
  "capture_fill_targets period blocksize ring =
     (let target = sat_add32 period (blocksize div 2);
          peak = sat_add32 (sat_add32 target (blocksize div 2)) (period div 2)
      in if ring > 0
         then let ring_peak = sat_sub ring blocksize;
                  min_peak = min (sat_add32 target blocksize) ring_peak
              in (target, max (min peak ring_peak) min_peak)
         else (target, peak))"

definition capture_buffer_request :: "bool \<Rightarrow> u32 \<Rightarrow> u32 \<Rightarrow> u32 \<Rightarrow> u32 \<Rightarrow> u32" where
  "capture_buffer_request scaled period max_period stride rate =
     min (max (max (sat_mul32 period 4) (sat_mul32 max_period 4)) MIN_BUFFER_BYTES)
         (buffer_capacity_limit scaled stride rate)"

definition capture_buffer_required :: "u32 \<Rightarrow> u32 \<Rightarrow> u32" where
  "capture_buffer_required period blocksize =
     (let target = fst (capture_fill_targets period blocksize 0)
      in max (sat_add32 target (sat_mul32 blocksize 2)) (sat_mul32 period 2))"

definition capture_buffer_plan :: "bool \<Rightarrow> capture_request \<Rightarrow> u32 \<Rightarrow> u32 \<times> u32" where
  "capture_buffer_plan scaled req fragment_bytes =
     (let max_period = max_buffer_period_bytes scaled (cr_stride req) (cr_device_rate req)
                         (cr_graph_rate req);
          m = max (cr_period_bytes req) 1024;
          fragment_cap = 2 ^ (31 - leading_zeros32 m);
          fragment = (if fragment_bytes = 0 then 1024 else min fragment_bytes fragment_cap);
          capacity = capture_buffer_request scaled (cr_period_bytes req) max_period
                       (cr_stride req) (cr_device_rate req)
      in (fragment, capacity))"

definition delivery_quantum_bytes :: "u64 \<Rightarrow> u32 \<Rightarrow> u32 \<Rightarrow> u32" where
  "delivery_quantum_bytes ns rate stride0 =
     (let stride = max stride0 1;
          bytes = min (sat_mul128 (sat_mul128 ns rate) stride div 1000000000) u32_max
      in case checked_next_multiple_of32 bytes stride of
           Some r \<Rightarrow> r
         | None \<Rightarrow> u32_max - u32_max mod stride)"

definition capture_applied_geometry ::
  "capture_request \<Rightarrow> u32 \<Rightarrow> u32 \<Rightarrow> u64 \<Rightarrow> capture_geometry" where
  "capture_applied_geometry req capacity_bytes granted_quantum_bytes delivery_quantum_ns =
     (let dq = delivery_quantum_bytes delivery_quantum_ns (cr_device_rate req) (cr_stride req);
          quantum_bytes = max granted_quantum_bytes dq;
          targets = capture_fill_targets (cr_period_bytes req) quantum_bytes capacity_bytes
      in \<lparr>cg_capacity_bytes = capacity_bytes,
          cg_quantum_bytes = quantum_bytes,
          cg_target_fill_bytes = fst targets,
          cg_peak_fill_bytes = snd targets,
          cg_required_capacity_bytes = capture_buffer_required (cr_period_bytes req) quantum_bytes,
          cg_device_lost = False\<rparr>)"

definition playback_buffer_plan ::
  "bool \<Rightarrow> playback_request \<Rightarrow> u64 \<Rightarrow> u32 \<Rightarrow> u32 \<Rightarrow> u32 \<times> u32" where
  "playback_buffer_plan scaled req delivery_quantum_ns fragment_bytes delay_eighths =
     (let hardware_quantum =
            delivery_quantum_bytes delivery_quantum_ns (pr_device_rate req) (pr_stride req);
          write_max = max (pr_period_bytes req) (pr_maximum_write_bytes req);
          max_period = max_buffer_period_bytes scaled (pr_stride req) (pr_device_rate req)
                         (pr_graph_rate req);
          capacity = playback_buffer_request scaled (pr_period_bytes req) max_period (pr_stride req)
                       (pr_device_rate req) fragment_bytes hardware_quantum write_max delay_eighths
      in (capacity, hardware_quantum))"

definition playback_applied_geometry ::
  "playback_request \<Rightarrow> u32 \<Rightarrow> u32 \<Rightarrow> u64 \<Rightarrow> u32 \<Rightarrow> playback_geometry" where
  "playback_applied_geometry req capacity_bytes granted_quantum_bytes delivery_quantum_ns
     delay_eighths =
     (let hardware_quantum =
            delivery_quantum_bytes delivery_quantum_ns (pr_device_rate req) (pr_stride req);
          quantum_bytes = max granted_quantum_bytes hardware_quantum;
          write_max = max (pr_period_bytes req) (pr_maximum_write_bytes req);
          desired = playback_desired_delay (pr_period_bytes req) delay_eighths;
          td = playback_target_delay capacity_bytes (pr_period_bytes req) quantum_bytes write_max
                 desired
      in \<lparr>pg_capacity_bytes = capacity_bytes,
          pg_quantum_bytes = quantum_bytes,
          pg_target_fill_bytes = fst td,
          pg_target_goal_bytes = fst td,
          pg_minimum_fill_bytes = playback_fill_floor (pr_period_bytes req) quantum_bytes,
          pg_required_capacity_bytes =
            playback_buffer_required (pr_period_bytes req) desired quantum_bytes write_max,
          pg_delay_capped = snd td\<rparr>)"

definition playback_retuned_geometry ::
  "playback_request \<Rightarrow> u32 \<Rightarrow> u32 \<Rightarrow> u64 \<Rightarrow> u32 \<Rightarrow> u32 \<Rightarrow> playback_geometry" where
  "playback_retuned_geometry req capacity_bytes granted_quantum_bytes delivery_quantum_ns
     current_fill_bytes delay_eighths =
     (let geometry = playback_applied_geometry req capacity_bytes granted_quantum_bytes
                       delivery_quantum_ns delay_eighths;
          predicted = sat_sub (sat_add32 current_fill_bytes (pr_write_bytes req))
                        (pr_period_bytes req)
      in geometry\<lparr>pg_target_fill_bytes := min (pg_target_goal_bytes geometry) predicted\<rparr>)"

section \<open>Powers of two and the fragment size\<close>

lemma bit_length_bounds: "0 < n \<Longrightarrow> 2 ^ (bit_length n - 1) \<le> n \<and> n < 2 ^ bit_length n \<and> 0 < bit_length n"
proof (induction n rule: bit_length.induct)
  case (1 n)
  show ?case
  proof (cases "n div 2 = 0")
    case True
    with "1.prems" have "n = 1" by simp
    then show ?thesis by (simp add: bit_length.simps)
  next
    case False
    with 1 have ih: "2 ^ (bit_length (n div 2) - 1) \<le> n div 2" "n div 2 < 2 ^ bit_length (n div 2)"
      "0 < bit_length (n div 2)" by auto
    have bl: "bit_length n = Suc (bit_length (n div 2))"
      using "1.prems" by (simp add: bit_length.simps [of n])
    obtain k where k: "bit_length (n div 2) = Suc k" using ih(3) gr0_implies_Suc by blast
    show ?thesis using ih by (simp add: bl k) linarith
  qed
qed

lemma bit_length_le: "n < 2 ^ k \<Longrightarrow> bit_length n \<le> k"
proof (rule ccontr)
  assume n: "n < 2 ^ k" and "\<not> bit_length n \<le> k"
  then have k: "k \<le> bit_length n - 1" and "0 < bit_length n" by linarith+
  then have "0 < n" by (cases n) (auto simp: bit_length.simps [of 0])
  then have "2 ^ (bit_length n - 1) \<le> n" using bit_length_bounds by blast
  moreover have "(2::nat) ^ k \<le> 2 ^ (bit_length n - 1)" using k by (simp add: power_increasing)
  ultimately show False using n by linarith
qed

lemma highest_bit32:
  assumes "0 < n" "n \<le> u32_max"
  shows "2 ^ (31 - leading_zeros32 n) \<le> n \<and> n < 2 * 2 ^ (31 - leading_zeros32 n)"
proof -
  have "bit_length n \<le> 32" using assms(2) by (intro bit_length_le) simp
  then have eq: "31 - leading_zeros32 n = bit_length n - 1" by (simp add: leading_zeros32_def)
  obtain k where k: "bit_length n = Suc k" using bit_length_bounds [OF assms(1)] gr0_implies_Suc by blast
  show ?thesis using bit_length_bounds [OF assms(1)] by (simp add: eq k)
qed

lemma clamp_pow2: "\<exists>k. clamp (2 ^ j) 64 16384 = (2::nat) ^ k \<and> 6 \<le> k \<and> k \<le> 14"
proof -
  consider "j < 6" | "6 \<le> j" "j \<le> 14" | "14 < j" by linarith
  then show ?thesis
  proof cases
    case 1
    have "(2::nat) ^ j < 2 ^ 6" using 1 by (intro power_strict_increasing) auto
    then have "clamp (2 ^ j) 64 16384 = (2::nat) ^ 6" by (simp add: clamp_def)
    then show ?thesis by (intro exI [of _ 6]) simp
  next
    case 2
    have "(2::nat) ^ 6 \<le> 2 ^ j" "(2::nat) ^ j \<le> 2 ^ 14"
      using 2 by (simp_all only: power_increasing one_le_numeral)
    then have "clamp (2 ^ j) 64 16384 = (2::nat) ^ j" by (intro clamp_id) auto
    then show ?thesis using 2 by blast
  next
    case 3
    have "(2::nat) ^ 14 < 2 ^ j" using 3 by (intro power_strict_increasing) auto
    then have "clamp (2 ^ j) 64 16384 = (2::nat) ^ 14" by (simp add: clamp_def)
    then show ?thesis by (intro exI [of _ 14]) simp
  qed
qed

lemma normalize_fragment_pow2:
  "0 < v \<Longrightarrow> \<exists>k. normalize_fragment v = 2 ^ k \<and> 6 \<le> k \<and> k \<le> 14"
  using clamp_pow2 [of "31 - leading_zeros32 v"] by (simp add: normalize_fragment_def)

section \<open>Bounds of the ring requests\<close>

lemma capacity_limit_bounds:
  "BUFFER_CAPACITY_MIN_BYTES \<le> buffer_capacity_limit scaled stride rate
   \<and> buffer_capacity_limit scaled stride rate \<le> BUFFER_CAPACITY_MAX_BYTES scaled"
  by (auto simp: buffer_capacity_limit_def BUFFER_CAPACITY_MAX_BYTES_def clamp_def)

lemma playback_request_le_limit:
  "playback_buffer_request scaled p mp st r f hc wm d \<le> buffer_capacity_limit scaled st r"
  by (simp add: playback_buffer_request_def Let_def)

lemma playback_required_mono:
  assumes "p \<le> p'" "d \<le> d'" "b \<le> b'" "w \<le> w'"
  shows "playback_buffer_required p d b w \<le> playback_buffer_required p' d' b' w'"
proof -
  have "playback_fill_floor p b \<le> playback_fill_floor p' b'"
    unfolding playback_fill_floor_def using assms
    by (intro sat_add32_mono max.mono div_le_mono) auto
  then show ?thesis unfolding playback_buffer_required_def using assms
    by (intro max.mono sat_add32_mono sat_mul32_mono) auto
qed

lemma playback_desired_mono: "p \<le> p' \<Longrightarrow> playback_desired_delay p e \<le> playback_desired_delay p' e"
  unfolding playback_desired_delay_def by (intro sat_mul32_mono div_le_mono) auto

lemma playback_target_le_granted:
  "fst (playback_target_delay granted period blocksize write_max desired) \<le> granted
   \<or> period > u32_max"
proof -
  have "granted \<ge> sat_mul32 period 2 \<Longrightarrow> period \<le> u32_max \<Longrightarrow> period \<le> granted"
    by (auto simp: sat_mul32_def split: if_splits)
  then show ?thesis by (auto simp: playback_target_delay_def Let_def)
qed

lemma capture_targets_small:
  "0 < ring \<Longrightarrow> snd (capture_fill_targets period q ring) \<le> ring - q"
  by (simp add: capture_fill_targets_def Let_def)

lemma capture_targets_fst: "fst (capture_fill_targets period q ring) = sat_add32 period (q div 2)"
  by (simp add: capture_fill_targets_def Let_def)

lemma capture_targets_fit:
  assumes "0 < ring" "ring < u32_max" "sat_add32 period (q div 2) + 2 * q \<le> ring"
  shows "fst (capture_fill_targets period q ring) + q \<le> snd (capture_fill_targets period q ring)
    \<and> snd (capture_fill_targets period q ring) + q \<le> ring"
proof -
  have "sat_add32 (sat_add32 period (q div 2)) q = sat_add32 period (q div 2) + q"
    using assms(2,3) by (intro sat_add32_exact) linarith
  then have "fst (capture_fill_targets period q ring) + q \<le> snd (capture_fill_targets period q ring)"
    using assms by (simp add: capture_fill_targets_def Let_def)
  moreover have "snd (capture_fill_targets period q ring) + q \<le> ring"
    using capture_targets_small [OF assms(1), of period q] assms(3) by linarith
  ultimately show ?thesis ..
qed

lemma capture_required_eq:
  "capture_buffer_required period q =
     max (sat_add32 (sat_add32 period (q div 2)) (sat_mul32 q 2)) (sat_mul32 period 2)"
  by (simp add: capture_buffer_required_def capture_targets_fst Let_def)

lemma retuned_target_le_goal:
  "pg_target_fill_bytes (playback_retuned_geometry req cap q ns fill e)
     \<le> pg_target_goal_bytes (playback_retuned_geometry req cap q ns fill e)"
  by (simp add: playback_retuned_geometry_def Let_def)

lemma applied_target_eq_goal:
  "pg_target_fill_bytes (playback_applied_geometry req cap q ns e)
     = pg_target_goal_bytes (playback_applied_geometry req cap q ns e)"
  by (simp add: playback_applied_geometry_def Let_def)

lemma retuned_frame:
  "pg_capacity_bytes (playback_retuned_geometry req cap q ns fill e) = cap"
  "pg_quantum_bytes (playback_retuned_geometry req cap q ns fill e)
     = pg_quantum_bytes (playback_applied_geometry req cap q ns e)"
  "pg_target_goal_bytes (playback_retuned_geometry req cap q ns fill e)
     = pg_target_goal_bytes (playback_applied_geometry req cap q ns e)"
  by (simp_all add: playback_retuned_geometry_def playback_applied_geometry_def Let_def)

section \<open>Properties\<close>

text \<open>C5. A playback ring at least as large as \<open>playback_buffer_required\<close> asks for leaves safe
  headroom: the fill target the code computes is at least the healthy floor (one period and a
  jitter margin), and the target plus the largest write plus one delivery quantum fits the ring.\<close>

theorem playback_grant_at_required_has_safe_headroom:
  assumes fits: "playback_buffer_required period desired q wm \<le> granted"
    and small: "granted < u32_max"
  shows "playback_fill_floor period q \<le> fst (playback_target_delay granted period q wm desired)
    \<and> fst (playback_target_delay granted period q wm desired) + wm + q \<le> granted"
proof -
  let ?fl = "playback_fill_floor period q"
  have 1: "sat_add32 (sat_add32 ?fl wm) q \<le> granted" and 2: "sat_add32 (sat_mul32 period 2) desired \<le> granted"
    using fits by (auto simp: playback_buffer_required_def)
  have e1: "sat_add32 (sat_add32 ?fl wm) q = ?fl + wm + q"
    using 1 small by (auto simp: sat_simps split: if_splits)
  have "sat_add32 (sat_mul32 period 2) desired = sat_mul32 period 2 + desired"
    using 2 small by (intro sat_add32_less_max) linarith
  then have e2: "sat_mul32 period 2 \<le> granted" using 2 by linarith
  have e3: "sat_add32 wm q = wm + q" using 1 e1 small by (intro sat_add32_exact) linarith
  have p: "period \<le> ?fl" using 1 e1 small by (auto simp: playback_fill_floor_def sat_simps split: if_splits)
  have c: "?fl \<le> granted - (wm + q)" using 1 e1 by linarith
  show ?thesis
    using e2 e3 p c 1 e1 by (auto simp: playback_target_delay_def Let_def)
qed

theorem playback_grant_at_required_has_safe_headroom_witness:
  "playback_fill_floor 16384 2048 \<le> fst (playback_target_delay 65536 16384 2048 16384 0)
    \<and> fst (playback_target_delay 65536 16384 2048 16384 0) + 16384 + 2048 \<le> 65536"
  by (rule playback_grant_at_required_has_safe_headroom)
    (simp_all add: playback_buffer_required_def playback_fill_floor_def sat_simps)

text \<open>The playback ring request is stable: unless the kernel's capacity limit cuts it, a ring of
  the requested size satisfies the requirement of every later period up to the largest negotiable
  one (with writes up to that period and the same delivery transfer), so such a change retunes in
  place.\<close>

theorem playback_request_covers_later_periods:
  assumes "playback_buffer_request scaled period max_period stride rate fragment hw wm e
             < buffer_capacity_limit scaled stride rate"
    and "p' \<le> max_period" and "w' \<le> max_period"
    and "q' \<le> max (if fragment = 0 then 1024 else fragment) hw"
  shows "playback_buffer_required p' (playback_desired_delay p' e) q' w'
    \<le> playback_buffer_request scaled period max_period stride rate fragment hw wm e"
proof -
  let ?t = "max (if fragment = 0 then 1024 else fragment) hw"
  have "playback_buffer_required p' (playback_desired_delay p' e) q' w'
      \<le> playback_buffer_required max_period (playback_desired_delay max_period e) ?t max_period"
    using assms(2-4) by (intro playback_required_mono playback_desired_mono) auto
  also have "\<dots> \<le> playback_buffer_request scaled period max_period stride rate fragment hw wm e"
    using assms(1) unfolding playback_buffer_request_def Let_def by linarith
  finally show ?thesis .
qed

theorem playback_request_covers_later_periods_witness:
  "playback_buffer_required 8192 (playback_desired_delay 8192 4) 1024 16384
    \<le> playback_buffer_request False 4096 16384 8 48000 0 1024 4096 4"
proof (rule playback_request_covers_later_periods)
  show "playback_buffer_request False 4096 16384 8 48000 0 1024 4096 4
      < buffer_capacity_limit False 8 48000"
    unfolding playback_buffer_request_def Let_def
    by (simp add: playback_desired_delay_def playback_buffer_required_def playback_fill_floor_def
      buffer_capacity_limit_def sat_simps)
qed simp_all

text \<open>On a capture ring that meets \<open>capture_buffer_required\<close>, the catch-up threshold leaves a
  whole arrival above the target and a whole arrival below the end of the ring; on any other ring
  it still stays one arrival below the end.\<close>

theorem capture_targets_leave_an_arrival:
  assumes "0 < ring" "ring < u32_max"
  shows "snd (capture_fill_targets period q ring) \<le> ring - q
    \<and> (capture_buffer_required period q \<le> ring \<longrightarrow>
        fst (capture_fill_targets period q ring) = period + q div 2
        \<and> fst (capture_fill_targets period q ring) + q \<le> snd (capture_fill_targets period q ring)
        \<and> snd (capture_fill_targets period q ring) + q \<le> ring)"
proof -
  let ?t = "sat_add32 period (q div 2)"
  have "?t = period + q div 2 \<and> ?t + 2 * q \<le> ring" if "capture_buffer_required period q \<le> ring"
  proof -
    have "sat_add32 ?t (sat_mul32 q 2) < u32_max" "sat_add32 ?t (sat_mul32 q 2) \<le> ring"
      using that assms(2) by (auto simp: capture_required_eq)
    then show ?thesis by (auto simp: sat_simps split: if_splits)
  qed
  then show ?thesis
    using capture_targets_small [OF assms(1), of period q] capture_targets_fst [of period q ring]
      capture_targets_fit [OF assms, of period q] by auto
qed

theorem capture_targets_leave_an_arrival_witness:
  "snd (capture_fill_targets 4096 2048 16384) \<le> 16384 - 2048
    \<and> fst (capture_fill_targets 4096 2048 16384) = 4096 + 2048 div 2
    \<and> fst (capture_fill_targets 4096 2048 16384) + 2048 \<le> snd (capture_fill_targets 4096 2048 16384)
    \<and> snd (capture_fill_targets 4096 2048 16384) + 2048 \<le> 16384"
proof -
  have "capture_buffer_required 4096 2048 \<le> 16384"
    by (simp add: capture_required_eq sat_simps)
  then show ?thesis using capture_targets_leave_an_arrival [of 16384 4096 2048] by simp
qed

text \<open>The fragment override is normalized to a power of two between 64 and 16384 that never
  exceeds a request of at least 64 bytes and is more than half of a request below 32768; the
  normalization is idempotent and keeps 0 (automatic).\<close>

theorem normalize_fragment_correct:
  assumes "v \<le> u32_max"
  shows "normalize_fragment 0 = 0
    \<and> (0 < v \<longrightarrow> (\<exists>k. normalize_fragment v = 2 ^ k \<and> 6 \<le> k \<and> k \<le> 14))
    \<and> (64 \<le> v \<longrightarrow> normalize_fragment v \<le> v)
    \<and> (64 \<le> v \<and> v < 32768 \<longrightarrow> v < 2 * normalize_fragment v)
    \<and> normalize_fragment (normalize_fragment v) = normalize_fragment v"
proof -
  let ?h = "(2::nat) ^ (31 - leading_zeros32 v)"
  have hb: "0 < v \<Longrightarrow> ?h \<le> v \<and> v < 2 * ?h" using highest_bit32 assms by blast
  have range: "0 < v \<Longrightarrow> 64 \<le> normalize_fragment v \<and> normalize_fragment v \<le> 16384"
    using clamp_bounds [of 64 16384 ?h] by (simp add: normalize_fragment_def)
  have idem: "normalize_fragment (2 ^ k) = 2 ^ k" if "6 \<le> k" "k \<le> 14" for k
  proof -
    have le: "(2::nat) ^ k \<le> 2 ^ 14" and ge: "(2::nat) ^ 6 \<le> 2 ^ k"
      using that by (simp_all only: power_increasing one_le_numeral)
    let ?j = "31 - leading_zeros32 (2 ^ k)"
    have "(2::nat) ^ ?j \<le> 2 ^ k \<and> (2::nat) ^ k < 2 ^ Suc ?j"
      using highest_bit32 [of "2 ^ k"] le by simp
    then have "?j = k" by (metis le_antisym not_less_eq_eq one_less_numeral_iff
      power_increasing_iff power_strict_increasing_iff semiring_norm(76) not_le)
    then show ?thesis using le ge by (simp add: normalize_fragment_def clamp_def)
  qed
  show ?thesis
  proof (cases "v = 0")
    case True
    then show ?thesis by (simp add: normalize_fragment_def)
  next
    case False
    then obtain k where k: "normalize_fragment v = 2 ^ k" "6 \<le> k" "k \<le> 14"
      using normalize_fragment_pow2 by blast
    have le: "64 \<le> v \<Longrightarrow> normalize_fragment v \<le> v"
      using hb False by (auto simp: normalize_fragment_def clamp_def)
    have half: "64 \<le> v \<Longrightarrow> v < 32768 \<Longrightarrow> v < 2 * normalize_fragment v"
      using hb False by (auto simp: normalize_fragment_def clamp_def)
    show ?thesis using k le half idem [OF k(2,3)] by (auto simp: normalize_fragment_def [of 0])
  qed
qed

theorem normalize_fragment_correct_witness:
  "normalize_fragment 0 = 0 \<and> (\<exists>k. normalize_fragment 1000 = 2 ^ k \<and> 6 \<le> k \<and> k \<le> 14)
    \<and> normalize_fragment 1000 \<le> 1000 \<and> 1000 < 2 * normalize_fragment 1000
    \<and> normalize_fragment (normalize_fragment 1000) = normalize_fragment 1000"
  using normalize_fragment_correct [of 1000] by simp

end
