(* ===== verification/Backend.thy ===== *)
theory Backend
  imports OssBuffer
begin

text \<open>
  The backend-neutral vocabulary of crates/core/src/backend/mod.rs: stream identities and wake
  snapshots, the xrun observations and their tracker, I/O outcomes, stream configurations and
  capability sets, and silence patterns. Enumerations keep the constructors of the source. The
  numeric values of the SPA sample-format constants belong to the SPA headers, so a sample format
  is a value of \<open>audio_format\<close> with one constructor per constant the code names and one
  for all others.
\<close>

section \<open>Stream identity, observations and wakes\<close>

type_synonym stream_token = u64

definition token_for_port :: "nat \<Rightarrow> stream_token" where
  "token_for_port index = index + 1"

record stream_identity =
  si_token :: stream_token
  si_generation :: u64

datatype observation_quality = Exact | Estimated

record queue_observation =
  qo_fill_bytes :: u64
  qo_quality :: observation_quality

datatype wake_timing = Readiness | NotificationTime | ObservedTime

datatype clock_scope = DeviceScope | StreamScope

record position_observation =
  po_frames :: u64
  po_scope :: clock_scope
  po_quality :: observation_quality

record timestamp_observation =
  to_monotonic_ns :: u64
  to_accuracy_ns :: "u64 option"
  to_quality :: observation_quality

record clock_observation =
  co_position :: "position_observation option"
  co_timestamp :: "timestamp_observation option"

datatype xrun_unit = Events | Frames | Bytes

fun xrun_unit_index :: "xrun_unit \<Rightarrow> nat" where
  "xrun_unit_index Events = 0"
| "xrun_unit_index Frames = 1"
| "xrun_unit_index Bytes = 2"

datatype counter_update = Delta | Snapshot | WrappingSnapshot u64 | ResettingTotal

record xrun_observation =
  xo_counter :: u64
  xo_value :: u64
  xo_unit :: xrun_unit
  xo_update :: counter_update
  xo_quality :: observation_quality

abbreviation (input) XRUN_COUNTER_PRIMARY :: u64 where
  "XRUN_COUNTER_PRIMARY \<equiv> 0"

definition resetting_events :: "u32 \<Rightarrow> xrun_observation" where
  "resetting_events value =
     \<lparr>xo_counter = XRUN_COUNTER_PRIMARY, xo_value = value, xo_unit = Events,
      xo_update = ResettingTotal, xo_quality = Exact\<rparr>"

definition wrapping_events_u32 :: "u32 \<Rightarrow> xrun_observation" where
  "wrapping_events_u32 value =
     \<lparr>xo_counter = XRUN_COUNTER_PRIMARY, xo_value = value, xo_unit = Events,
      xo_update = WrappingSnapshot (2 ^ 32), xo_quality = Exact\<rparr>"

datatype stream_wake_state = WakeActive | WakeReconfigure | WakeDisconnected

fun wake_state_requires_rebuild :: "stream_wake_state \<Rightarrow> bool" where
  "wake_state_requires_rebuild WakeReconfigure = True"
| "wake_state_requires_rebuild WakeDisconnected = True"
| "wake_state_requires_rebuild WakeActive = False"

record stream_wake =
  sw_stream :: stream_identity
  sw_timing :: wake_timing
  sw_ready_bytes :: "u32 option"
  sw_queue :: "queue_observation option"
  sw_clock :: "clock_observation option"
  sw_xruns :: "xrun_observation option"
  sw_state :: stream_wake_state

record wake_buffer_state =
  wb_frame_stride :: u32
  wb_period_bytes :: u32
  wb_quantum_bytes :: u32
  wb_capacity_bytes :: u32
  wb_target_fill_bytes :: u32

datatype wake_event = TimerEvent | StreamEvent stream_wake

section \<open>The xrun tracker\<close>

record xrun_delta =
  xd_events :: u32
  xd_lost_frames :: "u64 option"
  xd_lost_bytes :: "u64 option"
  xd_quality :: "observation_quality option"

definition xrun_delta_default :: xrun_delta where
  "xrun_delta_default = \<lparr>xd_events = 0, xd_lost_frames = None, xd_lost_bytes = None, xd_quality = None\<rparr>"

record xrun_baseline =
  xb_counter :: u64
  xb_value :: u64
  xb_wrapping_modulus :: "u64 option"

text \<open>\<open>previous: [Option<XrunBaseline>; 3]\<close>, one slot per unit.\<close>

type_synonym xrun_tracker = "xrun_baseline option list"

definition tracker_default :: xrun_tracker where
  "tracker_default = [None, None, None]"

definition tracker_reset :: "xrun_tracker \<Rightarrow> xrun_tracker" where
  "tracker_reset _ = [None, None, None]"

definition cumulative_delta :: "u64 \<Rightarrow> xrun_baseline option \<Rightarrow> u64" where
  "cumulative_delta current previous =
     (case previous of
        None \<Rightarrow> current
      | Some p \<Rightarrow>
         (let plain = (if current \<ge> xb_value p then current - xb_value p else current)
          in case xb_wrapping_modulus p of
               Some modulus \<Rightarrow>
                 if modulus > 0
                 then let c = current mod modulus; v = xb_value p mod modulus
                      in if c \<ge> v then c - v else modulus - v + c
                 else plain
             | None \<Rightarrow> plain))"

definition tracker_delta :: "xrun_tracker \<Rightarrow> xrun_observation \<Rightarrow> u64 \<times> xrun_tracker" where
  "tracker_delta tr obs =
     (let i = xrun_unit_index (xo_unit obs);
          matching = (case tr ! i of
                        Some b \<Rightarrow> if xb_counter b = xo_counter obs then Some b else None
                      | None \<Rightarrow> None)
      in case xo_update obs of
           Delta \<Rightarrow> (xo_value obs, tr)
         | ResettingTotal \<Rightarrow> (cumulative_delta (xo_value obs) matching, tr[i := None])
         | Snapshot \<Rightarrow>
             (cumulative_delta (xo_value obs) matching,
              tr[i := Some \<lparr>xb_counter = xo_counter obs, xb_value = xo_value obs,
                            xb_wrapping_modulus = None\<rparr>])
         | WrappingSnapshot modulus \<Rightarrow>
             (cumulative_delta (xo_value obs)
                (map_option (\<lambda>b. b\<lparr>xb_wrapping_modulus := Some modulus\<rparr>) matching),
              tr[i := Some \<lparr>xb_counter = xo_counter obs, xb_value = xo_value obs,
                            xb_wrapping_modulus = Some modulus\<rparr>]))"

definition observe :: "xrun_tracker \<Rightarrow> xrun_observation \<Rightarrow> xrun_delta \<times> xrun_tracker" where
  "observe tr obs =
     (let (delta, tr') = tracker_delta tr obs;
          flag = (if delta \<noteq> 0 then 1 else 0)
      in (case xo_unit obs of
            Events \<Rightarrow> xrun_delta_default\<lparr>xd_events := min delta u32_max, xd_quality := Some (xo_quality obs)\<rparr>
          | Frames \<Rightarrow> \<lparr>xd_events = flag, xd_lost_frames = Some delta, xd_lost_bytes = None,
                       xd_quality = Some (xo_quality obs)\<rparr>
          | Bytes \<Rightarrow> \<lparr>xd_events = flag, xd_lost_frames = None, xd_lost_bytes = Some delta,
                      xd_quality = Some (xo_quality obs)\<rparr>,
          tr'))"

section \<open>I/O outcomes\<close>

datatype io_status = Progress | WouldBlock | RecoveredXrun | Reconfigure | Disconnected | Fatal int

fun io_requires_rebuild :: "io_status \<Rightarrow> bool" where
  "io_requires_rebuild Reconfigure = True"
| "io_requires_rebuild Disconnected = True"
| "io_requires_rebuild (Fatal _) = True"
| "io_requires_rebuild _ = False"

record write_outcome =
  wo_bytes :: usize
  wo_status :: io_status

record read_outcome =
  ro_bytes :: usize
  ro_status :: io_status

definition write_consumed :: "usize \<Rightarrow> write_outcome" where
  "write_consumed bytes = \<lparr>wo_bytes = bytes, wo_status = Progress\<rparr>"

definition would_block :: "write_outcome \<Rightarrow> bool" where
  "would_block w \<longleftrightarrow> wo_bytes w = 0 \<and> wo_status w = WouldBlock"

definition retryable_partial :: "write_outcome \<Rightarrow> bool" where
  "retryable_partial w \<longleftrightarrow> wo_status w \<in> {Progress, WouldBlock, RecoveredXrun}"

record buffer_layout =
  bl_queued_bytes :: u32
  bl_quantum_bytes :: u32
  bl_capacity_bytes :: u32

datatype capture_retune =
  CRUnchanged | CRPending | CRApplied capture_geometry | CRReprime | CRRebuild

datatype playback_retune =
  PRUnchanged | PRPending | PRApplied playback_geometry | PRReprime | PRRebuild

datatype pause_outcome = Preserved | PauseReprime

datatype quantum_quality = QExact | QEstimated | QVariable | QUnavailable

record delivery_quantum =
  dq_frames :: u32
  dq_rate :: u32
  dq_quality :: quantum_quality

definition dq_unavailable :: delivery_quantum where
  "dq_unavailable = \<lparr>dq_frames = 0, dq_rate = 0, dq_quality = QUnavailable\<rparr>"

definition duration_ns :: "delivery_quantum \<Rightarrow> u64" where
  "duration_ns dq = (if dq_frames dq = 0 \<or> dq_rate dq = 0 then 0
                     else dq_frames dq * 1000000000 div dq_rate dq)"

section \<open>Stream configurations\<close>

datatype audio_format =
    FMT_S8 | FMT_U8 | FMT_U8P | FMT_ULAW | FMT_ALAW
  | FMT_S16_LE | FMT_S16_BE | FMT_U16_LE | FMT_U16_BE
  | FMT_S24_LE | FMT_S24_BE | FMT_U24_LE | FMT_U24_BE
  | FMT_S20_LE | FMT_S20_BE | FMT_U20_LE | FMT_U20_BE
  | FMT_S18_LE | FMT_S18_BE | FMT_U18_LE | FMT_U18_BE
  | FMT_S24_32_LE | FMT_S24_32_BE | FMT_U24_32_LE | FMT_U24_32_BE
  | FMT_S32_LE | FMT_S32_BE | FMT_U32_LE | FMT_U32_BE
  | FMT_F32_LE | FMT_F32_BE | FMT_F64_LE | FMT_F64_BE
  | FMT_OTHER u32

record stream_config =
  sc_format :: audio_format
  sc_rate :: u32
  sc_channels :: u32
  sc_positions :: "u32 list"
  sc_flags :: u32
  sc_stride :: u32

record applied_buffer_geometry =
  ab_capacity_bytes :: "u32 option"
  ab_quantum_bytes :: "u32 option"
  ab_delivery :: delivery_quantum

definition bytes_per_sample :: "audio_format \<Rightarrow> u32 option" where
  "bytes_per_sample f =
     (if f \<in> {FMT_S8, FMT_U8, FMT_ULAW, FMT_ALAW} then Some 1
      else if f \<in> {FMT_S16_LE, FMT_S16_BE, FMT_U16_LE, FMT_U16_BE} then Some 2
      else if f \<in> {FMT_S24_LE, FMT_S24_BE, FMT_U24_LE, FMT_U24_BE, FMT_S20_LE, FMT_S20_BE,
                   FMT_U20_LE, FMT_U20_BE, FMT_S18_LE, FMT_S18_BE, FMT_U18_LE, FMT_U18_BE} then Some 3
      else if f \<in> {FMT_S24_32_LE, FMT_S24_32_BE, FMT_U24_32_LE, FMT_U24_32_BE, FMT_S32_LE,
                   FMT_S32_BE, FMT_U32_LE, FMT_U32_BE, FMT_F32_LE, FMT_F32_BE} then Some 4
      else if f \<in> {FMT_F64_LE, FMT_F64_BE} then Some 8
      else None)"

text \<open>\<open>AdjustmentFlags::between\<close>: one bit per group of fields that differ.\<close>

definition adjustment_between :: "stream_config \<Rightarrow> stream_config \<Rightarrow> u32" where
  "adjustment_between requested applied =
     (if sc_format requested \<noteq> sc_format applied then 1 else 0)
   + (if sc_rate requested \<noteq> sc_rate applied then 2 else 0)
   + (if sc_channels requested \<noteq> sc_channels applied \<or> sc_stride requested \<noteq> sc_stride applied
      then 4 else 0)
   + (if sc_positions requested \<noteq> sc_positions applied \<or> sc_flags requested \<noteq> sc_flags applied
      then 8 else 0)"

definition adjustment_is_empty :: "u32 \<Rightarrow> bool" where
  "adjustment_is_empty flags \<longleftrightarrow> flags = 0"

section \<open>Silence patterns\<close>

record silence_pattern =
  sp_bytes :: "byte list"
  sp_len :: nat
  sp_frame_multiple :: usize

definition silence_zero :: "usize \<Rightarrow> silence_pattern" where
  "silence_zero frame_multiple =
     \<lparr>sp_bytes = replicate 8 0, sp_len = 1, sp_frame_multiple = frame_multiple\<rparr>"

fun silence_encoding :: "audio_format \<Rightarrow> byte list \<times> nat" where
  "silence_encoding FMT_U8 = ([0x80, 0, 0, 0, 0, 0, 0, 0], 1)"
| "silence_encoding FMT_U8P = ([0x80, 0, 0, 0, 0, 0, 0, 0], 1)"
| "silence_encoding FMT_U16_LE = ([0x00, 0x80, 0, 0, 0, 0, 0, 0], 2)"
| "silence_encoding FMT_U16_BE = ([0x80, 0x00, 0, 0, 0, 0, 0, 0], 2)"
| "silence_encoding FMT_U24_LE = ([0x00, 0x00, 0x80, 0, 0, 0, 0, 0], 3)"
| "silence_encoding FMT_U24_BE = ([0x80, 0x00, 0x00, 0, 0, 0, 0, 0], 3)"
| "silence_encoding FMT_U20_LE = ([0x00, 0x00, 0x08, 0, 0, 0, 0, 0], 3)"
| "silence_encoding FMT_U20_BE = ([0x08, 0x00, 0x00, 0, 0, 0, 0, 0], 3)"
| "silence_encoding FMT_U18_LE = ([0x00, 0x00, 0x02, 0, 0, 0, 0, 0], 3)"
| "silence_encoding FMT_U18_BE = ([0x02, 0x00, 0x00, 0, 0, 0, 0, 0], 3)"
| "silence_encoding FMT_U24_32_LE = ([0x00, 0x00, 0x80, 0x00, 0, 0, 0, 0], 4)"
| "silence_encoding FMT_U24_32_BE = ([0x00, 0x80, 0x00, 0x00, 0, 0, 0, 0], 4)"
| "silence_encoding FMT_U32_LE = ([0x00, 0x00, 0x00, 0x80, 0, 0, 0, 0], 4)"
| "silence_encoding FMT_U32_BE = ([0x80, 0x00, 0x00, 0x00, 0, 0, 0, 0], 4)"
| "silence_encoding FMT_ULAW = ([0xff, 0, 0, 0, 0, 0, 0, 0], 1)"
| "silence_encoding FMT_ALAW = ([0x55, 0, 0, 0, 0, 0, 0, 0], 1)"
| "silence_encoding _ = (replicate 8 0, 1)"

definition silence_for_config :: "stream_config \<Rightarrow> silence_pattern" where
  "silence_for_config config =
     (let (bytes, len) = silence_encoding (sc_format config)
      in \<lparr>sp_bytes = bytes, sp_len = len, sp_frame_multiple = max (sc_stride config) 1\<rparr>)"

text \<open>\<open>fill_at\<close> overwrites its whole output slice; the model returns the new contents of a slice of
  \<open>n\<close> bytes.\<close>

definition silence_fill_at :: "silence_pattern \<Rightarrow> usize \<Rightarrow> usize \<Rightarrow> byte list" where
  "silence_fill_at sp frame_offset n =
     (let pattern = take (sp_len sp) (sp_bytes sp);
          frame_multiple = max (sp_frame_multiple sp) 1
      in map (\<lambda>index. pattern ! (((frame_offset + index) mod frame_multiple) mod length pattern)) [0..<n])"

definition silence_fill :: "silence_pattern \<Rightarrow> usize \<Rightarrow> byte list" where
  "silence_fill sp n = silence_fill_at sp 0 n"

definition uniform_byte :: "silence_pattern \<Rightarrow> byte option" where
  "uniform_byte sp =
     (let pattern = take (sp_len sp) (sp_bytes sp)
      in if list_all (\<lambda>b. b = pattern ! 0) pattern then Some (pattern ! 0) else None)"

section \<open>Capability sets\<close>

datatype conversion_path = ConvNone | ConvKernel | ConvServer | ConvLibrary

record channel_layout =
  ly_channels :: u32
  ly_positions :: "u32 list option"

datatype channel_set = DiscreteLayouts "channel_layout list" | ChannelRange u32 u32

fun layouts :: "channel_set \<Rightarrow> channel_layout list" where
  "layouts (DiscreteLayouts ls) = ls"
| "layouts (ChannelRange lo hi) =
     map (\<lambda>c. \<lparr>ly_channels = c, ly_positions = None\<rparr>) [lo..<Suc hi]"

text \<open>The channel positions the code names, from spa/param/audio/raw.h.\<close>

abbreviation (input) CHANNEL_UNKNOWN :: u32 where "CHANNEL_UNKNOWN \<equiv> 0"
abbreviation (input) CHANNEL_NA :: u32 where "CHANNEL_NA \<equiv> 1"
abbreviation (input) CHANNEL_AUX0 :: u32 where "CHANNEL_AUX0 \<equiv> 4096"
abbreviation (input) AUDIO_MAX_CHANNELS :: u32 where "AUDIO_MAX_CHANNELS \<equiv> 64"

record configuration_flags =
  cf_layout_reorder :: bool
  cf_opaque_layout :: bool

definition opaque_position :: "u32 \<Rightarrow> bool" where
  "opaque_position p \<longleftrightarrow> p = CHANNEL_UNKNOWN \<or> p = CHANNEL_NA \<or> p \<ge> CHANNEL_AUX0"

definition layout_admits ::
  "channel_layout \<Rightarrow> u32 \<Rightarrow> u32 list option \<Rightarrow> configuration_flags \<Rightarrow> bool" where
  "layout_admits layout channels positions flags =
     (if ly_channels layout \<noteq> channels then False
      else case (positions, ly_positions layout) of
             (None, _) \<Rightarrow> True
           | (Some requested, None) \<Rightarrow>
               length requested = channels \<and> list_all opaque_position requested
           | (Some requested, Some advertised) \<Rightarrow>
               (cf_opaque_layout flags \<and> length requested = channels
                  \<and> list_all opaque_position requested)
               \<or> requested = advertised
               \<or> (cf_layout_reorder flags \<and> length requested = length advertised
                  \<and> list_all (\<lambda>i. requested ! i \<notin> set (take i requested)
                                  \<and> requested ! i \<in> set advertised) [0..<length requested]))"

fun channels_admits ::
  "channel_set \<Rightarrow> u32 \<Rightarrow> u32 list option \<Rightarrow> configuration_flags \<Rightarrow> bool" where
  "channels_admits (ChannelRange lo hi) channels positions flags =
     (positions = None \<and> lo \<le> channels \<and> channels \<le> hi)"
| "channels_admits (DiscreteLayouts ls) channels positions flags =
     list_ex (\<lambda>layout. layout_admits layout channels positions flags) ls"

datatype rate_set = DiscreteRates "u32 list" | RateRange u32 u32

fun rates_admits :: "rate_set \<Rightarrow> u32 \<Rightarrow> u32 \<Rightarrow> bool" where
  "rates_admits (DiscreteRates rates) rate tolerance = (rate \<in> set rates)"
| "rates_admits (RateRange lo hi) rate tolerance =
     (sat_add32 rate tolerance \<ge> lo \<and> rate \<le> sat_add32 hi tolerance)"

record stream_configuration =
  cfg_formats :: "audio_format list"
  cfg_channels :: channel_set
  cfg_rates :: rate_set
  cfg_preferred_rate :: "u32 option"
  cfg_rate_tolerance :: u32
  cfg_conversion :: conversion_path
  cfg_flags :: configuration_flags

record stream_caps =
  caps_configurations :: "stream_configuration list"
  caps_preferred :: usize

definition configuration_admits ::
  "stream_configuration \<Rightarrow> audio_format \<Rightarrow> u32 \<Rightarrow> u32 list option \<Rightarrow> u32 \<Rightarrow> bool" where
  "configuration_admits c fmt channels positions rate \<longleftrightarrow>
     fmt \<in> set (cfg_formats c)
     \<and> channels_admits (cfg_channels c) channels positions (cfg_flags c)
     \<and> rates_admits (cfg_rates c) rate (cfg_rate_tolerance c)"

definition caps_admits :: "stream_caps \<Rightarrow> audio_format \<Rightarrow> u32 \<Rightarrow> u32 list option \<Rightarrow> u32 \<Rightarrow> bool" where
  "caps_admits caps fmt channels positions rate =
     list_ex (\<lambda>c. configuration_admits c fmt channels positions rate) (caps_configurations caps)"

definition conversion_for :: "stream_caps \<Rightarrow> audio_format \<Rightarrow> u32 \<Rightarrow> u32 \<Rightarrow> conversion_path option" where
  "conversion_for caps fmt channels rate =
     map_option cfg_conversion
       (List.find (\<lambda>c. configuration_admits c fmt channels None rate) (caps_configurations caps))"

definition preferred_index :: "stream_caps \<Rightarrow> usize" where
  "preferred_index caps =
     (if caps_preferred caps < length (caps_configurations caps) then caps_preferred caps else 0)"

definition preferred_configuration :: "stream_caps \<Rightarrow> stream_configuration option" where
  "preferred_configuration caps =
     (if preferred_index caps < length (caps_configurations caps)
      then Some (caps_configurations caps ! preferred_index caps) else None)"

definition configurations_in_preference_order :: "stream_caps \<Rightarrow> stream_configuration list" where
  "configurations_in_preference_order caps =
     (case preferred_configuration caps of None \<Rightarrow> [] | Some c \<Rightarrow> [c])
     @ map snd (filter (\<lambda>(index, _). index \<noteq> preferred_index caps)
                  (enumerate 0 (caps_configurations caps)))"

definition offered_formats :: "stream_configuration \<Rightarrow> audio_format list" where
  "offered_formats c = cfg_formats c"

section \<open>Facts about silence patterns\<close>

definition pattern_of :: "silence_pattern \<Rightarrow> byte list" where
  "pattern_of sp = take (sp_len sp) (sp_bytes sp)"

text \<open>The byte that belongs at byte offset \<open>p\<close> of the stream.\<close>

definition silence_at :: "silence_pattern \<Rightarrow> nat \<Rightarrow> byte" where
  "silence_at sp p = pattern_of sp ! ((p mod max (sp_frame_multiple sp) 1) mod length (pattern_of sp))"

lemma fill_at_eq: "silence_fill_at sp off n = map (\<lambda>i. silence_at sp (off + i)) [0..<n]"
  by (simp add: silence_fill_at_def silence_at_def pattern_of_def Let_def)

lemma length_fill_at [simp]: "length (silence_fill_at sp off n) = n"
  by (simp add: fill_at_eq)

lemma nth_fill_at: "i < n \<Longrightarrow> silence_fill_at sp off n ! i = silence_at sp (off + i)"
  by (simp add: fill_at_eq)

lemma take_fill_at: "m \<le> n \<Longrightarrow> take m (silence_fill_at sp off n) = silence_fill_at sp off m"
  by (simp add: fill_at_eq take_map)

lemma drop_fill_at: "drop m (silence_fill_at sp off n) = silence_fill_at sp (off + m) (n - m)"
  by (rule nth_equalityI) (auto simp: nth_fill_at add.assoc)

lemma fill_at_append:
  "silence_fill_at sp off (n + m) = silence_fill_at sp off n @ silence_fill_at sp (off + n) m"
  using append_take_drop_id [of n "silence_fill_at sp off (n + m)"]
  by (simp add: take_fill_at drop_fill_at)

lemma silence_at_mod: "silence_at sp (p mod max (sp_frame_multiple sp) 1) = silence_at sp p"
  by (simp add: silence_at_def)

lemma silence_at_cong:
  "p mod max (sp_frame_multiple sp) 1 = q mod max (sp_frame_multiple sp) 1 \<Longrightarrow>
    silence_at sp p = silence_at sp q"
  by (simp add: silence_at_def)

lemma fill_at_cong:
  "p mod max (sp_frame_multiple sp) 1 = q mod max (sp_frame_multiple sp) 1 \<Longrightarrow>
    silence_fill_at sp p n = silence_fill_at sp q n"
proof -
  assume eq: "p mod max (sp_frame_multiple sp) 1 = q mod max (sp_frame_multiple sp) 1"
  have "silence_at sp (p + i) = silence_at sp (q + i)" for i
    by (rule silence_at_cong) (rule mod_add_cong [OF eq refl])
  then show ?thesis by (simp add: fill_at_eq)
qed

lemma uniform_byte_at:
  assumes "uniform_byte sp = Some b" "pattern_of sp \<noteq> []"
  shows "silence_at sp p = b"
proof -
  have all: "list_all (\<lambda>b. b = pattern_of sp ! 0) (pattern_of sp)" and b: "b = pattern_of sp ! 0"
    using assms(1) by (auto simp: uniform_byte_def pattern_of_def Let_def split: if_splits)
  have "(p mod max (sp_frame_multiple sp) 1) mod length (pattern_of sp) < length (pattern_of sp)"
    using assms(2) by simp
  then show ?thesis using all b by (auto simp: silence_at_def list_all_length)
qed

lemma uniform_fill_at:
  "uniform_byte sp = Some b \<Longrightarrow> pattern_of sp \<noteq> [] \<Longrightarrow> silence_fill_at sp off n = replicate n b"
  by (simp add: fill_at_eq uniform_byte_at map_replicate_const)

lemma silence_encoding_shape:
  "length (fst (silence_encoding f)) = 8 \<and> 1 \<le> snd (silence_encoding f) \<and> snd (silence_encoding f) \<le> 4"
  by (cases f) auto

lemma pattern_for_config: "pattern_of (silence_for_config c) =
    take (snd (silence_encoding (sc_format c))) (fst (silence_encoding (sc_format c)))"
  by (simp add: pattern_of_def silence_for_config_def split_beta)

lemma pattern_for_config_length:
  "length (pattern_of (silence_for_config c)) = snd (silence_encoding (sc_format c))"
  using silence_encoding_shape [of "sc_format c"] by (simp add: pattern_for_config)

lemma pattern_for_config_nonempty [simp]: "pattern_of (silence_for_config c) \<noteq> []"
  using pattern_for_config_length [of c] silence_encoding_shape [of "sc_format c"] by auto

lemma frame_multiple_for_config [simp]:
  "sp_frame_multiple (silence_for_config c) = max (sc_stride c) 1"
  by (simp add: silence_for_config_def split_beta)

lemma pattern_for_config_width:
  "bytes_per_sample f = Some w \<Longrightarrow> snd (silence_encoding f) = 1 \<or> snd (silence_encoding f) = w"
  by (cases f) (auto simp: bytes_per_sample_def)

text \<open>The encoding of one silent sample of \<open>w\<close> bytes.\<close>

definition silence_sample :: "audio_format \<Rightarrow> nat \<Rightarrow> byte list" where
  "silence_sample f w =
     map (\<lambda>i. fst (silence_encoding f) ! (i mod snd (silence_encoding f))) [0..<w]"

section \<open>Facts about the xrun tracker\<close>

lemma xrun_unit_index_less [simp]: "xrun_unit_index u < 3"
  by (cases u) auto

lemma tracker_delta_length: "length (snd (tracker_delta tr obs)) = length tr"
  by (simp add: tracker_delta_def Let_def split: counter_update.splits)

text \<open>
  The kernel's xrun counter of one open channel is a 32-bit counter. A wake snapshot reads it, an
  error poll (GETERROR) reads it and sets it to zero. \<open>observe_history\<close> runs the tracker over a
  history of observations; each entry is the number of xruns since the previous observation and
  whether this observation polls.
\<close>

fun observe_history :: "(nat \<times> bool) list \<Rightarrow> u32 \<Rightarrow> xrun_tracker \<Rightarrow> u32 list" where
  "observe_history [] counter tr = []"
| "observe_history ((ticks, polled) # hs) counter tr =
     (let now = (counter + ticks) mod 2 ^ 32;
          (d, tr') = observe tr (if polled then resetting_events now else wrapping_events_u32 now)
      in xd_events d # observe_history hs (if polled then 0 else now) tr')"

definition tracks_counter :: "xrun_tracker \<Rightarrow> u32 \<Rightarrow> bool" where
  "tracks_counter tr counter \<longleftrightarrow> length tr = 3 \<and> counter < 2 ^ 32 \<and>
     (case tr ! 0 of
        None \<Rightarrow> counter = 0
      | Some b \<Rightarrow> xb_counter b = XRUN_COUNTER_PRIMARY \<and> xb_value b = counter
                  \<and> xb_wrapping_modulus b = Some (2 ^ 32))"

lemma wrapping_distance:
  fixes c t n :: nat
  assumes "c < 4294967296" "t < 4294967296" "n = (c + t) mod 4294967296"
  shows "n \<ge> c \<Longrightarrow> n - c = t" and "\<not> n \<ge> c \<Longrightarrow> 4294967296 - c + n = t"
proof -
  have "n = (if c + t < 4294967296 then c + t else c + t - 4294967296)"
    using assms by (simp add: mod_if)
  then show "n \<ge> c \<Longrightarrow> n - c = t" "\<not> n \<ge> c \<Longrightarrow> 4294967296 - c + n = t"
    using assms(1,2) by (auto split: if_splits)
qed

lemma observe_step:
  assumes tr: "tracks_counter tr c" and t: "t < 2 ^ 32"
    and now: "now = (c + t) mod 2 ^ 32"
  shows "xd_events (fst (observe tr (resetting_events now))) = t
    \<and> xd_events (fst (observe tr (wrapping_events_u32 now))) = t
    \<and> tracks_counter (snd (observe tr (resetting_events now))) 0
    \<and> tracks_counter (snd (observe tr (wrapping_events_u32 now))) now"
proof (cases "tr ! 0")
  case None
  then have "c = 0" "length tr = 3" using tr by (auto simp: tracks_counter_def)
  moreover have "now = t" using t now \<open>c = 0\<close> by simp
  ultimately show ?thesis using None t
    by (simp add: observe_def tracker_delta_def resetting_events_def wrapping_events_u32_def
      cumulative_delta_def tracks_counter_def xrun_delta_default_def Let_def)
next
  case (Some b)
  then have b: "xb_counter b = 0" "xb_value b = c" "xb_wrapping_modulus b = Some (2 ^ 32)"
    "length tr = 3" "c < 2 ^ 32"
    using tr by (auto simp: tracks_counter_def)
  have lt: "c < 4294967296" "t < 4294967296" "now = (c + t) mod 4294967296"
    using b(5) t now by simp_all
  have "now mod 4294967296 = now" using lt(3) by simp
  then have d: "cumulative_delta now (Some b) = t"
    using wrapping_distance [OF lt] b(2,3) lt(1) by (simp add: cumulative_delta_def)
  have d2: "cumulative_delta now (Some (b\<lparr>xb_wrapping_modulus := Some 4294967296\<rparr>)) = t"
    using wrapping_distance [OF lt] b(2) lt(1) \<open>now mod 4294967296 = now\<close>
    by (simp add: cumulative_delta_def)
  show ?thesis using Some b t d d2 now
    by (simp add: observe_def tracker_delta_def resetting_events_def wrapping_events_u32_def
      tracks_counter_def xrun_delta_default_def Let_def)
qed

section \<open>Properties\<close>

text \<open>C6. However wake snapshots (which leave the kernel's 32-bit xrun counter alone) and error
  polls (which reset it) interleave, and however often the counter wraps, the tracker reports at
  each observation exactly the xruns since the previous one: none is lost and none is counted
  twice.\<close>

theorem xruns_are_reported_exactly_once:
  assumes "list_all (\<lambda>(ticks, _). ticks < 2 ^ 32) hs"
  shows "observe_history hs 0 tracker_default = map fst hs"
proof -
  have "observe_history hs c tr = map fst hs"
    if "tracks_counter tr c" "list_all (\<lambda>(ticks, _). ticks < 2 ^ 32) hs" for c tr
    using that
  proof (induction hs arbitrary: c tr)
    case Nil
    then show ?case by simp
  next
    case (Cons h hs)
    obtain t p where h: "h = (t, p)" by (cases h)
    have "t < 2 ^ 32" using Cons.prems(2) h by simp
    note st = observe_step [OF Cons.prems(1) this refl]
    show ?case using st Cons.IH Cons.prems(2) h by (cases p) (auto simp: Let_def split_beta)
  qed
  moreover have "tracks_counter tracker_default 0" by (simp add: tracks_counter_def tracker_default_def)
  ultimately show ?thesis using assms by blast
qed

theorem xruns_are_reported_exactly_once_witness:
  "observe_history [(3, False), (4294967295, False), (2, True), (1, False)] 0 tracker_default
    = map fst [(3, False), (4294967295, False), (2, True), (1::nat, False)]"
  by (rule xruns_are_reported_exactly_once) simp

text \<open>In an interleaved format of \<open>w\<close>-byte samples, every sample of a silence block is the
  format's midpoint encoding, wherever in the block it stands, so filling never shifts a multibyte
  unsigned midpoint; and a fill may be split anywhere, each part continuing at its own frame offset.\<close>

theorem silence_samples_are_midpoints:
  assumes w: "bytes_per_sample (sc_format c) = Some w"
    and stride: "w dvd sc_stride c" "0 < sc_stride c"
    and k: "(k + 1) * w \<le> n"
  shows "take w (drop (k * w) (silence_fill (silence_for_config c) n)) = silence_sample (sc_format c) w
    \<and> silence_fill (silence_for_config c) (n + m)
      = silence_fill (silence_for_config c) n @ silence_fill_at (silence_for_config c) n m"
proof -
  let ?sp = "silence_for_config c" and ?len = "snd (silence_encoding (sc_format c))"
  have len: "?len = 1 \<or> ?len = w" using pattern_for_config_width [OF w] .
  have len8: "?len \<le> 8" "length (fst (silence_encoding (sc_format c))) = 8" "1 \<le> ?len"
    using silence_encoding_shape [of "sc_format c"] by auto
  have at: "silence_at ?sp (k * w + i) = fst (silence_encoding (sc_format c)) ! (i mod ?len)" for i
  proof -
    have "(k * w + i) mod sc_stride c mod ?len = (k * w + i) mod ?len"
      using len stride(1) by (auto simp: mod_mod_cancel)
    also have "\<dots> = i mod ?len" using len by auto
    finally have "(k * w + i) mod sc_stride c mod ?len = i mod ?len" .
    moreover have "max (sc_stride c) 1 = sc_stride c" using stride(2) by simp
    ultimately have "(k * w + i) mod max (sc_stride c) 1 mod ?len = i mod ?len" by presburger
    moreover have "i mod ?len < ?len" using len8(3) by simp
    ultimately show ?thesis
      by (simp add: silence_at_def pattern_for_config_length) (simp add: pattern_for_config)
  qed
  have "take w (drop (k * w) (silence_fill ?sp n)) = silence_fill_at ?sp (k * w) w"
    using k by (simp add: silence_fill_def drop_fill_at take_fill_at)
  also have "\<dots> = silence_sample (sc_format c) w"
    by (simp add: fill_at_eq at silence_sample_def)
  finally show ?thesis using fill_at_append [of ?sp 0 n m] by (simp add: silence_fill_def)
qed

theorem silence_samples_are_midpoints_witness:
  "take 3 (drop (1 * 3) (silence_fill (silence_for_config
      \<lparr>sc_format = FMT_U24_LE, sc_rate = 48000, sc_channels = 2, sc_positions = [], sc_flags = 0,
       sc_stride = 6\<rparr>) 12)) = silence_sample FMT_U24_LE 3
    \<and> silence_fill (silence_for_config
      \<lparr>sc_format = FMT_U24_LE, sc_rate = 48000, sc_channels = 2, sc_positions = [], sc_flags = 0,
       sc_stride = 6\<rparr>) (12 + 5) = silence_fill (silence_for_config
      \<lparr>sc_format = FMT_U24_LE, sc_rate = 48000, sc_channels = 2, sc_positions = [], sc_flags = 0,
       sc_stride = 6\<rparr>) 12 @ silence_fill_at (silence_for_config
      \<lparr>sc_format = FMT_U24_LE, sc_rate = 48000, sc_channels = 2, sc_positions = [], sc_flags = 0,
       sc_stride = 6\<rparr>) 12 5"
  using silence_samples_are_midpoints [of "\<lparr>sc_format = FMT_U24_LE, sc_rate = 48000,
      sc_channels = 2, sc_positions = [], sc_flags = 0, sc_stride = 6\<rparr>" 3 1 12 5]
  by (simp add: bytes_per_sample_def)

end
