(* ===== verification/OssAbi.thy ===== *)
theory OssAbi
  imports Backend
begin

text \<open>
  The FreeBSD sound(4) boundary (crates/freebsd-oss/src/freebsd\_oss/abi.rs, sys/mod.rs and the
  small helpers at the top of dsp.rs). The kernel is not part of the repository: what it answers to
  each system call is an argument of the model. \<open>oss_kernel\<close> holds, for every kind of call, the
  list of answers it is going to give (an exhausted list fails the call), so a statement about all
  kernels is a statement about all such records. It also keeps the trace of calls, newest first, and
  \<open>k_ring\<close>, the bytes that crossed the descriptor since its ring was last reset (by open, HALT or a
  successful SETTRIGGER(0), as the comments of the source describe): accepted on a playback
  descriptor, read on a capture one. A write accepts, and a read returns, at most the bytes of the
  buffer it is given, as write(2) and read(2) document.
\<close>

unbundle bit_operations_syntax

section \<open>Error numbers and the kernel\<close>

datatype errno = EINTR | ENXIO | EBADF | EBUSY | ENODEV | EINVAL | EPIPE | EAGAIN | EIO | EOTHER int

text \<open>FreeBSD's sys/errno.h; EWOULDBLOCK is EAGAIN.\<close>

fun errno_code :: "errno \<Rightarrow> int" where
  "errno_code EINTR = 4"
| "errno_code EIO = 5"
| "errno_code ENXIO = 6"
| "errno_code EBADF = 9"
| "errno_code EBUSY = 16"
| "errno_code ENODEV = 19"
| "errno_code EINVAL = 22"
| "errno_code EPIPE = 32"
| "errno_code EAGAIN = 35"
| "errno_code (EOTHER c) = c"

abbreviation (input) ENOTSUP_code :: int where "ENOTSUP_code \<equiv> 45"

datatype ioctl =
    DSP_HALT | DSP_SPEED | DSP_SETFMT | DSP_CHANNELS | DSP_SETFRAGMENT | DSP_GETOSPACE
  | DSP_GETISPACE | DSP_GETCAPS | DSP_SETTRIGGER | DSP_GETODELAY | DSP_GETERROR | DSP_SILENCE
  | DSP_SKIP | DSP_LOW_WATER | DSP_GET_CHNORDER | DSP_SET_CHNORDER

datatype syscall =
    SysIoctl ioctl int bool
  | SysWrite "byte list" "errno + nat"
  | SysRead nat
  | SysPoll
  | SysOpen bool
  | SysClose

record audio_buf_info =
  bi_fragments :: int
  bi_fragstotal :: int
  bi_fragsize :: int
  bi_bytes :: int

record audio_errinfo =
  ei_play_underruns :: int
  ei_rec_overruns :: int

record oss_kernel =
  k_ints :: "ioctl \<Rightarrow> (errno + int) list"
  k_spaces :: "ioctl \<Rightarrow> (errno + audio_buf_info) list"
  k_errors :: "(errno + audio_errinfo) list"
  k_writes :: "(errno + nat) list"
  k_reads :: "(errno + byte list) list"
  k_polls :: "bool list"
  k_opens :: "errno option list"
  k_rate_round :: u32
  k_ring :: "byte list"
  k_trace :: "syscall list"

definition pop :: "'a \<Rightarrow> 'a list \<Rightarrow> 'a \<times> 'a list" where
  "pop d xs = (case xs of [] \<Rightarrow> (d, []) | x # ys \<Rightarrow> (x, ys))"

fun is_ok :: "'e + 'a \<Rightarrow> bool" where
  "is_ok (Inl _) = False"
| "is_ok (Inr _) = True"

definition ioctl_int :: "ioctl \<Rightarrow> int \<Rightarrow> oss_kernel \<Rightarrow> (errno + int) \<times> oss_kernel" where
  "ioctl_int req arg k =
     (let (r, rest) = pop (Inl EIO) (k_ints k req)
      in (r, k\<lparr>k_ints := (k_ints k)(req := rest), k_trace := SysIoctl req arg (is_ok r) # k_trace k\<rparr>))"

definition ioctl_space :: "ioctl \<Rightarrow> oss_kernel \<Rightarrow> (errno + audio_buf_info) \<times> oss_kernel" where
  "ioctl_space req k =
     (let (r, rest) = pop (Inl EIO) (k_spaces k req)
      in (r, k\<lparr>k_spaces := (k_spaces k)(req := rest), k_trace := SysIoctl req 0 (is_ok r) # k_trace k\<rparr>))"

definition sys_write :: "byte list \<Rightarrow> oss_kernel \<Rightarrow> (errno + nat) \<times> oss_kernel" where
  "sys_write buf k =
     (let (r, rest) = pop (Inl EAGAIN) (k_writes k)
      in case r of
           Inl e \<Rightarrow> (Inl e, k\<lparr>k_writes := rest, k_trace := SysWrite buf (Inl e) # k_trace k\<rparr>)
         | Inr n \<Rightarrow>
             (let m = min n (length buf)
              in (Inr m, k\<lparr>k_writes := rest, k_ring := k_ring k @ take m buf,
                           k_trace := SysWrite buf (Inr m) # k_trace k\<rparr>)))"

definition sys_read :: "nat \<Rightarrow> oss_kernel \<Rightarrow> (errno + byte list) \<times> oss_kernel" where
  "sys_read len k =
     (let (r, rest) = pop (Inl EAGAIN) (k_reads k);
          k' = k\<lparr>k_reads := rest, k_trace := SysRead len # k_trace k\<rparr>
      in case r of
           Inl e \<Rightarrow> (Inl e, k')
         | Inr bytes \<Rightarrow> (Inr (take len bytes), k'\<lparr>k_ring := k_ring k @ take len bytes\<rparr>))"

definition sys_poll_in :: "oss_kernel \<Rightarrow> bool \<times> oss_kernel" where
  "sys_poll_in k =
     (let (r, rest) = pop False (k_polls k)
      in (r, k\<lparr>k_polls := rest, k_trace := SysPoll # k_trace k\<rparr>))"

definition sys_open :: "oss_kernel \<Rightarrow> errno option \<times> oss_kernel" where
  "sys_open k =
     (let (r, rest) = pop (Some EIO) (k_opens k)
      in case r of
           Some e \<Rightarrow> (Some e, k\<lparr>k_opens := rest, k_trace := SysOpen False # k_trace k\<rparr>)
         | None \<Rightarrow> (None, k\<lparr>k_opens := rest, k_ring := [], k_trace := SysOpen True # k_trace k\<rparr>))"

definition sys_close :: "oss_kernel \<Rightarrow> oss_kernel" where
  "sys_close k = k\<lparr>k_ring := [], k_trace := SysClose # k_trace k\<rparr>"

section \<open>The ioctl wrappers\<close>

text \<open>\<open>value as c_int\<close> of a u32.\<close>

definition as_c_int :: "u32 \<Rightarrow> int" where
  "as_c_int v = (if v < 2147483648 then int v else int v - 4294967296)"

definition set_value :: "ioctl \<Rightarrow> u32 \<Rightarrow> u32 \<Rightarrow> oss_kernel \<Rightarrow> (errno + u32) \<times> oss_kernel" where
  "set_value req value tolerance k =
     (let (r, k') = ioctl_int req (as_c_int value) k
      in (case r of
            Inl e \<Rightarrow> Inl e
          | Inr v \<Rightarrow>
              if v < 0 then Inl EINVAL
              else if \<bar>v - int value\<bar> > int tolerance then Inl EINVAL
              else Inr (nat v),
          k'))"

definition set_format :: "u32 \<Rightarrow> oss_kernel \<Rightarrow> (errno + u32) \<times> oss_kernel" where
  "set_format fmt = set_value DSP_SETFMT fmt 0"

definition set_channels :: "u32 \<Rightarrow> oss_kernel \<Rightarrow> (errno + u32) \<times> oss_kernel" where
  "set_channels channels = set_value DSP_CHANNELS channels 0"

abbreviation (input) FEEDER_RATE_ROUND_DEFAULT :: u32 where "FEEDER_RATE_ROUND_DEFAULT \<equiv> 25"

text \<open>The sysctl hw.snd.feeder\_rate\_round, read at every use; the answer is \<open>k_rate_round\<close>.\<close>

definition feeder_rate_round :: "oss_kernel \<Rightarrow> u32" where
  "feeder_rate_round k = min (k_rate_round k) 500"

definition set_rate :: "u32 \<Rightarrow> oss_kernel \<Rightarrow> (errno + u32) \<times> oss_kernel" where
  "set_rate rate k = set_value DSP_SPEED rate (feeder_rate_round k) k"

definition set_low_water :: "u32 \<Rightarrow> oss_kernel \<Rightarrow> bool \<times> oss_kernel" where
  "set_low_water bytes k =
     (let (r, k') = ioctl_int DSP_LOW_WATER (as_c_int (clamp bytes 1 2147483647)) k in (is_ok r, k'))"

definition input_space :: "oss_kernel \<Rightarrow> audio_buf_info option \<times> oss_kernel" where
  "input_space k =
     (let (r, k') = ioctl_space DSP_GETISPACE k
      in (case r of Inl _ \<Rightarrow> None | Inr info \<Rightarrow> Some info, k'))"

definition halt :: "oss_kernel \<Rightarrow> oss_kernel" where
  "halt k = (snd (ioctl_int DSP_HALT 0 k))\<lparr>k_ring := []\<rparr>"

definition channel_caps :: "oss_kernel \<Rightarrow> 32 word \<times> oss_kernel" where
  "channel_caps k =
     (let (r, k') = ioctl_int DSP_GETCAPS 0 k
      in (case r of Inl _ \<Rightarrow> 0 | Inr v \<Rightarrow> word_of_int v, k'))"

definition ospace_in_bytes :: "oss_kernel \<Rightarrow> int \<times> oss_kernel" where
  "ospace_in_bytes k =
     (let (r, k') = ioctl_space DSP_GETOSPACE k
      in (case r of Inl _ \<Rightarrow> 0 | Inr info \<Rightarrow> bi_bytes info, k'))"

definition blocksize :: "oss_kernel \<Rightarrow> int \<times> oss_kernel" where
  "blocksize k =
     (let (r, k') = ioctl_space DSP_GETOSPACE k
      in (case r of Inl _ \<Rightarrow> 0 | Inr info \<Rightarrow> bi_fragsize info, k'))"

definition fragment_selector :: "nat \<Rightarrow> nat \<Rightarrow> int" where
  "fragment_selector n_frags selector =
     sint (word_of_nat n_frags * 65536 OR word_of_nat selector :: 32 word)"

definition set_fragment :: "nat \<Rightarrow> nat \<Rightarrow> oss_kernel \<Rightarrow> oss_kernel" where
  "set_fragment n_frags selector k =
     snd (ioctl_int DSP_SETFRAGMENT (fragment_selector n_frags selector) k)"

abbreviation (input) PCM_ENABLE_INPUT :: int where "PCM_ENABLE_INPUT \<equiv> 1"
abbreviation (input) PCM_ENABLE_OUTPUT :: int where "PCM_ENABLE_OUTPUT \<equiv> 2"

definition set_trigger :: "int \<Rightarrow> oss_kernel \<Rightarrow> bool \<times> oss_kernel" where
  "set_trigger trig k =
     (let (r, k') = ioctl_int DSP_SETTRIGGER trig k
      in (is_ok r, if is_ok r \<and> trig = 0 then k'\<lparr>k_ring := []\<rparr> else k'))"

definition set_channel_order :: "u64 \<Rightarrow> oss_kernel \<Rightarrow> (errno + unit) \<times> oss_kernel" where
  "set_channel_order order k =
     (let (r, k1) = ioctl_int DSP_SET_CHNORDER (int order) k
      in case r of
           Inl e \<Rightarrow> (Inl e, k1)
         | Inr _ \<Rightarrow>
             (let (g, k2) = ioctl_int DSP_GET_CHNORDER 0 k1
              in case g of
                   Inl e \<Rightarrow> (Inl e, k2)
                 | Inr actual \<Rightarrow> (if actual \<noteq> int order then Inl EINVAL else Inr (), k2)))"

definition try_odelay :: "oss_kernel \<Rightarrow> (errno + int) \<times> oss_kernel" where
  "try_odelay k = ioctl_int DSP_GETODELAY (- 1) k"

definition odelay :: "oss_kernel \<Rightarrow> int \<times> oss_kernel" where
  "odelay k = (let (r, k') = try_odelay k in (case r of Inl _ \<Rightarrow> 0 | Inr v \<Rightarrow> v, k'))"

definition get_error :: "oss_kernel \<Rightarrow> audio_errinfo \<times> oss_kernel" where
  "get_error k =
     (let (r, rest) = pop (Inl EIO) (k_errors k)
      in (case r of Inl _ \<Rightarrow> \<lparr>ei_play_underruns = 0, ei_rec_overruns = 0\<rparr> | Inr info \<Rightarrow> info,
          k\<lparr>k_errors := rest, k_trace := SysIoctl DSP_GETERROR 0 (is_ok r) # k_trace k\<rparr>))"

text \<open>\<open>value as u32\<close> of a C int.\<close>

definition xrun_counter_bits :: "int \<Rightarrow> u32" where
  "xrun_counter_bits v = nat (v mod 4294967296)"

definition shadow_pause :: "oss_kernel \<Rightarrow> (errno + int) \<times> oss_kernel" where
  "shadow_pause k = ioctl_int DSP_SILENCE 0 k"

definition restore_shadow :: "oss_kernel \<Rightarrow> (errno + int) \<times> oss_kernel" where
  "restore_shadow k = ioctl_int DSP_SKIP 0 k"

section \<open>Frame storage\<close>

abbreviation (input) AFMT_MU_LAW :: "32 word" where "AFMT_MU_LAW \<equiv> 0x00000001"
abbreviation (input) AFMT_A_LAW :: "32 word" where "AFMT_A_LAW \<equiv> 0x00000002"
abbreviation (input) AFMT_U8 :: "32 word" where "AFMT_U8 \<equiv> 0x00000008"
abbreviation (input) AFMT_S16_LE :: "32 word" where "AFMT_S16_LE \<equiv> 0x00000010"
abbreviation (input) AFMT_S16_BE :: "32 word" where "AFMT_S16_BE \<equiv> 0x00000020"
abbreviation (input) AFMT_S8 :: "32 word" where "AFMT_S8 \<equiv> 0x00000040"
abbreviation (input) AFMT_U16_LE :: "32 word" where "AFMT_U16_LE \<equiv> 0x00000080"
abbreviation (input) AFMT_U16_BE :: "32 word" where "AFMT_U16_BE \<equiv> 0x00000100"
abbreviation (input) AFMT_S32_LE :: "32 word" where "AFMT_S32_LE \<equiv> 0x00001000"
abbreviation (input) AFMT_S32_BE :: "32 word" where "AFMT_S32_BE \<equiv> 0x00002000"
abbreviation (input) AFMT_U32_LE :: "32 word" where "AFMT_U32_LE \<equiv> 0x00004000"
abbreviation (input) AFMT_U32_BE :: "32 word" where "AFMT_U32_BE \<equiv> 0x00008000"
abbreviation (input) AFMT_S24_LE :: "32 word" where "AFMT_S24_LE \<equiv> 0x00010000"
abbreviation (input) AFMT_S24_BE :: "32 word" where "AFMT_S24_BE \<equiv> 0x00020000"
abbreviation (input) AFMT_U24_LE :: "32 word" where "AFMT_U24_LE \<equiv> 0x00040000"
abbreviation (input) AFMT_U24_BE :: "32 word" where "AFMT_U24_BE \<equiv> 0x00080000"
abbreviation (input) AFMT_F32_LE :: "32 word" where "AFMT_F32_LE \<equiv> 0x10000000"
abbreviation (input) AFMT_F32_BE :: "32 word" where "AFMT_F32_BE \<equiv> 0x20000000"

definition afmt_frame_bytes :: "32 word \<Rightarrow> u32" where
  "afmt_frame_bytes fmt =
     (let width =
            (if fmt AND (AFMT_S32_LE OR AFMT_S32_BE OR AFMT_U32_LE OR AFMT_U32_BE OR AFMT_F32_LE
                         OR AFMT_F32_BE) \<noteq> 0 then 4
             else if fmt AND (AFMT_S24_LE OR AFMT_S24_BE OR AFMT_U24_LE OR AFMT_U24_BE) \<noteq> 0 then 3
             else if fmt AND (AFMT_S16_LE OR AFMT_S16_BE OR AFMT_U16_LE OR AFMT_U16_BE) \<noteq> 0 then 2
             else 1);
          channels = max (unat (drop_bit 20 (fmt AND 0x07f00000))) 1
      in width * channels)"

definition native_frame_stride :: "u32 \<Rightarrow> u32 \<Rightarrow> u32" where
  "native_frame_stride fmt channels =
     sat_mul32 (max (afmt_frame_bytes (word_of_nat fmt)) 1) (max channels 1)"

section \<open>Shared helpers of the two DSP streams\<close>

datatype dsp_state = Closed | Setup | Running

definition oss_io_status :: "errno \<Rightarrow> io_status" where
  "oss_io_status e =
     (if e = EAGAIN \<or> e = EINTR then WouldBlock
      else if e \<in> {EBADF, ENODEV, ENXIO, EPIPE} then Disconnected
      else Fatal (errno_code e))"

definition wake_threshold_changed :: "u32 \<Rightarrow> u32 \<Rightarrow> u32 \<Rightarrow> bool" where
  "wake_threshold_changed current desired quantum \<longleftrightarrow>
     current = 0 \<or> abs_diff current desired \<ge> max quantum 1"

definition capture_wake_threshold :: "wake_buffer_state \<Rightarrow> u32" where
  "capture_wake_threshold b = max (max (wb_target_fill_bytes b) (wb_period_bytes b)) 1"

definition playback_wake_threshold :: "wake_buffer_state \<Rightarrow> u32" where
  "playback_wake_threshold b = max (sat_sub (wb_capacity_bytes b) (wb_target_fill_bytes b)) 1"

text \<open>The \<open>Cell\<close> holding the installed threshold is passed in and returned; \<open>Inl\<close> carries the
  threshold of the \<open>WakeError\<close>.\<close>

definition install_wake_threshold ::
  "u32 \<Rightarrow> u32 \<Rightarrow> u32 \<Rightarrow> oss_kernel \<Rightarrow> (u32 + unit) \<times> u32 \<times> oss_kernel" where
  "install_wake_threshold current desired quantum k =
     (if \<not> wake_threshold_changed current desired quantum then (Inr (), current, k)
      else let (ok, k') = set_low_water desired k
           in if \<not> ok then (Inl desired, current, k') else (Inr (), desired, k'))"

record applied_native_config =
  an_format :: u32
  an_channels :: u32
  an_rate :: u32

section \<open>Facts about the kernel calls\<close>

lemma ioctl_int_ring [simp]: "k_ring (snd (ioctl_int req arg k)) = k_ring k"
  by (simp add: ioctl_int_def split_beta Let_def)

lemma ioctl_int_trace: "k_trace (snd (ioctl_int req arg k))
    = SysIoctl req arg (is_ok (fst (ioctl_int req arg k))) # k_trace k"
  by (simp add: ioctl_int_def split_beta Let_def)

lemma ioctl_space_ring [simp]: "k_ring (snd (ioctl_space req k)) = k_ring k"
  by (simp add: ioctl_space_def split_beta Let_def)

lemma sys_write_ring:
  "k_ring (snd (sys_write buf k)) =
     (case fst (sys_write buf k) of Inl _ \<Rightarrow> k_ring k | Inr n \<Rightarrow> k_ring k @ take n buf)"
  by (simp add: sys_write_def split_beta Let_def split: sum.splits)

lemma sys_write_le: "fst (sys_write buf k) = Inr n \<Longrightarrow> n \<le> length buf"
  by (auto simp: sys_write_def split_beta Let_def split: sum.splits)

lemma sys_read_ring:
  "k_ring (snd (sys_read len k)) =
     (case fst (sys_read len k) of Inl _ \<Rightarrow> k_ring k | Inr bs \<Rightarrow> k_ring k @ bs)"
  by (simp add: sys_read_def split_beta Let_def split: sum.splits)

lemma sys_read_le: "fst (sys_read len k) = Inr bs \<Longrightarrow> length bs \<le> len"
  by (auto simp: sys_read_def split_beta Let_def split: sum.splits)

lemma kernel_rings [simp]:
  "k_ring (snd (try_odelay k)) = k_ring k"
  "k_ring (snd (odelay k)) = k_ring k"
  "k_ring (snd (set_low_water b k)) = k_ring k"
  "k_ring (set_fragment n s k) = k_ring k"
  "k_ring (snd (blocksize k)) = k_ring k"
  "k_ring (snd (ospace_in_bytes k)) = k_ring k"
  "k_ring (snd (get_error k)) = k_ring k"
  "k_ring (snd (shadow_pause k)) = k_ring k"
  "k_ring (snd (restore_shadow k)) = k_ring k"
  "k_ring (snd (set_value req v t k)) = k_ring k"
  "k_ring (snd (channel_caps k)) = k_ring k"
  "k_ring (snd (input_space k)) = k_ring k"
  "k_ring (snd (sys_poll_in k)) = k_ring k"
  by (simp_all add: try_odelay_def odelay_def set_low_water_def set_fragment_def blocksize_def
      ospace_in_bytes_def get_error_def shadow_pause_def restore_shadow_def set_value_def
      channel_caps_def input_space_def sys_poll_in_def split_beta Let_def)

lemma set_channel_order_ring [simp]: "k_ring (snd (set_channel_order order k)) = k_ring k"
  by (simp add: set_channel_order_def split_beta Let_def split: sum.split)

lemma set_trigger_ring:
  "k_ring (snd (set_trigger trig k)) =
     (if fst (set_trigger trig k) \<and> trig = 0 then [] else k_ring k)"
  by (auto simp: set_trigger_def split_beta Let_def)

lemma set_value_close:
  "fst (set_value req v t k) = Inr a \<Longrightarrow> \<bar>int a - int v\<bar> \<le> int t"
  by (auto simp: set_value_def split_beta Let_def split: sum.splits if_splits)

lemma afmt_frame_bytes_pos: "0 < afmt_frame_bytes f"
  by (simp add: afmt_frame_bytes_def Let_def less_max_iff_disj)

lemma native_frame_stride_pos: "0 < native_frame_stride f c"
  by (simp add: native_frame_stride_def sat_mul32_def less_max_iff_disj)

end
