(* ===== verification/OssIdentity.thy ===== *)
theory OssIdentity
  imports OssBuffer
begin

text \<open>
  Names, creation arguments and stream properties of the OSS backend
  (crates/freebsd-oss/src/freebsd\_oss/identity.rs): the parsing of numbers, booleans and unit
  lists, \<open>OssDeviceInit\<close>, \<open>OssNodeInit\<close>, and \<open>OssNodeProperties\<close> with its update, reset and
  decoding. The constant strings of the log topics and diagnostics are not modelled.
\<close>

section \<open>Text\<close>

text \<open>Rust's \<open>str::parse::<u32>\<close>: an optional plus sign, then digits only, no overflow.\<close>

definition digit_value :: "char \<Rightarrow> nat option" where
  "digit_value c = (let n = of_char c :: nat in if 48 \<le> n \<and> n \<le> 57 then Some (n - 48) else None)"

fun parse_digits :: "nat \<Rightarrow> string \<Rightarrow> u32 option" where
  "parse_digits acc [] = Some acc"
| "parse_digits acc (c # cs) =
     (case digit_value c of
        None \<Rightarrow> None
      | Some d \<Rightarrow> let v = acc * 10 + d in if v \<le> u32_max then parse_digits v cs else None)"

definition parse_u32 :: "string \<Rightarrow> u32 option" where
  "parse_u32 s =
     (case s of
        [] \<Rightarrow> None
      | c # cs \<Rightarrow> if c = CHR ''+'' then (if cs = [] then None else parse_digits 0 cs)
                  else parse_digits 0 s)"

text \<open>\<open>format!("{n}")\<close> of an unsigned number.\<close>

fun show_nat :: "nat \<Rightarrow> string" where
  "show_nat n = (if n < 10 then [char_of (48 + n)] else show_nat (n div 10) @ [char_of (48 + n mod 10)])"

declare show_nat.simps [simp del]

text \<open>\<open>str::split\<close> on one character.\<close>

fun split_on :: "char \<Rightarrow> string \<Rightarrow> string list" where
  "split_on sep [] = [[]]"
| "split_on sep (c # cs) =
     (if c = sep then [] # split_on sep cs
      else case split_on sep cs of [] \<Rightarrow> [[c]] | p # ps \<Rightarrow> (c # p) # ps)"

definition ascii_lower :: "char \<Rightarrow> char" where
  "ascii_lower c = (let n = of_char c :: nat in if 65 \<le> n \<and> n \<le> 90 then char_of (n + 32) else c)"

definition eq_ignore_ascii_case :: "string \<Rightarrow> string \<Rightarrow> bool" where
  "eq_ignore_ascii_case a b \<longleftrightarrow> map ascii_lower a = map ascii_lower b"

definition parse_bool :: "string \<Rightarrow> bool option" where
  "parse_bool value =
     (if value = ''1'' \<or> eq_ignore_ascii_case value ''true'' \<or> eq_ignore_ascii_case value ''yes''
         \<or> eq_ignore_ascii_case value ''on'' then Some True
      else if value = ''0'' \<or> eq_ignore_ascii_case value ''false'' \<or> eq_ignore_ascii_case value ''no''
         \<or> eq_ignore_ascii_case value ''off'' then Some False
      else None)"

abbreviation (input) DEVICE_API :: string where "DEVICE_API \<equiv> ''freebsd-oss''"
abbreviation (input) PARENT_DEVICE :: string where "PARENT_DEVICE \<equiv> ''api.freebsd-oss.pcm-parent''"
abbreviation (input) DEVICE_INDEXES :: string where "DEVICE_INDEXES \<equiv> ''api.freebsd-oss.pcm-devices''"
abbreviation (input) STREAM_PATH :: string where "STREAM_PATH \<equiv> ''api.freebsd-oss.dsp-path''"
abbreviation (input) FORCE_TIMER :: string where "FORCE_TIMER \<equiv> ''api.freebsd-oss.force-timer''"
abbreviation (input) PLAYBACK_DELAY :: string where "PLAYBACK_DELAY \<equiv> ''oss.delay''"
abbreviation (input) FRAGMENT :: string where "FRAGMENT \<equiv> ''oss.fragment''"

definition stream_path :: "u32 \<Rightarrow> string" where
  "stream_path index = ''/dev/dsp'' @ show_nat index"

text \<open>\<open>trim_start_matches\<close> strips the prefix as often as it occurs.\<close>

function trim_start_matches :: "string \<Rightarrow> string \<Rightarrow> string" where
  "trim_start_matches pre s =
     (if pre \<noteq> [] \<and> take (length pre) s = pre \<and> length pre \<le> length s
      then trim_start_matches pre (drop (length pre) s) else s)"
  by pat_completeness auto
termination
  by (relation "measure (\<lambda>(pre, s). length s)") (auto simp: neq_Nil_conv)

declare trim_start_matches.simps [simp del]

definition clock_name :: "string \<Rightarrow> string" where
  "clock_name path = DEVICE_API @ ''.'' @ trim_start_matches ''/dev/'' path"

section \<open>Creation arguments of the device object\<close>

record oss_device_init =
  di_parent_name :: "string option"
  di_units :: "u32 list"

definition device_init_default :: oss_device_init where
  "device_init_default = \<lparr>di_parent_name = None, di_units = []\<rparr>"

definition device_init_parse :: "string \<Rightarrow> string \<Rightarrow> oss_device_init \<Rightarrow> oss_device_init" where
  "device_init_parse key value init =
     (if key = PARENT_DEVICE then init\<lparr>di_parent_name := Some value\<rparr>
      else if key = DEVICE_INDEXES
      then init\<lparr>di_units := di_units init @ List.map_filter parse_u32 (split_on (CHR '','') value)\<rparr>
      else init)"

definition device_init_is_complete :: "oss_device_init \<Rightarrow> bool" where
  "device_init_is_complete init \<longleftrightarrow> di_units init \<noteq> []"

section \<open>Stream properties\<close>

datatype oss_property_update = UpdFragment u32 | UpdPlaybackDelay u32

record oss_properties =
  op_playback :: bool
  op_fragment_bytes :: u32
  op_fragment_default :: u32
  op_playback_delay_eighths :: u32
  op_playback_delay_default :: u32

definition properties_new :: "bool \<Rightarrow> oss_properties" where
  "properties_new playback =
     \<lparr>op_playback = playback, op_fragment_bytes = 0, op_fragment_default = 0,
      op_playback_delay_eighths = 10, op_playback_delay_default = 10\<rparr>"

definition properties_apply :: "oss_property_update \<Rightarrow> oss_properties \<Rightarrow> bool \<times> oss_properties" where
  "properties_apply update p =
     (case update of
        UpdFragment v \<Rightarrow>
          (let value = normalize_fragment v
           in (value \<noteq> op_fragment_bytes p, p\<lparr>op_fragment_bytes := value\<rparr>))
      | UpdPlaybackDelay v \<Rightarrow>
          if op_playback p
          then let value = min v 1024
               in (value \<noteq> op_playback_delay_eighths p, p\<lparr>op_playback_delay_eighths := value\<rparr>)
          else (False, p))"

definition properties_set_init :: "oss_property_update \<Rightarrow> oss_properties \<Rightarrow> oss_properties" where
  "properties_set_init update p =
     (let p1 = snd (properties_apply update p)
      in p1\<lparr>op_fragment_default := op_fragment_bytes p1,
            op_playback_delay_default := op_playback_delay_eighths p1\<rparr>)"

definition properties_reset :: "oss_properties \<Rightarrow> bool \<times> oss_properties" where
  "properties_reset p =
     (let r = p\<lparr>op_fragment_bytes := op_fragment_default p,
                op_playback_delay_eighths := op_playback_delay_default p\<rparr>
      in (p \<noteq> r, r))"

definition properties_values :: "oss_properties \<Rightarrow> (string \<times> u32) list" where
  "properties_values p =
     (if op_playback p
      then [(PLAYBACK_DELAY, op_playback_delay_eighths p), (FRAGMENT, op_fragment_bytes p)]
      else [(FRAGMENT, op_fragment_bytes p)])"

text \<open>The descriptors: key and maximum (the descriptions are text).\<close>

definition properties_descriptors :: "oss_properties \<Rightarrow> (string \<times> u32) list" where
  "properties_descriptors p =
     (if op_playback p then [(PLAYBACK_DELAY, 1024), (FRAGMENT, 16384)] else [(FRAGMENT, 16384)])"

text \<open>The constructors of \<open>libspa::pod::Value\<close> the decoder looks at.\<close>

datatype pod_value = PodString string | PodInt int | PodLong int | PodStruct "pod_value list" | PodOther

fun decode_pairs ::
  "pod_value list \<Rightarrow> oss_property_update option \<Rightarrow> oss_property_update option
    \<Rightarrow> oss_property_update option \<times> oss_property_update option" where
  "decode_pairs (PodString key # PodInt value # rest) delay fragment =
     (if key = FRAGMENT \<and> value \<ge> 0 then decode_pairs rest delay (Some (UpdFragment (nat value)))
      else if key = PLAYBACK_DELAY \<and> value \<ge> 0
      then decode_pairs rest (Some (UpdPlaybackDelay (nat value))) fragment
      else decode_pairs rest delay fragment)"
| "decode_pairs (a # b # rest) delay fragment = decode_pairs rest delay fragment"
| "decode_pairs _ delay fragment = (delay, fragment)"

definition option_list :: "'a option \<Rightarrow> 'a list" where
  "option_list x = (case x of None \<Rightarrow> [] | Some a \<Rightarrow> [a])"

definition decode_params :: "pod_value \<Rightarrow> oss_property_update list" where
  "decode_params value =
     (case value of
        PodStruct values \<Rightarrow>
          if length values mod 2 \<noteq> 0 then []
          else let (delay, fragment) = decode_pairs values None None
               in option_list delay @ option_list fragment
      | _ \<Rightarrow> [])"

section \<open>Creation arguments of the node object\<close>

datatype init_item_result = InitHandled | InitInvalidBoolean | InitUnknown

record oss_node_init =
  ni_stream_path :: "string option"
  ni_force_timer :: bool
  ni_properties :: oss_properties

definition node_init_new :: "bool \<Rightarrow> oss_node_init" where
  "node_init_new playback =
     \<lparr>ni_stream_path = None, ni_force_timer = False, ni_properties = properties_new playback\<rparr>"

definition node_init_parse :: "string \<Rightarrow> string \<Rightarrow> oss_node_init \<Rightarrow> init_item_result \<times> oss_node_init" where
  "node_init_parse key value init =
     (if key = STREAM_PATH then (InitHandled, init\<lparr>ni_stream_path := Some value\<rparr>)
      else if key = FORCE_TIMER
      then (case parse_bool value of
              Some force \<Rightarrow> (InitHandled, init\<lparr>ni_force_timer := force\<rparr>)
            | None \<Rightarrow> (InitInvalidBoolean, init))
      else if key = FRAGMENT
      then (InitHandled,
            case parse_u32 value of
              Some v \<Rightarrow> init\<lparr>ni_properties := properties_set_init (UpdFragment v) (ni_properties init)\<rparr>
            | None \<Rightarrow> init)
      else if key = PLAYBACK_DELAY
      then (InitHandled,
            case parse_u32 value of
              Some v \<Rightarrow> init\<lparr>ni_properties := properties_set_init (UpdPlaybackDelay v) (ni_properties init)\<rparr>
            | None \<Rightarrow> init)
      else (InitUnknown, init))"

section \<open>Facts\<close>

text \<open>The property values every stream relies on.\<close>

definition properties_ok :: "oss_properties \<Rightarrow> bool" where
  "properties_ok p \<longleftrightarrow>
     (\<forall>f \<in> {op_fragment_bytes p, op_fragment_default p}. f = 0 \<or> (\<exists>j. f = 2 ^ j \<and> 6 \<le> j \<and> j \<le> 14))
   \<and> op_playback_delay_eighths p \<le> 1024 \<and> op_playback_delay_default p \<le> 1024
   \<and> (\<not> op_playback p \<longrightarrow> op_playback_delay_eighths p = 10 \<and> op_playback_delay_default p = 10)"

lemma properties_fragment:
  assumes "properties_ok p"
  shows "op_fragment_bytes p = 0 \<or> 64 \<le> op_fragment_bytes p \<and> op_fragment_bytes p \<le> 16384"
proof -
  have "64 \<le> (2::nat) ^ j \<and> (2::nat) ^ j \<le> 16384" if "6 \<le> j" "j \<le> 14" for j
    using power_increasing [of 6 j "2::nat"] power_increasing [of j 14 "2::nat"] that by simp
  then show ?thesis using assms by (auto simp: properties_ok_def)
qed

lemma properties_new_ok: "properties_ok (properties_new playback)"
  by (simp add: properties_ok_def properties_new_def)

lemma normalize_fragment_ok:
  "v \<le> u32_max \<Longrightarrow> normalize_fragment v = 0 \<or> (\<exists>j. normalize_fragment v = 2 ^ j \<and> 6 \<le> j \<and> j \<le> 14)"
  using normalize_fragment_pow2 [of v] by (cases "v = 0") (auto simp: normalize_fragment_def [of 0])

text \<open>The values an update can carry: a parsed u32.\<close>

definition update_u32 :: "oss_property_update \<Rightarrow> bool" where
  "update_u32 u = (case u of UpdFragment v \<Rightarrow> v \<le> u32_max | UpdPlaybackDelay v \<Rightarrow> v \<le> u32_max)"

lemma properties_apply_ok:
  "update_u32 u \<Longrightarrow> properties_ok p \<Longrightarrow> properties_ok (snd (properties_apply u p))"
  using normalize_fragment_ok
  by (cases u) (auto simp: properties_ok_def properties_apply_def update_u32_def Let_def)

lemma properties_set_init_ok:
  "update_u32 u \<Longrightarrow> properties_ok p \<Longrightarrow> properties_ok (properties_set_init u p)"
  using properties_apply_ok [of u p] by (auto simp: properties_ok_def properties_set_init_def Let_def
      properties_apply_def split: oss_property_update.splits)

lemma properties_reset_ok: "properties_ok p \<Longrightarrow> properties_ok (snd (properties_reset p))"
  unfolding properties_ok_def properties_reset_def Let_def by simp

lemma parse_digits_u32: "parse_digits a s = Some v \<Longrightarrow> a \<le> u32_max \<Longrightarrow> v \<le> u32_max"
  by (induction a s rule: parse_digits.induct) (auto simp: Let_def split: option.splits if_splits)

lemma parse_u32_u32: "parse_u32 s = Some v \<Longrightarrow> v \<le> u32_max"
  using parse_digits_u32 [of 0 _ v]
  by (auto simp: parse_u32_def simp del: parse_digits.simps split: list.splits if_splits)

lemma node_init_parse_ok:
  "properties_ok (ni_properties i) \<Longrightarrow> properties_ok (ni_properties (snd (node_init_parse k v i)))"
  using parse_u32_u32 [of v] properties_set_init_ok
  by (auto simp: node_init_parse_def update_u32_def split: option.split)

lemma digit_value_char_of: "d < 10 \<Longrightarrow> digit_value (char_of (48 + d)) = Some d"
  by (simp add: digit_value_def)

lemma parse_digits_append:
  "parse_digits a (xs @ ys) = Option.bind (parse_digits a xs) (\<lambda>v. parse_digits v ys)"
  by (induction a xs rule: parse_digits.induct) (auto simp: Let_def split: option.splits)

lemma parse_show_digits: "n \<le> u32_max \<Longrightarrow> parse_digits 0 (show_nat n) = Some n"
proof (induction n rule: show_nat.induct)
  case (1 n)
  show ?case
  proof (cases "n < 10")
    case True
    then show ?thesis using "1.prems" by (simp add: show_nat.simps [of n] digit_value_char_of)
  next
    case False
    have "parse_digits 0 (show_nat (n div 10)) = Some (n div 10)"
      using "1.IH" [OF False] "1.prems" div_le_dividend [of n 10] by (meson le_trans)
    then show ?thesis using False "1.prems"
      by (simp add: show_nat.simps [of n] parse_digits_append digit_value_char_of)
  qed
qed

lemma show_nat_head: "\<exists>d < (10::nat). \<exists>cs. show_nat n = char_of (48 + d) # cs"
proof (induction n rule: show_nat.induct)
  case (1 n)
  show ?case
  proof (cases "n < 10")
    case True
    then show ?thesis by (auto simp: show_nat.simps [of n])
  next
    case False
    then show ?thesis using "1.IH" [OF False] by (auto simp: show_nat.simps [of n])
  qed
qed

lemma char_of_digit_not_plus: "d < 10 \<Longrightarrow> char_of (48 + d :: nat) \<noteq> CHR ''+''"
proof
  assume d: "d < 10" and eq: "char_of (48 + d :: nat) = CHR ''+''"
  have "of_char (char_of (48 + d :: nat)) = (of_char (CHR ''+'') :: nat)" using eq by simp
  then show False using d by simp
qed

lemma parse_show_u32: "n \<le> u32_max \<Longrightarrow> parse_u32 (show_nat n) = Some n"
proof -
  assume n: "n \<le> u32_max"
  obtain d cs where d: "d < (10::nat)" and c: "show_nat n = char_of (48 + d) # cs"
    using show_nat_head by blast
  show ?thesis
    unfolding parse_u32_def using parse_show_digits [OF n] char_of_digit_not_plus [OF d]
    by (simp add: c del: parse_digits.simps)
qed

lemma trim_stream_path: "trim_start_matches ''/dev/'' (stream_path n) = ''dsp'' @ show_nat n"
  by (simp add: stream_path_def trim_start_matches.simps [of _ "CHR ''/'' # _"]
      trim_start_matches.simps [of _ "CHR ''d'' # _"])

section \<open>Properties\<close>

text \<open>A PCM unit number survives printing into the stream path and the clock name: printing and
  parsing are inverse, so two devices never share a stream path or a graph clock name.\<close>

theorem unit_names_are_injective:
  assumes "i \<le> u32_max" "j \<le> u32_max"
  shows "parse_u32 (show_nat i) = Some i
    \<and> clock_name (stream_path i) = ''freebsd-oss.dsp'' @ show_nat i
    \<and> (stream_path i = stream_path j \<longrightarrow> i = j)
    \<and> (clock_name (stream_path i) = clock_name (stream_path j) \<longrightarrow> i = j)"
proof -
  have inj: "show_nat i = show_nat j \<Longrightarrow> i = j"
    using parse_show_u32 [OF assms(1)] parse_show_u32 [OF assms(2)] by (metis option.inject)
  have clk: "clock_name (stream_path k) = ''freebsd-oss.dsp'' @ show_nat k" for k
    unfolding clock_name_def trim_stream_path by simp
  have s: "stream_path i = stream_path j \<Longrightarrow> i = j"
    unfolding stream_path_def same_append_eq by (rule inj)
  have c: "clock_name (stream_path i) = clock_name (stream_path j) \<Longrightarrow> i = j"
    unfolding clk same_append_eq by (rule inj)
  show ?thesis using parse_show_u32 [OF assms(1)] clk [of i] s c by blast
qed

theorem unit_names_are_injective_witness:
  "parse_u32 (show_nat 3) = Some 3
    \<and> clock_name (stream_path 3) = ''freebsd-oss.dsp'' @ show_nat 3
    \<and> stream_path 3 \<noteq> stream_path 12 \<and> clock_name (stream_path 3) \<noteq> clock_name (stream_path 12)"
proof -
  have "(3::nat) \<noteq> 12" "(3::nat) \<le> u32_max" "(12::nat) \<le> u32_max" by simp_all
  then show ?thesis using unit_names_are_injective [of 3 12] by blast
qed

text \<open>A node's creation arguments, item after item, and a sequence of property updates.\<close>

definition node_init_from :: "bool \<Rightarrow> (string \<times> string) list \<Rightarrow> oss_node_init" where
  "node_init_from playback args =
     fold (\<lambda>(k, v) i. snd (node_init_parse k v i)) args (node_init_new playback)"

definition apply_updates :: "oss_property_update list \<Rightarrow> oss_properties \<Rightarrow> oss_properties" where
  "apply_updates us p = fold (\<lambda>u p. snd (properties_apply u p)) us p"

definition at_default :: "oss_properties \<Rightarrow> bool" where
  "at_default p \<longleftrightarrow> op_fragment_bytes p = op_fragment_default p
     \<and> op_playback_delay_eighths p = op_playback_delay_default p"

lemma node_init_parse_default:
  "at_default (ni_properties i) \<Longrightarrow> at_default (ni_properties (snd (node_init_parse k v i)))"
  by (auto simp: node_init_parse_def properties_set_init_def at_default_def Let_def split: option.split)

lemma node_init_from_ok:
  "properties_ok (ni_properties (node_init_from playback args))
    \<and> at_default (ni_properties (node_init_from playback args))"
proof -
  have "properties_ok (ni_properties (fold (\<lambda>(k, v) i. snd (node_init_parse k v i)) args i))
      \<and> at_default (ni_properties (fold (\<lambda>(k, v) i. snd (node_init_parse k v i)) args i))"
    if "properties_ok (ni_properties i)" "at_default (ni_properties i)" for i
    using that
    by (induction args arbitrary: i) (auto simp: split_beta node_init_parse_ok node_init_parse_default)
  then show ?thesis
    unfolding node_init_from_def
    using properties_new_ok by (simp add: node_init_new_def at_default_def properties_new_def)
qed

lemma apply_keeps_reset: "snd (properties_reset (snd (properties_apply u p))) = snd (properties_reset p)"
  unfolding properties_reset_def Let_def snd_conv
  by (cases u) (simp_all add: properties_apply_def Let_def)

lemma apply_updates_ok:
  "properties_ok p \<Longrightarrow> \<forall>u \<in> set us. update_u32 u \<Longrightarrow>
    properties_ok (apply_updates us p)
    \<and> snd (properties_reset (apply_updates us p)) = snd (properties_reset p)"
  unfolding apply_updates_def
  by (induction us arbitrary: p) (simp_all add: properties_apply_ok apply_keeps_reset)

lemma reset_at_default: "at_default p \<Longrightarrow> properties_reset p = (False, p)"
  unfolding at_default_def properties_reset_def Let_def by simp

text \<open>C13. The stream properties stay valid through any creation arguments, updates and resets
  (fragment automatic or a power of two between 64 and 16384, delay at most 1024 eighths, the delay
  of a capture stream untouched), and a reset after any updates restores exactly the values the
  creation arguments left.\<close>

theorem properties_stay_valid:
  assumes "\<forall>u \<in> set us. update_u32 u"
  shows "properties_ok (apply_updates us (ni_properties (node_init_from playback args)))
    \<and> snd (properties_reset (apply_updates us (ni_properties (node_init_from playback args))))
        = ni_properties (node_init_from playback args)"
  using node_init_from_ok [of playback args] apply_updates_ok [OF _ assms] reset_at_default
  by (metis snd_conv)

theorem properties_stay_valid_witness:
  "properties_ok (apply_updates [UpdFragment 100, UpdPlaybackDelay 5000]
     (ni_properties (node_init_from True [(''oss.delay'', ''12''), (''oss.fragment'', ''4096'')])))
    \<and> snd (properties_reset (apply_updates [UpdFragment 100, UpdPlaybackDelay 5000]
        (ni_properties (node_init_from True [(''oss.delay'', ''12''), (''oss.fragment'', ''4096'')]))))
      = ni_properties (node_init_from True [(''oss.delay'', ''12''), (''oss.fragment'', ''4096'')])"
  by (rule properties_stay_valid) (simp add: update_u32_def)

end
