(* ===== verification/PlaybackIface.thy ===== *)
theory PlaybackIface
  imports Backend
begin

text \<open>
  The playback half of the backend contract (traits \<open>StreamLifecycle\<close> and \<open>PlaybackOperations\<close> of
  crates/core/src/backend/mod.rs). The sink node is generic over a backend; here a backend is the
  record of its operations over a device state \<open>'d\<close> and a property type \<open>'p\<close>, every operation
  returning the new device state. The locale \<open>playback_backend\<close> states what the sink relies on; the
  OSS backend discharges it.
\<close>

record ('d, 'p) playback_ops =
  pb_is_closed :: "'d \<Rightarrow> bool"
  pb_is_running :: "'d \<Rightarrow> bool"
  pb_suspend :: "'d \<Rightarrow> bool \<times> 'd"
  pb_prime_buffer :: "playback_request \<Rightarrow> 'p \<Rightarrow> 'd \<Rightarrow> playback_geometry \<times> 'd"
  pb_retune_buffer :: "playback_request \<Rightarrow> u32 \<Rightarrow> u64 \<Rightarrow> 'd \<Rightarrow> playback_retune \<times> 'd"
  pb_write :: "byte list \<Rightarrow> 'd \<Rightarrow> write_outcome \<times> 'd"
  pb_write_silence :: "u32 \<Rightarrow> 'd \<Rightarrow> 'd"
  pb_end_buffer_sequence :: "'d \<Rightarrow> bool \<times> 'd"
  pb_queued_bytes :: "'d \<Rightarrow> u32 \<times> 'd"
  pb_underruns :: "'d \<Rightarrow> xrun_observation \<times> 'd"
  pb_pause :: "'d \<Rightarrow> (int + pause_outcome) \<times> 'd"
  pb_resume :: "'d \<Rightarrow> (int + unit) \<times> 'd"
  pb_underrun_low :: "u32 \<Rightarrow> u32 \<Rightarrow> u32 \<Rightarrow> u32 \<Rightarrow> u32"

text \<open>
  The contract. \<open>ok\<close> is the backend's own invariant (for the OSS writer it includes that no
  assertion of the code has failed), \<open>pok\<close> the validity of its properties, and \<open>accepted\<close> the playback bytes the device holds an account
  of since its queue was last reset. Every operation may be called on a device that is not closed;
  the two queue observations need a running one, as the trait documents.
\<close>

locale playback_backend =
  fixes B :: "('d, 'p) playback_ops"
    and ok :: "'d \<Rightarrow> bool"
    and accepted :: "'d \<Rightarrow> byte list"
    and pok :: "'p \<Rightarrow> bool"
  assumes not_both: "pb_is_running B d \<Longrightarrow> \<not> pb_is_closed B d"
    and write_ok: "ok d \<Longrightarrow> \<not> pb_is_closed B d \<Longrightarrow> ok (snd (pb_write B buf d))"
    and write_running: "ok d \<Longrightarrow> \<not> pb_is_closed B d \<Longrightarrow> pb_is_running B (snd (pb_write B buf d))"
    and write_le: "ok d \<Longrightarrow> \<not> pb_is_closed B d \<Longrightarrow> wo_bytes (fst (pb_write B buf d)) \<le> length buf"
    and write_accepts: "ok d \<Longrightarrow> \<not> pb_is_closed B d \<Longrightarrow>
      accepted (snd (pb_write B buf d)) = accepted d @ take (wo_bytes (fst (pb_write B buf d))) buf"
    and silence_ok: "ok d \<Longrightarrow> \<not> pb_is_closed B d \<Longrightarrow> ok (pb_write_silence B n d)"
    and silence_running: "ok d \<Longrightarrow> \<not> pb_is_closed B d \<Longrightarrow> pb_is_running B (pb_write_silence B n d)"
    and prime_ok: "ok d \<Longrightarrow> \<not> pb_is_closed B d \<Longrightarrow> \<not> pb_is_running B d \<Longrightarrow> pok p \<Longrightarrow>
      ok (snd (pb_prime_buffer B req p d))"
    and prime_running: "ok d \<Longrightarrow> \<not> pb_is_closed B d \<Longrightarrow> \<not> pb_is_running B d \<Longrightarrow> pok p \<Longrightarrow>
      pb_is_running B (snd (pb_prime_buffer B req p d))"
    and prime_target: "pg_target_fill_bytes (fst (pb_prime_buffer B req p d))
      \<le> pg_target_goal_bytes (fst (pb_prime_buffer B req p d))"
    and retune_ok: "ok d \<Longrightarrow> \<not> pb_is_closed B d \<Longrightarrow> ok (snd (pb_retune_buffer B req fill now d))"
    and retune_not_closed: "pb_is_closed B (snd (pb_retune_buffer B req fill now d)) = pb_is_closed B d"
    and retune_accepted: "fst (pb_retune_buffer B req fill now d) \<noteq> PRReprime \<Longrightarrow>
      accepted (snd (pb_retune_buffer B req fill now d)) = accepted d"
    and retune_reprime: "fst (pb_retune_buffer B req fill now d) = PRReprime \<Longrightarrow>
      \<not> pb_is_running B (snd (pb_retune_buffer B req fill now d))"
    and retune_keeps_running: "fst (pb_retune_buffer B req fill now d) \<noteq> PRReprime \<Longrightarrow>
      pb_is_running B (snd (pb_retune_buffer B req fill now d)) = pb_is_running B d"
    and retune_target: "fst (pb_retune_buffer B req fill now d) = PRApplied g \<Longrightarrow>
      pg_target_fill_bytes g \<le> pg_target_goal_bytes g"
    and end_ok: "ok d \<Longrightarrow> ok (snd (pb_end_buffer_sequence B d))"
    and end_not_closed: "ok d \<Longrightarrow> pb_is_closed B (snd (pb_end_buffer_sequence B d)) = pb_is_closed B d"
    and queued_ok: "ok d \<Longrightarrow> pb_is_running B d \<Longrightarrow> ok (snd (pb_queued_bytes B d))"
    and queued_frame: "pb_is_running B (snd (pb_queued_bytes B d)) = pb_is_running B d"
      "pb_is_closed B (snd (pb_queued_bytes B d)) = pb_is_closed B d"
      "accepted (snd (pb_queued_bytes B d)) = accepted d"
    and underruns_ok: "ok d \<Longrightarrow> pb_is_running B d \<Longrightarrow> ok (snd (pb_underruns B d))"
    and underruns_frame: "pb_is_running B (snd (pb_underruns B d)) = pb_is_running B d"
      "pb_is_closed B (snd (pb_underruns B d)) = pb_is_closed B d"
      "accepted (snd (pb_underruns B d)) = accepted d"
    and suspend_ok: "ok d \<Longrightarrow> ok (snd (pb_suspend B d))"
    and suspend_not_closed: "pb_is_closed B (snd (pb_suspend B d)) = pb_is_closed B d"
    and suspend_stops: "fst (pb_suspend B d) \<Longrightarrow> \<not> pb_is_running B (snd (pb_suspend B d))"
    and pause_ok: "ok d \<Longrightarrow> ok (snd (pb_pause B d))"
    and pause_frame: "pb_is_running B (snd (pb_pause B d)) = pb_is_running B d"
      "pb_is_closed B (snd (pb_pause B d)) = pb_is_closed B d"
    and resume_ok: "ok d \<Longrightarrow> ok (snd (pb_resume B d))"
    and resume_frame: "pb_is_running B (snd (pb_resume B d)) = pb_is_running B d"
      "pb_is_closed B (snd (pb_resume B d)) = pb_is_closed B d"

end
