(* ===== verification/OssPlayback.thy ===== *)
theory OssPlayback
  imports OssAbi OssIdentity PlaybackIface
begin

text \<open>
  The OSS playback stream \<open>DspWriter\<close> (crates/freebsd-oss/src/freebsd\_oss/dsp.rs): opening,
  trigger suspension, pause and resume over the kernel's shadow buffer, ring sizing, the
  frame-aligned nonblocking write, and the silence fills. The stream's descriptor is the kernel
  record \<open>w_kernel\<close>. A failed \<open>assert\<close> or \<open>expect\<close> of the code sets the flag \<open>w_panic\<close>, which
  nothing clears; the theorems below show that it stays unset. Logging, the debug-build tracing and
  the sleep between retries are not modelled.
\<close>

section \<open>State\<close>

record playback_buffer_state =
  ps_period_bytes :: u32
  ps_quantum_bytes :: u32
  ps_capacity_bytes :: u32
  ps_mismatch_cycles :: u32
  ps_last_retune_log_ns :: u64
  ps_suppressed_retune_logs :: u32

definition playback_buffer_default :: playback_buffer_state where
  "playback_buffer_default =
     \<lparr>ps_period_bytes = 0, ps_quantum_bytes = 0, ps_capacity_bytes = 0, ps_mismatch_cycles = 0,
      ps_last_retune_log_ns = 0, ps_suppressed_retune_logs = 0\<rparr>"

record dsp_writer =
  w_delivery_quantum :: delivery_quantum
  w_fd :: bool
  w_state :: dsp_state
  w_needs_trigger :: bool
  w_pause_shadowed :: bool
  w_hw_caps :: "32 word"
  w_stride :: u32
  w_silence_pattern :: silence_pattern
  w_pattern_cache :: "byte list option"
  w_delay_eighths :: u32
  w_frame_off :: u32
  w_wake_threshold :: u32
  w_buffer :: playback_buffer_state
  w_kernel :: oss_kernel
  w_panic :: bool

record native_write =
  nw_bytes :: int
  nw_error :: "errno option"

abbreviation (input) BULK_SILENCE_BYTES :: nat where "BULK_SILENCE_BYTES \<equiv> 131072"
abbreviation (input) SILENCE_CHUNK_BYTES :: nat where "SILENCE_CHUNK_BYTES \<equiv> 4096"

definition with_kernel :: "(oss_kernel \<Rightarrow> 'a \<times> oss_kernel) \<Rightarrow> dsp_writer \<Rightarrow> 'a \<times> dsp_writer" where
  "with_kernel f w = (let (r, k) = f (w_kernel w) in (r, w\<lparr>w_kernel := k\<rparr>))"

definition assert_w :: "bool \<Rightarrow> dsp_writer \<Rightarrow> dsp_writer" where
  "assert_w b w = w\<lparr>w_panic := w_panic w \<or> \<not> b\<rparr>"

section \<open>Lifecycle\<close>

definition underrun_low :: "u32 \<Rightarrow> u32 \<Rightarrow> u32 \<Rightarrow> u32 \<Rightarrow> u32" where
  "underrun_low target_fill delivery_quantum period_bytes drained_bytes =
     (let low = max (min period_bytes (sat_sub target_fill delivery_quantum)) (period_bytes div 4);
          wander = max (period_bytes div 4) delivery_quantum
      in max (min low (sat_sub (sat_sub target_fill drained_bytes) wander)) (period_bytes div 16))"

definition writer_new :: "delivery_quantum \<Rightarrow> oss_kernel \<Rightarrow> dsp_writer" where
  "writer_new dq k =
     \<lparr>w_delivery_quantum = dq, w_fd = False, w_state = Closed, w_needs_trigger = False,
      w_pause_shadowed = False, w_hw_caps = 0, w_stride = 1, w_silence_pattern = silence_zero 1,
      w_pattern_cache = None, w_delay_eighths = 10, w_frame_off = 0, w_wake_threshold = 0,
      w_buffer = playback_buffer_default, w_kernel = k, w_panic = False\<rparr>"

definition writer_is_closed :: "dsp_writer \<Rightarrow> bool" where
  "writer_is_closed w \<longleftrightarrow> w_state w = Closed"

definition writer_is_running :: "dsp_writer \<Rightarrow> bool" where
  "writer_is_running w \<longleftrightarrow> w_state w = Running"

definition set_silence_pattern :: "silence_pattern \<Rightarrow> dsp_writer \<Rightarrow> dsp_writer" where
  "set_silence_pattern pattern w =
     w\<lparr>w_pattern_cache :=
         (if uniform_byte pattern = None
          then Some (silence_fill pattern (max BULK_SILENCE_BYTES (sp_frame_multiple pattern)))
          else None),
       w_silence_pattern := pattern\<rparr>"

definition writer_open :: "dsp_writer \<Rightarrow> (errno + unit) \<times> dsp_writer" where
  "writer_open w0 =
     (let w = assert_w (w_state w0 = Closed) w0;
          (r, w1) = with_kernel sys_open w
      in case r of
           Some e \<Rightarrow> (Inl e, w1)
         | None \<Rightarrow> (Inr (), w1\<lparr>w_fd := True, w_state := Setup\<rparr>))"

definition writer_close :: "dsp_writer \<Rightarrow> dsp_writer" where
  "writer_close w0 =
     (let w = assert_w (w_state w0 \<noteq> Closed \<and> w_fd w0) w0
      in w\<lparr>w_kernel := sys_close (halt (w_kernel w)), w_fd := False, w_state := Closed,
           w_needs_trigger := False, w_pause_shadowed := False, w_hw_caps := 0, w_frame_off := 0,
           w_buffer := playback_buffer_default, w_wake_threshold := 0\<rparr>)"

definition writer_suspend :: "dsp_writer \<Rightarrow> bool \<times> dsp_writer" where
  "writer_suspend w =
     (if w_state w \<noteq> Running then (True, w)
      else let (ok, w1) = with_kernel (set_trigger 0) w
           in if \<not> ok then (False, w1)
              else (True, w1\<lparr>w_state := Setup, w_needs_trigger := True, w_pause_shadowed := False,
                             w_frame_off := 0\<rparr>))"

definition queued_pause_outcome :: "dsp_writer \<Rightarrow> pause_outcome" where
  "queued_pause_outcome w =
     (if uniform_byte (w_silence_pattern w) \<noteq> None then Preserved else PauseReprime)"

definition writer_pause :: "dsp_writer \<Rightarrow> (errno + pause_outcome) \<times> dsp_writer" where
  "writer_pause w0 =
     (let w = w0\<lparr>w_pause_shadowed := False\<rparr>
      in if w_state w \<noteq> Running then (Inr Preserved, w)
         else let (d, w1) = with_kernel try_odelay w
              in case d of
                   Inl e \<Rightarrow> (Inl e, w1)
                 | Inr delay \<Rightarrow>
                     if delay \<le> 0 then (Inr Preserved, w1)
                     else if queued_pause_outcome w1 = PauseReprime then (Inr PauseReprime, w1)
                     else let (s, w2) = with_kernel shadow_pause w1
                          in case s of
                               Inl e \<Rightarrow> (Inl e, w2)
                             | Inr _ \<Rightarrow>
                                 (let (d2, w3) = with_kernel try_odelay w2
                                  in case d2 of
                                       Inl e \<Rightarrow> (Inl e, w3)
                                     | Inr delay2 \<Rightarrow>
                                         (Inr Preserved, w3\<lparr>w_pause_shadowed := delay2 > 0\<rparr>)))"

definition writer_resume :: "dsp_writer \<Rightarrow> (errno + unit) \<times> dsp_writer" where
  "writer_resume w0 =
     (let w = w0\<lparr>w_pause_shadowed := False\<rparr>
      in if \<not> w_pause_shadowed w0 then (Inr (), w)
         else let (r, w1) = with_kernel restore_shadow w
              in case r of Inl e \<Rightarrow> (Inl e, w1) | Inr _ \<Rightarrow> (Inr (), w1))"

definition arm :: "dsp_writer \<Rightarrow> dsp_writer" where
  "arm w = (if w_needs_trigger w
            then snd (with_kernel (set_trigger PCM_ENABLE_OUTPUT) (w\<lparr>w_needs_trigger := False\<rparr>))
            else w)"

definition writer_configure ::
  "u32 \<Rightarrow> u32 \<Rightarrow> u32 \<Rightarrow> u64 option \<Rightarrow> dsp_writer \<Rightarrow> (errno + applied_native_config) \<times> dsp_writer" where
  "writer_configure fmt channels rate channel_order w00 =
     (let w0 = assert_w (w_state w00 = Setup) w00;
          (f, w1) = with_kernel (set_format fmt) w0
      in case f of Inl e \<Rightarrow> (Inl e, w1) | Inr gfmt \<Rightarrow>
     (let (c, w2) = with_kernel (set_channels channels) w1
      in case c of Inl e \<Rightarrow> (Inl e, w2) | Inr gchannels \<Rightarrow>
     (let w3 = w2\<lparr>w_stride := native_frame_stride gfmt gchannels\<rparr>;
          (o', w4) = (case channel_order of
                        None \<Rightarrow> (Inr (), w3)
                      | Some order \<Rightarrow> with_kernel (set_channel_order order) w3)
      in case o' of Inl e \<Rightarrow> (Inl e, w4) | Inr _ \<Rightarrow>
     (let (r, w5) = with_kernel (set_rate rate) w4
      in case r of Inl e \<Rightarrow> (Inl e, w5) | Inr grate \<Rightarrow>
     (let (caps, w6) = with_kernel channel_caps w5
      in (Inr \<lparr>an_format = gfmt, an_channels = gchannels, an_rate = grate\<rparr>,
          w6\<lparr>w_hw_caps := caps\<rparr>))))))"

section \<open>Ring sizing\<close>

definition set_buffer_size :: "bool \<Rightarrow> u32 \<Rightarrow> u32 \<Rightarrow> dsp_writer \<Rightarrow> buffer_layout \<times> dsp_writer" where
  "set_buffer_size scaled len fragment w00 =
     (let max_count = min (BUFFER_CAPACITY_MAX_BYTES scaled div fragment) u16_max;
          w0 = (assert_w (w_state w00 = Setup \<and> w_fd w00 \<and> (fragment = 0 \<or> 2 \<le> max_count)) w00)
                 \<lparr>w_wake_threshold := 0\<rparr>;
          k1 = (if fragment = 0
                then set_fragment (min (div_ceil len 1024) u16_max) 10 (w_kernel w0)
                else let count = clamp (div_ceil len fragment) 2 max_count
                     in set_fragment (count mod 65536) (trailing_zeros32 fragment) (w_kernel w0));
          (q, k2) = blocksize k1;
          (c, k3) = ospace_in_bytes k2
      in (\<lparr>bl_queued_bytes = 0, bl_quantum_bytes = nat (max q 0), bl_capacity_bytes = nat (max c 0)\<rparr>,
          w0\<lparr>w_kernel := k3\<rparr>))"

definition playback_cache ::
  "playback_request \<Rightarrow> playback_geometry \<Rightarrow> playback_buffer_state" where
  "playback_cache request geometry =
     playback_buffer_default\<lparr>ps_period_bytes := pr_period_bytes request,
       ps_quantum_bytes := pg_quantum_bytes geometry,
       ps_capacity_bytes := pg_capacity_bytes geometry\<rparr>"

definition writer_retune_buffer ::
  "playback_request \<Rightarrow> u32 \<Rightarrow> u64 \<Rightarrow> dsp_writer \<Rightarrow> playback_retune \<times> dsp_writer" where
  "writer_retune_buffer request current_fill_bytes now_ns w =
     (let b = w_buffer w
      in if \<not> writer_is_running w \<or> ps_period_bytes b = 0 \<or> pr_period_bytes request = 0
            \<or> pr_period_bytes request = ps_period_bytes b
         then (PRUnchanged, w\<lparr>w_buffer := b\<lparr>ps_mismatch_cycles := 0\<rparr>\<rparr>)
         else let b1 = b\<lparr>ps_mismatch_cycles := sat_add32 (ps_mismatch_cycles b) 1\<rparr>;
                  w1 = w\<lparr>w_buffer := b1\<rparr>
              in if ps_mismatch_cycles b1 < 2 then (PRPending, w1)
                 else let geometry = playback_retuned_geometry request (ps_capacity_bytes b1)
                            (ps_quantum_bytes b1) (duration_ns (w_delivery_quantum w1))
                            current_fill_bytes (w_delay_eighths w1)
                      in if pg_capacity_bytes geometry \<ge> pg_required_capacity_bytes geometry
                         then (PRApplied geometry,
                               w1\<lparr>w_buffer := b1\<lparr>ps_period_bytes := pr_period_bytes request,
                                                  ps_mismatch_cycles := 0\<rparr>\<rparr>)
                         else let (ok, w2) = writer_suspend w1
                              in if ok
                                 then (PRReprime, w2\<lparr>w_buffer := (w_buffer w2)\<lparr>ps_mismatch_cycles := 0\<rparr>\<rparr>)
                                 else if now_ns - ps_last_retune_log_ns (w_buffer w2) \<ge> nsec_per_sec
                                      then (PRRebuild, w2\<lparr>w_buffer := (w_buffer w2)
                                              \<lparr>ps_last_retune_log_ns := now_ns, ps_suppressed_retune_logs := 0\<rparr>\<rparr>)
                                      else (PRRebuild, w2\<lparr>w_buffer := (w_buffer w2)
                                              \<lparr>ps_suppressed_retune_logs :=
                                                 sat_add32 (ps_suppressed_retune_logs (w_buffer w2)) 1\<rparr>\<rparr>))"

section \<open>The write path\<close>

text \<open>\<open>write_buffered\<close>: one write(2), which starts a configured stream and advances the frame phase
  by the accepted bytes.\<close>

definition write_buffered :: "byte list \<Rightarrow> dsp_writer \<Rightarrow> native_write \<times> dsp_writer" where
  "write_buffered buf w00 =
     (let count = as_u32 (length buf);
          w01 = (if w_state w00 = Setup then w00\<lparr>w_state := Running\<rparr> else w00);
          w0 = assert_w (w_state w01 = Running \<and> w_fd w01) w01;
          (r, w1) = with_kernel (sys_write (take count buf)) w0
      in case r of
           Inl e \<Rightarrow> (\<lparr>nw_bytes = - 1, nw_error = Some e\<rparr>, w1)
         | Inr n \<Rightarrow>
             (\<lparr>nw_bytes = int n, nw_error = None\<rparr>,
              if 0 < n then w1\<lparr>w_frame_off := (w_frame_off w1 + n) mod max (w_stride w1) 1\<rparr> else w1))"

text \<open>\<open>write_exact\<close>: the loop, with its counters as arguments. It ends because each turn either
  accepts bytes or counts a try.\<close>

lemma write_buffered_bytes_le: "nw_bytes (fst (write_buffered buf w)) \<le> int (as_u32 (length buf))"
proof -
  have "fst (with_kernel (sys_write (take (as_u32 (length buf)) buf)) v) = Inr n
      \<Longrightarrow> n \<le> as_u32 (length buf)" for v n
    using sys_write_le [of "take (as_u32 (length buf)) buf" "w_kernel v" n]
    by (simp add: with_kernel_def split_beta Let_def)
  then show ?thesis by (simp add: write_buffered_def Let_def split_beta split: sum.split)
qed

function write_exact_loop ::
  "byte list \<Rightarrow> u32 \<Rightarrow> nat \<Rightarrow> errno option \<Rightarrow> dsp_writer \<Rightarrow> u32 \<times> errno option \<times> dsp_writer" where
  "write_exact_loop buf done_bytes tries error w =
     (if \<not> done_bytes < as_u32 (length buf) then (done_bytes, error, w)
      else let (attempt, w1) = write_buffered (drop done_bytes buf) w
           in if nw_bytes attempt > 0
              then write_exact_loop buf (done_bytes + nat (nw_bytes attempt)) tries None w1
              else if (nw_bytes attempt < 0 \<and> nw_error attempt \<noteq> Some EAGAIN) \<or> w_needs_trigger w1
              then (done_bytes, nw_error attempt, w1)
              else if tries + 1 > 100 then (done_bytes, nw_error attempt, w1)
              else write_exact_loop buf done_bytes (tries + 1) (nw_error attempt) w1)"
  by pat_completeness auto
termination
  by (relation "measure (\<lambda>(buf, d, tries, e, w). (as_u32 (length buf) - d) + (101 - tries))") auto

declare write_exact_loop.simps [simp del]

definition write_exact :: "byte list \<Rightarrow> dsp_writer \<Rightarrow> native_write \<times> dsp_writer" where
  "write_exact buf w =
     (let (done_bytes, error, w1) = write_exact_loop buf 0 0 None w
      in (\<lparr>nw_bytes = int done_bytes,
           nw_error = (if done_bytes < as_u32 (length buf) then error else None)\<rparr>, w1))"

definition writer_write :: "byte list \<Rightarrow> dsp_writer \<Rightarrow> write_outcome \<times> dsp_writer" where
  "writer_write buf w00 =
     (let count = as_u32 (length buf);
          w0 = (if w_state w00 = Setup then w00\<lparr>w_state := Running\<rparr> else w00);
          (done1, error1, frame_complete, w1) =
            (if w_frame_off w0 \<noteq> 0 \<and> count \<noteq> 0
             then let need = min (w_stride w0 - w_frame_off w0) count;
                      (tail, w') = write_exact (take need buf) w0;
                      done_bytes = nat (max (nw_bytes tail) 0)
                  in if done_bytes < need then (done_bytes, nw_error tail, False, w')
                     else (done_bytes, None, True, w')
             else (0, None, True, w0));
          (done2, error2, w2) =
            (if frame_complete \<and> done1 < count
             then let (first, w') = write_buffered (drop done1 buf) w1
                  in if nw_bytes first \<le> 0 then (done1, nw_error first, w')
                     else let done_bytes = done1 + nat (nw_bytes first)
                          in if w_frame_off w' \<noteq> 0 \<and> done_bytes < count
                             then let need = min (w_stride w' - w_frame_off w') (count - done_bytes);
                                      (tail, w'') = write_exact (take need (drop done_bytes buf)) w'
                                  in (done_bytes + nat (max (nw_bytes tail) 0),
                                      if nw_bytes tail < int need then nw_error tail else error1, w'')
                             else (done_bytes, error1, w')
             else (done1, error1, w1))
      in (\<lparr>wo_bytes = done2,
           wo_status =
             (if done2 = 0 \<and> error2 = None then WouldBlock
              else case error2 of
                     Some e \<Rightarrow> if done2 < count then oss_io_status e else Progress
                   | None \<Rightarrow> Progress)\<rparr>, arm w2))"

section \<open>Synthetic silence\<close>

text \<open>\<open>Inl\<close> carries the error of the \<open>Err\<close> of \<open>realign_with_silence\<close>. The scratch block of the code
  has 4096 bytes; a longer frame would be an out-of-range slice.\<close>

definition realign_with_silence :: "dsp_writer \<Rightarrow> (errno option + unit) \<times> dsp_writer" where
  "realign_with_silence w =
     (if w_frame_off w \<noteq> 0
      then let need = w_stride w - w_frame_off w;
               w0 = assert_w (need \<le> SILENCE_CHUNK_BYTES) w;
               (result, w1) = write_exact (silence_fill_at (w_silence_pattern w) (w_frame_off w) need) w0
           in if w_frame_off w1 \<noteq> 0 then (Inl (nw_error result), w1) else (Inr (), w1)
      else (Inr (), w))"

definition aligned_silence_chunk :: "u32 \<Rightarrow> usize \<Rightarrow> dsp_writer \<Rightarrow> u32" where
  "aligned_silence_chunk count buffer_len w =
     (let chunk = min count (as_u32 buffer_len)
      in if chunk < count then wrap_sub32 chunk ((w_frame_off w + chunk) mod max (w_stride w) 1)
         else chunk)"

definition write_silence_chunk :: "byte list \<Rightarrow> dsp_writer \<Rightarrow> u32 option \<times> dsp_writer" where
  "write_silence_chunk silence w =
     (let (result, w1) = write_buffered silence w
      in (if nw_bytes result < 0 then None
          else if nw_bytes result \<noteq> 0 then Some (nat (nw_bytes result)) else None, w1))"

lemma write_silence_chunk_pos: "write_silence_chunk s w = (Some n, w1) \<Longrightarrow> 0 < n"
  by (auto simp: write_silence_chunk_def split_beta split: if_splits)

text \<open>The static silence blocks are a byte and a length.\<close>

function write_uniform_silence :: "u32 \<Rightarrow> byte \<Rightarrow> usize \<Rightarrow> dsp_writer \<Rightarrow> dsp_writer" where
  "write_uniform_silence count b len w00 =
     (if count = 0 then w00
      else let w0 = assert_w ((w_frame_off w00 + count) mod max (w_stride w00) 1 = 0) w00;
               chunk = aligned_silence_chunk count len w0
           in if chunk = 0 then w0
              else let w = assert_w (chunk \<le> len) w0
                   in case write_silence_chunk (replicate chunk b) w of
                        (None, w1) \<Rightarrow> w1
                      | (Some written, w1) \<Rightarrow> write_uniform_silence (count - written) b len w1)"
  by pat_completeness auto
termination
  by (relation "measure (\<lambda>(count, b, len, w). count)")
    (auto dest!: write_silence_chunk_pos [OF sym])

declare write_uniform_silence.simps [simp del]


text \<open>The loop of \<open>write_pattern_silence\<close>; the cache is out of the stream while it runs.\<close>

function write_pattern_loop :: "u32 \<Rightarrow> byte list \<Rightarrow> dsp_writer \<Rightarrow> dsp_writer" where
  "write_pattern_loop count cache w00 =
     (if count = 0 then w00
      else let start = w_frame_off w00;
               w0 = assert_w ((w_frame_off w00 + count) mod max (w_stride w00) 1 = 0
                              \<and> start < length cache) w00;
               available = length cache - start;
               chunk = aligned_silence_chunk count available w0
           in if chunk = 0 then w0
              else let w = assert_w (start + chunk \<le> length cache) w0
                   in case write_silence_chunk (take chunk (drop start cache)) w of
                        (None, w1) \<Rightarrow> w1
                      | (Some written, w1) \<Rightarrow> write_pattern_loop (count - written) cache w1)"
  by pat_completeness auto
termination
  by (relation "measure (\<lambda>(count, cache, w). count)")
    (auto dest!: write_silence_chunk_pos [OF sym])

declare write_pattern_loop.simps [simp del]

definition write_pattern_silence :: "u32 \<Rightarrow> dsp_writer \<Rightarrow> dsp_writer" where
  "write_pattern_silence count w =
     (case w_pattern_cache w of
        None \<Rightarrow> assert_w False w
      | Some cache \<Rightarrow>
          (write_pattern_loop count cache (w\<lparr>w_pattern_cache := None\<rparr>))\<lparr>w_pattern_cache := Some cache\<rparr>)"

definition writer_end_buffer_sequence :: "dsp_writer \<Rightarrow> bool \<times> dsp_writer" where
  "writer_end_buffer_sequence w =
     (if w_frame_off w = 0 then (False, w)
      else if w_state w \<noteq> Running then (False, w\<lparr>w_frame_off := 0\<rparr>)
      else if w_pause_shadowed w then writer_suspend w
      else case realign_with_silence w of
             (Inr _, w1) \<Rightarrow> (False, w1)
           | (Inl _, w1) \<Rightarrow> writer_suspend w1)"

definition write_silence_fill :: "u32 \<Rightarrow> dsp_writer \<Rightarrow> dsp_writer" where
  "write_silence_fill count w =
     (let count = count - count mod max (w_stride w) 1;
          u = uniform_byte (w_silence_pattern w)
      in if u = Some 0 then write_uniform_silence count 0 BULK_SILENCE_BYTES w
         else if u = Some 0x80 then write_uniform_silence count 0x80 BULK_SILENCE_BYTES w
         else if u = Some 0xff then write_uniform_silence count 0xff SILENCE_CHUNK_BYTES w
         else if u = Some 0x55 then write_uniform_silence count 0x55 SILENCE_CHUNK_BYTES w
         else write_pattern_silence count w)"

definition writer_write_silence :: "u32 \<Rightarrow> dsp_writer \<Rightarrow> dsp_writer" where
  "writer_write_silence count w00 =
     (let w0 = (if w_state w00 = Setup then w00\<lparr>w_state := Running\<rparr> else w00)
      in if w_frame_off w0 \<noteq> 0
         then case realign_with_silence w0 of
                (Inl _, w1) \<Rightarrow> w1
              | (Inr _, w1) \<Rightarrow> write_silence_fill count w1
         else write_silence_fill count w0)"

definition writer_queued_bytes :: "dsp_writer \<Rightarrow> u32 \<times> dsp_writer" where
  "writer_queued_bytes w0 =
     (let w = assert_w (w_state w0 = Running \<and> w_fd w0) w0;
          (d, w1) = with_kernel odelay w
      in (nat (max d 0), w1))"

definition writer_underruns :: "dsp_writer \<Rightarrow> xrun_observation \<times> dsp_writer" where
  "writer_underruns w0 =
     (let w = assert_w (w_state w0 = Running \<and> w_fd w0) w0;
          (info, w1) = with_kernel get_error w
      in (resetting_events (xrun_counter_bits (ei_play_underruns info)), w1))"

definition writer_prime_buffer ::
  "bool \<Rightarrow> playback_request \<Rightarrow> oss_properties \<Rightarrow> dsp_writer \<Rightarrow> playback_geometry \<times> dsp_writer" where
  "writer_prime_buffer scaled request properties w =
     (let w0 = w\<lparr>w_delay_eighths := op_playback_delay_eighths properties\<rparr>;
          fragment_bytes = op_fragment_bytes properties;
          dns = duration_ns (w_delivery_quantum w0);
          (capacity_request, _) =
            playback_buffer_plan scaled request dns fragment_bytes (w_delay_eighths w0);
          (applied, w1) = set_buffer_size scaled capacity_request fragment_bytes w0;
          geometry = playback_applied_geometry request (bl_capacity_bytes applied)
                       (bl_quantum_bytes applied) dns (w_delay_eighths w1);
          w2 = w1\<lparr>w_buffer := playback_cache request geometry\<rparr>
      in (geometry, writer_write_silence (pg_target_fill_bytes geometry) w2))"

section \<open>The shadow buffer of a pause\<close>

text \<open>Whether the call history (newest first) ends with a SILENCE whose shadow nothing has discarded
  since, and whether every SKIP of the history met such a shadow. Opening, closing, HALT and a
  successful SETTRIGGER(0) reset the soft buffer with its shadow.\<close>

fun shadow_armed :: "syscall list \<Rightarrow> bool" where
  "shadow_armed [] = False"
| "shadow_armed (SysIoctl DSP_SILENCE a ok # t) = (ok \<or> shadow_armed t)"
| "shadow_armed (SysIoctl DSP_SKIP a ok # t) = (\<not> ok \<and> shadow_armed t)"
| "shadow_armed (SysIoctl DSP_HALT a ok # t) = False"
| "shadow_armed (SysIoctl DSP_SETTRIGGER a ok # t) = (\<not> (ok \<and> a = 0) \<and> shadow_armed t)"
| "shadow_armed (SysOpen ok # t) = (\<not> ok \<and> shadow_armed t)"
| "shadow_armed (SysClose # t) = False"
| "shadow_armed (_ # t) = shadow_armed t"

fun skips_paired :: "syscall list \<Rightarrow> bool" where
  "skips_paired [] = True"
| "skips_paired (SysIoctl DSP_SKIP a ok # t) = (shadow_armed t \<and> skips_paired t)"
| "skips_paired (_ # t) = skips_paired t"

definition pairing :: "oss_kernel \<Rightarrow> bool \<times> bool" where
  "pairing k = (shadow_armed (k_trace k), skips_paired (k_trace k))"

lemma ioctl_int_pairing:
  "req \<notin> {DSP_SILENCE, DSP_SKIP, DSP_HALT, DSP_SETTRIGGER} \<Longrightarrow> pairing (snd (ioctl_int req a k)) = pairing k"
  by (cases req) (auto simp: pairing_def ioctl_int_trace)

lemma ioctl_space_pairing:
  "req \<notin> {DSP_SILENCE, DSP_SKIP, DSP_HALT, DSP_SETTRIGGER} \<Longrightarrow> pairing (snd (ioctl_space req k)) = pairing k"
  by (cases req) (auto simp: pairing_def ioctl_space_def split_beta Let_def)

lemma sys_write_pairing [simp]: "pairing (snd (sys_write buf k)) = pairing k"
  by (simp add: pairing_def sys_write_def split_beta Let_def split: sum.split)

lemma kernel_pairings [simp]:
  "pairing (snd (try_odelay k)) = pairing k"
  "pairing (snd (odelay k)) = pairing k"
  "pairing (snd (set_low_water b k)) = pairing k"
  "pairing (set_fragment n s k) = pairing k"
  "pairing (snd (blocksize k)) = pairing k"
  "pairing (snd (ospace_in_bytes k)) = pairing k"
  "pairing (snd (channel_caps k)) = pairing k"
  "req \<notin> {DSP_SILENCE, DSP_SKIP, DSP_HALT, DSP_SETTRIGGER} \<Longrightarrow> pairing (snd (set_value req v t k)) = pairing k"
  "pairing (snd (get_error k)) = pairing k"
  by (simp_all add: try_odelay_def odelay_def set_low_water_def set_fragment_def blocksize_def
      ospace_in_bytes_def set_value_def channel_caps_def split_beta Let_def ioctl_int_pairing
      ioctl_space_pairing) (simp add: pairing_def get_error_def split_beta Let_def)

lemma set_channel_order_pairing [simp]: "pairing (snd (set_channel_order order k)) = pairing k"
  by (simp add: set_channel_order_def split_beta Let_def ioctl_int_pairing split: sum.split)

lemma set_trigger_pairing:
  "pairing (snd (set_trigger trig k)) =
     (\<not> (fst (set_trigger trig k) \<and> trig = 0) \<and> fst (pairing k), snd (pairing k))"
  by (simp add: pairing_def set_trigger_def ioctl_int_trace split_beta Let_def)

section \<open>The stream's invariant\<close>

text \<open>\<open>frame_off\<close> is the phase of the bytes in the kernel's ring; a stream that is not running has an
  empty ring; no assertion has failed. \<open>silence_ready\<close> is what configuring the silence pattern adds to an open stream.\<close>

definition writer_base :: "dsp_writer \<Rightarrow> bool" where
  "writer_base w \<longleftrightarrow>
     \<not> w_panic w \<and> (w_fd w \<longleftrightarrow> w_state w \<noteq> Closed) \<and> 0 < w_stride w \<and> w_stride w \<le> SILENCE_CHUNK_BYTES
   \<and> (w_state w = Closed \<longrightarrow> w_frame_off w = 0 \<and> \<not> w_pause_shadowed w)
   \<and> (w_state w = Setup \<longrightarrow> k_ring (w_kernel w) = [])
   \<and> (w_state w \<noteq> Closed \<longrightarrow> w_frame_off w = length (k_ring (w_kernel w)) mod w_stride w)
   \<and> (w_pause_shadowed w \<longrightarrow> shadow_armed (k_trace (w_kernel w)))
   \<and> skips_paired (k_trace (w_kernel w))"

definition silence_ready :: "dsp_writer \<Rightarrow> bool" where
  "silence_ready w \<longleftrightarrow> w_state w = Closed \<or>
     sp_frame_multiple (w_silence_pattern w) = w_stride w
   \<and> pattern_of (w_silence_pattern w) \<noteq> []
   \<and> uniform_byte (w_silence_pattern w) \<in> {None, Some 0, Some 0x80, Some 0xff, Some 0x55}
   \<and> (uniform_byte (w_silence_pattern w) = None \<longrightarrow>
        w_pattern_cache w = Some (silence_fill (w_silence_pattern w)
          (max BULK_SILENCE_BYTES (sp_frame_multiple (w_silence_pattern w)))))"

definition writer_ok :: "dsp_writer \<Rightarrow> bool" where
  "writer_ok w \<longleftrightarrow> writer_base w \<and> silence_ready w"

text \<open>\<open>wrote bs w w'\<close>: the stream went from \<open>w\<close> to \<open>w'\<close> by having the kernel accept \<open>bs\<close>, and nothing
  else of it changed.\<close>

definition wrote :: "byte list \<Rightarrow> dsp_writer \<Rightarrow> dsp_writer \<Rightarrow> bool" where
  "wrote bs w w' \<longleftrightarrow>
     w' = w\<lparr>w_state := Running, w_frame_off := (w_frame_off w + length bs) mod w_stride w,
            w_kernel := w_kernel w'\<rparr>
   \<and> k_ring (w_kernel w') = k_ring (w_kernel w) @ bs
   \<and> pairing (w_kernel w') = pairing (w_kernel w)"

lemma wrote_fields:
  assumes "wrote bs w w'"
  shows "w_state w' = Running" "w_frame_off w' = (w_frame_off w + length bs) mod w_stride w"
    "w_stride w' = w_stride w" "w_silence_pattern w' = w_silence_pattern w"
    "w_pattern_cache w' = w_pattern_cache w" "w_panic w' = w_panic w" "w_fd w' = w_fd w"
    "w_needs_trigger w' = w_needs_trigger w" "w_pause_shadowed w' = w_pause_shadowed w"
    "w_buffer w' = w_buffer w" "k_ring (w_kernel w') = k_ring (w_kernel w) @ bs"
    "pairing (w_kernel w') = pairing (w_kernel w)"
proof -
  have eq: "w' = w\<lparr>w_state := Running, w_frame_off := (w_frame_off w + length bs) mod w_stride w,
            w_kernel := w_kernel w'\<rparr>"
    using assms by (simp add: wrote_def)
  show "w_state w' = Running" "w_frame_off w' = (w_frame_off w + length bs) mod w_stride w"
    "w_stride w' = w_stride w" "w_silence_pattern w' = w_silence_pattern w"
    "w_pattern_cache w' = w_pattern_cache w" "w_panic w' = w_panic w" "w_fd w' = w_fd w"
    "w_needs_trigger w' = w_needs_trigger w" "w_pause_shadowed w' = w_pause_shadowed w"
    "w_buffer w' = w_buffer w"
    by (subst eq, simp)+
  show "k_ring (w_kernel w') = k_ring (w_kernel w) @ bs"
    "pairing (w_kernel w') = pairing (w_kernel w)"
    using assms by (simp_all add: wrote_def)
qed

lemma wrote_trans:
  assumes a: "wrote a w w1" and b: "wrote b w1 w2"
  shows "wrote (a @ b) w w2"
proof -
  obtain f k where w1: "w1 = w\<lparr>w_state := Running, w_frame_off := f mod w_stride w, w_kernel := k\<rparr>"
    and f: "f = w_frame_off w + length a"
    using a by (metis wrote_def)
  have k: "k_ring k = k_ring (w_kernel w) @ a" "pairing k = pairing (w_kernel w)"
    using wrote_fields(11,12) [OF a] by (simp_all add: w1)
  have "w2 = w1\<lparr>w_state := Running, w_frame_off := (w_frame_off w1 + length b) mod w_stride w1,
      w_kernel := w_kernel w2\<rparr>"
    using b by (simp add: wrote_def)
  then have "w2 = w\<lparr>w_state := Running, w_frame_off := (f + length b) mod w_stride w,
      w_kernel := w_kernel w2\<rparr>"
    unfolding w1 by (simp add: mod_simps)
  then show ?thesis
    using wrote_fields(11,12) [OF b] k by (simp add: wrote_def w1 f add.assoc)
qed

lemma wrote_base: "wrote bs w w' \<Longrightarrow> writer_base w \<Longrightarrow> w_state w \<noteq> Closed \<Longrightarrow> writer_base w'"
  by (simp add: writer_base_def wrote_fields mod_simps) (auto dest: wrote_fields(12) simp: pairing_def)

lemma wrote_ready: "wrote bs w w' \<Longrightarrow> silence_ready w \<Longrightarrow> w_state w \<noteq> Closed \<Longrightarrow> silence_ready w'"
  by (simp add: silence_ready_def wrote_fields)

lemma wrote_ok: "wrote bs w w' \<Longrightarrow> writer_ok w \<Longrightarrow> w_state w \<noteq> Closed \<Longrightarrow> writer_ok w'"
  by (simp add: writer_ok_def wrote_base wrote_ready)

lemma base_frame_off: "writer_base w \<Longrightarrow> w_frame_off w < w_stride w"
  by (cases "w_state w = Closed") (simp_all add: writer_base_def)

lemma start_wrote:
  "writer_base w \<Longrightarrow> wrote [] w (if w_state w = Setup then w\<lparr>w_state := Running\<rparr> else w)"
  if "w_state w \<noteq> Closed"
  using base_frame_off [of w] that by (cases "w_state w") (simp_all add: wrote_def)

lemma write_buffered_wrote:
  assumes w: "writer_base w" "w_state w \<noteq> Closed" and r: "write_buffered buf w = (a, w1)"
  shows "wrote (take (nat (nw_bytes a)) buf) w w1
    \<and> nw_bytes a \<le> int (as_u32 (length buf)) \<and> - 1 \<le> nw_bytes a
    \<and> (nw_error a = None \<longleftrightarrow> 0 \<le> nw_bytes a)"
proof -
  let ?c = "as_u32 (length buf)"
  define w0 where "w0 = (if w_state w = Setup then w\<lparr>w_state := Running\<rparr> else w)"
  have w0: "wrote [] w w0" using start_wrote [OF w(2,1)] by (simp add: w0_def)
  note f = wrote_fields [OF w0]
  have fd: "w_fd w0" using w f(7) by (simp add: writer_base_def)
  have as: "assert_w (w_state w0 = Running \<and> w_fd w0) w0 = w0"
    using f(1) fd by (simp add: assert_w_def)
  have pos: "0 < w_stride w" using w(1) by (simp add: writer_base_def)
  have base0: "writer_base w0" using wrote_base [OF w0 w] .
  have def_eq: "write_buffered buf w =
      (let (r, w1) = with_kernel (sys_write (take ?c buf)) w0
       in case r of
           Inl e \<Rightarrow> (\<lparr>nw_bytes = - 1, nw_error = Some e\<rparr>, w1)
         | Inr n \<Rightarrow> (\<lparr>nw_bytes = int n, nw_error = None\<rparr>,
              if 0 < n then w1\<lparr>w_frame_off := (w_frame_off w1 + n) mod max (w_stride w1) 1\<rparr> else w1))"
    unfolding write_buffered_def Let_def w0_def [symmetric] as ..
  show ?thesis
  proof (cases "fst (sys_write (take ?c buf) (w_kernel w0))")
    case (Inl e)
    then have "w1 = w0\<lparr>w_kernel := snd (sys_write (take ?c buf) (w_kernel w0))\<rparr>" "nw_bytes a = - 1"
      "nw_error a = Some e"
      using r unfolding def_eq by (auto simp: with_kernel_def split_beta Let_def)
    moreover have "wrote [] w0 (w0\<lparr>w_kernel := snd (sys_write (take ?c buf) (w_kernel w0))\<rparr>)"
      using f(1) base_frame_off [OF base0] Inl by (simp add: wrote_def sys_write_ring)
    ultimately show ?thesis using wrote_trans [OF w0] by simp
  next
    case (Inr n)
    have n: "n \<le> length (take ?c buf)" using sys_write_le [OF Inr] .
    then have n': "n \<le> ?c" "n \<le> length buf" using le_trans [OF _ as_u32_le] by auto
    have mx: "max (w_stride w) 1 = w_stride w" "max (w_stride w) (Suc 0) = w_stride w"
      using pos by simp_all
    have w1: "w1 = w0\<lparr>w_kernel := snd (sys_write (take ?c buf) (w_kernel w0)),
        w_frame_off := (w_frame_off w0 + n) mod w_stride w0\<rparr>" and a: "nw_bytes a = int n" "nw_error a = None"
      using r Inr base_frame_off [OF base0] f(3) mx unfolding def_eq
      by (auto simp: with_kernel_def split_beta Let_def)
    have "wrote (take n buf) w0 w1"
      using f(1) Inr n' by (simp add: wrote_def w1 sys_write_ring min_absorb1)
    then show ?thesis using wrote_trans [OF w0] a n' by simp
  qed
qed

lemma write_exact_loop_wrote:
  assumes "writer_base w" "w_state w = Running" "d \<le> as_u32 (length buf)"
    "write_exact_loop buf d tries e w = (d', e', w1)"
  shows "d \<le> d' \<and> d' \<le> as_u32 (length buf) \<and> wrote (take (d' - d) (drop d buf)) w w1"
  using assms
proof (induction buf d tries e w rule: write_exact_loop.induct)
  case (1 buf d tries e w)
  let ?c = "as_u32 (length buf)"
  obtain a w2 where wb: "write_buffered (drop d buf) w = (a, w2)" by (cases "write_buffered (drop d buf) w")
  have live: "w_state w \<noteq> Closed" using "1.prems"(2) by simp
  have rest: "as_u32 (length buf - d) = ?c - d" using "1.prems"(3) by (rule as_u32_diff)
  note st = write_buffered_wrote [OF "1.prems"(1) live wb, simplified, unfolded rest]
  have base2: "writer_base w2" using wrote_base [OF _ "1.prems"(1) live] st by blast
  have run2: "w_state w2 = Running" using wrote_fields(1) st by blast
  have idle: "wrote [] w w" using "1.prems"(1,2) base_frame_off [of w] by (simp add: wrote_def)
  show ?case
  proof (cases "d < ?c")
    case False
    then have "d' = d" "w1 = w" using "1.prems"(4) by (simp_all add: write_exact_loop.simps [of buf d tries e w])
    then show ?thesis using "1.prems"(3) idle by simp
  next
    case lt: True
    show ?thesis
    proof (cases "nw_bytes a > 0")
      case True
      define n where "n = nat (nw_bytes a)"
      have n: "n \<le> ?c - d" "0 < n" using st True by (auto simp: n_def)
      have "write_exact_loop buf (d + n) tries None w2 = (d', e', w1)"
        using "1.prems"(4) lt True wb by (simp add: write_exact_loop.simps [of buf d tries e w] n_def)
      then have IH: "d + n \<le> d' \<and> d' \<le> ?c \<and> wrote (take (d' - (d + n)) (drop (d + n) buf)) w2 w1"
        using "1.IH"(1) [OF _ wb [symmetric] refl True] lt base2 run2 n by (simp add: n_def)
      have "wrote (take n (drop d buf) @ take (d' - (d + n)) (drop (d + n) buf)) w w1"
        using wrote_trans [of "take n (drop d buf)" w w2] st IH by (simp add: n_def)
      moreover have "take n (drop d buf) @ take (d' - (d + n)) (drop (d + n) buf) = take (d' - d) (drop d buf)"
        using take_append_take_drop [of n "drop d buf" "d' - (d + n)"] IH n by (simp add: add.commute)
      ultimately show ?thesis using IH by auto
    next
      case False
      then have w2: "wrote [] w w2" using st by simp
      show ?thesis
      proof (cases "(nw_bytes a < 0 \<and> nw_error a \<noteq> Some EAGAIN) \<or> w_needs_trigger w2 \<or> tries + 1 > 100")
        case True
        then have "d' = d" "w1 = w2"
          using "1.prems"(4) lt False wb by (auto simp: write_exact_loop.simps [of buf d tries e w] split: if_splits)
        then show ?thesis using w2 "1.prems"(3) by simp
      next
        case cont: False
        then have "write_exact_loop buf d (tries + 1) (nw_error a) w2 = (d', e', w1)"
          using "1.prems"(4) lt False wb
          by (simp add: write_exact_loop.simps [of buf d tries e w] split: if_splits)
        then have IH: "d \<le> d' \<and> d' \<le> ?c \<and> wrote (take (d' - d) (drop d buf)) w2 w1"
          using "1.IH"(2) [OF _ wb [symmetric] refl False] cont lt base2 run2 "1.prems"(3) by simp
        then show ?thesis using wrote_trans [OF w2] by auto
      qed
    qed
  qed
qed

lemma write_exact_wrote:
  assumes "writer_base w" "w_state w = Running" "write_exact buf w = (a, w1)"
  shows "wrote (take (nat (nw_bytes a)) buf) w w1 \<and> 0 \<le> nw_bytes a
    \<and> nw_bytes a \<le> int (as_u32 (length buf))"
proof -
  obtain d e where l: "write_exact_loop buf 0 0 None w = (d, e, w1)" and a: "nw_bytes a = int d"
    using assms(3) by (cases "write_exact_loop buf 0 0 None w") (auto simp: write_exact_def)
  show ?thesis using write_exact_loop_wrote [OF assms(1,2) _ l] a by simp
qed

section \<open>Real writes\<close>

text \<open>The two parts of \<open>writer_write\<close>, named for the proofs.\<close>

definition write_head :: "byte list \<Rightarrow> dsp_writer \<Rightarrow> u32 \<times> errno option \<times> bool \<times> dsp_writer" where
  "write_head buf w0 =
     (let count = as_u32 (length buf)
      in if w_frame_off w0 \<noteq> 0 \<and> count \<noteq> 0
         then let need = min (w_stride w0 - w_frame_off w0) count;
                  (tail, w') = write_exact (take need buf) w0;
                  done_bytes = nat (max (nw_bytes tail) 0)
              in if done_bytes < need then (done_bytes, nw_error tail, False, w')
                 else (done_bytes, None, True, w')
         else (0, None, True, w0))"

definition write_bulk ::
  "byte list \<Rightarrow> u32 \<times> errno option \<times> bool \<times> dsp_writer \<Rightarrow> u32 \<times> errno option \<times> dsp_writer" where
  "write_bulk buf = (\<lambda>(done1, error1, frame_complete, w1).
     let count = as_u32 (length buf)
     in if frame_complete \<and> done1 < count
        then let (first, w') = write_buffered (drop done1 buf) w1
             in if nw_bytes first \<le> 0 then (done1, nw_error first, w')
                else let done_bytes = done1 + nat (nw_bytes first)
                     in if w_frame_off w' \<noteq> 0 \<and> done_bytes < count
                        then let need = min (w_stride w' - w_frame_off w') (count - done_bytes);
                                 (tail, w'') = write_exact (take need (drop done_bytes buf)) w'
                             in (done_bytes + nat (max (nw_bytes tail) 0),
                                 if nw_bytes tail < int need then nw_error tail else error1, w'')
                        else (done_bytes, error1, w')
        else (done1, error1, w1))"

lemma writer_write_parts:
  "writer_write buf w =
     (let (done2, error2, w2) = write_bulk buf
            (write_head buf (if w_state w = Setup then w\<lparr>w_state := Running\<rparr> else w))
      in (\<lparr>wo_bytes = done2,
           wo_status =
             (if done2 = 0 \<and> error2 = None then WouldBlock
              else case error2 of
                     Some e \<Rightarrow> if done2 < as_u32 (length buf) then oss_io_status e else Progress
                   | None \<Rightarrow> Progress)\<rparr>, arm w2))"
  by (simp add: writer_write_def write_head_def write_bulk_def Let_def split_beta)

lemma write_head_wrote:
  assumes "writer_base w" "w_state w = Running" "write_head buf w = (d, e, fc, w1)"
  shows "d \<le> as_u32 (length buf) \<and> wrote (take d buf) w w1
    \<and> (fc \<longrightarrow> w_frame_off w1 = 0 \<or> d = as_u32 (length buf)) \<and> (fc \<longrightarrow> e = None)"
proof (cases "w_frame_off w \<noteq> 0 \<and> as_u32 (length buf) \<noteq> 0")
  case False
  have "wrote [] w w" using assms(1,2) base_frame_off [of w] by (simp add: wrote_def)
  then show ?thesis using False assms(3) by (auto simp: write_head_def Let_def)
next
  case True
  define need where "need = min (w_stride w - w_frame_off w) (as_u32 (length buf))"
  have need: "need \<le> length buf" "need \<le> as_u32 (length buf)" "as_u32 need = need"
    using le_trans [OF min.cobounded2 as_u32_le]
    by (auto simp: need_def intro!: as_u32_id intro: le_less_trans [OF min.cobounded2 as_u32_less])
  obtain tl w' where we: "write_exact (take need buf) w = (tl, w')" by (cases "write_exact (take need buf) w")
  note st = write_exact_wrote [OF assms(1,2) we]
  have "nw_bytes tl \<le> int need" using st need by (simp add: min_absorb2)
  then have n: "nat (nw_bytes tl) \<le> need" by simp
  have d: "d = nat (nw_bytes tl)" "w1 = w'" "fc \<longleftrightarrow> \<not> d < need" "fc \<longrightarrow> e = None"
    using assms(3) True we st by (auto simp: write_head_def Let_def need_def [symmetric] split: if_splits)
  have wr: "wrote (take d buf) w w1" using st n d(1,2) by (simp add: min_absorb1)
  moreover have "w_frame_off w1 = 0 \<or> d = as_u32 (length buf)" if "\<not> d < need"
  proof (cases "w_stride w - w_frame_off w \<le> as_u32 (length buf)")
    case True
    then have "d = w_stride w - w_frame_off w" using that n d(1) by (simp add: need_def)
    then show ?thesis using wrote_fields(2) [OF wr] n need(1) d(1) base_frame_off [OF assms(1)]
      by (simp add: min_absorb2)
  next
    case False
    then show ?thesis using that n d(1) by (simp add: need_def)
  qed
  ultimately show ?thesis using d n need(2) by auto
qed

lemma write_bulk_wrote:
  assumes w: "writer_base w" "w_state w = Running" and h: "write_head buf w = (d, e, fc, w1)"
    and b: "write_bulk buf (d, e, fc, w1) = (d', e', w2)"
  shows "d' \<le> as_u32 (length buf) \<and> wrote (take d' buf) w w2"
proof -
  let ?c = "as_u32 (length buf)"
  have hd: "d \<le> ?c" "wrote (take d buf) w w1"
    using write_head_wrote [OF w h] by auto
  have live: "w_state w \<noteq> Closed" using w(2) by simp
  have w1: "writer_base w1" "w_state w1 = Running"
    using wrote_base [OF hd(2) w(1) live] wrote_fields(1) [OF hd(2)] by auto
  show ?thesis
  proof (cases "fc \<and> d < ?c")
    case False
    then show ?thesis using b hd by (auto simp: write_bulk_def Let_def split: if_splits)
  next
    case True
    obtain a w' where wb: "write_buffered (drop d buf) w1 = (a, w')" by (cases "write_buffered (drop d buf) w1")
    have rest: "as_u32 (length buf - d) = ?c - d" using hd(1) by (rule as_u32_diff)
    have live1: "w_state w1 \<noteq> Closed" using w1(2) by simp
    note st = write_buffered_wrote [OF w1(1) live1 wb, simplified, unfolded rest]
    define n where "n = nat (nw_bytes a)"
    have "nw_bytes a \<le> int (?c - d)" using st by simp
    then have n: "d + n \<le> ?c" using hd(1) by (simp add: n_def nat_le_iff)
    have w': "wrote (take (d + n) buf) w w'"
      using wrote_trans [OF hd(2), of "take n (drop d buf)" w'] st by (simp add: n_def take_append_take_drop)
    show ?thesis
    proof (cases "nw_bytes a > 0 \<and> w_frame_off w' \<noteq> 0 \<and> d + n < ?c")
      case no_tail: False
      then have "d' = d + n \<and> w2 = w'"
        using b True wb by (auto simp: write_bulk_def Let_def n_def split: if_splits)
      then show ?thesis using n w' by simp
    next
      case tail: True
      define need where "need = min (w_stride w' - w_frame_off w') (?c - (d + n))"
      obtain tl w'' where we: "write_exact (take need (drop (d + n) buf)) w' = (tl, w'')"
        by (cases "write_exact (take need (drop (d + n) buf)) w'")
      have base': "writer_base w'" "w_state w' = Running"
        using wrote_base [OF w' w(1) live] wrote_fields(1) [OF w'] by auto
      note st2 = write_exact_wrote [OF base' we]
      have m: "nat (nw_bytes tl) \<le> need"
      proof -
        have "nw_bytes tl \<le> int (length (take need (drop (d + n) buf)))"
          using st2 as_u32_le [of "length (take need (drop (d + n) buf))"] by linarith
        then show ?thesis by simp
      qed
      have d': "d' = d + n + nat (nw_bytes tl)" "w2 = w''"
        using b True wb tail we st2 by (auto simp: write_bulk_def Let_def n_def need_def)
      have "wrote (take (nat (nw_bytes tl)) (drop (d + n) buf)) w' w''"
        using st2 m by (simp add: min_absorb1)
      then have "wrote (take d' buf) w w2"
        using wrote_trans [OF w', of "take (nat (nw_bytes tl)) (drop (d + n) buf)" w'']
        by (simp only: d' take_append_take_drop)
      moreover have "nat (nw_bytes tl) \<le> ?c - (d + n)" using m by (simp add: need_def)
      then have "d' \<le> ?c" using n unfolding d' by linarith
      ultimately show ?thesis by simp
    qed
  qed
qed

text \<open>\<open>writer_write\<close> hands the kernel a prefix of the slice, reports its length, and then arms.\<close>

lemma writer_write_wrote:
  assumes "writer_base w" "w_state w \<noteq> Closed" "writer_write buf w = (out, w')"
  shows "wo_bytes out \<le> as_u32 (length buf) \<and> (\<exists>w2. wrote (take (wo_bytes out) buf) w w2 \<and> w' = arm w2)"
proof -
  define w0 where "w0 = (if w_state w = Setup then w\<lparr>w_state := Running\<rparr> else w)"
  have w0: "wrote [] w w0" using start_wrote [OF assms(2,1)] by (simp add: w0_def)
  have base0: "writer_base w0" "w_state w0 = Running"
    using wrote_base [OF w0 assms(1,2)] wrote_fields(1) [OF w0] by auto
  obtain d e fc w1 where h: "write_head buf w0 = (d, e, fc, w1)" by (metis prod_cases4)
  obtain d' e' w2 where b: "write_bulk buf (d, e, fc, w1) = (d', e', w2)" by (metis prod_cases3)
  have "wo_bytes out = d'" "w' = arm w2"
    using assms(3) h b by (auto simp: writer_write_parts w0_def [symmetric])
  then show ?thesis using write_bulk_wrote [OF base0 h b] wrote_trans [OF w0] by auto
qed

lemma arm_fields [simp]:
  "w_state (arm w) = w_state w" "w_frame_off (arm w) = w_frame_off w" "w_stride (arm w) = w_stride w"
  "w_silence_pattern (arm w) = w_silence_pattern w" "w_pattern_cache (arm w) = w_pattern_cache w"
  "w_panic (arm w) = w_panic w" "w_fd (arm w) = w_fd w" "w_pause_shadowed (arm w) = w_pause_shadowed w"
  "k_ring (w_kernel (arm w)) = k_ring (w_kernel w)" "pairing (w_kernel (arm w)) = pairing (w_kernel w)"
  "w_buffer (arm w) = w_buffer w" "\<not> w_needs_trigger (arm w)"
  by (simp_all add: arm_def with_kernel_def split_beta Let_def set_trigger_ring set_trigger_pairing)

lemma base_cong:
  assumes "writer_base w"
    "w_panic w' = w_panic w" "w_fd w' = w_fd w" "w_state w' = w_state w" "w_stride w' = w_stride w"
    "w_frame_off w' = w_frame_off w" "w_pause_shadowed w' = w_pause_shadowed w"
    "k_ring (w_kernel w') = k_ring (w_kernel w)" "pairing (w_kernel w') = pairing (w_kernel w)"
  shows "writer_base w'"
  using assms by (auto simp: writer_base_def pairing_def)

lemma ready_cong:
  assumes "silence_ready w" "w_silence_pattern w' = w_silence_pattern w"
    "w_pattern_cache w' = w_pattern_cache w" "w_stride w' = w_stride w"
    "w_state w' \<noteq> Closed \<Longrightarrow> w_state w \<noteq> Closed"
  shows "silence_ready w'"
  using assms by (auto simp: silence_ready_def)

lemma arm_base: "writer_base w \<Longrightarrow> writer_base (arm w)"
  by (rule base_cong) simp_all

lemma arm_ready: "silence_ready w \<Longrightarrow> silence_ready (arm w)"
  by (rule ready_cong) simp_all

lemma writer_write_base:
  "writer_base w \<Longrightarrow> w_state w \<noteq> Closed \<Longrightarrow> writer_base (snd (writer_write buf w))"
  using writer_write_wrote [of w buf "fst (writer_write buf w)" "snd (writer_write buf w)"]
  by (auto intro!: arm_base dest: wrote_base)

section \<open>Silence writes\<close>

text \<open>The silence that continues the stream in phase.\<close>

abbreviation next_silence :: "dsp_writer \<Rightarrow> nat \<Rightarrow> byte list" where
  "next_silence w n \<equiv> silence_fill_at (w_silence_pattern w) (length (k_ring (w_kernel w))) n"

lemma silence_phase:
  assumes "writer_base w" "sp_frame_multiple (w_silence_pattern w) = w_stride w" "w_state w = Running"
  shows "silence_fill_at (w_silence_pattern w) (w_frame_off w) n = next_silence w n"
  using assms by (intro fill_at_cong) (simp add: writer_base_def)

lemma next_silence_trans:
  assumes "wrote (next_silence w m) w w1" "wrote (next_silence w1 n) w1 w2"
  shows "wrote (next_silence w (m + n)) w w2"
  using wrote_trans [OF assms] wrote_fields(4,11) [OF assms(1)] by (simp add: fill_at_append)

lemma realign_wrote:
  assumes w: "writer_ok w" "w_state w = Running" and r: "realign_with_silence w = (res, w1)"
  shows "(\<exists>n. wrote (next_silence w n) w w1) \<and> (is_ok res \<longrightarrow> w_frame_off w1 = 0)"
proof (cases "w_frame_off w = 0")
  case True
  have "wrote [] w w" using w base_frame_off [of w] by (simp add: wrote_def writer_ok_def)
  then have "wrote (next_silence w 0) w w" by (simp add: fill_at_eq)
  then show ?thesis using True r by (auto simp: realign_with_silence_def)
next
  case False
  have base: "writer_base w" and mult: "sp_frame_multiple (w_silence_pattern w) = w_stride w"
    using w(1,2) by (auto simp: writer_ok_def silence_ready_def)
  define need where "need = w_stride w - w_frame_off w"
  have need: "need \<le> SILENCE_CHUNK_BYTES" using base by (auto simp: need_def writer_base_def)
  then have as: "assert_w (need \<le> SILENCE_CHUNK_BYTES) w = w" by (simp add: assert_w_def)
  obtain a w' where we: "write_exact (next_silence w need) w = (a, w')"
    by (cases "write_exact (next_silence w need) w")
  note st = write_exact_wrote [OF base w(2) we]
  have "nw_bytes a \<le> int need"
    using st as_u32_int_le [of "nw_bytes a" need] by simp
  then have "wrote (next_silence w (nat (nw_bytes a))) w w'" using st by (simp add: take_fill_at)
  then show ?thesis using r False we
    unfolding realign_with_silence_def Let_def need_def [symmetric] as
      silence_phase [OF base mult w(2)]
    by (auto split: if_splits)
qed

lemma aligned_chunk_bounds:
  assumes "writer_base w" "0 < count" "w_stride w \<le> len" "len < 4294967296"
  shows "0 < aligned_silence_chunk count len w \<and> aligned_silence_chunk count len w \<le> len
    \<and> aligned_silence_chunk count len w \<le> count"
proof -
  let ?r = "(w_frame_off w + len) mod w_stride w"
  have pos: "0 < w_stride w" using assms(1) by (simp add: writer_base_def)
  then have mx: "max (w_stride w) 1 = w_stride w" by simp
  have r: "?r < len" using mod_less_divisor [OF pos, of "w_frame_off w + len"] assms(3) by linarith
  then have ws: "wrap_sub32 len ?r = len - ?r" using assms(4) by (simp add: wrap_sub32_exact)
  show ?thesis
  proof (cases "len < count")
    case True
    then have "aligned_silence_chunk count len w = wrap_sub32 len ?r"
      unfolding aligned_silence_chunk_def mx using assms(4) by (simp add: as_u32_id min_absorb2)
    also have "\<dots> = len - ?r" by (rule ws)
    finally show ?thesis using r True by simp
  next
    case False
    then have "aligned_silence_chunk count len w = count"
      using assms(4) by (simp add: aligned_silence_chunk_def as_u32_id min_absorb1)
    then show ?thesis using False assms(2) by simp
  qed
qed

lemma silence_chunk_wrote:
  assumes "writer_base w" "w_state w = Running" "write_silence_chunk s w = (r, w1)"
  shows "\<exists>n \<le> length s. wrote (take n s) w w1 \<and> (case r of None \<Rightarrow> n = 0 | Some m \<Rightarrow> n = m)"
proof -
  obtain a w' where wb: "write_buffered s w = (a, w')" by (cases "write_buffered s w")
  have live: "w_state w \<noteq> Closed" using assms(2) by simp
  note st = write_buffered_wrote [OF assms(1) live wb]
  have r: "r = (if nw_bytes a < 0 then None else if nw_bytes a \<noteq> 0 then Some (nat (nw_bytes a)) else None)"
    and w1: "w1 = w'" using assms(3) wb by (auto simp: write_silence_chunk_def)
  have "nat (nw_bytes a) \<le> length s"
    using st as_u32_int_le [of "nw_bytes a" "length s"] by (simp add: nat_le_iff)
  then show ?thesis using st r w1 by (intro exI [of _ "nat (nw_bytes a)"]) auto
qed

lemma uniform_silence_wrote:
  assumes "writer_base w" "w_state w = Running" "(w_frame_off w + count) mod w_stride w = 0"
    "SILENCE_CHUNK_BYTES \<le> len" "len < 4294967296"
  shows "\<exists>n \<le> count. wrote (replicate n b) w (write_uniform_silence count b len w)"
  using assms
proof (induction count b len w rule: write_uniform_silence.induct)
  case (1 count b len w)
  have idle: "wrote (replicate 0 b) w w"
    using "1.prems"(1,2) base_frame_off [of w] by (simp add: wrote_def)
  show ?case
  proof (cases "count = 0")
    case True
    then show ?thesis using idle by (auto simp: write_uniform_silence.simps [of 0 b len w])
  next
    case False
    let ?chunk = "aligned_silence_chunk count len w"
    have stride: "0 < w_stride w" "w_stride w \<le> len"
      using "1.prems"(1,4) by (auto simp: writer_base_def)
    have c: "0 < ?chunk" "?chunk \<le> len" "?chunk \<le> count"
      using aligned_chunk_bounds [OF "1.prems"(1) _ stride(2) "1.prems"(5)] False by auto
    have mx: "max (w_stride w) 1 = w_stride w" using stride by simp
    have as1: "assert_w ((w_frame_off w + count) mod max (w_stride w) 1 = 0) w = w"
      unfolding mx using "1.prems"(3) by (simp add: assert_w_def)
    have as2: "assert_w (?chunk \<le> len) w = w" using c(2) by (simp add: assert_w_def)
    obtain r w1 where wc: "write_silence_chunk (replicate ?chunk b) w = (r, w1)"
      by (cases "write_silence_chunk (replicate ?chunk b) w")
    obtain n where n: "n \<le> ?chunk" "wrote (take n (replicate ?chunk b)) w w1"
      "case r of None \<Rightarrow> n = 0 | Some m \<Rightarrow> n = m"
      using silence_chunk_wrote [OF "1.prems"(1,2) wc] by auto
    have w1: "wrote (replicate n b) w w1" using n(1,2) by simp
    have unf: "write_uniform_silence count b len w =
        (case r of None \<Rightarrow> w1 | Some written \<Rightarrow> write_uniform_silence (count - written) b len w1)"
      using False c(1) wc
      by (subst write_uniform_silence.simps) (simp only: Let_def as1 as2, simp split: option.split)
    show ?thesis
    proof (cases r)
      case None
      then show ?thesis using unf w1 n c by (intro exI [of _ n]) auto
    next
      case (Some m)
      then have m: "m = n" using n(3) by simp
      have base1: "writer_base w1" "w_state w1 = Running"
        using wrote_base [OF w1 "1.prems"(1)] wrote_fields(1) [OF w1] "1.prems"(2) by auto
      have "(w_frame_off w1 + (count - n)) mod w_stride w1 = (w_frame_off w + n + (count - n)) mod w_stride w"
        using wrote_fields(2,3) [OF w1] by (simp add: mod_simps)
      then have align: "(w_frame_off w1 + (count - n)) mod w_stride w1 = 0"
        using "1.prems"(3) n(1) c(3) by simp
      have "\<exists>n' \<le> count - n. wrote (replicate n' b) w1 (write_uniform_silence (count - n) b len w1)"
        by (rule "1.IH" [OF False refl refl, unfolded as1, OF _ refl, unfolded as2, OF _ wc [symmetric]])
          (use c(1) Some m base1 align "1.prems" in auto)
      then obtain n' where n': "n' \<le> count - n" "wrote (replicate n' b) w1 (write_uniform_silence (count - n) b len w1)"
        by auto
      have "wrote (replicate (n + n') b) w (write_uniform_silence (count - n) b len w1)"
        using wrote_trans [OF w1 n'(2)] by (simp add: replicate_add)
      then show ?thesis using unf Some m n'(1) n(1) c(3) by (intro exI [of _ "n + n'"]) auto
    qed
  qed
qed

lemma pattern_loop_wrote:
  assumes "writer_base w" "w_state w = Running" "(w_frame_off w + count) mod w_stride w = 0"
    "sp_frame_multiple (w_silence_pattern w) = w_stride w"
    "cache = silence_fill (w_silence_pattern w) L" "2 * SILENCE_CHUNK_BYTES \<le> L" "L < 4294967296"
  shows "\<exists>n \<le> count. wrote (next_silence w n) w (write_pattern_loop count cache w)"
  using assms
proof (induction count cache w rule: write_pattern_loop.induct)
  case (1 count cache w)
  have idle: "wrote (next_silence w 0) w w"
    using "1.prems"(1,2) base_frame_off [of w] by (simp add: wrote_def fill_at_eq)
  show ?case
  proof (cases "count = 0")
    case True
    then show ?thesis using idle by (auto simp: write_pattern_loop.simps [of 0 cache w])
  next
    case False
    let ?off = "w_frame_off w" and ?avail = "length cache - w_frame_off w"
    let ?chunk = "aligned_silence_chunk count ?avail w"
    have L: "length cache = L" using "1.prems"(5) by (simp add: silence_fill_def)
    have stride: "0 < w_stride w" "w_stride w \<le> SILENCE_CHUNK_BYTES" "?off < w_stride w"
      using "1.prems"(1) base_frame_off [of w] by (auto simp: writer_base_def)
    have avail: "w_stride w \<le> ?avail" "?avail < 4294967296" "?off < length cache"
      using stride "1.prems"(6,7) L by auto
    have c: "0 < ?chunk" "?chunk \<le> ?avail" "?chunk \<le> count"
      using aligned_chunk_bounds [OF "1.prems"(1) _ avail(1,2)] False by auto
    have mx: "max (w_stride w) 1 = w_stride w" using stride by simp
    have as1: "assert_w ((w_frame_off w + count) mod max (w_stride w) 1 = 0 \<and> ?off < length cache) w = w"
      unfolding mx using "1.prems"(3) avail(3) by (simp add: assert_w_def)
    have as2: "assert_w (?off + ?chunk \<le> length cache) w = w"
      using c(2) avail(3) by (simp add: assert_w_def le_diff_conv2 add.commute)
    have slice: "take ?chunk (drop ?off cache) = next_silence w ?chunk"
      using c(2) L "1.prems"(5) silence_phase [OF "1.prems"(1,4,2)]
      by (simp add: silence_fill_def drop_fill_at take_fill_at)
    obtain r w1 where wc: "write_silence_chunk (take ?chunk (drop ?off cache)) w = (r, w1)"
      by (cases "write_silence_chunk (take ?chunk (drop ?off cache)) w")
    obtain n where n: "n \<le> ?chunk" "wrote (take n (take ?chunk (drop ?off cache))) w w1"
      "case r of None \<Rightarrow> n = 0 | Some m \<Rightarrow> n = m"
      using silence_chunk_wrote [OF "1.prems"(1,2) wc] by auto
    have w1: "wrote (next_silence w n) w w1" using n(1,2) unfolding slice by (simp add: take_fill_at)
    have unf: "write_pattern_loop count cache w =
        (case r of None \<Rightarrow> w1 | Some written \<Rightarrow> write_pattern_loop (count - written) cache w1)"
      using False c(1) wc
      by (subst write_pattern_loop.simps) (simp only: Let_def as1 as2, simp split: option.split)
    show ?thesis
    proof (cases r)
      case None
      then show ?thesis using unf w1 n c by (intro exI [of _ n]) auto
    next
      case (Some m)
      then have m: "m = n" using n(3) by simp
      have base1: "writer_base w1" "w_state w1 = Running"
        using wrote_base [OF w1 "1.prems"(1)] wrote_fields(1) [OF w1] "1.prems"(2) by auto
      have "(w_frame_off w1 + (count - n)) mod w_stride w1 = (w_frame_off w + n + (count - n)) mod w_stride w"
        using wrote_fields(2,3) [OF w1] by (simp add: mod_simps)
      then have align: "(w_frame_off w1 + (count - n)) mod w_stride w1 = 0"
        using "1.prems"(3) n(1) c(3) by simp
      note f1 = wrote_fields(3,4) [OF w1]
      have "\<exists>n' \<le> count - n. wrote (next_silence w1 n') w1 (write_pattern_loop (count - n) cache w1)"
        by (rule "1.IH" [OF False refl refl, unfolded as1, OF refl refl, OF _ refl, unfolded as2,
              OF _ wc [symmetric]]) (use c(1) Some m base1 align "1.prems" f1 in auto)
      then obtain n' where n': "n' \<le> count - n"
        "wrote (next_silence w1 n') w1 (write_pattern_loop (count - n) cache w1)" by auto
      have "wrote (next_silence w (n + n')) w (write_pattern_loop (count - n) cache w1)"
        by (rule next_silence_trans [OF w1 n'(2)])
      then show ?thesis using unf Some m n'(1) n(1) c(3) by (intro exI [of _ "n + n'"]) auto
    qed
  qed
qed

lemma cache_restored:
  assumes "wrote bs (w\<lparr>w_pattern_cache := None\<rparr>) w'" "w_pattern_cache w = Some c"
  shows "wrote bs w (w'\<lparr>w_pattern_cache := Some c\<rparr>)"
  using assms by (cases w; cases w') (auto simp: wrote_def)

lemma silence_fill_wrote:
  assumes w: "writer_ok w" "w_state w = Running" "w_frame_off w = 0"
  shows "\<exists>n. n \<le> count \<and> wrote (next_silence w n) w (write_silence_fill count w)"
proof -
  define c where "c = count - count mod w_stride w"
  have base: "writer_base w" and ready: "silence_ready w" using w(1) by (simp_all add: writer_ok_def)
  have stride: "0 < w_stride w" "w_stride w \<le> SILENCE_CHUNK_BYTES"
    using base by (auto simp: writer_base_def)
  have mult: "sp_frame_multiple (w_silence_pattern w) = w_stride w"
    and ne: "pattern_of (w_silence_pattern w) \<noteq> []"
    and uni: "uniform_byte (w_silence_pattern w) \<in> {None, Some 0, Some 0x80, Some 0xff, Some 0x55}"
    using ready w(2) by (auto simp: silence_ready_def)
  have c: "c \<le> count" "(w_frame_off w + c) mod w_stride w = 0"
    using w(3) dvd_floor_multiple [of "w_stride w" count] by (auto simp: c_def)
  have mx: "max (w_stride w) 1 = w_stride w" using stride by simp
  have U: "\<exists>n \<le> c. wrote (next_silence w n) w (write_uniform_silence c b len w)"
    if "uniform_byte (w_silence_pattern w) = Some b" "SILENCE_CHUNK_BYTES \<le> len" "len < 4294967296" for b len
    using uniform_silence_wrote [OF base w(2) c(2) that(2,3), of b] uniform_fill_at [OF that(1) ne] by simp
  show ?thesis
  proof (cases "uniform_byte (w_silence_pattern w)")
    case (Some b)
    have "write_silence_fill count w = write_uniform_silence c b BULK_SILENCE_BYTES w
        \<or> write_silence_fill count w = write_uniform_silence c b SILENCE_CHUNK_BYTES w"
      using Some uni unfolding write_silence_fill_def Let_def mx c_def [symmetric] by auto
    then show ?thesis using U [OF Some, of BULK_SILENCE_BYTES] U [OF Some, of SILENCE_CHUNK_BYTES] c(1)
      by (auto intro: le_trans)
  next
    case None
    define L where "L = max BULK_SILENCE_BYTES (w_stride w)"
    have cache: "w_pattern_cache w = Some (silence_fill (w_silence_pattern w) L)"
      using ready w(2) None mult by (simp add: silence_ready_def L_def)
    have eq: "write_silence_fill count w = write_pattern_silence c w"
      using None unfolding write_silence_fill_def Let_def mx c_def [symmetric] by simp
    let ?w = "w\<lparr>w_pattern_cache := None\<rparr>"
    have b: "writer_base ?w" by (rule base_cong [OF base]) simp_all
    have "\<exists>n \<le> c. wrote (next_silence ?w n) ?w
        (write_pattern_loop c (silence_fill (w_silence_pattern w) L) ?w)"
      by (rule pattern_loop_wrote [OF b, where L = L]) (use w(2) c mult stride in \<open>auto simp: L_def\<close>)
    then obtain n where n: "n \<le> c" "wrote (next_silence w n) ?w
        (write_pattern_loop c (silence_fill (w_silence_pattern w) L) ?w)" by auto
    have "wrote (next_silence w n) w (write_silence_fill count w)"
      using cache_restored [OF n(2) cache] cache by (simp add: eq write_pattern_silence_def)
    then show ?thesis using n(1) c(1) by (auto intro: le_trans)
  qed
qed

lemma writer_write_silence_wrote:
  assumes w: "writer_ok w" "w_state w \<noteq> Closed"
  shows "\<exists>n. wrote (next_silence w n) w (writer_write_silence count w)"
proof -
  define w0 where "w0 = (if w_state w = Setup then w\<lparr>w_state := Running\<rparr> else w)"
  have w0: "wrote [] w w0" using start_wrote [OF w(2)] w(1) by (simp add: w0_def writer_ok_def)
  have ok0: "writer_ok w0" "w_state w0 = Running"
    using wrote_ok [OF w0 w] wrote_fields(1) [OF w0] by auto
  have idle: "wrote (next_silence w 0) w w0" using w0 by (simp add: fill_at_eq)
  show ?thesis
  proof (cases "w_frame_off w0 = 0")
    case True
    then have "writer_write_silence count w = write_silence_fill count w0"
      by (simp add: writer_write_silence_def w0_def [symmetric])
    then show ?thesis
      using silence_fill_wrote [OF ok0 True, of count] next_silence_trans [OF idle] by auto
  next
    case False
    obtain res w1 where re: "realign_with_silence w0 = (res, w1)" by (cases "realign_with_silence w0")
    obtain n where n: "wrote (next_silence w0 n) w0 w1" and off: "is_ok res \<longrightarrow> w_frame_off w1 = 0"
      using realign_wrote [OF ok0 re] by auto
    have live0: "w_state w0 \<noteq> Closed" using ok0(2) by simp
    have ok1: "writer_ok w1" "w_state w1 = Running"
      using wrote_ok [OF n ok0(1) live0] wrote_fields(1) [OF n] by auto
    have eq: "writer_write_silence count w = (case res of Inl _ \<Rightarrow> w1 | Inr _ \<Rightarrow> write_silence_fill count w1)"
      using False re by (simp add: writer_write_silence_def w0_def [symmetric] split: sum.split)
    note w1 = next_silence_trans [OF idle n]
    show ?thesis
    proof (cases res)
      case (Inl e)
      then show ?thesis using eq w1 by auto
    next
      case (Inr u)
      then show ?thesis using eq off silence_fill_wrote [OF ok1, of count] next_silence_trans [OF w1] by auto
    qed
  qed
qed

section \<open>Lifecycle and the invariant\<close>

lemma suspend_fields [simp]:
  "w_stride (snd (writer_suspend w)) = w_stride w"
  "w_silence_pattern (snd (writer_suspend w)) = w_silence_pattern w"
  "w_pattern_cache (snd (writer_suspend w)) = w_pattern_cache w"
  "w_panic (snd (writer_suspend w)) = w_panic w" "w_fd (snd (writer_suspend w)) = w_fd w"
  "w_buffer (snd (writer_suspend w)) = w_buffer w"
  "w_state (snd (writer_suspend w)) = Closed \<longleftrightarrow> w_state w = Closed"
  by (auto simp: writer_suspend_def with_kernel_def split_beta Let_def)

lemma suspend_stopped: "fst (writer_suspend w) \<Longrightarrow> w_state (snd (writer_suspend w)) \<noteq> Running"
  by (auto simp: writer_suspend_def with_kernel_def split_beta Let_def split: if_splits)

lemma suspend_refused:
  "\<not> fst (writer_suspend w) \<Longrightarrow> w_state w = Running \<and>
     snd (writer_suspend w) = w\<lparr>w_kernel := snd (set_trigger 0 (w_kernel w))\<rparr>
     \<and> \<not> fst (set_trigger 0 (w_kernel w))"
  by (auto simp: writer_suspend_def with_kernel_def split_beta Let_def split: if_splits)

lemma suspend_base: "writer_base w \<Longrightarrow> writer_base (snd (writer_suspend w))"
proof (cases "fst (writer_suspend w)")
  case True
  assume "writer_base w"
  then show ?thesis using True set_trigger_pairing [of 0 "w_kernel w"]
    by (auto simp: writer_suspend_def writer_base_def with_kernel_def set_trigger_ring pairing_def
        split_beta Let_def)
next
  case False
  assume b: "writer_base w"
  show ?thesis
    by (rule base_cong [OF b]) (use suspend_refused [OF False] in
      \<open>simp_all add: set_trigger_ring set_trigger_pairing\<close>)
qed

lemma suspend_ok: "writer_ok w \<Longrightarrow> writer_ok (snd (writer_suspend w))"
  unfolding writer_ok_def by (auto intro: suspend_base ready_cong)

lemma end_sequence_frame:
  "writer_ok w \<Longrightarrow> writer_ok (snd (writer_end_buffer_sequence w))
    \<and> (w_state (snd (writer_end_buffer_sequence w)) = Closed \<longleftrightarrow> w_state w = Closed)"
proof -
  assume w: "writer_ok w"
  consider "w_frame_off w = 0" | "w_state w \<noteq> Running" "w_frame_off w \<noteq> 0"
    | "w_state w = Running" "w_frame_off w \<noteq> 0" by blast
  then show ?thesis
  proof cases
    case 1
    then show ?thesis using w by (simp add: writer_end_buffer_sequence_def)
  next
    case 2
    then show ?thesis using w
      by (cases "w_state w") (auto simp: writer_ok_def writer_base_def)
  next
    case 3
    obtain res w1 where re: "realign_with_silence w = (res, w1)" by (cases "realign_with_silence w")
    obtain n where n: "wrote (next_silence w n) w w1" using realign_wrote [OF w 3(1) re] by auto
    have live: "w_state w \<noteq> Closed" using 3(1) by simp
    have w1: "writer_ok w1" "w_state w1 = Running"
      using wrote_ok [OF n w live] wrote_fields(1) [OF n] by auto
    show ?thesis using 3 re w w1 suspend_ok [OF w] suspend_ok [OF w1(1)]
      by (simp add: writer_end_buffer_sequence_def split: sum.split)
  qed
qed

lemma silence_pairing: "pairing (snd (ioctl_int DSP_SILENCE a k)) =
    (is_ok (fst (ioctl_int DSP_SILENCE a k)) \<or> fst (pairing k), snd (pairing k))"
  by (simp add: pairing_def ioctl_int_trace)

lemma skip_pairing: "pairing (snd (ioctl_int DSP_SKIP a k)) =
    (\<not> is_ok (fst (ioctl_int DSP_SKIP a k)) \<and> fst (pairing k), fst (pairing k) \<and> snd (pairing k))"
  by (auto simp: pairing_def ioctl_int_trace)

lemma pause_frame:
  "w_state (snd (writer_pause w)) = w_state w \<and> w_fd (snd (writer_pause w)) = w_fd w
   \<and> w_stride (snd (writer_pause w)) = w_stride w \<and> w_frame_off (snd (writer_pause w)) = w_frame_off w
   \<and> w_silence_pattern (snd (writer_pause w)) = w_silence_pattern w
   \<and> w_pattern_cache (snd (writer_pause w)) = w_pattern_cache w
   \<and> w_panic (snd (writer_pause w)) = w_panic w
   \<and> k_ring (w_kernel (snd (writer_pause w))) = k_ring (w_kernel w)"
  by (simp add: writer_pause_def with_kernel_def split_beta Let_def split: sum.split)

lemma pause_pairing:
  assumes "writer_base w"
  shows "snd (pairing (w_kernel (snd (writer_pause w))))
    \<and> (w_pause_shadowed (snd (writer_pause w)) \<longrightarrow> fst (pairing (w_kernel (snd (writer_pause w)))))"
proof -
  have sp: "snd (pairing (w_kernel w))" using assms by (simp add: writer_base_def pairing_def)
  show ?thesis
    using sp by (auto simp: writer_pause_def with_kernel_def split_beta Let_def shadow_pause_def silence_pairing
        split: sum.split)
qed

lemma pause_ok: "writer_ok w \<Longrightarrow> writer_ok (snd (writer_pause w))"
  using pause_frame [of w] pause_pairing [of w]
  by (auto simp: writer_ok_def writer_base_def silence_ready_def pairing_def writer_pause_def)

lemma resume_frame:
  "w_state (snd (writer_resume w)) = w_state w \<and> w_fd (snd (writer_resume w)) = w_fd w
   \<and> w_stride (snd (writer_resume w)) = w_stride w \<and> w_frame_off (snd (writer_resume w)) = w_frame_off w
   \<and> w_silence_pattern (snd (writer_resume w)) = w_silence_pattern w
   \<and> w_pattern_cache (snd (writer_resume w)) = w_pattern_cache w
   \<and> w_panic (snd (writer_resume w)) = w_panic w \<and> \<not> w_pause_shadowed (snd (writer_resume w))
   \<and> k_ring (w_kernel (snd (writer_resume w))) = k_ring (w_kernel w)"
  by (simp add: writer_resume_def with_kernel_def split_beta Let_def split: sum.split)

lemma resume_pairing:
  "writer_base w \<Longrightarrow> snd (pairing (w_kernel (snd (writer_resume w))))"
  by (auto simp: writer_base_def pairing_def [of "w_kernel w"] writer_resume_def with_kernel_def
      split_beta Let_def restore_shadow_def skip_pairing split: sum.split)

lemma resume_ok: "writer_ok w \<Longrightarrow> writer_ok (snd (writer_resume w))"
  using resume_frame [of w] resume_pairing [of w]
  by (auto simp: writer_ok_def writer_base_def silence_ready_def pairing_def)

lemma queued_frame:
  assumes "writer_base w" "w_state w = Running"
  shows "snd (writer_queued_bytes w) = w\<lparr>w_kernel := snd (odelay (w_kernel w))\<rparr>"
    "snd (writer_underruns w) = w\<lparr>w_kernel := snd (get_error (w_kernel w))\<rparr>"
  using assms by (simp_all add: writer_queued_bytes_def writer_underruns_def assert_w_def with_kernel_def
      writer_base_def split_beta Let_def)

lemma queued_fields [simp]:
  "w_state (snd (writer_queued_bytes w)) = w_state w"
  "w_state (snd (writer_underruns w)) = w_state w"
  "k_ring (w_kernel (snd (writer_queued_bytes w))) = k_ring (w_kernel w)"
  "k_ring (w_kernel (snd (writer_underruns w))) = k_ring (w_kernel w)"
  by (simp_all add: writer_queued_bytes_def writer_underruns_def assert_w_def with_kernel_def
      split_beta Let_def)

lemma queued_ok:
  assumes "writer_ok w" "w_state w = Running"
  shows "writer_ok (snd (writer_queued_bytes w))" "writer_ok (snd (writer_underruns w))"
proof -
  have b: "writer_base w" "silence_ready w" using assms(1) by (simp_all add: writer_ok_def)
  show "writer_ok (snd (writer_queued_bytes w))" "writer_ok (snd (writer_underruns w))"
    unfolding writer_ok_def queued_frame [OF b(1) assms(2)]
    by (auto intro: base_cong [OF b(1)] ready_cong [OF b(2)])
qed

lemma fragment_count_legal:
  "64 \<le> f \<Longrightarrow> f \<le> 16384 \<Longrightarrow> 2 \<le> min (BUFFER_CAPACITY_MAX_BYTES scaled div f) u16_max"
proof -
  assume f: "64 \<le> f" "f \<le> 16384"
  have "2 * f \<le> BUFFER_CAPACITY_MAX_BYTES scaled" using f(2) by (simp add: BUFFER_CAPACITY_MAX_BYTES_def)
  then have "2 \<le> BUFFER_CAPACITY_MAX_BYTES scaled div f"
    using f(1) by (simp add: less_eq_div_iff_mult_less_eq)
  then show ?thesis by simp
qed

lemma set_buffer_size_fields [simp]:
  "w_state (snd (set_buffer_size sc len f w)) = w_state w"
  "w_fd (snd (set_buffer_size sc len f w)) = w_fd w"
  "w_stride (snd (set_buffer_size sc len f w)) = w_stride w"
  "w_frame_off (snd (set_buffer_size sc len f w)) = w_frame_off w"
  "w_silence_pattern (snd (set_buffer_size sc len f w)) = w_silence_pattern w"
  "w_pattern_cache (snd (set_buffer_size sc len f w)) = w_pattern_cache w"
  "w_pause_shadowed (snd (set_buffer_size sc len f w)) = w_pause_shadowed w"
  "k_ring (w_kernel (snd (set_buffer_size sc len f w))) = k_ring (w_kernel w)"
  "pairing (w_kernel (snd (set_buffer_size sc len f w))) = pairing (w_kernel w)"
  by (simp_all add: set_buffer_size_def assert_w_def split_beta Let_def)

lemma set_buffer_size_panic:
  assumes "w_state w = Setup" "w_fd w" "f = 0 \<or> 64 \<le> f \<and> f \<le> 16384"
  shows "w_panic (snd (set_buffer_size sc len f w)) = w_panic w"
proof -
  have "f = 0 \<or> 2 \<le> min (BUFFER_CAPACITY_MAX_BYTES sc div f) u16_max"
    using assms(3) fragment_count_legal by blast
  then have "assert_w (w_state w = Setup \<and> w_fd w \<and> (f = 0 \<or> 2 \<le> min (BUFFER_CAPACITY_MAX_BYTES sc div f) u16_max)) w = w"
    using assms(1,2) by (simp add: assert_w_def)
  then show ?thesis unfolding set_buffer_size_def Let_def by (simp add: split_beta)
qed

text \<open>The stream as \<open>prime_buffer\<close> leaves it before its silence fill.\<close>

lemma prime_buffer_parts:
  assumes "writer_ok w" "w_state w = Setup" "properties_ok p"
  shows "\<exists>w2. writer_ok w2 \<and> w_state w2 = Setup
    \<and> k_ring (w_kernel w2) = [] \<and> w_silence_pattern w2 = w_silence_pattern w \<and> w_stride w2 = w_stride w
    \<and> snd (writer_prime_buffer sc req p w) =
        writer_write_silence (pg_target_fill_bytes (fst (writer_prime_buffer sc req p w))) w2
    \<and> w_buffer w2 = playback_cache req (fst (writer_prime_buffer sc req p w))"
proof -
  let ?w0 = "w\<lparr>w_delay_eighths := op_playback_delay_eighths p\<rparr>"
  let ?dns = "duration_ns (w_delivery_quantum w)"
  obtain c q where plan: "playback_buffer_plan sc req ?dns (op_fragment_bytes p)
      (op_playback_delay_eighths p) = (c, q)" by fastforce
  obtain bl w1 where sz: "set_buffer_size sc c (op_fragment_bytes p) ?w0 = (bl, w1)" by fastforce
  let ?g = "playback_applied_geometry req (bl_capacity_bytes bl) (bl_quantum_bytes bl) ?dns (w_delay_eighths w1)"
  let ?w2 = "w1\<lparr>w_buffer := playback_cache req ?g\<rparr>"
  have eq: "writer_prime_buffer sc req p w = (?g, writer_write_silence (pg_target_fill_bytes ?g) ?w2)"
    using plan sz by (simp add: writer_prime_buffer_def Let_def)
  have b: "writer_base w" "silence_ready w" using assms(1) by (simp_all add: writer_ok_def)
  have w1: "w1 = snd (set_buffer_size sc c (op_fragment_bytes p) ?w0)" using sz by simp
  have fd: "w_fd w" using b(1) assms(2) by (simp add: writer_base_def)
  have pn: "w_panic w1 = w_panic w"
    unfolding w1 using set_buffer_size_panic [of ?w0] properties_fragment [OF assms(3)] assms(2) fd by simp
  have base2: "writer_base ?w2" by (rule base_cong [OF b(1)]) (use pn in \<open>simp_all add: w1\<close>)
  have ready2: "silence_ready ?w2" by (rule ready_cong [OF b(2)]) (simp_all add: w1)
  have st: "w_state ?w2 = Setup" using assms(2) by (simp add: w1)
  moreover have "k_ring (w_kernel ?w2) = []" using base2 st by (simp add: writer_base_def)
  ultimately show ?thesis using base2 ready2 unfolding writer_ok_def eq
    by (intro exI [of _ ?w2]) (simp add: w1)
qed

lemma prime_buffer_wrote:
  assumes "writer_ok w" "w_state w = Setup" "properties_ok p"
  shows "writer_ok (snd (writer_prime_buffer sc req p w))
    \<and> w_state (snd (writer_prime_buffer sc req p w)) = Running
    \<and> (\<exists>n. k_ring (w_kernel (snd (writer_prime_buffer sc req p w))) = silence_fill (w_silence_pattern w) n)
    \<and> w_buffer (snd (writer_prime_buffer sc req p w))
        = playback_cache req (fst (writer_prime_buffer sc req p w))"
proof -
  obtain w2 where w2: "writer_ok w2" "w_state w2 = Setup"
    "k_ring (w_kernel w2) = []" "w_silence_pattern w2 = w_silence_pattern w"
    "snd (writer_prime_buffer sc req p w) =
        writer_write_silence (pg_target_fill_bytes (fst (writer_prime_buffer sc req p w))) w2"
    "w_buffer w2 = playback_cache req (fst (writer_prime_buffer sc req p w))"
    using prime_buffer_parts [OF assms] by metis
  have live: "w_state w2 \<noteq> Closed" using w2(2) by simp
  obtain n where n: "wrote (next_silence w2 n) w2 (snd (writer_prime_buffer sc req p w))"
    using writer_write_silence_wrote [OF w2(1) live] w2(5) by metis
  show ?thesis using wrote_ok [OF n w2(1) live] wrote_fields(1,10,11) [OF n] w2(3,4,6)
    by (auto simp: silence_fill_def)
qed

lemma retune_cases:
  assumes "writer_retune_buffer req fill now w = (r, w')"
  shows "(r \<noteq> PRReprime \<and> r \<noteq> PRRebuild \<and> w' = w\<lparr>w_buffer := w_buffer w'\<rparr>)
    \<or> (r = PRReprime \<and> fst (writer_suspend (w\<lparr>w_buffer := b\<rparr>)) \<and> w_state w = Running
         \<and> w' = snd (writer_suspend (w\<lparr>w_buffer := b\<rparr>))\<lparr>w_buffer := w_buffer w'\<rparr>)
    \<or> (r = PRRebuild \<and> \<not> fst (writer_suspend (w\<lparr>w_buffer := b\<rparr>)) \<and> w_state w = Running
         \<and> w' = snd (writer_suspend (w\<lparr>w_buffer := b\<rparr>))\<lparr>w_buffer := w_buffer w'\<rparr>)"
  using assms
  by (auto simp: writer_retune_buffer_def writer_is_running_def writer_suspend_def with_kernel_def
      Let_def split_beta split: if_splits)

lemma retune_ok:
  assumes "writer_ok w"
  shows "writer_ok (snd (writer_retune_buffer req fill now w))"
proof -
  obtain r w' where eq: "writer_retune_buffer req fill now w = (r, w')" by fastforce
  have b: "writer_base w" "silence_ready w" using assms by (simp_all add: writer_ok_def)
  let ?s = "snd (writer_suspend (w\<lparr>w_buffer := w_buffer w\<rparr>))"
  have s: "writer_ok ?s" using suspend_ok [OF assms] by simp
  have upd: "writer_ok (v\<lparr>w_buffer := x\<rparr>)" if "writer_ok v" for v x
    using that unfolding writer_ok_def by (auto intro: base_cong ready_cong)
  consider "w' = w\<lparr>w_buffer := w_buffer w'\<rparr>" | "w' = ?s\<lparr>w_buffer := w_buffer w'\<rparr>"
    using retune_cases [OF eq, of "w_buffer w"] by blast
  then have "writer_ok w'" by cases (metis upd assms, metis upd s)
  then show ?thesis by (simp add: eq)
qed

lemma retune_states:
  assumes "writer_retune_buffer req fill now w = (r, w')"
  shows "r = PRReprime \<Longrightarrow> w_state w' \<noteq> Running" "r \<noteq> PRReprime \<Longrightarrow> w_state w' = w_state w"
    "w_state w' = Closed \<longleftrightarrow> w_state w = Closed"
    "r \<noteq> PRReprime \<Longrightarrow> k_ring (w_kernel w') = k_ring (w_kernel w)"
proof -
  let ?s = "snd (writer_suspend (w\<lparr>w_buffer := w_buffer w\<rparr>))"
  have s: "fst (writer_suspend (w\<lparr>w_buffer := w_buffer w\<rparr>)) \<Longrightarrow> w_state ?s \<noteq> Running"
    by (rule suspend_stopped)
  have r: "\<not> fst (writer_suspend (w\<lparr>w_buffer := w_buffer w\<rparr>)) \<Longrightarrow> w_state ?s = w_state w
      \<and> k_ring (w_kernel ?s) = k_ring (w_kernel w)"
    using suspend_refused [of "w\<lparr>w_buffer := w_buffer w\<rparr>"] by (auto simp: set_trigger_ring)
  have upd: "w_state w' = w_state v \<and> w_kernel w' = w_kernel v" if "w' = v\<lparr>w_buffer := w_buffer w'\<rparr>" for v
    using arg_cong [OF that, of w_state] arg_cong [OF that, of w_kernel] by simp
  have cl: "w_state ?s = Closed \<longleftrightarrow> w_state w = Closed"
    using suspend_fields(7) [of "w\<lparr>w_buffer := w_buffer w\<rparr>"] by simp
  consider "r \<noteq> PRReprime" "w_state w' = w_state w" "w_kernel w' = w_kernel w"
    | "r = PRReprime" "w_state w' = w_state ?s" "w_state ?s \<noteq> Running"
    | "r \<noteq> PRReprime" "w_state w' = w_state w" "k_ring (w_kernel w') = k_ring (w_kernel w)"
    using retune_cases [OF assms, of "w_buffer w"] upd [of w] upd [of ?s] s r by auto
  then show "r = PRReprime \<Longrightarrow> w_state w' \<noteq> Running" "r \<noteq> PRReprime \<Longrightarrow> w_state w' = w_state w"
    "w_state w' = Closed \<longleftrightarrow> w_state w = Closed"
    "r \<noteq> PRReprime \<Longrightarrow> k_ring (w_kernel w') = k_ring (w_kernel w)"
    by (cases; use cl in simp)+
qed

lemma open_base: "writer_base w \<Longrightarrow> w_state w = Closed \<Longrightarrow> writer_base (snd (writer_open w))
    \<and> (is_ok (fst (writer_open w)) \<longrightarrow> w_state (snd (writer_open w)) = Setup)
    \<and> (\<not> is_ok (fst (writer_open w)) \<longrightarrow> w_state (snd (writer_open w)) = Closed)"
  by (simp add: writer_open_def assert_w_def with_kernel_def sys_open_def writer_base_def split_beta Let_def
      split: option.split)

lemma halt_pairing: "pairing (halt k) = (False, snd (pairing k))"
  by (simp add: halt_def pairing_def ioctl_int_trace)

lemma close_base: "writer_base w \<Longrightarrow> w_state w \<noteq> Closed \<Longrightarrow> writer_base (writer_close w)
    \<and> w_state (writer_close w) = Closed"
  using halt_pairing [of "w_kernel w"]
  by (auto simp: writer_close_def assert_w_def sys_close_def writer_base_def pairing_def Let_def)

lemma afmt_frame_bytes_plain: "f AND 0x07f00000 = 0 \<Longrightarrow> afmt_frame_bytes f \<le> 4"
  by (simp add: afmt_frame_bytes_def Let_def)

lemma native_frame_stride_plain:
  assumes "(word_of_nat f :: 32 word) AND 0x07f00000 = 0" "channels \<le> 1024"
  shows "native_frame_stride f channels \<le> 4096 \<and> 0 < native_frame_stride f channels"
proof -
  have "max (afmt_frame_bytes (word_of_nat f)) 1 * max channels 1 \<le> 4 * 1024"
    using afmt_frame_bytes_plain [OF assms(1)] assms(2) by (intro mult_le_mono) auto
  then show ?thesis using native_frame_stride_pos [of f channels]
    by (simp add: native_frame_stride_def sat_mul32_def)
qed

lemma set_value_exact: "fst (set_value req v 0 k) = Inr a \<Longrightarrow> a = v"
  using set_value_close [of req v 0 k a] by simp

lemma with_kernel_fields [simp]:
  "w_state (snd (with_kernel f w)) = w_state w" "w_fd (snd (with_kernel f w)) = w_fd w"
  "w_stride (snd (with_kernel f w)) = w_stride w" "w_frame_off (snd (with_kernel f w)) = w_frame_off w"
  "w_panic (snd (with_kernel f w)) = w_panic w"
  "w_pause_shadowed (snd (with_kernel f w)) = w_pause_shadowed w"
  "w_kernel (snd (with_kernel f w)) = snd (f (w_kernel w))"
  "fst (with_kernel f w) = fst (f (w_kernel w))"
  by (simp_all add: with_kernel_def split_beta Let_def)

lemma configure_base:
  assumes w: "writer_base w" "w_state w = Setup"
    and f: "(word_of_nat fmt :: 32 word) AND 0x07f00000 = 0" "channels \<le> 1024"
  shows "writer_base (snd (writer_configure fmt channels rate order w))
    \<and> w_state (snd (writer_configure fmt channels rate order w)) = Setup
    \<and> (\<forall>a. fst (writer_configure fmt channels rate order w) = Inr a \<longrightarrow>
          an_format a = fmt \<and> an_channels a = channels
        \<and> w_stride (snd (writer_configure fmt channels rate order w)) = native_frame_stride fmt channels)"
proof -
  define idle where "idle v \<longleftrightarrow> w_panic v = w_panic w \<and> w_fd v = w_fd w \<and> w_state v = Setup
    \<and> w_frame_off v = 0 \<and> w_pause_shadowed v = w_pause_shadowed w
    \<and> k_ring (w_kernel v) = [] \<and> pairing (w_kernel v) = pairing (w_kernel w)
    \<and> 0 < w_stride v \<and> w_stride v \<le> 4096" for v :: dsp_writer
  have base: "writer_base v" if "idle v" for v
    using that w by (auto simp: idle_def writer_base_def pairing_def)
  have wk: "idle (snd (with_kernel g v))" if "idle v" "\<And>k. k_ring (snd (g k)) = k_ring k"
    "\<And>k. pairing (snd (g k)) = pairing k" for g :: "oss_kernel \<Rightarrow> 'b \<times> oss_kernel" and v
    using that by (simp add: idle_def)
  have i0: "idle w" using w by (auto simp: idle_def writer_base_def)
  define w1 where "w1 = snd (with_kernel (set_format fmt) w)"
  define w2 where "w2 = snd (with_kernel (set_channels channels) w1)"
  define w3 where "w3 = w2\<lparr>w_stride := native_frame_stride fmt channels\<rparr>"
  have idle_wk: "idle (snd (with_kernel (set_value req v t) u))"
    if "idle u" "req \<notin> {DSP_SILENCE, DSP_SKIP, DSP_HALT, DSP_SETTRIGGER}" for req v t u
    using that by (simp add: idle_def)
  have i1: "idle w1" and i2: "idle w2" using i0 idle_wk by (simp_all add: w1_def w2_def set_format_def set_channels_def)
  have i3: "idle w3" using i2 native_frame_stride_plain [OF f] by (simp add: idle_def w3_def)
  have rest: "idle (snd (with_kernel (set_rate rate) v)) \<and> idle (snd (with_kernel channel_caps
      (snd (with_kernel (set_rate rate) v))))\<and> idle (snd (with_kernel (set_channel_order o2) v))"
    if "idle v" for v o2
    using that by (simp add: idle_def set_rate_def)
  have as: "assert_w (w_state w = Setup) w = w" using w(2) by (simp add: assert_w_def)
  have "idle (snd (writer_configure fmt channels rate order w))
    \<and> (\<forall>a. fst (writer_configure fmt channels rate order w) = Inr a \<longrightarrow>
          an_format a = fmt \<and> an_channels a = channels
        \<and> w_stride (snd (writer_configure fmt channels rate order w)) = native_frame_stride fmt channels)"
  proof (cases "fst (with_kernel (set_format fmt) w)")
    case (Inl e)
    then show ?thesis using i1 by (simp add: writer_configure_def as w1_def split_beta)
  next
    case (Inr gf)
    then have gf: "gf = fmt" by (auto simp: set_format_def dest: set_value_exact)
    show ?thesis
    proof (cases "fst (with_kernel (set_channels channels) w1)")
      case (Inl e)
      then show ?thesis using Inr i2 by (simp add: writer_configure_def as w1_def w2_def split_beta Let_def)
    next
      case (Inr gc)
      then have gc: "gc = channels" by (auto simp: set_channels_def dest: set_value_exact)
      let ?o = "case order of None \<Rightarrow> (Inr (), w3) | Some x \<Rightarrow> with_kernel (set_channel_order x) w3"
      have i4: "idle (snd ?o)" "w_stride (snd ?o) = native_frame_stride fmt channels"
        using i3 rest by (auto simp: w3_def split: option.split)
      have eq: "writer_configure fmt channels rate order w =
          (case fst ?o of Inl e \<Rightarrow> (Inl e, snd ?o) | Inr _ \<Rightarrow>
            (let (r, w5) = with_kernel (set_rate rate) (snd ?o)
             in case r of Inl e \<Rightarrow> (Inl e, w5) | Inr grate \<Rightarrow>
              (let (caps, w6) = with_kernel channel_caps w5
               in (Inr \<lparr>an_format = fmt, an_channels = channels, an_rate = grate\<rparr>, w6\<lparr>w_hw_caps := caps\<rparr>))))"
        unfolding writer_configure_def Let_def as split_beta w1_def [symmetric] \<open>fst _ = Inr gf\<close>
          sum.case Inr w2_def [symmetric] gf gc w3_def [symmetric] ..
      have hw: "idle (v\<lparr>w_hw_caps := c\<rparr>) = idle v" for v c by (simp add: idle_def)
      show ?thesis unfolding eq using i4 rest [OF i4(1)]
        by (simp add: split_beta hw split: sum.split)
    qed
  qed
  then show ?thesis using base by (auto simp: idle_def)
qed

lemma silence_uniform_values:
  "uniform_byte (silence_for_config c) \<in> {None, Some 0, Some 0x80, Some 0xff, Some 0x55}"
  by (cases "sc_format c") (simp_all add: uniform_byte_def silence_for_config_def)

lemma set_silence_pattern_ok:
  assumes "writer_base w" "w_stride w = sc_stride c"
  shows "writer_ok (set_silence_pattern (silence_for_config c) w)
    \<and> w_state (set_silence_pattern (silence_for_config c) w) = w_state w"
proof -
  have b: "writer_base (set_silence_pattern (silence_for_config c) w)"
    by (rule base_cong [OF assms(1)]) (simp_all add: set_silence_pattern_def)
  have "0 < w_stride w" using assms(1) by (simp add: writer_base_def)
  then have "max (sc_stride c) 1 = w_stride w" using assms(2) by simp
  then have "silence_ready (set_silence_pattern (silence_for_config c) w)"
    using silence_uniform_values [of c] by (auto simp: silence_ready_def set_silence_pattern_def)
  then show ?thesis using b by (simp add: writer_ok_def set_silence_pattern_def)
qed

section \<open>The OSS stream as a playback backend\<close>

text \<open>\<open>StreamError::from_native_code\<close> of the errno is kept as the positive code.\<close>

definition native_result :: "(errno + 'a) \<times> dsp_writer \<Rightarrow> (int + 'a) \<times> dsp_writer" where
  "native_result r = (case fst r of Inl e \<Rightarrow> Inl (errno_code e) | Inr x \<Rightarrow> Inr x, snd r)"

definition oss_playback :: "bool \<Rightarrow> (dsp_writer, oss_properties) playback_ops" where
  "oss_playback scaled =
     \<lparr>pb_is_closed = writer_is_closed, pb_is_running = writer_is_running,
      pb_suspend = writer_suspend, pb_prime_buffer = writer_prime_buffer scaled,
      pb_retune_buffer = writer_retune_buffer, pb_write = writer_write,
      pb_write_silence = writer_write_silence, pb_end_buffer_sequence = writer_end_buffer_sequence,
      pb_queued_bytes = writer_queued_bytes, pb_underruns = writer_underruns,
      pb_pause = (\<lambda>w. native_result (writer_pause w)),
      pb_resume = (\<lambda>w. native_result (writer_resume w)), pb_underrun_low = underrun_low\<rparr>"

lemma oss_playback_sel [simp]:
  "pb_is_closed (oss_playback sc) w \<longleftrightarrow> w_state w = Closed"
  "pb_is_running (oss_playback sc) w \<longleftrightarrow> w_state w = Running"
  "pb_suspend (oss_playback sc) = writer_suspend"
  "pb_prime_buffer (oss_playback sc) = writer_prime_buffer sc"
  "pb_retune_buffer (oss_playback sc) = writer_retune_buffer"
  "pb_write (oss_playback sc) = writer_write"
  "pb_write_silence (oss_playback sc) = writer_write_silence"
  "pb_end_buffer_sequence (oss_playback sc) = writer_end_buffer_sequence"
  "pb_queued_bytes (oss_playback sc) = writer_queued_bytes"
  "pb_underruns (oss_playback sc) = writer_underruns"
  "snd (pb_pause (oss_playback sc) w) = snd (writer_pause w)"
  "snd (pb_resume (oss_playback sc) w) = snd (writer_resume w)"
  "pb_underrun_low (oss_playback sc) = underrun_low"
  by (simp_all add: oss_playback_def writer_is_closed_def writer_is_running_def native_result_def)

lemma writer_write_facts:
  assumes "writer_ok w" "w_state w \<noteq> Closed"
  shows "writer_ok (snd (writer_write buf w))" "w_state (snd (writer_write buf w)) = Running"
    "k_ring (w_kernel (snd (writer_write buf w)))
       = k_ring (w_kernel w) @ take (wo_bytes (fst (writer_write buf w))) buf"
proof -
  obtain out w' where eq: "writer_write buf w = (out, w')" by fastforce
  have b: "writer_base w" using assms(1) by (simp add: writer_ok_def)
  obtain w2 where w2: "wrote (take (wo_bytes out) buf) w w2" "w' = arm w2"
    using writer_write_wrote [OF b assms(2) eq] by auto
  have "writer_ok w2" by (rule wrote_ok [OF w2(1) assms])
  then show "writer_ok (snd (writer_write buf w))" "w_state (snd (writer_write buf w)) = Running"
    "k_ring (w_kernel (snd (writer_write buf w)))
       = k_ring (w_kernel w) @ take (wo_bytes (fst (writer_write buf w))) buf"
    using wrote_fields [OF w2(1)] w2(2) eq by (auto simp: writer_ok_def intro: arm_base arm_ready)
qed

lemma retune_applied_target:
  "writer_retune_buffer req fill now w = (PRApplied g, w') \<Longrightarrow> pg_target_fill_bytes g \<le> pg_target_goal_bytes g"
  using retuned_target_le_goal
  by (auto simp: writer_retune_buffer_def Let_def split_beta split: if_splits)

lemma prime_target:
  "pg_target_fill_bytes (fst (writer_prime_buffer sc req p w))
     \<le> pg_target_goal_bytes (fst (writer_prime_buffer sc req p w))"
  by (simp add: writer_prime_buffer_def Let_def split_beta applied_target_eq_goal)

lemma write_silence_facts:
  assumes "writer_ok w" "w_state w \<noteq> Closed"
  shows "writer_ok (writer_write_silence n w)" "w_state (writer_write_silence n w) = Running"
  using writer_write_silence_wrote [OF assms, of n] wrote_ok [OF _ assms] wrote_fields(1) by blast+

lemma write_le:
  assumes "writer_ok w" "w_state w \<noteq> Closed"
  shows "wo_bytes (fst (writer_write buf w)) \<le> length buf"
proof -
  have b: "writer_base w" using assms(1) by (simp add: writer_ok_def)
  show ?thesis
    using writer_write_wrote [OF b assms(2) prod.collapse [symmetric], of buf] le_trans [OF _ as_u32_le] by blast
qed

lemma not_closed_setup: "d \<noteq> Closed \<Longrightarrow> d \<noteq> Running \<Longrightarrow> d = Setup"
  by (cases d) auto

lemmas retune_state_facts = retune_states [OF prod.collapse [symmetric]]

interpretation oss: playback_backend "oss_playback sc" writer_ok "\<lambda>w. k_ring (w_kernel w)" properties_ok
  for sc
proof (unfold_locales, goal_cases)
  case (8 d p req)
  then show ?case using prime_buffer_wrote [of d p sc req] not_closed_setup by simp
next
  case (9 d p req)
  then show ?case using prime_buffer_wrote [of d p sc req] not_closed_setup by simp
next
  case (16 req fill now d g)
  then show ?case using retune_applied_target [of req fill now d g] by (simp add: prod_eq_iff)
next
  case (17 d)
  then show ?case using end_sequence_frame by simp
next
  case (18 d)
  then show ?case using end_sequence_frame by simp
next
  case (31 d)
  then show ?case using pause_frame by simp
next
  case (32 d)
  then show ?case using pause_frame by simp
next
  case (34 d)
  then show ?case using resume_frame by simp
next
  case (35 d)
  then show ?case using resume_frame by simp
qed (simp_all add: writer_write_facts write_silence_facts write_le prime_target suspend_ok suspend_stopped
    retune_ok retune_state_facts queued_ok pause_ok resume_ok)

section \<open>Properties\<close>

text \<open>A small running stream for the witnesses: frames of 4 bytes, 2 bytes of a frame accepted.\<close>

definition sample_kernel :: oss_kernel where
  "sample_kernel =
     \<lparr>k_ints = (\<lambda>_. []), k_spaces = (\<lambda>_. []), k_errors = [], k_writes = [Inr 2, Inr 4, Inl EAGAIN],
      k_reads = [], k_polls = [], k_opens = [], k_rate_round = 25, k_ring = [7, 7], k_trace = []\<rparr>"

definition sample_writer :: dsp_writer where
  "sample_writer = (writer_new dq_unavailable sample_kernel)
     \<lparr>w_fd := True, w_state := Running, w_stride := 4, w_silence_pattern := silence_zero 4, w_frame_off := 2\<rparr>"

lemma sample_writer_ok: "writer_ok sample_writer"
  by (simp add: sample_writer_def sample_kernel_def writer_new_def writer_ok_def writer_base_def
      silence_ready_def silence_zero_def pattern_of_def uniform_byte_def)

lemma sample_writer_open: "\<not> writer_is_closed sample_writer"
  by (simp add: sample_writer_def writer_is_closed_def)

text \<open>C1. Whatever the kernel accepts, a write hands it exactly the reported prefix of the slice, after
  what it had before, and never more; the stream runs afterwards, its frame phase is the phase of the
  bytes in the ring, no assertion has failed; and a slice taken whole is reported as progress.\<close>

theorem write_hands_over_the_reported_prefix:
  assumes "writer_ok w" "\<not> writer_is_closed w"
  shows "k_ring (w_kernel (snd (writer_write buf w)))
      = k_ring (w_kernel w) @ take (wo_bytes (fst (writer_write buf w))) buf
    \<and> wo_bytes (fst (writer_write buf w)) \<le> length buf
    \<and> writer_is_running (snd (writer_write buf w)) \<and> writer_ok (snd (writer_write buf w))
    \<and> (0 < length buf \<and> length buf < 2 ^ 32 \<and> wo_bytes (fst (writer_write buf w)) = length buf \<longrightarrow>
        wo_status (fst (writer_write buf w)) = Progress)"
proof -
  have live: "w_state w \<noteq> Closed" using assms(2) by (simp add: writer_is_closed_def)
  have st: "0 < length buf \<Longrightarrow> length buf < 2 ^ 32 \<Longrightarrow> wo_bytes (fst (writer_write buf w)) = length buf \<Longrightarrow>
      wo_status (fst (writer_write buf w)) = Progress"
    by (auto simp: writer_write_parts Let_def split_beta as_u32_id split: option.split)
  show ?thesis
    using oss.write_accepts [of w _ buf] oss.write_le [of w _ buf] oss.write_ok [of w _ buf]
      oss.write_running [of w _ buf] assms(1) live st by (simp add: writer_is_running_def)
qed

theorem write_hands_over_the_reported_prefix_witness:
  "k_ring (w_kernel (snd (writer_write [1, 2, 3, 4, 5, 6, 7] sample_writer)))
      = k_ring (w_kernel sample_writer)
        @ take (wo_bytes (fst (writer_write [1, 2, 3, 4, 5, 6, 7] sample_writer))) [1, 2, 3, 4, 5, 6, 7]
    \<and> wo_bytes (fst (writer_write [1, 2, 3, 4, 5, 6, 7] sample_writer)) \<le> length [1, 2, 3, 4, 5, 6, 7::byte]
    \<and> writer_is_running (snd (writer_write [1, 2, 3, 4, 5, 6, 7] sample_writer))
    \<and> writer_ok (snd (writer_write [1, 2, 3, 4, 5, 6, 7] sample_writer))"
  using write_hands_over_the_reported_prefix [OF sample_writer_ok sample_writer_open] by blast

text \<open>C3. A silence fill only ever appends the format's silence in phase with the stream: the byte at
  stream position \<open>p\<close> is the midpoint byte that belongs at position \<open>p\<close> of a frame, however short the
  kernel's writes are; it never trips an assertion.\<close>

theorem silence_continues_the_stream_in_phase:
  assumes "writer_ok w" "\<not> writer_is_closed w"
  shows "(\<exists>n. k_ring (w_kernel (writer_write_silence count w))
        = k_ring (w_kernel w) @ silence_fill_at (w_silence_pattern w) (length (k_ring (w_kernel w))) n)
    \<and> writer_ok (writer_write_silence count w) \<and> writer_is_running (writer_write_silence count w)"
proof -
  have live: "w_state w \<noteq> Closed" using assms(2) by (simp add: writer_is_closed_def)
  obtain n where n: "wrote (next_silence w n) w (writer_write_silence count w)"
    using writer_write_silence_wrote [OF assms(1) live] by auto
  show ?thesis using wrote_fields(11) [OF n] oss.silence_ok [of w _ count]
      oss.silence_running [of w _ count] assms(1) live by (auto simp: writer_is_running_def)
qed

theorem silence_continues_the_stream_in_phase_witness:
  "(\<exists>n. k_ring (w_kernel (writer_write_silence 16 sample_writer))
        = k_ring (w_kernel sample_writer)
          @ silence_fill_at (w_silence_pattern sample_writer) (length (k_ring (w_kernel sample_writer))) n)
    \<and> writer_ok (writer_write_silence 16 sample_writer) \<and> writer_is_running (writer_write_silence 16 sample_writer)"
  by (rule silence_continues_the_stream_in_phase [OF sample_writer_ok])
    (simp add: sample_writer_def writer_is_closed_def)

text \<open>The last call of the history is a refused SETTRIGGER(0).\<close>

definition reset_refused :: "oss_kernel \<Rightarrow> bool" where
  "reset_refused k \<longleftrightarrow> (\<exists>t. k_trace k = SysIoctl DSP_SETTRIGGER 0 False # t)"

text \<open>The bytes missing in the frame that the ring ends with, a whole frame when it ends on a boundary.\<close>

definition frame_rest :: "dsp_writer \<Rightarrow> nat" where
  "frame_rest w = w_stride w - length (k_ring (w_kernel w)) mod w_stride w"

lemma frame_rest_dvd:
  assumes "0 < w_stride w"
  shows "w_stride w dvd length (k_ring (w_kernel w)) + frame_rest w"
proof -
  define l where "l = length (k_ring (w_kernel w))"
  define m where "m = l mod w_stride w"
  have "m \<le> w_stride w" "m \<le> l" using mod_less_divisor [OF assms, of l] by (simp_all add: m_def)
  moreover have "frame_rest w = w_stride w - m" by (simp add: frame_rest_def l_def m_def)
  ultimately have "l + frame_rest w = l - m + w_stride w" by linarith
  moreover have "w_stride w dvd l - m" unfolding m_def by (rule dvd_minus_mod)
  ultimately show ?thesis by (simp add: l_def)
qed

lemma realign_exact:
  assumes w: "writer_ok w" "w_state w = Running" and open_frame: "w_frame_off w \<noteq> 0"
    and r: "realign_with_silence w = (res, w1)"
  shows "\<exists>n \<le> frame_rest w. wrote (next_silence w n) w w1 \<and> (is_ok res \<longleftrightarrow> n = frame_rest w)
    \<and> nw_bytes (fst (write_exact (next_silence w (frame_rest w)) w)) = int n"
proof -
  have base: "writer_base w" and mult: "sp_frame_multiple (w_silence_pattern w) = w_stride w"
    using w(1,2) by (auto simp: writer_ok_def silence_ready_def)
  have off: "w_frame_off w = length (k_ring (w_kernel w)) mod w_stride w" and pos: "0 < w_stride w"
    using base w(2) by (auto simp: writer_base_def)
  define need where "need = w_stride w - w_frame_off w"
  have rest: "frame_rest w = need" by (simp add: frame_rest_def need_def off)
  have need: "need \<le> SILENCE_CHUNK_BYTES" using base by (auto simp: need_def writer_base_def)
  then have as: "assert_w (need \<le> SILENCE_CHUNK_BYTES) w = w" by (simp add: assert_w_def)
  obtain a w' where we: "write_exact (next_silence w need) w = (a, w')"
    by (cases "write_exact (next_silence w need) w")
  note st = write_exact_wrote [OF base w(2) we]
  define n where "n = nat (nw_bytes a)"
  have "nw_bytes a \<le> int need" using st as_u32_int_le [of "nw_bytes a" need] by simp
  moreover have "0 \<le> nw_bytes a" using st by blast
  ultimately have n: "n \<le> need" "nw_bytes a = int n" by (simp_all add: n_def)
  then have wr: "wrote (next_silence w n) w w'" using st by (simp add: take_fill_at)
  have lt: "w_frame_off w < w_stride w" using off pos by simp
  have "w_frame_off w' = (w_frame_off w + n) mod w_stride w" using wrote_fields(2) [OF wr] by simp
  moreover have "(w_frame_off w + n) mod w_stride w = 0 \<longleftrightarrow> n = need"
  proof (cases "n = need")
    case True
    then show ?thesis using lt by (simp add: need_def)
  next
    case False
    then have "w_frame_off w + n < w_stride w" using n(1) by (simp add: need_def)
    then show ?thesis using open_frame False by simp
  qed
  ultimately have "w_frame_off w' = 0 \<longleftrightarrow> n = need" by simp
  moreover have "w1 = w'" "is_ok res \<longleftrightarrow> w_frame_off w' = 0"
    using r open_frame we unfolding realign_with_silence_def Let_def need_def [symmetric] as
      silence_phase [OF base mult w(2)]
    by (auto split: if_splits)
  ultimately show ?thesis using n wr we unfolding rest by auto
qed

text \<open>Whether the channel takes the whole completion of its open frame.\<close>

definition completes_frame :: "dsp_writer \<Rightarrow> bool" where
  "completes_frame w \<longleftrightarrow> \<not> w_pause_shadowed w
     \<and> nw_bytes (fst (write_exact (next_silence w (frame_rest w)) w)) = int (frame_rest w)"

lemma suspend_outcome:
  assumes "w_state w = Running" "writer_suspend w = (reset, w')"
  shows "if reset then k_ring (w_kernel w') = [] \<and> w_state w' = Setup \<and> w_frame_off w' = 0
    else reset_refused (w_kernel w') \<and> w_state w' = Running \<and> k_ring (w_kernel w') = k_ring (w_kernel w)"
  using assms
  by (auto simp: writer_suspend_def with_kernel_def split_beta Let_def set_trigger_ring reset_refused_def
      set_trigger_def ioctl_int_trace split: if_splits)

lemma end_of_open_frame:
  assumes w: "writer_ok w" "w_state w = Running" "w_frame_off w \<noteq> 0"
    and e: "writer_end_buffer_sequence w = (reset, w')"
  shows "if completes_frame w
    then \<not> reset \<and> k_ring (w_kernel w') = k_ring (w_kernel w) @ next_silence w (frame_rest w) \<and> w_frame_off w' = 0
    else if reset then k_ring (w_kernel w') = [] \<and> w_state w' = Setup \<and> w_frame_off w' = 0
    else reset_refused (w_kernel w') \<and> w_state w' = Running
      \<and> (\<exists>n < frame_rest w. k_ring (w_kernel w') = k_ring (w_kernel w) @ next_silence w n)"
proof -
  obtain res w1 where re: "realign_with_silence w = (res, w1)" by fastforce
  obtain n where n: "n \<le> frame_rest w" "wrote (next_silence w n) w w1" "is_ok res \<longleftrightarrow> n = frame_rest w"
    "nw_bytes (fst (write_exact (next_silence w (frame_rest w)) w)) = int n"
    using realign_exact [OF w re] by blast
  have pos: "0 < frame_rest w" using w(1) by (simp add: frame_rest_def writer_ok_def writer_base_def)
  have w1: "w_state w1 = Running" "k_ring (w_kernel w1) = k_ring (w_kernel w) @ next_silence w n"
    using wrote_fields(1,11) [OF n(2)] by auto
  consider (shadowed) "w_pause_shadowed w" | (complete) "\<not> w_pause_shadowed w" "is_ok res"
    | (short) "\<not> w_pause_shadowed w" "\<not> is_ok res" by blast
  then show ?thesis
  proof cases
    case shadowed
    then have "writer_suspend w = (reset, w')" "\<not> completes_frame w"
      using e w by (simp_all add: writer_end_buffer_sequence_def completes_frame_def)
    moreover have "k_ring (w_kernel w) = k_ring (w_kernel w) @ next_silence w 0" by (simp add: fill_at_eq)
    ultimately show ?thesis using suspend_outcome [OF w(2), of reset w'] pos by auto
  next
    case complete
    then have "(reset, w') = (False, w1)" "completes_frame w" "n = frame_rest w"
      using e w re n by (auto simp: writer_end_buffer_sequence_def completes_frame_def split: sum.splits)
    moreover have "w_frame_off w1 = 0"
      using realign_wrote [OF w(1,2) re] complete by simp
    ultimately show ?thesis using w1 by simp
  next
    case short
    then have "writer_suspend w1 = (reset, w')" "\<not> completes_frame w" "n < frame_rest w"
      using e w re n by (auto simp: writer_end_buffer_sequence_def completes_frame_def split: sum.splits)
    then show ?thesis using suspend_outcome [OF w1(1), of reset w'] w1(2) by auto
  qed
qed

lemma sample_end_state: "writer_is_running sample_writer" "k_ring (w_kernel sample_writer) = [7, 7]" "w_stride sample_writer = 4"
  "w_silence_pattern sample_writer = silence_zero 4" "\<not> w_pause_shadowed sample_writer"
  by (simp_all add: sample_writer_def sample_kernel_def writer_new_def writer_is_running_def)

text \<open>C4. Ending a retained buffer sequence leaves the device's stream on a frame boundary. A stream that
  is not running or whose ring already ends with a whole frame is left as it is. A running stream with
  an open frame receives exactly the missing bytes, the format's silence in phase with the stream, when
  the channel takes them; when it takes fewer, or the stream is paused over a shadow buffer, the ring is
  reset to empty and the result says so. The one exception is a driver that refuses the reset: the
  result is \<open>False\<close> as well and the ring has gained only a part of that silence.\<close>

theorem end_of_sequence_reaches_a_frame_boundary:
  assumes "writer_ok w" "writer_end_buffer_sequence w = (reset, w')"
  shows "writer_ok w'
    \<and> (if \<not> writer_is_running w \<or> w_stride w dvd length (k_ring (w_kernel w))
       then \<not> reset \<and> k_ring (w_kernel w') = k_ring (w_kernel w) \<and> w_frame_off w' = 0
       else if completes_frame w
       then \<not> reset \<and> w_frame_off w' = 0
          \<and> k_ring (w_kernel w') = k_ring (w_kernel w)
              @ silence_fill_at (w_silence_pattern w) (length (k_ring (w_kernel w))) (frame_rest w)
          \<and> w_stride w dvd length (k_ring (w_kernel w'))
       else if reset then k_ring (w_kernel w') = [] \<and> \<not> writer_is_running w' \<and> w_frame_off w' = 0
       else reset_refused (w_kernel w') \<and> writer_is_running w'
          \<and> (\<exists>n < frame_rest w. k_ring (w_kernel w') = k_ring (w_kernel w)
              @ silence_fill_at (w_silence_pattern w) (length (k_ring (w_kernel w))) n))"
proof -
  have base: "writer_base w" using assms(1) by (simp add: writer_ok_def)
  have ok: "writer_ok w'" using end_sequence_frame [OF assms(1)] assms(2) by simp
  consider (still) "\<not> writer_is_running w \<or> w_stride w dvd length (k_ring (w_kernel w))"
    | (split_frame) "writer_is_running w" "\<not> w_stride w dvd length (k_ring (w_kernel w))" by blast
  then show ?thesis
  proof cases
    case still
    then show ?thesis using base ok assms(2)
      by (auto simp: writer_end_buffer_sequence_def writer_base_def writer_is_running_def dvd_eq_mod_eq_0 split: if_splits)
  next
    case split_frame
    then have run: "w_state w = Running" "w_frame_off w \<noteq> 0"
      using base by (auto simp: writer_is_running_def writer_base_def dvd_eq_mod_eq_0)
    have "0 < w_stride w" using base by (simp add: writer_base_def)
    note d = frame_rest_dvd [OF this]
    note e = end_of_open_frame [OF assms(1) run assms(2)]
    show ?thesis
    proof (cases "completes_frame w")
      case True
      then show ?thesis using e d split_frame ok by simp
    next
      case False
      then show ?thesis using e split_frame ok by (cases reset) (simp_all add: writer_is_running_def)
    qed
  qed
qed

theorem end_of_sequence_reaches_a_frame_boundary_witness:
  "k_ring (w_kernel (snd (writer_end_buffer_sequence sample_writer))) = [7, 7, 0, 0]
    \<and> \<not> fst (writer_end_buffer_sequence sample_writer)"
proof -
  have x: "silence_fill_at (silence_zero 4) 2 2 = [0, 0]" by (subst uniform_fill_at [where b = 0])
      (simp_all add: silence_zero_def uniform_byte_def pattern_of_def numeral_2_eq_2)
  have r: "frame_rest sample_writer = 2" by (simp add: frame_rest_def sample_end_state)
  have "nw_bytes (fst (write_exact [0, 0] sample_writer)) = 2"
    by (simp add: write_exact_def write_exact_loop.simps [of _ 0] write_exact_loop.simps [of _ "Suc (Suc 0)"] write_buffered_def as_u32_def
      sample_writer_def sample_kernel_def writer_new_def assert_w_def with_kernel_def sys_write_def pop_def Let_def)
  then have c: "completes_frame sample_writer" using x r by (simp add: completes_frame_def sample_end_state numeral_2_eq_2)
  have split_frame: "writer_is_running sample_writer" "length (k_ring (w_kernel sample_writer)) = 2"
    "\<not> w_stride sample_writer dvd length (k_ring (w_kernel sample_writer))"
    by (simp_all add: sample_end_state numeral_2_eq_2 [symmetric])
  show ?thesis
    using end_of_sequence_reaches_a_frame_boundary [OF sample_writer_ok prod.collapse [symmetric]] split_frame c x r
    by (simp add: sample_end_state numeral_2_eq_2 [symmetric])
qed

text \<open>C12. A period change is debounced: the first mismatching cycle only reports \<open>Pending\<close>; the second
  one in a row decides, and it retunes in place exactly when the cached ring holds the new geometry,
  otherwise it resets the ring and asks for a re-prime, or for a rebuild when the driver refuses; a
  matching period forgets the mismatch.\<close>

theorem retune_decides_on_the_second_mismatch:
  assumes run: "writer_is_running w" and b: "ps_mismatch_cycles (w_buffer w) = 0"
    "ps_period_bytes (w_buffer w) \<noteq> 0" "pr_period_bytes req \<noteq> 0"
    "pr_period_bytes req \<noteq> ps_period_bytes (w_buffer w)"
  shows "let w1 = snd (writer_retune_buffer req fill1 now1 w);
             g = playback_retuned_geometry req (ps_capacity_bytes (w_buffer w))
                   (ps_quantum_bytes (w_buffer w)) (duration_ns (w_delivery_quantum w)) fill2
                   (w_delay_eighths w)
         in fst (writer_retune_buffer req fill1 now1 w) = PRPending
          \<and> fst (writer_retune_buffer req fill2 now2 w1) =
              (if pg_required_capacity_bytes g \<le> pg_capacity_bytes g then PRApplied g
               else if fst (set_trigger 0 (w_kernel w)) then PRReprime else PRRebuild)
          \<and> (pr_period_bytes req2 = ps_period_bytes (w_buffer w) \<longrightarrow>
              fst (writer_retune_buffer req2 fill2 now2 w1) = PRUnchanged
            \<and> w_buffer (snd (writer_retune_buffer req2 fill2 now2 w1)) = w_buffer w)"
proof -
  define g where "g = playback_retuned_geometry req (ps_capacity_bytes (w_buffer w))
      (ps_quantum_bytes (w_buffer w)) (duration_ns (w_delivery_quantum w)) fill2 (w_delay_eighths w)"
  define w1 where "w1 = snd (writer_retune_buffer req fill1 now1 w)"
  have w1: "w1 = w\<lparr>w_buffer := (w_buffer w)\<lparr>ps_mismatch_cycles := 1\<rparr>\<rparr>"
    and p: "fst (writer_retune_buffer req fill1 now1 w) = PRPending"
    using run b by (simp_all add: w1_def writer_retune_buffer_def sat_add32_def)
  have "fst (writer_retune_buffer req fill2 now2 w1) =
      (if pg_required_capacity_bytes g \<le> pg_capacity_bytes g then PRApplied g
       else if fst (set_trigger 0 (w_kernel w)) then PRReprime else PRRebuild)"
    using run b unfolding w1
    by (simp add: writer_retune_buffer_def sat_add32_def writer_is_running_def writer_suspend_def
        with_kernel_def split_beta Let_def g_def)
  moreover have "pr_period_bytes req2 = ps_period_bytes (w_buffer w) \<Longrightarrow>
      fst (writer_retune_buffer req2 fill2 now2 w1) = PRUnchanged
    \<and> w_buffer (snd (writer_retune_buffer req2 fill2 now2 w1)) = w_buffer w"
    using b(1) by (simp add: w1 writer_retune_buffer_def)
  ultimately show ?thesis using p unfolding Let_def g_def [symmetric] w1_def [symmetric] by blast
qed

definition sample_request :: "u32 \<Rightarrow> playback_request" where
  "sample_request period =
     \<lparr>pr_period_bytes = period, pr_graph_rate = 48000, pr_stride = 4, pr_device_rate = 48000,
      pr_write_bytes = period, pr_maximum_write_bytes = period\<rparr>"

definition retuned_writer :: dsp_writer where
  "retuned_writer = sample_writer
     \<lparr>w_buffer := playback_buffer_default\<lparr>ps_period_bytes := 1024, ps_capacity_bytes := 65536\<rparr>\<rparr>"

theorem retune_decides_on_the_second_mismatch_witness:
  "let w1 = snd (writer_retune_buffer (sample_request 4096) 0 0 retuned_writer);
       g = playback_retuned_geometry (sample_request 4096) (ps_capacity_bytes (w_buffer retuned_writer))
             (ps_quantum_bytes (w_buffer retuned_writer)) (duration_ns (w_delivery_quantum retuned_writer))
             500 (w_delay_eighths retuned_writer)
   in fst (writer_retune_buffer (sample_request 4096) 0 0 retuned_writer) = PRPending
    \<and> fst (writer_retune_buffer (sample_request 4096) 500 9 w1) =
        (if pg_required_capacity_bytes g \<le> pg_capacity_bytes g then PRApplied g
         else if fst (set_trigger 0 (w_kernel retuned_writer)) then PRReprime else PRRebuild)
    \<and> fst (writer_retune_buffer (sample_request 1024) 500 9 w1) = PRUnchanged
    \<and> w_buffer (snd (writer_retune_buffer (sample_request 1024) 500 9 w1)) = w_buffer retuned_writer"
proof -
  have w: "writer_is_running retuned_writer" "ps_mismatch_cycles (w_buffer retuned_writer) = 0"
    "ps_period_bytes (w_buffer retuned_writer) = 1024"
    by (simp_all add: retuned_writer_def sample_writer_def writer_is_running_def playback_buffer_default_def)
  show ?thesis
    using retune_decides_on_the_second_mismatch [of retuned_writer "sample_request 4096" 0 0 500 9 "sample_request 1024"] w
    unfolding Let_def by (simp add: sample_request_def)
qed

definition refusing_writer :: dsp_writer where
  "refusing_writer = sample_writer\<lparr>w_kernel := sample_kernel\<lparr>k_writes := [Inl EIO]\<rparr>\<rparr>"

lemma refusing_writer_fields [simp]:
  "w_frame_off refusing_writer = 2" "w_stride refusing_writer = 4" "w_state refusing_writer = Running"
  "w_silence_pattern refusing_writer = silence_zero 4" "w_pause_shadowed refusing_writer = False"
  "w_panic refusing_writer = False"
  by (simp_all add: refusing_writer_def sample_writer_def writer_new_def)

text \<open>Ending a sequence can leave its frame open: a channel that takes no bytes and whose driver
  refuses the reset is left running inside a frame, with the result \<open>False\<close> that also stands for a
  completed frame, so the caller cannot know that bytes of the next sequence will complete the frame.\<close>

theorem refused_reset_keeps_split_frame:
  "writer_ok refusing_writer \<and> fst (writer_end_buffer_sequence refusing_writer) = False
     \<and> w_frame_off (snd (writer_end_buffer_sequence refusing_writer)) \<noteq> 0
     \<and> writer_is_running (snd (writer_end_buffer_sequence refusing_writer))"
proof -
  have ok: "writer_ok refusing_writer"
    by (simp add: refusing_writer_def sample_writer_def sample_kernel_def writer_new_def writer_ok_def
      writer_base_def silence_ready_def silence_zero_def pattern_of_def uniform_byte_def)
  define x where "x = silence_fill_at (silence_zero 4) 2 2"
  have x: "length x = Suc (Suc 0)" by (simp add: x_def)
  then obtain a b where ab: "x = [a, b]" by (auto simp: length_Suc_conv)
  obtain w1 where we: "write_exact [a, b] refusing_writer = (\<lparr>nw_bytes = 0, nw_error = Some EIO\<rparr>, w1)"
    and w1: "w_frame_off w1 = 2" "w_state w1 = Running" "k_ints (w_kernel w1) = (\<lambda>_. [])"
    by (simp add: write_exact_def write_exact_loop.simps [of _ 0] write_buffered_def as_u32_def
      refusing_writer_def sample_writer_def sample_kernel_def writer_new_def assert_w_def with_kernel_def
      sys_write_def pop_def Let_def)
  have as: "assert_w (2 \<le> SILENCE_CHUNK_BYTES) refusing_writer = refusing_writer"
    by (simp add: assert_w_def refusing_writer_def sample_writer_def writer_new_def)
  have "realign_with_silence refusing_writer = (Inl (Some EIO), w1)"
    using we w1 as by (simp add: realign_with_silence_def Let_def x_def [symmetric] ab)
  then show ?thesis using ok w1
    by (simp add: writer_end_buffer_sequence_def writer_suspend_def with_kernel_def
      set_trigger_def ioctl_int_def pop_def split_beta Let_def writer_is_running_def)
qed

end
