(* ===== verification/CaptureIface.thy ===== *)
theory CaptureIface
  imports Backend
begin

text \<open>
  The capture half of the backend contract (traits \<open>StreamLifecycle\<close> and \<open>CaptureOperations\<close> of
  crates/core/src/backend/mod.rs), as a record of operations over a device state, and the locale of
  the laws the source node relies on. A read returns its outcome and the bytes it stored at the
  front of the caller's buffer.
\<close>

record ('d, 'p) capture_ops =
  cb_is_closed :: "'d \<Rightarrow> bool"
  cb_is_running :: "'d \<Rightarrow> bool"
  cb_suspend :: "'d \<Rightarrow> bool \<times> 'd"
  cb_close :: "'d \<Rightarrow> 'd"
  cb_prime_buffer :: "capture_request \<Rightarrow> 'p \<Rightarrow> nat \<Rightarrow> 'd \<Rightarrow> capture_geometry \<times> 'd"
  cb_retune_buffer :: "capture_request \<Rightarrow> bool \<Rightarrow> 'd \<Rightarrow> capture_retune \<times> 'd"
  cb_read :: "nat \<Rightarrow> 'd \<Rightarrow> (read_outcome \<times> byte list) \<times> 'd"
  cb_queued_bytes :: "'d \<Rightarrow> u32 \<times> 'd"
  cb_overruns :: "'d \<Rightarrow> xrun_observation \<times> 'd"
  cb_recover_overrun :: "u32 \<Rightarrow> u32 option \<Rightarrow> 'd \<Rightarrow> bool option \<times> 'd"
  cb_clear_overrun_observation :: "'d \<Rightarrow> 'd"

text \<open>\<open>ok\<close> is the backend's invariant, \<open>stride\<close> the frame size it negotiated and \<open>consumed\<close> the
  bytes read from the device since its queue was last reset.\<close>

locale capture_backend =
  fixes C :: "('d, 'p) capture_ops"
    and ok :: "'d \<Rightarrow> bool"
    and stride :: "'d \<Rightarrow> nat"
    and consumed :: "'d \<Rightarrow> byte list"
  assumes not_both: "cb_is_running C d \<Longrightarrow> \<not> cb_is_closed C d"
    and stride_pos: "ok d \<Longrightarrow> 0 < stride d"
    and read_ok: "ok d \<Longrightarrow> \<not> cb_is_closed C d \<Longrightarrow> ok (snd (cb_read C n d))"
    and read_running: "ok d \<Longrightarrow> \<not> cb_is_closed C d \<Longrightarrow> cb_is_running C (snd (cb_read C n d))"
    and read_stride: "ok d \<Longrightarrow> \<not> cb_is_closed C d \<Longrightarrow> stride (snd (cb_read C n d)) = stride d"
    and read_len: "ok d \<Longrightarrow> \<not> cb_is_closed C d \<Longrightarrow> length (snd (fst (cb_read C n d))) \<le> n"
    and read_le: "ok d \<Longrightarrow> \<not> cb_is_closed C d \<Longrightarrow>
      ro_bytes (fst (fst (cb_read C n d))) \<le> length (snd (fst (cb_read C n d)))"
    and read_frames: "ok d \<Longrightarrow> \<not> cb_is_closed C d \<Longrightarrow> stride d dvd ro_bytes (fst (fst (cb_read C n d)))"
    and read_consumed: "ok d \<Longrightarrow> \<not> cb_is_closed C d \<Longrightarrow> 0 < ro_bytes (fst (fst (cb_read C n d))) \<Longrightarrow>
      \<exists>torn head. consumed (snd (cb_read C n d)) = consumed d @ torn
          @ take (ro_bytes (fst (fst (cb_read C n d)))) (snd (fst (cb_read C n d))) @ head
        \<and> stride d dvd length (consumed d @ torn)"
    and prime_ok: "ok d \<Longrightarrow> \<not> cb_is_closed C d \<Longrightarrow> ok (snd (cb_prime_buffer C req p n d))"
    and prime_running: "ok d \<Longrightarrow> \<not> cb_is_closed C d \<Longrightarrow> cb_is_running C (snd (cb_prime_buffer C req p n d))"
    and prime_stride: "ok d \<Longrightarrow> \<not> cb_is_closed C d \<Longrightarrow> stride (snd (cb_prime_buffer C req p n d)) = stride d"
    and retune_ok: "ok d \<Longrightarrow> ok (snd (cb_retune_buffer C req primed d))"
    and retune_closed: "cb_is_closed C (snd (cb_retune_buffer C req primed d)) = cb_is_closed C d"
    and retune_reprime: "fst (cb_retune_buffer C req primed d) = CRReprime \<Longrightarrow>
      \<not> cb_is_running C (snd (cb_retune_buffer C req primed d))"
    and retune_keeps: "fst (cb_retune_buffer C req primed d) \<noteq> CRReprime \<Longrightarrow>
      cb_is_running C (snd (cb_retune_buffer C req primed d)) = cb_is_running C d"
    and retune_stride: "stride (snd (cb_retune_buffer C req primed d)) = stride d"
    and queued_ok: "ok d \<Longrightarrow> cb_is_running C d \<Longrightarrow> ok (snd (cb_queued_bytes C d))"
    and queued_running: "cb_is_running C (snd (cb_queued_bytes C d)) = cb_is_running C d"
    and queued_stride: "stride (snd (cb_queued_bytes C d)) = stride d"
    and overruns_ok: "ok d \<Longrightarrow> cb_is_running C d \<Longrightarrow> ok (snd (cb_overruns C d))"
    and overruns_running: "cb_is_running C (snd (cb_overruns C d)) = cb_is_running C d"
    and overruns_stride: "stride (snd (cb_overruns C d)) = stride d"
    and recover_ok: "ok d \<Longrightarrow> ok (snd (cb_recover_overrun C n f d))"
    and recover_closed: "cb_is_closed C (snd (cb_recover_overrun C n f d)) = cb_is_closed C d"
    and recover_none: "fst (cb_recover_overrun C n f d) = None \<Longrightarrow>
      cb_is_running C (snd (cb_recover_overrun C n f d)) = cb_is_running C d"
    and recover_reset: "fst (cb_recover_overrun C n f d) = Some True \<Longrightarrow>
      \<not> cb_is_running C (snd (cb_recover_overrun C n f d))"
    and recover_stride: "stride (snd (cb_recover_overrun C n f d)) = stride d"
    and clear_ok: "ok d \<Longrightarrow> ok (cb_clear_overrun_observation C d)"
    and clear_frame: "cb_is_running C (cb_clear_overrun_observation C d) = cb_is_running C d"
      "cb_is_closed C (cb_clear_overrun_observation C d) = cb_is_closed C d"
      "stride (cb_clear_overrun_observation C d) = stride d"
    and suspend_ok: "ok d \<Longrightarrow> ok (snd (cb_suspend C d))"
    and suspend_closed: "cb_is_closed C (snd (cb_suspend C d)) = cb_is_closed C d"
    and suspend_stops: "fst (cb_suspend C d) \<Longrightarrow> \<not> cb_is_running C (snd (cb_suspend C d))"
    and suspend_stride: "stride (snd (cb_suspend C d)) = stride d"

begin

text \<open>One read hands the node whole frames that stand contiguous in the device's stream, at a frame
  boundary of it.\<close>

lemma read_whole_frames:
  assumes "ok d" "\<not> cb_is_closed C d" "0 < ro_bytes (fst (fst (cb_read C n d)))"
  shows "\<exists>i. stride d dvd i \<and> stride d dvd ro_bytes (fst (fst (cb_read C n d))) \<and>
    take (ro_bytes (fst (fst (cb_read C n d)))) (snd (fst (cb_read C n d)))
      = take (ro_bytes (fst (fst (cb_read C n d)))) (drop i (consumed (snd (cb_read C n d))))"
proof -
  let ?m = "ro_bytes (fst (fst (cb_read C n d)))" and ?b = "snd (fst (cb_read C n d))"
  obtain torn head where c: "consumed (snd (cb_read C n d)) = (consumed d @ torn) @ take ?m ?b @ head"
    and dv: "stride d dvd length (consumed d @ torn)"
    using read_consumed [OF assms] by auto
  have "take ?m (drop (length (consumed d @ torn)) (consumed (snd (cb_read C n d)))) = take ?m ?b"
    unfolding c using read_le [OF assms(1,2), of n] by (simp del: append_assoc)
  then show ?thesis using dv read_frames [OF assms(1,2)] by (metis)
qed

end

end
