(* ===== verification/OssCapture.thy ===== *)
theory OssCapture
  imports OssAbi OssIdentity CaptureIface
begin

text \<open>
  The OSS capture stream \<open>Dsp\<close> (crates/freebsd-oss/src/freebsd\_oss/dsp.rs): lifecycle, ring
  sizing, the prime-time drain, the frame-aligned read with its torn-frame discard, and the overrun
  classification. The stream's descriptor is the kernel record \<open>d_kernel\<close>; a failed assertion sets
  \<open>d_panic\<close>. The pure identity \<open>path\<close> and the logging are left out.
\<close>

section \<open>State\<close>

record capture_buffer_state =
  cs_period_bytes :: u32
  cs_quantum_bytes :: u32
  cs_capacity_bytes :: u32
  cs_mismatch_cycles :: u32
  cs_pinned_cycles :: u32

definition capture_buffer_default :: capture_buffer_state where
  "capture_buffer_default =
     \<lparr>cs_period_bytes = 0, cs_quantum_bytes = 0, cs_capacity_bytes = 0, cs_mismatch_cycles = 0,
      cs_pinned_cycles = 0\<rparr>"

record dsp =
  d_delivery_quantum :: delivery_quantum
  d_fd :: bool
  d_state :: dsp_state
  d_needs_trigger :: bool
  d_hw_caps :: "32 word"
  d_stride :: u32
  d_skip :: u32
  d_wake_threshold :: u32
  d_buffer :: capture_buffer_state
  d_kernel :: oss_kernel
  d_panic :: bool

definition on_kernel :: "(oss_kernel \<Rightarrow> 'a \<times> oss_kernel) \<Rightarrow> dsp \<Rightarrow> 'a \<times> dsp" where
  "on_kernel f d = (let (r, k) = f (d_kernel d) in (r, d\<lparr>d_kernel := k\<rparr>))"

definition assert_d :: "bool \<Rightarrow> dsp \<Rightarrow> dsp" where
  "assert_d b d = d\<lparr>d_panic := d_panic d \<or> \<not> b\<rparr>"

section \<open>Lifecycle\<close>

definition dsp_new :: "delivery_quantum \<Rightarrow> oss_kernel \<Rightarrow> dsp" where
  "dsp_new dq k =
     \<lparr>d_delivery_quantum = dq, d_fd = False, d_state = Closed, d_needs_trigger = False, d_hw_caps = 0,
      d_stride = 1, d_skip = 0, d_wake_threshold = 0, d_buffer = capture_buffer_default,
      d_kernel = k, d_panic = False\<rparr>"

definition dsp_is_closed :: "dsp \<Rightarrow> bool" where
  "dsp_is_closed d \<longleftrightarrow> d_state d = Closed"

definition dsp_is_running :: "dsp \<Rightarrow> bool" where
  "dsp_is_running d \<longleftrightarrow> d_state d = Running"

definition dsp_open :: "dsp \<Rightarrow> (errno + unit) \<times> dsp" where
  "dsp_open d0 =
     (let d = assert_d (d_state d0 = Closed) d0;
          (r, d1) = on_kernel sys_open d
      in case r of
           Some e \<Rightarrow> (Inl e, d1)
         | None \<Rightarrow> (Inr (), d1\<lparr>d_fd := True, d_state := Setup\<rparr>))"

definition dsp_close :: "dsp \<Rightarrow> dsp" where
  "dsp_close d0 =
     (let d = assert_d (d_state d0 \<noteq> Closed \<and> d_fd d0) d0
      in d\<lparr>d_kernel := sys_close (d_kernel d), d_fd := False, d_state := Closed,
           d_needs_trigger := False, d_hw_caps := 0, d_skip := 0, d_buffer := capture_buffer_default,
           d_wake_threshold := 0\<rparr>)"

definition clear_overrun_observation :: "dsp \<Rightarrow> dsp" where
  "clear_overrun_observation d = d\<lparr>d_buffer := (d_buffer d)\<lparr>cs_pinned_cycles := 0\<rparr>\<rparr>"

definition dsp_suspend :: "dsp \<Rightarrow> bool \<times> dsp" where
  "dsp_suspend d =
     (if d_state d \<noteq> Running then (True, d)
      else let (ok, d1) = on_kernel (set_trigger 0) d
           in if \<not> ok then (False, d1)
              else (True, d1\<lparr>d_state := Setup, d_needs_trigger := True, d_skip := 0\<rparr>))"

abbreviation (input) PINNED_CYCLE_LIMIT :: u32 where "PINNED_CYCLE_LIMIT \<equiv> 3"

definition ring_pinned :: "u32 option \<Rightarrow> capture_buffer_state \<Rightarrow> bool" where
  "ring_pinned pre_read_fill b =
     (case pre_read_fill of
        Some fill \<Rightarrow>
          if cs_capacity_bytes b > 0 then fill > cs_capacity_bytes b - cs_quantum_bytes b else True
      | None \<Rightarrow> False)"

definition recover_overrun :: "u32 \<Rightarrow> u32 option \<Rightarrow> dsp \<Rightarrow> bool option \<times> dsp" where
  "recover_overrun overrun_count pre_read_fill d =
     (let pinned = ring_pinned pre_read_fill (d_buffer d);
          cycles = (if pinned then sat_add32 (cs_pinned_cycles (d_buffer d)) 1 else 0);
          d1 = d\<lparr>d_buffer := (d_buffer d)\<lparr>cs_pinned_cycles := cycles\<rparr>\<rparr>
      in if cycles < PINNED_CYCLE_LIMIT then (None, d1)
         else let (ok, d2) = dsp_suspend (d1\<lparr>d_buffer := (d_buffer d1)\<lparr>cs_pinned_cycles := 0\<rparr>\<rparr>)
              in (Some ok, d2))"

definition dsp_configure ::
  "u32 \<Rightarrow> u32 \<Rightarrow> u32 \<Rightarrow> u64 option \<Rightarrow> dsp \<Rightarrow> (errno + applied_native_config) \<times> dsp" where
  "dsp_configure fmt channels rate channel_order d00 =
     (let d0 = assert_d (d_state d00 = Setup) d00;
          (f, d1) = on_kernel (set_format fmt) d0
      in case f of Inl e \<Rightarrow> (Inl e, d1) | Inr gfmt \<Rightarrow>
     (let (c, d2) = on_kernel (set_channels channels) d1
      in case c of Inl e \<Rightarrow> (Inl e, d2) | Inr gchannels \<Rightarrow>
     (let d3 = d2\<lparr>d_stride := native_frame_stride gfmt gchannels\<rparr>;
          (o', d4) = (case channel_order of
                        None \<Rightarrow> (Inr (), d3)
                      | Some order \<Rightarrow> on_kernel (set_channel_order order) d3)
      in case o' of Inl e \<Rightarrow> (Inl e, d4) | Inr _ \<Rightarrow>
     (let (r, d5) = on_kernel (set_rate rate) d4
      in case r of Inl e \<Rightarrow> (Inl e, d5) | Inr grate \<Rightarrow>
     (let (caps, d6) = on_kernel channel_caps d5
      in (Inr \<lparr>an_format = gfmt, an_channels = gchannels, an_rate = grate\<rparr>,
          d6\<lparr>d_hw_caps := caps\<rparr>))))))"

section \<open>Ring sizing\<close>

definition set_small_fragments :: "bool \<Rightarrow> u32 \<Rightarrow> u32 \<Rightarrow> dsp \<Rightarrow> dsp" where
  "set_small_fragments scaled fragment ring0 d =
     (if d_state d \<noteq> Setup then d
      else let d0 = assert_d (d_fd d) (d\<lparr>d_wake_threshold := 0\<rparr>);
               ring = clamp ring0 MIN_BUFFER_BYTES (BUFFER_CAPACITY_MAX_BYTES scaled);
               k1 = (if fragment = 0 then set_fragment (min (ring div 1024) u16_max) 10 (d_kernel d0)
                     else let count = max (ring div 2 ^ trailing_zeros32 fragment) 2
                          in set_fragment (min count u16_max) (trailing_zeros32 fragment) (d_kernel d0));
               (ok, k2) = set_low_water 1 k1
           in d0\<lparr>d_kernel := k2\<rparr>)"

definition ready_for_reading :: "dsp \<Rightarrow> bool \<times> dsp" where
  "ready_for_reading d00 =
     (let d01 = (if d_state d00 = Setup then d00\<lparr>d_state := Running\<rparr> else d00);
          d0 = assert_d (d_state d01 = Running \<and> d_fd d01) d01;
          (ready, d1) = on_kernel sys_poll_in d0
      in (ready, if d_needs_trigger d1
                 then snd (on_kernel (set_trigger PCM_ENABLE_INPUT) (d1\<lparr>d_needs_trigger := False\<rparr>))
                 else d1))"

definition dsp_queued_bytes :: "dsp \<Rightarrow> u32 \<times> dsp" where
  "dsp_queued_bytes d0 =
     (let (r, d) = on_kernel input_space (assert_d (d_state d0 = Running \<and> d_fd d0) d0)
      in (case r of None \<Rightarrow> 0 | Some info \<Rightarrow> nat (max (bi_bytes info) 0), d))"

definition dsp_buffer_layout :: "dsp \<Rightarrow> buffer_layout \<times> dsp" where
  "dsp_buffer_layout d0 =
     (let (r, d) = on_kernel input_space (assert_d (d_state d0 = Running \<and> d_fd d0) d0)
      in (case r of
            None \<Rightarrow> \<lparr>bl_queued_bytes = 0, bl_quantum_bytes = 0, bl_capacity_bytes = 0\<rparr>
          | Some info \<Rightarrow>
              \<lparr>bl_queued_bytes = nat (max (bi_bytes info) 0),
               bl_quantum_bytes = nat (max (bi_fragsize info) 0),
               bl_capacity_bytes =
                 sat_mul32 (nat (max (bi_fragstotal info) 0)) (nat (max (bi_fragsize info) 0))\<rparr>, d))"

definition dsp_overruns :: "dsp \<Rightarrow> xrun_observation \<times> dsp" where
  "dsp_overruns d0 =
     (let (info, d) = on_kernel get_error (assert_d (d_state d0 = Running \<and> d_fd d0) d0)
      in (resetting_events (xrun_counter_bits (ei_rec_overruns info)), d))"

section \<open>Reading\<close>

text \<open>The loop that discards the tail of a torn frame; \<open>Some\<close> is the early return of \<open>read\<close>.\<close>

function discard_torn :: "dsp \<Rightarrow> read_outcome option \<times> dsp" where
  "discard_torn d =
     (if d_skip d = 0 then (None, d)
      else let len = min (d_skip d) 64;
               (r, d1) = on_kernel (sys_read len) d
           in case r of
                Inl e \<Rightarrow> (Some \<lparr>ro_bytes = 0, ro_status = oss_io_status e\<rparr>, d1)
              | Inr [] \<Rightarrow> (Some \<lparr>ro_bytes = 0, ro_status = Disconnected\<rparr>, d1)
              | Inr (b # bs) \<Rightarrow> discard_torn (d1\<lparr>d_skip := d_skip d1 - length (b # bs)\<rparr>))"
  by pat_completeness auto
termination
  by (relation "measure d_skip") (auto simp: on_kernel_def split_beta)

declare discard_torn.simps [simp del]

text \<open>\<open>read\<close> into a buffer of \<open>len\<close> bytes: the outcome and the bytes stored at the buffer's front.\<close>

definition dsp_read :: "nat \<Rightarrow> dsp \<Rightarrow> (read_outcome \<times> byte list) \<times> dsp" where
  "dsp_read len d00 =
     (let d01 = (if d_state d00 = Setup then d00\<lparr>d_state := Running\<rparr> else d00);
          d0 = assert_d (d_state d01 = Running \<and> d_fd d01) d01
      in case discard_torn d0 of
           (Some out, d1) \<Rightarrow> ((out, []), d1)
         | (None, d1) \<Rightarrow>
             (let (r, d2) = on_kernel (sys_read len) d1
              in case r of
                   Inl e \<Rightarrow> ((\<lparr>ro_bytes = 0, ro_status = oss_io_status e\<rparr>, []), d2)
                 | Inr [] \<Rightarrow> ((\<lparr>ro_bytes = 0, ro_status = Disconnected\<rparr>, []), d2)
                 | Inr (b # bs) \<Rightarrow>
                     (let count = length (b # bs);
                          rem = count mod max (d_stride d2) 1
                      in if rem \<noteq> 0
                         then ((\<lparr>ro_bytes = count - rem, ro_status = Progress\<rparr>, b # bs),
                               d2\<lparr>d_skip := d_stride d2 - rem\<rparr>)
                         else ((\<lparr>ro_bytes = count, ro_status = Progress\<rparr>, b # bs), d2))))"

text \<open>The drain loop of \<open>prime_buffer\<close> over a scratch buffer of \<open>scratch\<close> bytes.\<close>

function drain_backlog :: "u32 \<Rightarrow> nat \<Rightarrow> u32 \<Rightarrow> bool \<Rightarrow> dsp \<Rightarrow> bool \<times> dsp" where
  "drain_backlog stride scratch backlog device_lost d =
     (if backlog = 0 then (device_lost, d)
      else let chunk = (min backlog (as_u32 scratch) div max stride 1) * max stride 1
           in if chunk = 0 then (device_lost, d)
              else let ((outcome, data), d1) = dsp_read chunk d;
                       lost = (device_lost \<or> io_requires_rebuild (ro_status outcome))
                   in if ro_bytes outcome = 0 then (lost, d1)
                      else drain_backlog stride scratch (backlog - ro_bytes outcome) lost d1)"
  by pat_completeness auto
termination
  by (relation "measure (\<lambda>(stride, scratch, backlog, lost, d). backlog)") auto

declare drain_backlog.simps [simp del]

definition dsp_prime_buffer ::
  "bool \<Rightarrow> capture_request \<Rightarrow> oss_properties \<Rightarrow> nat \<Rightarrow> dsp \<Rightarrow> capture_geometry \<times> dsp" where
  "dsp_prime_buffer scaled request properties scratch d =
     (let d0 = (if \<not> dsp_is_running d
                then let (fragment, capacity) = capture_buffer_plan scaled request (op_fragment_bytes properties)
                     in set_small_fragments scaled fragment capacity d
                else d);
          (ready, d1) = ready_for_reading d0;
          (layout, d2) = dsp_buffer_layout d1;
          (device_lost, d3) =
            (if ready then drain_backlog (cr_stride request) scratch (bl_queued_bytes layout) False d2
             else (False, d2));
          geometry = (capture_applied_geometry request (bl_capacity_bytes layout)
                        (bl_quantum_bytes layout) (duration_ns (d_delivery_quantum d3)))
                       \<lparr>cg_device_lost := device_lost\<rparr>
      in (geometry,
          d3\<lparr>d_buffer := \<lparr>cs_period_bytes = cr_period_bytes request,
                          cs_quantum_bytes = cg_quantum_bytes geometry,
                          cs_capacity_bytes = cg_capacity_bytes geometry,
                          cs_mismatch_cycles = 0, cs_pinned_cycles = 0\<rparr>\<rparr>))"

definition dsp_retune_buffer :: "capture_request \<Rightarrow> bool \<Rightarrow> dsp \<Rightarrow> capture_retune \<times> dsp" where
  "dsp_retune_buffer request primed d =
     (let b = d_buffer d
      in if \<not> primed \<or> cs_period_bytes b = 0 \<or> cr_period_bytes request = 0
            \<or> cr_period_bytes request = cs_period_bytes b
         then (CRUnchanged, d\<lparr>d_buffer := b\<lparr>cs_mismatch_cycles := 0\<rparr>\<rparr>)
         else let b1 = b\<lparr>cs_mismatch_cycles := sat_add32 (cs_mismatch_cycles b) 1\<rparr>;
                  d1 = d\<lparr>d_buffer := b1\<rparr>
              in if cs_mismatch_cycles b1 < 2 then (CRPending, d1)
                 else let geometry = capture_applied_geometry request (cs_capacity_bytes b1)
                            (cs_quantum_bytes b1) (duration_ns (d_delivery_quantum d1))
                      in if cg_capacity_bytes geometry \<ge> cg_required_capacity_bytes geometry
                         then (CRApplied geometry,
                               d1\<lparr>d_buffer := b1\<lparr>cs_period_bytes := cr_period_bytes request,
                                                  cs_mismatch_cycles := 0\<rparr>\<rparr>)
                         else let (ok, d2) = dsp_suspend d1
                              in if ok then (CRReprime, d2\<lparr>d_buffer := (d_buffer d2)\<lparr>cs_mismatch_cycles := 0\<rparr>\<rparr>)
                                 else (CRRebuild, d2))"

section \<open>The stream's invariant\<close>

text \<open>\<open>skip\<close> is what is left of a torn frame: together with the bytes read so far it makes whole
  frames. A stream that is not running has read nothing, and no assertion has failed.\<close>

definition dsp_ok :: "dsp \<Rightarrow> bool" where
  "dsp_ok d \<longleftrightarrow>
     \<not> d_panic d \<and> (d_fd d \<longleftrightarrow> d_state d \<noteq> Closed) \<and> 0 < d_stride d
   \<and> (d_state d \<noteq> Running \<longrightarrow> d_skip d = 0)
   \<and> (d_state d = Setup \<longrightarrow> k_ring (d_kernel d) = [])
   \<and> (d_state d = Running \<longrightarrow> d_stride d dvd length (k_ring (d_kernel d)) + d_skip d)"

lemma on_kernel_fields [simp]:
  "d_state (snd (on_kernel f d)) = d_state d" "d_fd (snd (on_kernel f d)) = d_fd d"
  "d_stride (snd (on_kernel f d)) = d_stride d" "d_skip (snd (on_kernel f d)) = d_skip d"
  "d_panic (snd (on_kernel f d)) = d_panic d" "d_buffer (snd (on_kernel f d)) = d_buffer d"
  "d_needs_trigger (snd (on_kernel f d)) = d_needs_trigger d"
  "d_kernel (snd (on_kernel f d)) = snd (f (d_kernel d))"
  "fst (on_kernel f d) = fst (f (d_kernel d))"
  by (simp_all add: on_kernel_def split_beta Let_def)

lemma dsp_ok_cong:
  assumes "dsp_ok d" "d_panic d' = d_panic d" "d_fd d' = d_fd d" "d_state d' = d_state d"
    "d_stride d' = d_stride d" "d_skip d' = d_skip d" "k_ring (d_kernel d') = k_ring (d_kernel d)"
  shows "dsp_ok d'"
  using assms by (simp add: dsp_ok_def)

lemma dsp_ok_buffer [simp]: "dsp_ok (d\<lparr>d_buffer := b\<rparr>) = dsp_ok d"
  by (simp add: dsp_ok_def)

lemma assert_d_id: "b \<Longrightarrow> assert_d b d = d"
  by (simp add: assert_d_def)

definition dsp_start :: "dsp \<Rightarrow> dsp" where
  "dsp_start d = (if d_state d = Setup then d\<lparr>d_state := Running\<rparr> else d)"

lemma dsp_start_ok:
  "dsp_ok d \<Longrightarrow> d_state d \<noteq> Closed \<Longrightarrow>
     dsp_ok (dsp_start d) \<and> d_state (dsp_start d) = Running \<and> d_fd (dsp_start d)
   \<and> d_stride (dsp_start d) = d_stride d \<and> k_ring (d_kernel (dsp_start d)) = k_ring (d_kernel d)"
  by (cases "d_state d") (simp_all add: dsp_start_def dsp_ok_def)

text \<open>The discard loop reads only what the torn frame still owes.\<close>

lemma discard_torn_spec:
  assumes "dsp_ok d" "d_state d = Running" "discard_torn d = (r, d')"
  shows "dsp_ok d' \<and> d_state d' = Running \<and> d_stride d' = d_stride d
    \<and> (r = None \<longrightarrow> d_skip d' = 0)
    \<and> (case r of None \<Rightarrow> True | Some out \<Rightarrow> ro_bytes out = 0)
    \<and> (\<exists>torn. k_ring (d_kernel d') = k_ring (d_kernel d) @ torn \<and> length torn + d_skip d' = d_skip d)"
  using assms
proof (induction d rule: discard_torn.induct)
  case (1 d)
  show ?case
  proof (cases "d_skip d = 0")
    case True
    then show ?thesis using "1.prems" by (simp add: discard_torn.simps [of d])
  next
    case False
    define d1 where "d1 = snd (on_kernel (sys_read (min (d_skip d) 64)) d)"
    show ?thesis
    proof (cases "fst (on_kernel (sys_read (min (d_skip d) 64)) d)")
      case (Inl e)
      then have "r = Some \<lparr>ro_bytes = 0, ro_status = oss_io_status e\<rparr>" "d' = d1"
        using "1.prems"(3) False by (simp_all add: discard_torn.simps [of d] d1_def split_beta Let_def)
      moreover have "dsp_ok d1"
        using "1.prems"(1) by (rule dsp_ok_cong) (use Inl in \<open>simp_all add: d1_def sys_read_ring\<close>)
      ultimately show ?thesis using "1.prems"(2) Inl by (simp add: d1_def sys_read_ring)
    next
      case (Inr bs)
      have ring: "k_ring (d_kernel d1) = k_ring (d_kernel d) @ bs"
        using Inr by (simp add: d1_def sys_read_ring)
      have le: "length bs \<le> d_skip d" using sys_read_le [of "min (d_skip d) 64" "d_kernel d" bs] Inr by simp
      show ?thesis
      proof (cases bs)
        case Nil
        then have "r = Some \<lparr>ro_bytes = 0, ro_status = Disconnected\<rparr>" "d' = d1"
          using "1.prems"(3) False Inr by (simp_all add: discard_torn.simps [of d] d1_def split_beta Let_def)
        moreover have "dsp_ok d1"
          using "1.prems"(1) by (rule dsp_ok_cong) (use ring Nil in \<open>simp_all add: d1_def\<close>)
        ultimately show ?thesis using "1.prems"(2) ring Nil by (simp add: d1_def)
      next
        case (Cons b rest)
        let ?d2 = "d1\<lparr>d_skip := d_skip d1 - length (b # rest)\<rparr>"
        have sk: "d_skip d1 = d_skip d" by (simp add: d1_def)
        have "dsp_ok ?d2 \<and> d_state ?d2 = Running \<and> d_stride ?d2 = d_stride d"
          using "1.prems"(1,2) ring le Cons by (simp add: dsp_ok_def sk) (simp add: d1_def)
        moreover have "discard_torn ?d2 = (r, d')"
          using "1.prems"(3) False Inr Cons
          by (simp add: discard_torn.simps [of d] d1_def [symmetric] split_beta Let_def)
        ultimately have ih: "dsp_ok d' \<and> d_state d' = Running \<and> d_stride d' = d_stride d
            \<and> (r = None \<longrightarrow> d_skip d' = 0) \<and> (case r of None \<Rightarrow> True | Some out \<Rightarrow> ro_bytes out = 0)"
          and "\<exists>torn. k_ring (d_kernel d') = k_ring (d_kernel d1) @ torn
            \<and> length torn + d_skip d' = d_skip d - length bs"
          using "1.IH" [OF False refl refl prod.collapse Inr Cons, folded d1_def] Cons by (simp_all add: sk)
        then obtain torn where "k_ring (d_kernel d') = k_ring (d_kernel d) @ bs @ torn"
          "length (bs @ torn) + d_skip d' = d_skip d" using ring le by auto
        then show ?thesis using ih by blast
      qed
    qed
  qed
qed

lemma dsp_read_spec:
  assumes "dsp_ok d" "d_state d \<noteq> Closed" "dsp_read n d = ((out, data), d')"
  shows "dsp_ok d' \<and> d_state d' = Running \<and> d_stride d' = d_stride d \<and> length data \<le> n
    \<and> ro_bytes out \<le> length data \<and> d_stride d dvd ro_bytes out
    \<and> (\<exists>torn. k_ring (d_kernel d') = k_ring (d_kernel d) @ torn @ data
        \<and> (0 < ro_bytes out \<longrightarrow> d_stride d dvd length (k_ring (d_kernel d) @ torn))
        \<and> ro_bytes out = length data div d_stride d * d_stride d
        \<and> length torn \<le> d_skip d \<and> (data \<noteq> [] \<longrightarrow> length torn = d_skip d))"
proof -
  define d0 where "d0 = dsp_start d"
  have d0: "dsp_ok d0" "d_state d0 = Running" "d_fd d0" "d_stride d0 = d_stride d"
    "k_ring (d_kernel d0) = k_ring (d_kernel d)"
    using dsp_start_ok [OF assms(1,2)] by (auto simp: d0_def)
  have sk0: "d_skip d0 = d_skip d" by (simp add: d0_def dsp_start_def)
  have as: "assert_d (d_state d0 = Running \<and> d_fd d0) d0 = d0" using d0 by (simp add: assert_d_id)
  obtain r d1 where dt: "discard_torn d0 = (r, d1)" by fastforce
  obtain torn where d1: "dsp_ok d1" "d_state d1 = Running" "d_stride d1 = d_stride d"
    "r = None \<longrightarrow> d_skip d1 = 0" "case r of None \<Rightarrow> True | Some out \<Rightarrow> ro_bytes out = 0"
    "k_ring (d_kernel d1) = k_ring (d_kernel d) @ torn" "length torn + d_skip d1 = d_skip d"
    using discard_torn_spec [OF d0(1,2) dt] d0(4,5) sk0 by auto
  have eq: "dsp_read n d = (case (r, d1) of
      (Some out, d1) \<Rightarrow> ((out, []), d1)
    | (None, d1) \<Rightarrow>
       (let (r, d2) = on_kernel (sys_read n) d1
        in case r of
             Inl e \<Rightarrow> ((\<lparr>ro_bytes = 0, ro_status = oss_io_status e\<rparr>, []), d2)
           | Inr [] \<Rightarrow> ((\<lparr>ro_bytes = 0, ro_status = Disconnected\<rparr>, []), d2)
           | Inr (b # bs) \<Rightarrow>
               (let count = length (b # bs); rem = count mod max (d_stride d2) 1
                in if rem \<noteq> 0
                   then ((\<lparr>ro_bytes = count - rem, ro_status = Progress\<rparr>, b # bs),
                         d2\<lparr>d_skip := d_stride d2 - rem\<rparr>)
                   else ((\<lparr>ro_bytes = count, ro_status = Progress\<rparr>, b # bs), d2))))"
    unfolding dsp_read_def Let_def dsp_start_def [symmetric] d0_def [symmetric] as dt ..
  show ?thesis
  proof (cases r)
    case (Some o1)
    then have "out = o1" "data = []" "d' = d1" using assms(3) eq by auto
    then show ?thesis using d1 Some by auto
  next
    case None
    define d2 where "d2 = snd (on_kernel (sys_read n) d1)"
    have skip: "d_skip d1 = 0" using d1(4) None by simp
    then have tl: "length torn = d_skip d" using d1(7) by simp
    have whole: "d_stride d dvd length (k_ring (d_kernel d) @ torn)"
      using d1(1,2,3,6) skip by (simp add: dsp_ok_def)
    show ?thesis
    proof (cases "fst (on_kernel (sys_read n) d1)")
      case (Inl e)
      then have "ro_bytes out = 0" "data = []" "d' = d2"
        using assms(3) eq None by (simp_all add: d2_def split_beta Let_def) (auto simp: prod_eq_iff)
      moreover have "dsp_ok d2"
        using d1(1) by (rule dsp_ok_cong) (use Inl in \<open>simp_all add: d2_def sys_read_ring\<close>)
      ultimately show ?thesis using d1 Inl tl by (simp add: d2_def sys_read_ring)
    next
      case (Inr bs)
      have ring: "k_ring (d_kernel d2) = k_ring (d_kernel d) @ torn @ bs"
        using Inr d1(6) by (simp add: d2_def sys_read_ring)
      have le: "length bs \<le> n" using sys_read_le [of n "d_kernel d1" bs] Inr by simp
      have st: "d_state d2 = Running" "d_stride d2 = d_stride d" "d_skip d2 = 0" "d_fd d2" "\<not> d_panic d2"
        "0 < d_stride d"
        using d1(1,2,3) skip by (auto simp: d2_def dsp_ok_def)
      let ?rem = "length bs mod d_stride d"
      have mx: "max (d_stride d) 1 = d_stride d" "max (d_stride d) (Suc 0) = d_stride d" using st(6) by simp_all
      have lt: "?rem < d_stride d" using st(6) by simp
      have fl: "d_stride d dvd length bs - ?rem" by (rule dvd_floor_multiple)
      show ?thesis
      proof (cases "bs = [] \<or> ?rem = 0")
        case True
        then have out: "ro_bytes out = length bs" "data = bs" "d' = d2"
          using assms(3) eq None Inr st(2) mx
          by (auto simp: d2_def [symmetric] split_beta Let_def split: list.splits if_splits)
        have "d_stride d dvd length bs" using True by (auto simp: mod_eq_0_iff_dvd)
        then have "d_stride d dvd length (k_ring (d_kernel d) @ torn) + length bs"
          using whole by (rule dvd_add [rotated])
        then have "dsp_ok d2" using st ring by (simp add: dsp_ok_def add.assoc)
        moreover have "length bs div d_stride d * d_stride d = length bs"
          using \<open>d_stride d dvd length bs\<close> by simp
        ultimately show ?thesis using out st ring whole le tl \<open>d_stride d dvd length bs\<close> by auto
      next
        case False
        then have out: "ro_bytes out = length bs - ?rem" "data = bs"
            "d' = d2\<lparr>d_skip := d_stride d - ?rem\<rparr>"
          using assms(3) eq None Inr st(2) mx
          by (auto simp: d2_def [symmetric] split_beta Let_def split: list.splits if_splits)
        have e: "length bs + (d_stride d - ?rem) = (length bs - ?rem) + d_stride d" using lt by simp
        have "d_stride d dvd length bs + (d_stride d - ?rem)"
          unfolding e using fl by (intro dvd_add) simp_all
        then have "d_stride d dvd length (k_ring (d_kernel d) @ torn) + (length bs + (d_stride d - ?rem))"
          using whole dvd_add by blast
        then have "dsp_ok d'" using st ring out(3) by (simp add: dsp_ok_def add.assoc)
        moreover have "length bs - ?rem = length bs div d_stride d * d_stride d" by (rule minus_mod_eq_div_mult)
        ultimately show ?thesis using out st ring whole le fl tl by auto
      qed
    qed
  qed
qed

text \<open>What the kernel handed out during a read decides what the read returns: the rest of a torn frame is
  dropped, whole frames are the data, and the head of a torn frame stays hidden.\<close>

lemma dsp_read_given:
  assumes "dsp_ok d" "d_state d \<noteq> Closed" "dsp_read n d = ((out, data), d')"
  obtains given where "k_ring (d_kernel d') = k_ring (d_kernel d) @ given"
    "ro_bytes out = length (drop (d_skip d) given) div d_stride d * d_stride d"
    "take (ro_bytes out) data = take (ro_bytes out) (drop (d_skip d) given)"
    "length given \<le> d_skip d + n"
proof -
  obtain torn where t: "k_ring (d_kernel d') = k_ring (d_kernel d) @ torn @ data" "length data \<le> n"
    "ro_bytes out = length data div d_stride d * d_stride d"
    "length torn \<le> d_skip d" "data \<noteq> [] \<longrightarrow> length torn = d_skip d"
    using dsp_read_spec [OF assms] by blast
  have "drop (d_skip d) (torn @ data) = data" using t(4,5) by (cases "data = []") auto
  then show thesis using t by (intro that [of "torn @ data"]) auto
qed

lemma drain_backlog_spec:
  "dsp_ok d \<Longrightarrow> d_state d \<noteq> Closed \<Longrightarrow> d_state d = Running \<Longrightarrow>
    dsp_ok (snd (drain_backlog stride scratch backlog lost d))
    \<and> d_state (snd (drain_backlog stride scratch backlog lost d)) = Running
    \<and> d_stride (snd (drain_backlog stride scratch backlog lost d)) = d_stride d"
proof (induction stride scratch backlog lost d rule: drain_backlog.induct)
  case (1 stride scratch backlog lost d)
  let ?chunk = "(min backlog (as_u32 scratch) div max stride 1) * max stride 1"
  obtain out data d1 where rd: "dsp_read ?chunk d = ((out, data), d1)" by (metis prod.collapse)
  note sp = dsp_read_spec [OF "1.prems"(1,2) rd]
  show ?case
  proof (cases "backlog = 0 \<or> ?chunk = 0 \<or> ro_bytes out = 0")
    case True
    then show ?thesis using "1.prems" sp rd
      by (subst (1 2 3) drain_backlog.simps) (auto simp: Let_def)
  next
    case False
    define l' where "l' = (lost \<or> io_requires_rebuild (ro_status out))"
    have eq: "drain_backlog stride scratch backlog lost d
        = drain_backlog stride scratch (backlog - ro_bytes out) l' d1"
      using False rd by (subst drain_backlog.simps) (simp add: Let_def l'_def)
    show ?thesis unfolding eq
      using "1.IH" [OF _ refl _ rd [symmetric] refl refl] False sp l'_def by simp
  qed
qed

lemma dsp_suspend_facts:
  shows "dsp_ok d \<Longrightarrow> dsp_ok (snd (dsp_suspend d))"
    "d_stride (snd (dsp_suspend d)) = d_stride d"
    "d_state (snd (dsp_suspend d)) = Closed \<longleftrightarrow> d_state d = Closed"
    "fst (dsp_suspend d) \<Longrightarrow> d_state (snd (dsp_suspend d)) \<noteq> Running"
    "\<not> fst (dsp_suspend d) \<Longrightarrow> d_state (snd (dsp_suspend d)) = d_state d"
  by (auto simp: dsp_suspend_def dsp_ok_def split_beta Let_def set_trigger_ring)

lemma dsp_observations_id:
  assumes "dsp_ok d" "d_state d = Running"
  shows "snd (dsp_queued_bytes d) = snd (on_kernel input_space d)"
    "snd (dsp_overruns d) = snd (on_kernel get_error d)"
    "snd (dsp_buffer_layout d) = snd (on_kernel input_space d)"
  using assms by (simp_all add: dsp_queued_bytes_def dsp_overruns_def dsp_buffer_layout_def dsp_ok_def
      assert_d_id split_beta Let_def)

lemma dsp_observations_fields [simp]:
  "d_state (snd (dsp_queued_bytes d)) = d_state d" "d_stride (snd (dsp_queued_bytes d)) = d_stride d"
  "d_state (snd (dsp_overruns d)) = d_state d" "d_stride (snd (dsp_overruns d)) = d_stride d"
  "d_state (snd (dsp_buffer_layout d)) = d_state d" "d_stride (snd (dsp_buffer_layout d)) = d_stride d"
  by (simp_all add: dsp_queued_bytes_def dsp_overruns_def dsp_buffer_layout_def assert_d_def split_beta Let_def)

lemma dsp_observations_ok:
  assumes "dsp_ok d" "d_state d = Running"
  shows "dsp_ok (snd (dsp_queued_bytes d))" "dsp_ok (snd (dsp_overruns d))" "dsp_ok (snd (dsp_buffer_layout d))"
  unfolding dsp_observations_id [OF assms] by (auto intro: dsp_ok_cong [OF assms(1)])

lemma ready_for_reading_facts:
  assumes "dsp_ok d" "d_state d \<noteq> Closed"
  shows "dsp_ok (snd (ready_for_reading d)) \<and> d_state (snd (ready_for_reading d)) = Running
    \<and> d_stride (snd (ready_for_reading d)) = d_stride d \<and> \<not> d_needs_trigger (snd (ready_for_reading d))"
proof -
  let ?d0 = "dsp_start d"
  have d0: "dsp_ok ?d0" "d_state ?d0 = Running" "d_fd ?d0" "d_stride ?d0 = d_stride d"
    using dsp_start_ok [OF assms] by auto
  have as: "assert_d (d_state ?d0 = Running \<and> d_fd ?d0) ?d0 = ?d0" using d0 by (simp add: assert_d_id)
  have "snd (ready_for_reading d) = (let d1 = snd (on_kernel sys_poll_in ?d0)
      in if d_needs_trigger d1
         then snd (on_kernel (set_trigger PCM_ENABLE_INPUT) (d1\<lparr>d_needs_trigger := False\<rparr>)) else d1)"
    unfolding ready_for_reading_def Let_def dsp_start_def [symmetric] as by (simp add: split_beta)
  then show ?thesis using d0
    by (auto simp: Let_def set_trigger_ring intro: dsp_ok_cong [OF d0(1)])
qed

lemma set_small_fragments_facts:
  "dsp_ok d \<Longrightarrow> dsp_ok (set_small_fragments sc f r d)"
  "d_state (set_small_fragments sc f r d) = d_state d"
  "d_stride (set_small_fragments sc f r d) = d_stride d"
  by (auto simp: set_small_fragments_def assert_d_def dsp_ok_def split_beta Let_def)

lemma dsp_prime_facts:
  assumes "dsp_ok d" "d_state d \<noteq> Closed"
  shows "dsp_ok (snd (dsp_prime_buffer sc req p n d)) \<and> d_state (snd (dsp_prime_buffer sc req p n d)) = Running
    \<and> d_stride (snd (dsp_prime_buffer sc req p n d)) = d_stride d"
proof -
  define d0 where "d0 = (if \<not> dsp_is_running d
      then let (fragment, capacity) = capture_buffer_plan sc req (op_fragment_bytes p)
           in set_small_fragments sc fragment capacity d
      else d)"
  have d0: "dsp_ok d0" "d_state d0 \<noteq> Closed" "d_stride d0 = d_stride d"
    using assms by (auto simp: d0_def set_small_fragments_facts split_beta)
  obtain ready d1 where rd: "ready_for_reading d0 = (ready, d1)" by fastforce
  have d1: "dsp_ok d1" "d_state d1 = Running" "d_stride d1 = d_stride d"
    using ready_for_reading_facts [OF d0(1,2)] rd d0(3) by auto
  obtain layout d2 where bl: "dsp_buffer_layout d1 = (layout, d2)" by fastforce
  have d2: "dsp_ok d2" "d_state d2 = Running" "d_stride d2 = d_stride d"
    using dsp_observations_ok(3) [OF d1(1,2)] dsp_observations_fields(5,6) [of d1] bl d1 by auto
  define d3 where "d3 = snd (if ready
      then drain_backlog (cr_stride req) n (bl_queued_bytes layout) False d2 else (False, d2))"
  have d3: "dsp_ok d3" "d_state d3 = Running" "d_stride d3 = d_stride d"
    using drain_backlog_spec [of d2] d2 by (auto simp: d3_def)
  have "\<exists>b. snd (dsp_prime_buffer sc req p n d) = d3\<lparr>d_buffer := b\<rparr>"
    by (auto simp: dsp_prime_buffer_def d0_def [symmetric] rd bl d3_def Let_def split_beta)
  then show ?thesis using d3 by (auto intro: dsp_ok_cong [OF d3(1)])
qed

lemma recover_facts:
  "dsp_ok d \<Longrightarrow> dsp_ok (snd (recover_overrun n f d))"
  "d_stride (snd (recover_overrun n f d)) = d_stride d"
  "d_state (snd (recover_overrun n f d)) = Closed \<longleftrightarrow> d_state d = Closed"
  "fst (recover_overrun n f d) = None \<Longrightarrow> d_state (snd (recover_overrun n f d)) = d_state d"
  "fst (recover_overrun n f d) = Some True \<Longrightarrow> d_state (snd (recover_overrun n f d)) \<noteq> Running"
  unfolding recover_overrun_def Let_def split_beta
  by (auto simp: dsp_suspend_facts intro: dsp_ok_cong dest: dsp_suspend_facts(4) intro!: dsp_suspend_facts(1))

lemma dsp_retune_facts:
  "dsp_ok d \<Longrightarrow> dsp_ok (snd (dsp_retune_buffer req pr d))"
  "d_stride (snd (dsp_retune_buffer req pr d)) = d_stride d"
  "d_state (snd (dsp_retune_buffer req pr d)) = Closed \<longleftrightarrow> d_state d = Closed"
  "fst (dsp_retune_buffer req pr d) = CRReprime \<Longrightarrow> d_state (snd (dsp_retune_buffer req pr d)) \<noteq> Running"
  "fst (dsp_retune_buffer req pr d) \<noteq> CRReprime \<Longrightarrow> d_state (snd (dsp_retune_buffer req pr d)) = d_state d"
  by (auto simp: dsp_retune_buffer_def Let_def split_beta dsp_suspend_facts
      dest!: dsp_suspend_facts(4) split: if_splits)

section \<open>The OSS stream as a capture backend\<close>

definition oss_capture :: "bool \<Rightarrow> (dsp, oss_properties) capture_ops" where
  "oss_capture scaled =
     \<lparr>cb_is_closed = dsp_is_closed, cb_is_running = dsp_is_running, cb_suspend = dsp_suspend,
      cb_close = dsp_close, cb_prime_buffer = dsp_prime_buffer scaled,
      cb_retune_buffer = dsp_retune_buffer, cb_read = dsp_read, cb_queued_bytes = dsp_queued_bytes,
      cb_overruns = dsp_overruns, cb_recover_overrun = recover_overrun,
      cb_clear_overrun_observation = clear_overrun_observation\<rparr>"

lemma oss_capture_sel [simp]:
  "cb_is_closed (oss_capture sc) d \<longleftrightarrow> d_state d = Closed"
  "cb_is_running (oss_capture sc) d \<longleftrightarrow> d_state d = Running"
  "cb_suspend (oss_capture sc) = dsp_suspend" "cb_prime_buffer (oss_capture sc) = dsp_prime_buffer sc"
  "cb_retune_buffer (oss_capture sc) = dsp_retune_buffer" "cb_read (oss_capture sc) = dsp_read"
  "cb_queued_bytes (oss_capture sc) = dsp_queued_bytes" "cb_overruns (oss_capture sc) = dsp_overruns"
  "cb_recover_overrun (oss_capture sc) = recover_overrun"
  "cb_clear_overrun_observation (oss_capture sc) = clear_overrun_observation"
  by (simp_all add: oss_capture_def dsp_is_closed_def dsp_is_running_def)

lemma dsp_read_facts:
  assumes "dsp_ok d" "d_state d \<noteq> Closed"
  shows "dsp_ok (snd (dsp_read n d))" "d_state (snd (dsp_read n d)) = Running"
    "length (snd (fst (dsp_read n d))) \<le> n"
    "ro_bytes (fst (fst (dsp_read n d))) \<le> length (snd (fst (dsp_read n d)))"
    "d_stride d dvd ro_bytes (fst (fst (dsp_read n d)))"
    "d_stride (snd (dsp_read n d)) = d_stride d"
    "\<exists>torn. k_ring (d_kernel (snd (dsp_read n d))) = k_ring (d_kernel d) @ torn @ snd (fst (dsp_read n d))
       \<and> (0 < ro_bytes (fst (fst (dsp_read n d))) \<longrightarrow> d_stride d dvd length (k_ring (d_kernel d) @ torn))"
proof -
  have eq: "dsp_read n d = ((fst (fst (dsp_read n d)), snd (fst (dsp_read n d))), snd (dsp_read n d))" by simp
  note sp = dsp_read_spec [OF assms eq]
  show "dsp_ok (snd (dsp_read n d))" by (rule sp [THEN conjunct1])
  show "d_state (snd (dsp_read n d)) = Running" by (rule sp [THEN conjunct2, THEN conjunct1])
  show "d_stride (snd (dsp_read n d)) = d_stride d" by (rule sp [THEN conjunct2, THEN conjunct2, THEN conjunct1])
  note rest = sp [THEN conjunct2, THEN conjunct2, THEN conjunct2]
  show "length (snd (fst (dsp_read n d))) \<le> n" by (rule rest [THEN conjunct1])
  show "ro_bytes (fst (fst (dsp_read n d))) \<le> length (snd (fst (dsp_read n d)))"
    by (rule rest [THEN conjunct2, THEN conjunct1])
  show "d_stride d dvd ro_bytes (fst (fst (dsp_read n d)))" by (rule rest [THEN conjunct2, THEN conjunct2, THEN conjunct1])
  from rest [THEN conjunct2, THEN conjunct2, THEN conjunct2]
  show "\<exists>torn. k_ring (d_kernel (snd (dsp_read n d))) = k_ring (d_kernel d) @ torn @ snd (fst (dsp_read n d))
       \<and> (0 < ro_bytes (fst (fst (dsp_read n d))) \<longrightarrow> d_stride d dvd length (k_ring (d_kernel d) @ torn))"
    by (elim exE conjE) (intro exI conjI)
qed

lemma clear_facts [simp]:
  "dsp_ok (clear_overrun_observation d) = dsp_ok d"
  "d_state (clear_overrun_observation d) = d_state d" "d_stride (clear_overrun_observation d) = d_stride d"
  by (simp_all add: clear_overrun_observation_def)

interpretation oss_cap: capture_backend "oss_capture sc" dsp_ok d_stride "\<lambda>d. k_ring (d_kernel d)"
  for sc
proof (unfold_locales, goal_cases)
  case (2 d)
  then show ?case by (simp add: dsp_ok_def)
next
  case (9 d n)
  then obtain torn where t: "k_ring (d_kernel (snd (dsp_read n d))) = k_ring (d_kernel d) @ torn @ snd (fst (dsp_read n d))"
    "d_stride d dvd length (k_ring (d_kernel d) @ torn)"
    using dsp_read_facts(7) [of d n] by auto
  then show ?case
    by (intro exI [of _ torn] exI [of _ "drop (ro_bytes (fst (fst (dsp_read n d)))) (snd (fst (dsp_read n d)))"]) simp
next
  case (10 d req p n)
  then show ?case using dsp_prime_facts by simp
next
  case (11 d req p n)
  then show ?case using dsp_prime_facts by simp
next
  case (12 d req p n)
  then show ?case using dsp_prime_facts by simp
qed (simp_all add: dsp_read_facts dsp_retune_facts recover_facts dsp_suspend_facts dsp_observations_ok)

section \<open>Properties\<close>

text \<open>A running capture stream with 4-byte frames whose driver returns 6 bytes, then 5.\<close>

definition sample_dsp :: dsp where
  "sample_dsp = (dsp_new dq_unavailable
     \<lparr>k_ints = (\<lambda>_. []), k_spaces = (\<lambda>_. []), k_errors = [], k_writes = [],
      k_reads = [Inr [1, 2, 3, 4, 5, 6], Inr [7, 8], Inr [9, 10, 11, 12, 13]], k_polls = [], k_opens = [],
      k_rate_round = 25, k_ring = [], k_trace = []\<rparr>)
     \<lparr>d_fd := True, d_state := Running, d_stride := 4\<rparr>"

lemma sample_dsp_ok: "dsp_ok sample_dsp"
  by (simp add: sample_dsp_def dsp_ok_def dsp_new_def)

text \<open>C2. However the kernel cuts its reads, a capture read returns whole frames that stand
  contiguously in the device's byte stream and start at a frame boundary of it (a torn frame's head is
  hidden and its tail discarded), never more than the buffer holds, and no assertion fails.\<close>

theorem capture_reads_whole_frames:
  assumes "dsp_ok d" "\<not> dsp_is_closed d"
  shows "dsp_ok (snd (dsp_read n d)) \<and> dsp_is_running (snd (dsp_read n d))
    \<and> ro_bytes (fst (fst (dsp_read n d))) \<le> n
    \<and> d_stride d dvd ro_bytes (fst (fst (dsp_read n d)))
    \<and> (0 < ro_bytes (fst (fst (dsp_read n d))) \<longrightarrow> (\<exists>i. d_stride d dvd i \<and>
        take (ro_bytes (fst (fst (dsp_read n d)))) (snd (fst (dsp_read n d)))
          = take (ro_bytes (fst (fst (dsp_read n d)))) (drop i (k_ring (d_kernel (snd (dsp_read n d)))))))"
proof -
  have live: "d_state d \<noteq> Closed" using assms(2) by (simp add: dsp_is_closed_def)
  show ?thesis
    using oss_cap.read_whole_frames [of d _ n] oss_cap.read_ok [of d _ n] oss_cap.read_running [of d _ n]
      oss_cap.read_le [of d _ n] oss_cap.read_len [of d _ n] oss_cap.read_frames [of d _ n] assms(1) live
    by (auto simp: dsp_is_running_def)
qed

lemma sample_dsp_open: "\<not> dsp_is_closed sample_dsp"
  by (simp add: sample_dsp_def dsp_is_closed_def)

theorem capture_reads_whole_frames_witness:
  "dsp_ok (snd (dsp_read 8 sample_dsp)) \<and> dsp_is_running (snd (dsp_read 8 sample_dsp))
    \<and> ro_bytes (fst (fst (dsp_read 8 sample_dsp))) \<le> 8
    \<and> d_stride sample_dsp dvd ro_bytes (fst (fst (dsp_read 8 sample_dsp)))"
  using capture_reads_whole_frames [OF sample_dsp_ok sample_dsp_open] by blast

text \<open>Overruns re-prime the capture ring only after three observations in a row that find it
  pinned (within one delivery quantum of full); any other observation is ignored and starts the count
  again, and a recovery resets the count.\<close>

theorem overrun_recovery_needs_three_pinned_observations:
  assumes "cs_pinned_cycles (d_buffer d) = 0"
  shows "let b = d_buffer d;
             d1 = snd (recover_overrun n1 f1 d); d2 = snd (recover_overrun n2 f2 d1);
             d3 = snd (recover_overrun n3 f3 d2)
         in fst (recover_overrun n1 f1 d) = None \<and> fst (recover_overrun n2 f2 d1) = None
          \<and> (fst (recover_overrun n3 f3 d2) \<noteq> None
              \<longleftrightarrow> ring_pinned f1 b \<and> ring_pinned f2 b \<and> ring_pinned f3 b)
          \<and> (fst (recover_overrun n3 f3 d2) \<noteq> None \<or> \<not> ring_pinned f3 b \<longrightarrow>
              cs_pinned_cycles (d_buffer d3) = 0)"
proof -
  have pin: "ring_pinned f (b\<lparr>cs_pinned_cycles := c\<rparr>) = ring_pinned f b" for f b c
    by (simp add: ring_pinned_def split: option.split)
  have sus: "d_buffer (snd (dsp_suspend v)) = d_buffer v" for v
    by (simp add: dsp_suspend_def split_beta Let_def)
  have step: "recover_overrun m f v =
      (let c = (if ring_pinned f (d_buffer v) then sat_add32 (cs_pinned_cycles (d_buffer v)) 1 else 0);
           v1 = v\<lparr>d_buffer := (d_buffer v)\<lparr>cs_pinned_cycles := c\<rparr>\<rparr>
       in if c < 3 then (None, v1)
          else (Some (fst (dsp_suspend (v1\<lparr>d_buffer := (d_buffer v)\<lparr>cs_pinned_cycles := 0\<rparr>\<rparr>))),
                snd (dsp_suspend (v1\<lparr>d_buffer := (d_buffer v)\<lparr>cs_pinned_cycles := 0\<rparr>\<rparr>))))" for m f v
    by (simp add: recover_overrun_def Let_def split_beta)
  show ?thesis
    using assms by (simp add: step Let_def pin sat_add32_def sus)
qed

theorem overrun_recovery_needs_three_pinned_observations_witness:
  "let d1 = snd (recover_overrun 1 (Some 9) sample_dsp); d2 = snd (recover_overrun 1 (Some 9) d1);
       d3 = snd (recover_overrun 1 (Some 9) d2)
   in fst (recover_overrun 1 (Some 9) sample_dsp) = None \<and> fst (recover_overrun 1 (Some 9) d1) = None
    \<and> fst (recover_overrun 1 (Some 9) d2) \<noteq> None \<and> cs_pinned_cycles (d_buffer d3) = 0"
proof -
  have "cs_pinned_cycles (d_buffer sample_dsp) = 0" "ring_pinned (Some 9) (d_buffer sample_dsp)"
    by (simp_all add: sample_dsp_def dsp_new_def capture_buffer_default_def ring_pinned_def)
  then show ?thesis
    using overrun_recovery_needs_three_pinned_observations [of sample_dsp 1 "Some 9" 1 "Some 9" 1 "Some 9"]
    unfolding Let_def by blast
qed

end
