(* ===== verification/Dll.thy ===== *)
theory Dll
  imports Complex_Main Prelude
begin

text \<open>
  The rate-matching loop of crates/core/src/node/dll.rs: the delay-locked loop \<open>SpaDLL\<close> and the
  variance-adaptive bandwidth \<open>BwAdapt\<close>. The f64 arithmetic of the code is real arithmetic here:
  rounding is not modelled, and no statement below depends on the last bits of a float. Where the
  code could divide by a zero period the geometry commit has excluded it (\<open>commit_geometry\<close> refuses
  a zero period).
\<close>

section \<open>The delay-locked loop\<close>

abbreviation SPA_DLL_BW_MAX :: real where
  "SPA_DLL_BW_MAX \<equiv> 128 / 1000"

abbreviation SPA_DLL_BW_MIN :: real where
  "SPA_DLL_BW_MIN \<equiv> 16 / 1000"

record spa_dll =
  dll_bw :: real
  dll_z1 :: real
  dll_z2 :: real
  dll_z3 :: real
  dll_w0 :: real
  dll_w1 :: real
  dll_w2 :: real

definition dll_default :: spa_dll where
  "dll_default = \<lparr> dll_bw = 0, dll_z1 = 0, dll_z2 = 0, dll_z3 = 0, dll_w0 = 0, dll_w1 = 0, dll_w2 = 0 \<rparr>"

definition dll_init :: "spa_dll \<Rightarrow> spa_dll" where
  "dll_init dll = dll\<lparr> dll_bw := 0, dll_z1 := 0, dll_z2 := 0, dll_z3 := 0,
     dll_w0 := 0, dll_w1 := 0, dll_w2 := 0 \<rparr>"

definition set_bw :: "real \<Rightarrow> u32 \<Rightarrow> u32 \<Rightarrow> spa_dll \<Rightarrow> spa_dll" where
  "set_bw bw period rate dll =
     (let w = 2 * pi * bw * real period / real rate
      in dll\<lparr> dll_w0 := 1 - exp (- 20 * w), dll_w1 := w * (3 / 2) / real period,
              dll_w2 := w / (3 / 2), dll_bw := bw \<rparr>)"

definition dll_update :: "real \<Rightarrow> spa_dll \<Rightarrow> real \<times> spa_dll" where
  "dll_update err dll =
     (let z1 = dll_z1 dll + dll_w0 dll * (dll_w1 dll * err - dll_z1 dll);
          z2 = dll_z2 dll + dll_w0 dll * (z1 - dll_z2 dll);
          z3 = dll_z3 dll + dll_w2 dll * z2
      in (1 - (z2 + z3), dll\<lparr> dll_z1 := z1, dll_z2 := z2, dll_z3 := z3 \<rparr>))"

section \<open>The adaptive bandwidth\<close>

abbreviation ADAPTIVE_DLL_BW_MIN :: real where
  "ADAPTIVE_DLL_BW_MIN \<equiv> 1 / 1000"

abbreviation BW_PERIOD_NSEC :: u64 where
  "BW_PERIOD_NSEC \<equiv> 3000000000"

record bw_adapt =
  ba_err_avg :: real
  ba_err_var :: real
  ba_base_time :: u64
  ba_stride :: u32
  ba_granularity :: u32
  ba_period :: u32
  ba_rate :: u32
  ba_timing_seen :: bool

definition bw_adapt_default :: bw_adapt where
  "bw_adapt_default = \<lparr> ba_err_avg = 0, ba_err_var = 0, ba_base_time = 0, ba_stride = 0,
     ba_granularity = 0, ba_period = 0, ba_rate = 0, ba_timing_seen = False \<rparr>"

definition bw_reset :: "bw_adapt \<Rightarrow> bw_adapt" where
  "bw_reset b = b\<lparr> ba_err_avg := 0, ba_err_var := 0, ba_base_time := 0, ba_timing_seen := False \<rparr>"

definition bw_configure :: "u32 \<Rightarrow> u32 \<Rightarrow> u32 \<Rightarrow> u32 \<Rightarrow> bw_adapt \<Rightarrow> bw_adapt" where
  "bw_configure stride granularity period rate b =
     b\<lparr> ba_stride := stride, ba_granularity := granularity, ba_period := period, ba_rate := rate,
        ba_timing_seen := False \<rparr>"

definition bw_cap :: "u32 \<Rightarrow> u32 \<Rightarrow> real" where
  "bw_cap period granularity =
     (if granularity = 0 \<or> period = 0 then SPA_DLL_BW_MAX
      else clamp (SPA_DLL_BW_MAX * real period / real granularity) SPA_DLL_BW_MIN SPA_DLL_BW_MAX)"

definition bw_update :: "real \<Rightarrow> u64 \<Rightarrow> bool \<Rightarrow> bw_adapt \<times> spa_dll \<Rightarrow> bw_adapt \<times> spa_dll" where
  "bw_update err0 now delivery_quantized bd =
     (let (b, dll) = bd; granularity = ba_granularity b; period = ba_period b; rate = ba_rate b
      in if rate = 0 then (b, dll)
      else let bw_max = bw_cap period granularity
      in if dll_bw dll = 0
         then (b\<lparr> ba_err_avg := 0, ba_err_var := 0, ba_base_time := now, ba_timing_seen := False \<rparr>,
               set_bw bw_max period rate dll)
      else let base = (if ba_base_time b = 0 then now else ba_base_time b);
               stride = real (max (ba_stride b) 1);
               err = err0 / stride;
               wdw = real rate / real period;
               avg = (ba_err_avg b * wdw + (err - ba_err_avg b)) / (wdw + 1);
               var = (ba_err_var b * wdw + (err - ba_err_avg b) * (err - avg)) / (wdw + 1);
               seen = (ba_timing_seen b \<or> \<not> delivery_quantized);
               b1 = b\<lparr> ba_err_avg := avg, ba_err_var := var, ba_base_time := base,
                        ba_timing_seen := seen \<rparr>
      in if now - base > BW_PERIOD_NSEC
         then let step = real granularity / stride;
                  v = (if \<not> seen then max (\<bar>var\<bar> - step * step / 24) 0 else \<bar>var\<bar>);
                  bw = (\<bar>avg\<bar> + sqrt v) / 1000
              in (b1\<lparr> ba_base_time := now, ba_timing_seen := False \<rparr>,
                  set_bw (clamp bw ADAPTIVE_DLL_BW_MIN bw_max) period rate dll)
         else (b1, dll))"

definition update_fill :: "real \<Rightarrow> u64 \<Rightarrow> bw_adapt \<times> spa_dll \<Rightarrow> bw_adapt \<times> spa_dll" where
  "update_fill err now bd = bw_update err now True bd"

definition update_timing :: "real \<Rightarrow> u64 \<Rightarrow> bw_adapt \<times> spa_dll \<Rightarrow> bw_adapt \<times> spa_dll" where
  "update_timing err now bd = bw_update err now False bd"

section \<open>Lemmas\<close>

lemma set_bw_bw [simp]: "dll_bw (set_bw bw period rate dll) = bw"
  by (simp add: set_bw_def Let_def)

lemma dll_update_bw [simp]: "dll_bw (snd (dll_update err dll)) = dll_bw dll"
  by (simp add: dll_update_def Let_def)

lemma dll_init_idle: "dll_init dll = dll_default"
  by (cases dll) (simp add: dll_init_def dll_default_def)

lemma dll_default_bw [simp]: "dll_bw dll_default = 0"
  by (simp add: dll_default_def)

lemma dll_update_idle: "dll_update err dll_default = (1, dll_default)"
  by (simp add: dll_update_def dll_default_def)

lemma bw_cap_bounds: "SPA_DLL_BW_MIN \<le> bw_cap period granularity \<and> bw_cap period granularity \<le> SPA_DLL_BW_MAX"
  by (auto simp: bw_cap_def clamp_def)

text \<open>The bandwidth of a loop that serves the geometry \<open>b\<close>: idle, or between the adaptive floor
  and the geometry's cap.\<close>

definition bw_in_range :: "bw_adapt \<Rightarrow> spa_dll \<Rightarrow> bool" where
  "bw_in_range b dll \<longleftrightarrow> dll_bw dll = 0 \<or>
     (ADAPTIVE_DLL_BW_MIN \<le> dll_bw dll \<and> dll_bw dll \<le> bw_cap (ba_period b) (ba_granularity b))"

lemma bw_update_geometry:
  "bw_update err now q (b, dll) = (b', dll') \<Longrightarrow>
     ba_period b' = ba_period b \<and> ba_granularity b' = ba_granularity b \<and> ba_rate b' = ba_rate b
     \<and> ba_stride b' = ba_stride b"
  by (auto simp: bw_update_def Let_def split: if_splits)

lemma bw_update_bw:
  "dll_bw (snd (bw_update err now q (b, dll))) = dll_bw dll
   \<or> dll_bw (snd (bw_update err now q (b, dll))) = bw_cap (ba_period b) (ba_granularity b)
   \<or> (\<exists>x. dll_bw (snd (bw_update err now q (b, dll)))
        = clamp x ADAPTIVE_DLL_BW_MIN (bw_cap (ba_period b) (ba_granularity b)))"
  by (simp add: bw_update_def Let_def) blast

lemma bw_update_in_range:
  assumes "bw_in_range b dll" "bw_update err now q (b, dll) = (b', dll')"
  shows "bw_in_range b' dll'"
proof -
  have cap: "SPA_DLL_BW_MIN \<le> bw_cap (ba_period b) (ba_granularity b)" using bw_cap_bounds by blast
  have cl: "ADAPTIVE_DLL_BW_MIN \<le> clamp x ADAPTIVE_DLL_BW_MIN (bw_cap (ba_period b) (ba_granularity b))
    \<and> clamp x ADAPTIVE_DLL_BW_MIN (bw_cap (ba_period b) (ba_granularity b)) \<le> bw_cap (ba_period b) (ba_granularity b)" for x
    by (rule clamp_bounds) (use cap in simp)
  have "bw_in_range b dll'"
    using bw_update_bw [of err now q b dll] assms cl cap unfolding bw_in_range_def by fastforce
  then show ?thesis using bw_update_geometry [OF assms(2)] by (simp add: bw_in_range_def)
qed

text \<open>One servo cycle as the node runs it: the correction of this cycle, then the adaptation.\<close>

definition servo_step :: "real \<times> u64 \<times> bool \<Rightarrow> bw_adapt \<times> spa_dll \<Rightarrow> real \<times> (bw_adapt \<times> spa_dll)" where
  "servo_step obs bd =
     (case obs of (err, now, quantized) \<Rightarrow>
        let (corr, dll) = dll_update err (snd bd)
        in (corr, if quantized then update_fill err now (fst bd, dll) else update_timing err now (fst bd, dll)))"

fun servo_run :: "(real \<times> u64 \<times> bool) list \<Rightarrow> bw_adapt \<times> spa_dll \<Rightarrow> bw_adapt \<times> spa_dll" where
  "servo_run [] bd = bd"
| "servo_run (o1 # os) bd = servo_run os (snd (servo_step o1 bd))"

lemma servo_step_in_range:
  "bw_in_range (fst bd) (snd bd) \<Longrightarrow>
     bw_in_range (fst (snd (servo_step o1 bd))) (snd (snd (servo_step o1 bd)))
     \<and> ba_period (fst (snd (servo_step o1 bd))) = ba_period (fst bd)
     \<and> ba_granularity (fst (snd (servo_step o1 bd))) = ba_granularity (fst bd)"
proof -
  assume r: "bw_in_range (fst bd) (snd bd)"
  obtain err now q where o1: "o1 = (err, now, q)" by (cases o1) auto
  have r1: "bw_in_range (fst bd) (snd (dll_update err (snd bd)))"
    using r by (simp add: bw_in_range_def)
  let ?r = "bw_update err now q (fst bd, snd (dll_update err (snd bd)))"
  have eq: "snd (servo_step o1 bd) = ?r"
    by (auto simp: servo_step_def o1 update_fill_def update_timing_def case_prod_beta Let_def)
  show ?thesis unfolding eq
    using bw_update_in_range [OF r1, of err now q "fst ?r" "snd ?r"]
      bw_update_geometry [of err now q "fst bd" _ "fst ?r" "snd ?r"] by simp
qed

lemma servo_run_in_range:
  "bw_in_range (fst bd) (snd bd) \<Longrightarrow> bw_in_range (fst (servo_run os bd)) (snd (servo_run os bd))
     \<and> ba_period (fst (servo_run os bd)) = ba_period (fst bd)
     \<and> ba_granularity (fst (servo_run os bd)) = ba_granularity (fst bd)"
proof (induction os arbitrary: bd)
  case Nil
  then show ?case by simp
next
  case (Cons a os)
  show ?case using Cons.IH [of "snd (servo_step a bd)"] servo_step_in_range [OF Cons.prems, of a] by simp
qed

text \<open>C11. However long the servo runs after a relock, the loop bandwidth it steers with is never
  above the stability cap of the committed geometry (nor above \<open>SPA_DLL_BW_MAX\<close>), and once the
  loop is warm never below the adaptive floor.\<close>

theorem servo_bandwidth_stays_in_range:
  "let (b, dll) = servo_run obs (bw_configure stride granularity period rate (bw_reset b0), dll_init dll0)
   in dll_bw dll \<le> bw_cap period granularity \<and> dll_bw dll \<le> SPA_DLL_BW_MAX
      \<and> (dll_bw dll = 0 \<or> ADAPTIVE_DLL_BW_MIN \<le> dll_bw dll)"
proof -
  let ?s = "(bw_configure stride granularity period rate (bw_reset b0), dll_init dll0)"
  have "bw_in_range (fst ?s) (snd ?s)" by (simp add: bw_in_range_def dll_init_def)
  from servo_run_in_range [OF this, of obs] bw_cap_bounds [of period granularity]
  show ?thesis by (auto simp: bw_in_range_def bw_configure_def case_prod_beta Let_def)
qed

text \<open>A relock makes the next cycle a true no-op: whatever error is fed, the correction is
  exactly 1, and the cycle after it starts from zeroed integrators at the cold-start gain.\<close>

theorem relock_cycle_is_neutral:
  "let (corr, b, dll) = servo_step (err, now, quantized) (bw_reset b0, dll_init dll0)
   in corr = 1 \<and> dll = (if ba_rate b0 = 0 then dll_default
        else set_bw (bw_cap (ba_period b0) (ba_granularity b0)) (ba_period b0) (ba_rate b0) dll_default)"
  by (simp add: servo_step_def dll_init_idle dll_update_idle update_fill_def update_timing_def
      bw_update_def bw_reset_def Let_def)

lemma set_bw_gains:
  assumes "0 < bw" "0 < period" "0 < rate"
  shows "0 < dll_w0 (set_bw bw period rate dll)" "dll_w0 (set_bw bw period rate dll) < 1"
    "0 < dll_w1 (set_bw bw period rate dll)" "0 < dll_w2 (set_bw bw period rate dll)"
  using assms by (auto simp: set_bw_def Let_def)

text \<open>The servo steers towards the target: the first correction of a freshly locked loop is
  below 1 for a fill above the target (the device is behind the graph), above 1 for a fill below
  it, and exactly 1 at the target.\<close>

theorem first_correction_opposes_the_error:
  assumes "0 < period" "0 < rate"
  shows "let corr = fst (dll_update err (set_bw (bw_cap period granularity) period rate dll_default))
    in (corr < 1 \<longleftrightarrow> 0 < err) \<and> (1 < corr \<longleftrightarrow> err < 0)"
proof -
  let ?d = "set_bw (bw_cap period granularity) period rate dll_default"
  have bw: "0 < bw_cap period granularity" using bw_cap_bounds [of period granularity] by simp
  note g = set_bw_gains [OF bw assms, of dll_default]
  define k where "k = dll_w0 ?d * (dll_w0 ?d * dll_w1 ?d) * (1 + dll_w2 ?d)"
  have k: "0 < k" unfolding k_def using g by simp
  have z: "dll_z1 ?d = 0" "dll_z2 ?d = 0" "dll_z3 ?d = 0"
    by (simp_all add: set_bw_def dll_default_def Let_def)
  have eq: "fst (dll_update err ?d) = 1 - k * err"
    by (simp add: dll_update_def Let_def z k_def algebra_simps)
  have "(1 - k * err < 1) = (0 < err)" using k by (simp add: zero_less_mult_iff)
  moreover have "(1 < 1 - k * err) = (err < 0)" using k by (simp add: mult_less_0_iff)
  ultimately show ?thesis unfolding eq Let_def by simp
qed

theorem first_correction_opposes_the_error_witness:
  "fst (dll_update 64 (set_bw (bw_cap 8192 1024) 8192 384000 dll_default)) < 1"
  using first_correction_opposes_the_error [of 8192 384000 64 1024] by (simp add: Let_def)

end
