(* ===== verification/NodeState.thy ===== *)
theory NodeState
  imports Dll Backend
begin

text \<open>
  The data-loop state of one node (crates/core/src/node/state.rs, the types of node/rebuild/worker.rs
  it holds, and the small helpers of node/timing.rs). Host memory the node reads and writes in place
  is part of the state: an io area is an option (a null area is \<open>None\<close>), a port's buffers are the list of
  host buffers with their data blocks. \<open>MAX_PORTS\<close> is 1, so the array of ports is one record. The type
  parameters are the backend's device \<open>'d\<close>, properties \<open>'p\<close> and wake driver \<open>'w\<close>, and the direction's
  fields of the port \<open>'x\<close> and of the data state \<open>'s\<close>. The bit values of the SPA flags are those of the
  SPA headers.
\<close>

section \<open>Host structures\<close>

abbreviation SPA_STATUS_OK :: "32 word" where "SPA_STATUS_OK \<equiv> 0"
abbreviation SPA_STATUS_NEED_DATA :: "32 word" where "SPA_STATUS_NEED_DATA \<equiv> 1"
abbreviation SPA_STATUS_HAVE_DATA :: "32 word" where "SPA_STATUS_HAVE_DATA \<equiv> 2"
abbreviation SPA_ID_INVALID :: u32 where "SPA_ID_INVALID \<equiv> 4294967295"

record spa_chunk =
  ck_offset :: u32
  ck_size :: u32
  ck_stride :: int
  ck_flags :: int

text \<open>A data entry: its type is MemPtr or not, and its pointers may be null. The block behind
  \<open>data\<close> has \<open>maxsize\<close> bytes by the host's contract (\<open>host_block\<close> below).\<close>

record spa_data =
  sd_memptr :: bool
  sd_maxsize :: u32
  sd_data :: "byte list option"
  sd_chunk :: "spa_chunk option"

record spa_buffer =
  sb_n_datas :: u32
  sb_data_0 :: "spa_data option"

record spa_io_buffers =
  io_status :: "32 word"
  io_buffer_id :: u32

record spa_io_rate_match =
  rm_delay :: u32
  rm_size :: u32
  rm_rate :: real
  rm_active :: bool

record spa_fraction =
  fr_num :: u32
  fr_denom :: u32

record spa_io_clock =
  clk_freewheel :: bool
  clk_xrun_recover :: bool
  clk_id :: u32
  clk_name :: "byte list"
  clk_nsec :: u64
  clk_rate :: spa_fraction
  clk_position :: u64
  clk_duration :: u64
  clk_delay :: int
  clk_rate_diff :: real
  clk_next_nsec :: u64
  clk_target_rate :: spa_fraction
  clk_target_duration :: u64

record spa_io_position =
  pos_clock :: spa_io_clock

section \<open>Rate-limited warnings\<close>

record rate_limit =
  rl_last :: u64
  rl_suppressed :: u32

definition rate_limit_new :: rate_limit where
  "rate_limit_new = \<lparr> rl_last = 0, rl_suppressed = 0 \<rparr>"

definition rate_limit_check :: "u64 \<Rightarrow> rate_limit \<Rightarrow> u32 option \<times> rate_limit" where
  "rate_limit_check now r =
     (if now - rl_last r \<ge> 1000000000
      then (Some (rl_suppressed r), \<lparr> rl_last = now, rl_suppressed = 0 \<rparr>)
      else (None, r\<lparr> rl_suppressed := (rl_suppressed r + 1) mod 4294967296 \<rparr>))"

section \<open>Geometry in bytes\<close>

definition device_period_bytes :: "u64 \<Rightarrow> u32 \<Rightarrow> u32 \<Rightarrow> u32 \<Rightarrow> u32" where
  "device_period_bytes target_duration device_rate graph_rate stride =
     (if graph_rate = 0 then 0
      else min (sat_mul64 (sat_mul64 target_duration device_rate div graph_rate) stride) u32_max)"

definition ns_to_bytes :: "u64 \<Rightarrow> u32 \<Rightarrow> u32 \<Rightarrow> u32" where
  "ns_to_bytes ns rate stride =
     min (sat_mul128 (sat_mul128 ns rate) stride div 1000000000) u32_max"

section \<open>The port\<close>

record pending_xrun =
  px_trigger_us :: u64
  px_delay_us :: u64
  px_quality :: "observation_quality option"

record ('d, 'x) port =
  p_config :: "stream_config option"
  p_buffers :: "spa_buffer option list"
  p_io :: "spa_io_buffers option"
  p_rate_match :: "spa_io_rate_match option"
  p_dsp :: 'd
  p_dll :: spa_dll
  p_setup_period :: u32
  p_bw_adapt :: bw_adapt
  p_delivery_quantum_bytes :: u32
  p_rebuild_pending :: bool
  p_generation :: u64
  p_stream_token :: stream_token
  p_was_matching :: bool
  p_warn_limit :: rate_limit
  p_pending_xrun :: "pending_xrun option"
  p_stream_wake :: "stream_wake option"
  p_rebuild_required :: bool
  p_xrun_tracker :: xrun_tracker
  p_ext :: 'x

definition pending_xrun_of :: "u64 \<Rightarrow> xrun_delta \<Rightarrow> stream_config option \<Rightarrow> pending_xrun" where
  "pending_xrun_of trigger_us delta config =
     \<lparr> px_trigger_us = trigger_us,
       px_delay_us = (case config of None \<Rightarrow> 0 | Some c \<Rightarrow>
          let rate = max (sc_rate c) 1
          in case xd_lost_frames delta of
               Some frames \<Rightarrow> min (sat_mul128 frames 1000000 div rate) u64_max
             | None \<Rightarrow>
                 case xd_lost_bytes delta of
                   Some bytes \<Rightarrow> min (sat_mul128 bytes 1000000 div (rate * max (sc_stride c) 1)) u64_max
                 | None \<Rightarrow> 0),
       px_quality = xd_quality delta \<rparr>"

definition stride_rate :: "('d, 'x) port \<Rightarrow> (u32 \<times> u32) option" where
  "stride_rate port = map_option (\<lambda>c. (max (sc_stride c) 1, sc_rate c)) (p_config port)"

definition stream_identity_of :: "('d, 'x) port \<Rightarrow> stream_identity" where
  "stream_identity_of port = \<lparr> si_token = p_stream_token port, si_generation = p_generation port \<rparr>"

definition wake_queue_fill :: "('d, 'x) port \<Rightarrow> u32 option" where
  "wake_queue_fill port =
     (case p_stream_wake port of
        None \<Rightarrow> None
      | Some event \<Rightarrow>
          if sw_stream event \<noteq> stream_identity_of port then None
          else map_option (\<lambda>queue. min (qo_fill_bytes queue) u32_max) (sw_queue event))"

definition take_wake_xruns :: "('d, 'x) port \<Rightarrow> xrun_delta option \<times> ('d, 'x) port" where
  "take_wake_xruns port =
     (case p_stream_wake port of
        None \<Rightarrow> (None, port)
      | Some event \<Rightarrow>
          if sw_stream event \<noteq> stream_identity_of port then (None, port)
          else case sw_xruns event of
                 None \<Rightarrow> (None, port)
               | Some observation \<Rightarrow>
                   let (delta, tracker) = observe (p_xrun_tracker port) observation
                   in (Some delta, port\<lparr> p_xrun_tracker := tracker \<rparr>))"

definition take_polled_xruns :: "xrun_observation \<Rightarrow> ('d, 'x) port \<Rightarrow> xrun_delta \<times> ('d, 'x) port" where
  "take_polled_xruns observation port =
     (let (delta, tracker) = observe (p_xrun_tracker port) observation
      in (delta, port\<lparr> p_xrun_tracker := tracker \<rparr>))"

definition reset_stream_epoch :: "('d, 'x) port \<Rightarrow> ('d, 'x) port" where
  "reset_stream_epoch port =
     port\<lparr> p_stream_wake := None, p_rebuild_required := False,
           p_xrun_tracker := tracker_reset (p_xrun_tracker port) \<rparr>"

definition latch_rebuild_required :: "io_status \<Rightarrow> ('d, 'x) port \<Rightarrow> ('d, 'x) port" where
  "latch_rebuild_required status port =
     (if io_requires_rebuild status then port\<lparr> p_rebuild_required := True \<rparr> else port)"

section \<open>The data block of one cycle\<close>

text \<open>\<open>DataBlock\<close>: the validated bytes and chunk of one host buffer.\<close>

record data_block =
  db_data :: "byte list"
  db_chunk :: spa_chunk
  db_maxsize :: u32

abbreviation isize_max :: nat where
  "isize_max \<equiv> 9223372036854775807"

definition valid_data_block :: "('d, 'x) port \<Rightarrow> u32 \<Rightarrow> data_block option" where
  "valid_data_block port buffer_id =
     (if buffer_id \<ge> length (p_buffers port) then None
      else case p_buffers port ! buffer_id of
        None \<Rightarrow> None
      | Some buffer \<Rightarrow>
          if sb_n_datas buffer \<noteq> 1 then None
          else case sb_data_0 buffer of
            None \<Rightarrow> None
          | Some d \<Rightarrow>
              case (sd_data d, sd_chunk d) of
                (Some bytes, Some chunk) \<Rightarrow>
                  if sd_memptr d \<and> sd_maxsize d > 0 \<and> sd_maxsize d \<le> isize_max
                  then Some \<lparr> db_data = bytes, db_chunk = chunk, db_maxsize = sd_maxsize d \<rparr>
                  else None
              | _ \<Rightarrow> None)"

definition slice_offset :: "data_block \<Rightarrow> u32" where
  "slice_offset b = ck_offset (db_chunk b) mod db_maxsize b"

definition slice_size :: "data_block \<Rightarrow> u32" where
  "slice_size b = min (ck_size (db_chunk b)) (db_maxsize b - slice_offset b)"

definition input_slice :: "data_block \<Rightarrow> byte list" where
  "input_slice b = take (slice_size b) (drop (slice_offset b) (db_data b))"

definition output_slice :: "data_block \<Rightarrow> byte list" where
  "output_slice b = take (db_maxsize b) (db_data b)"

text \<open>\<open>publish\<close> panics on a size beyond the block: \<open>None\<close>. \<open>as i32\<close> of the stride wraps.\<close>

definition as_i32 :: "u32 \<Rightarrow> int" where
  "as_i32 n = (if n mod 4294967296 < 2147483648 then int (n mod 4294967296)
               else int (n mod 4294967296) - 4294967296)"

definition publish :: "u32 \<Rightarrow> u32 \<Rightarrow> data_block \<Rightarrow> data_block option" where
  "publish sz stride b =
     (if sz \<le> db_maxsize b
      then Some (b\<lparr> db_chunk := \<lparr> ck_offset = 0, ck_size = sz, ck_stride = as_i32 stride, ck_flags = 0 \<rparr> \<rparr>)
      else None)"

section \<open>Rebuild messages\<close>

record ('d, 'p) rebuild_request =
  rq_port_idx :: nat
  rq_generation :: u64
  rq_config :: stream_config
  rq_path :: string
  rq_properties :: 'p
  rq_retried :: bool
  rq_retire_first :: "'d option"

datatype ('d, 'p) swap_outcome =
    Installed 'd stream_config applied_buffer_geometry
  | Aborted
  | RetireAndRetry "('d, 'p) rebuild_request" 'd
  | SwapFailed 'd

record ('d, 'p) device_swap =
  dv_port_idx :: nat
  dv_generation :: u64
  dv_outcome :: "('d, 'p) swap_outcome"

datatype ('d, 'p) rebuild_work =
    Rebuild "('d, 'p) rebuild_request"
  | RetireDevice 'd
  | RetireSwap "('d, 'p) device_swap"

text \<open>\<open>NodeShared\<close> with its mailbox as one atomic cell: theory \<open>Mailbox\<close> models the compare-and-swap
  protocol of the code and shows that each of its interleavings is a history of this cell.\<close>

record ('d, 'p) node_shared =
  sh_alive :: bool
  sh_started :: bool
  sh_generation :: u64
  sh_slot :: "('d, 'p) device_swap option"

record ('d, 'p) work_slot =
  ws_value :: "('d, 'p) rebuild_work option"
  ws_closed :: bool
  ws_stopping :: bool
  ws_active :: bool

datatype main_event = FormatLost u64

section \<open>The data state\<close>

text \<open>Fields beyond those of \<open>DataState\<close>: \<open>ds_clock_reads\<close> and \<open>ds_timer_expired\<close> are the answers the
  host's clock and timer descriptor will give, \<open>ds_panic\<close> records that an \<open>expect\<close> or assertion of the
  code has failed. \<open>ds_timer_fd\<close> is \<open>None\<close> when the node has no SPA timer, and otherwise the value and
  mode (absolute or relative) the timer was last set to; 0 is a parked timer.\<close>

record ('d, 'p, 'x, 's, 'w) data_state =
  ds_clock_reads :: "u64 option list"
  ds_clock :: "spa_io_clock option"
  ds_position :: "spa_io_position option"
  ds_clock_name :: "byte list"
  ds_main_loop :: bool
  ds_stream_path :: string
  ds_timer_fd :: "(u64 \<times> bool) option"
  ds_timer_expired :: "bool list"
  ds_wake_driver :: "'w option"
  ds_wake_failed_stream :: "stream_identity option"
  ds_ready_dispatching :: bool
  ds_next_time :: u64
  ds_callbacks :: "nat option"
  ds_port :: "('d, 'x) port"
  ds_properties :: 'p
  ds_shared :: "('d, 'p) node_shared"
  ds_rebuild_work :: "('d, 'p) work_slot"
  ds_deferred_work :: "('d, 'p) rebuild_work option"
  ds_rebuild_takeover :: bool
  ds_publication_epoch :: u64
  ds_pending_main_event :: "main_event option"
  ds_started :: bool
  ds_following :: bool
  ds_ext :: 's
  ds_panic :: bool

definition node_is_follower :: "('d, 'p, 'x, 's, 'w) data_state \<Rightarrow> bool" where
  "node_is_follower s =
     (case (ds_position s, ds_clock s) of
        (Some p, Some c) \<Rightarrow> clk_id (pos_clock p) \<noteq> clk_id c
      | _ \<Rightarrow> False)"

text \<open>\<open>try_now_ns\<close> through the host's clock: the host answers the reads in turn; a host whose script
  has ended fails the read.\<close>

definition try_now_ns :: "('d, 'p, 'x, 's, 'w) data_state \<Rightarrow> u64 option \<times> ('d, 'p, 'x, 's, 'w) data_state" where
  "try_now_ns s =
     (case ds_clock_reads s of
        [] \<Rightarrow> (None, s)
      | r # rs \<Rightarrow> (r, s\<lparr> ds_clock_reads := rs \<rparr>))"

abbreviation upd_port :: "(('d, 'x) port \<Rightarrow> ('d, 'x) port) \<Rightarrow> ('d, 'p, 'x, 's, 'w) data_state \<Rightarrow> ('d, 'p, 'x, 's, 'w) data_state" where
  "upd_port f s \<equiv> s\<lparr> ds_port := f (ds_port s) \<rparr>"

text \<open>\<open>NodeCallbacks\<close>: a copied host table behind the version gate. \<open>version_ok\<close> of the SPA layer asks
  for at least the version this build was compiled against.\<close>

definition callbacks_set :: "u32 \<Rightarrow> (u32 \<times> nat) option \<Rightarrow> ('d, 'p, 'x, 's, 'w) data_state \<Rightarrow> ('d, 'p, 'x, 's, 'w) data_state" where
  "callbacks_set built_version funcs s =
     s\<lparr> ds_callbacks := (case funcs of
          None \<Rightarrow> None
        | Some (version, table) \<Rightarrow> if version \<ge> built_version then Some table else None) \<rparr>"

section \<open>Lemmas\<close>

lemma pending_xrun_delay_bounded: "px_delay_us (pending_xrun_of t d c) \<le> u64_max"
  by (auto simp: pending_xrun_of_def Let_def split: option.splits)

lemma device_period_bytes_le [simp, intro]: "device_period_bytes d dr gr st \<le> u32_max"
  by (simp add: device_period_bytes_def)

lemma ns_to_bytes_le [simp, intro]: "ns_to_bytes n r s \<le> u32_max"
  by (simp add: ns_to_bytes_def)

lemma ns_to_bytes_mono: "n \<le> n' \<Longrightarrow> ns_to_bytes n r s \<le> ns_to_bytes n' r s"
  unfolding ns_to_bytes_def sat_mul128_def
  by (intro min.mono div_le_mono mult_le_mono1) auto

lemma stride_rate_pos: "stride_rate port = Some (stride, rate) \<Longrightarrow> 0 < stride"
  by (auto simp: stride_rate_def)

text \<open>The host's contract on a registered block: \<open>maxsize\<close> bytes behind the data pointer.\<close>

definition host_block :: "data_block \<Rightarrow> bool" where
  "host_block b \<longleftrightarrow> db_maxsize b \<le> length (db_data b)"

definition host_buffers :: "spa_buffer option list \<Rightarrow> bool" where
  "host_buffers bs \<longleftrightarrow> (\<forall>b d bytes. Some b \<in> set bs \<and> sb_data_0 b = Some d \<and> sd_data d = Some bytes
     \<longrightarrow> length bytes = sd_maxsize d)"

lemma valid_data_block_maxsize:
  "valid_data_block port i = Some b \<Longrightarrow> 0 < db_maxsize b"
  by (auto simp: valid_data_block_def split: if_splits option.splits)

lemma valid_data_block_host:
  assumes "host_buffers (p_buffers port)" "valid_data_block port i = Some b"
  shows "length (db_data b) = db_maxsize b"
proof -
  obtain buf d bytes ck where *: "i < length (p_buffers port)" "p_buffers port ! i = Some buf"
    "sb_data_0 buf = Some d" "sd_data d = Some bytes"
    "b = \<lparr> db_data = bytes, db_chunk = ck, db_maxsize = sd_maxsize d \<rparr>"
    using assms(2) by (auto simp: valid_data_block_def split: if_splits option.splits)
  have "Some buf \<in> set (p_buffers port)" using *(1,2) nth_mem by fastforce
  with * assms(1) show ?thesis unfolding host_buffers_def by auto
qed

lemma slice_in_block:
  assumes "0 < db_maxsize b"
  shows "slice_offset b + slice_size b \<le> db_maxsize b"
proof -
  have "slice_offset b < db_maxsize b" using assms by (simp add: slice_offset_def)
  then show ?thesis by (simp add: slice_size_def)
qed

lemma input_slice_length:
  "host_block b \<Longrightarrow> 0 < db_maxsize b \<Longrightarrow> length (input_slice b) = slice_size b"
  using slice_in_block [of b] by (auto simp: input_slice_def host_block_def)

definition sample_port :: "(unit, unit) port" where
  "sample_port = \<lparr> p_config = None, p_buffers = [], p_io = None, p_rate_match = None, p_dsp = (),
     p_dll = dll_default, p_setup_period = 0, p_bw_adapt = bw_adapt_default, p_delivery_quantum_bytes = 0,
     p_rebuild_pending = False, p_generation = 3, p_stream_token = 1, p_was_matching = False,
     p_warn_limit = rate_limit_new, p_pending_xrun = None, p_stream_wake = None, p_rebuild_required = False,
     p_xrun_tracker = tracker_default, p_ext = () \<rparr>"

definition sample_block :: spa_buffer where
  "sample_block = \<lparr> sb_n_datas = 1, sb_data_0 = Some \<lparr> sd_memptr = True, sd_maxsize = 4,
     sd_data = Some [1, 2, 3, 4], sd_chunk = Some \<lparr> ck_offset = 3, ck_size = 9, ck_stride = 2, ck_flags = 0 \<rparr> \<rparr> \<rparr>"

text \<open>Whatever offset, size, buffer id and block layout the peer announces, the bytes the sink
  reads from a cycle's buffer are exactly the announced range of the registered block: the offset wraps
  at the block size, the length is the announced size cut at the end of the block, every byte exists,
  and a block is admitted only from a registered, non-null, single-entry, non-empty MemPtr buffer.\<close>

theorem input_slice_stays_inside_the_block:
  assumes "host_buffers (p_buffers port)" "valid_data_block port buffer_id = Some b"
  shows "buffer_id < length (p_buffers port) \<and> 0 < db_maxsize b
    \<and> slice_offset b + length (input_slice b) \<le> length (db_data b)
    \<and> length (input_slice b) = min (ck_size (db_chunk b)) (db_maxsize b - ck_offset (db_chunk b) mod db_maxsize b)
    \<and> input_slice b = take (length (input_slice b)) (drop (ck_offset (db_chunk b) mod db_maxsize b) (db_data b))"
proof -
  have m: "0 < db_maxsize b" using assms(2) by (rule valid_data_block_maxsize)
  have h: "length (db_data b) = db_maxsize b" by (rule valid_data_block_host [OF assms])
  have len: "length (input_slice b) = slice_size b"
    using input_slice_length [of b] m h by (simp add: host_block_def)
  have i: "buffer_id < length (p_buffers port)"
    using assms(2) by (auto simp: valid_data_block_def split: if_splits)
  show ?thesis
    using i m slice_in_block [OF m] h len by (simp add: input_slice_def slice_size_def slice_offset_def)
qed

theorem input_slice_stays_inside_the_block_witness:
  "let port = sample_port\<lparr> p_buffers := [Some sample_block] \<rparr>;
       b = \<lparr> db_data = [1, 2, 3, 4], db_chunk = \<lparr> ck_offset = 3, ck_size = 9, ck_stride = 2, ck_flags = 0 \<rparr>, db_maxsize = 4 \<rparr>
   in valid_data_block port 0 = Some b \<and> input_slice b = [4] \<and> slice_offset b + length (input_slice b) \<le> length (db_data b)"
proof -
  define port where "port = sample_port\<lparr> p_buffers := [Some sample_block] \<rparr>"
  define b where "b = \<lparr> db_data = [1, 2, 3, 4], db_chunk = \<lparr> ck_offset = 3, ck_size = 9, ck_stride = 2, ck_flags = 0 \<rparr>, db_maxsize = 4 \<rparr>"
  have h: "host_buffers (p_buffers port)" by (simp add: port_def host_buffers_def sample_block_def)
  have v: "valid_data_block port 0 = Some b" by (simp add: port_def b_def valid_data_block_def sample_block_def)
  show ?thesis unfolding port_def [symmetric] b_def [symmetric] Let_def
    using input_slice_stays_inside_the_block [OF h v] v
    by (simp add: b_def input_slice_def slice_size_def slice_offset_def)
qed

lemma publish_block:
  "publish sz stride b = Some b' \<Longrightarrow>
     input_slice b' = take sz (db_data b) \<and> db_maxsize b' = db_maxsize b \<and> db_data b' = db_data b"
  by (auto simp: publish_def input_slice_def slice_size_def slice_offset_def split: if_splits)

lemma wake_queue_fill_cong:
  "p_stream_wake port' = p_stream_wake port \<Longrightarrow> p_stream_token port' = p_stream_token port \<Longrightarrow>
   p_generation port' = p_generation port \<Longrightarrow> wake_queue_fill port' = wake_queue_fill port"
  by (simp add: wake_queue_fill_def stream_identity_of_def cong: option.case_cong)

end
