(* ===== verification/Direction.thy ===== *)
theory Direction
  imports NodeState
begin

text \<open>
  What the shared node code calls: the operations of a wake driver (trait \<open>WakeDriver\<close> of
  crates/core/src/backend/mod.rs) over a state \<open>'w\<close>, and the \<open>Direction\<close> hooks of
  crates/core/src/node/direction.rs, as records of functions. The sink and the source provide a
  direction each. \<open>process_ports\<close>, which itself calls the shared code, is not a field: the cycle of
  theory \<open>NodeControl\<close> takes it as an argument.
\<close>

section \<open>The interfaces the shared node code calls\<close>

record ('d, 'w) wake_ops =
  wk_next_event :: "'w \<Rightarrow> (int + wake_event option) \<times> 'w"
  wk_unregister_stream :: "'w \<Rightarrow> (int + unit) \<times> 'w"
  wk_arm_timer :: "u64 \<Rightarrow> 'w \<Rightarrow> (int + unit) \<times> 'w"
  wk_register_wake :: "'d \<Rightarrow> 'w \<Rightarrow> stream_identity \<Rightarrow> wake_buffer_state \<Rightarrow> (int + unit) \<times> 'd \<times> 'w"

record configure_outcome =
  co_actual_config :: stream_config
  co_adjusted :: u32
  co_applied_buffer :: applied_buffer_geometry
  co_quantum_cap_frames :: "u32 option"

record ('d, 'p, 'x, 's, 'w) direction =
  dn_wake :: "('d, 'w) wake_ops"
  dn_is_running :: "'d \<Rightarrow> bool"
  dn_new :: "string \<Rightarrow> 'd"
  dn_try_open_configure :: "stream_config \<Rightarrow> 'p \<Rightarrow> 'd \<Rightarrow> (int + configure_outcome) \<times> 'd"
  dn_servo_ready :: "('d, 'x) port \<Rightarrow> bool"
  dn_servo_fill :: "('d, 'x) port \<Rightarrow> u32 \<times> ('d, 'x) port"
  dn_servo_hold :: "('d, 'x) port \<Rightarrow> bool"
  dn_servo_err :: "('d, 'x) port \<Rightarrow> u32 \<Rightarrow> real"
  dn_wake_buffer_state :: "('d, 'x) port \<Rightarrow> wake_buffer_state"
  dn_on_device_swapped :: "('d, 'p, 'x, 's, 'w) data_state \<Rightarrow> ('d, 'p, 'x, 's, 'w) data_state"
  dn_on_buffers_swapped :: "('d, 'p, 'x, 's, 'w) data_state \<Rightarrow> ('d, 'p, 'x, 's, 'w) data_state"
  dn_on_start_loop :: "('d, 'p, 'x, 's, 'w) data_state \<Rightarrow> ('d, 'p, 'x, 's, 'w) data_state"
  dn_on_pause_loop :: "('d, 'p, 'x, 's, 'w) data_state \<Rightarrow> ('d, 'p, 'x, 's, 'w) data_state"
  dn_on_suspend_loop :: "('d, 'p, 'x, 's, 'w) data_state \<Rightarrow> ('d, 'p, 'x, 's, 'w) data_state"
  dn_on_role_flip :: "('d, 'p, 'x, 's, 'w) data_state \<Rightarrow> ('d, 'p, 'x, 's, 'w) data_state"

end
