(* ===== verification/OssConfig.thy ===== *)
theory OssConfig
  imports OssPlayback OssCapture Direction "HOL-Library.Multiset"
begin

text \<open>
  Capabilities and configuration of an OSS stream (crates/freebsd-oss/src/freebsd\_oss/backend.rs):
  the table between native and SPA sample formats, the channel layouts the backend advertises and the
  translation of a channel map into the kernel's order word, and the two functions that open and
  configure a stream and report what the driver applied. The delivery quantum a configured stream
  reads back is a sysctl answer and is the argument \<open>dq\<close>; the diagnostics of a failed open are left
  out.
\<close>

section \<open>Sample formats\<close>

definition FORMAT_MAP :: "(32 word \<times> audio_format) list" where
  "FORMAT_MAP =
     [(AFMT_S32_LE, FMT_S32_LE), (AFMT_S32_BE, FMT_S32_BE), (AFMT_F32_LE, FMT_F32_LE),
      (AFMT_F32_BE, FMT_F32_BE), (AFMT_S24_LE, FMT_S24_LE), (AFMT_S24_BE, FMT_S24_BE),
      (AFMT_S16_LE, FMT_S16_LE), (AFMT_S16_BE, FMT_S16_BE), (AFMT_U8, FMT_U8), (AFMT_S8, FMT_S8),
      (AFMT_U16_LE, FMT_U16_LE), (AFMT_U16_BE, FMT_U16_BE), (AFMT_U24_LE, FMT_U24_LE),
      (AFMT_U24_BE, FMT_U24_BE), (AFMT_U32_LE, FMT_U32_LE), (AFMT_U32_BE, FMT_U32_BE),
      (AFMT_MU_LAW, FMT_ULAW), (AFMT_A_LAW, FMT_ALAW)]"

definition all_formats :: "audio_format list" where
  "all_formats = map snd FORMAT_MAP"

definition formats_from_native_mask :: "32 word \<Rightarrow> bool \<Rightarrow> audio_format list" where
  "formats_from_native_mask m convertless =
     (let native = map snd (filter (\<lambda>(fmt, _). m AND fmt \<noteq> 0) FORMAT_MAP)
      in if native \<noteq> [] \<or> convertless then native else all_formats)"

definition native_format :: "audio_format \<Rightarrow> u32 option" where
  "native_format spa_format =
     map_option (unat \<circ> fst) (List.find (\<lambda>(_, spa). spa = spa_format) FORMAT_MAP)"

section \<open>Channel layouts\<close>

text \<open>The positions of spa/param/audio/raw.h the backend names.\<close>

abbreviation (input) CHANNEL_MONO :: u32 where "CHANNEL_MONO \<equiv> 2"
abbreviation (input) CHANNEL_FL :: u32 where "CHANNEL_FL \<equiv> 3"
abbreviation (input) CHANNEL_FR :: u32 where "CHANNEL_FR \<equiv> 4"
abbreviation (input) CHANNEL_FC :: u32 where "CHANNEL_FC \<equiv> 5"
abbreviation (input) CHANNEL_LFE :: u32 where "CHANNEL_LFE \<equiv> 6"
abbreviation (input) CHANNEL_SL :: u32 where "CHANNEL_SL \<equiv> 7"
abbreviation (input) CHANNEL_SR :: u32 where "CHANNEL_SR \<equiv> 8"
abbreviation (input) CHANNEL_RL :: u32 where "CHANNEL_RL \<equiv> 12"
abbreviation (input) CHANNEL_RR :: u32 where "CHANNEL_RR \<equiv> 13"
abbreviation (input) AUDIO_FLAG_UNPOSITIONED :: u32 where "AUDIO_FLAG_UNPOSITIONED \<equiv> 1"

definition channel_positions :: "u32 \<Rightarrow> u32 list option" where
  "channel_positions channels =
     (if channels = 1 then Some [CHANNEL_MONO]
      else if channels = 2 then Some [CHANNEL_FL, CHANNEL_FR]
      else if channels = 4 then Some [CHANNEL_FL, CHANNEL_FR, CHANNEL_RL, CHANNEL_RR]
      else if channels = 6 then Some [CHANNEL_FL, CHANNEL_FR, CHANNEL_RL, CHANNEL_RR, CHANNEL_FC, CHANNEL_LFE]
      else if channels = 8 then Some [CHANNEL_FL, CHANNEL_FR, CHANNEL_RL, CHANNEL_RR, CHANNEL_FC, CHANNEL_LFE,
                                      CHANNEL_SL, CHANNEL_SR]
      else None)"

definition channel_counts :: "u32 \<Rightarrow> u32 \<Rightarrow> u32 list" where
  "channel_counts min_channels max_channels =
     (let counts0 = filter (\<lambda>channels. channels \<ge> min_channels \<and> channels \<le> max_channels) [2, 4, 6, 8, 1];
          counts1 = (if max_channels \<notin> set counts0 then counts0 @ [max_channels] else counts0)
      in if min_channels \<le> 2 \<and> max_channels \<ge> 2
         then (let counts2 = 2 # filter (\<lambda>channels. channels \<noteq> 2) counts1
               in if last counts2 \<noteq> 2 then counts2 @ [2] else counts2)
         else counts1)"

definition channel_layouts :: "u32 \<Rightarrow> u32 \<Rightarrow> channel_set" where
  "channel_layouts min_channels max_channels =
     DiscreteLayouts (map (\<lambda>channels. \<lparr>ly_channels = channels, ly_positions = channel_positions channels\<rparr>)
                        (channel_counts min_channels max_channels))"

definition fallback_caps :: "oss_kernel \<Rightarrow> stream_caps" where
  "fallback_caps k =
     \<lparr>caps_configurations =
        [\<lparr>cfg_formats = all_formats, cfg_channels = channel_layouts 1 2, cfg_rates = RateRange 8000 192000,
          cfg_preferred_rate = None, cfg_rate_tolerance = feeder_rate_round k, cfg_conversion = ConvKernel,
          cfg_flags = \<lparr>cf_layout_reorder = True, cf_opaque_layout = True\<rparr>\<rparr>],
      caps_preferred = 0\<rparr>"

section \<open>The kernel's channel order word\<close>

datatype channel_map_error = Unsupported | ConvertlessReorder

definition default_channel_order :: "usize \<Rightarrow> u64 option" where
  "default_channel_order channels =
     (if channels = 1 then Some 0x1
      else if channels = 2 then Some 0x21
      else if channels = 4 then Some 0x8721
      else if channels = 5 then Some 0x38721
      else if channels = 6 then Some 0x438721
      else if channels = 8 then Some 0x65438721
      else None)"

definition channel_id :: "u32 \<Rightarrow> u64 option" where
  "channel_id position =
     (if position = CHANNEL_MONO \<or> position = CHANNEL_FL then Some 1
      else if position = CHANNEL_FR then Some 2
      else if position = CHANNEL_FC then Some 3
      else if position = CHANNEL_LFE then Some 4
      else if position = CHANNEL_SL then Some 5
      else if position = CHANNEL_SR then Some 6
      else if position = CHANNEL_RL then Some 7
      else if position = CHANNEL_RR then Some 8
      else None)"

text \<open>The loop over the positions, from \<open>index\<close> on, with the word and the set of identifiers so
  far. Each identifier is at most 8 and there are at most eight of them, so neither the 64-bit word nor
  the 16-bit set overflows.\<close>

fun order_loop :: "u32 list \<Rightarrow> nat \<Rightarrow> u64 \<Rightarrow> nat \<Rightarrow> channel_map_error + (u64 \<times> nat)" where
  "order_loop [] index order seen = Inr (order, seen)"
| "order_loop (position # ps) index order seen =
     (case channel_id position of
        None \<Rightarrow> Inl Unsupported
      | Some i \<Rightarrow>
          if seen AND push_bit i 1 \<noteq> 0 then Inl Unsupported
          else order_loop ps (Suc index) (order OR push_bit (index * 4) i) (seen OR push_bit i 1))"

definition default_set :: "u64 \<Rightarrow> nat \<Rightarrow> nat" where
  "default_set word n =
     fold (\<lambda>index acc. acc OR push_bit (drop_bit (index * 4) word AND 15) 1) [0..<n] 0"

definition native_channel_order :: "u32 \<Rightarrow> u32 list \<Rightarrow> channel_map_error + u64 option" where
  "native_channel_order flags positions =
     (if flags AND AUDIO_FLAG_UNPOSITIONED \<noteq> 0 then Inr None
      else if \<not> list_ex (\<lambda>position. channel_id position \<noteq> None) positions
      then (if list_all opaque_position positions then Inr None else Inl Unsupported)
      else if length positions > 8 then Inl Unsupported
      else case order_loop positions 0 0 0 of
             Inl e \<Rightarrow> Inl e
           | Inr (order, seen) \<Rightarrow>
               (case default_channel_order (length positions) of
                  None \<Rightarrow> Inl Unsupported
                | Some dflt \<Rightarrow>
                    if seen \<noteq> default_set dflt (length positions) then Inl Unsupported
                    else Inr (if order \<noteq> dflt then Some order else None)))"

definition validate_config :: "stream_caps \<Rightarrow> stream_config \<Rightarrow> channel_map_error + unit" where
  "validate_config caps config =
     (case native_channel_order (sc_flags config) (sc_positions config) of
        Inl e \<Rightarrow> Inl e
      | Inr channel_order \<Rightarrow>
          if conversion_for caps (sc_format config) (sc_channels config) (sc_rate config) = Some ConvNone
             \<and> channel_order \<noteq> None
          then Inl ConvertlessReorder else Inr ())"

section \<open>What the driver applied\<close>

definition stream_config_from_native :: "stream_config \<Rightarrow> applied_native_config \<Rightarrow> stream_config option" where
  "stream_config_from_native requested applied =
     (case List.find (\<lambda>(native, _). unat native = an_format applied) FORMAT_MAP of
        None \<Rightarrow> None
      | Some (_, spa_format) \<Rightarrow>
          (case bytes_per_sample spa_format of
             None \<Rightarrow> None
           | Some bytes \<Rightarrow>
               (let actual = requested\<lparr>sc_format := spa_format, sc_rate := an_rate applied,
                      sc_channels := an_channels applied, sc_stride := sat_mul32 bytes (an_channels applied)\<rparr>;
                    aux = map (\<lambda>index. CHANNEL_AUX0 + index) [0..<an_channels applied]
                in Some
                  (if an_channels applied \<noteq> sc_channels requested
                   then (if sc_flags requested AND AUDIO_FLAG_UNPOSITIONED \<noteq> 0
                         then actual\<lparr>sc_positions := aux\<rparr>
                         else case channel_positions (an_channels applied) of
                                Some positions \<Rightarrow> actual\<lparr>sc_positions := positions\<rparr>
                              | None \<Rightarrow> actual\<lparr>sc_flags := sc_flags requested OR AUDIO_FLAG_UNPOSITIONED,
                                               sc_positions := aux\<rparr>)
                   else actual))))"

definition outcome_quantum_bytes :: "stream_config \<Rightarrow> delivery_quantum \<Rightarrow> u32 option" where
  "outcome_quantum_bytes actual delivery =
     (if dq_frames delivery = 0 \<or> dq_rate delivery = 0 then None
      else let frames = div_ceil (sat_mul64 (dq_frames delivery) (sc_rate actual)) (dq_rate delivery)
           in Some (min (sat_mul64 frames (sc_stride actual)) u32_max))"

definition outcome_of :: "bool \<Rightarrow> stream_config \<Rightarrow> applied_native_config \<Rightarrow> delivery_quantum
    \<Rightarrow> int + configure_outcome" where
  "outcome_of scaled requested applied delivery =
     (case stream_config_from_native requested applied of
        None \<Rightarrow> Inl (- ENOTSUP_code)
      | Some actual \<Rightarrow>
          Inr \<lparr>co_actual_config = actual, co_adjusted = adjustment_between requested actual,
               co_applied_buffer =
                 \<lparr>ab_capacity_bytes = None, ab_quantum_bytes = outcome_quantum_bytes actual delivery,
                  ab_delivery = delivery\<rparr>,
               co_quantum_cap_frames =
                 advertised_quantum_cap_frames scaled (sc_stride actual) (sc_rate actual)\<rparr>)"

section \<open>Opening and configuring a stream\<close>

definition configure_playback ::
    "bool \<Rightarrow> delivery_quantum \<Rightarrow> stream_config \<Rightarrow> dsp_writer \<Rightarrow> (int + configure_outcome) \<times> dsp_writer" where
  "configure_playback scaled dq config w =
     (case native_format (sc_format config) of
        None \<Rightarrow> (Inl (- ENOTSUP_code), w)
      | Some fmt \<Rightarrow>
     (case native_channel_order (sc_flags config) (sc_positions config) of
        Inl _ \<Rightarrow> (Inl (- errno_code EINVAL), w)
      | Inr channel_order \<Rightarrow>
     (case writer_open w of
        (Inl e, w1) \<Rightarrow> (Inl (- errno_code e), w1)
      | (Inr _, w1) \<Rightarrow>
     (case writer_configure fmt (sc_channels config) (sc_rate config) channel_order w1 of
        (Inl e, w2) \<Rightarrow> (Inl (- errno_code e), writer_close w2)
      | (Inr applied, w2) \<Rightarrow>
          (let w3 = w2\<lparr>w_delivery_quantum := dq\<rparr>
           in case outcome_of scaled config applied (w_delivery_quantum w3) of
                Inr outcome \<Rightarrow>
                  (Inr outcome, set_silence_pattern (silence_for_config (co_actual_config outcome)) w3)
              | Inl e \<Rightarrow> (Inl e, writer_close w3))))))"

definition configure_capture ::
    "bool \<Rightarrow> delivery_quantum \<Rightarrow> stream_config \<Rightarrow> oss_properties \<Rightarrow> dsp \<Rightarrow> (int + configure_outcome) \<times> dsp" where
  "configure_capture scaled dq config properties d =
     (case native_format (sc_format config) of
        None \<Rightarrow> (Inl (- ENOTSUP_code), d)
      | Some fmt \<Rightarrow>
     (case native_channel_order (sc_flags config) (sc_positions config) of
        Inl _ \<Rightarrow> (Inl (- errno_code EINVAL), d)
      | Inr channel_order \<Rightarrow>
     (case dsp_open d of
        (Inl e, d1) \<Rightarrow> (Inl (- errno_code e), d1)
      | (Inr _, d1) \<Rightarrow>
     (case dsp_configure fmt (sc_channels config) (sc_rate config) channel_order d1 of
        (Inl e, d2) \<Rightarrow> (Inl (- errno_code e), dsp_close d2)
      | (Inr applied, d2) \<Rightarrow>
          (let d3 = set_small_fragments scaled (op_fragment_bytes properties) MIN_BUFFER_BYTES
                      (d2\<lparr>d_delivery_quantum := dq\<rparr>)
           in case outcome_of scaled config applied (d_delivery_quantum d3) of
                Inr outcome \<Rightarrow> (Inr outcome, d3)
              | Inl e \<Rightarrow> (Inl e, dsp_close d3))))))"

section \<open>Facts about the order word\<close>

text \<open>The word with the identifiers \<open>ids\<close> in its nibbles, lowest first, and the positions of a default
  order as identifiers.\<close>

fun order_word :: "nat list \<Rightarrow> u64" where
  "order_word [] = 0"
| "order_word (i # ids) = i + 16 * order_word ids"

definition default_ids :: "nat \<Rightarrow> nat list" where
  "default_ids n = take n (if n = 5 then [1, 2, 7, 8, 3] else [1, 2, 7, 8, 3, 4, 5, 6])"

definition position_ids :: "u32 list \<Rightarrow> nat list" where
  "position_ids ps = map (\<lambda>p. the (channel_id p)) ps"

definition named :: "u32 list \<Rightarrow> bool" where
  "named ps \<longleftrightarrow> (\<forall>p \<in> set ps. channel_id p \<noteq> None)"

lemma named_Cons [simp]: "named (p # ps) \<longleftrightarrow> channel_id p \<noteq> None \<and> named ps"
  by (simp add: named_def)

lemma channel_id_less: "channel_id p = Some i \<Longrightarrow> i < 16"
  by (auto simp: channel_id_def split: if_splits)

lemma place_nibble:
  fixes word i :: nat
  assumes "word < 16 ^ index"
  shows "word OR push_bit (index * 4) i = word + 16 ^ index * i"
proof -
  have pow: "(16::nat) ^ index = 2 ^ (index * 4)" by (simp add: power_mult mult.commute [of index])
  have tb: "take_bit (index * 4) word = word" using assms unfolding pow by (rule take_bit_nat_eq_self)
  have low: "bit word n \<Longrightarrow> n < index * 4" for n
    using bit_take_bit_iff [of "index * 4" word n] unfolding tb by simp
  have "word AND push_bit (index * 4) i = 0"
    by (rule bit_eqI) (auto simp: bit_and_iff bit_push_bit_iff dest: low)
  then have "word + push_bit (index * 4) i = word OR push_bit (index * 4) i" by (rule disjunctive_add_eq_or)
  then show ?thesis by (simp add: push_bit_eq_mult pow mult.commute)
qed

lemma bit_mark: "bit (seen OR push_bit i (1::nat)) j \<longleftrightarrow> bit seen j \<or> i = j"
  by (auto simp: bit_simps)

lemma order_loop_sound:
  "order_loop ps index word seen = Inr (order, seen') \<Longrightarrow> word < 16 ^ index \<Longrightarrow>
     named ps \<and> distinct (position_ids ps) \<and> (\<forall>i \<in> set (position_ids ps). \<not> bit seen i)
   \<and> order = word + 16 ^ index * order_word (position_ids ps)
   \<and> (\<forall>i. bit seen' i \<longleftrightarrow> bit seen i \<or> i \<in> set (position_ids ps))"
proof (induction ps index word seen rule: order_loop.induct)
  case (1 index word seen)
  then show ?case by (simp add: named_def position_ids_def)
next
  case (2 p ps index word seen)
  obtain i where i: "channel_id p = Some i" "\<not> bit seen i"
    and rest: "order_loop ps (Suc index) (word OR push_bit (index * 4) i) (seen OR push_bit i 1) = Inr (order, seen')"
    using 2(2) by (auto simp: push_bit_of_1 and_exp_eq_0_iff_not_bit split: option.splits if_splits)
  note place = place_nibble [OF 2(3), of i]
  have "word + 16 ^ index * i < 16 ^ Suc index"
  proof -
    have "16 ^ index * i \<le> 16 ^ index * 15" using channel_id_less [OF i(1)] by simp
    from add_less_le_mono [OF 2(3) this] show ?thesis by simp
  qed
  then have ih: "named ps \<and> distinct (position_ids ps) \<and> (\<forall>j \<in> set (position_ids ps). \<not> bit (seen OR push_bit i 1) j)
   \<and> order = word + 16 ^ index * i + 16 ^ Suc index * order_word (position_ids ps)
   \<and> (\<forall>j. bit seen' j \<longleftrightarrow> bit (seen OR push_bit i 1) j \<or> j \<in> set (position_ids ps))"
    using 2(1) [OF i(1) _ ] i rest place by (simp add: push_bit_of_1 and_exp_eq_0_iff_not_bit)
  have ids: "position_ids (p # ps) = i # position_ids ps" using i(1) by (simp add: position_ids_def)
  have b: "bit (seen OR push_bit i 1) j \<longleftrightarrow> bit seen j \<or> i = j" for j
    by (rule bit_mark)
  show ?case using ih i unfolding ids b by (auto simp: algebra_simps)
qed

lemma order_loop_complete:
  "named ps \<Longrightarrow> distinct (position_ids ps) \<Longrightarrow> (\<forall>i \<in> set (position_ids ps). \<not> bit seen i) \<Longrightarrow>
     \<exists>r. order_loop ps index word seen = Inr r"
proof (induction ps index word seen rule: order_loop.induct)
  case (1 index word seen)
  then show ?case by simp
next
  case (2 p ps index word seen)
  obtain i where i: "channel_id p = Some i" using 2(2) by auto
  have ids: "position_ids (p # ps) = i # position_ids ps" using i by (simp add: position_ids_def)
  have b: "bit (seen OR push_bit i 1) j \<longleftrightarrow> bit seen j \<or> i = j" for j
    by (rule bit_mark)
  have ns: "seen AND push_bit i 1 = 0" using 2(4) ids by (simp add: push_bit_of_1 and_exp_eq_0_iff_not_bit)
  have "\<exists>r. order_loop ps (Suc index) (word OR push_bit (index * 4) i) (seen OR push_bit i 1) = Inr r"
    using 2(1) [OF i] ns 2(2-4) unfolding ids b by auto
  then show ?case using i ns by simp
qed

lemma default_order_facts:
  assumes "default_channel_order n = Some d"
  shows "d = order_word (default_ids n) \<and> length (default_ids n) = n \<and> distinct (default_ids n)
    \<and> (\<forall>i \<in> set (default_ids n). i < 16) \<and> (\<forall>i. bit (default_set d n) i \<longleftrightarrow> i \<in> set (default_ids n))"
proof -
  have n: "n = 1 \<or> n = 2 \<or> n = 4 \<or> n = 5 \<or> n = 6 \<or> n = 8"
    using assms by (auto simp: default_channel_order_def split: if_splits)
  have nibble: "drop_bit (index * 4) word AND 15 = word div 16 ^ index mod 16" for index word :: nat
  proof -
    have m: "(15::nat) = mask 4" by (simp add: mask_eq_exp_minus_1)
    have "v AND 15 = v mod 16" for v :: nat
      unfolding m take_bit_eq_mask [symmetric] by (simp add: take_bit_eq_mod)
    then show ?thesis by (simp add: drop_bit_eq_div power_mult mult.commute [of index])
  qed
  have set: "bit (fold (\<lambda>i acc. acc OR push_bit (f i) (1::nat)) is a) j \<longleftrightarrow> bit a j \<or> j \<in> set (map f is)"
    for f :: "nat \<Rightarrow> nat" and "is" a j
    by (induction "is" arbitrary: a) (auto simp: bit_mark [unfolded push_bit_of_1])
  have d: "d = order_word (default_ids n)"
    using assms by (auto simp: default_channel_order_def default_ids_def split: if_splits)
  have nibbles: "map (\<lambda>index. d div 16 ^ index mod 16) [0..<n] = default_ids n"
    using n unfolding d by (elim disjE) (simp_all add: default_ids_def upt_rec)
  have "bit (default_set d n) i \<longleftrightarrow> i \<in> set (default_ids n)" for i
    unfolding default_set_def set nibble nibbles by simp
  moreover have "length (default_ids n) = n" "distinct (default_ids n)" "\<forall>i \<in> set (default_ids n). i < 16"
    using n by (auto simp: default_ids_def)
  ultimately show ?thesis using d by blast
qed

lemma nibble_unique:
  fixes x y a b :: nat
  assumes "x < 16" "y < 16"
  shows "x + 16 * a = y + 16 * b \<longleftrightarrow> x = y \<and> a = b"
proof
  assume eq: "x + 16 * a = y + 16 * b"
  have "x = (x + 16 * a) mod 16" "y = (y + 16 * b) mod 16" using assms by simp_all
  then show "x = y \<and> a = b" using eq by simp
qed simp

lemma order_word_inj:
  "length xs = length ys \<Longrightarrow> \<forall>i \<in> set xs. i < 16 \<Longrightarrow> \<forall>i \<in> set ys. i < 16 \<Longrightarrow>
     order_word xs = order_word ys \<longleftrightarrow> xs = ys"
proof (induction xs ys rule: list_induct2)
  case Nil
  then show ?case by simp
next
  case (Cons x xs y ys)
  have "x < 16" "y < 16" using Cons.prems by simp_all
  then show ?case using Cons nibble_unique [of x y "order_word xs" "order_word ys"] by simp
qed

lemma opaque_unnamed: "opaque_position p \<Longrightarrow> channel_id p = None"
  by (auto simp: opaque_position_def channel_id_def)

lemma native_order_opaque:
  assumes "list_all opaque_position ps"
  shows "native_channel_order flags ps = Inr None"
proof -
  have "\<not> list_ex (\<lambda>p. channel_id p \<noteq> None) ps"
    using assms opaque_unnamed by (auto simp: list_ex_iff list_all_iff)
  then show ?thesis using assms by (simp add: native_channel_order_def)
qed

lemma position_ids_less: "named ps \<Longrightarrow> \<forall>i \<in> set (position_ids ps). i < 16"
  using channel_id_less by (force simp: named_def position_ids_def)

text \<open>A positioned map whose identifiers are those of the default order is translated exactly.\<close>

lemma native_order_named:
  assumes named: "named ps" and d: "default_channel_order (length ps) = Some d"
    and ids: "mset (position_ids ps) = mset (default_ids (length ps))"
    and flags: "flags AND 1 = 0"
  shows "native_channel_order flags ps =
    Inr (if position_ids ps = default_ids (length ps) then None else Some (order_word (position_ids ps)))"
proof -
  note dflt = default_order_facts [OF d]
  have set: "set (position_ids ps) = set (default_ids (length ps))" using ids by (rule mset_eq_setD)
  have distinct: "distinct (position_ids ps)"
    using dflt set by (intro card_distinct) (simp add: distinct_card position_ids_def)
  obtain word seen where loop: "order_loop ps 0 0 0 = Inr (word, seen)"
    using order_loop_complete [OF named distinct, of 0 0 0] by auto
  have word: "word = order_word (position_ids ps)" and seen: "\<And>i. bit seen i \<longleftrightarrow> i \<in> set (position_ids ps)"
    using order_loop_sound [OF loop] by auto
  have "seen = default_set d (length ps)"
    by (rule bit_eqI) (use seen set dflt in auto)
  moreover have "word = d \<longleftrightarrow> position_ids ps = default_ids (length ps)"
  proof -
    have "length (position_ids ps) = length (default_ids (length ps))" using dflt by (simp add: position_ids_def)
    from order_word_inj [OF this position_ids_less [OF named]] show ?thesis using dflt word by simp
  qed
  moreover have "length ps \<le> 8" "ps \<noteq> []" using d by (auto simp: default_channel_order_def split: if_splits)
  moreover have "list_ex (\<lambda>p. channel_id p \<noteq> None) ps"
    using named \<open>ps \<noteq> []\<close> by (cases ps) auto
  ultimately show ?thesis using loop d flags word by (simp add: native_channel_order_def)
qed

text \<open>Every layout the backend advertises lists the default order of its channel count, or nothing.\<close>

lemma advertised_positions:
  assumes "channel_positions c = Some ps"
  shows "length ps = c \<and> distinct ps \<and> named ps \<and> position_ids ps = default_ids c
    \<and> (\<exists>d. default_channel_order c = Some d)"
  using assms by (auto simp: channel_positions_def named_def position_ids_def channel_id_def default_ids_def
      default_channel_order_def split: if_splits)

lemma named_mset: "mset ps = mset qs \<Longrightarrow> named ps = named qs"
  by (metis named_def mset_eq_setD)

lemma position_ids_mset: "mset ps = mset qs \<Longrightarrow> mset (position_ids ps) = mset (position_ids qs)"
  by (simp add: position_ids_def)

lemma reordered_mset:
  assumes "length ps = length qs" "distinct qs"
    and "list_all (\<lambda>i. ps ! i \<notin> set (take i ps) \<and> ps ! i \<in> set qs) [0..<length ps]"
  shows "mset ps = mset qs"
proof -
  have nth: "ps ! i \<notin> set (take i ps)" "ps ! i \<in> set qs" if "i < length ps" for i
    using assms(3) that by (auto simp: list_all_iff)
  have "ps ! i \<noteq> ps ! j" if "i < j" "j < length ps" for i j
    using nth(1) [OF that(2)] that by (auto simp: in_set_conv_nth)
  then have dps: "distinct ps" by (metis distinct_conv_nth linorder_neqE_nat)
  moreover have "set ps \<subseteq> set qs" using nth(2) by (auto simp: in_set_conv_nth)
  moreover have "card (set ps) = card (set qs)" using dps assms(1,2) by (simp add: distinct_card)
  ultimately have "set ps = set qs" by (simp add: card_subset_eq)
  then show ?thesis using dps assms(2) set_eq_iff_mset_eq_distinct by blast
qed

section \<open>Channel maps\<close>

text \<open>C25. Whatever channel counts a device has, every channel map its advertised layouts admit - with or
  without the reorder and the opaque licence - is one the backend can program: an opaque map leaves the
  kernel's order alone, and a positioned one names exactly the positions of the default order, each
  once, and becomes the word whose nibbles are the identifiers of the positions in order, or no call at
  all if that is the default order.\<close>

theorem admitted_channel_maps_are_programmed:
  assumes "channels_admits (channel_layouts min_channels max_channels) channels (Some ps) licence"
    and "flags AND AUDIO_FLAG_UNPOSITIONED = 0"
  shows "length ps = channels
    \<and> (list_all opaque_position ps \<and> native_channel_order flags ps = Inr None
       \<or> mset (position_ids ps) = mset (default_ids channels)
         \<and> native_channel_order flags ps =
             Inr (if position_ids ps = default_ids channels then None else Some (order_word (position_ids ps))))"
proof -
  obtain c where "layout_admits \<lparr>ly_channels = c, ly_positions = channel_positions c\<rparr> channels (Some ps) licence"
    using assms(1) by (auto simp: channel_layouts_def list_ex_iff)
  then have la: "layout_admits \<lparr>ly_channels = channels, ly_positions = channel_positions channels\<rparr> channels (Some ps) licence"
    by (auto simp: layout_admits_def split: if_splits)
  consider (opaque) "length ps = channels" "list_all opaque_position ps"
    | (placed) qs where "channel_positions channels = Some qs" "mset ps = mset qs"
  proof (cases "channel_positions channels")
    case None
    then show ?thesis using la that(1) by (simp add: layout_admits_def)
  next
    case (Some qs)
    note adv = advertised_positions [OF Some]
    show ?thesis using la that Some reordered_mset [of ps qs] adv by (auto simp: layout_admits_def)
  qed
  then show ?thesis
  proof cases
    case opaque
    then show ?thesis using native_order_opaque by blast
  next
    case placed
    note adv = advertised_positions [OF placed(1)]
    have len: "length ps = channels" using adv placed(2) by (metis size_mset)
    have ids: "mset (position_ids ps) = mset (default_ids (length ps))"
      using position_ids_mset [OF placed(2)] adv len by simp
    moreover have "named ps" using named_mset [OF placed(2)] adv by simp
    ultimately show ?thesis using native_order_named [of ps _ flags] adv len assms(2) by auto
  qed
qed

theorem admitted_channel_maps_are_programmed_witness:
  "length [4, 3, 12, 13::nat] = 4
    \<and> (list_all opaque_position [4, 3, 12, 13] \<and> native_channel_order 0 [4, 3, 12, 13] = Inr None
       \<or> mset (position_ids [4, 3, 12, 13]) = mset (default_ids 4)
         \<and> native_channel_order 0 [4, 3, 12, 13] =
             Inr (if position_ids [4, 3, 12, 13] = default_ids 4 then None
                  else Some (order_word (position_ids [4, 3, 12, 13]))))"
  by (rule admitted_channel_maps_are_programmed [of 1 4 4 _ "\<lparr>cf_layout_reorder = True, cf_opaque_layout = False\<rparr>"])
    (simp_all add: channel_layouts_def channel_counts_def channel_positions_def layout_admits_def upt_rec)

section \<open>Facts about configuring\<close>

text \<open>Both sides of the format table store a frame in the same number of bytes.\<close>

lemma native_format_in_map:
  "native_format f = Some n \<Longrightarrow> \<exists>w. (w, f) \<in> set FORMAT_MAP \<and> n = unat w"
  by (fastforce simp: native_format_def FORMAT_MAP_def split: if_splits)

lemma format_row:
  assumes "native_format f = Some n"
  shows "\<exists>w. n = unat w \<and> w AND 0x07f00000 = 0 \<and> List.find (\<lambda>(native, _). unat native = n) FORMAT_MAP = Some (w, f)
    \<and> bytes_per_sample f = Some (afmt_frame_bytes w) \<and> afmt_frame_bytes w \<le> 4"
proof -
  obtain w where w: "(w, f) \<in> set FORMAT_MAP" "n = unat w" using native_format_in_map [OF assms] by blast
  have "w AND 0x07f00000 = 0 \<and> List.find (\<lambda>(native, _). native = w) FORMAT_MAP = Some (w, f)
    \<and> bytes_per_sample f = Some (afmt_frame_bytes w)"
    using w(1) unfolding FORMAT_MAP_def
    by (simp, elim disjE) (simp_all add: bytes_per_sample_def afmt_frame_bytes_def)
  moreover have "(\<lambda>(native, _::audio_format). unat native = n) = (\<lambda>(native, _). native = w)"
    using w(2) by (auto simp: fun_eq_iff word_unat_eq_iff)
  ultimately show ?thesis using w(2) afmt_frame_bytes_plain [of w] by auto
qed

lemma calls_keep_rounding [simp]:
  "k_rate_round (snd (ioctl_int req arg k)) = k_rate_round k"
  "k_rate_round (snd (set_value req v t k)) = k_rate_round k"
  "k_rate_round (snd (set_channel_order order k)) = k_rate_round k"
  "k_rate_round (snd (sys_open k)) = k_rate_round k"
  by (simp_all add: ioctl_int_def set_value_def set_channel_order_def sys_open_def split_beta Let_def split: sum.split option.split)

lemma set_rate_close:
  "fst (set_rate rate k) = Inr a \<Longrightarrow> \<bar>int a - int rate\<bar> \<le> int (feeder_rate_round k)"
  by (simp add: set_rate_def set_value_close)

lemma same_rounding: "k_rate_round k = k_rate_round k' \<Longrightarrow> feeder_rate_round k = feeder_rate_round k'"
  by (simp add: feeder_rate_round_def)

text \<open>The outcome of a stream the driver accepted with the requested format and channel count.\<close>

definition adopts :: "stream_config \<Rightarrow> u32 \<Rightarrow> u32 \<Rightarrow> configure_outcome \<Rightarrow> bool" where
  "adopts config stride round_hz out \<longleftrightarrow>
     sc_format (co_actual_config out) = sc_format config \<and> sc_channels (co_actual_config out) = sc_channels config
   \<and> sc_positions (co_actual_config out) = sc_positions config \<and> sc_flags (co_actual_config out) = sc_flags config
   \<and> \<bar>int (sc_rate (co_actual_config out)) - int (sc_rate config)\<bar> \<le> int round_hz
   \<and> sc_stride (co_actual_config out) = stride
   \<and> (adjustment_is_empty (co_adjusted out) \<longleftrightarrow> co_actual_config out = config)"

lemma adjustment_empty_iff: "adjustment_is_empty (adjustment_between a b) \<longleftrightarrow> b = a"
  by (cases a; cases b) (auto simp: adjustment_is_empty_def adjustment_between_def)

lemma outcome_adopts:
  assumes f: "native_format (sc_format config) = Some fmt"
    and a: "an_format applied = fmt" "an_channels applied = sc_channels config"
      "\<bar>int (an_rate applied) - int (sc_rate config)\<bar> \<le> int round_hz"
    and ch: "1 \<le> sc_channels config"
  shows "\<exists>out. outcome_of sc config applied dq = Inr out
    \<and> adopts config (native_frame_stride fmt (sc_channels config)) round_hz out"
proof -
  obtain w where w: "fmt = unat w" "List.find (\<lambda>(native, _). unat native = fmt) FORMAT_MAP = Some (w, sc_format config)"
    "bytes_per_sample (sc_format config) = Some (afmt_frame_bytes w)"
    using format_row [OF f] by blast
  have stride: "native_frame_stride fmt (sc_channels config) = sat_mul32 (afmt_frame_bytes w) (sc_channels config)"
  proof -
    have "max (afmt_frame_bytes w) 1 = afmt_frame_bytes w" "max (sc_channels config) 1 = sc_channels config"
      using ch afmt_frame_bytes_pos [of w] by simp_all
    then show ?thesis by (simp add: native_frame_stride_def w(1))
  qed
  show ?thesis
    using w(2,3) a by (simp add: outcome_of_def stream_config_from_native_def adopts_def stride
        adjustment_empty_iff Let_def)
qed

lemma writer_configure_rate:
  "fst (writer_configure fmt channels rate order w) = Inr a \<Longrightarrow>
     \<bar>int (an_rate a) - int rate\<bar> \<le> int (feeder_rate_round (w_kernel w))"
  using set_rate_close
  by (fastforce simp: writer_configure_def set_format_def set_channels_def assert_w_def split_beta Let_def feeder_rate_round_def
      split: sum.splits option.splits)

lemma writer_open_kernel: "k_rate_round (w_kernel (snd (writer_open w))) = k_rate_round (w_kernel w)"
  by (simp add: writer_open_def assert_w_def with_kernel_def split_beta Let_def split: option.split)

lemma close_gives_base: "writer_base w \<Longrightarrow> w_state w = Setup \<Longrightarrow>
    writer_base (writer_close (w\<lparr>w_delivery_quantum := dq\<rparr>)) \<and> w_state (writer_close (w\<lparr>w_delivery_quantum := dq\<rparr>)) = Closed"
  using close_base [of "w\<lparr>w_delivery_quantum := dq\<rparr>"] by (simp add: writer_base_def)

lemma closed_ok: "writer_base w \<Longrightarrow> w_state w = Closed \<Longrightarrow> writer_ok w"
  by (simp add: writer_ok_def silence_ready_def)

section \<open>Configuring a playback stream\<close>

text \<open>Configuring a closed playback stream either fails, and then the stream is closed again with its
  descriptor released, or succeeds, and then the stream is set up with its whole invariant - among it
  the silence pattern of the configuration in force - and the reported configuration is the requested
  one at a rate within the kernel's rounding, with the frame size the native stream counts in; the
  outcome is flagged as adjusted exactly if it differs from the request.\<close>

theorem playback_configuration_is_what_runs:
  assumes "writer_base w" "w_state w = Closed" "1 \<le> sc_channels config" "sc_channels config \<le> 1024"
  shows "case configure_playback scaled dq config w of
      (Inl _, w') \<Rightarrow> writer_ok w' \<and> w_state w' = Closed
    | (Inr out, w') \<Rightarrow> writer_ok w' \<and> w_state w' = Setup
        \<and> adopts config (w_stride w') (feeder_rate_round (w_kernel w)) out"
proof (cases "native_format (sc_format config)")
  case None
  then show ?thesis using assms closed_ok by (simp add: configure_playback_def)
next
  case (Some fmt)
  obtain n :: "32 word" where n: "fmt = unat n" "n AND 0x07f00000 = 0" using format_row [OF Some] by blast
  show ?thesis
  proof (cases "native_channel_order (sc_flags config) (sc_positions config)")
    case (Inl e)
    then show ?thesis using assms Some closed_ok by (simp add: configure_playback_def)
  next
    case (Inr order)
    obtain r w1 where o: "writer_open w = (r, w1)" by fastforce
    have w1: "writer_base w1" "is_ok r \<Longrightarrow> w_state w1 = Setup" "\<not> is_ok r \<Longrightarrow> w_state w1 = Closed"
      "k_rate_round (w_kernel w1) = k_rate_round (w_kernel w)"
      using open_base [OF assms(1,2)] writer_open_kernel [of w] o by auto
    show ?thesis
    proof (cases r)
      case (Inl e)
      then show ?thesis using Some Inr o w1 closed_ok by (simp add: configure_playback_def \<open>native_channel_order _ _ = _\<close>)
    next
      case r: (Inr u)
      obtain c w2 where conf: "writer_configure fmt (sc_channels config) (sc_rate config) order w1 = (c, w2)" by fastforce
      have "(word_of_nat fmt :: 32 word) AND 0x07f00000 = 0" using n by simp
      from configure_base [OF w1(1) w1(2) this assms(4), of "sc_rate config" order] r conf
      have w2: "writer_base w2" "w_state w2 = Setup" and a: "\<And>a. c = Inr a \<Longrightarrow> an_format a = fmt
          \<and> an_channels a = sc_channels config \<and> w_stride w2 = native_frame_stride fmt (sc_channels config)"
        by auto
      show ?thesis
      proof (cases c)
        case (Inl e)
        then show ?thesis using Some Inr o r conf close_base [OF w2(1)] w2(2) closed_ok by (simp add: configure_playback_def)
      next
        case c: (Inr a)
        have "\<bar>int (an_rate a) - int (sc_rate config)\<bar> \<le> int (feeder_rate_round (w_kernel w))"
          using writer_configure_rate [of fmt "sc_channels config" "sc_rate config" order w1 a] conf c
            same_rounding [OF w1(4)] by simp
        then obtain out where out: "outcome_of scaled config a dq = Inr out"
          "adopts config (w_stride w2) (feeder_rate_round (w_kernel w)) out"
          using outcome_adopts [OF Some] a [OF c] assms(3) by metis
        have "writer_base (w2\<lparr>w_delivery_quantum := dq\<rparr>)" using w2(1) by (simp add: writer_base_def)
        moreover have "sc_stride (co_actual_config out) = w_stride w2" using out(2) by (simp add: adopts_def)
        ultimately have "writer_ok (set_silence_pattern (silence_for_config (co_actual_config out)) (w2\<lparr>w_delivery_quantum := dq\<rparr>))"
          using set_silence_pattern_ok [of "w2\<lparr>w_delivery_quantum := dq\<rparr>" "co_actual_config out"] by simp
        then show ?thesis using Some Inr o r conf c out w2(2)
          by (simp add: configure_playback_def set_silence_pattern_def)
      qed
    qed
  qed
qed

definition sample_stereo :: stream_config where
  "sample_stereo = \<lparr>sc_format = FMT_S16_LE, sc_rate = 48000, sc_channels = 2, sc_positions = [4, 3], sc_flags = 0,
     sc_stride = 4\<rparr>"

text \<open>A driver that takes two channels of 16 bits in either order, and rounds the rate.\<close>

definition accepting_kernel :: oss_kernel where
  "accepting_kernel = sample_kernel\<lparr>k_opens := [None], k_ints := (\<lambda>_. [])(DSP_SETFMT := [Inr 16],
     DSP_CHANNELS := [Inr 2], DSP_SPEED := [Inr 47990], DSP_SET_CHNORDER := [Inr 0], DSP_GET_CHNORDER := [Inr 18])\<rparr>"

lemma sample_stereo_order: "native_channel_order 0 [4, 3] = Inr (Some 18)"
  by (simp add: native_channel_order_def channel_id_def default_channel_order_def default_set_def upt_rec
      drop_bit_eq_div)

theorem playback_configuration_is_what_runs_witness:
  "is_ok (fst (configure_playback False dq_unavailable sample_stereo (writer_new dq_unavailable accepting_kernel)))
    \<and> (case configure_playback False dq_unavailable sample_stereo (writer_new dq_unavailable accepting_kernel) of
      (Inl _, w') \<Rightarrow> writer_ok w' \<and> w_state w' = Closed
    | (Inr out, w') \<Rightarrow> writer_ok w' \<and> w_state w' = Setup
        \<and> adopts sample_stereo (w_stride w') (feeder_rate_round (w_kernel (writer_new dq_unavailable accepting_kernel))) out)"
proof
  show "is_ok (fst (configure_playback False dq_unavailable sample_stereo (writer_new dq_unavailable accepting_kernel)))"
    by (simp add: configure_playback_def sample_stereo_def native_format_def FORMAT_MAP_def sample_stereo_order
        writer_open_def writer_new_def assert_w_def with_kernel_def sys_open_def accepting_kernel_def sample_kernel_def pop_def
        writer_configure_def set_format_def set_channels_def set_rate_def set_value_def ioctl_int_def as_c_int_def
        set_channel_order_def channel_caps_def feeder_rate_round_def outcome_of_def stream_config_from_native_def
        bytes_per_sample_def)
next
  have "writer_base (writer_new dq_unavailable accepting_kernel)"
    by (simp add: writer_new_def writer_base_def accepting_kernel_def sample_kernel_def)
  then show "case configure_playback False dq_unavailable sample_stereo (writer_new dq_unavailable accepting_kernel) of
      (Inl _, w') \<Rightarrow> writer_ok w' \<and> w_state w' = Closed
    | (Inr out, w') \<Rightarrow> writer_ok w' \<and> w_state w' = Setup
        \<and> adopts sample_stereo (w_stride w') (feeder_rate_round (w_kernel (writer_new dq_unavailable accepting_kernel))) out"
    by (rule playback_configuration_is_what_runs) (simp_all add: writer_new_def sample_stereo_def)
qed

section \<open>Configuring a capture stream\<close>

lemma dsp_configure_facts:
  assumes "dsp_ok d" "d_state d = Setup"
  shows "dsp_ok (snd (dsp_configure fmt channels rate order d)) \<and> d_state (snd (dsp_configure fmt channels rate order d)) = Setup
    \<and> (\<forall>a. fst (dsp_configure fmt channels rate order d) = Inr a \<longrightarrow> an_format a = fmt \<and> an_channels a = channels
        \<and> \<bar>int (an_rate a) - int rate\<bar> \<le> int (feeder_rate_round (d_kernel d))
        \<and> d_stride (snd (dsp_configure fmt channels rate order d)) = native_frame_stride fmt channels)"
proof -
  have rings: "k_ring (snd (set_format f k)) = k_ring k" "k_ring (snd (set_channels f k)) = k_ring k"
    "k_ring (snd (set_rate f k)) = k_ring k" for f k
    by (simp_all add: set_format_def set_channels_def set_rate_def)
  have rounds: "k_rate_round (snd (set_format f k)) = k_rate_round k" "k_rate_round (snd (set_channels f k)) = k_rate_round k" for f k
    by (simp_all add: set_format_def set_channels_def)
  have exact: "fst (set_format f k) = Inr a \<Longrightarrow> a = f" "fst (set_channels f k) = Inr a \<Longrightarrow> a = f" for f a k
    using set_value_exact [of _ f k a] by (auto simp: set_format_def set_channels_def)
  have live: "assert_d (d_state d = Setup) d = d" using assms(2) by (simp add: assert_d_id)
  show ?thesis
    using assms unfolding dsp_configure_def live
    by (auto simp: dsp_ok_def Let_def split_beta rings rounds native_frame_stride_pos feeder_rate_round_def
        split: sum.splits option.splits dest!: exact set_rate_close)
qed

lemma dsp_open_facts:
  assumes "dsp_ok d" "d_state d = Closed"
  shows "dsp_ok (snd (dsp_open d)) \<and> k_rate_round (d_kernel (snd (dsp_open d))) = k_rate_round (d_kernel d)
    \<and> d_state (snd (dsp_open d)) = (if is_ok (fst (dsp_open d)) then Setup else Closed)"
  using assms by (auto simp: dsp_open_def assert_d_id on_kernel_def sys_open_def dsp_ok_def split_beta Let_def split: option.split)

lemma dsp_close_facts:
  "dsp_ok d \<Longrightarrow> d_state d = Setup \<Longrightarrow> dsp_ok (dsp_close d) \<and> d_state (dsp_close d) = Closed"
  by (simp add: dsp_close_def assert_d_id dsp_ok_def)

text \<open>The same contract for a capture stream: a failed configuration leaves it closed, a successful one
  leaves it set up with its invariant, and the reported configuration is the requested one up to the
  kernel's rate rounding, with the frame size the native stream counts in.\<close>

theorem capture_configuration_is_what_runs:
  assumes "dsp_ok d" "d_state d = Closed" "1 \<le> sc_channels config"
  shows "case configure_capture scaled dq config properties d of
      (Inl _, d') \<Rightarrow> dsp_ok d' \<and> d_state d' = Closed
    | (Inr out, d') \<Rightarrow> dsp_ok d' \<and> d_state d' = Setup
        \<and> adopts config (d_stride d') (feeder_rate_round (d_kernel d)) out"
proof (cases "native_format (sc_format config)")
  case None
  then show ?thesis using assms by (simp add: configure_capture_def)
next
  case (Some fmt)
  show ?thesis
  proof (cases "native_channel_order (sc_flags config) (sc_positions config)")
    case (Inl e)
    then show ?thesis using assms Some by (simp add: configure_capture_def)
  next
    case order: (Inr order)
    obtain r d1 where o: "dsp_open d = (r, d1)" by fastforce
    have d1: "dsp_ok d1" "d_state d1 = (if is_ok r then Setup else Closed)"
      "feeder_rate_round (d_kernel d1) = feeder_rate_round (d_kernel d)"
      using dsp_open_facts [OF assms(1,2)] by (simp_all add: o feeder_rate_round_def)
    obtain c d2 where conf: "dsp_configure fmt (sc_channels config) (sc_rate config) order d1 = (c, d2)" by fastforce
    define d3 where "d3 = set_small_fragments scaled (op_fragment_bytes properties) MIN_BUFFER_BYTES (d2\<lparr>d_delivery_quantum := dq\<rparr>)"
    have q: "d_delivery_quantum d3 = dq" by (simp add: d3_def set_small_fragments_def assert_d_def Let_def split_beta)
    have run: "configure_capture scaled dq config properties d =
      (case r of Inl e \<Rightarrow> (Inl (- errno_code e), d1)
       | Inr _ \<Rightarrow> (case c of Inl e \<Rightarrow> (Inl (- errno_code e), dsp_close d2)
                  | Inr a \<Rightarrow> (case outcome_of scaled config a dq of Inr out \<Rightarrow> (Inr out, d3) | Inl e \<Rightarrow> (Inl e, dsp_close d3))))"
      by (cases r; cases c) (simp_all only: configure_capture_def Some order o conf Let_def option.case sum.case
          prod.case d3_def [symmetric] q)
    show ?thesis
    proof (cases r)
      case (Inl e)
      then show ?thesis using run d1 by simp
    next
      case r: (Inr u)
      then have d2: "dsp_ok d2" "d_state d2 = Setup" and a: "\<And>a. c = Inr a \<Longrightarrow> an_format a = fmt
          \<and> an_channels a = sc_channels config \<and> d_stride d2 = native_frame_stride fmt (sc_channels config)
          \<and> \<bar>int (an_rate a) - int (sc_rate config)\<bar> \<le> int (feeder_rate_round (d_kernel d))"
        using dsp_configure_facts [of d1 fmt "sc_channels config" "sc_rate config" order] d1 conf by auto
      have "dsp_ok (d2\<lparr>d_delivery_quantum := dq\<rparr>)" using d2(1) by (simp add: dsp_ok_def)
      then have d3: "dsp_ok d3" "d_state d3 = Setup" "d_stride d3 = d_stride d2"
        using d2(2) by (simp_all add: d3_def set_small_fragments_facts)
      show ?thesis
      proof (cases c)
        case (Inl e)
        then show ?thesis using run r dsp_close_facts [OF d2] by simp
      next
        case c: (Inr a)
        obtain out where "outcome_of scaled config a dq = Inr out"
          "adopts config (d_stride d2) (feeder_rate_round (d_kernel d)) out"
          using outcome_adopts [OF Some] a [OF c] assms(3) by metis
        then show ?thesis using run r c d3 by simp
      qed
    qed
  qed
qed

theorem capture_configuration_is_what_runs_witness:
  "case configure_capture False dq_unavailable sample_stereo (properties_new False) (dsp_new dq_unavailable accepting_kernel) of
      (Inl _, d') \<Rightarrow> dsp_ok d' \<and> d_state d' = Closed
    | (Inr out, d') \<Rightarrow> dsp_ok d' \<and> d_state d' = Setup
        \<and> adopts sample_stereo (d_stride d') (feeder_rate_round (d_kernel (dsp_new dq_unavailable accepting_kernel))) out"
  by (rule capture_configuration_is_what_runs) (simp_all add: dsp_new_def dsp_ok_def sample_stereo_def)

end
