(* ===== verification/RebuildWork.thy ===== *)
theory RebuildWork
  imports Direction "HOL-Library.Multiset"
begin

text \<open>
  The hand-over of device rebuilds between the data loop and the blocking-I/O worker
  (crates/core/src/node/rebuild/worker.rs): the completion mailbox and the work slot as atomic
  cells (theory \<open>Mailbox\<close> derives this from their compare-and-swap protocols), the data loop's single
  deferred command, the queueing of an order, and the worker's task.
  \<open>queue_required_rebuilds\<close> is from node/process.rs. A worker task reads the shared atomics at three
  points, between which other threads run; the three values it reads are arguments of the task, and so is
  whether a close or an open unwinds.
\<close>

section \<open>The completion mailbox\<close>

definition exchange :: "('d, 'p) device_swap option \<Rightarrow> ('d, 'p) node_shared \<Rightarrow> ('d, 'p) device_swap option \<times> ('d, 'p) node_shared" where
  "exchange new sh = (sh_slot sh, sh\<lparr> sh_slot := new \<rparr>)"

definition deposit :: "('d, 'p) device_swap \<Rightarrow> ('d, 'p) node_shared \<Rightarrow> ('d, 'p) node_shared" where
  "deposit swap sh = snd (exchange (Some swap) sh)"

definition discard_swap :: "('d, 'p) node_shared \<Rightarrow> ('d, 'p) node_shared" where
  "discard_swap sh = snd (exchange None sh)"

definition swap_ready :: "('d, 'p) node_shared \<Rightarrow> bool" where
  "swap_ready sh \<longleftrightarrow> sh_slot sh \<noteq> None"

definition take_swap :: "('d, 'p) node_shared \<Rightarrow> ('d, 'p) device_swap option \<times> ('d, 'p) node_shared" where
  "take_swap sh = (sh_slot sh, sh\<lparr> sh_slot := None \<rparr>)"

section \<open>The work slot\<close>

text \<open>\<open>try_submit\<close> returns the command when the slot is occupied or closed.\<close>

definition try_submit :: "('d, 'p) rebuild_work \<Rightarrow> ('d, 'p) work_slot \<Rightarrow> ('d, 'p) rebuild_work option \<times> ('d, 'p) work_slot" where
  "try_submit work slot =
     (if ws_closed slot \<or> ws_value slot \<noteq> None then (Some work, slot)
      else (None, slot\<lparr> ws_value := Some work \<rparr>))"

definition slot_take :: "('d, 'p) work_slot \<Rightarrow> ('d, 'p) rebuild_work option \<times> ('d, 'p) work_slot" where
  "slot_take slot = (ws_value slot, slot\<lparr> ws_value := None \<rparr>)"

text \<open>\<open>close\<close> waits until it can move EMPTY to CLOSED; \<open>None\<close> is an attempt that has to wait.\<close>

definition slot_close :: "('d, 'p) work_slot \<Rightarrow> ('d, 'p) work_slot option" where
  "slot_close slot = (if ws_value slot = None then Some (slot\<lparr> ws_closed := True \<rparr>) else None)"

section \<open>The data loop's side\<close>

definition flush_deferred_work :: "('d, 'p, 'x, 's, 'w) data_state \<Rightarrow> bool \<times> ('d, 'p, 'x, 's, 'w) data_state" where
  "flush_deferred_work s =
     (case ds_deferred_work s of
        None \<Rightarrow> (True, s)
      | Some work \<Rightarrow>
          let (returned, slot) = try_submit work (ds_rebuild_work s)
          in case returned of
               None \<Rightarrow> (True, s\<lparr> ds_rebuild_work := slot, ds_deferred_work := None \<rparr>)
             | Some work \<Rightarrow> (False, s\<lparr> ds_rebuild_work := slot, ds_deferred_work := Some work \<rparr>))"

text \<open>The assertion that the deferred cell is free is a failed assertion of the model when it is
  not; the overwritten command would be dropped on the data loop.\<close>

definition submit_or_defer :: "('d, 'p) rebuild_work \<Rightarrow> ('d, 'p, 'x, 's, 'w) data_state \<Rightarrow> ('d, 'p, 'x, 's, 'w) data_state" where
  "submit_or_defer work s =
     (let s = (if ds_deferred_work s = None then s else s\<lparr> ds_panic := True \<rparr>);
          (returned, slot) = try_submit work (ds_rebuild_work s);
          s = s\<lparr> ds_rebuild_work := slot \<rparr>
      in case returned of
           None \<Rightarrow> s
         | Some work \<Rightarrow> s\<lparr> ds_deferred_work := Some work \<rparr>)"

definition port_rebuild_request :: "stream_config \<Rightarrow> ('d, 'p, 'x, 's, 'w) data_state \<Rightarrow> ('d, 'p) rebuild_request" where
  "port_rebuild_request config s =
     \<lparr> rq_port_idx = 0, rq_generation = p_generation (ds_port s), rq_config = config,
       rq_path = ds_stream_path s, rq_properties = ds_properties s, rq_retried = False,
       rq_retire_first = None \<rparr>"

definition queue_port_rebuild :: "('d, 'p, 'x, 's, 'w) data_state \<Rightarrow> bool \<times> ('d, 'p, 'x, 's, 'w) data_state" where
  "queue_port_rebuild s =
     (case p_config (ds_port s) of
        None \<Rightarrow> (False, s)
      | Some config \<Rightarrow>
          (True, upd_port (\<lambda>port. port\<lparr> p_rebuild_pending := True \<rparr>)
                   (submit_or_defer (Rebuild (port_rebuild_request config s)) s)))"

definition queue_rebuild :: "('d, 'p, 'x, 's, 'w) data_state \<Rightarrow> bool \<times> ('d, 'p, 'x, 's, 'w) data_state" where
  "queue_rebuild s =
     (if ds_rebuild_takeover s then (False, s)
      else let (flushed, s) = flush_deferred_work s
           in if \<not> flushed then (False, s) else queue_port_rebuild s)"

definition queue_required_rebuilds :: "('d, 'p, 'x, 's, 'w) data_state \<Rightarrow> ('d, 'p, 'x, 's, 'w) data_state" where
  "queue_required_rebuilds s =
     (if p_rebuild_required (ds_port s) \<and> \<not> p_rebuild_pending (ds_port s)
      then snd (queue_rebuild s) else s)"

section \<open>The worker's task\<close>

definition rebuild_request_is_current :: "('d, 'p) node_shared \<Rightarrow> u64 \<Rightarrow> bool" where
  "rebuild_request_is_current sh generation \<longleftrightarrow>
     sh_alive sh \<and> sh_started sh \<and> sh_generation sh = generation"

abbreviation EBUSY_code :: int where
  "EBUSY_code \<equiv> -16"

text \<open>The outcome once the device has been opened and configured. A retry request of the code has
  \<open>retire_first\<close> taken by then.\<close>

definition open_outcome ::
    "('d, 'p) rebuild_request \<Rightarrow> (int + configure_outcome) \<times> 'd \<Rightarrow> ('d, 'p) swap_outcome" where
  "open_outcome request opened =
     (case opened of
        (Inr outcome, dsp) \<Rightarrow> Installed dsp (co_actual_config outcome) (co_applied_buffer outcome)
      | (Inl err, dsp) \<Rightarrow>
          if err = EBUSY_code \<and> \<not> rq_retried request
          then RetireAndRetry (request\<lparr> rq_retried := True, rq_retire_first := None \<rparr>) dsp
          else SwapFailed dsp)"

text \<open>What a task does with devices, in order: a device object is created and its open attempted, or a
  device object is destroyed. \<open>task_run\<close> tells whether the two calls that may unwind return: the close of
  the retired device, and the open, which leaves the new device for the unwinding to destroy.\<close>

datatype 'd task_event = Opens 'd | Closes 'd

datatype 'd task_run = Returns | CloseUnwinds | OpenUnwinds 'd

text \<open>The completion of a request, \<open>DepositOnUnwind::complete\<close>, and what its destructor deposits while
  the guard is armed.\<close>

definition guard_complete :: "('d, 'p) rebuild_request \<Rightarrow> ('d, 'p) swap_outcome \<Rightarrow> ('d, 'p) device_swap" where
  "guard_complete request outcome =
     \<lparr> dv_port_idx = rq_port_idx request, dv_generation = rq_generation request, dv_outcome = outcome \<rparr>"

definition guard_unwound :: "('d, 'p) rebuild_request \<Rightarrow> ('d, 'p) device_swap" where
  "guard_unwound request =
     \<lparr> dv_port_idx = rq_port_idx request, dv_generation = rq_generation request, dv_outcome = Aborted \<rparr>"

text \<open>The task of one request: \<open>sh0\<close> is what it reads on entry, \<open>sh1\<close> before the open and \<open>sh2\<close>
  after it. It yields the deposit, or \<open>None\<close> when the node is gone, and what it did with devices.\<close>

definition rebuild_task ::
    "('d, 'p, 'x, 's, 'w) direction \<Rightarrow> ('d, 'p) node_shared \<Rightarrow> ('d, 'p) node_shared \<Rightarrow> ('d, 'p) node_shared
       \<Rightarrow> 'd task_run \<Rightarrow> ('d, 'p) rebuild_request \<Rightarrow> ('d, 'p) device_swap option \<times> 'd task_event list" where
  "rebuild_task D sh0 sh1 sh2 run request =
     (let retired = (case rq_retire_first request of Some old \<Rightarrow> [Closes old] | None \<Rightarrow> [])
      in if \<not> sh_alive sh0 then (None, retired)
         else if run = CloseUnwinds \<and> rq_retire_first request \<noteq> None then (Some (guard_unwound request), retired)
         else if \<not> rebuild_request_is_current sh1 (rq_generation request)
         then (Some (guard_complete request Aborted), retired)
         else case run of
           OpenUnwinds dsp \<Rightarrow> (Some (guard_unwound request), retired @ [Opens dsp, Closes dsp])
         | _ \<Rightarrow>
             let opened = dn_try_open_configure D (rq_config request) (rq_properties request)
                            (dn_new D (rq_path request))
             in if \<not> rebuild_request_is_current sh2 (rq_generation request)
                then (Some (guard_complete request Aborted), retired @ [Opens (snd opened), Closes (snd opened)])
                else (Some (guard_complete request (open_outcome request opened)), retired @ [Opens (snd opened)]))"

section \<open>Ownership of devices\<close>

text \<open>The devices a message carries. A message is moved whole between the cells, so a device is owned
  by exactly one cell at any time.\<close>

definition request_devices :: "('d, 'p) rebuild_request \<Rightarrow> 'd multiset" where
  "request_devices r = (case rq_retire_first r of Some d \<Rightarrow> {#d#} | None \<Rightarrow> {#})"

fun outcome_devices :: "('d, 'p) swap_outcome \<Rightarrow> 'd multiset" where
  "outcome_devices (Installed d c g) = {#d#}"
| "outcome_devices Aborted = {#}"
| "outcome_devices (RetireAndRetry r d) = add_mset d (request_devices r)"
| "outcome_devices (SwapFailed d) = {#d#}"

definition swap_devices :: "('d, 'p) device_swap \<Rightarrow> 'd multiset" where
  "swap_devices sw = outcome_devices (dv_outcome sw)"

fun work_devices :: "('d, 'p) rebuild_work \<Rightarrow> 'd multiset" where
  "work_devices (Rebuild r) = request_devices r"
| "work_devices (RetireDevice d) = {#d#}"
| "work_devices (RetireSwap sw) = swap_devices sw"

definition held :: "('a \<Rightarrow> 'd multiset) \<Rightarrow> 'a option \<Rightarrow> 'd multiset" where
  "held f cell = (case cell of Some x \<Rightarrow> f x | None \<Rightarrow> {#})"

definition owned_devices :: "('d, 'p, 'x, 's, 'w) data_state \<Rightarrow> 'd multiset" where
  "owned_devices s = add_mset (p_dsp (ds_port s)) (held swap_devices (sh_slot (ds_shared s))
     + held work_devices (ws_value (ds_rebuild_work s)) + held work_devices (ds_deferred_work s))"

lemma held_simps [simp]: "held f None = {#}" "held f (Some x) = f x"
  by (simp_all add: held_def)

lemma request_devices_fresh [simp]: "rq_retire_first r = None \<Longrightarrow> request_devices r = {#}"
  by (simp add: request_devices_def)

section \<open>Lemmas on the data loop's side\<close>

text \<open>What the queueing operations leave alone.\<close>

definition same_node :: "('d, 'p, 'x, 's, 'w) data_state \<Rightarrow> ('d, 'p, 'x, 's, 'w) data_state \<Rightarrow> bool" where
  "same_node s s' \<longleftrightarrow> ds_started s' = ds_started s \<and> ds_following s' = ds_following s
     \<and> ds_position s' = ds_position s \<and> ds_clock s' = ds_clock s \<and> ds_next_time s' = ds_next_time s
     \<and> ds_timer_fd s' = ds_timer_fd s \<and> ds_wake_driver s' = ds_wake_driver s
     \<and> ds_callbacks s' = ds_callbacks s \<and> ds_shared s' = ds_shared s
     \<and> ds_clock_reads s' = ds_clock_reads s
     \<and> ds_rebuild_takeover s' = ds_rebuild_takeover s \<and> ds_ext s' = ds_ext s
     \<and> ds_properties s' = ds_properties s \<and> ds_stream_path s' = ds_stream_path s
     \<and> ds_publication_epoch s' = ds_publication_epoch s
     \<and> ds_clock_name s' = ds_clock_name s
     \<and> ds_ready_dispatching s' = ds_ready_dispatching s"

lemma same_node_refl [simp]: "same_node s s"
  by (simp add: same_node_def)

lemma same_node_trans: "same_node s s' \<Longrightarrow> same_node s' s'' \<Longrightarrow> same_node s s''"
  by (simp add: same_node_def)

lemma flush_disj:
  "(fst (flush_deferred_work s) \<and> ds_deferred_work (snd (flush_deferred_work s)) = None)
   \<or> (\<not> fst (flush_deferred_work s) \<and> snd (flush_deferred_work s) = s)"
  by (cases s; cases "ds_deferred_work s") (auto simp: flush_deferred_work_def try_submit_def)

lemma flush_cases:
  obtains (flushed) "fst (flush_deferred_work s)" "ds_deferred_work (snd (flush_deferred_work s)) = None"
  | (kept) "\<not> fst (flush_deferred_work s)" "snd (flush_deferred_work s) = s"
  using flush_disj [of s] by (elim disjE conjE)

lemma flush_same_node: "same_node s (snd (flush_deferred_work s)) \<and> ds_port (snd (flush_deferred_work s)) = ds_port s
   \<and> ds_panic (snd (flush_deferred_work s)) = ds_panic s"
  by (cases "ds_deferred_work s") (auto simp: flush_deferred_work_def try_submit_def same_node_def)

lemma flush_owned: "owned_devices (snd (flush_deferred_work s)) = owned_devices s"
  by (cases "ds_deferred_work s") (auto simp: flush_deferred_work_def try_submit_def owned_devices_def)

lemma submit_same_node: "same_node s (submit_or_defer work s) \<and> ds_port (submit_or_defer work s) = ds_port s"
  by (auto simp: submit_or_defer_def try_submit_def same_node_def Let_def)

lemma submit_no_panic: "ds_deferred_work s = None \<Longrightarrow> ds_panic (submit_or_defer work s) = ds_panic s"
  by (auto simp: submit_or_defer_def try_submit_def Let_def)

lemma submit_owned:
  "ds_deferred_work s = None \<Longrightarrow> owned_devices (submit_or_defer work s) = owned_devices s + work_devices work"
  by (auto simp: submit_or_defer_def try_submit_def owned_devices_def Let_def)

lemma queue_port_rebuild_owned:
  "ds_deferred_work s = None \<Longrightarrow> owned_devices (snd (queue_port_rebuild s)) = owned_devices s
     \<and> ds_panic (snd (queue_port_rebuild s)) = ds_panic s"
proof (cases "p_config (ds_port s)")
  case None
  then show ?thesis by (simp add: queue_port_rebuild_def)
next
  case (Some c)
  assume d: "ds_deferred_work s = None"
  let ?t = "submit_or_defer (Rebuild (port_rebuild_request c s)) s"
  have "owned_devices (upd_port (\<lambda>port. port\<lparr> p_rebuild_pending := True \<rparr>) ?t) = owned_devices ?t"
    by (simp add: owned_devices_def)
  then show ?thesis using submit_owned [OF d] submit_no_panic [OF d] Some
    by (simp add: queue_port_rebuild_def port_rebuild_request_def)
qed

lemma queue_rebuild_owned:
  "owned_devices (snd (queue_rebuild s)) = owned_devices s \<and> ds_panic (snd (queue_rebuild s)) = ds_panic s"
proof (cases "ds_rebuild_takeover s")
  case True
  then show ?thesis by (simp add: queue_rebuild_def)
next
  case False
  then show ?thesis
    using flush_owned [of s] flush_same_node [of s] queue_port_rebuild_owned [of "snd (flush_deferred_work s)"]
    by (cases s rule: flush_cases) (simp_all add: queue_rebuild_def case_prod_beta Let_def)
qed

text \<open>What queueing does to the port: nothing but the claim.\<close>

lemma queue_port_rebuild_port:
  "ds_port (snd (queue_port_rebuild t)) = (if fst (queue_port_rebuild t)
      then (ds_port t)\<lparr> p_rebuild_pending := True \<rparr> else ds_port t)
   \<and> same_node t (snd (queue_port_rebuild t))"
  using submit_same_node [of t] by (auto simp: queue_port_rebuild_def same_node_def split: option.splits)

lemma queue_rebuild_port:
  "ds_port (snd (queue_rebuild s)) = (if fst (queue_rebuild s)
      then (ds_port s)\<lparr> p_rebuild_pending := True \<rparr> else ds_port s)
   \<and> same_node s (snd (queue_rebuild s))"
  using flush_same_node [of s] queue_port_rebuild_port [of "snd (flush_deferred_work s)"] same_node_trans
  by (auto simp: queue_rebuild_def case_prod_beta Let_def)

lemma queue_required_same_node: "same_node s (queue_required_rebuilds s)"
  using queue_rebuild_port [of s] by (simp add: queue_required_rebuilds_def)

lemma queue_required_port:
  "ds_port (queue_required_rebuilds s) = ds_port s
   \<or> ds_port (queue_required_rebuilds s) = (ds_port s)\<lparr> p_rebuild_pending := True \<rparr>"
  using queue_rebuild_port [of s] by (auto simp: queue_required_rebuilds_def)

section \<open>Lemmas on the worker's task\<close>

fun opened_devices :: "'d task_event list \<Rightarrow> 'd list" where
  "opened_devices [] = []"
| "opened_devices (Opens d # es) = d # opened_devices es"
| "opened_devices (Closes d # es) = opened_devices es"

fun closed_devices :: "'d task_event list \<Rightarrow> 'd list" where
  "closed_devices [] = []"
| "closed_devices (Opens d # es) = closed_devices es"
| "closed_devices (Closes d # es) = d # closed_devices es"

text \<open>What the outcome of a task says of the one device it opened.\<close>

definition outcome_of_open ::
    "('d, 'p) rebuild_request \<Rightarrow> (int + configure_outcome) \<times> 'd \<Rightarrow> 'd list \<Rightarrow> ('d, 'p) swap_outcome \<Rightarrow> bool" where
  "outcome_of_open request answer opened outcome \<longleftrightarrow>
     (case outcome of
        Installed d config geometry \<Rightarrow> opened = [d]
          \<and> (\<exists>c. answer = (Inr c, d) \<and> config = co_actual_config c \<and> geometry = co_applied_buffer c)
      | RetireAndRetry r d \<Rightarrow> opened = [d] \<and> answer = (Inl EBUSY_code, d) \<and> \<not> rq_retried request
          \<and> r = request\<lparr> rq_retried := True, rq_retire_first := None \<rparr>
      | SwapFailed d \<Rightarrow> opened = [d] \<and> (\<exists>e. answer = (Inl e, d) \<and> (rq_retried request \<or> e \<noteq> EBUSY_code))
      | Aborted \<Rightarrow> True)"

lemma open_outcome_meets: "outcome_of_open request answer [snd answer] (open_outcome request answer)"
  by (cases answer) (auto simp: outcome_of_open_def open_outcome_def split: sum.split)

lemma open_outcome_live: "open_outcome request answer \<noteq> Aborted"
  by (auto simp: open_outcome_def split: sum.split prod.split)

lemma open_outcome_devices: "outcome_devices (open_outcome request answer) = {# snd answer #}"
  by (auto simp: open_outcome_def split: sum.split prod.split)

text \<open>C10. The worker opens a device only for a node that still asks for it, and keeps none it should not
  keep, also when a close or an open unwinds. Every task of a live node deposits one answer, for the
  port and generation of its request. A device is opened exactly when the request is current before the
  open - the node alive, started, the port's generation unchanged - and the retired device is destroyed
  before anything else happens, so an exclusive device is free by then. The answer is not \<open>Aborted\<close>
  exactly when the request was current before and after an open that returned; then it carries the device
  opened, as installed with what the open reported, for a retry after the first EBUSY, or as failed.
  The devices in the answer and those destroyed are together the one to retire and the one opened, each
  once: a device opened for a request that went stale is destroyed on the worker.\<close>

theorem worker_deposits_only_for_current_requests:
  "let (deposit, events) = rebuild_task D sh0 sh1 sh2 run request;
       current1 = rebuild_request_is_current sh1 (rq_generation request);
       current2 = rebuild_request_is_current sh2 (rq_generation request);
       close_unwinds = (run = CloseUnwinds \<and> rq_retire_first request \<noteq> None);
       answer = dn_try_open_configure D (rq_config request) (rq_properties request) (dn_new D (rq_path request))
   in (deposit = None \<longleftrightarrow> \<not> sh_alive sh0)
    \<and> (opened_devices events \<noteq> [] \<longleftrightarrow> sh_alive sh0 \<and> \<not> close_unwinds \<and> current1)
    \<and> (case rq_retire_first request of Some old \<Rightarrow> take 1 events = [Closes old] | None \<Rightarrow> True)
    \<and> held swap_devices deposit + mset (closed_devices events)
        = request_devices request + mset (opened_devices events)
    \<and> (case deposit of None \<Rightarrow> True
       | Some sw \<Rightarrow> dv_generation sw = rq_generation request \<and> dv_port_idx sw = rq_port_idx request
          \<and> (dv_outcome sw \<noteq> Aborted \<longleftrightarrow> current1 \<and> current2 \<and> \<not> close_unwinds \<and> (\<forall>d. run \<noteq> OpenUnwinds d))
          \<and> outcome_of_open request answer (opened_devices events) (dv_outcome sw))"
proof -
  let ?o = "dn_try_open_configure D (rq_config request) (rq_properties request) (dn_new D (rq_path request))"
  let ?gone = "\<not> sh_alive sh0"
  note facts = open_outcome_meets [of request ?o] open_outcome_live [of request ?o] open_outcome_devices [of request ?o]
  note unfolds = rebuild_task_def guard_complete_def guard_unwound_def swap_devices_def outcome_of_open_def
    request_devices_def Let_def
  consider (gone) ?gone | (unwound) "\<not> ?gone" "run = CloseUnwinds" "rq_retire_first request \<noteq> None"
    | (stale) "\<not> ?gone" "\<not> (run = CloseUnwinds \<and> rq_retire_first request \<noteq> None)"
        "\<not> rebuild_request_is_current sh1 (rq_generation request)"
    | (run) "\<not> ?gone" "\<not> (run = CloseUnwinds \<and> rq_retire_first request \<noteq> None)"
        "rebuild_request_is_current sh1 (rq_generation request)" by blast
  then show ?thesis
  proof cases
    case run
    show ?thesis
    proof (cases "\<exists>d. run = OpenUnwinds d")
      case True
      then show ?thesis using run by (auto simp: unfolds split: option.split)
    next
      case False
      show ?thesis
        using run False facts
        by (cases run; cases "rebuild_request_is_current sh2 (rq_generation request)"; cases "rq_retire_first request")
          (simp_all add: rebuild_task_def guard_complete_def swap_devices_def request_devices_def Let_def, simp_all add: outcome_of_open_def)
    qed
  qed (auto simp: unfolds split: option.split)
qed

end
