(* ===== verification/Timing.thy ===== *)
theory Timing
  imports RebuildWork
begin

text \<open>
  Wakes, deadlines and the driver servo (crates/core/src/node/timing.rs). Deadlines are computed in f64 by the code and in reals here; the conversion back to u64
  truncates and saturates as Rust's \<open>as\<close> does.
\<close>

section \<open>Clock names\<close>

definition set_clock_name :: "byte list \<Rightarrow> spa_io_clock \<Rightarrow> spa_io_clock" where
  "set_clock_name name clock =
     (let bytes = take 63 (name @ [0])
      in clock\<lparr> clk_name := (bytes @ drop (length bytes) (clk_name clock))[63 := 0] \<rparr>)"

definition same_clock :: "spa_io_position \<Rightarrow> byte list \<Rightarrow> bool" where
  "same_clock position ours =
     (let theirs = clk_name (pos_clock position)
      in if ours = [] \<or> length ours \<ge> length theirs \<or> theirs ! 0 = 0 then False
         else if take (length ours) theirs \<noteq> ours then False
         else theirs ! length ours = 0)"

section \<open>Deadlines\<close>

definition f64_as_u64 :: "real \<Rightarrow> u64" where
  "f64_as_u64 x = min (nat \<lfloor>x\<rfloor>) u64_max"

definition driver_wake_deadline :: "bool \<Rightarrow> bool \<Rightarrow> bool \<Rightarrow> bool \<Rightarrow> u64 \<Rightarrow> u64" where
  "driver_wake_deadline started following has_position has_clock next_time =
     (if started \<and> \<not> following \<and> has_position \<and> has_clock then next_time else 0)"

definition watchdog_grace :: "u64 \<Rightarrow> u32 \<Rightarrow> u64" where
  "watchdog_grace duration rate =
     (if duration = 0 \<or> rate = 0 then 0
      else min (max (duration * nsec_per_sec div rate div 8) 1) u64_max)"

definition watchdog_deadline :: "u64 \<Rightarrow> bool \<Rightarrow> u64 \<Rightarrow> u32 \<Rightarrow> u64" where
  "watchdog_deadline deadline device_armed duration rate =
     (if deadline = 0 \<or> \<not> device_armed then deadline
      else sat_add64 deadline (watchdog_grace duration rate))"

definition wake_is_from_previous_cycle :: "u64 \<Rightarrow> u64 \<Rightarrow> u64 \<Rightarrow> u32 \<Rightarrow> bool" where
  "wake_is_from_previous_cycle now deadline duration rate =
     (if deadline = 0 \<or> duration = 0 \<or> rate = 0 then False
      else sat_add64 now (watchdog_grace duration rate) < deadline)"

definition timing_error_bytes :: "u64 \<Rightarrow> u64 \<Rightarrow> u32 \<Rightarrow> u32 \<Rightarrow> real" where
  "timing_error_bytes actual expected rate stride =
     (let magnitude = real (abs_diff actual expected) * real rate * real stride / real nsec_per_sec
      in if actual \<ge> expected then magnitude else - magnitude)"

definition advance_deadline :: "u64 \<Rightarrow> u64 \<Rightarrow> u32 \<Rightarrow> real \<Rightarrow> u64" where
  "advance_deadline deadline duration rate corr =
     sat_add64 deadline (f64_as_u64 (real duration * real nsec_per_sec / (real rate * corr)))"

definition deadline_delay :: "u64 \<Rightarrow> u64 \<Rightarrow> u64" where
  "deadline_delay deadline now = max (deadline - now) 1"

section \<open>The timer\<close>

definition arm_timer ::
    "('d, 'p, 'x, 's, 'w) direction \<Rightarrow> u64 \<Rightarrow> bool \<Rightarrow> ('d, 'p, 'x, 's, 'w) data_state \<Rightarrow> ('d, 'p, 'x, 's, 'w) data_state" where
  "arm_timer D value_ns absolute s =
     (case ds_wake_driver s of
        Some driver \<Rightarrow>
          let (delay_ns, s) =
            (if value_ns = 0 \<or> \<not> absolute then (value_ns, s)
             else let (now, s) = try_now_ns s
                  in (case now of Some now \<Rightarrow> deadline_delay value_ns now
                      | None \<Rightarrow> nsec_per_sec div 100, s))
          in s\<lparr> ds_wake_driver := Some (snd (wk_arm_timer (dn_wake D) delay_ns driver)) \<rparr>
      | None \<Rightarrow>
          case ds_timer_fd s of
            Some _ \<Rightarrow> s\<lparr> ds_timer_fd := Some (value_ns, absolute) \<rparr>
          | None \<Rightarrow> s\<lparr> ds_panic := True \<rparr>)"

definition set_timeout ::
    "('d, 'p, 'x, 's, 'w) direction \<Rightarrow> u64 \<Rightarrow> ('d, 'p, 'x, 's, 'w) data_state \<Rightarrow> ('d, 'p, 'x, 's, 'w) data_state" where
  "set_timeout D next_time s = arm_timer D next_time True s"

definition set_timeout_rel ::
    "('d, 'p, 'x, 's, 'w) direction \<Rightarrow> u64 \<Rightarrow> ('d, 'p, 'x, 's, 'w) data_state \<Rightarrow> ('d, 'p, 'x, 's, 'w) data_state" where
  "set_timeout_rel D delay_ns s =
     arm_timer D delay_ns False (if delay_ns > 0 then s else s\<lparr> ds_panic := True \<rparr>)"

section \<open>Stream wakes\<close>

definition deposit_stream_wake :: "stream_wake \<Rightarrow> ('d, 'x) port \<Rightarrow> bool \<times> ('d, 'x) port" where
  "deposit_stream_wake event port =
     (if stream_identity_of port = sw_stream event
      then (True, port\<lparr> p_rebuild_required := p_rebuild_required port \<or> wake_state_requires_rebuild (sw_state event),
                        p_stream_wake := Some event \<rparr>)
      else (False, port))"

definition observed_wake_timestamp :: "('d, 'x) port \<Rightarrow> u64 option" where
  "observed_wake_timestamp port =
     (case p_stream_wake port of
        None \<Rightarrow> None
      | Some event \<Rightarrow>
          if sw_stream event \<noteq> stream_identity_of port then None
          else case sw_clock event of
                 None \<Rightarrow> None
               | Some clock \<Rightarrow> map_option to_monotonic_ns (co_timestamp clock))"

definition disable_device_wake ::
    "('d, 'p, 'x, 's, 'w) direction \<Rightarrow> ('d, 'p, 'x, 's, 'w) data_state \<Rightarrow> ('d, 'p, 'x, 's, 'w) data_state" where
  "disable_device_wake D s =
     (let s = s\<lparr> ds_wake_driver := map_option (\<lambda>driver. snd (wk_unregister_stream (dn_wake D) driver)) (ds_wake_driver s) \<rparr>
      in upd_port (\<lambda>port. port\<lparr> p_stream_wake := None \<rparr>) s)"

definition invalidate_device_wake ::
    "('d, 'p, 'x, 's, 'w) direction \<Rightarrow> ('d, 'p, 'x, 's, 'w) data_state \<Rightarrow> ('d, 'p, 'x, 's, 'w) data_state" where
  "invalidate_device_wake D s = (disable_device_wake D s)\<lparr> ds_wake_failed_stream := None \<rparr>"

definition drives :: "('d, 'p, 'x, 's, 'w) data_state \<Rightarrow> bool" where
  "drives s \<longleftrightarrow> ds_started s \<and> \<not> ds_following s \<and> ds_position s \<noteq> None \<and> ds_clock s \<noteq> None"

definition wake_candidate ::
    "('d, 'p, 'x, 's, 'w) direction \<Rightarrow> ('d, 'p, 'x, 's, 'w) data_state \<Rightarrow> (stream_identity \<times> wake_buffer_state) option" where
  "wake_candidate D s =
     (let port = ds_port s
      in if drives s \<and> dn_is_running D (p_dsp port) \<and> \<not> p_rebuild_pending port
            \<and> \<not> p_rebuild_required port \<and> p_setup_period port \<noteq> 0
         then Some (stream_identity_of port, dn_wake_buffer_state D port) else None)"

definition refresh_device_wake_inner ::
    "('d, 'p, 'x, 's, 'w) direction \<Rightarrow> bool \<Rightarrow> ('d, 'p, 'x, 's, 'w) data_state \<Rightarrow> bool \<times> ('d, 'p, 'x, 's, 'w) data_state" where
  "refresh_device_wake_inner D retry_failed s =
     (case ds_wake_driver s of
        None \<Rightarrow> (False, s)
      | Some driver \<Rightarrow>
          case wake_candidate D s of
            None \<Rightarrow> (False, disable_device_wake D s)
          | Some (stream, buffer) \<Rightarrow>
              if ds_wake_failed_stream s = Some stream \<and> \<not> retry_failed then (False, s)
              else let s = (if ds_wake_failed_stream s \<noteq> None \<and> ds_wake_failed_stream s \<noteq> Some stream
                            then s\<lparr> ds_wake_failed_stream := None \<rparr> else s);
                       (res, dsp, driver) = wk_register_wake (dn_wake D) (p_dsp (ds_port s)) driver stream buffer;
                       s = upd_port (\<lambda>port. port\<lparr> p_dsp := dsp \<rparr>) s
                   in case res of
                        Inl _ \<Rightarrow>
                          (False, s\<lparr> ds_wake_driver := Some (snd (wk_unregister_stream (dn_wake D) driver)),
                                     ds_wake_failed_stream := Some stream \<rparr>)
                      | Inr _ \<Rightarrow>
                          (True, s\<lparr> ds_wake_driver := Some driver, ds_wake_failed_stream := None \<rparr>))"

definition refresh_device_wake ::
    "('d, 'p, 'x, 's, 'w) direction \<Rightarrow> ('d, 'p, 'x, 's, 'w) data_state \<Rightarrow> bool \<times> ('d, 'p, 'x, 's, 'w) data_state" where
  "refresh_device_wake D s = refresh_device_wake_inner D False s"

definition target_cycle :: "('d, 'p, 'x, 's, 'w) data_state \<Rightarrow> u64 \<times> u32" where
  "target_cycle s =
     (case ds_position s of
        None \<Rightarrow> (0, 0)
      | Some p \<Rightarrow> (clk_target_duration (pos_clock p), fr_denom (clk_target_rate (pos_clock p))))"

definition select_next_wake ::
    "('d, 'p, 'x, 's, 'w) direction \<Rightarrow> ('d, 'p, 'x, 's, 'w) data_state \<Rightarrow> ('d, 'p, 'x, 's, 'w) data_state" where
  "select_next_wake D s =
     (let deadline = driver_wake_deadline (ds_started s) (ds_following s) (ds_position s \<noteq> None)
                       (ds_clock s \<noteq> None) (ds_next_time s);
          (device_armed, s) = refresh_device_wake D s;
          (duration, rate) = target_cycle s
      in set_timeout D (watchdog_deadline deadline device_armed duration rate) s)"

definition update_driver_wake ::
    "('d, 'p, 'x, 's, 'w) direction \<Rightarrow> ('d, 'p, 'x, 's, 'w) data_state \<Rightarrow> ('d, 'p, 'x, 's, 'w) data_state" where
  "update_driver_wake D s =
     (if \<not> (ds_started s \<and> \<not> ds_following s \<and> ds_position s \<noteq> None)
      then set_timeout D 0 (snd (refresh_device_wake D s))
      else let s = snd (refresh_device_wake_inner D True s); (now, s) = try_now_ns s
           in case now of
                Some now \<Rightarrow> set_timeout D now (s\<lparr> ds_next_time := now \<rparr>)
              | None \<Rightarrow> set_timeout_rel D (nsec_per_sec div 100) s)"

section \<open>The wake cycle\<close>

datatype wake_kind = WakeTimer | WakeStream wake_timing

datatype servo_basis = FillBasis | TimingBasis

definition drain_wake ::
    "('d, 'p, 'x, 's, 'w) direction \<Rightarrow> ('d, 'p, 'x, 's, 'w) data_state \<Rightarrow> wake_kind option \<times> ('d, 'p, 'x, 's, 'w) data_state" where
  "drain_wake D s =
     (case ds_wake_driver s of
        Some driver \<Rightarrow>
          let (ev, driver) = wk_next_event (dn_wake D) driver; s = s\<lparr> ds_wake_driver := Some driver \<rparr>
          in (case ev of
                Inr (Some TimerEvent) \<Rightarrow>
                  (Some WakeTimer, upd_port (\<lambda>port. port\<lparr> p_stream_wake := None \<rparr>) s)
              | Inr (Some (StreamEvent event)) \<Rightarrow>
                  let (ok, port) = deposit_stream_wake event (ds_port s)
                  in if ok then (Some (WakeStream (sw_timing event)), s\<lparr> ds_port := port \<rparr>)
                     else (None, s\<lparr> ds_port := port \<rparr>)
              | Inr None \<Rightarrow> (None, s)
              | Inl _ \<Rightarrow> (None, s))
      | None \<Rightarrow>
          case ds_timer_fd s of
            None \<Rightarrow> (None, s\<lparr> ds_panic := True \<rparr>)
          | Some _ \<Rightarrow>
              (case ds_timer_expired s of
                 True # rest \<Rightarrow>
                   (Some WakeTimer, upd_port (\<lambda>port. port\<lparr> p_stream_wake := None \<rparr>) (s\<lparr> ds_timer_expired := rest \<rparr>))
               | False # rest \<Rightarrow> (None, s\<lparr> ds_timer_expired := rest \<rparr>)
               | [] \<Rightarrow> (None, s)))"

text \<open>The servo over the node's one port. \<open>as i64\<close> values and products wrap at 64 bits.\<close>

definition wrap_i64 :: "int \<Rightarrow> int" where
  "wrap_i64 n = (n + 9223372036854775808) mod 18446744073709551616 - 9223372036854775808"

definition servo_max_err :: "u32 \<Rightarrow> u32 \<Rightarrow> real" where
  "servo_max_err setup_period stride = max (real setup_period / 2) (256 * real stride)"

definition driver_servo ::
    "('d, 'p, 'x, 's, 'w) direction \<Rightarrow> u64 \<Rightarrow> u32 \<Rightarrow> servo_basis \<Rightarrow> ('d, 'p, 'x, 's, 'w) data_state
       \<Rightarrow> (real \<times> int) \<times> ('d, 'p, 'x, 's, 'w) data_state" where
  "driver_servo D nsec rate basis s =
     (let port = ds_port s
      in case stride_rate port of
        None \<Rightarrow> ((1, 0), s)
      | Some (stride, device_rate0) \<Rightarrow>
          let device_rate = max device_rate0 1
          in if \<not> dn_is_running D (p_dsp port) \<or> p_setup_period port = 0 \<or> p_rebuild_pending port
                \<or> p_rebuild_required port \<or> \<not> dn_servo_ready D port
             then ((1, 0), s)
             else let (fill, port) = dn_servo_fill D port;
                      resamp = (case p_rate_match port of Some rm \<Rightarrow> int (rm_delay rm) | None \<Rightarrow> 0);
                      delay = wrap_i64 (wrap_i64 ((int fill div int stride) * int rate) div int device_rate + resamp)
                  in if dn_servo_hold D port then ((1, delay), s\<lparr> ds_port := port \<rparr>)
                     else let err_raw = (case basis of
                                TimingBasis \<Rightarrow> timing_error_bytes nsec (ds_next_time s) device_rate stride
                              | FillBasis \<Rightarrow> dn_servo_err D port fill);
                              max_err = servo_max_err (p_setup_period port) stride;
                              err = clamp err_raw (- max_err) max_err;
                              (corr, dll) = dll_update err (p_dll port);
                              (adapt, dll) = (case basis of
                                TimingBasis \<Rightarrow> update_timing err nsec (p_bw_adapt port, dll)
                              | FillBasis \<Rightarrow> update_fill err nsec (p_bw_adapt port, dll))
                          in if \<not> (1 / 2 \<le> corr \<and> corr \<le> 2)
                             then ((1, delay), s\<lparr> ds_port := port\<lparr> p_dll := dll_init dll, p_bw_adapt := bw_reset adapt \<rparr> \<rparr>)
                             else ((corr, delay), s\<lparr> ds_port := port\<lparr> p_dll := dll, p_bw_adapt := adapt \<rparr> \<rparr>))"

definition publish_clock :: "u64 \<Rightarrow> u64 \<Rightarrow> int \<Rightarrow> real \<Rightarrow> u64 \<Rightarrow> spa_io_clock \<Rightarrow> spa_io_clock" where
  "publish_clock nsec duration delay corr next_time c =
     c\<lparr> clk_nsec := nsec, clk_rate := clk_target_rate c,
        clk_position := (clk_position c + clk_duration c) mod 18446744073709551616,
        clk_duration := duration, clk_delay := delay, clk_rate_diff := corr, clk_next_nsec := next_time \<rparr>"

text \<open>The wake cycle is taken in three pieces: the re-anchoring after a stall, the cycle once the
  clock has been read, and the whole.\<close>

definition resync :: "u64 \<Rightarrow> ('d, 'p, 'x, 's, 'w) data_state \<Rightarrow> ('d, 'p, 'x, 's, 'w) data_state" where
  "resync now s = s\<lparr> ds_next_time := (if now - ds_next_time s > nsec_per_sec then now else ds_next_time s) \<rparr>"

definition timing_observation :: "wake_kind \<Rightarrow> u64 \<Rightarrow> ('d, 'x) port \<Rightarrow> u64 option" where
  "timing_observation wake now port =
     (case wake of
        WakeStream NotificationTime \<Rightarrow> Some now
      | WakeStream ObservedTime \<Rightarrow> observed_wake_timestamp port
      | WakeStream Readiness \<Rightarrow> None
      | WakeTimer \<Rightarrow> None)"

definition run_cycle ::
    "('d, 'p, 'x, 's, 'w) direction \<Rightarrow> wake_kind \<Rightarrow> u64 \<Rightarrow> ('d, 'p, 'x, 's, 'w) data_state
       \<Rightarrow> nat option option \<times> ('d, 'p, 'x, 's, 'w) data_state" where
  "run_cycle D wake now s =
     (let (duration, rate) = target_cycle s
      in if wake_is_from_previous_cycle now (ds_next_time s) duration rate
         then (None, select_next_wake D (upd_port (\<lambda>port. port\<lparr> p_stream_wake := None \<rparr>) s))
         else let s = resync now s;
                  observation = timing_observation wake now (ds_port s);
                  nsec = (case observation of Some t \<Rightarrow> t | None \<Rightarrow> ds_next_time s);
                  basis = (if observation \<noteq> None then TimingBasis else FillBasis)
              in if duration = 0 \<or> rate = 0
                 then let s = s\<lparr> ds_next_time := (nsec + nsec_per_sec div 100) mod 18446744073709551616 \<rparr>
                      in (None, set_timeout D (ds_next_time s) (disable_device_wake D s))
                 else let ((corr, delay), s) = driver_servo D nsec rate basis s;
                          next_time = advance_deadline (ds_next_time s) duration rate corr
                      in (Some (ds_callbacks s),
                          s\<lparr> ds_next_time := next_time,
                             ds_clock := map_option (publish_clock nsec duration delay corr next_time) (ds_clock s) \<rparr>))"

definition wake_cycle ::
    "('d, 'p, 'x, 's, 'w) direction \<Rightarrow> ('d, 'p, 'x, 's, 'w) data_state
       \<Rightarrow> nat option option \<times> ('d, 'p, 'x, 's, 'w) data_state" where
  "wake_cycle D s =
     (let (wake, s) = drain_wake D s
      in case wake of
        None \<Rightarrow> (None, select_next_wake D s)
      | Some wake \<Rightarrow>
          if \<not> ds_started s \<or> ds_following s then (None, select_next_wake D s)
          else if ds_position s = None \<or> ds_clock s = None then (None, select_next_wake D s)
          else let s = queue_required_rebuilds s; (now, s) = try_now_ns s
          in case now of
            None \<Rightarrow> (None, set_timeout_rel D (nsec_per_sec div 100) (disable_device_wake D s))
          | Some now \<Rightarrow> run_cycle D wake now s)"

text \<open>\<open>on_wake\<close>: the cycle, the host's \<open>ready\<close> callback, and the epilogue. The callback runs host code
  and, through it, any re-entrant calls into the node; it is the parameter \<open>ready\<close>.\<close>

definition on_wake ::
    "('d, 'p, 'x, 's, 'w) direction
       \<Rightarrow> (nat \<Rightarrow> ('d, 'p, 'x, 's, 'w) data_state \<Rightarrow> ('d, 'p, 'x, 's, 'w) data_state)
       \<Rightarrow> ('d, 'p, 'x, 's, 'w) data_state \<Rightarrow> ('d, 'p, 'x, 's, 'w) data_state" where
  "on_wake D ready s =
     (let (notify, s) = wake_cycle D s
      in case notify of
        None \<Rightarrow> s
      | Some hook \<Rightarrow>
          let s = (case hook of
                None \<Rightarrow> s
              | Some cb \<Rightarrow> (ready cb (s\<lparr> ds_ready_dispatching := True \<rparr>))\<lparr> ds_ready_dispatching := False \<rparr>)
          in select_next_wake D s)"

section \<open>Clock names: lemmas\<close>

lemma set_clock_name_shape:
  assumes "length (clk_name clock) = 64" "length name \<le> 63"
  shows "length (clk_name (set_clock_name name clock)) = 64"
    "take (length name) (clk_name (set_clock_name name clock)) = name"
    "clk_name (set_clock_name name clock) ! length name = 0"
proof -
  let ?b = "take 63 (name @ [0])"
  let ?l = "?b @ drop (length ?b) (clk_name clock)"
  have eq: "clk_name (set_clock_name name clock) = ?l[63 := 0]"
    by (simp add: set_clock_name_def Let_def)
  have len: "length ?l = 64" using assms by simp
  show "length (clk_name (set_clock_name name clock)) = 64" unfolding eq using len by simp
  have tk: "take (length name) ?l = name" using assms(2) by (simp add: min_def)
  show "take (length name) (clk_name (set_clock_name name clock)) = name"
    unfolding eq using tk assms(2) by (simp add: take_update_cancel)
  show "clk_name (set_clock_name name clock) ! length name = 0"
  proof (cases "length name = 63")
    case True
    then show ?thesis unfolding eq using len by (simp del: take_append)
  next
    case False
    then have "?b = name @ [0]" using assms(2) by simp
    then show ?thesis unfolding eq using False len by (simp add: nth_append del: take_append)
  qed
qed

text \<open>Two nodes share a clock exactly when they were named after the same device: once a driver
  has stamped its clock name into the 64-byte field, the comparison a follower runs answers yes for
  that name and no for every other name (a prefix or an extension included).\<close>

theorem same_clock_recognises_exactly_the_stamped_name:
  assumes "length (clk_name clock) = 64" "length name \<le> 63" "name \<noteq> []" "0 \<notin> set name" "0 \<notin> set other"
  shows "same_clock \<lparr> pos_clock = set_clock_name name clock \<rparr> other \<longleftrightarrow> other = name"
proof -
  let ?t = "clk_name (set_clock_name name clock)"
  note sh = set_clock_name_shape [OF assms(1,2)]
  have nn: "?t ! i = name ! i" if "i < length name" for i
    using sh(2) that by (metis nth_take)
  have t0: "?t ! 0 \<noteq> 0" using nn [of 0] assms(3,4) by (metis length_greater_0_conv nth_mem)
  show ?thesis
  proof
    assume "other = name"
    then show "same_clock \<lparr> pos_clock = set_clock_name name clock \<rparr> other"
      using sh assms t0 by (simp add: same_clock_def Let_def)
  next
    assume sc: "same_clock \<lparr> pos_clock = set_clock_name name clock \<rparr> other"
    then have o: "length other < length ?t" "take (length other) ?t = other" "?t ! length other = 0"
      by (auto simp: same_clock_def Let_def split: if_splits)
    have "\<not> length other < length name"
      using nn [of "length other"] o(3) assms(4) nth_mem [of "length other" name] by auto
    moreover have "\<not> length name < length other"
    proof
      assume lt: "length name < length other"
      then have "other ! length name = ?t ! length name" using o(2) by (metis nth_take)
      then show False using sh(3) assms(5) nth_mem [OF lt] by simp
    qed
    ultimately have "length other = length name" by linarith
    then have "take (length other) ?t = take (length name) ?t" by (rule arg_cong)
    then show "other = name" unfolding o(2) sh(2) .
  qed
qed

definition sample_clock :: spa_io_clock where
  "sample_clock = \<lparr> clk_freewheel = False, clk_xrun_recover = False, clk_id = 7,
     clk_name = replicate 64 0, clk_nsec = 1000, clk_rate = \<lparr> fr_num = 1, fr_denom = 48000 \<rparr>,
     clk_position = 0, clk_duration = 0, clk_delay = 0, clk_rate_diff = 1, clk_next_nsec = 0,
     clk_target_rate = \<lparr> fr_num = 1, fr_denom = 48000 \<rparr>, clk_target_duration = 1024 \<rparr>"

theorem same_clock_recognises_exactly_the_stamped_name_witness:
  "\<not> same_clock \<lparr> pos_clock = set_clock_name [112, 99, 109, 48] sample_clock \<rparr> [112, 99, 109]"
proof -
  have "same_clock \<lparr> pos_clock = set_clock_name [112, 99, 109, 48] sample_clock \<rparr> [112, 99, 109]
      \<longleftrightarrow> [112, 99, 109] = [112, 99, 109, 48::byte]"
    by (rule same_clock_recognises_exactly_the_stamped_name) (simp_all add: sample_clock_def)
  then show ?thesis by simp
qed

section \<open>Deadlines: lemmas\<close>

lemma watchdog_grace_pos: "0 < duration \<Longrightarrow> 0 < rate \<Longrightarrow> 0 < watchdog_grace duration rate"
  by (simp add: watchdog_grace_def)

lemma watchdog_deadline_zero [simp]: "watchdog_deadline dl armed d r = 0 \<longleftrightarrow> dl = 0"
  by (auto simp: watchdog_deadline_def sat_add64_def)

lemma watchdog_deadline_parked [simp]: "watchdog_deadline 0 armed d r = 0"
  by simp

lemma deadline_delay_pos [simp]: "0 < deadline_delay dl now"
  by (simp add: deadline_delay_def)

lemma f64_as_u64_mono: "x \<le> y \<Longrightarrow> f64_as_u64 x \<le> f64_as_u64 y"
  unfolding f64_as_u64_def by (intro min.mono nat_mono floor_mono) auto

lemma f64_as_u64_div: "f64_as_u64 (real a / real b) = min (a div b) u64_max"
  by (simp add: f64_as_u64_def floor_divide_of_nat_eq)

lemma period_bounds:
  assumes "0 < rate" "1 / 2 \<le> corr" "corr \<le> 2"
  shows "min (duration * nsec_per_sec div (2 * rate)) u64_max
      \<le> f64_as_u64 (real duration * real nsec_per_sec / (real rate * corr))"
    "f64_as_u64 (real duration * real nsec_per_sec / (real rate * corr))
      \<le> min (2 * (duration * nsec_per_sec) div rate) u64_max"
proof -
  let ?n = "real duration * real nsec_per_sec"
  have c: "0 < corr" using assms(2) by simp
  have up: "real rate * corr \<le> real (2 * rate)" using assms by (simp add: mult.commute mult_left_mono)
  have lo: "real rate / 2 \<le> real rate * corr" using mult_left_mono [OF assms(2), of "real rate"] by simp
  have n0: "0 \<le> ?n" by simp
  have "real (duration * nsec_per_sec) / real (2 * rate) \<le> ?n / (real rate * corr)"
    using up c assms(1) n0 by (simp only: of_nat_mult) (rule divide_left_mono, simp_all)
  then show "min (duration * nsec_per_sec div (2 * rate)) u64_max \<le> f64_as_u64 (?n / (real rate * corr))"
    using f64_as_u64_mono f64_as_u64_div by metis
  have "?n / (real rate * corr) \<le> ?n / (real rate / 2)"
    using lo c assms(1) n0 by (intro divide_left_mono) simp_all
  also have "\<dots> = real (2 * (duration * nsec_per_sec)) / real rate" by simp
  finally show "f64_as_u64 (?n / (real rate * corr)) \<le> min (2 * (duration * nsec_per_sec) div rate) u64_max"
    using f64_as_u64_mono f64_as_u64_div by metis
qed

lemma advance_deadline_bounds:
  assumes "0 < rate" "1 / 2 \<le> corr" "corr \<le> 2"
  shows "min (deadline + duration * nsec_per_sec div (2 * rate)) u64_max \<le> advance_deadline deadline duration rate corr"
    "advance_deadline deadline duration rate corr \<le> deadline + 2 * (duration * nsec_per_sec) div rate"
  using period_bounds [OF assms, of duration] unfolding advance_deadline_def sat_add64_def
  by (simp_all add: min_def split: if_splits)

section \<open>What the operations of a wake leave alone\<close>

text \<open>The part of the state that decides whether the node drives the graph, and when.\<close>

definition same_drive :: "('d, 'p, 'x, 's, 'w) data_state \<Rightarrow> ('d, 'p, 'x, 's, 'w) data_state \<Rightarrow> bool" where
  "same_drive s s' \<longleftrightarrow> ds_started s' = ds_started s \<and> ds_following s' = ds_following s
     \<and> ds_position s' = ds_position s \<and> ds_clock s' = ds_clock s \<and> ds_next_time s' = ds_next_time s
     \<and> ds_callbacks s' = ds_callbacks s \<and> (ds_wake_driver s' = None \<longleftrightarrow> ds_wake_driver s = None)
     \<and> (ds_timer_fd s' = None \<longleftrightarrow> ds_timer_fd s = None)"

lemma same_drive_refl [simp]: "same_drive s s"
  by (simp add: same_drive_def)

lemma same_drive_trans: "same_drive s s' \<Longrightarrow> same_drive s' s'' \<Longrightarrow> same_drive s s''"
  by (simp add: same_drive_def)

lemma same_node_drive: "same_node s s' \<Longrightarrow> same_drive s s'"
  by (simp add: same_node_def same_drive_def)

lemma same_drive_drives: "same_drive s s' \<Longrightarrow> drives s' = drives s"
  by (simp add: same_drive_def drives_def)

lemma same_drive_target: "same_drive s s' \<Longrightarrow> target_cycle s' = target_cycle s"
  by (simp add: same_drive_def target_cycle_def)

lemma try_now_same_drive: "same_drive s (snd (try_now_ns s))"
  by (simp add: try_now_ns_def same_drive_def split: list.split)

lemma try_now_cons: "ds_clock_reads s = r # rs \<Longrightarrow> try_now_ns s = (r, s\<lparr> ds_clock_reads := rs \<rparr>)"
  by (simp add: try_now_ns_def)

lemma disable_same_drive: "same_drive s (disable_device_wake D s)"
  by (simp add: disable_device_wake_def same_drive_def Let_def)

lemma refresh_inner_same_drive: "same_drive s (snd (refresh_device_wake_inner D retry s))"
  using disable_same_drive [of s D]
  by (auto simp: refresh_device_wake_inner_def same_drive_def Let_def case_prod_beta
      split: option.split sum.split)

lemma arm_timer_same_drive: "same_drive s (arm_timer D v a s)"
  using try_now_same_drive [of s]
  by (auto simp: arm_timer_def same_drive_def Let_def case_prod_beta split: option.splits)

lemma select_same_drive: "same_drive s (select_next_wake D s)"
  using same_drive_trans [OF refresh_inner_same_drive [of s D False] arm_timer_same_drive]
  by (simp add: select_next_wake_def set_timeout_def refresh_device_wake_def Let_def case_prod_beta)

lemma drain_wake_same_drive:
  "same_drive s (snd (drain_wake D s)) \<and> ds_clock_reads (snd (drain_wake D s)) = ds_clock_reads s"
  by (auto simp: drain_wake_def same_drive_def Let_def case_prod_beta
      split: option.split sum.split wake_event.split list.split bool.split)

lemma driver_servo_port: "snd (driver_servo D nsec rate basis s) = s\<lparr> ds_port := ds_port (snd (driver_servo D nsec rate basis s)) \<rparr>"
  by (cases s) (simp add: driver_servo_def Let_def case_prod_beta split: option.split)

lemma driver_servo_same_drive: "same_drive s (snd (driver_servo D nsec rate basis s))"
  by (subst driver_servo_port) (simp add: same_drive_def)

lemma driver_servo_corr:
  "1 / 2 \<le> fst (fst (driver_servo D nsec rate basis s)) \<and> fst (fst (driver_servo D nsec rate basis s)) \<le> 2"
  by (simp add: driver_servo_def Let_def case_prod_beta split: option.split)

section \<open>The armed timer\<close>

text \<open>The last thing the node did to its timer was to arm it (or to park it).\<close>

definition armed :: "('d, 'p, 'x, 's, 'w) direction \<Rightarrow> ('d, 'p, 'x, 's, 'w) data_state \<Rightarrow> bool" where
  "armed D s = (case ds_wake_driver s of
      Some w \<Rightarrow> \<exists>w0 delay. 0 < delay \<and> w = snd (wk_arm_timer (dn_wake D) delay w0)
    | None \<Rightarrow> (case ds_timer_fd s of Some (v, _) \<Rightarrow> 0 < v | None \<Rightarrow> False))"

definition parked :: "('d, 'p, 'x, 's, 'w) direction \<Rightarrow> ('d, 'p, 'x, 's, 'w) data_state \<Rightarrow> bool" where
  "parked D s = (case ds_wake_driver s of
      Some w \<Rightarrow> \<exists>w0. w = snd (wk_arm_timer (dn_wake D) 0 w0)
    | None \<Rightarrow> (case ds_timer_fd s of Some (v, _) \<Rightarrow> v = 0 | None \<Rightarrow> False))"

definition has_timer :: "('d, 'p, 'x, 's, 'w) data_state \<Rightarrow> bool" where
  "has_timer s \<longleftrightarrow> ds_wake_driver s \<noteq> None \<or> ds_timer_fd s \<noteq> None"

lemma same_drive_has_timer: "same_drive s s' \<Longrightarrow> has_timer s' = has_timer s"
  by (simp add: same_drive_def has_timer_def)

lemma armedI:
  "ds_wake_driver s = Some (snd (wk_arm_timer (dn_wake D) delay w0)) \<Longrightarrow> 0 < delay \<Longrightarrow> armed D s"
  by (auto simp: armed_def)

lemma arm_timer_armed:
  assumes "has_timer s" "0 < v"
  shows "armed D (arm_timer D v a s)"
proof (cases "ds_wake_driver s")
  case None
  then show ?thesis using assms by (auto simp: arm_timer_def armed_def has_timer_def)
next
  case (Some w)
  let ?delay = "if v = 0 \<or> \<not> a then v
     else case fst (try_now_ns s) of Some now \<Rightarrow> deadline_delay v now | None \<Rightarrow> nsec_per_sec div 100"
  have "ds_wake_driver (arm_timer D v a s) = Some (snd (wk_arm_timer (dn_wake D) ?delay w))"
    using Some by (simp add: arm_timer_def Let_def case_prod_beta)
  moreover have "0 < ?delay" using assms(2) by (simp split: option.split)
  ultimately show ?thesis by (rule armedI)
qed

lemma arm_timer_parked: "has_timer s \<Longrightarrow> parked D (arm_timer D 0 a s)"
  by (auto simp: arm_timer_def parked_def has_timer_def Let_def split: option.splits)

text \<open>The timer stands as the state of the node demands.\<close>

definition timer_ready :: "('d, 'p, 'x, 's, 'w) direction \<Rightarrow> ('d, 'p, 'x, 's, 'w) data_state \<Rightarrow> bool" where
  "timer_ready D s \<longleftrightarrow> (if drives s then ds_next_time s = 0 \<or> armed D s else parked D s)"

lemma select_timer_ready:
  assumes "has_timer s"
  shows "timer_ready D (select_next_wake D s)"
proof -
  let ?r = "snd (refresh_device_wake D s)"
  let ?d = "driver_wake_deadline (ds_started s) (ds_following s) (ds_position s \<noteq> None)
              (ds_clock s \<noteq> None) (ds_next_time s)"
  let ?w = "watchdog_deadline ?d (fst (refresh_device_wake D s)) (fst (target_cycle ?r)) (snd (target_cycle ?r))"
  have eq: "select_next_wake D s = arm_timer D ?w True ?r"
    by (simp add: select_next_wake_def set_timeout_def Let_def case_prod_beta)
  have d: "?d = (if drives s then ds_next_time s else 0)"
    by (simp add: driver_wake_deadline_def drives_def)
  have ht: "has_timer ?r"
    using refresh_inner_same_drive [of s D False] assms same_drive_has_timer
    by (auto simp: refresh_device_wake_def)
  have sd: "same_drive s (select_next_wake D s)" by (rule select_same_drive)
  have n: "ds_next_time (select_next_wake D s) = ds_next_time s" "drives (select_next_wake D s) = drives s"
    using sd same_drive_drives [OF sd] by (simp_all add: same_drive_def)
  show ?thesis
  proof (cases "?w = 0")
    case True
    then have "?d = 0" by simp
    then show ?thesis unfolding timer_ready_def n using d
      by (cases "drives s") (simp_all add: eq True arm_timer_parked [OF ht])
  next
    case False
    then have "0 < ?w" by blast
    then have "armed D (select_next_wake D s)" unfolding eq by (intro arm_timer_armed [OF ht])
    moreover have "drives s" using False d by (cases "drives s") (simp_all add: watchdog_deadline_def)
    ultimately show ?thesis unfolding timer_ready_def n by simp
  qed
qed


lemma clear_wake_same_drive: "same_drive s (upd_port (\<lambda>port. port\<lparr> p_stream_wake := None \<rparr>) s)"
  by (simp add: same_drive_def)

lemma arm_timer_ready:
  assumes "has_timer s" "drives s" "0 < v"
  shows "timer_ready D (arm_timer D v a s)"
  using arm_timer_armed [OF assms(1,3), of D a] same_drive_drives [OF arm_timer_same_drive [of s D v a]] assms(2)
  by (simp add: timer_ready_def)

lemma resync_frame: "has_timer (resync now s) = has_timer s" "drives (resync now s) = drives s"
    "target_cycle (resync now s) = target_cycle s" "ds_clock (resync now s) = ds_clock s"
    "ds_callbacks (resync now s) = ds_callbacks s" "ds_port (resync now s) = ds_port s"
  by (simp_all add: resync_def has_timer_def drives_def target_cycle_def)

text \<open>The malformed-position exit: an idle tick of ten milliseconds.\<close>

lemma idle_tick_ready:
  assumes "has_timer t" "drives t"
  shows "timer_ready D (set_timeout D (ds_next_time t) (disable_device_wake D t))"
proof -
  let ?t = "disable_device_wake D t"
  have sd: "same_drive t ?t" by (rule disable_same_drive)
  have h: "has_timer ?t" "drives ?t" "ds_next_time ?t = ds_next_time t"
    using sd assms same_drive_has_timer [OF sd] same_drive_drives [OF sd] by (simp_all add: same_drive_def)
  show ?thesis
  proof (cases "ds_next_time t = 0")
    case True
    have "same_drive ?t (arm_timer D 0 True ?t)" by (rule arm_timer_same_drive)
    then show ?thesis using h True by (simp add: timer_ready_def set_timeout_def same_drive_def drives_def)
  next
    case False
    then show ?thesis unfolding set_timeout_def using arm_timer_ready [OF h(1,2)] by blast
  qed
qed

lemma run_cycle_early_exit:
  assumes "has_timer s" "drives s" "run_cycle D wake now s = (None, s')"
  shows "timer_ready D s'"
proof (cases "wake_is_from_previous_cycle now (ds_next_time s) (fst (target_cycle s)) (snd (target_cycle s))")
  case True
  let ?u = "upd_port (\<lambda>port. port\<lparr> p_stream_wake := None \<rparr>) s"
  have "s' = select_next_wake D ?u"
    using assms(3) True by (simp add: run_cycle_def case_prod_beta)
  moreover have "has_timer ?u" using assms(1) by (simp add: has_timer_def)
  ultimately show ?thesis using select_timer_ready by blast
next
  case False
  then obtain v where "s' = set_timeout D (ds_next_time ((resync now s)\<lparr> ds_next_time := v \<rparr>))
      (disable_device_wake D ((resync now s)\<lparr> ds_next_time := v \<rparr>))"
    using assms(3) by (auto simp: run_cycle_def case_prod_beta Let_def split: if_splits)
  moreover have "has_timer ((resync now s)\<lparr> ds_next_time := v \<rparr>)" "drives ((resync now s)\<lparr> ds_next_time := v \<rparr>)"
    using assms(1,2) resync_frame(1,2) [of now s] by (simp_all add: has_timer_def drives_def)
  ultimately show ?thesis using idle_tick_ready by blast
qed

text \<open>The full cycle, taken apart: the servo's correction and the clock it publishes.\<close>

lemma run_cycle_full:
  assumes "run_cycle D wake now s = (Some hook, s')"
  obtains nsec corr delay port where
    "\<not> wake_is_from_previous_cycle now (ds_next_time s) (fst (target_cycle s)) (snd (target_cycle s))"
    "0 < fst (target_cycle s)" "0 < snd (target_cycle s)" "hook = ds_callbacks s"
    "1 / 2 \<le> corr" "corr \<le> 2"
    "let next = advance_deadline (ds_next_time (resync now s)) (fst (target_cycle s)) (snd (target_cycle s)) corr
     in s' = s\<lparr> ds_port := port, ds_next_time := next,
           ds_clock := map_option (publish_clock nsec (fst (target_cycle s)) delay corr next) (ds_clock s) \<rparr>"
proof -
  let ?d = "fst (target_cycle s)" and ?r = "snd (target_cycle s)"
  let ?obs = "timing_observation wake now (ds_port (resync now s))"
  define nsec where "nsec = (case ?obs of Some t \<Rightarrow> t | None \<Rightarrow> ds_next_time (resync now s))"
  define basis where "basis = (if ?obs \<noteq> None then TimingBasis else FillBasis)"
  define q where "q = driver_servo D nsec ?r basis (resync now s)"
  have g: "\<not> wake_is_from_previous_cycle now (ds_next_time s) ?d ?r" "0 < ?d" "0 < ?r"
    using assms by (auto simp: run_cycle_def case_prod_beta Let_def split: if_splits)
  have eq: "(Some hook, s') = (let next = advance_deadline (ds_next_time (snd q)) ?d ?r (fst (fst q))
      in (Some (ds_callbacks (snd q)), (snd q)\<lparr> ds_next_time := next,
           ds_clock := map_option (publish_clock nsec ?d (snd (fst q)) (fst (fst q)) next) (ds_clock (snd q)) \<rparr>))"
    using assms g unfolding run_cycle_def q_def nsec_def basis_def
    by (simp add: case_prod_beta Let_def)
  have q: "snd q = (resync now s)\<lparr> ds_port := ds_port (snd q) \<rparr>"
    unfolding q_def by (rule driver_servo_port)
  have q1: "ds_next_time (snd q) = ds_next_time (resync now s)" "ds_callbacks (snd q) = ds_callbacks s"
      "ds_clock (snd q) = ds_clock s"
    by (subst q, simp add: resync_frame)+
  have q2: "(snd q)\<lparr> ds_next_time := n, ds_clock := c \<rparr> = s\<lparr> ds_port := ds_port (snd q), ds_next_time := n, ds_clock := c \<rparr>" for n c
    by (subst q) (simp add: resync_def)
  have corr: "1 / 2 \<le> fst (fst q)" "fst (fst q) \<le> 2" using driver_servo_corr unfolding q_def by blast+
  show thesis
    by (rule that [OF g _ corr, of nsec "snd (fst q)" "ds_port (snd q)"])
      (use eq q1 q2 in \<open>simp_all add: Let_def\<close>)
qed

text \<open>The state of the node when a wake has passed the drain and the ownership check.\<close>

definition drained :: "('d, 'p, 'x, 's, 'w) direction \<Rightarrow> ('d, 'p, 'x, 's, 'w) data_state \<Rightarrow> ('d, 'p, 'x, 's, 'w) data_state" where
  "drained D s = queue_required_rebuilds (snd (drain_wake D s))"

lemma drained_same_drive: "same_drive s (drained D s)"
  unfolding drained_def
  using same_drive_trans [OF conjunct1 [OF drain_wake_same_drive] same_node_drive [OF queue_required_same_node]] .

lemma drained_clock_reads: "ds_clock_reads (drained D s) = ds_clock_reads s"
  using queue_required_same_node [of "snd (drain_wake D s)"] drain_wake_same_drive [of s D]
  by (simp add: drained_def same_node_def)

lemma wake_cycle_cases:
  obtains (idle) "\<not> drives s \<or> fst (drain_wake D s) = None"
      "wake_cycle D s = (None, select_next_wake D (snd (drain_wake D s)))"
  | (blind) "drives s" "fst (try_now_ns (drained D s)) = None"
      "wake_cycle D s = (None, set_timeout_rel D (nsec_per_sec div 100) (disable_device_wake D (snd (try_now_ns (drained D s)))))"
  | (run) wake now where "drives s" "fst (drain_wake D s) = Some wake" "fst (try_now_ns (drained D s)) = Some now"
      "wake_cycle D s = run_cycle D wake now (snd (try_now_ns (drained D s)))"
proof -
  let ?s1 = "snd (drain_wake D s)"
  have sd1: "same_drive s ?s1" using drain_wake_same_drive by blast
  then have dr: "drives s = (ds_started ?s1 \<and> \<not> ds_following ?s1 \<and> ds_position ?s1 \<noteq> None \<and> ds_clock ?s1 \<noteq> None)"
    by (auto simp: same_drive_def drives_def)
  show thesis
  proof (cases "drives s \<and> fst (drain_wake D s) \<noteq> None")
    case False
    then show thesis
      by (intro idle) (use dr in \<open>auto simp: wake_cycle_def case_prod_beta Let_def split: option.split\<close>)
  next
    case True
    then obtain wake where w: "fst (drain_wake D s) = Some wake" by blast
    show thesis
    proof (cases "fst (try_now_ns (drained D s))")
      case None
      then show thesis using True dr w
        by (intro blind) (auto simp: wake_cycle_def drained_def case_prod_beta Let_def)
    next
      case (Some now)
      then show thesis using True dr w
        by (intro run [of wake now]) (auto simp: wake_cycle_def drained_def case_prod_beta Let_def)
    qed
  qed
qed

lemma read_same_drive: "same_drive s (snd (try_now_ns (drained D s)))"
  using drained_same_drive try_now_same_drive by (rule same_drive_trans)

text \<open>Every early exit of the wake cycle leaves the timer as the node's state demands.\<close>

lemma wake_cycle_early_exit:
  assumes "has_timer s" "wake_cycle D s = (None, s')"
  shows "timer_ready D s'"
proof (cases D s rule: wake_cycle_cases)
  case idle
  have "has_timer (snd (drain_wake D s))"
    using drain_wake_same_drive same_drive_has_timer assms(1) by blast
  then show ?thesis using idle(2) assms(2) select_timer_ready by simp
next
  case blind
  let ?t = "disable_device_wake D (snd (try_now_ns (drained D s)))"
  have sd: "same_drive s ?t" using read_same_drive disable_same_drive by (rule same_drive_trans)
  have "has_timer ?t" "drives ?t"
    using same_drive_has_timer [OF sd] same_drive_drives [OF sd] assms(1) blind(1) by simp_all
  then show ?thesis using blind(3) assms(2) arm_timer_ready [of ?t] by (simp add: set_timeout_rel_def)
next
  case (run wake now)
  have sd: "same_drive s (snd (try_now_ns (drained D s)))" by (rule read_same_drive)
  show ?thesis
    by (rule run_cycle_early_exit [of "snd (try_now_ns (drained D s))" D wake now])
      (use same_drive_has_timer [OF sd] same_drive_drives [OF sd] assms run in simp_all)
qed

text \<open>C8. The graph clock never stops: however a wake ends - a stale or spurious event, a
  transition that landed in between, a failed clock read, a malformed position, or a full cycle with
  whatever the host does inside its \<open>ready\<close> callback - the node that still drives the graph
  afterwards has its one-shot timer armed (with a deadline that is not 0), and the node that does
  not has it parked.\<close>

theorem every_wake_leaves_the_timer_ready:
  assumes "has_timer s" "\<And>cb t. has_timer t \<Longrightarrow> has_timer (ready cb t)"
  shows "timer_ready D (on_wake D ready s)"
proof (cases "fst (wake_cycle D s)")
  case None
  then show ?thesis
    using wake_cycle_early_exit [OF assms(1), of D "snd (wake_cycle D s)"]
    by (simp add: on_wake_def case_prod_beta prod_eq_iff)
next
  case (Some hook)
  let ?s1 = "snd (wake_cycle D s)"
  have "has_timer ?s1"
  proof (cases D s rule: wake_cycle_cases)
    case (run wake now)
    have ht: "has_timer (snd (try_now_ns (drained D s)))"
      using same_drive_has_timer [OF read_same_drive [of s D]] assms(1) by simp
    show ?thesis
      by (rule run_cycle_full [of D wake now "snd (try_now_ns (drained D s))" hook ?s1])
        (use Some run ht in \<open>simp_all add: has_timer_def Let_def prod_eq_iff\<close>)
  qed (use Some in simp_all)
  then have "has_timer (case hook of None \<Rightarrow> ?s1
      | Some cb \<Rightarrow> (ready cb (?s1\<lparr> ds_ready_dispatching := True \<rparr>))\<lparr> ds_ready_dispatching := False \<rparr>)"
    using assms(2) [of "?s1\<lparr> ds_ready_dispatching := True \<rparr>"]
    by (simp add: has_timer_def split: option.split)
  then show ?thesis using Some select_timer_ready
    by (simp add: on_wake_def case_prod_beta Let_def)
qed


section \<open>One graph cycle per deadline\<close>

text \<open>C9. One deadline starts one graph cycle. A wake whose clock reading lies more than the grace
  period before the node's deadline - the late half of a timer/device pair, or a spurious edge - drives
  nothing: no ready notification, the clock area and the deadline stay as they were, and the timer is
  ready for the deadline.\<close>

theorem early_wake_starts_no_cycle:
  assumes "has_timer s" "ds_clock_reads s = Some now # rest" "target_cycle s = (duration, rate)"
    and "0 < duration" "0 < rate" "now + watchdog_grace duration rate < ds_next_time s" "ds_next_time s \<le> u64_max"
  shows "let (notify, s') = wake_cycle D s
    in notify = None \<and> ds_clock s' = ds_clock s \<and> ds_next_time s' = ds_next_time s \<and> timer_ready D s'"
proof -
  let ?t = "snd (try_now_ns (drained D s))"
  have sd: "same_drive s ?t" by (rule read_same_drive)
  have now: "fst (try_now_ns (drained D s)) = Some now"
    using assms(2) drained_clock_reads [of D s] by (simp add: try_now_ns_def)
  have early: "wake_is_from_previous_cycle now (ds_next_time s) duration rate"
    using assms(4-7) by (simp add: wake_is_from_previous_cycle_def sat_add64_def min_def)
  have eq: "fst (wake_cycle D s) = None \<and> same_drive s (snd (wake_cycle D s))"
  proof (cases D s rule: wake_cycle_cases)
    case idle
    have "same_drive s (select_next_wake D (snd (drain_wake D s)))"
      using conjunct1 [OF drain_wake_same_drive] select_same_drive by (rule same_drive_trans)
    then show ?thesis using idle by simp
  next
    case blind
    then show ?thesis using now by simp
  next
    case (run wake now')
    let ?u = "upd_port (\<lambda>port. port\<lparr> p_stream_wake := None \<rparr>) ?t"
    have "target_cycle ?t = (duration, rate)" "ds_next_time ?t = ds_next_time s"
      using sd assms(3) same_drive_target [OF sd] by (simp_all add: same_drive_def)
    then have "wake_cycle D s = (None, select_next_wake D ?u)"
      using run now early by (simp add: run_cycle_def)
    moreover have "same_drive s (select_next_wake D ?u)"
      by (rule same_drive_trans [OF sd]) (rule same_drive_trans [OF clear_wake_same_drive select_same_drive])
    ultimately show ?thesis by simp
  qed
  then show ?thesis
    using wake_cycle_early_exit [OF assms(1), of D "snd (wake_cycle D s)"]
    by (simp add: case_prod_beta prod_eq_iff same_drive_def)
qed

text \<open>C7. A cycle that does run publishes a consistent clock: the position has moved by exactly the
  duration of the cycle before, the rate correction is within [1/2, 2] however wild the measurement,
  the announced next wake is the node's own deadline, and that deadline is at least half and at most
  twice a period after the one it follows (or than now, when more than a second behind), so the
  timeline never stalls and never runs away.\<close>

theorem full_cycle_publishes_a_consistent_clock:
  assumes "wake_cycle D s = (Some hook, s')" "target_cycle s = (duration, rate)" "ds_clock s = Some c"
    and "ds_clock_reads s = Some now # rest"
  shows "let anchor = (if now - ds_next_time s > nsec_per_sec then now else ds_next_time s)
    in \<exists>c'. ds_clock s' = Some c' \<and> clk_position c' = (clk_position c + clk_duration c) mod 2 ^ 64
      \<and> clk_duration c' = duration \<and> 1 / 2 \<le> clk_rate_diff c' \<and> clk_rate_diff c' \<le> 2
      \<and> clk_next_nsec c' = ds_next_time s'
      \<and> min (anchor + duration * nsec_per_sec div (2 * rate)) u64_max \<le> ds_next_time s'
      \<and> ds_next_time s' \<le> anchor + 2 * (duration * nsec_per_sec) div rate
      \<and> hook = ds_callbacks s"
proof -
  let ?t = "snd (try_now_ns (drained D s))"
  have sd: "same_drive s ?t" by (rule read_same_drive)
  have now: "fst (try_now_ns (drained D s)) = Some now"
    using assms(4) drained_clock_reads [of D s] by (simp add: try_now_ns_def)
  obtain wake where r: "run_cycle D wake now ?t = (Some hook, s')"
    using assms(1) now by (cases D s rule: wake_cycle_cases) auto
  have tc: "target_cycle ?t = (duration, rate)" "ds_next_time ?t = ds_next_time s" "ds_clock ?t = Some c"
    "ds_callbacks ?t = ds_callbacks s"
    using sd assms(2,3) same_drive_target [OF sd] by (simp_all add: same_drive_def)
  define anchor where "anchor = (if now - ds_next_time s > nsec_per_sec then now else ds_next_time s)"
  have a: "ds_next_time (resync now ?t) = anchor" using tc(2) by (simp add: resync_def anchor_def)
  from r obtain nsec corr delay port where *: "0 < rate" "1 / 2 \<le> corr" "corr \<le> 2" "hook = ds_callbacks s"
    "s' = ?t\<lparr> ds_port := port, ds_next_time := advance_deadline anchor duration rate corr,
        ds_clock := map_option (publish_clock nsec duration delay corr (advance_deadline anchor duration rate corr)) (Some c) \<rparr>"
    by (rule run_cycle_full) (simp_all add: tc a Let_def)
  show ?thesis
    unfolding Let_def anchor_def [symmetric]
    using *(1-4) advance_deadline_bounds [OF *(1-3), of anchor duration]
    by (simp add: *(5) publish_clock_def)
qed

text \<open>A wake of an earlier stream generation is never attributed to the stream that replaced
  it: it drives no cycle and leaves the port, its rebuild latch included, as it was.\<close>

theorem stale_stream_wake_is_ignored:
  assumes "ds_wake_driver s = Some w" "wk_next_event (dn_wake D) w = (Inr (Some (StreamEvent event)), w')"
    and "sw_stream event \<noteq> stream_identity_of (ds_port s)"
  shows "let (wake, s') = drain_wake D s
    in wake = None \<and> ds_port s' = ds_port s \<and> fst (wake_cycle D s) = None"
proof -
  have "drain_wake D s = (None, s\<lparr> ds_wake_driver := Some w' \<rparr>)"
    using assms by (cases s) (simp add: drain_wake_def deposit_stream_wake_def)
  then show ?thesis
    by (cases D s rule: wake_cycle_cases) (simp_all add: Let_def)
qed

section \<open>Witnesses\<close>

text \<open>A node that drives a graph with 1024-frame periods at 48 kHz from the SPA timer.\<close>

definition sample_node :: "u64 \<Rightarrow> nat option \<Rightarrow> (unit, unit, unit, unit, nat) data_state" where
  "sample_node now driver = \<lparr> ds_clock_reads = [Some now], ds_clock = Some sample_clock,
     ds_position = Some \<lparr> pos_clock = sample_clock \<rparr>, ds_clock_name = [112], ds_main_loop = True,
     ds_stream_path = ''dsp0'', ds_timer_fd = Some (0, True), ds_timer_expired = [True],
     ds_wake_driver = driver, ds_wake_failed_stream = None, ds_ready_dispatching = False,
     ds_next_time = 50000000, ds_callbacks = Some 9, ds_port = sample_port, ds_properties = (),
     ds_shared = \<lparr> sh_alive = True, sh_started = True, sh_generation = 3, sh_slot = None \<rparr>,
     ds_rebuild_work = \<lparr> ws_value = None, ws_closed = False, ws_stopping = False, ws_active = False \<rparr>,
     ds_deferred_work = None, ds_rebuild_takeover = False, ds_publication_epoch = 0,
     ds_pending_main_event = None, ds_started = True, ds_following = False, ds_ext = (), ds_panic = False \<rparr>"

definition stale_wake :: stream_wake where
  "stale_wake = \<lparr> sw_stream = \<lparr> si_token = 1, si_generation = 2 \<rparr>, sw_timing = Readiness, sw_ready_bytes = None,
     sw_queue = None, sw_clock = None, sw_xruns = None, sw_state = WakeDisconnected \<rparr>"

definition sample_direction :: "(unit, unit, unit, unit, nat) direction" where
  "sample_direction = \<lparr> dn_wake = \<lparr> wk_next_event = (\<lambda>w. (Inr (Some (StreamEvent stale_wake)), w)),
       wk_unregister_stream = (\<lambda>w. (Inr (), w)), wk_arm_timer = (\<lambda>v w. (Inr (), v)),
       wk_register_wake = (\<lambda>d w i b. (Inr (), d, w)) \<rparr>,
     dn_is_running = (\<lambda>d. False), dn_new = (\<lambda>p. ()),
     dn_try_open_configure = (\<lambda>c p d. (Inl EBUSY_code, d)), dn_servo_ready = (\<lambda>p. True),
     dn_servo_fill = (\<lambda>p. (0, p)), dn_servo_hold = (\<lambda>p. False), dn_servo_err = (\<lambda>p f. 0),
     dn_wake_buffer_state = (\<lambda>p. \<lparr> wb_frame_stride = 4, wb_period_bytes = 0, wb_quantum_bytes = 0,
       wb_capacity_bytes = 0, wb_target_fill_bytes = 0 \<rparr>),
     dn_on_device_swapped = (\<lambda>s. s), dn_on_buffers_swapped = (\<lambda>s. s), dn_on_start_loop = (\<lambda>s. s),
     dn_on_pause_loop = (\<lambda>s. s), dn_on_suspend_loop = (\<lambda>s. s), dn_on_role_flip = (\<lambda>s. s) \<rparr>"

lemma sample_node_timer: "has_timer (sample_node now driver)"
  by (simp add: has_timer_def sample_node_def)

theorem every_wake_leaves_the_timer_ready_witness:
  "timer_ready sample_direction (on_wake sample_direction (\<lambda>cb s. s\<lparr> ds_started := False \<rparr>) (sample_node 50000000 None))"
  by (rule every_wake_leaves_the_timer_ready [OF sample_node_timer]) (simp add: has_timer_def)

theorem early_wake_starts_no_cycle_witness:
  "fst (wake_cycle sample_direction (sample_node 30000000 None)) = None"
proof -
  have "let (notify, s') = wake_cycle sample_direction (sample_node 30000000 None)
    in notify = None \<and> ds_clock s' = ds_clock (sample_node 30000000 None)
      \<and> ds_next_time s' = ds_next_time (sample_node 30000000 None) \<and> timer_ready sample_direction s'"
    by (rule early_wake_starts_no_cycle [OF sample_node_timer, of 30000000 None 30000000 "[]" 1024 48000])
      (simp_all add: sample_node_def target_cycle_def sample_clock_def watchdog_grace_def)
  then show ?thesis by (simp add: case_prod_beta)
qed

lemma sample_cycle:
  "wake_cycle sample_direction (sample_node 50000000 None)
    = (Some (Some 9), snd (wake_cycle sample_direction (sample_node 50000000 None)))"
  by (simp add: wake_cycle_def drain_wake_def sample_node_def sample_port_def sample_clock_def
      queue_required_rebuilds_def try_now_ns_def run_cycle_def target_cycle_def resync_def
      wake_is_from_previous_cycle_def watchdog_grace_def sat_add64_def timing_observation_def
      driver_servo_def stride_rate_def Let_def)

theorem full_cycle_publishes_a_consistent_clock_witness:
  "\<exists>c'. ds_clock (snd (wake_cycle sample_direction (sample_node 50000000 None))) = Some c' \<and> clk_rate_diff c' \<le> 2"
proof -
  have "\<exists>c'. ds_clock (snd (wake_cycle sample_direction (sample_node 50000000 None))) = Some c'
      \<and> clk_rate_diff c' \<le> 2 \<and> True"
    using full_cycle_publishes_a_consistent_clock [OF sample_cycle, of 1024 48000 sample_clock 50000000 "[]"]
    by (auto simp: sample_node_def target_cycle_def sample_clock_def Let_def)
  then show ?thesis by blast
qed

theorem stale_stream_wake_is_ignored_witness:
  "ds_port (snd (drain_wake sample_direction (sample_node 50000000 (Some 1)))) = sample_port"
proof -
  have "let (wake, s') = drain_wake sample_direction (sample_node 50000000 (Some 1))
    in wake = None \<and> ds_port s' = ds_port (sample_node 50000000 (Some 1))
      \<and> fst (wake_cycle sample_direction (sample_node 50000000 (Some 1))) = None"
    by (rule stale_stream_wake_is_ignored [of _ 1 _ stale_wake 1])
      (simp_all add: sample_node_def sample_direction_def stale_wake_def stream_identity_of_def sample_port_def)
  then show ?thesis by (simp add: case_prod_beta sample_node_def)
qed

end
