(* ===== verification/Rebuild.thy ===== *)
theory Rebuild
  imports Timing
begin

text \<open>
  The data loop's consumption of rebuild completions (crates/core/src/node/rebuild.rs), and the
  main thread's synchronous install: its data-loop closures are operations of the data state, and
  the steps between them (draining the mailbox, waiting for the worker, opening the device) appear
  as the arguments and results of these operations. The locale \<open>node_direction\<close> states what the shared
  code relies on in a direction; \<open>ident\<close> names the native stream a device value stands for, which
  no operation on the data loop may lose or duplicate.
\<close>

section \<open>Replacing the device\<close>

definition store_generation :: "('d, 'p, 'x, 's, 'w) data_state \<Rightarrow> ('d, 'p, 'x, 's, 'w) data_state" where
  "store_generation s = s\<lparr> ds_shared := (ds_shared s)\<lparr> sh_generation := p_generation (ds_port s) \<rparr> \<rparr>"

definition wrapping_succ :: "u64 \<Rightarrow> u64" where
  "wrapping_succ g = (g + 1) mod 18446744073709551616"

text \<open>The swap all three installers make: the device wake is dropped, the device and configuration
  replaced, the generation advanced and published, the claim dropped, the direction told and the
  driver wake re-armed. \<open>quantum\<close> is \<open>None\<close> where the code leaves the delivery quantum alone.\<close>

definition replace_device ::
    "('d, 'p, 'x, 's, 'w) direction \<Rightarrow> 'd \<Rightarrow> stream_config option \<Rightarrow> u32 option
       \<Rightarrow> ('d, 'p, 'x, 's, 'w) data_state \<Rightarrow> 'd \<times> ('d, 'p, 'x, 's, 'w) data_state" where
  "replace_device D dsp config quantum s =
     (let s = invalidate_device_wake D s;
          old = p_dsp (ds_port s);
          s = upd_port (\<lambda>port. port\<lparr> p_dsp := dsp, p_config := config,
                p_delivery_quantum_bytes := (case quantum of Some q \<Rightarrow> q | None \<Rightarrow> p_delivery_quantum_bytes port),
                p_generation := wrapping_succ (p_generation port),
                p_rebuild_pending := False, p_was_matching := False \<rparr>) s;
          s = dn_on_device_swapped D (store_generation s);
          s = (if ds_started s then update_driver_wake D s else s)
      in (old, s))"

section \<open>Polling for a completion\<close>

definition poll_rebuild_completion ::
    "('d, 'p, 'x, 's, 'w) direction \<Rightarrow> ('d, 'p, 'x, 's, 'w) data_state \<Rightarrow> bool \<times> ('d, 'p, 'x, 's, 'w) data_state" where
  "poll_rebuild_completion D s =
     (let (swap, shared) = take_swap (ds_shared s); s = s\<lparr> ds_shared := shared \<rparr>
      in case swap of
        None \<Rightarrow> (p_rebuild_pending (ds_port s), s)
      | Some swap \<Rightarrow>
          let s = (if dv_port_idx swap = 0 then s else s\<lparr> ds_panic := True \<rparr>)
          in if dv_generation swap \<noteq> p_generation (ds_port s)
             then let s = submit_or_defer (RetireSwap swap) s in (p_rebuild_pending (ds_port s), s)
             else case dv_outcome swap of
               Installed dsp config applied \<Rightarrow>
                 let (old, s) = replace_device D dsp (Some config)
                       (Some (case ab_quantum_bytes applied of Some q \<Rightarrow> q | None \<Rightarrow> 0)) s
                 in (False, submit_or_defer (RetireDevice old) s)
             | Aborted \<Rightarrow> (True, upd_port (\<lambda>port. port\<lparr> p_rebuild_pending := False \<rparr>) s)
             | RetireAndRetry request placeholder \<Rightarrow>
                 let s = upd_port reset_stream_epoch s;
                     old = p_dsp (ds_port s);
                     s = upd_port (\<lambda>port. port\<lparr> p_dsp := placeholder \<rparr>) s;
                     request = request\<lparr> rq_retire_first := Some old \<rparr>;
                     s = (if ds_started s then update_driver_wake D s else s)
                 in (True, submit_or_defer (Rebuild request) s)
             | SwapFailed placeholder \<Rightarrow>
                 let (old, s) = replace_device D placeholder None None s;
                     s = submit_or_defer (RetireDevice old) s
                 in (True, s\<lparr> ds_pending_main_event := Some (FormatLost (ds_publication_epoch s)) \<rparr>))"

definition poll_rebuild ::
    "('d, 'p, 'x, 's, 'w) direction \<Rightarrow> ('d, 'p, 'x, 's, 'w) data_state \<Rightarrow> bool \<times> ('d, 'p, 'x, 's, 'w) data_state" where
  "poll_rebuild D s =
     (if ds_rebuild_takeover s then (True, s)
      else let (flushed, s) = flush_deferred_work s
           in if \<not> flushed then (True, s)
              else if \<not> swap_ready (ds_shared s) then (p_rebuild_pending (ds_port s), s)
              else poll_rebuild_completion D s)"

section \<open>The synchronous install\<close>

text \<open>The closure that takes the data loop over, and the final swap. The deferred command leaves the
  data loop and is dropped by the main thread.\<close>

definition begin_takeover ::
    "('d, 'p, 'x, 's, 'w) direction \<Rightarrow> ('d, 'p, 'x, 's, 'w) data_state
       \<Rightarrow> ('d, 'p) rebuild_work option \<times> ('d, 'p, 'x, 's, 'w) data_state" where
  "begin_takeover D s =
     (let s = (if ds_rebuild_takeover s then s\<lparr> ds_panic := True \<rparr> else s);
          deferred = ds_deferred_work s;
          s = s\<lparr> ds_rebuild_takeover := True, ds_deferred_work := None \<rparr>;
          s = upd_port (\<lambda>port. port\<lparr> p_rebuild_pending := True, p_generation := wrapping_succ (p_generation port) \<rparr>) s;
          s = store_generation s;
          s = (if ds_started s then update_driver_wake D s else s)
      in (deferred, s))"

definition release_rebuild_takeover :: "('d, 'p, 'x, 's, 'w) data_state \<Rightarrow> ('d, 'p, 'x, 's, 'w) data_state" where
  "release_rebuild_takeover s =
     upd_port (\<lambda>port. port\<lparr> p_rebuild_pending := False \<rparr>) (s\<lparr> ds_rebuild_takeover := False \<rparr>)"

definition install_swap ::
    "('d, 'p, 'x, 's, 'w) direction \<Rightarrow> 'd \<Rightarrow> configure_outcome option \<Rightarrow> ('d, 'p, 'x, 's, 'w) data_state
       \<Rightarrow> 'd \<times> ('d, 'p, 'x, 's, 'w) data_state" where
  "install_swap D new_dsp outcome s =
     (let quantum = (case outcome of Some c \<Rightarrow>
              (case ab_quantum_bytes (co_applied_buffer c) of Some q \<Rightarrow> q | None \<Rightarrow> 0) | None \<Rightarrow> 0);
          (old, s) = replace_device D new_dsp (map_option co_actual_config outcome) (Some quantum) s
      in (old, s\<lparr> ds_rebuild_takeover := False \<rparr>))"

abbreviation EIO_code :: int where
  "EIO_code \<equiv> -5"

text \<open>The whole install, on a host whose data loop accepts every invoke. The first open may find the
  device busy: then the running device is retired behind a closed one and the open repeated. The
  result is the return code, the devices taken out of the port for the main thread to close, and the
  state.\<close>

definition drained_mailbox :: "('d, 'p, 'x, 's, 'w) data_state \<Rightarrow> ('d, 'p, 'x, 's, 'w) data_state" where
  "drained_mailbox s = s\<lparr> ds_shared := discard_swap (ds_shared s) \<rparr>"

definition install_device ::
    "('d, 'p, 'x, 's, 'w) direction \<Rightarrow> bool \<Rightarrow> stream_config \<Rightarrow> ('d, 'p, 'x, 's, 'w) data_state
       \<Rightarrow> int \<times> 'd list \<times> ('d, 'p, 'x, 's, 'w) data_state" where
  "install_device D worker_idles config s =
     (let (_, s) = begin_takeover D s; s = drained_mailbox s
      in if \<not> worker_idles then (EIO_code, [], release_rebuild_takeover s)
         else let s = drained_mailbox s;
                  (configured, new_dsp) = dn_try_open_configure D config (ds_properties s) (dn_new D (ds_stream_path s));
                  (configured, new_dsp, retired, s) =
                    (case configured of
                       Inl err \<Rightarrow>
                         if err = EBUSY_code
                         then let retired = p_dsp (ds_port s);
                                  s = upd_port (\<lambda>port. port\<lparr> p_dsp := dn_new D (ds_stream_path s) \<rparr>) s;
                                  (configured, new_dsp) = dn_try_open_configure D config (ds_properties s) new_dsp
                              in (configured, new_dsp, [retired], s)
                         else (configured, new_dsp, [], s)
                     | Inr _ \<Rightarrow> (configured, new_dsp, [], s));
                  res = (case configured of Inr c \<Rightarrow> (if adjustment_is_empty (co_adjusted c) then 0 else 1) | Inl err \<Rightarrow> err);
                  (old, s) = install_swap D new_dsp (case configured of Inr c \<Rightarrow> Some c | Inl _ \<Rightarrow> None) s
              in (res, retired @ [old], s))"


section \<open>What the shared code relies on in a direction\<close>

text \<open>Two states agree on everything the rebuild protocol reads, the device up to its identity.\<close>

definition data_frame :: "('d \<Rightarrow> 'i) \<Rightarrow> ('d, 'p, 'x, 's, 'w) data_state \<Rightarrow> ('d, 'p, 'x, 's, 'w) data_state \<Rightarrow> bool" where
  "data_frame ident s s' \<longleftrightarrow>
     ident (p_dsp (ds_port s')) = ident (p_dsp (ds_port s))
     \<and> p_generation (ds_port s') = p_generation (ds_port s) \<and> p_config (ds_port s') = p_config (ds_port s)
     \<and> p_rebuild_pending (ds_port s') = p_rebuild_pending (ds_port s)
     \<and> ds_shared s' = ds_shared s \<and> ds_rebuild_work s' = ds_rebuild_work s
     \<and> ds_deferred_work s' = ds_deferred_work s \<and> ds_rebuild_takeover s' = ds_rebuild_takeover s
     \<and> ds_started s' = ds_started s \<and> ds_properties s' = ds_properties s \<and> has_timer s' = has_timer s
     \<and> (has_timer s \<longrightarrow> ds_panic s' = ds_panic s)"

lemma data_frame_refl [simp]: "data_frame ident s s"
  by (simp add: data_frame_def)

lemma data_frame_trans: "data_frame ident s s' \<Longrightarrow> data_frame ident s' s'' \<Longrightarrow> data_frame ident s s''"
  by (simp add: data_frame_def)

locale node_direction =
  fixes D :: "('d, 'p, 'x, 's, 'w) direction"
    and ident :: "'d \<Rightarrow> 'i"
  assumes register_ident: "ident (fst (snd (wk_register_wake (dn_wake D) d w i b))) = ident d"
    and swapped_frame: "data_frame ident s (dn_on_device_swapped D s)"
begin

lemma try_now_frame: "data_frame ident s (snd (try_now_ns s))"
  by (simp add: try_now_ns_def data_frame_def has_timer_def split: list.split)

lemma disable_frame: "data_frame ident s (disable_device_wake D s)"
  by (simp add: disable_device_wake_def data_frame_def has_timer_def Let_def)

lemma invalidate_frame: "data_frame ident s (invalidate_device_wake D s)"
  using disable_frame [of s] by (simp add: invalidate_device_wake_def data_frame_def has_timer_def)

lemma refresh_inner_frame: "data_frame ident s (snd (refresh_device_wake_inner D retry s))"
  using disable_frame [of s] register_ident
  by (auto simp: refresh_device_wake_inner_def data_frame_def has_timer_def Let_def case_prod_beta
      split: option.split sum.split)

lemma arm_timer_frame: "data_frame ident s (arm_timer D v a s)"
  using try_now_frame [of s]
  by (auto simp: arm_timer_def data_frame_def has_timer_def Let_def case_prod_beta split: option.splits)

lemma update_driver_wake_frame: "data_frame ident s (update_driver_wake D s)"
proof (cases "ds_started s \<and> \<not> ds_following s \<and> ds_position s \<noteq> None")
  case False
  then show ?thesis
    using data_frame_trans [OF refresh_inner_frame [of s False] arm_timer_frame]
    by (simp add: update_driver_wake_def set_timeout_def refresh_device_wake_def)
next
  case True
  let ?r = "snd (refresh_device_wake_inner D True s)"
  have r: "data_frame ident s (snd (try_now_ns ?r))"
    by (rule data_frame_trans [OF refresh_inner_frame try_now_frame])
  have n: "data_frame ident s ((snd (try_now_ns ?r))\<lparr> ds_next_time := n \<rparr>)" for n
    using r by (simp add: data_frame_def has_timer_def)
  show ?thesis
    using True data_frame_trans [OF r arm_timer_frame] data_frame_trans [OF n arm_timer_frame]
    by (simp add: update_driver_wake_def set_timeout_def set_timeout_rel_def Let_def case_prod_beta split: option.split)
qed

lemma started_wake_frame: "data_frame ident s (if ds_started s then update_driver_wake D s else s)"
  using update_driver_wake_frame by simp

text \<open>The swap, seen from the protocol: everything else is as it was.\<close>

lemma replace_device_spec:
  assumes "replace_device D dsp config quantum s = (old, s')"
  shows "ident old = ident (p_dsp (ds_port s))" "ident (p_dsp (ds_port s')) = ident dsp"
    "p_config (ds_port s') = config" "p_generation (ds_port s') = wrapping_succ (p_generation (ds_port s))"
    "\<not> p_rebuild_pending (ds_port s')"
    "ds_shared s' = (ds_shared s)\<lparr> sh_generation := wrapping_succ (p_generation (ds_port s)) \<rparr>"
    "ds_rebuild_work s' = ds_rebuild_work s" "ds_deferred_work s' = ds_deferred_work s"
    "ds_rebuild_takeover s' = ds_rebuild_takeover s" "ds_started s' = ds_started s"
    "has_timer s' = has_timer s" "has_timer s \<Longrightarrow> ds_panic s' = ds_panic s" "ds_properties s' = ds_properties s"
proof -
  let ?i = "invalidate_device_wake D s"
  let ?u = "store_generation (upd_port (\<lambda>port. port\<lparr> p_dsp := dsp, p_config := config,
                p_delivery_quantum_bytes := (case quantum of Some q \<Rightarrow> q | None \<Rightarrow> p_delivery_quantum_bytes port),
                p_generation := wrapping_succ (p_generation port),
                p_rebuild_pending := False, p_was_matching := False \<rparr>) ?i)"
  have i: "data_frame ident s ?i" by (rule invalidate_frame)
  have eq: "old = p_dsp (ds_port ?i)"
    "s' = (let t = dn_on_device_swapped D ?u in if ds_started t then update_driver_wake D t else t)"
    using assms by (simp_all add: replace_device_def Let_def)
  have u: "data_frame ident ?u s'"
    unfolding eq(2) Let_def by (rule data_frame_trans [OF swapped_frame started_wake_frame])
  have ht: "has_timer ?u = has_timer ?i" by (simp add: has_timer_def store_generation_def)
  show "ident old = ident (p_dsp (ds_port s))" "ident (p_dsp (ds_port s')) = ident dsp"
    "p_config (ds_port s') = config" "p_generation (ds_port s') = wrapping_succ (p_generation (ds_port s))"
    "\<not> p_rebuild_pending (ds_port s')"
    "ds_shared s' = (ds_shared s)\<lparr> sh_generation := wrapping_succ (p_generation (ds_port s)) \<rparr>"
    "ds_rebuild_work s' = ds_rebuild_work s" "ds_deferred_work s' = ds_deferred_work s"
    "ds_rebuild_takeover s' = ds_rebuild_takeover s" "ds_started s' = ds_started s"
    "has_timer s' = has_timer s" "has_timer s \<Longrightarrow> ds_panic s' = ds_panic s" "ds_properties s' = ds_properties s"
    using i u ht unfolding data_frame_def eq(1) by (simp_all add: store_generation_def)
qed

end

text \<open>What a mailbox may hold: completions for the only port, and a retry whose request has no device
  to retire yet.\<close>

definition mailbox_ok :: "('d, 'p) device_swap option \<Rightarrow> bool" where
  "mailbox_ok cell = (case cell of None \<Rightarrow> True | Some sw \<Rightarrow>
     dv_port_idx sw = 0 \<and> (case dv_outcome sw of RetireAndRetry r d \<Rightarrow> rq_retire_first r = None \<and> rq_port_idx r = 0 | _ \<Rightarrow> True))"

definition owned_streams :: "('d \<Rightarrow> 'i) \<Rightarrow> ('d, 'p, 'x, 's, 'w) data_state \<Rightarrow> 'i multiset" where
  "owned_streams ident s = image_mset ident (owned_devices s)"

lemma owned_streams_unfold:
  "owned_streams ident s = add_mset (ident (p_dsp (ds_port s)))
     (image_mset ident (held swap_devices (sh_slot (ds_shared s)))
      + image_mset ident (held work_devices (ws_value (ds_rebuild_work s)))
      + image_mset ident (held work_devices (ds_deferred_work s)))"
  by (simp add: owned_streams_def owned_devices_def)

lemma submit_streams:
  "ds_deferred_work s = None \<Longrightarrow>
     owned_streams ident (submit_or_defer work s) = owned_streams ident s + image_mset ident (work_devices work)"
  by (simp add: owned_streams_def submit_owned)

lemma has_timer_upd:
  "has_timer (t\<lparr> ds_pending_main_event := e \<rparr>) = has_timer t"
  "has_timer (t\<lparr> ds_port := p \<rparr>) = has_timer t"
  "has_timer (t\<lparr> ds_shared := sh \<rparr>) = has_timer t"
  "has_timer (t\<lparr> ds_panic := b \<rparr>) = has_timer t"
  by (simp_all add: has_timer_def)

lemma submit_sel: "ds_shared (submit_or_defer work s) = ds_shared s" "has_timer (submit_or_defer work s) = has_timer s"
    "ds_properties (submit_or_defer work s) = ds_properties s" "ds_started (submit_or_defer work s) = ds_started s"
  using submit_same_node [of s work] by (simp_all add: same_node_def has_timer_def)

context node_direction
begin

lemma data_frame_streams: "data_frame ident s s' \<Longrightarrow> owned_streams ident s' = owned_streams ident s"
  by (simp add: data_frame_def owned_streams_unfold)

lemma replace_device_streams:
  assumes "replace_device D dsp config quantum s = (old, s')"
  shows "add_mset (ident old) (owned_streams ident s') = add_mset (ident dsp) (owned_streams ident s)"
  using replace_device_spec [OF assms] by (simp add: owned_streams_unfold)

text \<open>Consuming a completion: no stream is lost or duplicated, and no assertion fails.\<close>

lemma poll_completion_conserves:
  assumes "ds_deferred_work s = None" "mailbox_ok (sh_slot (ds_shared s))" "has_timer s"
  shows "owned_streams ident (snd (poll_rebuild_completion D s)) = owned_streams ident s
     \<and> ds_panic (snd (poll_rebuild_completion D s)) = ds_panic s"
proof (cases "sh_slot (ds_shared s)")
  case None
  then show ?thesis by (simp add: poll_rebuild_completion_def take_swap_def owned_streams_unfold)
next
  case (Some sw)
  let ?t = "s\<lparr> ds_shared := (ds_shared s)\<lparr> sh_slot := None \<rparr> \<rparr>"
  have idx: "dv_port_idx sw = 0" using assms(2) Some by (simp add: mailbox_ok_def)
  have d: "ds_deferred_work ?t = None" "has_timer ?t" using assms by (simp_all add: has_timer_def)
  have o: "owned_streams ident s = owned_streams ident ?t + image_mset ident (swap_devices sw)"
    using Some by (simp add: owned_streams_unfold)
  show ?thesis
  proof (cases "dv_generation sw = p_generation (ds_port s)")
    case False
    then show ?thesis
      using submit_streams [OF d(1), of ident "RetireSwap sw"] submit_no_panic [OF d(1), of "RetireSwap sw"] o idx Some
      by (simp add: poll_rebuild_completion_def take_swap_def Let_def)
  next
    case gen: True
    show ?thesis
    proof (cases "dv_outcome sw")
      case (Installed dsp config applied)
      let ?q = "Some (case ab_quantum_bytes applied of Some q \<Rightarrow> q | None \<Rightarrow> 0)"
      obtain old s' where r: "replace_device D dsp (Some config) ?q ?t = (old, s')" by fastforce
      note rs = replace_device_spec [OF r] and st = replace_device_streams [OF r]
      have "ds_deferred_work s' = None" using rs(8) d(1) by simp
      from submit_streams [OF this, of ident "RetireDevice old"] submit_no_panic [OF this, of "RetireDevice old"]
      show ?thesis using Installed gen idx Some r st rs(12) [OF d(2)] o
        by (simp add: poll_rebuild_completion_def take_swap_def Let_def swap_devices_def)
    next
      case Aborted
      then show ?thesis using gen idx Some o
        by (simp add: poll_rebuild_completion_def take_swap_def swap_devices_def owned_streams_unfold)
    next
      case (RetireAndRetry request placeholder)
      let ?e = "upd_port reset_stream_epoch ?t"
      let ?p = "upd_port (\<lambda>port. port\<lparr> p_dsp := placeholder \<rparr>) ?e"
      define w where "w = (if ds_started ?p then update_driver_wake D ?p else ?p)"
      let ?r = "request\<lparr> rq_retire_first := Some (p_dsp (ds_port s)) \<rparr>"
      have fr: "data_frame ident ?p w" unfolding w_def by (rule started_wake_frame)
      have pw: "owned_streams ident w = owned_streams ident ?p" using fr by (rule data_frame_streams)
      have ht: "has_timer ?p" using d(2) by (simp add: has_timer_def)
      have wd: "ds_deferred_work w = None" "ds_panic w = ds_panic s"
        using fr ht d(1) unfolding data_frame_def by simp_all
      have e: "p_dsp (ds_port ?e) = p_dsp (ds_port s)" by (simp add: reset_stream_epoch_def)
      have fin: "snd (poll_rebuild_completion D s) = submit_or_defer (Rebuild ?r) w"
        using RetireAndRetry gen idx Some e unfolding w_def
        by (simp add: poll_rebuild_completion_def take_swap_def Let_def)
      have "add_mset (ident (p_dsp (ds_port s))) (owned_streams ident ?p) = add_mset (ident placeholder) (owned_streams ident ?t)"
        by (simp add: owned_streams_unfold)
      moreover have "rq_retire_first request = None" using assms(2) Some RetireAndRetry by (simp add: mailbox_ok_def)
      ultimately show ?thesis unfolding fin
        using submit_streams [OF wd(1), of ident "Rebuild ?r"] submit_no_panic [OF wd(1), of "Rebuild ?r"] wd(2) pw o RetireAndRetry
        by (simp add: swap_devices_def request_devices_def)
    next
      case (SwapFailed placeholder)
      obtain old s' where r: "replace_device D placeholder None None ?t = (old, s')" by fastforce
      note rs = replace_device_spec [OF r] and st = replace_device_streams [OF r]
      have "ds_deferred_work s' = None" using rs(8) d(1) by simp
      from submit_streams [OF this, of ident "RetireDevice old"] submit_no_panic [OF this, of "RetireDevice old"]
      show ?thesis using SwapFailed gen idx Some r st rs(12) [OF d(2)] o
        by (simp add: poll_rebuild_completion_def take_swap_def Let_def swap_devices_def owned_streams_unfold)
    qed
  qed
qed

lemma flush_streams: "owned_streams ident (snd (flush_deferred_work s)) = owned_streams ident s"
  by (simp add: owned_streams_def flush_owned)

lemma poll_conserves:
  assumes "mailbox_ok (sh_slot (ds_shared s))" "has_timer s"
  shows "owned_streams ident (snd (poll_rebuild D s)) = owned_streams ident s
     \<and> ds_panic (snd (poll_rebuild D s)) = ds_panic s"
proof -
  let ?f = "snd (flush_deferred_work s)"
  have fs: "same_node s ?f" "ds_port ?f = ds_port s" "ds_panic ?f = ds_panic s"
    using flush_same_node by blast+
  have ht: "has_timer ?f" using assms(2) fs(1) by (simp add: same_node_def has_timer_def)
  have mb: "mailbox_ok (sh_slot (ds_shared ?f))" using assms(1) fs(1) by (simp add: same_node_def)
  show ?thesis
  proof (cases s rule: flush_cases)
    case flushed
    then show ?thesis
      using poll_completion_conserves [OF flushed(2) mb ht] flush_streams [of s] fs(3)
      by (simp add: poll_rebuild_def case_prod_beta Let_def)
  next
    case kept
    then show ?thesis by (simp add: poll_rebuild_def case_prod_beta Let_def)
  qed
qed

text \<open>A poll empties the mailbox or leaves it alone.\<close>

lemma poll_completion_frame:
  "sh_slot (ds_shared (snd (poll_rebuild_completion D s))) = None
   \<and> has_timer (snd (poll_rebuild_completion D s)) = has_timer s
   \<and> ds_properties (snd (poll_rebuild_completion D s)) = ds_properties s
   \<and> ds_started (snd (poll_rebuild_completion D s)) = ds_started s"
proof (cases "sh_slot (ds_shared s)")
  case None
  then show ?thesis by (simp add: poll_rebuild_completion_def take_swap_def has_timer_def)
next
  case (Some sw)
  let ?t = "s\<lparr> ds_shared := (ds_shared s)\<lparr> sh_slot := None \<rparr> \<rparr>"
  let ?u = "if dv_port_idx sw = 0 then ?t else ?t\<lparr> ds_panic := True \<rparr>"
  have u: "sh_slot (ds_shared ?u) = None" "has_timer ?u = has_timer s" "ds_properties ?u = ds_properties s"
    "ds_started ?u = ds_started s" "ds_port ?u = ds_port s" by (simp_all add: has_timer_def)
  have r: "sh_slot (ds_shared (snd (replace_device D d c q ?u))) = None"
    "has_timer (snd (replace_device D d c q ?u)) = has_timer s"
    "ds_properties (snd (replace_device D d c q ?u)) = ds_properties s"
    "ds_started (snd (replace_device D d c q ?u)) = ds_started s" for d c q
    using replace_device_spec [OF prod.collapse [symmetric, of "replace_device D d c q ?u"]] u by simp_all
  have w: "data_frame ident t (if ds_started t then update_driver_wake D t else t)" for t :: "('d, 'p, 'x, 's, 'w) data_state" by (rule started_wake_frame)
  show ?thesis
  proof (cases "dv_generation sw = p_generation (ds_port s)")
    case False
    then show ?thesis using Some u by (simp add: poll_rebuild_completion_def take_swap_def Let_def submit_sel)
  next
    case True
    show ?thesis
    proof (cases "dv_outcome sw")
      case (RetireAndRetry request placeholder)
      let ?p = "upd_port (\<lambda>port. port\<lparr> p_dsp := placeholder \<rparr>) (upd_port reset_stream_epoch ?u)"
      have "ds_shared (if ds_started ?p then update_driver_wake D ?p else ?p) = ds_shared ?u"
        "has_timer (if ds_started ?p then update_driver_wake D ?p else ?p) = has_timer ?u"
        "ds_properties (if ds_started ?p then update_driver_wake D ?p else ?p) = ds_properties ?u"
        "ds_started (if ds_started ?p then update_driver_wake D ?p else ?p) = ds_started ?u"
        using w [of ?p] unfolding data_frame_def by (simp_all add: has_timer_def)
      then show ?thesis using Some True RetireAndRetry u
        by (simp add: poll_rebuild_completion_def take_swap_def Let_def submit_sel)
    qed (use Some True r u in \<open>simp_all add: poll_rebuild_completion_def take_swap_def Let_def case_prod_beta submit_sel has_timer_upd\<close>)
  qed
qed

lemma poll_frame:
  assumes "mailbox_ok (sh_slot (ds_shared s))"
  shows "mailbox_ok (sh_slot (ds_shared (snd (poll_rebuild D s)))) \<and> has_timer (snd (poll_rebuild D s)) = has_timer s
    \<and> ds_properties (snd (poll_rebuild D s)) = ds_properties s \<and> ds_started (snd (poll_rebuild D s)) = ds_started s"
proof -
  let ?f = "snd (flush_deferred_work s)"
  have f: "ds_shared ?f = ds_shared s" "has_timer ?f = has_timer s" "ds_properties ?f = ds_properties s" "ds_started ?f = ds_started s"
    using flush_same_node [of s] by (simp_all add: same_node_def has_timer_def)
  show ?thesis
    using poll_completion_frame [of ?f] f assms
    by (simp add: poll_rebuild_def case_prod_beta Let_def mailbox_ok_def)
qed

end

section \<open>Ports across driver updates and completions\<close>

text \<open>A driver update touches the port's device and wake snapshot only.\<close>

lemma refresh_port:
  "\<exists>d w. ds_port (snd (refresh_device_wake_inner D retry s)) = (ds_port s)\<lparr> p_dsp := d, p_stream_wake := w \<rparr>"
proof -
  have k: "\<exists>d w. port\<lparr> p_dsp := d0 \<rparr> = port\<lparr> p_dsp := d, p_stream_wake := w \<rparr>"
    "\<exists>d w. port\<lparr> p_stream_wake := w0 \<rparr> = port\<lparr> p_dsp := d, p_stream_wake := w \<rparr>"
    "\<exists>d w. port = port\<lparr> p_dsp := d, p_stream_wake := w \<rparr>" for port :: "('a, 'b) port" and d0 w0
    by (cases port; auto)+
  show ?thesis
    using k by (auto simp: refresh_device_wake_inner_def disable_device_wake_def Let_def case_prod_beta
        split: option.split sum.split)
qed

lemma try_now_port: "ds_port (snd (try_now_ns s)) = ds_port s"
  by (simp add: try_now_ns_def split: list.split)

lemma arm_timer_port: "ds_port (arm_timer D v a s) = ds_port s"
  by (auto simp: arm_timer_def try_now_port Let_def case_prod_beta split: option.splits)

lemma update_driver_wake_port:
  "\<exists>d w. ds_port (update_driver_wake D s) = (ds_port s)\<lparr> p_dsp := d, p_stream_wake := w \<rparr>"
  using refresh_port [of D False s] refresh_port [of D True s]
  by (auto simp: update_driver_wake_def set_timeout_def set_timeout_rel_def refresh_device_wake_def
      arm_timer_port try_now_port Let_def case_prod_beta split: option.split)

lemma update_driver_wake_sel:
  "p_io (ds_port (update_driver_wake D s)) = p_io (ds_port s)"
  "p_ext (ds_port (update_driver_wake D s)) = p_ext (ds_port s)"
  "p_buffers (ds_port (update_driver_wake D s)) = p_buffers (ds_port s)"
  using update_driver_wake_port [of D s] by auto

text \<open>So a completion changes the host's side of the port only through the direction's hook.\<close>

lemma replace_device_hook:
  assumes "replace_device D dsp config quantum s = (old, s')"
  obtains t where "p_io (ds_port t) = p_io (ds_port s)" "p_ext (ds_port t) = p_ext (ds_port s)"
    "p_io (ds_port s') = p_io (ds_port (dn_on_device_swapped D t))"
    "p_ext (ds_port s') = p_ext (ds_port (dn_on_device_swapped D t))"
proof -
  let ?u = "store_generation (upd_port (\<lambda>port. port\<lparr> p_dsp := dsp, p_config := config,
                p_delivery_quantum_bytes := (case quantum of Some q \<Rightarrow> q | None \<Rightarrow> p_delivery_quantum_bytes port),
                p_generation := wrapping_succ (p_generation port),
                p_rebuild_pending := False, p_was_matching := False \<rparr>) (invalidate_device_wake D s))"
  have s': "s' = (let t = dn_on_device_swapped D ?u in if ds_started t then update_driver_wake D t else t)"
    using assms by (simp add: replace_device_def Let_def)
  show thesis
    by (rule that [of ?u])
      (simp_all add: s' Let_def store_generation_def invalidate_device_wake_def disable_device_wake_def update_driver_wake_sel)
qed

lemma submit_port [simp]: "ds_port (submit_or_defer work s) = ds_port s"
  using submit_same_node by blast

lemma poll_rebuild_hook:
  assumes hook: "\<And>t. p_io (ds_port (dn_on_device_swapped D t)) = p_io (ds_port t)"
      "\<And>t. R (p_ext (ds_port t)) (p_ext (ds_port (dn_on_device_swapped D t)))" and refl: "\<And>x. R x x"
  shows "p_io (ds_port (snd (poll_rebuild D s))) = p_io (ds_port s) \<and> R (p_ext (ds_port s)) (p_ext (ds_port (snd (poll_rebuild D s))))"
proof -
  have rep: "p_io (ds_port (snd (replace_device D dsp config quantum t))) = p_io (ds_port t)
      \<and> R (p_ext (ds_port t)) (p_ext (ds_port (snd (replace_device D dsp config quantum t))))" for dsp config quantum t
    using hook by (metis prod.collapse replace_device_hook)
  have c: "p_io (ds_port (snd (poll_rebuild_completion D t))) = p_io (ds_port t)
      \<and> R (p_ext (ds_port t)) (p_ext (ds_port (snd (poll_rebuild_completion D t))))" for t
  proof (cases "sh_slot (ds_shared t)")
    case None
    then show ?thesis using refl by (simp add: poll_rebuild_completion_def take_swap_def)
  next
    case (Some sw)
    let ?t = "t\<lparr> ds_shared := (ds_shared t)\<lparr> sh_slot := None \<rparr> \<rparr>"
    let ?u = "if dv_port_idx sw = 0 then ?t else ?t\<lparr> ds_panic := True \<rparr>"
    have u: "ds_port ?u = ds_port t" by simp
    show ?thesis
      using Some rep [of _ _ _ ?u] refl u
      by (cases "dv_outcome sw")
        (simp_all add: poll_rebuild_completion_def take_swap_def Let_def case_prod_beta update_driver_wake_sel reset_stream_epoch_def)
  qed
  show ?thesis
    using c [of "snd (flush_deferred_work s)"] flush_same_node [of s] refl
    by (simp add: poll_rebuild_def case_prod_beta Let_def)
qed

end
