(* ===== verification/NodeControl.thy ===== *)
theory NodeControl
  imports Rebuild
begin

text \<open>
  The host's entry points of a node: the process cycle and its loop gate (crates/core/src/node/process.rs)
  and the commands, io areas and Suspend teardown (node/commands.rs). The closures that run on the data
  loop are operations of the data state; what the main thread does around them (the two drains, the wait
  for the worker, closing devices) is in theory \<open>RebuildSystem\<close>. \<open>accepted\<close> tells whether the data loop
  ran a closure. The direction's \<open>process_ports\<close> is an argument of the cycle.
\<close>

section \<open>The loop gate\<close>

abbreviation usize_max :: nat where
  "usize_max \<equiv> 18446744073709551615"

definition check_loop_identity :: "nat \<Rightarrow> nat \<Rightarrow> bool \<times> nat" where
  "check_loop_identity tid thread =
     (if thread = tid then (True, thread) else (False, if thread \<noteq> usize_max then usize_max else thread))"

section \<open>The process cycle\<close>

definition discard_device_snapshots :: "('d, 'p, 'x, 's, 'w) data_state \<Rightarrow> ('d, 'p, 'x, 's, 'w) data_state" where
  "discard_device_snapshots s = upd_port (\<lambda>port. port\<lparr> p_stream_wake := None \<rparr>) s"

text \<open>What a cycle leaves for the host once the state is no longer borrowed: its status, the xrun with
  the callback table it goes to, and an event for the main loop with whether there is one.\<close>

record process_phase =
  pp_status :: "32 word"
  pp_xrun :: "(pending_xrun \<times> nat option) option"
  pp_main_event :: "(bool \<times> main_event) option"

definition process_data_cycle ::
    "('d, 'p, 'x, 's, 'w) direction
       \<Rightarrow> (('d, 'p, 'x, 's, 'w) data_state \<Rightarrow> 32 word \<times> ('d, 'p, 'x, 's, 'w) data_state)
       \<Rightarrow> ('d, 'p, 'x, 's, 'w) data_state \<Rightarrow> process_phase option \<times> ('d, 'p, 'x, 's, 'w) data_state" where
  "process_data_cycle D process_ports s =
     (if \<not> ds_started s \<or> ds_position s = None then (None, discard_device_snapshots s)
      else let s = queue_required_rebuilds s;
               (result, s) = process_ports s;
               s = queue_required_rebuilds s;
               s = discard_device_snapshots s;
               s = (if \<not> ds_ready_dispatching s then select_next_wake D s else s);
               pending = p_pending_xrun (ds_port s);
               s = upd_port (\<lambda>port. port\<lparr> p_pending_xrun := None \<rparr>) s;
               main_event = ds_pending_main_event s;
               s = s\<lparr> ds_pending_main_event := None \<rparr>
           in (Some \<lparr> pp_status = result,
                      pp_xrun = map_option (\<lambda>xrun. (xrun, ds_callbacks s)) pending,
                      pp_main_event = map_option (\<lambda>event. (ds_main_loop s, event)) main_event \<rparr>, s))"

text \<open>The entry point: the status for the host, the xrun callback to make (trigger and delay), and the
  event queued on the main loop, which a node without a main loop drops.\<close>

definition process ::
    "('d, 'p, 'x, 's, 'w) direction
       \<Rightarrow> (('d, 'p, 'x, 's, 'w) data_state \<Rightarrow> 32 word \<times> ('d, 'p, 'x, 's, 'w) data_state)
       \<Rightarrow> nat \<Rightarrow> nat \<Rightarrow> ('d, 'p, 'x, 's, 'w) data_state
       \<Rightarrow> (32 word \<times> (nat \<times> u64 \<times> u64) option \<times> main_event option) \<times> nat \<times> ('d, 'p, 'x, 's, 'w) data_state" where
  "process D process_ports tid thread s =
     (let (same, thread) = check_loop_identity tid thread
      in if \<not> same then ((SPA_STATUS_OK, None, None), thread, s)
         else case process_data_cycle D process_ports s of
                (None, s) \<Rightarrow> ((SPA_STATUS_OK, None, None), thread, s)
              | (Some phase, s) \<Rightarrow>
                  ((pp_status phase,
                    (case pp_xrun phase of
                       Some (xrun, Some table) \<Rightarrow> Some (table, px_trigger_us xrun, px_delay_us xrun)
                     | _ \<Rightarrow> None),
                    (case pp_main_event phase of
                       Some (True, event) \<Rightarrow> Some event
                     | _ \<Rightarrow> None)), thread, s))"

section \<open>Io areas\<close>

abbreviation SPA_IO_Buffers :: u32 where "SPA_IO_Buffers \<equiv> 1"
abbreviation SPA_IO_Clock :: u32 where "SPA_IO_Clock \<equiv> 3"
abbreviation SPA_IO_Position :: u32 where "SPA_IO_Position \<equiv> 7"
abbreviation SPA_IO_RateMatch :: u32 where "SPA_IO_RateMatch \<equiv> 8"

abbreviation ENOENT_code :: int where "ENOENT_code \<equiv> -2"
abbreviation EINVAL_code :: int where "EINVAL_code \<equiv> -22"
abbreviation ENOSPC_code :: int where "ENOSPC_code \<equiv> -28"

text \<open>Size and alignment of the SPA structures come from the host's headers: \<open>layout\<close>.\<close>

definition node_io_areas :: "(u32 \<Rightarrow> nat \<times> nat) \<Rightarrow> (u32 \<times> nat \<times> nat) list" where
  "node_io_areas layout = [(SPA_IO_Clock, layout SPA_IO_Clock), (SPA_IO_Position, layout SPA_IO_Position)]"

definition port_io_areas :: "(u32 \<Rightarrow> nat \<times> nat) \<Rightarrow> (u32 \<times> nat \<times> nat) list" where
  "port_io_areas layout = [(SPA_IO_Buffers, layout SPA_IO_Buffers), (SPA_IO_RateMatch, layout SPA_IO_RateMatch)]"

text \<open>The address of an area, 0 for null.\<close>

definition io_area_ok :: "(u32 \<times> nat \<times> nat) list \<Rightarrow> u32 \<Rightarrow> nat \<Rightarrow> nat \<Rightarrow> int" where
  "io_area_ok table area_id data sz =
     (case map_of table area_id of
        None \<Rightarrow> ENOENT_code
      | Some (min_size, align) \<Rightarrow>
          if data \<noteq> 0
          then if sz < min_size then ENOSPC_code
               else if \<not> align dvd data then EINVAL_code else 0
          else 0)"

datatype node_area = ClockArea "spa_io_clock option" | PositionArea "spa_io_position option"

definition set_io_loop ::
    "('d, 'p, 'x, 's, 'w) direction \<Rightarrow> node_area \<Rightarrow> ('d, 'p, 'x, 's, 'w) data_state \<Rightarrow> ('d, 'p, 'x, 's, 'w) data_state" where
  "set_io_loop D area s =
     (let was_armed = (ds_clock s \<noteq> None \<and> ds_position s \<noteq> None);
          s = (case area of
                 ClockArea clock \<Rightarrow> s\<lparr> ds_clock := map_option (set_clock_name (ds_clock_name s)) clock \<rparr>
               | PositionArea position \<Rightarrow> s\<lparr> ds_position := position \<rparr>)
      in if ds_started s
         then let armed = (ds_clock s \<noteq> None \<and> ds_position s \<noteq> None);
                  following = node_is_follower s;
                  flipped = (ds_following s \<noteq> following);
                  s = (if flipped then dn_on_role_flip D (s\<lparr> ds_following := following \<rparr>) else s)
              in if flipped \<or> was_armed \<noteq> armed then update_driver_wake D s else s
         else s)"

datatype port_area = BuffersArea "spa_io_buffers option" | RateMatchArea "spa_io_rate_match option"

definition port_set_io_loop :: "port_area \<Rightarrow> ('d, 'p, 'x, 's, 'w) data_state \<Rightarrow> ('d, 'p, 'x, 's, 'w) data_state" where
  "port_set_io_loop area s =
     (case area of
        BuffersArea io \<Rightarrow> upd_port (\<lambda>port. port\<lparr> p_io := io \<rparr>) s
      | RateMatchArea rate_match \<Rightarrow> upd_port (\<lambda>port. port\<lparr> p_rate_match := rate_match \<rparr>) s)"

definition set_io ::
    "('d, 'p, 'x, 's, 'w) direction \<Rightarrow> (u32 \<Rightarrow> nat \<times> nat) \<Rightarrow> bool \<Rightarrow> u32 \<Rightarrow> nat \<Rightarrow> nat \<Rightarrow> node_area
       \<Rightarrow> ('d, 'p, 'x, 's, 'w) data_state \<Rightarrow> int \<times> ('d, 'p, 'x, 's, 'w) data_state" where
  "set_io D layout accepted area_id data sz area s =
     (let res = io_area_ok (node_io_areas layout) area_id data sz
      in if res \<noteq> 0 then (res, s)
         else if \<not> accepted then (EIO_code, s)
         else (0, set_io_loop D area s))"

definition port_set_io ::
    "(u32 \<Rightarrow> nat \<times> nat) \<Rightarrow> bool \<Rightarrow> bool \<Rightarrow> u32 \<Rightarrow> u32 \<Rightarrow> nat \<Rightarrow> nat \<Rightarrow> port_area
       \<Rightarrow> ('d, 'p, 'x, 's, 'w) data_state \<Rightarrow> int \<times> ('d, 'p, 'x, 's, 'w) data_state" where
  "port_set_io layout accepted own_direction port_id area_id data sz area s =
     (if \<not> own_direction \<or> port_id \<ge> 1 then (EINVAL_code, s)
      else let res = io_area_ok (port_io_areas layout) area_id data sz
           in if res \<noteq> 0 then (res, s)
              else if \<not> accepted then (EIO_code, s)
              else (0, port_set_io_loop area s))"

text \<open>\<open>raw_slice_len_ok\<close> of crates/core/src/spa/params.rs bounds a host array by \<open>isize::MAX\<close> bytes; a
  pointer has 8 bytes.\<close>

definition raw_slice_len_ok :: "nat \<Rightarrow> nat \<Rightarrow> bool" where
  "raw_slice_len_ok elem_size n \<longleftrightarrow> elem_size = 0 \<or> n \<le> isize_max div elem_size"

definition port_use_buffers ::
    "('d, 'p, 'x, 's, 'w) direction \<Rightarrow> bool \<Rightarrow> bool \<Rightarrow> u32 \<Rightarrow> spa_buffer option list option \<Rightarrow> u32
       \<Rightarrow> ('d, 'p, 'x, 's, 'w) data_state \<Rightarrow> int \<times> ('d, 'p, 'x, 's, 'w) data_state" where
  "port_use_buffers D accepted own_direction port_id buffers n_buffers s =
     (if \<not> own_direction \<or> port_id \<ge> 1 then (EINVAL_code, s)
      else if \<not> raw_slice_len_ok 8 n_buffers then (EINVAL_code, s)
      else let new_buffers = (case buffers of Some bs \<Rightarrow> take n_buffers bs | None \<Rightarrow> [])
           in if \<not> accepted then (EIO_code, s)
              else (0, dn_on_buffers_swapped D (upd_port (\<lambda>port. port\<lparr> p_buffers := new_buffers \<rparr>) s)))"

section \<open>Start, Pause and Suspend on the data loop\<close>

definition start_loop ::
    "('d, 'p, 'x, 's, 'w) direction \<Rightarrow> ('d, 'p, 'x, 's, 'w) data_state \<Rightarrow> bool \<times> ('d, 'p, 'x, 's, 'w) data_state" where
  "start_loop D s =
     (if p_config (ds_port s) = None \<or> p_buffers (ds_port s) = [] then (False, s)
      else let s = s\<lparr> ds_clock := map_option (\<lambda>c. c\<lparr> clk_delay := 0, clk_rate_diff := 1 \<rparr>) (ds_clock s) \<rparr>;
               s = dn_on_start_loop D s;
               s = s\<lparr> ds_started := True \<rparr>;
               s = s\<lparr> ds_following := node_is_follower s \<rparr>
           in (True, update_driver_wake D s))"

definition send_start ::
    "('d, 'p, 'x, 's, 'w) direction \<Rightarrow> bool \<Rightarrow> ('d, 'p, 'x, 's, 'w) data_state \<Rightarrow> int \<times> ('d, 'p, 'x, 's, 'w) data_state" where
  "send_start D accepted s =
     (if \<not> accepted then (EIO_code, s)
      else let (started, s) = start_loop D s
           in if \<not> started then (EIO_code, s)
              else (0, s\<lparr> ds_shared := (ds_shared s)\<lparr> sh_started := True \<rparr> \<rparr>))"

text \<open>The generation bump that makes every outstanding rebuild stale.\<close>

definition fence_generation :: "('d, 'p, 'x, 's, 'w) data_state \<Rightarrow> ('d, 'p, 'x, 's, 'w) data_state" where
  "fence_generation s =
     store_generation (upd_port (\<lambda>port. port\<lparr> p_rebuild_pending := True, p_generation := wrapping_succ (p_generation port) \<rparr>) s)"

definition pause_loop ::
    "('d, 'p, 'x, 's, 'w) direction \<Rightarrow> ('d, 'p, 'x, 's, 'w) data_state
       \<Rightarrow> ('d, 'p) rebuild_work option \<times> ('d, 'p, 'x, 's, 'w) data_state" where
  "pause_loop D s =
     (let data_was_started = ds_started s;
          s = s\<lparr> ds_started := False \<rparr>;
          s = (if data_was_started then dn_on_pause_loop D s else s);
          s = update_driver_wake D s;
          s = s\<lparr> ds_rebuild_takeover := True \<rparr>;
          deferred = ds_deferred_work s;
          s = s\<lparr> ds_deferred_work := None \<rparr>
      in (deferred, fence_generation s))"

definition take_suspended_device :: "'d \<Rightarrow> ('d, 'x) port \<Rightarrow> 'd \<times> ('d, 'x) port" where
  "take_suspended_device placeholder port =
     (let retired = p_dsp port;
          port = reset_stream_epoch (port\<lparr> p_dsp := placeholder \<rparr>)
      in (retired, port\<lparr> p_buffers := [], p_config := None, p_setup_period := 0, p_delivery_quantum_bytes := 0,
            p_dll := dll_init (p_dll port), p_bw_adapt := bw_reset (p_bw_adapt port), p_was_matching := False,
            p_pending_xrun := None, p_generation := wrapping_succ (p_generation port), p_rebuild_pending := True \<rparr>))"

definition suspend_loop ::
    "('d, 'p, 'x, 's, 'w) direction \<Rightarrow> 'd \<Rightarrow> ('d, 'p, 'x, 's, 'w) data_state
       \<Rightarrow> ('d \<times> ('d, 'p) rebuild_work option) \<times> ('d, 'p, 'x, 's, 'w) data_state" where
  "suspend_loop D placeholder s =
     (let s = invalidate_device_wake D (s\<lparr> ds_started := False \<rparr>);
          s = update_driver_wake D s;
          s = dn_on_suspend_loop D s;
          s = s\<lparr> ds_rebuild_takeover := True \<rparr>;
          deferred = ds_deferred_work s;
          s = s\<lparr> ds_deferred_work := None \<rparr>;
          (retired, port) = take_suspended_device placeholder (ds_port s);
          s = store_generation (s\<lparr> ds_port := port \<rparr>)
      in ((retired, deferred), dn_on_device_swapped D s))"

definition restore_started_if_stop_unobserved :: "bool \<Rightarrow> bool \<Rightarrow> ('d, 'p) node_shared \<Rightarrow> ('d, 'p) node_shared" where
  "restore_started_if_stop_unobserved was_started data_stopped shared =
     (if \<not> data_stopped then shared\<lparr> sh_started := was_started \<rparr> else shared)"

end
