(* ===== verification/FormatNeg.thy ===== *)
theory FormatNeg
  imports NodeControl "HOL-Library.Product_Lexorder"
begin

text \<open>
  Format negotiation of a node port (crates/core/src/node/format.rs and the Format half of
  node/ports.rs): snapping a requested raw format onto the advertised capabilities, the formats and
  buffer sizes a port enumerates, and setting and releasing the format of a port. Parsing and
  serialising the host's parameter objects is left to libspa: a request comes in as the result of its
  parser, and a parameter goes out as the record of the values put into it. The main loop's side of the
  node is the record \<open>main_state\<close>; what re-probing the device answers and the backend's own check of a
  configuration are arguments. The data loop accepts every call.
\<close>

unbundle bit_operations_syntax

section \<open>Snapping a request to the capabilities\<close>

text \<open>\<open>spa_audio_info_raw\<close>; \<open>position\<close> has 64 slots.\<close>

record raw_format =
  rf_format :: audio_format
  rf_flags :: u32
  rf_rate :: u32
  rf_channels :: u32
  rf_position :: "u32 list"

text \<open>The first element with the least key, as \<open>Iterator::min_by_key\<close> picks it.\<close>

definition min_by_key :: "('a \<Rightarrow> 'b::linorder) \<Rightarrow> 'a list \<Rightarrow> 'a option" where
  "min_by_key key xs = (if xs = [] then None else Some (arg_min_list key xs))"

text \<open>The loop that copies positions into the slots, as far as both go.\<close>

definition overwrite :: "'a list \<Rightarrow> 'a list \<Rightarrow> 'a list" where
  "overwrite new slots = take (length slots) new @ drop (length new) slots"

definition channel_distance :: "stream_configuration \<Rightarrow> u32 \<Rightarrow> u32" where
  "channel_distance c channels =
     (case map (\<lambda>layout. abs_diff (ly_channels layout) channels) (layouts (cfg_channels c)) of
        [] \<Rightarrow> u32_max | d # ds \<Rightarrow> min_list (d # ds))"

fun rate_distance :: "rate_set \<Rightarrow> u32 \<Rightarrow> u32" where
  "rate_distance (DiscreteRates rates) rate =
     (case map (\<lambda>r. abs_diff r rate) rates of [] \<Rightarrow> u32_max | d # ds \<Rightarrow> min_list (d # ds))"
| "rate_distance (RateRange lo hi) rate = abs_diff rate (clamp rate lo hi)"

definition snap_key :: "stream_caps \<Rightarrow> raw_format \<Rightarrow> nat \<times> stream_configuration \<Rightarrow> bool \<times> nat \<times> nat \<times> bool" where
  "snap_key caps raw = (\<lambda>(index, c).
     (rf_format raw \<notin> set (cfg_formats c), channel_distance c (rf_channels raw),
      rate_distance (cfg_rates c) (rf_rate raw), index \<noteq> caps_preferred caps))"

definition snap_configuration :: "stream_caps \<Rightarrow> raw_format \<Rightarrow> stream_configuration option" where
  "snap_configuration caps raw =
     map_option snd (min_by_key (snap_key caps raw)
       (filter (\<lambda>(_, c). cfg_formats c \<noteq> []) (enumerate 0 (caps_configurations caps))))"

definition snap_format :: "stream_configuration \<Rightarrow> raw_format \<Rightarrow> bool \<times> raw_format" where
  "snap_format c raw =
     (let offered = offered_formats c
      in if rf_format raw \<notin> set offered
         then (case offered of best # _ \<Rightarrow> (True, raw\<lparr>rf_format := best\<rparr>) | [] \<Rightarrow> (False, raw))
         else (False, raw))"

definition snap_channels :: "channel_layout \<Rightarrow> raw_format \<Rightarrow> bool \<times> raw_format" where
  "snap_channels layout raw =
     (let channels = min (ly_channels layout) AUDIO_MAX_CHANNELS
      in if channels \<noteq> rf_channels raw
         then (True, raw\<lparr>rf_channels := channels,
                 rf_position := overwrite
                   (case ly_positions layout of Some ps \<Rightarrow> ps
                    | None \<Rightarrow> map (\<lambda>i. CHANNEL_AUX0 + i) [0..<channels]) (rf_position raw)\<rparr>)
         else (False, raw))"

fun nearest_rate :: "rate_set \<Rightarrow> u32 \<Rightarrow> u32" where
  "nearest_rate (DiscreteRates rates) rate =
     (case min_by_key (\<lambda>r. abs_diff r rate) rates of Some r \<Rightarrow> r | None \<Rightarrow> rate)"
| "nearest_rate (RateRange lo hi) rate = clamp rate lo hi"

definition snap_raw_to_caps :: "stream_caps \<Rightarrow> raw_format \<Rightarrow> bool \<times> raw_format" where
  "snap_raw_to_caps caps raw0 =
     (case snap_configuration caps raw0 of
        None \<Rightarrow> (False, raw0)
      | Some c \<Rightarrow>
          (let (changed1, raw1) = snap_format c raw0
           in case min_by_key (\<lambda>layout. abs_diff (ly_channels layout) (rf_channels raw1)) (layouts (cfg_channels c)) of
                None \<Rightarrow> (changed1, raw1)
              | Some layout \<Rightarrow>
                  (let (changed2, raw2) = snap_channels layout raw1;
                       rate = nearest_rate (cfg_rates c) (rf_rate raw2)
                   in if rate \<noteq> rf_rate raw2 then (True, raw2\<lparr>rf_rate := rate\<rparr>)
                      else (changed1 \<or> changed2, raw2))))"

section \<open>The parameters a port enumerates\<close>

datatype 'a pod_value = Fixed 'a | EnumChoice 'a "'a list" | RangeChoice 'a 'a 'a

abbreviation (input) pod_int_range :: "int \<Rightarrow> int \<Rightarrow> int \<Rightarrow> int pod_value" where
  "pod_int_range dflt lo hi \<equiv> RangeChoice dflt lo hi"

record enum_format =
  ef_format :: "audio_format pod_value"
  ef_rate :: "int pod_value"
  ef_channels :: int
  ef_position :: "u32 list"

fun nth_layout :: "stream_configuration list \<Rightarrow> nat \<Rightarrow> (stream_configuration \<times> channel_layout) option" where
  "nth_layout [] index = None"
| "nth_layout (c # cs) index =
     (let ls = layouts (cfg_channels c)
      in if index < length ls then Some (c, ls ! index) else nth_layout cs (index - length ls))"

fun format_value :: "audio_format list \<Rightarrow> audio_format pod_value" where
  "format_value [fmt] = Fixed fmt"
| "format_value (fmt # fmts) = EnumChoice fmt fmts"
| "format_value [] = EnumChoice (FMT_OTHER 0) []"

fun rate_value :: "rate_set \<Rightarrow> u32 option \<Rightarrow> int pod_value option" where
  "rate_value (DiscreteRates rates) preferred =
     (if length rates > 1
      then (let target = (case preferred of Some r \<Rightarrow> r | None \<Rightarrow> 48000)
            in map_option (\<lambda>dflt. EnumChoice (as_i32 dflt) (map as_i32 rates))
                 (min_by_key (\<lambda>r. abs_diff r target) rates))
      else (case rates of r # _ \<Rightarrow> Some (Fixed (as_i32 r)) | [] \<Rightarrow> None))"
| "rate_value (RateRange lo hi) preferred =
     (if lo = hi then Some (Fixed (as_i32 lo))
      else Some (pod_int_range (as_i32 (clamp (case preferred of Some r \<Rightarrow> r | None \<Rightarrow> 48000) lo hi))
                   (as_i32 lo) (as_i32 hi)))"

definition build_enum_format_info :: "stream_caps \<Rightarrow> nat \<Rightarrow> enum_format option" where
  "build_enum_format_info caps index =
     (case nth_layout (filter (\<lambda>c. cfg_formats c \<noteq> []) (configurations_in_preference_order caps)) index of
        None \<Rightarrow> None
      | Some (c, layout) \<Rightarrow>
          if offered_formats c = [] then None
          else (case rate_value (cfg_rates c) (cfg_preferred_rate c) of
                  None \<Rightarrow> None
                | Some rate \<Rightarrow>
                    Some \<lparr>ef_format = format_value (offered_formats c), ef_rate = rate,
                          ef_channels = as_i32 (ly_channels layout),
                          ef_position = (case ly_positions layout of Some ps \<Rightarrow> ps
                            | None \<Rightarrow> map (\<lambda>i. CHANNEL_AUX0 + i) [0..<ly_channels layout])\<rparr>))"

record buffers_info =
  bf_buffers :: "int pod_value"
  bf_blocks :: int
  bf_size :: "int pod_value"
  bf_stride :: int
  bf_align :: int
  bf_data_type :: int

text \<open>\<open>1 << SPA_DATA_MemPtr\<close>; the products are taken in u32.\<close>

definition build_buffers_info :: "u32 \<Rightarrow> buffers_info" where
  "build_buffers_info stride =
     (let least = as_i32 ((2048 * stride) mod 2 ^ 32); most = as_i32 ((16384 * stride) mod 2 ^ 32)
      in \<lparr>bf_buffers = pod_int_range 2 1 32, bf_blocks = 1, bf_size = pod_int_range least least most,
          bf_stride = as_i32 stride, bf_align = 16, bf_data_type = 2\<rparr>)"

section \<open>Setting the format of a port\<close>

record main_state =
  ms_caps :: stream_caps
  ms_caps_fallback :: bool
  ms_enum_format_flags :: u32
  ms_format_flags :: u32
  ms_buffers_flags :: u32
  ms_port_rate :: "(u32 \<times> u32) option"
  ms_publication_epoch :: u64

abbreviation (input) PARAM_INFO_SERIAL :: u32 where "PARAM_INFO_SERIAL \<equiv> 1"
abbreviation (input) PARAM_INFO_READ :: u32 where "PARAM_INFO_READ \<equiv> 2"
abbreviation (input) PARAM_INFO_WRITE :: u32 where "PARAM_INFO_WRITE \<equiv> 4"
abbreviation (input) PARAM_INFO_READWRITE :: u32 where "PARAM_INFO_READWRITE \<equiv> 6"
abbreviation (input) NODE_PARAM_FLAG_NEAREST :: u32 where "NODE_PARAM_FLAG_NEAREST \<equiv> 4"
abbreviation (input) ENOTSUP_result :: int where "ENOTSUP_result \<equiv> -45"

text \<open>What libspa makes of the object the host passes: the media it names, if it is a format object at
  all, and the raw audio information in it.\<close>

record parsed_format =
  pf_raw_audio :: "bool option"
  pf_info :: "raw_format option"

definition decode_format :: "parsed_format \<Rightarrow> int + raw_format" where
  "decode_format p =
     (case pf_raw_audio p of
        None \<Rightarrow> Inl EINVAL_code
      | Some False \<Rightarrow> Inl ENOENT_code
      | Some True \<Rightarrow>
          (case pf_info p of
             None \<Rightarrow> Inl EINVAL_code
           | Some raw \<Rightarrow>
               if rf_rate raw = 0 \<or> rf_channels raw = 0 \<or> rf_channels raw > AUDIO_MAX_CHANNELS
               then Inl EINVAL_code else Inr raw))"

definition parse_config ::
    "(stream_caps \<Rightarrow> stream_config \<Rightarrow> 'e + unit) \<Rightarrow> stream_caps \<Rightarrow> raw_format \<Rightarrow> int + stream_config" where
  "parse_config validate caps raw =
     (case bytes_per_sample (rf_format raw) of
        None \<Rightarrow> Inl ENOTSUP_result
      | Some bytes \<Rightarrow>
          (let config = \<lparr>sc_format = rf_format raw, sc_rate = rf_rate raw, sc_channels = rf_channels raw,
                 sc_positions = take (rf_channels raw) (rf_position raw), sc_flags = rf_flags raw,
                 sc_stride = bytes * rf_channels raw\<rparr>
           in case validate caps config of Inl _ \<Rightarrow> Inl EINVAL_code | Inr _ \<Rightarrow> Inr config))"

definition raw_admitted :: "stream_caps \<Rightarrow> raw_format \<Rightarrow> bool" where
  "raw_admitted caps raw \<longleftrightarrow>
     bytes_per_sample (rf_format raw) \<noteq> None
   \<and> caps_admits caps (rf_format raw) (rf_channels raw)
       (if rf_flags raw AND 1 = 0 then Some (take (min (rf_channels raw) AUDIO_MAX_CHANNELS) (rf_position raw)) else None)
       (rf_rate raw)"

definition config_positions :: "stream_config \<Rightarrow> u32 list option" where
  "config_positions config = (if sc_flags config AND 1 = 0 then Some (sc_positions config) else None)"

text \<open>\<open>probe\<close> is what opening the device for its capabilities answers.\<close>

definition reannounce :: "stream_caps option \<Rightarrow> main_state \<Rightarrow> main_state" where
  "reannounce probe m =
     (case probe of
        None \<Rightarrow> m
      | Some caps \<Rightarrow>
          (let m = m\<lparr>ms_caps_fallback := False\<rparr>
           in if caps \<noteq> ms_caps m
              then m\<lparr>ms_caps := caps, ms_enum_format_flags := ms_enum_format_flags m XOR PARAM_INFO_SERIAL\<rparr>
              else m))"

definition requested_config ::
    "(stream_caps \<Rightarrow> stream_config \<Rightarrow> 'e + unit) \<Rightarrow> u32 \<Rightarrow> stream_caps \<Rightarrow> raw_format \<Rightarrow> int + (bool \<times> stream_config)" where
  "requested_config validate flags caps raw0 =
     (let (snapped, raw) = (if flags AND NODE_PARAM_FLAG_NEAREST \<noteq> 0 \<and> \<not> raw_admitted caps raw0
                            then snap_raw_to_caps caps raw0 else (False, raw0))
      in case parse_config validate caps raw of
           Inl err \<Rightarrow> Inl err
         | Inr config \<Rightarrow>
             if \<not> caps_admits caps (sc_format config) (rf_channels raw) (config_positions config) (rf_rate raw)
             then Inl EINVAL_code else Inr (snapped, config))"

definition set_format_param ::
    "('d, 'p, 'x, 's, 'w) direction \<Rightarrow> (stream_caps \<Rightarrow> stream_config \<Rightarrow> 'e + unit) \<Rightarrow> stream_caps option \<Rightarrow> bool
       \<Rightarrow> u32 \<Rightarrow> raw_format \<Rightarrow> main_state \<times> ('d, 'p, 'x, 's, 'w) data_state
       \<Rightarrow> (int + int) \<times> 'd list \<times> main_state \<times> ('d, 'p, 'x, 's, 'w) data_state" where
  "set_format_param D validate probe worker_idles flags raw ms =
     (let (m, s) = ms
      in case requested_config validate flags (ms_caps m) raw of
           Inl err \<Rightarrow> (Inl err, [], m, s)
         | Inr (snapped, config) \<Rightarrow>
             (let (res0, retired, s) = install_device D worker_idles config s;
                  res = (if res0 \<ge> 0 \<and> snapped then 1 else res0);
                  m = (if res = EINVAL_code \<or> res = ENOTSUP_result then reannounce probe m else m)
              in (Inr res, retired, m, s)))"

section \<open>Releasing it\<close>

definition release_loop ::
    "('d, 'p, 'x, 's, 'w) direction \<Rightarrow> 'd \<Rightarrow> ('d, 'p, 'x, 's, 'w) data_state
       \<Rightarrow> ('d \<times> ('d, 'p) rebuild_work option) \<times> ('d, 'p, 'x, 's, 'w) data_state" where
  "release_loop D placeholder s =
     (let s = (if ds_rebuild_takeover s then s\<lparr> ds_panic := True \<rparr> else s);
          s = invalidate_device_wake D (s\<lparr> ds_rebuild_takeover := True \<rparr>);
          deferred = ds_deferred_work s;
          s = s\<lparr> ds_deferred_work := None \<rparr>;
          retired = p_dsp (ds_port s);
          s = upd_port (\<lambda>port. (reset_stream_epoch (port\<lparr> p_dsp := placeholder \<rparr>))
                \<lparr> p_buffers := [], p_config := None, p_generation := wrapping_succ (p_generation port) \<rparr>) s;
          s = upd_port (\<lambda>port. port\<lparr> p_rebuild_pending := True \<rparr>) (store_generation s);
          s = (if ds_started s then update_driver_wake D s else s)
      in ((retired, deferred), s))"

definition release_format ::
    "('d, 'p, 'x, 's, 'w) direction \<Rightarrow> bool \<Rightarrow> ('d, 'p, 'x, 's, 'w) data_state
       \<Rightarrow> int \<times> 'd list \<times> ('d, 'p, 'x, 's, 'w) data_state" where
  "release_format D worker_idles s =
     (let ((retired, _), s) = release_loop D (dn_new D (ds_stream_path s)) s;
          s = drained_mailbox s
      in if \<not> worker_idles then (EIO_code, [retired], release_rebuild_takeover s)
         else (0, [retired], release_rebuild_takeover (drained_mailbox s)))"

definition publish_format_state :: "u32 option \<Rightarrow> main_state \<Rightarrow> main_state" where
  "publish_format_state rate m =
     (let m = (case rate of
                 Some r \<Rightarrow> m\<lparr>ms_port_rate := Some (1, r), ms_format_flags := PARAM_INFO_READWRITE,
                             ms_buffers_flags := PARAM_INFO_READ\<rparr>
               | None \<Rightarrow> m\<lparr>ms_format_flags := PARAM_INFO_WRITE, ms_buffers_flags := 0\<rparr>)
      in m\<lparr>ms_publication_epoch := wrapping_succ (ms_publication_epoch m)\<rparr>)"

text \<open>The Format case of \<open>port_set_param_inner\<close>; no object releases the format.\<close>

definition port_set_format ::
    "('d, 'p, 'x, 's, 'w) direction \<Rightarrow> (stream_caps \<Rightarrow> stream_config \<Rightarrow> 'e + unit) \<Rightarrow> stream_caps option \<Rightarrow> bool
       \<Rightarrow> u32 \<Rightarrow> parsed_format option \<Rightarrow> main_state \<times> ('d, 'p, 'x, 's, 'w) data_state
       \<Rightarrow> int \<times> 'd list \<times> main_state \<times> ('d, 'p, 'x, 's, 'w) data_state" where
  "port_set_format D validate probe worker_idles flags param ms =
     (let published = (\<lambda>m s. publish_format_state (map_option sc_rate (p_config (ds_port s))) m)
      in case param of
           Some p \<Rightarrow>
             (case decode_format p of
                Inl err \<Rightarrow> (err, [], ms)
              | Inr raw \<Rightarrow>
                  (case set_format_param D validate probe worker_idles flags raw ms of
                     (Inl err, retired, m, s) \<Rightarrow> (err, retired, m, s)
                   | (Inr res, retired, m, s) \<Rightarrow> (res, retired, published m s, s)))
         | None \<Rightarrow>
             (let (m, s) = ms; (res, retired, s) = release_format D worker_idles s
              in if res = 0 then (0, retired, published m s, s) else (res, retired, m, s)))"

section \<open>Facts about snapping\<close>

lemma min_by_key_Some:
  "min_by_key key xs = Some x \<Longrightarrow> x \<in> set xs \<and> (\<forall>y \<in> set xs. key x \<le> key y)"
  by (auto simp: min_by_key_def arg_min_list_in f_arg_min_list_f split: if_splits)

lemma min_by_key_None [simp]: "min_by_key key xs = None \<longleftrightarrow> xs = []"
  by (simp add: min_by_key_def)

lemma abs_diff_0 [simp]: "abs_diff a b = 0 \<longleftrightarrow> a = b"
  by (auto simp: abs_diff_def)

lemma least_distance_0:
  "(case map (\<lambda>x. abs_diff (f x) n) xs of [] \<Rightarrow> u32_max | d # ds \<Rightarrow> min_list (d # ds)) = 0
     \<longleftrightarrow> xs \<noteq> [] \<and> (\<exists>x \<in> set xs. f x = n)"
proof (cases xs)
  case Nil
  then show ?thesis by simp
next
  case (Cons a ys)
  have "min_list (map (\<lambda>x. abs_diff (f x) n) xs) = Min ((\<lambda>x. abs_diff (f x) n) ` set xs)"
    using Cons min_list_Min [of "map (\<lambda>x. abs_diff (f x) n) xs"] by simp
  moreover have "Min ((\<lambda>x. abs_diff (f x) n) ` set xs) = 0 \<longleftrightarrow> (\<exists>x \<in> set xs. f x = n)"
  proof
    assume "Min ((\<lambda>x. abs_diff (f x) n) ` set xs) = 0"
    then have "0 \<in> (\<lambda>x. abs_diff (f x) n) ` set xs" using Cons by (metis Min_in finite_imageI finite_set image_is_empty list.distinct(1) set_empty)
    then show "\<exists>x \<in> set xs. f x = n" by auto
  next
    assume "\<exists>x \<in> set xs. f x = n"
    then have "0 \<in> (\<lambda>x. abs_diff (f x) n) ` set xs" by (auto simp: image_iff intro!: bexI)
    then show "Min ((\<lambda>x. abs_diff (f x) n) ` set xs) = 0" by (metis Min_le finite_imageI finite_set le_zero_eq)
  qed
  ultimately show ?thesis using Cons by simp
qed

lemma channel_distance_0:
  "channel_distance c n = 0 \<longleftrightarrow> (\<exists>l \<in> set (layouts (cfg_channels c)). ly_channels l = n)"
  unfolding channel_distance_def least_distance_0 by auto

text \<open>What snapping relies on: lists that are not empty, ordered ranges, layouts the position array can
  hold.\<close>

fun rates_usable :: "rate_set \<Rightarrow> bool" where
  "rates_usable (DiscreteRates rates) \<longleftrightarrow> rates \<noteq> []"
| "rates_usable (RateRange lo hi) \<longleftrightarrow> lo \<le> hi \<and> hi \<le> u32_max"

definition layout_usable :: "channel_layout \<Rightarrow> bool" where
  "layout_usable l \<longleftrightarrow> 1 \<le> ly_channels l \<and> ly_channels l \<le> AUDIO_MAX_CHANNELS
     \<and> (case ly_positions l of Some ps \<Rightarrow> length ps = ly_channels l | None \<Rightarrow> True)"

definition configuration_usable :: "stream_configuration \<Rightarrow> bool" where
  "configuration_usable c \<longleftrightarrow> rates_usable (cfg_rates c)
     \<and> (\<exists>ls. cfg_channels c = DiscreteLayouts ls \<and> ls \<noteq> [] \<and> (\<forall>l \<in> set ls. layout_usable l))"

definition caps_usable :: "stream_caps \<Rightarrow> bool" where
  "caps_usable caps \<longleftrightarrow> (\<exists>c \<in> set (caps_configurations caps). cfg_formats c \<noteq> [])
     \<and> (\<forall>c \<in> set (caps_configurations caps). cfg_formats c \<noteq> [] \<longrightarrow> configuration_usable c)"

lemma nearest_rate_fits:
  "rates_usable rates \<Longrightarrow> rate_distance rates (nearest_rate rates rate) = 0
     \<and> rates_admits rates (nearest_rate rates rate) tolerance"
proof (cases rates)
  case (DiscreteRates rs)
  assume "rates_usable rates"
  then obtain r where r: "min_by_key (\<lambda>r. abs_diff r rate) rs = Some r"
    using DiscreteRates by (cases "min_by_key (\<lambda>r. abs_diff r rate) rs") auto
  then have "r \<in> set rs" by (blast dest: min_by_key_Some)
  then show ?thesis using DiscreteRates r least_distance_0 [of "\<lambda>x. x" r rs] by auto
next
  case (RateRange lo hi)
  assume "rates_usable rates"
  then show ?thesis using RateRange clamp_bounds [of lo hi rate] by (auto simp: clamp_def sat_add32_def)
qed

lemma nearest_rate_stays: "rate_distance rates rate = 0 \<Longrightarrow> nearest_rate rates rate = rate"
proof (cases rates)
  case (DiscreteRates rs)
  assume z: "rate_distance rates rate = 0"
  then have mem: "rate \<in> set rs" using DiscreteRates least_distance_0 [of "\<lambda>x. x" rate rs] by auto
  then obtain r where r: "min_by_key (\<lambda>r. abs_diff r rate) rs = Some r"
    by (cases "min_by_key (\<lambda>r. abs_diff r rate) rs") auto
  then have "abs_diff r rate \<le> abs_diff rate rate" using min_by_key_Some mem by metis
  moreover have "abs_diff rate rate = 0" by simp
  ultimately have "r = rate" by (metis abs_diff_0 le_zero_eq)
  then show ?thesis using DiscreteRates r by simp
qed simp

definition fits :: "stream_configuration \<Rightarrow> raw_format \<Rightarrow> bool" where
  "fits c raw \<longleftrightarrow> rf_format raw \<in> set (cfg_formats c)
     \<and> channel_distance c (rf_channels raw) = 0 \<and> rate_distance (cfg_rates c) (rf_rate raw) = 0"

lemma fits_admitted:
  assumes "fits c raw" "configuration_usable c"
  shows "configuration_admits c (rf_format raw) (rf_channels raw) None (rf_rate raw)"
proof -
  obtain ls where ls: "cfg_channels c = DiscreteLayouts ls" using assms(2) by (auto simp: configuration_usable_def)
  have "rates_admits (cfg_rates c) (rf_rate raw) t" for t
    using assms nearest_rate_stays [of "cfg_rates c" "rf_rate raw"]
      nearest_rate_fits [of "cfg_rates c" "rf_rate raw" t] by (simp add: fits_def configuration_usable_def)
  moreover have "channels_admits (cfg_channels c) (rf_channels raw) None fl" for fl
    using assms(1) ls by (auto simp: fits_def channel_distance_0 list_ex_iff layout_admits_def)
  ultimately show ?thesis using assms(1) by (simp add: configuration_admits_def fits_def)
qed

lemma snap_configuration_Some:
  assumes "snap_configuration caps raw = Some c"
  shows "c \<in> set (caps_configurations caps) \<and> cfg_formats c \<noteq> []
    \<and> (\<forall>c' \<in> set (caps_configurations caps). cfg_formats c' \<noteq> [] \<and> fits c' raw \<longrightarrow> fits c raw)"
proof -
  define cs where "cs = filter (\<lambda>(_, c). cfg_formats c \<noteq> []) (enumerate 0 (caps_configurations caps))"
  obtain i where i: "min_by_key (snap_key caps raw) cs = Some (i, c)"
    using assms by (auto simp: snap_configuration_def cs_def)
  have mem: "(j, d) \<in> set cs \<longleftrightarrow> j < length (caps_configurations caps) \<and> d = caps_configurations caps ! j \<and> cfg_formats d \<noteq> []" for j d
    by (auto simp: cs_def in_set_enumerate_eq)
  have c: "(i, c) \<in> set cs" and least: "\<And>p. p \<in> set cs \<Longrightarrow> snap_key caps raw (i, c) \<le> snap_key caps raw p"
    using min_by_key_Some [OF i] by auto
  have "fits c raw" if d: "d \<in> set (caps_configurations caps)" "cfg_formats d \<noteq> []" "fits d raw" for d
  proof -
    obtain j where "j < length (caps_configurations caps)" "d = caps_configurations caps ! j"
      using d(1) by (auto simp: in_set_conv_nth)
    then have "(j, d) \<in> set cs" using d(2) by (simp add: mem)
    from least [OF this] d(3) show ?thesis
      by (auto simp: snap_key_def fits_def less_eq_prod_def less_bool_def)
  qed
  then show ?thesis using c mem by auto
qed

lemma snap_configuration_exists: "caps_usable caps \<Longrightarrow> \<exists>c. snap_configuration caps raw = Some c"
proof -
  assume "caps_usable caps"
  then obtain c where c: "c \<in> set (caps_configurations caps)" "cfg_formats c \<noteq> []" by (auto simp: caps_usable_def)
  from c(1) obtain i where "i < length (caps_configurations caps)" "c = caps_configurations caps ! i"
    unfolding in_set_conv_nth by blast
  then have "(i, c) \<in> set (enumerate 0 (caps_configurations caps))" by (simp add: in_set_enumerate_eq)
  with c(2) have "filter (\<lambda>(_, c). cfg_formats c \<noteq> []) (enumerate 0 (caps_configurations caps)) \<noteq> []"
    by (force simp: filter_empty_conv)
  then show ?thesis by (simp add: snap_configuration_def min_by_key_def)
qed

text \<open>A request that fits a configuration is left alone.\<close>

lemma snap_leaves_fitting:
  assumes usable: "caps_usable caps"
    and c: "c \<in> set (caps_configurations caps)" "cfg_formats c \<noteq> []" "fits c raw"
  shows "snap_raw_to_caps caps raw = (False, raw)"
proof -
  obtain d where d: "snap_configuration caps raw = Some d" using snap_configuration_exists [OF usable] by blast
  have fd: "fits d raw" and use: "configuration_usable d"
    using snap_configuration_Some [OF d] c usable by (auto simp: caps_usable_def)
  have f: "snap_format d raw = (False, raw)" using fd by (simp add: snap_format_def offered_formats_def fits_def Let_def)
  obtain l0 where l0: "l0 \<in> set (layouts (cfg_channels d))" "ly_channels l0 = rf_channels raw"
    using fd by (auto simp: fits_def channel_distance_0)
  then obtain l where l: "min_by_key (\<lambda>l. abs_diff (ly_channels l) (rf_channels raw)) (layouts (cfg_channels d)) = Some l"
    by (cases "min_by_key (\<lambda>l. abs_diff (ly_channels l) (rf_channels raw)) (layouts (cfg_channels d))") auto
  have lin: "l \<in> set (layouts (cfg_channels d))" and least: "abs_diff (ly_channels l) (rf_channels raw) \<le> abs_diff (ly_channels l0) (rf_channels raw)"
    using min_by_key_Some [OF l] l0(1) by auto
  moreover have "abs_diff (ly_channels l0) (rf_channels raw) = 0" using l0(2) by simp
  ultimately have "ly_channels l = rf_channels raw" by simp
  moreover have "layout_usable l" using use lin by (auto simp: configuration_usable_def)
  ultimately have ch: "snap_channels l raw = (False, raw)" by (simp add: snap_channels_def layout_usable_def Let_def)
  have "nearest_rate (cfg_rates d) (rf_rate raw) = rf_rate raw"
    using fd nearest_rate_stays by (simp add: fits_def)
  then show ?thesis by (simp add: snap_raw_to_caps_def d f l ch)
qed

section \<open>Snapping\<close>

lemma opaque_aux: "list_all opaque_position (map (\<lambda>i. CHANNEL_AUX0 + i) [0..<n])"
  by (simp add: list_all_iff opaque_position_def)

text \<open>C26. On capabilities that list usable configurations, the nearest request is one the device admits:
  its format, channel count and rate belong to one advertised configuration, and where the channel count
  was changed so does its channel map; the caller is told of a change exactly if there is one; and
  snapping twice changes nothing more.\<close>

theorem snapped_request_is_admitted:
  assumes "caps_usable caps" "length (rf_position raw) = 64"
  shows "let (changed, raw') = snap_raw_to_caps caps raw
    in caps_admits caps (rf_format raw') (rf_channels raw') None (rf_rate raw')
     \<and> (rf_channels raw' \<noteq> rf_channels raw \<longrightarrow>
          caps_admits caps (rf_format raw') (rf_channels raw') (Some (take (rf_channels raw') (rf_position raw'))) (rf_rate raw'))
     \<and> (changed \<longleftrightarrow> raw' \<noteq> raw) \<and> rf_flags raw' = rf_flags raw \<and> length (rf_position raw') = 64
     \<and> snap_raw_to_caps caps raw' = (False, raw')"
proof -
  obtain c where c: "snap_configuration caps raw = Some c" using snap_configuration_exists [OF assms(1)] by blast
  note chosen = snap_configuration_Some [OF c]
  have use: "configuration_usable c" using chosen assms(1) by (auto simp: caps_usable_def)
  obtain ls where ls: "cfg_channels c = DiscreteLayouts ls" "ls \<noteq> []" "\<And>l. l \<in> set ls \<Longrightarrow> layout_usable l"
    using use by (auto simp: configuration_usable_def)
  obtain b1 raw1 where r1: "snap_format c raw = (b1, raw1)" by fastforce
  have raw1: "rf_format raw1 \<in> set (cfg_formats c)" "rf_channels raw1 = rf_channels raw" "rf_rate raw1 = rf_rate raw"
    "rf_position raw1 = rf_position raw" "rf_flags raw1 = rf_flags raw" "b1 \<longleftrightarrow> rf_format raw1 \<noteq> rf_format raw" "\<not> b1 \<Longrightarrow> raw1 = raw"
    using r1 chosen by (auto simp: snap_format_def offered_formats_def Let_def split: if_splits list.splits)
  obtain l where l: "min_by_key (\<lambda>l. abs_diff (ly_channels l) (rf_channels raw1)) (layouts (cfg_channels c)) = Some l"
    using ls by (cases "min_by_key (\<lambda>l. abs_diff (ly_channels l) (rf_channels raw1)) (layouts (cfg_channels c))") auto
  have lin: "l \<in> set ls" using min_by_key_Some [OF l] ls(1) by simp
  then have lay: "ly_channels l \<le> 64" "\<And>ps. ly_positions l = Some ps \<Longrightarrow> length ps = ly_channels l"
    using ls(3) [OF lin] by (simp_all add: layout_usable_def)
  define new where "new = (case ly_positions l of Some ps \<Rightarrow> ps | None \<Rightarrow> map (\<lambda>i. CHANNEL_AUX0 + i) [0..<ly_channels l])"
  have new: "length new = ly_channels l" using lay(2) by (cases "ly_positions l") (auto simp: new_def)
  obtain b2 raw2 where r2: "snap_channels l raw1 = (b2, raw2)" by fastforce
  have raw2: "rf_format raw2 = rf_format raw1" "rf_channels raw2 = ly_channels l" "rf_rate raw2 = rf_rate raw"
    "rf_flags raw2 = rf_flags raw" "b2 \<longleftrightarrow> rf_channels raw2 \<noteq> rf_channels raw" "\<not> b2 \<Longrightarrow> raw2 = raw1" "length (rf_position raw2) = 64"
    "b2 \<Longrightarrow> take (ly_channels l) (rf_position raw2) = new"
    using r2 lay(1) raw1 new assms(2)
    by (auto simp: snap_channels_def new_def [symmetric] overwrite_def Let_def split: if_splits)
  define rate where "rate = nearest_rate (cfg_rates c) (rf_rate raw2)"
  obtain b raw3 where r3: "snap_raw_to_caps caps raw = (b, raw3)" by fastforce
  then have raw3: "raw3 = raw2\<lparr>rf_rate := rate\<rparr>" "b \<longleftrightarrow> b1 \<or> b2 \<or> rate \<noteq> rf_rate raw2"
    by (auto simp: snap_raw_to_caps_def c r1 l r2 rate_def [symmetric] Let_def split: if_splits)
  have "raw3 \<noteq> raw" if b
  proof
    assume "raw3 = raw"
    then have "rf_format raw3 = rf_format raw" "rf_channels raw3 = rf_channels raw" "rf_rate raw3 = rf_rate raw" by simp_all
    then show False using that raw3 raw1(6) raw2 by simp
  qed
  moreover have "raw3 = raw" if "\<not> b"
    using that raw3 raw1(7) raw2(6) by simp
  ultimately have changed: "b \<longleftrightarrow> raw3 \<noteq> raw" by blast
  have fit: "fits c raw3"
    using raw3(1) raw1(1) raw2(1,2) lin ls(1) nearest_rate_fits [of "cfg_rates c" "rf_rate raw2"] use
    by (auto simp: fits_def channel_distance_0 rate_def configuration_usable_def)
  have adm: "configuration_admits c (rf_format raw3) (rf_channels raw3) None (rf_rate raw3)"
    using fits_admitted [OF fit use] .
  have again: "snap_raw_to_caps caps raw3 = (False, raw3)"
    using snap_leaves_fitting [OF assms(1) _ _ fit] chosen by blast
  have "configuration_admits c (rf_format raw3) (rf_channels raw3) (Some (take (rf_channels raw3) (rf_position raw3))) (rf_rate raw3)"
    if "rf_channels raw3 \<noteq> rf_channels raw"
  proof -
    have "take (ly_channels l) (rf_position raw3) = new" using that raw1(2) raw2 raw3(1) by auto
    moreover have "layout_admits l (ly_channels l) (Some new) fl" for fl
      using new opaque_aux [of "ly_channels l"] by (cases "ly_positions l") (auto simp: layout_admits_def new_def)
    ultimately have "channels_admits (cfg_channels c) (rf_channels raw3) (Some (take (rf_channels raw3) (rf_position raw3))) fl" for fl
      using lin ls(1) raw2(2) raw3(1) by (auto simp: list_ex_iff)
    then show ?thesis using adm by (simp add: configuration_admits_def)
  qed
  then show ?thesis
    using adm changed again chosen r3 raw3 raw2 by (auto simp: caps_admits_def list_ex_iff)
qed

section \<open>Facts about the install\<close>

context node_direction
begin

lemma takeover_spec:
  assumes "begin_takeover D s = (deferred, s1)" "\<not> ds_rebuild_takeover s"
  shows "ident (p_dsp (ds_port s1)) = ident (p_dsp (ds_port s))" "p_config (ds_port s1) = p_config (ds_port s)"
    "p_ext (ds_port s1) = p_ext (ds_port s)" "ds_deferred_work s1 = None"
    "sh_slot (ds_shared s1) = sh_slot (ds_shared s)" "ds_rebuild_work s1 = ds_rebuild_work s"
    "has_timer s1 = has_timer s" "has_timer s \<Longrightarrow> ds_panic s1 = ds_panic s" "ds_properties s1 = ds_properties s"
proof -
  let ?u = "store_generation (upd_port (\<lambda>port. port\<lparr> p_rebuild_pending := True, p_generation := wrapping_succ (p_generation port) \<rparr>)
      (s\<lparr> ds_rebuild_takeover := True, ds_deferred_work := None \<rparr>))"
  have eq: "s1 = (if ds_started ?u then update_driver_wake D ?u else ?u)"
    using assms by (simp add: begin_takeover_def Let_def)
  have f: "data_frame ident ?u s1" unfolding eq by (rule started_wake_frame)
  have ht: "has_timer ?u = has_timer s" by (simp add: has_timer_def store_generation_def)
  show "p_ext (ds_port s1) = p_ext (ds_port s)"
    unfolding eq by (simp add: update_driver_wake_sel store_generation_def)
  show "ident (p_dsp (ds_port s1)) = ident (p_dsp (ds_port s))" "p_config (ds_port s1) = p_config (ds_port s)"
    "ds_deferred_work s1 = None"
    "sh_slot (ds_shared s1) = sh_slot (ds_shared s)" "ds_rebuild_work s1 = ds_rebuild_work s"
    "has_timer s1 = has_timer s" "has_timer s \<Longrightarrow> ds_panic s1 = ds_panic s" "ds_properties s1 = ds_properties s"
    using f ht unfolding data_frame_def by (simp_all add: store_generation_def)
qed

text \<open>What the opens of an install may produce.\<close>

definition opened :: "stream_config \<Rightarrow> 'p \<Rightarrow> (int + configure_outcome) \<times> 'd \<Rightarrow> bool" where
  "opened config props r \<longleftrightarrow> (\<exists>path. r = dn_try_open_configure D config props (dn_new D path)
     \<or> (\<exists>d. dn_try_open_configure D config props (dn_new D path) = (Inl EBUSY_code, d)
          \<and> r = dn_try_open_configure D config props d))"

lemma install_device_spec:
  assumes run: "install_device D worker_idles config s = (res, retired, s')" and t: "\<not> ds_rebuild_takeover s"
    and hook: "\<And>u. R (p_ext (ds_port u)) (p_ext (ds_port (dn_on_device_swapped D u)))" and refl: "\<And>x. R x x"
  shows "(\<not> worker_idles \<and> res = EIO_code \<and> ident (p_dsp (ds_port s')) = ident (p_dsp (ds_port s))
        \<and> p_config (ds_port s') = p_config (ds_port s))
      \<or> (\<exists>c d. opened config (ds_properties s) (c, d) \<and> ident (p_dsp (ds_port s')) = ident d
        \<and> p_config (ds_port s') = (case c of Inl _ \<Rightarrow> None | Inr out \<Rightarrow> Some (co_actual_config out))
        \<and> res = (case c of Inl err \<Rightarrow> err | Inr out \<Rightarrow> if adjustment_is_empty (co_adjusted out) then 0 else 1))"
    "R (p_ext (ds_port s)) (p_ext (ds_port s'))" "ds_deferred_work s' = None" "sh_slot (ds_shared s') = None"
    "ds_rebuild_work s' = ds_rebuild_work s" "has_timer s' = has_timer s" "has_timer s \<Longrightarrow> ds_panic s' = ds_panic s"
    "ds_properties s' = ds_properties s" "\<not> ds_rebuild_takeover s'"
proof -
  obtain deferred s1 where b: "begin_takeover D s = (deferred, s1)" by fastforce
  note f = takeover_spec [OF b t]
  have "((\<not> worker_idles \<and> res = EIO_code \<and> ident (p_dsp (ds_port s')) = ident (p_dsp (ds_port s))
        \<and> p_config (ds_port s') = p_config (ds_port s))
      \<or> (\<exists>c d. opened config (ds_properties s) (c, d) \<and> ident (p_dsp (ds_port s')) = ident d
        \<and> p_config (ds_port s') = (case c of Inl _ \<Rightarrow> None | Inr out \<Rightarrow> Some (co_actual_config out))
        \<and> res = (case c of Inl err \<Rightarrow> err | Inr out \<Rightarrow> if adjustment_is_empty (co_adjusted out) then 0 else 1)))
    \<and> R (p_ext (ds_port s)) (p_ext (ds_port s')) \<and> ds_deferred_work s' = None \<and> sh_slot (ds_shared s') = None
    \<and> ds_rebuild_work s' = ds_rebuild_work s \<and> has_timer s' = has_timer s \<and> (has_timer s \<longrightarrow> ds_panic s' = ds_panic s)
    \<and> ds_properties s' = ds_properties s \<and> \<not> ds_rebuild_takeover s'"
  proof (cases worker_idles)
    case False
    then have "res = EIO_code" "s' = release_rebuild_takeover (drained_mailbox s1)"
      using run by (simp_all add: install_device_def b)
    then show ?thesis using False f refl
      by (simp add: release_rebuild_takeover_def drained_mailbox_def discard_swap_def exchange_def has_timer_def)
  next
    case True
    define s2 where "s2 = drained_mailbox (drained_mailbox s1)"
    have s2: "p_ext (ds_port s2) = p_ext (ds_port s)" "ds_deferred_work s2 = None" "sh_slot (ds_shared s2) = None"
      "ds_rebuild_work s2 = ds_rebuild_work s" "has_timer s2 = has_timer s" "has_timer s \<Longrightarrow> ds_panic s2 = ds_panic s"
      "ds_properties s2 = ds_properties s"
      using f by (simp_all add: s2_def drained_mailbox_def discard_swap_def exchange_def has_timer_def)
    obtain c0 d0 where c0: "dn_try_open_configure D config (ds_properties s2) (dn_new D (ds_stream_path s2)) = (c0, d0)" by fastforce
    define busy where "busy \<longleftrightarrow> c0 = Inl EBUSY_code"
    obtain c d where cd: "(c, d) = (if busy then dn_try_open_configure D config (ds_properties s2) d0 else (c0, d0))"
      by (metis surj_pair)
    define s3 where "s3 = (if busy then upd_port (\<lambda>port. port\<lparr> p_dsp := dn_new D (ds_stream_path s2) \<rparr>) s2 else s2)"
    have op: "opened config (ds_properties s) (c, d)"
      using cd c0 s2(7) unfolding opened_def busy_def by (cases "c0 = Inl EBUSY_code") metis+
    have s3: "p_ext (ds_port s3) = p_ext (ds_port s)" "ds_deferred_work s3 = None" "sh_slot (ds_shared s3) = None"
      "ds_rebuild_work s3 = ds_rebuild_work s" "has_timer s3 = has_timer s" "has_timer s \<Longrightarrow> ds_panic s3 = ds_panic s"
      "ds_properties s3 = ds_properties s" "ds_properties s3 = ds_properties s2"
      using s2 by (simp_all add: s3_def has_timer_def)
    define q where "q = (case c of Inr out \<Rightarrow> (case ab_quantum_bytes (co_applied_buffer out) of Some q \<Rightarrow> q | None \<Rightarrow> 0) | Inl _ \<Rightarrow> 0)"
    define cfg where "cfg = (case c of Inl _ \<Rightarrow> None | Inr out \<Rightarrow> Some (co_actual_config out))"
    obtain old s4 where r: "replace_device D d cfg (Some q) s3 = (old, s4)" by fastforce
    have inst: "install_swap D d (case c of Inr x \<Rightarrow> Some x | Inl _ \<Rightarrow> None) s3 = (old, s4\<lparr> ds_rebuild_takeover := False \<rparr>)"
      using r by (cases c) (simp_all add: install_swap_def q_def cfg_def)
    have out: "res = (case c of Inr out \<Rightarrow> (if adjustment_is_empty (co_adjusted out) then 0 else 1) | Inl err \<Rightarrow> err)"
      "s' = s4\<lparr> ds_rebuild_takeover := False \<rparr>"
    proof -
      have e: "install_device D worker_idles config s = (let
                  (configured, new_dsp) = dn_try_open_configure D config (ds_properties s2) (dn_new D (ds_stream_path s2));
                  (configured, new_dsp, retired, s) =
                    (case configured of
                       Inl err \<Rightarrow>
                         if err = EBUSY_code
                         then let retired = p_dsp (ds_port s2);
                                  s = upd_port (\<lambda>port. port\<lparr> p_dsp := dn_new D (ds_stream_path s2) \<rparr>) s2;
                                  (configured, new_dsp) = dn_try_open_configure D config (ds_properties s) new_dsp
                              in (configured, new_dsp, [retired], s)
                         else (configured, new_dsp, [], s2)
                     | Inr _ \<Rightarrow> (configured, new_dsp, [], s2));
                  res = (case configured of Inr c \<Rightarrow> (if adjustment_is_empty (co_adjusted c) then 0 else 1) | Inl err \<Rightarrow> err);
                  (old, s) = install_swap D new_dsp (case configured of Inr c \<Rightarrow> Some c | Inl _ \<Rightarrow> None) s
              in (res, retired @ [old], s))"
        by (simp only: install_device_def b Let_def prod.case True not_True_eq_False if_False s2_def [symmetric])
      show "res = (case c of Inr out \<Rightarrow> (if adjustment_is_empty (co_adjusted out) then 0 else 1) | Inl err \<Rightarrow> err)"
        "s' = s4\<lparr> ds_rebuild_takeover := False \<rparr>"
        using run inst cd unfolding e c0
        by (auto simp: Let_def busy_def s3_def split: sum.splits if_splits prod.splits)
    qed
    note rs = replace_device_spec [OF r]
    obtain u where u: "p_ext (ds_port u) = p_ext (ds_port s3)" "p_ext (ds_port s4) = p_ext (ds_port (dn_on_device_swapped D u))"
      using replace_device_hook [OF r] by metis
    have "R (p_ext (ds_port s)) (p_ext (ds_port s4))" using hook [of u] u s3(1) by simp
    then show ?thesis
      using rs s3 op out by (auto simp: cfg_def has_timer_def intro!: exI [of _ c] exI [of _ d] split: sum.splits)
  qed
  then show "(\<not> worker_idles \<and> res = EIO_code \<and> ident (p_dsp (ds_port s')) = ident (p_dsp (ds_port s))
        \<and> p_config (ds_port s') = p_config (ds_port s))
      \<or> (\<exists>c d. opened config (ds_properties s) (c, d) \<and> ident (p_dsp (ds_port s')) = ident d
        \<and> p_config (ds_port s') = (case c of Inl _ \<Rightarrow> None | Inr out \<Rightarrow> Some (co_actual_config out))
        \<and> res = (case c of Inl err \<Rightarrow> err | Inr out \<Rightarrow> if adjustment_is_empty (co_adjusted out) then 0 else 1))"
    "R (p_ext (ds_port s)) (p_ext (ds_port s'))" "ds_deferred_work s' = None" "sh_slot (ds_shared s') = None"
    "ds_rebuild_work s' = ds_rebuild_work s" "has_timer s' = has_timer s" "has_timer s \<Longrightarrow> ds_panic s' = ds_panic s"
    "ds_properties s' = ds_properties s" "\<not> ds_rebuild_takeover s'"
    by blast+
qed

end

section \<open>Facts about a Format request\<close>

lemma snapped_shape:
  assumes "caps_usable caps" "snap_raw_to_caps caps raw = (b, raw')" "1 \<le> rf_channels raw" "rf_channels raw \<le> 64"
    "length (rf_position raw) = 64"
  shows "1 \<le> rf_channels raw' \<and> rf_channels raw' \<le> 64 \<and> length (rf_position raw') = 64"
proof -
  obtain c where c: "snap_configuration caps raw = Some c" using snap_configuration_exists [OF assms(1)] by blast
  then have use: "configuration_usable c" using snap_configuration_Some assms(1) unfolding caps_usable_def by blast
  obtain b1 raw1 where r1: "snap_format c raw = (b1, raw1)" by fastforce
  have raw1: "rf_channels raw1 = rf_channels raw" "rf_position raw1 = rf_position raw"
    using r1 by (auto simp: snap_format_def Let_def split: if_splits list.splits)
  show ?thesis
  proof (cases "min_by_key (\<lambda>l. abs_diff (ly_channels l) (rf_channels raw1)) (layouts (cfg_channels c))")
    case None
    then have "raw' = raw1" using assms(2) by (simp add: snap_raw_to_caps_def c r1 del: min_by_key_None)
    then show ?thesis using raw1 assms by simp
  next
    case (Some l)
    have "layout_usable l" using min_by_key_Some [OF Some] use by (auto simp: configuration_usable_def)
    moreover obtain b2 raw2 where r2: "snap_channels l raw1 = (b2, raw2)" by fastforce
    moreover have "raw' = raw2 \<or> raw' = raw2\<lparr>rf_rate := nearest_rate (cfg_rates c) (rf_rate raw2)\<rparr>"
      using assms(2) by (auto simp: snap_raw_to_caps_def c r1 Some r2 Let_def split: if_splits)
    ultimately show ?thesis using raw1 assms(3-5)
      by (auto simp: snap_channels_def layout_usable_def overwrite_def Let_def split: if_splits)
  qed
qed

lemma requested_config_admitted:
  assumes "requested_config validate flags caps raw = Inr (snapped, config)" "caps_usable caps"
    "1 \<le> rf_channels raw" "rf_channels raw \<le> 64" "length (rf_position raw) = 64"
  shows "caps_admits caps (sc_format config) (sc_channels config) (config_positions config) (sc_rate config)
    \<and> 1 \<le> sc_channels config \<and> sc_channels config \<le> 64"
proof -
  obtain b raw' where r: "(if flags AND 4 \<noteq> 0 \<and> \<not> raw_admitted caps raw then snap_raw_to_caps caps raw else (False, raw)) = (b, raw')"
    by fastforce
  have shape: "1 \<le> rf_channels raw' \<and> rf_channels raw' \<le> 64"
    using snapped_shape [OF assms(2) _ assms(3-5)] r assms(3,4) by (metis prod.inject)
  have "parse_config validate caps raw' = Inr config
    \<and> caps_admits caps (sc_format config) (rf_channels raw') (config_positions config) (rf_rate raw')"
    using assms(1) unfolding requested_config_def r by (auto simp: Let_def split: sum.splits if_splits)
  moreover from this have "sc_channels config = rf_channels raw'" "sc_rate config = rf_rate raw'"
    by (auto simp: parse_config_def Let_def split: option.splits sum.splits)
  ultimately show ?thesis using shape by simp
qed

lemma parse_error: "parse_config validate caps raw = Inl err \<Longrightarrow> err < 0"
  by (auto simp: parse_config_def Let_def split: option.splits sum.splits)

text \<open>A Format object is refused before anything happens, or the device is installed with the
  configuration asked for.\<close>

lemma port_set_format_cases:
  assumes "port_set_format D validate probe worker_idles flags (Some p) (m, s) = (res, retired, m', s')"
  obtains (refused) "res < 0" "s' = s" "m' = m"
    | (installed) raw snapped config res0 m1 where "decode_format p = Inr raw"
      "requested_config validate flags (ms_caps m) raw = Inr (snapped, config)"
      "install_device D worker_idles config s = (res0, retired, s')" "res = (if res0 \<ge> 0 \<and> snapped then 1 else res0)"
      "m' = publish_format_state (map_option sc_rate (p_config (ds_port s'))) m1"
proof (cases "decode_format p")
  case (Inl err)
  then have "err < 0" by (auto simp: decode_format_def split: option.splits bool.splits if_splits)
  then show ?thesis using assms Inl refused by (simp add: port_set_format_def)
next
  case d: (Inr raw)
  show ?thesis
  proof (cases "requested_config validate flags (ms_caps m) raw")
    case (Inl err)
    then have "err < 0"
      by (auto simp: requested_config_def Let_def case_prod_beta split: sum.splits if_splits dest: parse_error)
    then show ?thesis using assms d Inl refused by (simp add: port_set_format_def set_format_param_def)
  next
    case (Inr r)
    obtain snapped config where r: "r = (snapped, config)" by (cases r)
    obtain res0 ret s1 where i: "install_device D worker_idles config s = (res0, ret, s1)" by (cases "install_device D worker_idles config s") auto
    show ?thesis
      by (rule installed [OF d Inr [unfolded r], of res0 "(if res = EINVAL_code \<or> res = ENOTSUP_result then reannounce probe m else m)"])
        (use assms d Inr r i in \<open>auto simp: port_set_format_def set_format_param_def Let_def split: if_splits\<close>)
  qed
qed

section \<open>What a port enumerates\<close>

fun format_options :: "audio_format pod_value \<Rightarrow> audio_format set" where
  "format_options (Fixed fmt) = {fmt}"
| "format_options (EnumChoice fmt fmts) = insert fmt (set fmts)"
| "format_options (RangeChoice fmt _ _) = {fmt}"

fun rate_options :: "int pod_value \<Rightarrow> int set" where
  "rate_options (Fixed rate) = {rate}"
| "rate_options (EnumChoice rate rates) = insert rate (set rates)"
| "rate_options (RangeChoice rate lo hi) = insert rate {lo..hi}"

lemma filter_enumerate_out:
  "map snd (filter (\<lambda>(i, _). i \<noteq> n + p) (enumerate n xs)) = take p xs @ drop (Suc p) xs"
proof (induction xs arbitrary: n p)
  case Nil
  then show ?case by simp
next
  case (Cons x xs)
  show ?case
  proof (cases p)
    case 0
    have "filter (\<lambda>(i, _). i \<noteq> n) (enumerate (Suc n) xs) = enumerate (Suc n) xs"
      by (auto simp: filter_id_conv in_set_enumerate_eq)
    then show ?thesis using 0 by simp
  next
    case (Suc q)
    then show ?thesis using Cons.IH [of "Suc n" q] by simp
  qed
qed

text \<open>The configurations as a port ranks them: the preferred one - the first when the capabilities name
  none of them - and then the others in their order; and, in that order, each layout of each
  configuration that has a sample format, a layout as often as its configuration lists it.\<close>

definition ranked_configurations :: "stream_caps \<Rightarrow> stream_configuration list" where
  "ranked_configurations caps =
     (let cs = caps_configurations caps; p = (if caps_preferred caps < length cs then caps_preferred caps else 0)
      in take 1 (drop p cs) @ take p cs @ drop (Suc p) cs)"

definition enumerated_layouts :: "stream_caps \<Rightarrow> (stream_configuration \<times> channel_layout) list" where
  "enumerated_layouts caps = concat (map (\<lambda>c. map (Pair c) (layouts (cfg_channels c)))
     (filter (\<lambda>c. cfg_formats c \<noteq> []) (ranked_configurations caps)))"

lemma preference_order_ranked: "configurations_in_preference_order caps = ranked_configurations caps"
proof -
  have "map snd (filter (\<lambda>(index, _). index \<noteq> preferred_index caps) (enumerate 0 (caps_configurations caps)))
      = take (preferred_index caps) (caps_configurations caps) @ drop (Suc (preferred_index caps)) (caps_configurations caps)"
    using filter_enumerate_out [of 0 "preferred_index caps" "caps_configurations caps"] by simp
  moreover have "(case preferred_configuration caps of None \<Rightarrow> [] | Some c \<Rightarrow> [c])
      = take 1 (drop (preferred_index caps) (caps_configurations caps))"
    by (simp add: preferred_configuration_def take_Suc_conv_app_nth drop_eq_Nil take_Suc hd_drop_conv_nth)
  ultimately show ?thesis
    by (simp add: configurations_in_preference_order_def ranked_configurations_def preferred_index_def Let_def)
qed

lemma nth_layout_concat:
  "nth_layout cs i = (let ls = concat (map (\<lambda>c. map (Pair c) (layouts (cfg_channels c))) cs)
     in if i < length ls then Some (ls ! i) else None)"
proof (induction cs arbitrary: i)
  case Nil
  then show ?case by simp
next
  case (Cons c cs)
  show ?case using Cons.IH [of "i - length (layouts (cfg_channels c))"]
    by (cases "i < length (layouts (cfg_channels c))") (auto simp: Let_def nth_append)
qed

lemma nth_layout_enumerated:
  "nth_layout (filter (\<lambda>c. cfg_formats c \<noteq> []) (configurations_in_preference_order caps)) i
     = (if i < length (enumerated_layouts caps) then Some (enumerated_layouts caps ! i) else None)"
  unfolding preference_order_ranked nth_layout_concat enumerated_layouts_def Let_def ..

text \<open>Rates the signed integers of a parameter can hold.\<close>

fun rates_small :: "rate_set \<Rightarrow> bool" where
  "rates_small (DiscreteRates rates) \<longleftrightarrow> (\<forall>r \<in> set rates. r < 2147483648)"
| "rates_small (RateRange lo hi) \<longleftrightarrow> hi < 2147483648"

lemma as_i32_small: "r < 2147483648 \<Longrightarrow> as_i32 r = int r"
  by (simp add: as_i32_def)

lemma nth_layout_Some: "nth_layout cs i = Some (c, l) \<Longrightarrow> c \<in> set cs \<and> l \<in> set (layouts (cfg_channels c))"
  by (induction cs arbitrary: i) (auto simp: Let_def split: if_splits)

lemma preference_order_subset: "set (configurations_in_preference_order caps) \<subseteq> set (caps_configurations caps)"
  by (auto simp: configurations_in_preference_order_def preferred_configuration_def in_set_enumerate_eq split: option.splits if_splits)

lemma format_value_options: "fmts \<noteq> [] \<Longrightarrow> format_options (format_value fmts) = set fmts"
  by (cases fmts rule: format_value.cases) auto

text \<open>The rates a client may pick.\<close>

fun rates_of :: "rate_set \<Rightarrow> u32 set" where
  "rates_of (DiscreteRates rates) = set rates"
| "rates_of (RateRange lo hi) = {lo..hi}"

lemma rate_value_options:
  assumes "rates_usable rates" "rates_small rates"
  shows "\<exists>v. rate_value rates preferred = Some v \<and> rate_options v = int ` rates_of rates"
proof (cases rates)
  case (DiscreteRates rs)
  then have small: "map as_i32 rs = map int rs" using assms(2) by (simp add: as_i32_small)
  show ?thesis
  proof (cases "length rs > 1")
    case True
    let ?key = "\<lambda>r. abs_diff r (case preferred of Some r \<Rightarrow> r | None \<Rightarrow> 48000)"
    obtain d where d: "min_by_key ?key rs = Some d" using True by (cases "min_by_key ?key rs") auto
    then have "d \<in> set rs" by (blast dest: min_by_key_Some)
    then show ?thesis using DiscreteRates True d assms(2) small by (auto simp: as_i32_small Let_def)
  next
    case False
    then obtain r where "rs = [r]" using assms(1) DiscreteRates by (cases rs) auto
    then show ?thesis using DiscreteRates assms(2) by (simp add: as_i32_small)
  qed
next
  case (RateRange lo hi)
  have b: "lo \<le> hi" "hi < 2147483648" using assms RateRange by auto
  let ?d = "clamp (case preferred of Some r \<Rightarrow> r | None \<Rightarrow> 48000) lo hi"
  have d: "lo \<le> ?d" "?d \<le> hi" using clamp_bounds [OF b(1)] by auto
  have "rate_value rates preferred = Some (if lo = hi then Fixed (int lo) else RangeChoice (int ?d) (int lo) (int hi))"
    using RateRange b d by (auto simp: as_i32_small)
  moreover have "int ` {lo..hi} = {int lo..int hi}" by (rule image_int_atLeastAtMost)
  ultimately show ?thesis using RateRange d b by (auto simp: insert_absorb)
qed

lemma rates_of_admitted: "rates_usable rates \<Longrightarrow> rate \<in> rates_of rates \<Longrightarrow> rates_admits rates rate tolerance"
  by (cases rates) (auto simp: sat_add32_def)

text \<open>C27. Index \<open>i\<close> of a port's format enumeration is the \<open>i\<close>-th layout of its configurations - the
  preferred configuration first, then the others in their order, the layouts of each in its own order, a
  layout as often as it is listed - and the enumeration ends after the last one. The object at that index
  names the layout's channels and their positions (AUX positions for a layout without), and it offers
  exactly the sample formats and the rates of its configuration; whatever a client picks from it is a
  request the same capabilities admit.\<close>

theorem enumerated_formats_are_admitted:
  assumes "caps_usable caps" "\<forall>c \<in> set (caps_configurations caps). rates_small (cfg_rates c)"
  shows "case build_enum_format_info caps i of
      None \<Rightarrow> length (enumerated_layouts caps) \<le> i
    | Some e \<Rightarrow> i < length (enumerated_layouts caps)
       \<and> (case enumerated_layouts caps ! i of (c, l) \<Rightarrow>
            ef_channels e = int (ly_channels l)
          \<and> ef_position e = (case ly_positions l of Some ps \<Rightarrow> ps | None \<Rightarrow> map (\<lambda>k. CHANNEL_AUX0 + k) [0..<ly_channels l])
          \<and> format_options (ef_format e) = set (cfg_formats c) \<and> rate_options (ef_rate e) = int ` rates_of (cfg_rates c)
          \<and> (\<forall>fmt \<in> set (cfg_formats c). \<forall>rate \<in> rates_of (cfg_rates c).
               caps_admits caps fmt (ly_channels l) (Some (ef_position e)) rate))"
proof (cases "i < length (enumerated_layouts caps)")
  case False
  then have "build_enum_format_info caps i = None" by (simp add: build_enum_format_info_def nth_layout_enumerated)
  then show ?thesis using False by simp
next
  case True
  obtain c l where cl: "enumerated_layouts caps ! i = (c, l)" by fastforce
  have at: "nth_layout (filter (\<lambda>c. cfg_formats c \<noteq> []) (configurations_in_preference_order caps)) i = Some (c, l)"
    using True cl by (simp add: nth_layout_enumerated)
  have c: "c \<in> set (caps_configurations caps)" "cfg_formats c \<noteq> []" and lin: "l \<in> set (layouts (cfg_channels c))"
    using nth_layout_Some [OF at] preference_order_subset by auto
  have use: "configuration_usable c" using c assms(1) by (simp add: caps_usable_def)
  obtain ls where ls: "cfg_channels c = DiscreteLayouts ls" "layout_usable l"
    using use lin by (auto simp: configuration_usable_def)
  have rates: "rates_usable (cfg_rates c)" "rates_small (cfg_rates c)"
    using use assms(2) c(1) by (auto simp: configuration_usable_def)
  obtain v where v: "rate_value (cfg_rates c) (cfg_preferred_rate c) = Some v" "rate_options v = int ` rates_of (cfg_rates c)"
    using rate_value_options [OF rates] by blast
  define ps where "ps = (case ly_positions l of Some ps \<Rightarrow> ps | None \<Rightarrow> map (\<lambda>k. CHANNEL_AUX0 + k) [0..<ly_channels l])"
  have ps: "layout_admits l (ly_channels l) (Some ps) (cfg_flags c)"
    using ls(2) opaque_aux [of "ly_channels l"] by (cases "ly_positions l"; auto simp: layout_usable_def layout_admits_def ps_def)+
  have e: "build_enum_format_info caps i = Some \<lparr>ef_format = format_value (cfg_formats c), ef_rate = v,
      ef_channels = int (ly_channels l), ef_position = ps\<rparr>"
    using at c(2) v(1) ls(2)
    by (simp add: build_enum_format_info_def offered_formats_def layout_usable_def as_i32_small ps_def)
  have "caps_admits caps fmt (ly_channels l) (Some ps) r" if "fmt \<in> set (cfg_formats c)" "r \<in> rates_of (cfg_rates c)" for fmt r
  proof -
    have "configuration_admits c fmt (ly_channels l) (Some ps) r"
      using that rates_of_admitted [OF rates(1) that(2)] ps ls(1) lin by (auto simp: configuration_admits_def list_ex_iff)
    then show ?thesis using c(1) by (auto simp: caps_admits_def list_ex_iff)
  qed
  then show ?thesis using True e cl v(2) format_value_options [OF c(2)] by (simp add: ps_def)
qed

definition ranked_caps :: stream_caps where
  "ranked_caps = \<lparr>caps_configurations =
       [\<lparr>cfg_formats = [FMT_S16_LE],
         cfg_channels = DiscreteLayouts [\<lparr>ly_channels = 1, ly_positions = Some [2]\<rparr>],
         cfg_rates = DiscreteRates [48000], cfg_preferred_rate = None, cfg_rate_tolerance = 0,
         cfg_conversion = ConvNone, cfg_flags = \<lparr>cf_layout_reorder = False, cf_opaque_layout = False\<rparr>\<rparr>,
        \<lparr>cfg_formats = [FMT_S16_LE, FMT_S32_LE],
         cfg_channels = DiscreteLayouts [\<lparr>ly_channels = 2, ly_positions = Some [3, 4]\<rparr>, \<lparr>ly_channels = 3, ly_positions = None\<rparr>],
         cfg_rates = DiscreteRates [44100, 48000], cfg_preferred_rate = None, cfg_rate_tolerance = 0,
         cfg_conversion = ConvNone, cfg_flags = \<lparr>cf_layout_reorder = False, cf_opaque_layout = False\<rparr>\<rparr>],
     caps_preferred = 1\<rparr>"

theorem enumerated_formats_are_admitted_witness:
  "map (\<lambda>i. map_option ef_channels (build_enum_format_info ranked_caps i)) [0..<4] = [Some 2, Some 3, Some 1, None]
   \<and> caps_admits ranked_caps FMT_S32_LE 3 (Some [4096, 4097, 4098]) 44100"
proof -
  have a: "caps_usable ranked_caps" "\<forall>c \<in> set (caps_configurations ranked_caps). rates_small (cfg_rates c)"
    by (simp_all add: ranked_caps_def caps_usable_def configuration_usable_def layout_usable_def)
  note t = enumerated_formats_are_admitted [OF a]
  have l: "map (ly_channels \<circ> snd) (enumerated_layouts ranked_caps) = [2, 3, 1]"
    by (simp add: enumerated_layouts_def ranked_configurations_def ranked_caps_def)
  have n: "length (enumerated_layouts ranked_caps) = 3" using arg_cong [OF l, of length] by simp
  have ch: "map_option ef_channels (build_enum_format_info ranked_caps i) = (if i < 3 then Some (int ([2, 3, 1] ! i)) else None)" for i
  proof (cases "build_enum_format_info ranked_caps i")
    case None
    then show ?thesis using t [of i] n by simp
  next
    case (Some e)
    then have "i < 3" "ef_channels e = int (ly_channels (snd (enumerated_layouts ranked_caps ! i)))"
      using t [of i] n by (simp_all add: case_prod_beta)
    then show ?thesis using Some nth_map [of i "enumerated_layouts ranked_caps" "ly_channels \<circ> snd"] n unfolding l by simp
  qed
  obtain e where e: "build_enum_format_info ranked_caps 1 = Some e" using ch [of 1] by auto
  have x: "enumerated_layouts ranked_caps ! 1 = (caps_configurations ranked_caps ! 1, \<lparr>ly_channels = 3, ly_positions = None\<rparr>)"
    by (simp add: enumerated_layouts_def ranked_configurations_def ranked_caps_def)
  have f: "FMT_S32_LE \<in> set (cfg_formats (caps_configurations ranked_caps ! 1))"
    "44100 \<in> rates_of (cfg_rates (caps_configurations ranked_caps ! 1))"
    by (simp_all add: ranked_caps_def)
  have u: "[0..<3] = [0, 1, 2::nat]" by (simp add: upt_rec)
  have "ef_position e = [4096, 4097, 4098]" using t [of 1] unfolding e x by (simp add: u)
  then have "caps_admits ranked_caps FMT_S32_LE 3 (Some [4096, 4097, 4098]) 44100"
    using t [of 1] f unfolding e x by auto
  then show ?thesis using ch by (simp add: upt_rec)
qed

theorem snapped_request_is_admitted_witness:
  "let raw = \<lparr>rf_format = FMT_F64_LE, rf_flags = 0, rf_rate = 50000, rf_channels = 4, rf_position = replicate 64 0\<rparr>;
       caps = \<lparr>caps_configurations = [\<lparr>cfg_formats = [FMT_S16_LE, FMT_S32_LE],
         cfg_channels = DiscreteLayouts [\<lparr>ly_channels = 2, ly_positions = Some [3, 4]\<rparr>, \<lparr>ly_channels = 3, ly_positions = None\<rparr>],
         cfg_rates = DiscreteRates [44100, 48000], cfg_preferred_rate = None, cfg_rate_tolerance = 0,
         cfg_conversion = ConvNone, cfg_flags = \<lparr>cf_layout_reorder = False, cf_opaque_layout = False\<rparr>\<rparr>], caps_preferred = 0\<rparr>
   in let (changed, raw') = snap_raw_to_caps caps raw
    in caps_admits caps (rf_format raw') (rf_channels raw') None (rf_rate raw')
     \<and> (rf_channels raw' \<noteq> rf_channels raw \<longrightarrow>
          caps_admits caps (rf_format raw') (rf_channels raw') (Some (take (rf_channels raw') (rf_position raw'))) (rf_rate raw'))
     \<and> (changed \<longleftrightarrow> raw' \<noteq> raw) \<and> rf_flags raw' = rf_flags raw \<and> length (rf_position raw') = 64
     \<and> snap_raw_to_caps caps raw' = (False, raw')"
  unfolding Let_def
  by (rule snapped_request_is_admitted [unfolded Let_def])
    (simp_all add: caps_usable_def configuration_usable_def layout_usable_def)

end
