(* ===== verification/OssWake.thy ===== *)
theory OssWake
  imports OssPlayback OssCapture Direction
begin

text \<open>
  The kqueue wake driver (crates/freebsd-oss/src/freebsd\_oss/event.rs) and the \<open>register_wake\<close> of the
  two streams (dsp.rs). The kernel's queue is a parameter: \<open>kq_receipts\<close> and \<open>kq_batches\<close> are the
  answers it is going to give to a change and to a read, and an exhausted list fails the call.
  \<open>kq_knotes\<close> records what kqueue(2) documents: an accepted EV_ADD leaves a knote with its key, an
  accepted EV_DELETE (and one refused with ENOENT or EBADF) leaves none, and a one-shot timer's
  knote is gone once its event was read. A read returns events of knotes in the queue only. \<open>kq_changes\<close> is the list of accepted changes, newest first.
  An error carries the errno; the text a \<open>WakeError\<close> adds is only logged.
\<close>

section \<open>The kernel event queue\<close>

datatype kfilter = EvRead | EvWrite | EvTimer | EvOther int

record kevent =
  ke_ident :: nat
  ke_filter :: kfilter
  ke_error :: bool
  ke_eof :: bool
  ke_data :: int
  ke_udata :: nat
  ke_ext0 :: u64
  ke_ext1 :: u64

datatype kaction = AddClear | AddLevel | AddOneshot | DeleteKnote

record kchange =
  kc_ident :: nat
  kc_filter :: kfilter
  kc_action :: kaction
  kc_data :: int
  kc_key :: nat

record kreceipt =
  kr_count :: nat
  kr_error_flag :: bool
  kr_data :: int

record kqueue =
  kq_receipts :: "(int + kreceipt) list"
  kq_batches :: "(int + kevent list) list"
  kq_knotes :: "nat \<times> kfilter \<Rightarrow> nat option"
  kq_changes :: "kchange list"

abbreviation (input) ENOENT_code :: int where "ENOENT_code \<equiv> 2"
abbreviation (input) EIO_errno :: int where "EIO_errno \<equiv> 5"
abbreviation (input) EBADF_code :: int where "EBADF_code \<equiv> 9"
abbreviation (input) ENODEV_code :: int where "ENODEV_code \<equiv> 19"

abbreviation (input) i64_max :: nat where "i64_max \<equiv> 9223372036854775807"

definition apply_change :: "kchange \<Rightarrow> int + unit \<Rightarrow> kqueue \<Rightarrow> kqueue" where
  "apply_change c result q =
     (let slot = (kc_ident c, kc_filter c)
      in case result of
           Inr _ \<Rightarrow> q\<lparr> kq_knotes := (kq_knotes q)(slot := if kc_action c = DeleteKnote then None else Some (kc_key c)),
                      kq_changes := c # kq_changes q \<rparr>
         | Inl e \<Rightarrow> if kc_action c = DeleteKnote \<and> e \<in> {ENOENT_code, EBADF_code}
                    then q\<lparr> kq_knotes := (kq_knotes q)(slot := None) \<rparr> else q)"

definition submit_change :: "kchange \<Rightarrow> kqueue \<Rightarrow> (int + unit) \<times> kqueue" where
  "submit_change c q =
     (let (answer, rest) = pop (Inl EIO_errno) (kq_receipts q);
          result = (case answer of
             Inl e \<Rightarrow> Inl e
           | Inr r \<Rightarrow> if kr_count r \<noteq> 1 \<or> \<not> kr_error_flag r then Inl EIO_errno
                      else if kr_data r \<noteq> 0 then Inl (kr_data r) else Inr ())
      in (result, apply_change c result (q\<lparr> kq_receipts := rest \<rparr>)))"

definition timers_of :: "kevent list \<Rightarrow> nat list" where
  "timers_of evs = map ke_ident (filter (\<lambda>e. ke_filter e = EvTimer) evs)"

definition kevent_read :: "nat \<Rightarrow> kqueue \<Rightarrow> (int + kevent list) \<times> kqueue" where
  "kevent_read room q =
     (let (answer, rest) = pop (Inr []) (kq_batches q); q = q\<lparr> kq_batches := rest \<rparr>
      in case answer of
           Inl e \<Rightarrow> (Inl e, q)
         | Inr evs \<Rightarrow>
             let evs = filter (\<lambda>e. kq_knotes q (ke_ident e, ke_filter e) \<noteq> None) (take room evs)
             in (Inr evs, q\<lparr> kq_knotes := (\<lambda>(i, f). if f = EvTimer \<and> i \<in> set (timers_of evs)
                                                     then None else kq_knotes q (i, f)) \<rparr>))"

section \<open>The driver\<close>

definition enriched_sound_kqueue_osrel :: "u32 \<Rightarrow> bool" where
  "enriched_sound_kqueue_osrel version \<longleftrightarrow>
     (1502000 \<le> version \<and> version < 1600000) \<or> version \<ge> 1600019"

record registered_stream =
  rg_fd :: nat
  rg_filter :: kfilter
  rg_stream :: stream_identity
  rg_frame_stride :: u32
  rg_key :: nat

record oss_wake_driver =
  wd_queue :: kqueue
  wd_registered :: "registered_stream option"
  wd_next_key :: nat
  wd_timer_armed :: bool

abbreviation (input) TIMER_IDENT :: nat where "TIMER_IDENT \<equiv> 1"

definition wake_driver_new :: "kqueue \<Rightarrow> oss_wake_driver" where
  "wake_driver_new q = \<lparr> wd_queue = q, wd_registered = None, wd_next_key = 0, wd_timer_armed = False \<rparr>"

definition on_queue :: "(kqueue \<Rightarrow> 'a \<times> kqueue) \<Rightarrow> oss_wake_driver \<Rightarrow> 'a \<times> oss_wake_driver" where
  "on_queue f d = (let (r, q) = f (wd_queue d) in (r, d\<lparr> wd_queue := q \<rparr>))"

definition unregister_native_stream :: "oss_wake_driver \<Rightarrow> (int + unit) \<times> oss_wake_driver" where
  "unregister_native_stream d =
     (case wd_registered d of
        None \<Rightarrow> (Inr (), d)
      | Some r \<Rightarrow>
          let (result, d) = on_queue (submit_change \<lparr> kc_ident = rg_fd r, kc_filter = rg_filter r,
                kc_action = DeleteKnote, kc_data = 0, kc_key = rg_key r \<rparr>) d
          in case result of
               Inr _ \<Rightarrow> (Inr (), d\<lparr> wd_registered := None \<rparr>)
             | Inl e \<Rightarrow> if e = ENOENT_code \<or> e = EBADF_code then (Inr (), d\<lparr> wd_registered := None \<rparr>)
                        else (Inl e, d))"

text \<open>\<open>wrapping_add(1).max(1)\<close> on a \<open>usize\<close>.\<close>

definition next_key :: "nat \<Rightarrow> nat" where
  "next_key k = max ((k + 1) mod 18446744073709551616) 1"

definition register_stream ::
    "nat \<Rightarrow> bool \<Rightarrow> stream_identity \<Rightarrow> u32 \<Rightarrow> oss_wake_driver \<Rightarrow> (int + unit) \<times> oss_wake_driver" where
  "register_stream fd playback stream frame_stride d =
     (let filter = (if playback then EvWrite else EvRead)
      in if (case wd_registered d of None \<Rightarrow> False
             | Some r \<Rightarrow> rg_fd r = fd \<and> rg_filter r = filter \<and> rg_stream r = stream \<and> rg_frame_stride r = frame_stride)
         then (Inr (), d)
         else case unregister_native_stream d of
           (Inl e, d) \<Rightarrow> (Inl e, d)
         | (Inr _, d) \<Rightarrow>
             let d = d\<lparr> wd_next_key := next_key (wd_next_key d) \<rparr>;
                 r = \<lparr> rg_fd = fd, rg_filter = filter, rg_stream = stream, rg_frame_stride = max frame_stride 1,
                       rg_key = wd_next_key d \<rparr>;
                 (result, d) = on_queue (submit_change \<lparr> kc_ident = fd, kc_filter = filter,
                   kc_action = AddClear, kc_data = 0, kc_key = rg_key r \<rparr>) d
             in case result of
                  Inl e \<Rightarrow> (Inl e, d)
                | Inr _ \<Rightarrow> (Inr (), d\<lparr> wd_registered := Some r \<rparr>))"

definition arm_native_timer :: "u64 \<Rightarrow> oss_wake_driver \<Rightarrow> (int + unit) \<times> oss_wake_driver" where
  "arm_native_timer delay_ns d =
     (if delay_ns = 0
      then if \<not> wd_timer_armed d then (Inr (), d)
           else let (result, d) = on_queue (submit_change \<lparr> kc_ident = TIMER_IDENT, kc_filter = EvTimer,
                      kc_action = DeleteKnote, kc_data = 0, kc_key = 0 \<rparr>) d;
                    result = (if result = Inl ENOENT_code then Inr () else result)
                in (result, if result = Inr () then d\<lparr> wd_timer_armed := False \<rparr> else d)
      else let (result, d) = on_queue (submit_change \<lparr> kc_ident = TIMER_IDENT, kc_filter = EvTimer,
                 kc_action = AddOneshot, kc_data = int (min delay_ns i64_max), kc_key = 0 \<rparr>) d
           in (result, if result = Inr () then d\<lparr> wd_timer_armed := True \<rparr> else d))"

definition decode_event :: "registered_stream option \<Rightarrow> kevent \<Rightarrow> int + wake_event option" where
  "decode_event registered ev =
     (if ke_error ev then Inl (if ke_data ev = 0 then EIO_errno else ke_data ev)
      else if ke_filter ev = EvTimer then Inr (Some TimerEvent)
      else if ke_filter ev \<noteq> EvRead \<and> ke_filter ev \<noteq> EvWrite then Inr None
      else case registered of
        None \<Rightarrow> Inr None
      | Some r \<Rightarrow>
          if ke_ident ev \<noteq> rg_fd r \<or> ke_filter ev \<noteq> rg_filter r \<or> ke_udata ev \<noteq> rg_key r then Inr None
          else let ready_bytes = min (nat (ke_data ev)) u32_max;
                   fill_bytes = (if rg_filter r = EvRead then ready_bytes
                                 else sat_mul64 (ke_ext0 ev) (rg_frame_stride r))
               in Inr (Some (StreamEvent
                    \<lparr> sw_stream = rg_stream r, sw_timing = NotificationTime, sw_ready_bytes = Some ready_bytes,
                      sw_queue = Some \<lparr> qo_fill_bytes = fill_bytes, qo_quality = Exact \<rparr>, sw_clock = None,
                      sw_xruns = Some (wrapping_events_u32 (min (ke_ext1 ev) u32_max)),
                      sw_state = (if ke_eof ev then WakeDisconnected else WakeActive) \<rparr>)))"

text \<open>The accumulators of the loop: the selected event, the first error, and whether a timer was seen.\<close>

definition decode_step ::
    "registered_stream option \<Rightarrow> kevent \<Rightarrow> wake_event option \<times> int option \<times> bool
       \<Rightarrow> wake_event option \<times> int option \<times> bool" where
  "decode_step registered ev = (\<lambda>(selected, first_error, timer_seen).
     case decode_event registered ev of
       Inr (Some TimerEvent) \<Rightarrow> (if selected = None then Some TimerEvent else selected, first_error, True)
     | Inr (Some (StreamEvent s)) \<Rightarrow> (Some (StreamEvent s), first_error, timer_seen)
     | Inr None \<Rightarrow> (selected, first_error, timer_seen)
     | Inl e \<Rightarrow> (selected, if first_error = None then Some e else first_error, timer_seen))"

definition decode_events :: "kevent list \<Rightarrow> registered_stream option \<Rightarrow> int + (wake_event option \<times> bool)" where
  "decode_events evs registered =
     (case fold (decode_step registered) evs (None, None, False) of
        (Some ev, _, timer_seen) \<Rightarrow> Inr (Some ev, timer_seen)
      | (None, Some e, _) \<Rightarrow> Inl e
      | (None, None, timer_seen) \<Rightarrow> Inr (None, timer_seen))"

definition next_native_event :: "oss_wake_driver \<Rightarrow> (int + wake_event option) \<times> oss_wake_driver" where
  "next_native_event d =
     (let (answer, d) = on_queue (kevent_read 2) d
      in case answer of
           Inl e \<Rightarrow> (Inl e, d)
         | Inr evs \<Rightarrow>
             case decode_events evs (wd_registered d) of
               Inl e \<Rightarrow> (Inl e, d)
             | Inr (selected, timer_seen) \<Rightarrow>
                 (Inr selected, if timer_seen then d\<lparr> wd_timer_armed := False \<rparr> else d))"

section \<open>The streams' registration\<close>

text \<open>\<open>raw\<close> is the descriptor number the kernel gave the stream.\<close>

definition writer_register_wake ::
    "(dsp_writer \<Rightarrow> nat) \<Rightarrow> dsp_writer \<Rightarrow> oss_wake_driver \<Rightarrow> stream_identity \<Rightarrow> wake_buffer_state
       \<Rightarrow> (int + unit) \<times> dsp_writer \<times> oss_wake_driver" where
  "writer_register_wake raw w driver stream buffer =
     (if \<not> w_fd w then (Inl ENODEV_code, w, driver)
      else case install_wake_threshold (w_wake_threshold w) (playback_wake_threshold buffer)
                  (wb_quantum_bytes buffer) (w_kernel w) of
             (Inl threshold, current, k) \<Rightarrow>
               (Inl (int threshold), w\<lparr> w_wake_threshold := current, w_kernel := k \<rparr>, driver)
           | (Inr _, current, k) \<Rightarrow>
               let (result, driver) = register_stream (raw w) True stream (wb_frame_stride buffer) driver
               in (result, w\<lparr> w_wake_threshold := current, w_kernel := k \<rparr>, driver))"

definition dsp_register_wake ::
    "(dsp \<Rightarrow> nat) \<Rightarrow> dsp \<Rightarrow> oss_wake_driver \<Rightarrow> stream_identity \<Rightarrow> wake_buffer_state
       \<Rightarrow> (int + unit) \<times> dsp \<times> oss_wake_driver" where
  "dsp_register_wake raw d driver stream buffer =
     (if \<not> d_fd d then (Inl ENODEV_code, d, driver)
      else case install_wake_threshold (d_wake_threshold d) (capture_wake_threshold buffer)
                  (wb_quantum_bytes buffer) (d_kernel d) of
             (Inl threshold, current, k) \<Rightarrow>
               (Inl (int threshold), d\<lparr> d_wake_threshold := current, d_kernel := k \<rparr>, driver)
           | (Inr _, current, k) \<Rightarrow>
               let (result, driver) = register_stream (raw d) False stream (wb_frame_stride buffer) driver
               in (result, d\<lparr> d_wake_threshold := current, d_kernel := k \<rparr>, driver))"

definition oss_wake_ops ::
    "('d \<Rightarrow> oss_wake_driver \<Rightarrow> stream_identity \<Rightarrow> wake_buffer_state \<Rightarrow> (int + unit) \<times> 'd \<times> oss_wake_driver)
       \<Rightarrow> ('d, oss_wake_driver) wake_ops" where
  "oss_wake_ops register =
     \<lparr> wk_next_event = next_native_event, wk_unregister_stream = unregister_native_stream,
       wk_arm_timer = arm_native_timer, wk_register_wake = register \<rparr>"

section \<open>What the driver knows of the queue\<close>

text \<open>Every stream knote in the queue is the registered one, under the registered key, and a timer
  knote is there only while the driver believes it armed. (A knote may be missing: closing a
  descriptor removes its knotes behind the driver's back.)\<close>

definition wake_ok :: "oss_wake_driver \<Rightarrow> bool" where
  "wake_ok d \<longleftrightarrow>
     (\<forall>i f k. f \<noteq> EvTimer \<longrightarrow> kq_knotes (wd_queue d) (i, f) = Some k \<longrightarrow>
        (\<exists>r. wd_registered d = Some r \<and> rg_fd r = i \<and> rg_filter r = f \<and> rg_key r = k))
     \<and> (\<forall>r. wd_registered d = Some r \<longrightarrow> rg_filter r \<noteq> EvTimer \<and> rg_key r = wd_next_key d)
     \<and> (\<forall>i. kq_knotes (wd_queue d) (i, EvTimer) \<noteq> None \<longrightarrow> i = TIMER_IDENT \<and> wd_timer_armed d)"

definition timer_on :: "oss_wake_driver \<Rightarrow> bool" where
  "timer_on d \<longleftrightarrow> kq_knotes (wd_queue d) (TIMER_IDENT, EvTimer) \<noteq> None"

definition stream_knotes :: "oss_wake_driver \<Rightarrow> (nat \<times> kfilter) \<Rightarrow> nat option" where
  "stream_knotes d = (\<lambda>(i, f). if f = EvTimer then None else kq_knotes (wd_queue d) (i, f))"

lemma submit_knotes:
  "kq_knotes (snd (submit_change c q)) = (let slot = (kc_ident c, kc_filter c) in
     case fst (submit_change c q) of
       Inr _ \<Rightarrow> (kq_knotes q)(slot := if kc_action c = DeleteKnote then None else Some (kc_key c))
     | Inl e \<Rightarrow> if kc_action c = DeleteKnote \<and> e \<in> {ENOENT_code, EBADF_code} then (kq_knotes q)(slot := None) else kq_knotes q)"
  "kq_changes (snd (submit_change c q)) =
     (case fst (submit_change c q) of Inr _ \<Rightarrow> c # kq_changes q | Inl _ \<Rightarrow> kq_changes q)"
  by (simp_all add: submit_change_def apply_change_def case_prod_beta Let_def split: sum.split)

lemma kevent_read_knotes:
  "f \<noteq> EvTimer \<Longrightarrow> kq_knotes (snd (kevent_read n q)) (i, f) = kq_knotes q (i, f)"
  "fst (kevent_read n q) = Inr evs \<Longrightarrow>
     kq_knotes (snd (kevent_read n q)) (i, EvTimer) = (if i \<in> set (timers_of evs) then None else kq_knotes q (i, EvTimer))"
  "fst (kevent_read n q) = Inl e \<Longrightarrow> kq_knotes (snd (kevent_read n q)) = kq_knotes q"
  by (auto simp: kevent_read_def case_prod_beta Let_def split: sum.splits)

lemma kevent_read_present:
  "fst (kevent_read n q) = Inr evs \<Longrightarrow> e \<in> set evs \<Longrightarrow> kq_knotes q (ke_ident e, ke_filter e) \<noteq> None"
  by (auto simp: kevent_read_def case_prod_beta Let_def split: sum.splits)

lemma next_key_fresh: "next_key k \<noteq> k" "1 \<le> next_key k"
proof -
  show "1 \<le> next_key k" by (simp add: next_key_def)
  show "next_key k \<noteq> k"
  proof (cases "k + 1 < 18446744073709551616")
    case True
    then show ?thesis by (simp add: next_key_def)
  next
    case False
    then have "next_key k \<le> max ((k + 1) mod 18446744073709551616) 1" by (simp add: next_key_def)
    also have "\<dots> < 18446744073709551616" by simp
    finally show ?thesis using False
      by (cases "k + 1 = 18446744073709551616") (auto simp: next_key_def)
  qed
qed

text \<open>Unregistering, case by case.\<close>

lemma unregister_facts:
  assumes "wake_ok d" "unregister_native_stream d = (result, d')"
  shows "wake_ok d'" "wd_next_key d' = wd_next_key d" "wd_timer_armed d' = wd_timer_armed d"
    "timer_on d' = timer_on d"
    "result = Inr () \<Longrightarrow> wd_registered d' = None" "result \<noteq> Inr () \<Longrightarrow> wd_registered d' = wd_registered d"
proof -
  have all: "wake_ok d' \<and> wd_next_key d' = wd_next_key d \<and> wd_timer_armed d' = wd_timer_armed d
     \<and> timer_on d' = timer_on d \<and> (if result = Inr () then wd_registered d' = None else wd_registered d' = wd_registered d)"
  proof (cases "wd_registered d")
    case None
    then show ?thesis using assms by (simp add: unregister_native_stream_def)
  next
    case (Some r)
    let ?c = "\<lparr> kc_ident = rg_fd r, kc_filter = rg_filter r, kc_action = DeleteKnote, kc_data = 0, kc_key = rg_key r \<rparr>"
    obtain res q where s: "submit_change ?c (wd_queue d) = (res, q)" by fastforce
    have k: "kq_knotes q = (case res of Inr _ \<Rightarrow> (kq_knotes (wd_queue d))((rg_fd r, rg_filter r) := None)
       | Inl e \<Rightarrow> if e \<in> {ENOENT_code, EBADF_code} then (kq_knotes (wd_queue d))((rg_fd r, rg_filter r) := None)
                  else kq_knotes (wd_queue d))"
      using submit_knotes(1) [of ?c "wd_queue d"] s by (simp add: Let_def split: sum.split)
    have f: "rg_filter r \<noteq> EvTimer" using assms(1) Some by (simp add: wake_ok_def)
    let ?gone = "res = Inr () \<or> res = Inl ENOENT_code \<or> res = Inl EBADF_code"
    have e: "result = (if ?gone then Inr () else res)"
      "d' = (if ?gone then d\<lparr> wd_queue := q, wd_registered := None \<rparr> else d\<lparr> wd_queue := q \<rparr>)"
      using assms(2) Some s by (auto simp: unregister_native_stream_def on_queue_def Let_def split: sum.splits if_splits)
    show ?thesis
    proof (cases ?gone)
      case True
      then have q: "kq_knotes q = (kq_knotes (wd_queue d))((rg_fd r, rg_filter r) := None)" using k by auto
      have "wake_ok (d\<lparr> wd_queue := q, wd_registered := None \<rparr>)"
        unfolding wake_ok_def
      proof (intro conjI allI impI)
        fix i g key assume g: "g \<noteq> EvTimer" "kq_knotes (wd_queue (d\<lparr> wd_queue := q, wd_registered := None \<rparr>)) (i, g) = Some key"
        then have "(i, g) \<noteq> (rg_fd r, rg_filter r)" "kq_knotes (wd_queue d) (i, g) = Some key" by (auto simp: q split: if_splits)
        moreover from g(1) this(2) have "rg_fd r = i \<and> rg_filter r = g" using assms(1) Some unfolding wake_ok_def by auto
        ultimately show "\<exists>x. wd_registered (d\<lparr> wd_queue := q, wd_registered := None \<rparr>) = Some x
          \<and> rg_fd x = i \<and> rg_filter x = g \<and> rg_key x = key" by simp
      qed (use assms(1) f in \<open>auto simp: wake_ok_def q\<close>)
      then show ?thesis using True f by (simp add: e timer_on_def q)
    next
      case False
      then have "kq_knotes q = kq_knotes (wd_queue d)" using k by (cases res) auto
      then show ?thesis using False assms(1) by (simp add: e wake_ok_def timer_on_def)
    qed
  qed
  then show "wake_ok d'" "wd_next_key d' = wd_next_key d" "wd_timer_armed d' = wd_timer_armed d"
    "timer_on d' = timer_on d"
    "result = Inr () \<Longrightarrow> wd_registered d' = None" "result \<noteq> Inr () \<Longrightarrow> wd_registered d' = wd_registered d"
    by auto
qed

lemma register_facts:
  assumes "wake_ok d" "register_stream fd playback stream stride d = (result, d')"
  shows "wake_ok d'" "wd_timer_armed d' = wd_timer_armed d" "timer_on d' = timer_on d"
    "case result of
       Inr _ \<Rightarrow> (\<exists>r. wd_registered d' = Some r \<and> rg_fd r = fd \<and> rg_filter r = (if playback then EvWrite else EvRead)
          \<and> rg_stream r = stream
          \<and> (d' = d \<or> (rg_key r = next_key (wd_next_key d) \<and> kq_knotes (wd_queue d') (fd, rg_filter r) = Some (rg_key r))))
     | Inl _ \<Rightarrow> wd_registered d' = wd_registered d \<or> wd_registered d' = None"
proof -
  define f where "f = (if playback then EvWrite else EvRead)"
  have ft: "f \<noteq> EvTimer" by (simp add: f_def)
  let ?same = "case wd_registered d of None \<Rightarrow> False
     | Some r \<Rightarrow> rg_fd r = fd \<and> rg_filter r = f \<and> rg_stream r = stream \<and> rg_frame_stride r = stride"
  obtain u e where un: "unregister_native_stream d = (u, e)" by fastforce
  note uf = unregister_facts [OF assms(1) un]
  let ?e = "e\<lparr> wd_next_key := next_key (wd_next_key e) \<rparr>"
  let ?c = "\<lparr> kc_ident = fd, kc_filter = f, kc_action = AddClear, kc_data = 0, kc_key = wd_next_key ?e \<rparr>"
  obtain res q where s: "submit_change ?c (wd_queue e) = (res, q)" by fastforce
  have k: "kq_knotes q = (case res of Inr _ \<Rightarrow> (kq_knotes (wd_queue e))((fd, f) := Some (wd_next_key ?e)) | Inl _ \<Rightarrow> kq_knotes (wd_queue e))"
    using submit_knotes(1) [of ?c "wd_queue e"] s by (simp add: Let_def split: sum.split)
  have "wake_ok d' \<and> wd_timer_armed d' = wd_timer_armed d \<and> timer_on d' = timer_on d \<and>
    (case result of
       Inr _ \<Rightarrow> (\<exists>r. wd_registered d' = Some r \<and> rg_fd r = fd \<and> rg_filter r = f \<and> rg_stream r = stream
          \<and> (d' = d \<or> (rg_key r = next_key (wd_next_key d) \<and> kq_knotes (wd_queue d') (fd, f) = Some (rg_key r))))
     | Inl _ \<Rightarrow> wd_registered d' = wd_registered d \<or> wd_registered d' = None)"
  proof (cases ?same)
    case True
    then show ?thesis using assms by (auto simp: register_stream_def f_def split: option.splits)
  next
    case new: False
    show ?thesis
    proof (cases u)
      case (Inl err)
      then have "result = Inl err" "d' = e" using assms(2) un new
        by (simp_all add: register_stream_def f_def [symmetric] Let_def)
      then show ?thesis using uf Inl by simp
    next
      case (Inr y)
      then have "register_stream fd playback stream stride d = (res, case res of Inl _ \<Rightarrow> ?e\<lparr> wd_queue := q \<rparr>
          | Inr _ \<Rightarrow> ?e\<lparr> wd_queue := q, wd_registered := Some \<lparr> rg_fd = fd, rg_filter = f, rg_stream = stream,
              rg_frame_stride = max stride 1, rg_key = wd_next_key ?e \<rparr> \<rparr>)"
        unfolding register_stream_def f_def [symmetric] Let_def using new un s
        by (cases res) (simp_all add: on_queue_def)
      then have r: "result = res" "d' = (case res of Inl _ \<Rightarrow> ?e\<lparr> wd_queue := q \<rparr>
          | Inr _ \<Rightarrow> ?e\<lparr> wd_queue := q, wd_registered := Some \<lparr> rg_fd = fd, rg_filter = f, rg_stream = stream,
              rg_frame_stride = max stride 1, rg_key = wd_next_key ?e \<rparr> \<rparr>)"
        using assms(2) by simp_all
      have none: "wd_registered e = None" using uf(5) Inr by simp
      then have empty: "kq_knotes (wd_queue e) (i, g) = None" if "g \<noteq> EvTimer" for i g
        using uf(1) that by (cases "kq_knotes (wd_queue e) (i, g)") (auto simp: wake_ok_def)
      show ?thesis unfolding r using k uf none empty ft
        by (cases res) (auto simp: wake_ok_def timer_on_def split: if_splits)
    qed
  qed
  then show "wake_ok d'" "wd_timer_armed d' = wd_timer_armed d" "timer_on d' = timer_on d"
    "case result of
       Inr _ \<Rightarrow> (\<exists>r. wd_registered d' = Some r \<and> rg_fd r = fd \<and> rg_filter r = (if playback then EvWrite else EvRead)
          \<and> rg_stream r = stream
          \<and> (d' = d \<or> (rg_key r = next_key (wd_next_key d) \<and> kq_knotes (wd_queue d') (fd, rg_filter r) = Some (rg_key r))))
     | Inl _ \<Rightarrow> wd_registered d' = wd_registered d \<or> wd_registered d' = None"
    unfolding f_def by (auto split: sum.splits)
qed

lemma wake_ok_timer:
  "wake_ok d \<Longrightarrow> kq_knotes (wd_queue d) (i, EvTimer) = Some k \<Longrightarrow> i = TIMER_IDENT \<and> wd_timer_armed d"
  unfolding wake_ok_def by (metis option.distinct(1))

lemma wake_ok_queue:
  assumes "wake_ok d" "\<And>i f. f \<noteq> EvTimer \<Longrightarrow> kq_knotes q (i, f) = kq_knotes (wd_queue d) (i, f)"
    "\<And>i. kq_knotes q (i, EvTimer) \<noteq> None \<Longrightarrow> i = TIMER_IDENT \<or> kq_knotes (wd_queue d) (i, EvTimer) \<noteq> None"
    "kq_knotes q (TIMER_IDENT, EvTimer) \<noteq> None \<Longrightarrow> b"
  shows "wake_ok (d\<lparr> wd_queue := q, wd_timer_armed := b \<rparr>)"
    "stream_knotes (d\<lparr> wd_queue := q, wd_timer_armed := b \<rparr>) = stream_knotes d"
proof -
  show "wake_ok (d\<lparr> wd_queue := q, wd_timer_armed := b \<rparr>)"
    unfolding wake_ok_def
  proof (intro conjI allI impI)
    fix i assume "kq_knotes (wd_queue (d\<lparr> wd_queue := q, wd_timer_armed := b \<rparr>)) (i, EvTimer) \<noteq> None"
    then have q: "kq_knotes q (i, EvTimer) \<noteq> None" by simp
    from assms(3) [OF this] show i: "i = TIMER_IDENT" using wake_ok_timer [OF assms(1)] by blast
    show "wd_timer_armed (d\<lparr> wd_queue := q, wd_timer_armed := b \<rparr>)" using q assms(4) unfolding i by simp
  qed (use assms(1,2) in \<open>simp_all add: wake_ok_def\<close>)
  show "stream_knotes (d\<lparr> wd_queue := q, wd_timer_armed := b \<rparr>) = stream_knotes d"
    using assms(2) by (simp add: stream_knotes_def fun_eq_iff)
qed

lemma arm_facts:
  assumes "wake_ok d" "arm_native_timer delay d = (result, d')"
  shows "wake_ok d'" "wd_registered d' = wd_registered d" "stream_knotes d' = stream_knotes d"
    "case result of Inr _ \<Rightarrow> timer_on d' = (0 < delay) | Inl _ \<Rightarrow> timer_on d' \<longrightarrow> timer_on d"
proof -
  let ?del = "\<lparr> kc_ident = TIMER_IDENT, kc_filter = EvTimer, kc_action = DeleteKnote, kc_data = 0, kc_key = 0 \<rparr>"
  let ?add = "\<lparr> kc_ident = TIMER_IDENT, kc_filter = EvTimer, kc_action = AddOneshot, kc_data = int (min delay i64_max), kc_key = 0 \<rparr>"
  obtain r1 q1 where s1: "submit_change ?del (wd_queue d) = (r1, q1)" by fastforce
  obtain r2 q2 where s2: "submit_change ?add (wd_queue d) = (r2, q2)" by fastforce
  have k1: "kq_knotes q1 = (case r1 of Inr _ \<Rightarrow> (kq_knotes (wd_queue d))((TIMER_IDENT, EvTimer) := None)
     | Inl e \<Rightarrow> if e \<in> {ENOENT_code, EBADF_code} then (kq_knotes (wd_queue d))((TIMER_IDENT, EvTimer) := None) else kq_knotes (wd_queue d))"
    using submit_knotes(1) [of ?del "wd_queue d"] s1 by (simp add: Let_def split: sum.split)
  have k2: "kq_knotes q2 = (case r2 of Inr _ \<Rightarrow> (kq_knotes (wd_queue d))((TIMER_IDENT, EvTimer) := Some 0)
     | Inl _ \<Rightarrow> kq_knotes (wd_queue d))"
    using submit_knotes(1) [of ?add "wd_queue d"] s2 by (simp add: Let_def split: sum.split)
  have "wake_ok d' \<and> wd_registered d' = wd_registered d \<and> stream_knotes d' = stream_knotes d
    \<and> (case result of Inr _ \<Rightarrow> timer_on d' = (0 < delay) | Inl _ \<Rightarrow> timer_on d' \<longrightarrow> timer_on d)"
  proof (cases "delay = 0")
    case True
    show ?thesis
    proof (cases "wd_timer_armed d")
      case False
      then have "result = Inr ()" "d' = d" using True assms(2) by (simp_all add: arm_native_timer_def)
      then show ?thesis using False True assms(1) by (simp add: wake_ok_def timer_on_def)
    next
      case armed: True
      then have e: "result = (if r1 = Inl ENOENT_code then Inr () else r1)"
        "d' = (if result = Inr () then d\<lparr> wd_queue := q1, wd_timer_armed := False \<rparr> else d\<lparr> wd_queue := q1 \<rparr>)"
        using True assms(2) s1 by (auto simp: arm_native_timer_def on_queue_def Let_def split: if_splits)
      have d: "d' = d\<lparr> wd_queue := q1, wd_timer_armed := (result \<noteq> Inr ()) \<rparr>" using e(2) armed by auto
      have kq: "kq_knotes q1 = (kq_knotes (wd_queue d))((TIMER_IDENT, EvTimer) := None) \<or> (kq_knotes q1 = kq_knotes (wd_queue d) \<and> result \<noteq> Inr ())"
        using k1 e(1) by (cases r1) auto
      then have w: "wake_ok d'" "stream_knotes d' = stream_knotes d" unfolding d
        by (auto intro!: wake_ok_queue [OF assms(1)] split: if_splits)
      show ?thesis using w kq True by (cases result) (auto simp: d timer_on_def)
    qed
  next
    case False
    then have e: "result = r2"
      "d' = (if result = Inr () then d\<lparr> wd_queue := q2, wd_timer_armed := True \<rparr> else d\<lparr> wd_queue := q2 \<rparr>)"
      using assms(2) s2 by (auto simp: arm_native_timer_def on_queue_def Let_def split: if_splits)
    have d: "d' = d\<lparr> wd_queue := q2, wd_timer_armed := (result = Inr () \<or> wd_timer_armed d) \<rparr>" using e(2) by auto
    have kq: "kq_knotes q2 = (if result = Inr () then (kq_knotes (wd_queue d))((TIMER_IDENT, EvTimer) := Some 0) else kq_knotes (wd_queue d))"
      using k2 e(1) by (cases r2) auto
    have w: "wake_ok d'" "stream_knotes d' = stream_knotes d" unfolding d
      by (auto intro!: wake_ok_queue [OF assms(1)] simp: kq wake_ok_timer [OF assms(1)] split: if_splits)
    show ?thesis using w kq False by (cases result) (auto simp: d timer_on_def)
  qed
  then show "wake_ok d'" "wd_registered d' = wd_registered d" "stream_knotes d' = stream_knotes d"
    "case result of Inr _ \<Rightarrow> timer_on d' = (0 < delay) | Inl _ \<Rightarrow> timer_on d' \<longrightarrow> timer_on d"
    by auto
qed

section \<open>Decoding a batch\<close>

text \<open>What the raw events of a batch say. An error event carries an errno, a timer event only that the
  deadline has passed; an event is the registered stream's when its descriptor, filter and key are, and
  then it is a snapshot of the device: the bytes ready, the fill (the same bytes for a capture, the
  frames queued in bytes for a playback), the xrun counter and whether the device is gone.\<close>

definition error_code :: "kevent \<Rightarrow> int" where
  "error_code e = (if ke_data e = 0 then EIO_errno else ke_data e)"

definition timer_event :: "kevent \<Rightarrow> bool" where
  "timer_event e \<longleftrightarrow> \<not> ke_error e \<and> ke_filter e = EvTimer"

definition stream_event :: "registered_stream \<Rightarrow> kevent \<Rightarrow> bool" where
  "stream_event r e \<longleftrightarrow> \<not> ke_error e \<and> ke_filter e \<in> {EvRead, EvWrite}
     \<and> (ke_ident e, ke_filter e, ke_udata e) = (rg_fd r, rg_filter r, rg_key r)"

definition device_snapshot :: "registered_stream \<Rightarrow> kevent \<Rightarrow> stream_wake" where
  "device_snapshot r e =
     (let ready = (if ke_data e \<le> 0 then 0 else if ke_data e < 4294967296 then nat (ke_data e) else 4294967295);
          queued = (if ke_filter e = EvRead then ready else min (ke_ext0 e * rg_frame_stride r) u64_max)
      in \<lparr> sw_stream = rg_stream r, sw_timing = NotificationTime, sw_ready_bytes = Some ready,
           sw_queue = Some \<lparr> qo_fill_bytes = queued, qo_quality = Exact \<rparr>, sw_clock = None,
           sw_xruns = Some (wrapping_events_u32 (min (ke_ext1 e) u32_max)),
           sw_state = (if ke_eof e then WakeDisconnected else WakeActive) \<rparr>)"

definition batch_streams :: "registered_stream option \<Rightarrow> kevent list \<Rightarrow> stream_wake list" where
  "batch_streams registered evs =
     (case registered of None \<Rightarrow> [] | Some r \<Rightarrow> map (device_snapshot r) (filter (stream_event r) evs))"

definition batch_errors :: "kevent list \<Rightarrow> int list" where
  "batch_errors evs = map error_code (filter ke_error evs)"

definition batch_timer :: "kevent list \<Rightarrow> bool" where
  "batch_timer evs = list_ex timer_event evs"

text \<open>What one read of a batch is to answer: the last snapshot, or else the timer, or else the first error.\<close>

definition batch_answer :: "registered_stream option \<Rightarrow> kevent list \<Rightarrow> int + wake_event option" where
  "batch_answer registered evs =
     (if batch_streams registered evs \<noteq> [] then Inr (Some (StreamEvent (last (batch_streams registered evs))))
      else if batch_timer evs then Inr (Some TimerEvent)
      else if batch_errors evs \<noteq> [] then Inl (hd (batch_errors evs))
      else Inr None)"

lemma decode_event_kinds:
  "decode_event registered e =
     (if ke_error e then Inl (error_code e) else if timer_event e then Inr (Some TimerEvent)
      else case registered of
        Some r \<Rightarrow> if stream_event r e then Inr (Some (StreamEvent (device_snapshot r e))) else Inr None
      | None \<Rightarrow> Inr None)"
  by (auto simp: decode_event_def error_code_def timer_event_def stream_event_def device_snapshot_def sat_mul64_def
      min_def nat_le_iff Let_def split: option.split)

lemma decode_step_apply:
  "decode_step registered ev (selected, first_error, timer_seen) =
     (case decode_event registered ev of
       Inr (Some TimerEvent) \<Rightarrow> (if selected = None then Some TimerEvent else selected, first_error, True)
     | Inr (Some (StreamEvent s)) \<Rightarrow> (Some (StreamEvent s), first_error, timer_seen)
     | Inr None \<Rightarrow> (selected, first_error, timer_seen)
     | Inl e \<Rightarrow> (selected, if first_error = None then Some e else first_error, timer_seen))"
  by (simp add: decode_step_def)

lemma decode_fold:
  "fold (decode_step registered) evs (None, None, False) =
     ((if batch_streams registered evs \<noteq> [] then Some (StreamEvent (last (batch_streams registered evs)))
       else if batch_timer evs then Some TimerEvent else None),
      (if batch_errors evs \<noteq> [] then Some (hd (batch_errors evs)) else None),
      batch_timer evs)"
proof (induction evs rule: rev_induct)
  case Nil
  then show ?case by (simp add: batch_streams_def batch_errors_def batch_timer_def split: option.split)
next
  case (snoc e evs)
  have app: "batch_streams registered (evs @ [e]) = batch_streams registered evs
       @ (case decode_event registered e of Inr (Some (StreamEvent s)) \<Rightarrow> [s] | _ \<Rightarrow> [])"
    "batch_errors (evs @ [e]) = batch_errors evs @ (case decode_event registered e of Inl x \<Rightarrow> [x] | _ \<Rightarrow> [])"
    "batch_timer (evs @ [e]) = (batch_timer evs \<or> decode_event registered e = Inr (Some TimerEvent))"
    by (auto simp: decode_event_kinds batch_streams_def batch_errors_def batch_timer_def stream_event_def timer_event_def
        split: option.split)
  show ?case
  proof (cases "decode_event registered e")
    case (Inl x)
    then show ?thesis by (simp add: snoc.IH app decode_step_apply)
  next
    case (Inr opt)
    show ?thesis
    proof (cases opt)
      case None
      then show ?thesis using Inr by (simp add: snoc.IH app decode_step_apply)
    next
      case (Some w)
      then show ?thesis using Inr by (cases w) (simp_all add: snoc.IH app decode_step_apply)
    qed
  qed
qed

lemma decode_events_answer:
  "decode_events evs registered = map_sum id (\<lambda>selected. (selected, batch_timer evs)) (batch_answer registered evs)"
  by (simp add: decode_events_def decode_fold batch_answer_def)

lemma decoded_streams:
  "s \<in> set (batch_streams registered evs) \<Longrightarrow> \<exists>r. registered = Some r \<and> sw_stream s = rg_stream r"
  by (auto simp: batch_streams_def device_snapshot_def Let_def split: option.splits)

lemma next_event_facts:
  assumes "wake_ok d" "next_native_event d = (result, d')"
  shows "wake_ok d'" "wd_registered d' = wd_registered d" "stream_knotes d' = stream_knotes d"
    "result = Inr (Some TimerEvent) \<Longrightarrow> \<not> wd_timer_armed d'"
    "result = Inr (Some (StreamEvent w)) \<Longrightarrow> map_option rg_stream (wd_registered d) = Some (sw_stream w)"
proof -
  obtain a q where rd: "kevent_read 2 (wd_queue d) = (a, q)" by fastforce
  have streams: "kq_knotes q (i, f) = kq_knotes (wd_queue d) (i, f)" if "f \<noteq> EvTimer" for i f
    using kevent_read_knotes(1) [OF that, of 2 "wd_queue d" i] rd by simp
  have timers: "kq_knotes q (i, EvTimer) \<noteq> None \<Longrightarrow> kq_knotes (wd_queue d) (i, EvTimer) \<noteq> None" for i
    using kevent_read_knotes(2) [of 2 "wd_queue d" _ i] kevent_read_knotes(3) [of 2 "wd_queue d"] rd
    by (cases a) (auto split: if_splits)
  have timer: "i = TIMER_IDENT \<and> wd_timer_armed d" if "kq_knotes q (i, EvTimer) = Some k" for i k
    using timers [of i] that wake_ok_timer [OF assms(1), of i] by blast
  have keep: "wake_ok (d\<lparr> wd_queue := q, wd_timer_armed := b \<rparr>)"
    "stream_knotes (d\<lparr> wd_queue := q, wd_timer_armed := b \<rparr>) = stream_knotes d"
    if b: "kq_knotes q (TIMER_IDENT, EvTimer) \<noteq> None \<Longrightarrow> b" for b
    using wake_ok_queue [OF assms(1) streams _ b] timers by blast+
  have armed: "kq_knotes q (TIMER_IDENT, EvTimer) \<noteq> None \<Longrightarrow> wd_timer_armed d" using timer by auto
  have gone: "kq_knotes q (TIMER_IDENT, EvTimer) = None" if h: "a = Inr evs" "batch_timer evs" for evs
  proof -
    obtain e where e: "e \<in> set evs" "ke_filter e = EvTimer" using h(2) by (auto simp: batch_timer_def timer_event_def list_ex_iff)
    then have "kq_knotes (wd_queue d) (ke_ident e, EvTimer) \<noteq> None"
      using kevent_read_present [of 2 "wd_queue d" evs e] rd h(1) by simp
    then have "ke_ident e = TIMER_IDENT" using wake_ok_timer [OF assms(1)] by auto
    then have "TIMER_IDENT \<in> set (timers_of evs)" using e by (force simp: timers_of_def)
    then show ?thesis using kevent_read_knotes(2) [of 2 "wd_queue d" evs TIMER_IDENT] rd h(1) by simp
  qed
  let ?u = "\<lambda>b. d\<lparr> wd_queue := q, wd_timer_armed := b \<rparr>"
  have same: "?u (wd_timer_armed d) = d\<lparr> wd_queue := q \<rparr>" by simp
  have outcome: "(\<exists>e. result = Inl e \<and> d' = ?u (wd_timer_armed d))
     \<or> (\<exists>evs. a = Inr evs \<and> d' = ?u (wd_timer_armed d \<and> \<not> batch_timer evs)
        \<and> result = Inr (if batch_streams (wd_registered d) evs \<noteq> [] then Some (StreamEvent (last (batch_streams (wd_registered d) evs)))
           else if batch_timer evs then Some TimerEvent else None))"
  proof (cases a)
    case (Inl e)
    then show ?thesis using assms(2) rd unfolding same by (auto simp: next_native_event_def on_queue_def)
  next
    case (Inr evs)
    have dec: "next_native_event d = (case decode_events evs (wd_registered d) of Inl e \<Rightarrow> (Inl e, d\<lparr> wd_queue := q \<rparr>)
        | Inr (selected, seen) \<Rightarrow> (Inr selected, if seen then (d\<lparr> wd_queue := q \<rparr>)\<lparr> wd_timer_armed := False \<rparr> else d\<lparr> wd_queue := q \<rparr>))"
      using rd Inr by (simp add: next_native_event_def on_queue_def split: sum.split)
    show ?thesis
    proof (cases "batch_timer evs")
      case True
      then show ?thesis using assms(2) Inr unfolding dec
        by (auto simp: decode_events_def decode_fold split: if_splits)
    next
      case False
      then show ?thesis using assms(2) Inr unfolding dec same
        by (auto simp: decode_events_def decode_fold split: if_splits)
    qed
  qed
  then consider (err) e where "result = Inl e" "d' = ?u (wd_timer_armed d)"
    | (ok) evs where "a = Inr evs" "d' = ?u (wd_timer_armed d \<and> \<not> batch_timer evs)"
        "result = Inr (if batch_streams (wd_registered d) evs \<noteq> [] then Some (StreamEvent (last (batch_streams (wd_registered d) evs)))
           else if batch_timer evs then Some TimerEvent else None)"
    by blast
  then have "wake_ok d' \<and> wd_registered d' = wd_registered d \<and> stream_knotes d' = stream_knotes d
     \<and> (result = Inr (Some TimerEvent) \<longrightarrow> \<not> wd_timer_armed d')
     \<and> (result = Inr (Some (StreamEvent w)) \<longrightarrow> map_option rg_stream (wd_registered d) = Some (sw_stream w))"
  proof cases
    case (err e)
    then show ?thesis using keep [OF armed] by simp
  next
    case (ok evs)
    have b: "kq_knotes q (TIMER_IDENT, EvTimer) \<noteq> None \<Longrightarrow> wd_timer_armed d \<and> \<not> batch_timer evs"
      using armed gone [OF ok(1)] by metis
    have "wake_ok d'" "stream_knotes d' = stream_knotes d"
      unfolding ok(2) using keep [OF b] by blast+
    then show ?thesis
      using decoded_streams [of "last (batch_streams (wd_registered d) evs)" "wd_registered d" evs] last_in_set
      unfolding ok(2,3) by auto
  qed
  then show "wake_ok d'" "wd_registered d' = wd_registered d" "stream_knotes d' = stream_knotes d"
    "result = Inr (Some TimerEvent) \<Longrightarrow> \<not> wd_timer_armed d'"
    "result = Inr (Some (StreamEvent w)) \<Longrightarrow> map_option rg_stream (wd_registered d) = Some (sw_stream w)"
    by blast+
qed

section \<open>Properties\<close>

text \<open>C14. One read of the queue starts at most one graph cycle, and the richest one. When the kernel has a
  pair of events for the driver - or one, or none - a single call of \<open>next_native_event\<close> consumes all of
  them and answers with the last snapshot of the registered stream, whatever the order of the pair; the
  deadline watchdog counts only without one, and an error is reported, the first one, only by a batch
  with nothing usable. The timer is noted as fired whenever it was in the batch, also behind a snapshot,
  so neither of a simultaneous pair is left to start a second cycle. A read that fails changes nothing.\<close>

theorem batch_prefers_the_device_snapshot:
  assumes "kq_batches (wd_queue d) = pending # later" "next_native_event d = (result, d')"
    "case pending of Inl _ \<Rightarrow> True
       | Inr evs \<Rightarrow> length evs \<le> 2 \<and> (\<forall>e \<in> set evs. kq_knotes (wd_queue d) (ke_ident e, ke_filter e) \<noteq> None)"
  shows "(case pending of
       Inl e \<Rightarrow> result = Inl e \<and> wd_timer_armed d' = wd_timer_armed d
     | Inr evs \<Rightarrow> result = batch_answer (wd_registered d) evs
         \<and> wd_timer_armed d' = (wd_timer_armed d \<and> \<not> batch_timer evs))
   \<and> kq_batches (wd_queue d') = later \<and> wd_registered d' = wd_registered d"
proof (cases pending)
  case (Inl e)
  then show ?thesis using assms(1,2)
    by (auto simp: next_native_event_def on_queue_def kevent_read_def pop_def)
next
  case (Inr evs)
  have all: "filter (\<lambda>e. kq_knotes (wd_queue d) (ke_ident e, ke_filter e) \<noteq> None) (take 2 evs) = evs"
    using assms(3) Inr by (simp add: filter_id_conv)
  obtain q where q: "kevent_read 2 (wd_queue d) = (Inr evs, q)" "kq_batches q = later"
    using assms(1) Inr all by (simp add: kevent_read_def pop_def Let_def)
  show ?thesis
  proof (cases "batch_answer (wd_registered d) evs")
    case (Inl e)
    then have "\<not> batch_timer evs" by (auto simp: batch_answer_def split: if_splits)
    then show ?thesis using assms(2) q Inl \<open>pending = Inr evs\<close>
      by (auto simp: next_native_event_def on_queue_def decode_events_answer)
  next
    case (Inr selected)
    then show ?thesis using assms(2) q \<open>pending = Inr evs\<close>
      by (cases "batch_timer evs") (auto simp: next_native_event_def on_queue_def decode_events_answer)
  qed
qed

text \<open>The one-shot deadline the shared node code asked for is the one the kernel holds: after a
  successful \<open>arm_timer\<close> a timer is in the queue exactly when the delay was not zero (skipping the
  system call when the driver believes none is armed is safe, because the belief is never behind the
  queue), with the delay that was asked for, cut at the largest the kernel takes; a failed call arms
  nothing; and the device registration is untouched.\<close>

theorem timer_request_reaches_the_kernel:
  assumes "wake_ok d" "arm_native_timer delay d = (result, d')"
  shows "wake_ok d' \<and> wd_registered d' = wd_registered d \<and> stream_knotes d' = stream_knotes d
    \<and> (case result of
         Inr _ \<Rightarrow> timer_on d' = (0 < delay)
           \<and> (if delay = 0 then True else map kc_data (take 1 (kq_changes (wd_queue d'))) = [int (min delay i64_max)])
       | Inl _ \<Rightarrow> timer_on d' \<le> timer_on d)"
proof -
  have "map kc_data (take 1 (kq_changes (wd_queue d'))) = [int (min delay i64_max)]" if r: "delay \<noteq> 0" "result = Inr ()"
  proof -
    let ?add = "\<lparr> kc_ident = TIMER_IDENT, kc_filter = EvTimer, kc_action = AddOneshot, kc_data = int (min delay i64_max), kc_key = 0 \<rparr>"
    have "fst (submit_change ?add (wd_queue d)) = Inr ()" "wd_queue d' = snd (submit_change ?add (wd_queue d))"
      using assms(2) r by (auto simp: arm_native_timer_def on_queue_def case_prod_beta Let_def split: if_splits)
    then show ?thesis using submit_knotes(2) [of ?add "wd_queue d"] by simp
  qed
  then show ?thesis using arm_facts [OF assms] by (cases result) auto
qed

text \<open>What the queue reports is never attributed to the wrong stream: once a stream is registered in
  the place of another - another generation on the very same descriptor number included - an event
  still carrying the old registration's key decodes to nothing, and the events that do decode name the
  stream that was registered last.\<close>

theorem replaced_registration_is_ignored:
  assumes "wake_ok d" "wd_registered d = Some old" "rg_stream old \<noteq> stream"
    "register_stream fd playback stream stride d = (Inr (), d')"
    "ke_filter ev \<noteq> EvTimer" "\<not> ke_error ev" "ke_udata ev = rg_key old"
  shows "decode_event (wd_registered d') ev = Inr None \<and> map_option rg_stream (wd_registered d') = Some stream
    \<and> wake_ok d'"
proof -
  have old: "rg_key old = wd_next_key d" using assms(1,2) by (simp add: wake_ok_def)
  obtain r where r: "wd_registered d' = Some r" "rg_stream r = stream" "d' = d \<or> rg_key r = next_key (wd_next_key d)"
    using register_facts(4) [OF assms(1,4)] by auto
  have "d' \<noteq> d" using r(1,2) assms(2,3) by auto
  then have "rg_key r \<noteq> rg_key old" using r(3) old next_key_fresh(1) [of "wd_next_key d"] by simp
  then show ?thesis using assms(5,6,7) r(1,2) register_facts(1) [OF assms(1,4)] by (simp add: decode_event_def)
qed

definition accepting_queue :: kqueue where
  "accepting_queue = \<lparr> kq_receipts = (let yes = Inr \<lparr> kr_count = 1, kr_error_flag = True, kr_data = 0 \<rparr> in [yes, yes, yes, yes]),
     kq_batches = [], kq_knotes = (\<lambda>_. None), kq_changes = [] \<rparr>"

definition sample_stream :: "u64 \<Rightarrow> stream_identity" where
  "sample_stream g = \<lparr> si_token = 1, si_generation = g \<rparr>"

lemma fresh_driver_ok: "wake_ok (wake_driver_new accepting_queue)"
  by (simp add: wake_ok_def wake_driver_new_def accepting_queue_def)

theorem timer_request_reaches_the_kernel_witness:
  "let d = snd (arm_native_timer 5000 (wake_driver_new accepting_queue)) in timer_on d \<and> map kc_data (kq_changes (wd_queue d)) = [5000]"
proof -
  let ?r = "arm_native_timer 5000 (wake_driver_new accepting_queue)"
  have a: "?r = (Inr (), snd ?r)" "kq_changes (wd_queue (snd ?r)) =
      [\<lparr> kc_ident = 1, kc_filter = EvTimer, kc_action = AddOneshot, kc_data = 5000, kc_key = 0 \<rparr>]"
    by (simp_all add: arm_native_timer_def wake_driver_new_def accepting_queue_def on_queue_def submit_change_def
        apply_change_def pop_def Let_def)
  show ?thesis unfolding Let_def using timer_request_reaches_the_kernel [OF fresh_driver_ok a(1)] a(2) by simp
qed

theorem replaced_registration_is_ignored_witness:
  "let d = snd (register_stream 7 True (sample_stream 3) 8 (wake_driver_new accepting_queue));
       e = snd (register_stream 7 True (sample_stream 4) 8 d);
       ev = \<lparr> ke_ident = 7, ke_filter = EvWrite, ke_error = False, ke_eof = False, ke_data = 8192, ke_udata = 1,
              ke_ext0 = 10, ke_ext1 = 0 \<rparr>
   in decode_event (wd_registered e) ev = Inr None \<and> map_option rg_stream (wd_registered e) = Some (sample_stream 4)"
proof -
  let ?ev = "\<lparr> ke_ident = 7, ke_filter = EvWrite, ke_error = False, ke_eof = False, ke_data = 8192, ke_udata = 1,
              ke_ext0 = 10, ke_ext1 = 0 \<rparr>"
  let ?d = "wake_driver_new accepting_queue"
  have a: "register_stream 7 True (sample_stream 3) 8 ?d = (Inr (), snd (register_stream 7 True (sample_stream 3) 8 ?d))"
      "wd_registered (snd (register_stream 7 True (sample_stream 3) 8 ?d))
         = Some \<lparr> rg_fd = 7, rg_filter = EvWrite, rg_stream = sample_stream 3, rg_frame_stride = 8, rg_key = 1 \<rparr>"
      "register_stream 7 True (sample_stream 4) 8 (snd (register_stream 7 True (sample_stream 3) 8 ?d))
         = (Inr (), snd (register_stream 7 True (sample_stream 4) 8 (snd (register_stream 7 True (sample_stream 3) 8 ?d))))"
    by (simp_all add: register_stream_def unregister_native_stream_def wake_driver_new_def accepting_queue_def on_queue_def
        submit_change_def apply_change_def pop_def next_key_def sample_stream_def Let_def)
  have ok: "wake_ok (snd (register_stream 7 True (sample_stream 3) 8 ?d))"
    by (rule register_facts(1) [OF fresh_driver_ok a(1)])
  show ?thesis unfolding Let_def
    using replaced_registration_is_ignored [OF ok a(2) _ a(3), of ?ev] by (simp add: sample_stream_def)
qed

definition simultaneous_pair :: "kevent list" where
  "simultaneous_pair =
     [\<lparr> ke_ident = 7, ke_filter = EvWrite, ke_error = False, ke_eof = False, ke_data = 8192, ke_udata = 1,
        ke_ext0 = 10, ke_ext1 = 0 \<rparr>,
      \<lparr> ke_ident = 1, ke_filter = EvTimer, ke_error = False, ke_eof = False, ke_data = 1, ke_udata = 0,
        ke_ext0 = 0, ke_ext1 = 0 \<rparr>]"

definition waiting_driver :: "kevent list \<Rightarrow> oss_wake_driver" where
  "waiting_driver evs = \<lparr> wd_queue = accepting_queue\<lparr> kq_batches := [Inr evs],
       kq_knotes := [(7, EvWrite) \<mapsto> 1, (1, EvTimer) \<mapsto> 0] \<rparr>,
     wd_registered = Some \<lparr> rg_fd = 7, rg_filter = EvWrite, rg_stream = sample_stream 3, rg_frame_stride = 8, rg_key = 1 \<rparr>,
     wd_next_key = 1, wd_timer_armed = True \<rparr>"

theorem batch_prefers_the_device_snapshot_witness:
  "list_all (\<lambda>evs. let (result, d) = next_native_event (waiting_driver evs)
     in (case result of Inr (Some (StreamEvent s)) \<Rightarrow> sw_ready_bytes s = Some 8192 | _ \<Rightarrow> False)
      \<and> \<not> wd_timer_armed d \<and> kq_batches (wd_queue d) = [])
   [simultaneous_pair, rev simultaneous_pair]"
proof -
  have one: "let (result, d) = next_native_event (waiting_driver evs)
     in (case result of Inr (Some (StreamEvent s)) \<Rightarrow> sw_ready_bytes s = Some 8192 | _ \<Rightarrow> False)
      \<and> \<not> wd_timer_armed d \<and> kq_batches (wd_queue d) = []"
    if evs: "evs = simultaneous_pair \<or> evs = rev simultaneous_pair" for evs
  proof -
    obtain result d where r: "next_native_event (waiting_driver evs) = (result, d)" by fastforce
    have "kq_batches (wd_queue (waiting_driver evs)) = Inr evs # []" by (simp add: waiting_driver_def)
    moreover have "case (Inr evs :: int + kevent list) of Inl _ \<Rightarrow> True
       | Inr evs \<Rightarrow> length evs \<le> 2 \<and> (\<forall>e \<in> set evs. kq_knotes (wd_queue (waiting_driver evs)) (ke_ident e, ke_filter e) \<noteq> None)"
      using evs by (auto simp: waiting_driver_def simultaneous_pair_def)
    ultimately show ?thesis
      using batch_prefers_the_device_snapshot [of "waiting_driver evs" "Inr evs" "[]", OF _ r] evs r
      by (auto simp: batch_answer_def batch_streams_def batch_timer_def stream_event_def timer_event_def device_snapshot_def
          waiting_driver_def simultaneous_pair_def)
  qed
  show ?thesis using one [of simultaneous_pair] one [of "rev simultaneous_pair"] by simp
qed

section \<open>What a registration leaves of the device\<close>

lemma install_ring: "k_ring (snd (snd (install_wake_threshold c t n k))) = k_ring k"
  by (simp add: install_wake_threshold_def set_low_water_def case_prod_beta Let_def)

lemma install_pairing: "pairing (snd (snd (install_wake_threshold c t n k))) = pairing k"
  by (simp add: install_wake_threshold_def set_low_water_def case_prod_beta Let_def ioctl_int_pairing)

lemma writer_register_frame:
  "\<exists>c k. fst (snd (writer_register_wake raw w driver i b)) = w\<lparr> w_wake_threshold := c, w_kernel := k \<rparr>
     \<and> k_ring k = k_ring (w_kernel w) \<and> pairing k = pairing (w_kernel w)"
proof (cases "w_fd w")
  case False
  then show ?thesis by (intro exI [of _ "w_wake_threshold w"] exI [of _ "w_kernel w"]) (simp add: writer_register_wake_def)
next
  case True
  obtain r c k where i: "install_wake_threshold (w_wake_threshold w) (playback_wake_threshold b) (wb_quantum_bytes b) (w_kernel w) = (r, c, k)"
    by (cases "install_wake_threshold (w_wake_threshold w) (playback_wake_threshold b) (wb_quantum_bytes b) (w_kernel w)") auto
  then have "k_ring k = k_ring (w_kernel w)" "pairing k = pairing (w_kernel w)"
    using install_ring install_pairing by (metis snd_conv)+
  then show ?thesis using True i by (cases r) (auto simp: writer_register_wake_def case_prod_beta Let_def)
qed

lemma writer_register_keeps:
  "writer_ok (fst (snd (writer_register_wake raw w driver i b))) = writer_ok w"
  "w_state (fst (snd (writer_register_wake raw w driver i b))) = w_state w"
  "k_ring (w_kernel (fst (snd (writer_register_wake raw w driver i b)))) = k_ring (w_kernel w)"
proof -
  obtain c k where e: "fst (snd (writer_register_wake raw w driver i b)) = w\<lparr> w_wake_threshold := c, w_kernel := k \<rparr>"
    "k_ring k = k_ring (w_kernel w)" "pairing k = pairing (w_kernel w)" using writer_register_frame by blast
  show "writer_ok (fst (snd (writer_register_wake raw w driver i b))) = writer_ok w"
    using e(2,3) by (simp add: e(1) writer_ok_def writer_base_def silence_ready_def pairing_def)
  show "w_state (fst (snd (writer_register_wake raw w driver i b))) = w_state w"
    "k_ring (w_kernel (fst (snd (writer_register_wake raw w driver i b)))) = k_ring (w_kernel w)"
    using e by simp_all
qed

lemma dsp_register_frame:
  "\<exists>c k. fst (snd (dsp_register_wake raw d driver i b)) = d\<lparr> d_wake_threshold := c, d_kernel := k \<rparr>
     \<and> k_ring k = k_ring (d_kernel d)"
proof (cases "d_fd d")
  case False
  then show ?thesis by (intro exI [of _ "d_wake_threshold d"] exI [of _ "d_kernel d"]) (simp add: dsp_register_wake_def)
next
  case True
  obtain r c k where i: "install_wake_threshold (d_wake_threshold d) (capture_wake_threshold b) (wb_quantum_bytes b) (d_kernel d) = (r, c, k)"
    by (cases "install_wake_threshold (d_wake_threshold d) (capture_wake_threshold b) (wb_quantum_bytes b) (d_kernel d)") auto
  then have "k_ring k = k_ring (d_kernel d)" using install_ring by (metis snd_conv)
  then show ?thesis using True i by (cases r) (auto simp: dsp_register_wake_def case_prod_beta Let_def)
qed

lemma dsp_register_keeps:
  "dsp_ok (fst (snd (dsp_register_wake raw d driver i b))) = dsp_ok d"
  "d_state (fst (snd (dsp_register_wake raw d driver i b))) = d_state d"
  "k_ring (d_kernel (fst (snd (dsp_register_wake raw d driver i b)))) = k_ring (d_kernel d)"
proof -
  obtain c k where e: "fst (snd (dsp_register_wake raw d driver i b)) = d\<lparr> d_wake_threshold := c, d_kernel := k \<rparr>"
    "k_ring k = k_ring (d_kernel d)" using dsp_register_frame by blast
  show "dsp_ok (fst (snd (dsp_register_wake raw d driver i b))) = dsp_ok d" using e(2) by (simp add: e(1) dsp_ok_def)
  show "d_state (fst (snd (dsp_register_wake raw d driver i b))) = d_state d"
    "k_ring (d_kernel (fst (snd (dsp_register_wake raw d driver i b)))) = k_ring (d_kernel d)" using e by simp_all
qed

end
