(* ===== verification/SinkNode.thy ===== *)
theory SinkNode
  imports Rebuild PlaybackIface
begin

text \<open>
  The playback node (crates/core/src/node/sink/mod.rs and sink/buffer.rs) over any backend: the fill
  geometry, retuning, priming, underrun recovery, the follower servo, the retained host buffer and
  the process cycle. \<open>B\<close> is the backend's record of playback operations. One cycle of the code's loop
  over the ports is split here into the preparation of the device, the write and its conclusion; the
  early \<open>continue\<close>s are the branches that release the input or leave it alone.
\<close>

section \<open>State\<close>

record sink_data_ext =
  sx_cur_timestamp :: u64
  sx_old_timestamp :: u64

record sink_port_ext =
  xp_xrun_timestamp :: u64
  xp_target_delay :: u32
  xp_target_goal :: u32
  xp_minimum_fill :: u32
  xp_buffer_size :: u32
  xp_retune_pending :: bool
  xp_resuming :: bool
  xp_rebuild_after_start :: bool
  xp_pending_buffer :: "u32 option"
  xp_pending_offset :: u32

type_synonym 'd sink_port = "('d, sink_port_ext) port"
type_synonym ('d, 'p, 'w) sink_state = "('d, 'p, sink_port_ext, sink_data_ext, 'w) data_state"

definition sink_port_ext_default :: sink_port_ext where
  "sink_port_ext_default = \<lparr> xp_xrun_timestamp = 0, xp_target_delay = 0, xp_target_goal = 0,
     xp_minimum_fill = 0, xp_buffer_size = 0, xp_retune_pending = False, xp_resuming = False,
     xp_rebuild_after_start = False, xp_pending_buffer = None, xp_pending_offset = 0 \<rparr>"

abbreviation upd_ext :: "('x \<Rightarrow> 'x) \<Rightarrow> ('d, 'x) port \<Rightarrow> ('d, 'x) port" where
  "upd_ext f port \<equiv> port\<lparr> p_ext := f (p_ext port) \<rparr>"

text \<open>An operation of the device inside its port.\<close>

definition on_dsp :: "('d \<Rightarrow> 'a \<times> 'd) \<Rightarrow> ('d, 'x) port \<Rightarrow> 'a \<times> ('d, 'x) port" where
  "on_dsp f port = (let (r, d) = f (p_dsp port) in (r, port\<lparr> p_dsp := d \<rparr>))"

definition relock :: "('d, 'x) port \<Rightarrow> ('d, 'x) port" where
  "relock port = port\<lparr> p_dll := dll_init (p_dll port), p_bw_adapt := bw_reset (p_bw_adapt port) \<rparr>"

section \<open>Measurements\<close>

definition measured_fill :: "('d, 'p) playback_ops \<Rightarrow> ('d, 'x) port \<Rightarrow> u32 \<times> ('d, 'x) port" where
  "measured_fill B port =
     (case wake_queue_fill port of
        Some fill \<Rightarrow> (fill, port)
      | None \<Rightarrow> on_dsp (pb_queued_bytes B) port)"

definition measured_underruns :: "('d, 'p) playback_ops \<Rightarrow> ('d, 'x) port \<Rightarrow> xrun_delta \<times> ('d, 'x) port" where
  "measured_underruns B port =
     (case take_wake_xruns port of
        (Some delta, port) \<Rightarrow> (delta, port)
      | (None, port) \<Rightarrow>
          let (observation, port) = on_dsp (pb_underruns B) port
          in take_polled_xruns observation port)"

section \<open>Buffer geometry\<close>

datatype retune_outcome = RUnchanged | Retuned | RRebuild

definition predicted_next_fill :: "u32 \<Rightarrow> u32 \<Rightarrow> u32 \<Rightarrow> u32" where
  "predicted_next_fill fill write_now period = sat_add32 fill write_now - period"

definition rate_match_bytes :: "spa_io_rate_match option \<Rightarrow> u32 \<Rightarrow> u32" where
  "rate_match_bytes rm stride = (case rm of Some rm \<Rightarrow> sat_mul32 (rm_size rm) stride | None \<Rightarrow> 0)"

definition commit_geometry :: "u32 \<Rightarrow> playback_geometry \<Rightarrow> 'd sink_port \<Rightarrow> bool \<times> 'd sink_port" where
  "commit_geometry period geometry port =
     (if period = 0 then (False, port)
      else let port = port\<lparr> p_setup_period := period,
                 p_delivery_quantum_bytes := pg_quantum_bytes geometry,
                 p_ext := (p_ext port)\<lparr> xp_buffer_size := pg_capacity_bytes geometry,
                   xp_target_delay := pg_target_fill_bytes geometry,
                   xp_target_goal := pg_target_goal_bytes geometry,
                   xp_minimum_fill := pg_minimum_fill_bytes geometry \<rparr> \<rparr>;
               port = relock port;
               (stride, rate) = (case stride_rate port of Some sr \<Rightarrow> sr | None \<Rightarrow> (1, 0))
           in (True, port\<lparr> p_bw_adapt := bw_configure stride (pg_quantum_bytes geometry) period
                       (sat_mul32 rate stride) (p_bw_adapt port) \<rparr>))"

definition retune_period ::
    "('d, 'p) playback_ops \<Rightarrow> u32 \<Rightarrow> u32 \<Rightarrow> u32 \<Rightarrow> u64 \<Rightarrow> 'd sink_port \<Rightarrow> retune_outcome \<times> 'd sink_port" where
  "retune_period B period_in_bytes stride write_now now port =
     (let (current_fill, port) = (if pb_is_running B (p_dsp port) then measured_fill B port else (0, port));
          request = \<lparr> pr_period_bytes = period_in_bytes, pr_graph_rate = 0, pr_stride = stride,
             pr_device_rate = (case stride_rate port of Some (_, rate) \<Rightarrow> rate | None \<Rightarrow> 0),
             pr_write_bytes = write_now,
             pr_maximum_write_bytes = rate_match_bytes (p_rate_match port) stride \<rparr>;
          (retune, port) = on_dsp (pb_retune_buffer B request current_fill now) port
      in case retune of
           PRUnchanged \<Rightarrow> (RUnchanged, upd_ext (\<lambda>x. x\<lparr> xp_retune_pending := False \<rparr>) port)
         | PRPending \<Rightarrow> (RUnchanged, upd_ext (\<lambda>x. x\<lparr> xp_retune_pending := True \<rparr>) port)
         | PRApplied geometry \<Rightarrow>
             (Retuned, upd_ext (\<lambda>x. x\<lparr> xp_retune_pending := False \<rparr>)
                         (snd (commit_geometry period_in_bytes geometry port)))
         | PRReprime \<Rightarrow>
             (Retuned, reset_stream_epoch (upd_ext (\<lambda>x. x\<lparr> xp_retune_pending := False, xp_xrun_timestamp := 0 \<rparr>)
                         (port\<lparr> p_was_matching := False \<rparr>)))
         | PRRebuild \<Rightarrow> (RRebuild, upd_ext (\<lambda>x. x\<lparr> xp_retune_pending := True \<rparr>) port))"

definition prime_playback ::
    "('d, 'p) playback_ops \<Rightarrow> u32 \<Rightarrow> u32 \<Rightarrow> 'p \<Rightarrow> 'd sink_port \<Rightarrow> 'd sink_port" where
  "prime_playback B period_in_bytes graph_rate properties port =
     (case stride_rate port of
        None \<Rightarrow> port
      | Some (stride, cfg_rate) \<Rightarrow>
          if period_in_bytes = 0 then port
          else let request = \<lparr> pr_period_bytes = period_in_bytes, pr_graph_rate = graph_rate,
                     pr_stride = stride, pr_device_rate = cfg_rate, pr_write_bytes = period_in_bytes,
                     pr_maximum_write_bytes = rate_match_bytes (p_rate_match port) stride \<rparr>;
                   (geometry, port) = on_dsp (pb_prime_buffer B request properties) port
               in snd (commit_geometry period_in_bytes geometry port))"

section \<open>Underruns and recovery\<close>

definition detect_underrun ::
    "('d, 'p) playback_ops \<Rightarrow> u32 \<Rightarrow> xrun_delta \<Rightarrow> u64 \<Rightarrow> u64 \<Rightarrow> 'd sink_port \<Rightarrow> 'd sink_port" where
  "detect_underrun B period_in_bytes underrun cur_timestamp clock_nsec port =
     (case stride_rate port of
        None \<Rightarrow> port
      | Some (stride, cfg_rate) \<Rightarrow>
          let drained = ns_to_bytes (cur_timestamp - clock_nsec) cfg_rate stride;
              (fill, port) = measured_fill B port;
              recovery_threshold = pb_underrun_low B (xp_target_delay (p_ext port))
                 (p_delivery_quantum_bytes port) period_in_bytes drained
          in if fill < recovery_threshold
             then let port = port\<lparr> p_warn_limit := snd (rate_limit_check cur_timestamp (p_warn_limit port)) \<rparr>
                  in if xp_xrun_timestamp (p_ext port) = 0
                     then (upd_ext (\<lambda>x. x\<lparr> xp_xrun_timestamp := max clock_nsec 1 \<rparr>) port)
                            \<lparr> p_pending_xrun := Some (pending_xrun_of (cur_timestamp div 1000) underrun (p_config port)) \<rparr>
                     else port
             else port)"

definition recover_or_hold ::
    "('d, 'p) playback_ops \<Rightarrow> u64 \<Rightarrow> bool \<Rightarrow> byte list \<Rightarrow> 'd sink_port \<Rightarrow> write_outcome \<times> 'd sink_port" where
  "recover_or_hold B clock_nsec clock_recovering data port =
     (if clock_nsec > xp_xrun_timestamp (p_ext port) \<and> \<not> clock_recovering
      then let port = relock (upd_ext (\<lambda>x. x\<lparr> xp_xrun_timestamp := 0 \<rparr>) port);
               safe = xp_minimum_fill (p_ext port);
               port = upd_ext (\<lambda>x. x\<lparr> xp_target_delay :=
                    min (max (xp_target_delay x) (min safe (xp_target_goal x))) (xp_target_goal x) \<rparr>) port;
               (odelay, port) = measured_fill B port;
               refill = xp_target_delay (p_ext port) - odelay;
               port = port\<lparr> p_dsp := pb_write_silence B refill (p_dsp port) \<rparr>
           in on_dsp (pb_write B data) port
      else (write_consumed (as_u32 (length data)), port))"

definition resume_playback ::
    "('d, 'p) playback_ops \<Rightarrow> u32 \<Rightarrow> u32 \<Rightarrow> byte list \<Rightarrow> 'd sink_port \<Rightarrow> write_outcome \<times> 'd sink_port" where
  "resume_playback B queued paused_underruns data port =
     (let drained = (queued = 0 \<and> paused_underruns > 0);
          port = (if drained
                  then let port = relock (upd_ext (\<lambda>x. x\<lparr> xp_target_delay := xp_target_goal x \<rparr>) port)
                       in port\<lparr> p_dsp := pb_write_silence B (xp_target_delay (p_ext port)) (p_dsp port) \<rparr>
                  else port);
          (result, port) = on_dsp (pb_write B data) port;
          port = (if \<not> drained \<and> wo_bytes result > 0
                  then upd_ext (\<lambda>x. x\<lparr> xp_target_delay := min (xp_target_goal x)
                         (predicted_next_fill queued (as_u32 (wo_bytes result)) (p_setup_period port)) \<rparr>) port
                  else port);
          port = (if \<not> would_block result then upd_ext (\<lambda>x. x\<lparr> xp_resuming := False \<rparr>) port else port)
      in (result, port))"

section \<open>Level control\<close>

definition settle_target :: "u32 \<Rightarrow> u32 \<Rightarrow> 'd sink_port \<Rightarrow> 'd sink_port" where
  "settle_target fill stride port =
     (if xp_target_delay (p_ext port) \<ge> xp_target_goal (p_ext port) then port
      else let lead = max (p_setup_period port div 4) stride;
               capped_lead = min (sat_add32 fill lead) (xp_target_goal (p_ext port))
           in upd_ext (\<lambda>x. x\<lparr> xp_target_delay := max (xp_target_delay x) capped_lead \<rparr>) port)"

definition follower_servo ::
    "('d, 'p) playback_ops \<Rightarrow> u32 \<Rightarrow> u32 \<Rightarrow> u64 \<Rightarrow> 'd sink_port \<Rightarrow> (real \<times> bool) \<times> 'd sink_port" where
  "follower_servo B odelay stride nsec port =
     (let port = settle_target odelay stride port;
          port = (if \<not> p_was_matching port then relock port else port);
          err_raw = real odelay - real (xp_target_delay (p_ext port))
      in if \<bar>err_raw\<bar> > real (p_setup_period port)
         then let port = relock port
              in if err_raw < 0
                 then ((1, False), port\<lparr> p_dsp := pb_write_silence B (xp_target_delay (p_ext port) - odelay) (p_dsp port) \<rparr>)
                 else ((1, True), port)
         else let max_err = servo_max_err (p_setup_period port) stride;
                  err = clamp err_raw (- max_err) max_err;
                  (corr, dll) = dll_update err (p_dll port);
                  (adapt, dll) = update_fill err nsec (p_bw_adapt port, dll)
              in ((corr, False), port\<lparr> p_dll := dll, p_bw_adapt := adapt \<rparr>))"

definition level_correct :: "('d, 'p) playback_ops \<Rightarrow> u32 \<Rightarrow> 'd sink_port \<Rightarrow> bool \<times> 'd sink_port" where
  "level_correct B odelay port =
     (let err_raw = real odelay - real (xp_target_delay (p_ext port))
      in if err_raw < - real (p_setup_period port)
         then (False, port\<lparr> p_dsp := pb_write_silence B (xp_target_delay (p_ext port) - odelay) (p_dsp port) \<rparr>)
         else (err_raw > real (p_setup_period port), port))"

section \<open>The host buffer\<close>

definition clear_pending_write :: "'d sink_port \<Rightarrow> 'd sink_port" where
  "clear_pending_write port = upd_ext (\<lambda>x. x\<lparr> xp_pending_buffer := None, xp_pending_offset := 0 \<rparr>) port"

definition finish_input_sequence :: "bool \<Rightarrow> 'd sink_port \<Rightarrow> 'd sink_port" where
  "finish_input_sequence event_epoch_reset port =
     (let rebuild_required = p_rebuild_required port;
          port = (if event_epoch_reset then reset_stream_epoch port else port);
          port = port\<lparr> p_rebuild_required := p_rebuild_required port \<or> rebuild_required \<rparr>
      in clear_pending_write port)"

definition end_input_sequence :: "('d, 'p) playback_ops \<Rightarrow> 'd sink_port \<Rightarrow> 'd sink_port" where
  "end_input_sequence B port =
     (let (event_epoch_reset, port) = on_dsp (pb_end_buffer_sequence B) port
      in finish_input_sequence event_epoch_reset port)"

definition need_data :: "('d, 'x) port \<Rightarrow> ('d, 'x) port" where
  "need_data port = port\<lparr> p_io := map_option (\<lambda>io. io\<lparr> io_status := SPA_STATUS_NEED_DATA \<rparr>) (p_io port) \<rparr>"

text \<open>The return value gains the NEED_DATA bit on release; here it is the whole result of the cycle,
  which starts from OK.\<close>

definition release_input :: "('d, 'p) playback_ops \<Rightarrow> 'd sink_port \<Rightarrow> 32 word \<times> 'd sink_port" where
  "release_input B port = (SPA_STATUS_NEED_DATA, need_data (end_input_sequence B port))"

definition consume_freewheel_input :: "('d, 'p) playback_ops \<Rightarrow> 'd sink_port \<Rightarrow> 'd sink_port" where
  "consume_freewheel_input B port = need_data (end_input_sequence B port)"

definition reset_unpreserved_pause :: "('d, 'p) playback_ops \<Rightarrow> 'd sink_port \<Rightarrow> bool \<times> 'd sink_port" where
  "reset_unpreserved_pause B port =
     (let (stopped, port) = on_dsp (pb_suspend B) port
      in if \<not> stopped then (False, port) else (True, finish_input_sequence True port))"

definition pause_playback :: "('d, 'p) playback_ops \<Rightarrow> 'd sink_port \<Rightarrow> 'd sink_port" where
  "pause_playback B port =
     (let (outcome, port) = on_dsp (pb_pause B) port
      in if outcome = Inr Preserved then port
         else let (reset, port) = reset_unpreserved_pause B port
              in if reset then port else upd_ext (\<lambda>x. x\<lparr> xp_rebuild_after_start := True \<rparr>) port)"

definition pending_write_offset :: "u32 \<Rightarrow> usize \<Rightarrow> 'd sink_port \<Rightarrow> usize \<times> 'd sink_port" where
  "pending_write_offset buffer_id len port =
     (let port = (if xp_pending_buffer (p_ext port) \<noteq> Some buffer_id \<or> xp_pending_offset (p_ext port) > len
                  then upd_ext (\<lambda>x. x\<lparr> xp_pending_buffer := Some buffer_id, xp_pending_offset := 0 \<rparr>) port
                  else port)
      in (xp_pending_offset (p_ext port), port))"

definition prepare_pending_write ::
    "('d, 'p) playback_ops \<Rightarrow> u32 \<Rightarrow> usize \<Rightarrow> 'd sink_port \<Rightarrow> usize \<times> 'd sink_port" where
  "prepare_pending_write B buffer_id len port =
     (let changed = (xp_pending_offset (p_ext port) \<noteq> 0
            \<and> (xp_pending_buffer (p_ext port) \<noteq> Some buffer_id \<or> xp_pending_offset (p_ext port) > len));
          port = (if changed then end_input_sequence B port else port)
      in pending_write_offset buffer_id len port)"

definition retain_partial_write :: "u32 \<Rightarrow> write_outcome \<Rightarrow> 'd sink_port \<Rightarrow> bool \<times> 'd sink_port" where
  "retain_partial_write requested write port =
     (if wo_bytes write < requested \<and> retryable_partial write
      then (True, upd_ext (\<lambda>x. x\<lparr> xp_pending_offset := sat_add32 (xp_pending_offset x) (as_u32 (wo_bytes write)) \<rparr>) port)
      else (False, port))"

definition write_retained_tail ::
    "('d, 'p) playback_ops \<Rightarrow> byte list \<Rightarrow> 'd sink_port \<Rightarrow> write_outcome option \<times> 'd sink_port" where
  "write_retained_tail B data port =
     (if xp_pending_offset (p_ext port) \<noteq> 0
      then let (result, port) = on_dsp (pb_write B data) port in (Some result, port)
      else (None, port))"

section \<open>The process cycle\<close>

text \<open>Bringing the device to Running: prime it (replaying a retained buffer from its first byte),
  resume it after a pause, or look for an underrun. \<open>None\<close> is the unready exit.\<close>

definition sink_prepare ::
    "('d, 'p) playback_ops \<Rightarrow> 'p \<Rightarrow> u32 \<Rightarrow> spa_io_clock \<Rightarrow> u64 \<Rightarrow> byte list \<Rightarrow> byte list \<Rightarrow> 'd sink_port
       \<Rightarrow> (byte list \<times> write_outcome option) option \<times> 'd sink_port" where
  "sink_prepare B properties period_in_bytes clock cur input_data cycle_data port =
     (if \<not> pb_is_running B (p_dsp port)
      then let replay = (xp_pending_offset (p_ext port) \<noteq> 0);
               port = (if replay then upd_ext (\<lambda>x. x\<lparr> xp_pending_offset := 0 \<rparr>) port else port);
               cycle_data = (if replay then input_data else cycle_data)
           in if period_in_bytes = 0 then (None, port)
              else (Some (cycle_data, None),
                    prime_playback B period_in_bytes (fr_denom (clk_target_rate clock)) properties
                      (upd_ext (\<lambda>x. x\<lparr> xp_resuming := False \<rparr>) port))
      else if xp_resuming (p_ext port)
      then let (paused_underruns, port) = measured_underruns B port
           in if xp_pending_offset (p_ext port) = 0
              then let (queued, port) = measured_fill B port;
                       (result, port) = resume_playback B queued (xd_events paused_underruns) cycle_data port
                   in (Some (cycle_data, Some result), port)
              else (Some (cycle_data, None), port)
      else let (underruns, port) = measured_underruns B port
           in (Some (cycle_data, None),
               if xd_events underruns > 0
               then detect_underrun B period_in_bytes underruns cur (clk_nsec clock) port else port))"

text \<open>The write of the cycle and the rate correction it publishes.\<close>

definition sink_write ::
    "('d, 'p) playback_ops \<Rightarrow> bool \<Rightarrow> bool \<Rightarrow> bool \<Rightarrow> u32 \<Rightarrow> spa_io_clock \<Rightarrow> u64 \<Rightarrow> byte list
       \<Rightarrow> write_outcome option \<Rightarrow> 'd sink_port \<Rightarrow> (real \<times> write_outcome) \<times> 'd sink_port" where
  "sink_write B following matching retuned stride clock cur cycle_data resumed_write port =
     (let (tail, port) = write_retained_tail B cycle_data port
      in case tail of
        Some result \<Rightarrow> ((1, result), port)
      | None \<Rightarrow>
          case resumed_write of
            Some result \<Rightarrow> ((1, result), port)
          | None \<Rightarrow>
              if xp_xrun_timestamp (p_ext port) \<noteq> 0
              then let (result, port) = recover_or_hold B (clk_nsec clock) (clk_xrun_recover clock) cycle_data port
                   in ((1, result), port)
              else let may_correct = (\<not> retuned \<and> p_setup_period port \<noteq> 0 \<and> \<not> xp_retune_pending (p_ext port));
                       ((corr, skip), port) =
                         (if may_correct \<and> matching
                          then let (fill, port) = measured_fill B port in follower_servo B fill stride cur port
                          else if may_correct \<and> following \<and> \<not> matching
                          then let (fill, port) = measured_fill B port; (skip, port) = level_correct B fill port
                               in ((1, skip), port)
                          else ((1, False), port))
                   in if skip then ((corr, write_consumed (as_u32 (length cycle_data))), port)
                      else let (result, port) = on_dsp (pb_write B cycle_data) port in ((corr, result), port))"

definition publish_rate_match :: "bool \<Rightarrow> real \<Rightarrow> 'd sink_port \<Rightarrow> 'd sink_port" where
  "publish_rate_match matching corr port =
     port\<lparr> p_was_matching := matching,
           p_rate_match := map_option (\<lambda>rm. rm\<lparr> rm_active := matching,
             rm_rate := (if matching then clamp corr (99 / 100) (101 / 100) else 1) \<rparr>) (p_rate_match port) \<rparr>"

definition sink_conclude ::
    "('d, 'p) playback_ops \<Rightarrow> bool \<Rightarrow> u64 \<Rightarrow> u32 \<Rightarrow> real \<Rightarrow> write_outcome \<Rightarrow> 'd sink_port \<Rightarrow> 32 word \<times> 'd sink_port" where
  "sink_conclude B matching cur len corr result port =
     (let port = (if xp_resuming (p_ext port) \<and> xp_pending_offset (p_ext port) \<noteq> 0 \<and> \<not> would_block result
                  then upd_ext (\<lambda>x. x\<lparr> xp_resuming := False \<rparr>) port else port);
          port = latch_rebuild_required (wo_status result) port;
          port = publish_rate_match matching corr port
      in if would_block result then (SPA_STATUS_OK, port)
         else let (retained, port) = retain_partial_write len result port
              in if retained then (SPA_STATUS_OK, port)
                 else let port = (if wo_bytes result < len
                                  then port\<lparr> p_warn_limit := snd (rate_limit_check cur (p_warn_limit port)) \<rparr> else port)
                      in release_input B port)"

text \<open>The cycle from a valid data block on.\<close>

definition release_port :: "('d, 'p) playback_ops \<Rightarrow> ('d, 'p, 'w) sink_state \<Rightarrow> 32 word \<times> ('d, 'p, 'w) sink_state" where
  "release_port B s = (let (result, port) = release_input B (ds_port s) in (result, s\<lparr> ds_port := port \<rparr>))"

definition sink_transfer ::
    "('d, 'p) playback_ops \<Rightarrow> bool \<Rightarrow> bool \<Rightarrow> u32 \<Rightarrow> u32 \<Rightarrow> spa_io_clock \<Rightarrow> byte list \<Rightarrow> byte list
       \<Rightarrow> ('d, 'p, 'w) sink_state \<Rightarrow> 32 word \<times> ('d, 'p, 'w) sink_state" where
  "sink_transfer B matching retuned period_in_bytes stride clock input_data cycle_data s =
     (let cur = sx_cur_timestamp (ds_ext s);
          (prepared, port) = sink_prepare B (ds_properties s) period_in_bytes clock cur input_data cycle_data (ds_port s);
          s = s\<lparr> ds_port := port \<rparr>
      in case prepared of
        None \<Rightarrow> release_port B s
      | Some (cycle_data, resumed_write) \<Rightarrow>
          let ((corr, result), port) = sink_write B (ds_following s) matching retuned stride clock cur
                 cycle_data resumed_write (ds_port s);
              (status, port) = sink_conclude B matching cur (as_u32 (length cycle_data)) corr result port
          in (status, s\<lparr> ds_port := port \<rparr>))"

definition sink_block ::
    "('d, 'p) playback_ops \<Rightarrow> u32 \<Rightarrow> u32 \<Rightarrow> u32 \<Rightarrow> data_block \<Rightarrow> ('d, 'p, 'w) sink_state
       \<Rightarrow> 32 word \<times> ('d, 'p, 'w) sink_state" where
  "sink_block B stride cfg_rate buffer_id data_0 s =
     (let input_data = input_slice data_0;
          (offset, port) = prepare_pending_write B buffer_id (length input_data) (ds_port s);
          s = s\<lparr> ds_port := port \<rparr>;
          cycle_data = drop offset input_data
      in if as_u32 (length cycle_data) = 0 then release_port B s
         else let s = (if ck_stride (db_chunk data_0) = as_i32 stride then s else s\<lparr> ds_panic := True \<rparr>)
         in case ds_position s of
           None \<Rightarrow> release_port B s
         | Some position \<Rightarrow>
             let clock = pos_clock position;
                 matching = (ds_following s \<and> \<not> same_clock position (ds_clock_name s));
                 period_in_bytes = device_period_bytes (clk_target_duration clock) cfg_rate
                   (fr_denom (clk_target_rate clock)) stride;
                 (retune, port) = retune_period B period_in_bytes stride (as_u32 (length cycle_data))
                   (sx_cur_timestamp (ds_ext s)) (ds_port s);
                 s = s\<lparr> ds_port := port \<rparr>;
                 (pending, s) = (if retune = RRebuild then queue_rebuild s else (False, s))
             in if pending then release_port B (upd_port (\<lambda>port. port\<lparr> p_was_matching := False \<rparr>) s)
                else sink_transfer B matching (retune = Retuned) period_in_bytes stride clock
                       input_data cycle_data s)"

definition sink_stamp :: "('d, 'p, 'w) sink_state \<Rightarrow> ('d, 'p, 'w) sink_state" where
  "sink_stamp s =
     (let old = sx_cur_timestamp (ds_ext s); (now, s) = try_now_ns s
      in s\<lparr> ds_ext := \<lparr> sx_cur_timestamp = (case now of Some n \<Rightarrow> n | None \<Rightarrow> old), sx_old_timestamp = old \<rparr> \<rparr>)"

definition freewheeling :: "('d, 'p, 'x, 's, 'w) data_state \<Rightarrow> bool" where
  "freewheeling s = (case ds_position s of Some p \<Rightarrow> clk_freewheel (pos_clock p) | None \<Rightarrow> False)"

definition sink_process_ports ::
    "('d, 'p, sink_port_ext, sink_data_ext, 'w) direction \<Rightarrow> ('d, 'p) playback_ops
       \<Rightarrow> ('d, 'p, 'w) sink_state \<Rightarrow> 32 word \<times> ('d, 'p, 'w) sink_state" where
  "sink_process_ports D B s =
     (let s = sink_stamp s
      in if freewheeling s then (SPA_STATUS_HAVE_DATA, upd_port (consume_freewheel_input B) s)
         else let (skip, s) = poll_rebuild D s
         in if skip then release_port B s
         else case stride_rate (ds_port s) of
           None \<Rightarrow> (SPA_STATUS_OK, s)
         | Some (stride, cfg_rate) \<Rightarrow>
             if p_buffers (ds_port s) = [] \<or> p_io (ds_port s) = None then (SPA_STATUS_OK, s)
             else if pb_is_closed B (p_dsp (ds_port s)) then release_port B (snd (queue_rebuild s))
             else if xp_rebuild_after_start (p_ext (ds_port s))
             then let (queued, s) = queue_rebuild s
                  in release_port B (if queued then upd_port (upd_ext (\<lambda>x. x\<lparr> xp_rebuild_after_start := False \<rparr>)) s else s)
             else if map_option io_status (p_io (ds_port s)) \<noteq> Some SPA_STATUS_HAVE_DATA then release_port B s
             else let buffer_id = (case p_io (ds_port s) of Some io \<Rightarrow> io_buffer_id io | None \<Rightarrow> u32_max)
             in case valid_data_block (ds_port s) buffer_id of
               None \<Rightarrow> release_port B s
             | Some data_0 \<Rightarrow> sink_block B stride cfg_rate buffer_id data_0 s)"

section \<open>The direction hooks\<close>

definition sink_on_device_swapped :: "('d, 'p, 'w) sink_state \<Rightarrow> ('d, 'p, 'w) sink_state" where
  "sink_on_device_swapped s =
     upd_port (\<lambda>port. clear_pending_write (upd_ext (\<lambda>x. x\<lparr> xp_xrun_timestamp := 0, xp_resuming := False,
       xp_rebuild_after_start := False \<rparr>) (reset_stream_epoch port))) s"

definition sink_on_buffers_swapped :: "('d, 'p) playback_ops \<Rightarrow> ('d, 'p, 'w) sink_state \<Rightarrow> ('d, 'p, 'w) sink_state" where
  "sink_on_buffers_swapped B s =
     (let (event_epoch_reset, port) = on_dsp (pb_end_buffer_sequence B) (ds_port s);
          port = (if event_epoch_reset then reset_stream_epoch port else port)
      in s\<lparr> ds_port := clear_pending_write port \<rparr>)"

definition sink_resume_port :: "('d, 'p) playback_ops \<Rightarrow> bool \<Rightarrow> 'd sink_port \<Rightarrow> 'd sink_port" where
  "sink_resume_port B resumes_pause port =
     (let port = upd_ext (\<lambda>x. x\<lparr> xp_xrun_timestamp := 0 \<rparr>) port;
          resume_running = (resumes_pause \<and> \<not> xp_rebuild_after_start (p_ext port)
             \<and> pb_is_running B (p_dsp port) \<and> p_setup_period port \<noteq> 0);
          (resume_running, port) =
            (if \<not> resume_running then (False, port)
             else let (res, port) = on_dsp (pb_resume B) port
                  in case res of
                       Inr _ \<Rightarrow> (True, port)
                     | Inl _ \<Rightarrow>
                         let (stopped, port) = on_dsp (pb_suspend B) port
                         in (False, if stopped then reset_stream_epoch port
                                    else upd_ext (\<lambda>x. x\<lparr> xp_rebuild_after_start := True \<rparr>) port));
          port = upd_ext (\<lambda>x. x\<lparr> xp_resuming := resume_running \<rparr>) port
      in (relock port)\<lparr> p_was_matching := False \<rparr>)"

definition sink_on_start_loop :: "('d, 'p) playback_ops \<Rightarrow> ('d, 'p, 'w) sink_state \<Rightarrow> ('d, 'p, 'w) sink_state" where
  "sink_on_start_loop B s =
     s\<lparr> ds_port := sink_resume_port B (\<not> ds_started s) (ds_port s),
        ds_ext := \<lparr> sx_cur_timestamp = 0, sx_old_timestamp = 0 \<rparr> \<rparr>"

definition sink_on_pause_loop :: "('d, 'p) playback_ops \<Rightarrow> ('d, 'p, 'w) sink_state \<Rightarrow> ('d, 'p, 'w) sink_state" where
  "sink_on_pause_loop B s = upd_port (pause_playback B) s"

definition sink_on_suspend_loop :: "('d, 'p, 'w) sink_state \<Rightarrow> ('d, 'p, 'w) sink_state" where
  "sink_on_suspend_loop s =
     upd_port (\<lambda>port. clear_pending_write (upd_ext (\<lambda>x. x\<lparr> xp_resuming := False, xp_rebuild_after_start := False \<rparr>) port)) s"

definition sink_on_role_flip :: "('d, 'p, 'w) sink_state \<Rightarrow> ('d, 'p, 'w) sink_state" where
  "sink_on_role_flip s = upd_port (\<lambda>port. (relock port)\<lparr> p_was_matching := False \<rparr>) s"

definition sink_servo_fill :: "('d, 'p) playback_ops \<Rightarrow> 'd sink_port \<Rightarrow> u32 \<times> 'd sink_port" where
  "sink_servo_fill B port =
     (let (fill, port) = measured_fill B port;
          stride = (case stride_rate port of Some (stride, _) \<Rightarrow> stride | None \<Rightarrow> 1)
      in (fill, settle_target fill stride port))"

definition sink_servo_hold :: "'d sink_port \<Rightarrow> bool" where
  "sink_servo_hold port \<longleftrightarrow> xp_xrun_timestamp (p_ext port) \<noteq> 0"

definition sink_servo_err :: "'d sink_port \<Rightarrow> u32 \<Rightarrow> real" where
  "sink_servo_err port fill = real fill - real (xp_target_delay (p_ext port))"

definition sink_wake_buffer_state :: "'d sink_port \<Rightarrow> wake_buffer_state" where
  "sink_wake_buffer_state port =
     \<lparr> wb_frame_stride = (case stride_rate port of Some (stride, _) \<Rightarrow> stride | None \<Rightarrow> 1),
       wb_period_bytes = p_setup_period port, wb_quantum_bytes = p_delivery_quantum_bytes port,
       wb_capacity_bytes = xp_buffer_size (p_ext port), wb_target_fill_bytes = xp_target_delay (p_ext port) \<rparr>"

definition sink_direction ::
    "('d, 'p) playback_ops \<Rightarrow> ('d, 'w) wake_ops \<Rightarrow> (string \<Rightarrow> 'd)
       \<Rightarrow> (stream_config \<Rightarrow> 'p \<Rightarrow> 'd \<Rightarrow> (int + configure_outcome) \<times> 'd)
       \<Rightarrow> ('d, 'p, sink_port_ext, sink_data_ext, 'w) direction" where
  "sink_direction B W new_device configure =
     \<lparr> dn_wake = W, dn_is_running = pb_is_running B, dn_new = new_device, dn_try_open_configure = configure,
       dn_servo_ready = (\<lambda>port. True), dn_servo_fill = sink_servo_fill B, dn_servo_hold = sink_servo_hold,
       dn_servo_err = sink_servo_err, dn_wake_buffer_state = sink_wake_buffer_state,
       dn_on_device_swapped = sink_on_device_swapped, dn_on_buffers_swapped = sink_on_buffers_swapped B,
       dn_on_start_loop = sink_on_start_loop B, dn_on_pause_loop = sink_on_pause_loop B,
       dn_on_suspend_loop = sink_on_suspend_loop, dn_on_role_flip = sink_on_role_flip \<rparr>"
section \<open>What the port operations leave alone\<close>

text \<open>The host's side of a port and its place in the rebuild protocol.\<close>

definition port_frame :: "('d, 'x) port \<Rightarrow> ('d, 'x) port \<Rightarrow> bool" where
  "port_frame port port' \<longleftrightarrow> p_config port' = p_config port \<and> p_buffers port' = p_buffers port
     \<and> p_generation port' = p_generation port \<and> p_stream_token port' = p_stream_token port
     \<and> p_rebuild_pending port' = p_rebuild_pending port"

lemma port_frame_refl [simp]: "port_frame port port"
  by (simp add: port_frame_def)

lemma port_frame_trans: "port_frame a b \<Longrightarrow> port_frame b c \<Longrightarrow> port_frame a c"
  by (simp add: port_frame_def)

text \<open>What a device operation inside its port touches.\<close>

lemma on_dsp_sel [simp]:
  "fst (on_dsp f port) = fst (f (p_dsp port))" "p_dsp (snd (on_dsp f port)) = snd (f (p_dsp port))"
  "p_ext (snd (on_dsp f port)) = p_ext port" "p_config (snd (on_dsp f port)) = p_config port"
  "p_buffers (snd (on_dsp f port)) = p_buffers port" "p_io (snd (on_dsp f port)) = p_io port"
  "p_generation (snd (on_dsp f port)) = p_generation port" "p_stream_token (snd (on_dsp f port)) = p_stream_token port"
  "p_rebuild_pending (snd (on_dsp f port)) = p_rebuild_pending port"
  "p_rebuild_required (snd (on_dsp f port)) = p_rebuild_required port"
  "p_setup_period (snd (on_dsp f port)) = p_setup_period port" "p_rate_match (snd (on_dsp f port)) = p_rate_match port"
  "p_stream_wake (snd (on_dsp f port)) = p_stream_wake port" "p_dll (snd (on_dsp f port)) = p_dll port"
  "p_bw_adapt (snd (on_dsp f port)) = p_bw_adapt port" "p_pending_xrun (snd (on_dsp f port)) = p_pending_xrun port"
  by (simp_all add: on_dsp_def case_prod_beta)

lemma on_dsp_frame [simp]: "port_frame port (snd (on_dsp f port))"
  by (simp add: port_frame_def)

lemma relock_sel [simp]:
  "p_dsp (relock port) = p_dsp port" "p_ext (relock port) = p_ext port" "p_io (relock port) = p_io port"
  "p_config (relock port) = p_config port" "p_setup_period (relock port) = p_setup_period port"
  "p_rate_match (relock port) = p_rate_match port" "port_frame port (relock port)"
  "p_rebuild_required (relock port) = p_rebuild_required port"
  by (simp_all add: relock_def port_frame_def)

lemma reset_stream_epoch_sel [simp]:
  "p_dsp (reset_stream_epoch port) = p_dsp port" "p_ext (reset_stream_epoch port) = p_ext port"
  "p_io (reset_stream_epoch port) = p_io port" "p_config (reset_stream_epoch port) = p_config port"
  "p_setup_period (reset_stream_epoch port) = p_setup_period port" "port_frame port (reset_stream_epoch port)"
  "p_rate_match (reset_stream_epoch port) = p_rate_match port"
  by (simp_all add: reset_stream_epoch_def port_frame_def)

text \<open>A measurement changes at most the device (its query) and the xrun tracker.\<close>

lemma measured_fill_cases:
  obtains (snapshot) "wake_queue_fill port = Some (fst (measured_fill B port))" "snd (measured_fill B port) = port"
  | (polled) "measured_fill B port = on_dsp (pb_queued_bytes B) port"
  by (cases "wake_queue_fill port") (auto simp: measured_fill_def)

lemma measured_fill_sel [simp]:
  "p_ext (snd (measured_fill B port)) = p_ext port" "p_io (snd (measured_fill B port)) = p_io port"
  "p_config (snd (measured_fill B port)) = p_config port" "port_frame port (snd (measured_fill B port))"
  "p_setup_period (snd (measured_fill B port)) = p_setup_period port"
  "p_rate_match (snd (measured_fill B port)) = p_rate_match port"
  "p_rebuild_required (snd (measured_fill B port)) = p_rebuild_required port"
  by (cases B port rule: measured_fill_cases; simp)+

lemma take_polled_sel [simp]:
  "p_dsp (snd (take_polled_xruns o1 port)) = p_dsp port" "p_ext (snd (take_polled_xruns o1 port)) = p_ext port"
  "p_io (snd (take_polled_xruns o1 port)) = p_io port" "p_config (snd (take_polled_xruns o1 port)) = p_config port"
  "port_frame port (snd (take_polled_xruns o1 port))"
  "p_setup_period (snd (take_polled_xruns o1 port)) = p_setup_period port"
  by (simp_all add: take_polled_xruns_def case_prod_beta port_frame_def)

lemma take_wake_sel [simp]:
  "p_dsp (snd (take_wake_xruns port)) = p_dsp port" "p_ext (snd (take_wake_xruns port)) = p_ext port"
  "p_io (snd (take_wake_xruns port)) = p_io port" "p_config (snd (take_wake_xruns port)) = p_config port"
  "port_frame port (snd (take_wake_xruns port))"
  "p_setup_period (snd (take_wake_xruns port)) = p_setup_period port"
  by (simp_all add: take_wake_xruns_def case_prod_beta port_frame_def split: option.split)

lemma measured_underruns_cases:
  obtains (snapshot) "snd (measured_underruns B port) = snd (take_wake_xruns port)"
  | (polled) o1 where "snd (measured_underruns B port)
       = snd (take_polled_xruns o1 (snd (on_dsp (pb_underruns B) (snd (take_wake_xruns port)))))"
  by (cases "take_wake_xruns port"; cases "fst (take_wake_xruns port)")
    (auto simp: measured_underruns_def case_prod_beta)

lemma measured_underruns_sel [simp]:
  "p_ext (snd (measured_underruns B port)) = p_ext port" "p_io (snd (measured_underruns B port)) = p_io port"
  "p_config (snd (measured_underruns B port)) = p_config port"
  "p_setup_period (snd (measured_underruns B port)) = p_setup_period port"
  by (cases B port rule: measured_underruns_cases; simp)+

lemma measured_underruns_frame [simp]: "port_frame port (snd (measured_underruns B port))"
proof (cases B port rule: measured_underruns_cases)
  case snapshot
  then show ?thesis by simp
next
  case (polled o1)
  then show ?thesis
    using port_frame_trans [OF port_frame_trans [OF take_wake_sel(5) on_dsp_frame] take_polled_sel(5)] by metis
qed

lemma settle_target_sel [simp]:
  "p_dsp (settle_target fill stride port) = p_dsp port" "p_io (settle_target fill stride port) = p_io port"
  "port_frame port (settle_target fill stride port)" "p_setup_period (settle_target fill stride port) = p_setup_period port"
  "xp_target_goal (p_ext (settle_target fill stride port)) = xp_target_goal (p_ext port)"
  "xp_pending_offset (p_ext (settle_target fill stride port)) = xp_pending_offset (p_ext port)"
  "xp_pending_buffer (p_ext (settle_target fill stride port)) = xp_pending_buffer (p_ext port)"
  "xp_xrun_timestamp (p_ext (settle_target fill stride port)) = xp_xrun_timestamp (p_ext port)"
  "p_was_matching (settle_target fill stride port) = p_was_matching port"
  "p_rebuild_required (settle_target fill stride port) = p_rebuild_required port"
  by (simp_all add: settle_target_def Let_def port_frame_def)

text \<open>The fill target settles towards its goal without overshooting: it never falls, never passes
  the goal, and leads the measured fill by at most a quarter period (or one frame).\<close>

theorem settle_target_bounds:
  "let old = xp_target_delay (p_ext port); goal = xp_target_goal (p_ext port);
       new = xp_target_delay (p_ext (settle_target fill stride port))
   in old \<le> new \<and> new \<le> max old goal \<and> new \<le> max old (fill + max (p_setup_period port div 4) stride)"
  by (simp add: settle_target_def Let_def sat_add32_def max_def min_def)

section \<open>The sink on any backend\<close>

context playback_backend
begin

text \<open>The sink's own invariant: the device's, and the level target within its goal.\<close>

definition sink_ok :: "'d sink_port \<Rightarrow> bool" where
  "sink_ok port \<longleftrightarrow> ok (p_dsp port) \<and> xp_target_delay (p_ext port) \<le> xp_target_goal (p_ext port)"

definition sink_running :: "'d sink_port \<Rightarrow> bool" where
  "sink_running port \<longleftrightarrow> sink_ok port \<and> pb_is_running B (p_dsp port)"

lemma sink_ok_ext:
  "ok (p_dsp port') \<Longrightarrow> p_ext port' = p_ext port \<Longrightarrow> sink_ok port \<Longrightarrow> sink_ok port'"
  by (simp add: sink_ok_def)

lemma sink_running_ext:
  "ok (p_dsp port') \<Longrightarrow> pb_is_running B (p_dsp port') \<Longrightarrow> p_ext port' = p_ext port \<Longrightarrow> sink_running port \<Longrightarrow> sink_running port'"
  by (simp add: sink_running_def sink_ok_def)

lemma running_open: "sink_running port \<Longrightarrow> ok (p_dsp port) \<and> \<not> pb_is_closed B (p_dsp port)"
  using not_both by (auto simp: sink_running_def sink_ok_def)

lemma measured_fill_running:
  assumes "sink_running port"
  shows "sink_running (snd (measured_fill B port)) \<and> accepted (p_dsp (snd (measured_fill B port))) = accepted (p_dsp port)"
proof (cases B port rule: measured_fill_cases)
  case snapshot
  then show ?thesis using assms by simp
next
  case polled
  have "ok (p_dsp port)" "pb_is_running B (p_dsp port)" using assms by (simp_all add: sink_running_def sink_ok_def)
  then show ?thesis
    using queued_ok queued_frame assms unfolding polled by (simp add: sink_running_def sink_ok_def)
qed

lemma measured_underruns_running:
  assumes "sink_running port"
  shows "sink_running (snd (measured_underruns B port)) \<and> accepted (p_dsp (snd (measured_underruns B port))) = accepted (p_dsp port)"
proof (cases B port rule: measured_underruns_cases)
  case snapshot
  then show ?thesis using assms by (simp add: sink_running_def sink_ok_def)
next
  case (polled o1)
  have "ok (p_dsp port)" "pb_is_running B (p_dsp port)" using assms by (simp_all add: sink_running_def sink_ok_def)
  then show ?thesis
    using underruns_ok underruns_frame assms unfolding polled by (simp add: sink_running_def sink_ok_def)
qed

lemma write_sink:
  assumes "sink_ok port" "\<not> pb_is_closed B (p_dsp port)"
  shows "sink_running (snd (on_dsp (pb_write B data) port))"
  using assms write_ok [of "p_dsp port" data] write_running [of "p_dsp port" data]
  by (simp add: sink_running_def sink_ok_def)

lemma silence_sink:
  assumes "sink_ok port" "\<not> pb_is_closed B (p_dsp port)"
  shows "sink_running (port\<lparr> p_dsp := pb_write_silence B n (p_dsp port) \<rparr>)"
  using assms silence_ok [of "p_dsp port" n] silence_running [of "p_dsp port" n]
  by (simp add: sink_running_def sink_ok_def)

lemma settle_sink: "sink_running port \<Longrightarrow> sink_running (settle_target fill stride port)"
  by (auto simp: sink_running_def sink_ok_def settle_target_def Let_def)

lemma relock_sink [simp]: "sink_running (relock port) = sink_running port" "sink_ok (relock port) = sink_ok port"
  by (simp_all add: sink_running_def sink_ok_def)

lemma commit_geometry_facts:
  "p_dsp (snd (commit_geometry period g port)) = p_dsp port"
  "p_io (snd (commit_geometry period g port)) = p_io port"
  "port_frame port (snd (commit_geometry period g port))"
  "xp_pending_offset (p_ext (snd (commit_geometry period g port))) = xp_pending_offset (p_ext port)"
  "xp_pending_buffer (p_ext (snd (commit_geometry period g port))) = xp_pending_buffer (p_ext port)"
  by (simp_all add: commit_geometry_def Let_def case_prod_beta relock_def port_frame_def)

lemma commit_geometry_ok:
  assumes "sink_ok port" "pg_target_fill_bytes g \<le> pg_target_goal_bytes g"
  shows "sink_ok (snd (commit_geometry period g port))"
  using assms by (simp add: commit_geometry_def Let_def case_prod_beta sink_ok_def relock_def)

lemma retune_period_facts:
  assumes "sink_ok port" "\<not> pb_is_closed B (p_dsp port)"
  shows "sink_ok (snd (retune_period B period stride n now port))"
    "\<not> pb_is_closed B (p_dsp (snd (retune_period B period stride n now port)))"
    "port_frame port (snd (retune_period B period stride n now port))"
    "p_io (snd (retune_period B period stride n now port)) = p_io port"
    "xp_pending_offset (p_ext (snd (retune_period B period stride n now port))) = xp_pending_offset (p_ext port)"
    "xp_pending_buffer (p_ext (snd (retune_period B period stride n now port))) = xp_pending_buffer (p_ext port)"
    "pb_is_running B (p_dsp (snd (retune_period B period stride n now port)))
       \<Longrightarrow> accepted (p_dsp (snd (retune_period B period stride n now port))) = accepted (p_dsp port)"
proof -
  define m where "m = (if pb_is_running B (p_dsp port) then measured_fill B port else (0, port))"
  have ms: "sink_ok (snd m)" "\<not> pb_is_closed B (p_dsp (snd m))" "port_frame port (snd m)"
      "p_io (snd m) = p_io port" "p_ext (snd m) = p_ext port" "accepted (p_dsp (snd m)) = accepted (p_dsp port)"
    using assms measured_fill_running [of port] not_both by (auto simp: m_def sink_running_def)
  define req where "req = \<lparr> pr_period_bytes = period, pr_graph_rate = 0, pr_stride = stride,
             pr_device_rate = (case stride_rate (snd m) of Some (_, rate) \<Rightarrow> rate | None \<Rightarrow> 0),
             pr_write_bytes = n, pr_maximum_write_bytes = rate_match_bytes (p_rate_match (snd m)) stride \<rparr>"
  define r where "r = on_dsp (pb_retune_buffer B req (fst m) now) (snd m)"
  have okm: "ok (p_dsp (snd m))" using ms(1) by (simp add: sink_ok_def)
  have rs: "sink_ok (snd r)" "\<not> pb_is_closed B (p_dsp (snd r))" "port_frame port (snd r)" "p_io (snd r) = p_io port"
      "p_ext (snd r) = p_ext port"
    using ms retune_ok [OF okm ms(2)] retune_not_closed [of req "fst m" now "p_dsp (snd m)"]
      port_frame_trans [OF ms(3) on_dsp_frame]
    by (simp_all add: r_def sink_ok_def)
  have acc: "fst r \<noteq> PRReprime \<Longrightarrow> accepted (p_dsp (snd r)) = accepted (p_dsp port)"
    using retune_accepted [of req "fst m" now "p_dsp (snd m)"] ms(6) by (simp add: r_def)
  have rep: "fst r = PRReprime \<Longrightarrow> \<not> pb_is_running B (p_dsp (snd r))"
    using retune_reprime [of req "fst m" now "p_dsp (snd m)"] by (simp add: r_def)
  have tg: "\<And>g. fst r = PRApplied g \<Longrightarrow> pg_target_fill_bytes g \<le> pg_target_goal_bytes g"
    using retune_target by (simp add: r_def)
  define out where "out = retune_period B period stride n now port"
  have eq: "out = (case fst r of
           PRUnchanged \<Rightarrow> (RUnchanged, upd_ext (\<lambda>x. x\<lparr> xp_retune_pending := False \<rparr>) (snd r))
         | PRPending \<Rightarrow> (RUnchanged, upd_ext (\<lambda>x. x\<lparr> xp_retune_pending := True \<rparr>) (snd r))
         | PRApplied geometry \<Rightarrow>
             (Retuned, upd_ext (\<lambda>x. x\<lparr> xp_retune_pending := False \<rparr>) (snd (commit_geometry period geometry (snd r))))
         | PRReprime \<Rightarrow>
             (Retuned, reset_stream_epoch (upd_ext (\<lambda>x. x\<lparr> xp_retune_pending := False, xp_xrun_timestamp := 0 \<rparr>)
                         ((snd r)\<lparr> p_was_matching := False \<rparr>)))
         | PRRebuild \<Rightarrow> (RRebuild, upd_ext (\<lambda>x. x\<lparr> xp_retune_pending := True \<rparr>) (snd r)))"
    unfolding out_def retune_period_def r_def req_def m_def by (simp add: Let_def case_prod_beta)
  have fr: "port_frame port p \<Longrightarrow> port_frame port (p\<lparr> p_ext := x \<rparr>)"
      "port_frame port p \<Longrightarrow> port_frame port (reset_stream_epoch p)"
      "port_frame port p \<Longrightarrow> port_frame port (p\<lparr> p_was_matching := b \<rparr>)" for p x b
    by (simp_all add: port_frame_def reset_stream_epoch_def)
  have goal: "sink_ok (snd out) \<and> \<not> pb_is_closed B (p_dsp (snd out)) \<and> port_frame port (snd out)
     \<and> p_io (snd out) = p_io port \<and> xp_pending_offset (p_ext (snd out)) = xp_pending_offset (p_ext port)
     \<and> xp_pending_buffer (p_ext (snd out)) = xp_pending_buffer (p_ext port)
     \<and> (pb_is_running B (p_dsp (snd out)) \<longrightarrow> accepted (p_dsp (snd out)) = accepted (p_dsp port))"
  proof (cases "fst r")
    case (PRApplied g)
    note c = commit_geometry_facts [where period = period and g = g and port = "snd r"]
    have "port_frame port (snd (commit_geometry period g (snd r)))" using rs(3) c(3) by (rule port_frame_trans)
    then show ?thesis
      unfolding eq using PRApplied rs acc c commit_geometry_ok [OF rs(1) tg [OF PRApplied]] fr
      by (simp add: sink_ok_def)
  qed (use rs acc rep fr in \<open>simp_all add: eq sink_ok_def\<close>)
  then show "sink_ok (snd (retune_period B period stride n now port))"
    "\<not> pb_is_closed B (p_dsp (snd (retune_period B period stride n now port)))"
    "port_frame port (snd (retune_period B period stride n now port))"
    "p_io (snd (retune_period B period stride n now port)) = p_io port"
    "xp_pending_offset (p_ext (snd (retune_period B period stride n now port))) = xp_pending_offset (p_ext port)"
    "xp_pending_buffer (p_ext (snd (retune_period B period stride n now port))) = xp_pending_buffer (p_ext port)"
    "pb_is_running B (p_dsp (snd (retune_period B period stride n now port)))
       \<Longrightarrow> accepted (p_dsp (snd (retune_period B period stride n now port))) = accepted (p_dsp port)"
    unfolding out_def by blast+
qed


lemma prime_playback_facts:
  assumes "sink_ok port" "\<not> pb_is_closed B (p_dsp port)" "\<not> pb_is_running B (p_dsp port)" "pok properties"
    and "stride_rate port \<noteq> None" "period \<noteq> 0"
  shows "sink_running (prime_playback B period graph_rate properties port)
    \<and> port_frame port (prime_playback B period graph_rate properties port)
    \<and> p_io (prime_playback B period graph_rate properties port) = p_io port
    \<and> xp_pending_offset (p_ext (prime_playback B period graph_rate properties port)) = xp_pending_offset (p_ext port)"
proof -
  obtain stride rate where sr: "stride_rate port = Some (stride, rate)" using assms(5) by auto
  define req where "req = \<lparr> pr_period_bytes = period, pr_graph_rate = graph_rate,
                     pr_stride = stride, pr_device_rate = rate, pr_write_bytes = period,
                     pr_maximum_write_bytes = rate_match_bytes (p_rate_match port) stride \<rparr>"
  define r where "r = on_dsp (pb_prime_buffer B req properties) port"
  have eq: "prime_playback B period graph_rate properties port = snd (commit_geometry period (fst r) (snd r))"
    using sr assms(6) by (simp add: prime_playback_def r_def req_def case_prod_beta Let_def)
  have okd: "ok (p_dsp port)" using assms(1) by (simp add: sink_ok_def)
  have rs: "sink_ok (snd r)" "pb_is_running B (p_dsp (snd r))"
    using prime_ok [OF okd assms(2-4)] prime_running [OF okd assms(2-4)] assms(1) by (simp_all add: r_def sink_ok_def)
  have tg: "pg_target_fill_bytes (fst r) \<le> pg_target_goal_bytes (fst r)" using prime_target by (simp add: r_def)
  note c = commit_geometry_facts [where period = period and g = "fst r" and port = "snd r"]
  have "port_frame port (snd (commit_geometry period (fst r) (snd r)))"
    using on_dsp_frame c(3) unfolding r_def by (rule port_frame_trans)
  then show ?thesis
    unfolding eq using commit_geometry_ok [OF rs(1) tg] rs(2) c by (simp add: sink_running_def r_def)
qed

lemma detect_underrun_facts:
  assumes "sink_running port"
  shows "sink_running (detect_underrun B period underrun cur nsec port)
    \<and> accepted (p_dsp (detect_underrun B period underrun cur nsec port)) = accepted (p_dsp port)
    \<and> port_frame port (detect_underrun B period underrun cur nsec port)
    \<and> p_io (detect_underrun B period underrun cur nsec port) = p_io port
    \<and> xp_pending_offset (p_ext (detect_underrun B period underrun cur nsec port)) = xp_pending_offset (p_ext port)
    \<and> xp_pending_buffer (p_ext (detect_underrun B period underrun cur nsec port)) = xp_pending_buffer (p_ext port)
    \<and> xp_resuming (p_ext (detect_underrun B period underrun cur nsec port)) = xp_resuming (p_ext port)"
proof (cases "stride_rate port")
  case None
  then show ?thesis using assms by (simp add: detect_underrun_def)
next
  case (Some sr)
  have m: "sink_running (snd (measured_fill B port))" "accepted (p_dsp (snd (measured_fill B port))) = accepted (p_dsp port)"
    "port_frame port (snd (measured_fill B port))"
    using measured_fill_running [OF assms] by simp_all
  then show ?thesis using Some
    by (simp add: detect_underrun_def case_prod_beta Let_def sink_running_def sink_ok_def port_frame_def)
qed

lemma recover_or_hold_facts:
  assumes "sink_running port"
  shows "sink_running (snd (recover_or_hold B nsec rec data port))
    \<and> port_frame port (snd (recover_or_hold B nsec rec data port))
    \<and> p_io (snd (recover_or_hold B nsec rec data port)) = p_io port
    \<and> xp_pending_offset (p_ext (snd (recover_or_hold B nsec rec data port))) = xp_pending_offset (p_ext port)
    \<and> xp_resuming (p_ext (snd (recover_or_hold B nsec rec data port))) = xp_resuming (p_ext port)"
proof (cases "nsec > xp_xrun_timestamp (p_ext port) \<and> \<not> rec")
  case False
  then show ?thesis using assms by (auto simp: recover_or_hold_def)
next
  case True
  define p1 where "p1 = upd_ext (\<lambda>x. x\<lparr> xp_target_delay :=
       min (max (xp_target_delay x) (min (xp_minimum_fill (p_ext (relock (upd_ext (\<lambda>x. x\<lparr> xp_xrun_timestamp := 0 \<rparr>) port)))) (xp_target_goal x))) (xp_target_goal x) \<rparr>)
       (relock (upd_ext (\<lambda>x. x\<lparr> xp_xrun_timestamp := 0 \<rparr>) port))"
  define p2 where "p2 = snd (measured_fill B p1)"
  define p3 where "p3 = p2\<lparr> p_dsp := pb_write_silence B (xp_target_delay (p_ext p2) - fst (measured_fill B p1)) (p_dsp p2) \<rparr>"
  have eq: "recover_or_hold B nsec rec data port = on_dsp (pb_write B data) p3"
    using True unfolding recover_or_hold_def p3_def p2_def p1_def
    by (simp add: case_prod_beta Let_def)
  have r1: "sink_running p1"
    using assms by (simp add: p1_def sink_running_def sink_ok_def)
  have r2: "sink_running p2" using measured_fill_running [OF r1] by (simp add: p2_def)
  then have o2: "sink_ok p2" "\<not> pb_is_closed B (p_dsp p2)" using running_open by (auto simp: sink_running_def)
  have r3: "sink_running p3" unfolding p3_def by (rule silence_sink [OF o2])
  then have o3: "sink_ok p3" "\<not> pb_is_closed B (p_dsp p3)" using running_open by (auto simp: sink_running_def)
  have "port_frame port p1" by (simp add: p1_def port_frame_def relock_def)
  moreover have "port_frame p1 p2" by (simp add: p2_def)
  moreover have "port_frame p2 p3" by (simp add: p3_def port_frame_def)
  ultimately have f: "port_frame port p3" by (blast intro: port_frame_trans)
  have "p_io p3 = p_io port" "xp_pending_offset (p_ext p3) = xp_pending_offset (p_ext port)"
      "xp_resuming (p_ext p3) = xp_resuming (p_ext port)"
    by (simp_all add: p3_def p2_def p1_def)
  then show ?thesis
    unfolding eq using write_sink [OF o3] port_frame_trans [OF f on_dsp_frame] by simp
qed

lemma resume_playback_facts:
  assumes "sink_running port"
  shows "sink_running (snd (resume_playback B queued u data port))
    \<and> port_frame port (snd (resume_playback B queued u data port))
    \<and> p_io (snd (resume_playback B queued u data port)) = p_io port
    \<and> xp_pending_offset (p_ext (snd (resume_playback B queued u data port))) = xp_pending_offset (p_ext port)"
proof -
  define drained where "drained \<longleftrightarrow> queued = 0 \<and> u > 0"
  define p0 where "p0 = relock (upd_ext (\<lambda>x. x\<lparr> xp_target_delay := xp_target_goal x \<rparr>) port)"
  define p1 where "p1 = (if drained then p0\<lparr> p_dsp := pb_write_silence B (xp_target_delay (p_ext p0)) (p_dsp p0) \<rparr> else port)"
  define r where "r = on_dsp (pb_write B data) p1"
  define p2 where "p2 = (if \<not> drained \<and> wo_bytes (fst r) > 0
      then upd_ext (\<lambda>x. x\<lparr> xp_target_delay := min (xp_target_goal x)
           (predicted_next_fill queued (as_u32 (wo_bytes (fst r))) (p_setup_period (snd r))) \<rparr>) (snd r)
      else snd r)"
  have eq: "snd (resume_playback B queued u data port)
      = (if \<not> would_block (fst r) then upd_ext (\<lambda>x. x\<lparr> xp_resuming := False \<rparr>) p2 else p2)"
    unfolding resume_playback_def p2_def r_def p1_def p0_def drained_def
    by (simp add: case_prod_beta Let_def)
  have "sink_running p0" using assms by (simp add: p0_def sink_running_def sink_ok_def)
  then have o0: "sink_ok p0" "\<not> pb_is_closed B (p_dsp p0)" using running_open by (auto simp: sink_running_def)
  have r1: "sink_running p1" using silence_sink [OF o0] assms by (simp add: p1_def)
  then have o1: "sink_ok p1" "\<not> pb_is_closed B (p_dsp p1)" using running_open by (auto simp: sink_running_def)
  have rr: "sink_running (snd r)" unfolding r_def by (rule write_sink [OF o1])
  then have r2: "sink_running p2" by (simp add: p2_def sink_running_def sink_ok_def)
  have "port_frame port p1" by (simp add: p1_def p0_def port_frame_def relock_def)
  then have f: "port_frame port (snd r)" unfolding r_def using on_dsp_frame by (rule port_frame_trans)
  have x: "p_io (snd r) = p_io port" "xp_pending_offset (p_ext (snd r)) = xp_pending_offset (p_ext port)"
    by (simp_all add: r_def p1_def p0_def)
  show ?thesis unfolding eq using r2 f x by (simp add: p2_def sink_running_def sink_ok_def port_frame_def)
qed

lemma follower_servo_facts:
  assumes "sink_running port"
  shows "sink_running (snd (follower_servo B fill stride nsec port))
    \<and> port_frame port (snd (follower_servo B fill stride nsec port))
    \<and> p_io (snd (follower_servo B fill stride nsec port)) = p_io port
    \<and> xp_pending_offset (p_ext (snd (follower_servo B fill stride nsec port))) = xp_pending_offset (p_ext port)"
proof -
  define p1 where "p1 = (if \<not> p_was_matching (settle_target fill stride port) then relock (settle_target fill stride port) else settle_target fill stride port)"
  have r1: "sink_running p1" using settle_sink [OF assms] by (simp add: p1_def)
  have f1: "port_frame port p1"
    using settle_target_sel(3) [of port fill stride]
      port_frame_trans [OF settle_target_sel(3) [of port fill stride] relock_sel(7)] by (simp add: p1_def)
  have x1: "p_io p1 = p_io port" "xp_pending_offset (p_ext p1) = xp_pending_offset (p_ext port)"
    by (simp_all add: p1_def)
  have o: "sink_ok (relock p1)" "\<not> pb_is_closed B (p_dsp (relock p1))"
    using r1 running_open by (auto simp: sink_running_def)
  have fr: "port_frame port (relock p1)" using f1 relock_sel(7) by (rule port_frame_trans)
  define e where "e = real fill - real (xp_target_delay (p_ext p1))"
  have eq: "snd (follower_servo B fill stride nsec port) =
     (if \<bar>e\<bar> > real (p_setup_period p1)
      then (if e < 0 then (relock p1)\<lparr> p_dsp := pb_write_silence B (xp_target_delay (p_ext p1) - fill) (p_dsp (relock p1)) \<rparr> else relock p1)
      else (let r = update_fill (clamp e (- servo_max_err (p_setup_period p1) stride) (servo_max_err (p_setup_period p1) stride)) nsec
                      (p_bw_adapt p1, snd (dll_update (clamp e (- servo_max_err (p_setup_period p1) stride) (servo_max_err (p_setup_period p1) stride)) (p_dll p1)))
            in p1\<lparr> p_dll := snd r, p_bw_adapt := fst r \<rparr>))"
    unfolding follower_servo_def e_def p1_def by (simp add: case_prod_beta Let_def)
  show ?thesis
    unfolding eq using silence_sink [OF o] r1 f1 fr x1
    by (simp add: Let_def sink_running_def sink_ok_def port_frame_def)
qed

lemma level_correct_facts:
  assumes "sink_running port"
  shows "sink_running (snd (level_correct B fill port))
    \<and> port_frame port (snd (level_correct B fill port))
    \<and> p_io (snd (level_correct B fill port)) = p_io port
    \<and> xp_pending_offset (p_ext (snd (level_correct B fill port))) = xp_pending_offset (p_ext port)"
proof -
  have o: "sink_ok port" "\<not> pb_is_closed B (p_dsp port)" using running_open [OF assms] assms by (auto simp: sink_running_def)
  show ?thesis using silence_sink [OF o] assms by (simp add: level_correct_def Let_def port_frame_def)
qed

lemma end_input_facts:
  assumes "sink_ok port"
  shows "sink_ok (end_input_sequence B port)" "port_frame port (end_input_sequence B port)"
    "p_io (end_input_sequence B port) = p_io port"
    "pb_is_closed B (p_dsp (end_input_sequence B port)) = pb_is_closed B (p_dsp port)"
    "xp_pending_offset (p_ext (end_input_sequence B port)) = 0"
    "xp_pending_buffer (p_ext (end_input_sequence B port)) = None"
    "p_rebuild_required port \<Longrightarrow> p_rebuild_required (end_input_sequence B port)"
    "p_dsp (end_input_sequence B port) = snd (pb_end_buffer_sequence B (p_dsp port))"
  using assms end_ok [of "p_dsp port"] end_not_closed [of "p_dsp port"]
  by (simp_all add: end_input_sequence_def finish_input_sequence_def clear_pending_write_def case_prod_beta
      Let_def sink_ok_def port_frame_def reset_stream_epoch_def)

lemma release_facts:
  assumes "sink_ok port"
  shows "sink_ok (snd (release_input B port))" "port_frame port (snd (release_input B port))"
    "fst (release_input B port) = SPA_STATUS_NEED_DATA"
    "p_io (snd (release_input B port)) = map_option (\<lambda>io. io\<lparr> io_status := SPA_STATUS_NEED_DATA \<rparr>) (p_io port)"
    "xp_pending_offset (p_ext (snd (release_input B port))) = 0"
    "xp_pending_buffer (p_ext (snd (release_input B port))) = None"
  using end_input_facts [OF assms]
  by (simp_all add: release_input_def need_data_def sink_ok_def port_frame_def)

lemma prepare_pending_write_facts:
  assumes "sink_ok port"
  shows "sink_ok (snd (prepare_pending_write B i len port))"
    "port_frame port (snd (prepare_pending_write B i len port))"
    "p_io (snd (prepare_pending_write B i len port)) = p_io port"
    "pb_is_closed B (p_dsp (snd (prepare_pending_write B i len port))) = pb_is_closed B (p_dsp port)"
    "fst (prepare_pending_write B i len port) \<le> len"
    "fst (prepare_pending_write B i len port) = xp_pending_offset (p_ext (snd (prepare_pending_write B i len port)))"
    "xp_pending_buffer (p_ext (snd (prepare_pending_write B i len port))) = Some i"
  using assms end_input_facts [OF assms]
  by (auto simp: prepare_pending_write_def pending_write_offset_def Let_def sink_ok_def port_frame_def)

lemma prepare_pending_same:
  assumes "xp_pending_buffer (p_ext port) = Some i" "xp_pending_offset (p_ext port) \<le> len"
  shows "prepare_pending_write B i len port = (xp_pending_offset (p_ext port), port)"
  using assms by (simp add: prepare_pending_write_def pending_write_offset_def)

text \<open>What the port looks like when the cycle reaches its write.\<close>

lemma sink_prepare_facts:
  assumes "sink_ok port" "\<not> pb_is_closed B (p_dsp port)" "pok properties" "stride_rate port \<noteq> None"
    and "sink_prepare B properties period clock cur input data port = (prepared, port')"
  shows "sink_ok port'" "\<not> pb_is_closed B (p_dsp port')" "port_frame port port'" "p_io port' = p_io port"
    "prepared \<noteq> None \<Longrightarrow> sink_running port'"
proof -
  have "sink_ok port' \<and> \<not> pb_is_closed B (p_dsp port') \<and> port_frame port port' \<and> p_io port' = p_io port
    \<and> (prepared \<noteq> None \<longrightarrow> sink_running port')"
  proof (cases "pb_is_running B (p_dsp port)")
    case False
    define q where "q = (if xp_pending_offset (p_ext port) \<noteq> 0 then upd_ext (\<lambda>x. x\<lparr> xp_pending_offset := 0 \<rparr>) port else port)"
    define q1 where "q1 = upd_ext (\<lambda>x. x\<lparr> xp_resuming := False \<rparr>) q"
    have q: "sink_ok q" "p_dsp q = p_dsp port" "port_frame port q" "p_io q = p_io port"
      using assms(1) by (simp_all add: q_def sink_ok_def port_frame_def)
    have q1: "sink_ok q1" "p_dsp q1 = p_dsp port" "port_frame port q1" "p_io q1 = p_io port" "stride_rate q1 \<noteq> None"
      using q assms(4) by (simp_all add: q1_def sink_ok_def port_frame_def stride_rate_def)
    show ?thesis
    proof (cases "period = 0")
      case True
      then have "prepared = None" "port' = q"
        using assms(5) False by (simp_all add: sink_prepare_def Let_def q_def split: if_splits)
      then show ?thesis using q assms(2) by simp
    next
      case pos: False
      then have p: "port' = prime_playback B period (fr_denom (clk_target_rate clock)) properties q1"
        using assms(5) False by (simp add: sink_prepare_def Let_def q_def q1_def)
      have c: "\<not> pb_is_closed B (p_dsp q1)" "\<not> pb_is_running B (p_dsp q1)" using assms(2) False q1(2) by simp_all
      note pr = prime_playback_facts [OF q1(1) c assms(3) q1(5) pos, of "fr_denom (clk_target_rate clock)"]
      have "sink_running port'" using pr p by simp
      then show ?thesis using pr p q1 running_open [of port'] port_frame_trans [OF q1(3)]
        by (auto simp: sink_running_def)
    qed
  next
    case True
    have run: "sink_running port" using True assms(1) by (simp add: sink_running_def)
    let ?m = "measured_underruns B port"
    have m: "sink_running (snd ?m)" "port_frame port (snd ?m)" "p_io (snd ?m) = p_io port"
      using measured_underruns_running [OF run] by simp_all
    have "sink_running port' \<and> port_frame port port' \<and> p_io port' = p_io port"
    proof (cases "xp_resuming (p_ext port)")
      case res: True
      let ?f = "measured_fill B (snd ?m)"
      have f: "sink_running (snd ?f)" "port_frame port (snd ?f)" "p_io (snd ?f) = p_io port"
        using measured_fill_running [OF m(1)] m port_frame_trans [OF m(2) measured_fill_sel(4)] by simp_all
      have "port' = (if xp_pending_offset (p_ext port) = 0
          then snd (resume_playback B (fst ?f) (xd_events (fst ?m)) data (snd ?f)) else snd ?m)"
        using assms(5) True res by (auto simp: sink_prepare_def case_prod_beta Let_def split: if_splits)
      then show ?thesis
        using resume_playback_facts [OF f(1), of "fst ?f" "xd_events (fst ?m)" data] f m port_frame_trans [OF f(2)] by auto
    next
      case res: False
      have "port' = (if xd_events (fst ?m) > 0 then detect_underrun B period (fst ?m) cur (clk_nsec clock) (snd ?m) else snd ?m)"
        using assms(5) True res by (auto simp: sink_prepare_def case_prod_beta Let_def split: if_splits)
      then show ?thesis
        using detect_underrun_facts [OF m(1), of period "fst ?m" cur "clk_nsec clock"] m port_frame_trans [OF m(2)] by auto
    qed
    then show ?thesis using running_open [of port'] by (auto simp: sink_running_def)
  qed
  then show "sink_ok port'" "\<not> pb_is_closed B (p_dsp port')" "port_frame port port'" "p_io port' = p_io port"
    "prepared \<noteq> None \<Longrightarrow> sink_running port'" by blast+
qed


lemma write_tail_cases:
  obtains (none) "xp_pending_offset (p_ext port) = 0" "write_retained_tail B data port = (None, port)"
  | (tail) "xp_pending_offset (p_ext port) \<noteq> 0"
      "write_retained_tail B data port = (Some (fst (on_dsp (pb_write B data) port)), snd (on_dsp (pb_write B data) port))"
  by (cases "xp_pending_offset (p_ext port) = 0") (auto simp: write_retained_tail_def case_prod_beta)

lemma sink_write_facts:
  assumes "sink_running port"
  shows "sink_running (snd (sink_write B following matching retuned stride clock cur data resumed port))
    \<and> port_frame port (snd (sink_write B following matching retuned stride clock cur data resumed port))
    \<and> p_io (snd (sink_write B following matching retuned stride clock cur data resumed port)) = p_io port
    \<and> xp_pending_offset (p_ext (snd (sink_write B following matching retuned stride clock cur data resumed port)))
        = xp_pending_offset (p_ext port)"
proof -
  have op: "sink_ok p \<and> \<not> pb_is_closed B (p_dsp p)" if "sink_running p" for p
    using that running_open [of p] by (simp add: sink_running_def)
  have wr: "sink_running (snd (on_dsp (pb_write B data) p))" if "sink_running p" for p
    using op [OF that] write_sink by blast
  show ?thesis
  proof (cases data port rule: write_tail_cases)
    case tail
    then show ?thesis using wr [OF assms] by (simp add: sink_write_def)
  next
    case none
    show ?thesis
    proof (cases resumed)
      case (Some r)
      then show ?thesis using none assms by (simp add: sink_write_def)
    next
      case None
      show ?thesis
      proof (cases "xp_xrun_timestamp (p_ext port) = 0")
        case False
        then show ?thesis
          using none None recover_or_hold_facts [OF assms, of "clk_nsec clock" "clk_xrun_recover clock" data]
          by (simp add: sink_write_def case_prod_beta)
      next
        case True
        let ?may = "\<not> retuned \<and> p_setup_period port \<noteq> 0 \<and> \<not> xp_retune_pending (p_ext port)"
        let ?m = "measured_fill B port"
        define c where "c = (if ?may \<and> matching then follower_servo B (fst ?m) stride cur (snd ?m)
             else if ?may \<and> following \<and> \<not> matching
             then ((1, fst (level_correct B (fst ?m) (snd ?m))), snd (level_correct B (fst ?m) (snd ?m)))
             else ((1, False), port))"
        have eq: "snd (sink_write B following matching retuned stride clock cur data resumed port)
            = (if snd (fst c) then snd c else snd (on_dsp (pb_write B data) (snd c)))"
          using none None True unfolding c_def sink_write_def by (simp add: case_prod_beta Let_def)
        have m: "sink_running (snd ?m)" "port_frame port (snd ?m)" "p_io (snd ?m) = p_io port"
          using measured_fill_running [OF assms] by simp_all
        have "sink_running (snd c) \<and> port_frame port (snd c) \<and> p_io (snd c) = p_io port
            \<and> xp_pending_offset (p_ext (snd c)) = xp_pending_offset (p_ext port)"
          using follower_servo_facts [OF m(1), of "fst ?m" stride cur] level_correct_facts [OF m(1), of "fst ?m"]
            m assms port_frame_trans [OF m(2)]
          by (auto simp: c_def)
        then show ?thesis unfolding eq using wr [of "snd c"] port_frame_trans [OF _ on_dsp_frame] by auto
      qed
    qed
  qed
qed

text \<open>The two conclusions of a cycle: the host keeps its buffer, or gets it back.\<close>

lemma sink_conclude_cases:
  assumes "sink_ok port" "sink_conclude B matching cur len corr result port = (status, port')"
  obtains (kept) "status = SPA_STATUS_OK" "would_block result \<or> (wo_bytes result < len \<and> retryable_partial result)"
      "p_dsp port' = p_dsp port" "p_io port' = p_io port" "port_frame port port'"
      "xp_pending_offset (p_ext port') = (if would_block result then xp_pending_offset (p_ext port)
          else sat_add32 (xp_pending_offset (p_ext port)) (as_u32 (wo_bytes result)))"
      "xp_pending_buffer (p_ext port') = xp_pending_buffer (p_ext port)"
      "xp_target_delay (p_ext port') = xp_target_delay (p_ext port)" "xp_target_goal (p_ext port') = xp_target_goal (p_ext port)"
  | (released) "status = SPA_STATUS_NEED_DATA" "\<not> would_block result" "wo_bytes result \<ge> len \<or> \<not> retryable_partial result"
      "sink_ok port'" "p_dsp port' = snd (pb_end_buffer_sequence B (p_dsp port))"
      "p_io port' = map_option (\<lambda>io. io\<lparr> io_status := SPA_STATUS_NEED_DATA \<rparr>) (p_io port)" "port_frame port port'"
      "xp_pending_offset (p_ext port') = 0" "xp_pending_buffer (p_ext port') = None"
proof -
  define p1 where "p1 = (if xp_resuming (p_ext port) \<and> xp_pending_offset (p_ext port) \<noteq> 0 \<and> \<not> would_block result
                  then upd_ext (\<lambda>x. x\<lparr> xp_resuming := False \<rparr>) port else port)"
  define p2 where "p2 = publish_rate_match matching corr (latch_rebuild_required (wo_status result) p1)"
  have p2: "p_dsp p2 = p_dsp port" "p_io p2 = p_io port" "port_frame port p2" "sink_ok p2"
    "xp_pending_offset (p_ext p2) = xp_pending_offset (p_ext port)" "xp_pending_buffer (p_ext p2) = xp_pending_buffer (p_ext port)"
    "xp_target_delay (p_ext p2) = xp_target_delay (p_ext port)" "xp_target_goal (p_ext p2) = xp_target_goal (p_ext port)"
    using assms(1) by (simp_all add: p2_def p1_def publish_rate_match_def latch_rebuild_required_def port_frame_def sink_ok_def)
  have eq: "(status, port') = (if would_block result then (SPA_STATUS_OK, p2)
      else if wo_bytes result < len \<and> retryable_partial result
      then (SPA_STATUS_OK, upd_ext (\<lambda>x. x\<lparr> xp_pending_offset := sat_add32 (xp_pending_offset x) (as_u32 (wo_bytes result)) \<rparr>) p2)
      else release_input B (if wo_bytes result < len then p2\<lparr> p_warn_limit := snd (rate_limit_check cur (p_warn_limit p2)) \<rparr> else p2))"
    unfolding assms(2) [symmetric] sink_conclude_def p2_def p1_def
    by (simp add: retain_partial_write_def case_prod_beta Let_def)
  show thesis
  proof (cases "would_block result \<or> (wo_bytes result < len \<and> retryable_partial result)")
    case True
    then have "status = SPA_STATUS_OK" "port' = (if would_block result then p2
        else upd_ext (\<lambda>x. x\<lparr> xp_pending_offset := sat_add32 (xp_pending_offset x) (as_u32 (wo_bytes result)) \<rparr>) p2)"
      using eq True by (cases "would_block result"; simp)+
    then show thesis using True p2 by (intro kept) (auto simp: port_frame_def)
  next
    case False
    define q where "q = (if wo_bytes result < len then p2\<lparr> p_warn_limit := snd (rate_limit_check cur (p_warn_limit p2)) \<rparr> else p2)"
    have q: "p_dsp q = p_dsp port" "p_io q = p_io port" "port_frame port q" "sink_ok q"
      using p2 by (simp_all add: q_def port_frame_def sink_ok_def)
    have n: "\<not> would_block result" "\<not> (wo_bytes result < len \<and> retryable_partial result)" using False by blast+
    have r: "(status, port') = release_input B q" unfolding q_def using eq by (simp only: n if_False)
    have s: "status = fst (release_input B q)" "port' = snd (release_input B q)" using r by (metis fst_conv, metis snd_conv)
    note rf = release_facts [OF q(4)]
    have "p_dsp port' = snd (pb_end_buffer_sequence B (p_dsp port))"
      using end_input_facts(8) [OF q(4)] q(1) unfolding s(2) by (simp add: release_input_def need_data_def)
    then show thesis using False rf s q port_frame_trans [OF q(3) rf(2)] by (intro released) auto
  qed
qed

lemma sink_transfer_frame:
  "ds_port (snd (sink_transfer B matching retuned period stride clock input data s)) = port' \<Longrightarrow>
   snd (sink_transfer B matching retuned period stride clock input data s) = s\<lparr> ds_port := port' \<rparr>"
  by (cases s) (auto simp: sink_transfer_def release_port_def case_prod_beta Let_def split: option.splits)

lemma sink_transfer_ok:
  assumes "sink_ok (ds_port s)" "\<not> pb_is_closed B (p_dsp (ds_port s))" "pok (ds_properties s)" "stride_rate (ds_port s) \<noteq> None"
    and "sink_transfer B matching retuned period stride clock input data s = (status, s')"
  shows "sink_ok (ds_port s')" "port_frame (ds_port s) (ds_port s')"
    "(status = SPA_STATUS_OK \<and> p_io (ds_port s') = p_io (ds_port s))
      \<or> (status = SPA_STATUS_NEED_DATA \<and> p_io (ds_port s') = map_option (\<lambda>io. io\<lparr> io_status := SPA_STATUS_NEED_DATA \<rparr>) (p_io (ds_port s))
         \<and> xp_pending_offset (p_ext (ds_port s')) = 0 \<and> xp_pending_buffer (p_ext (ds_port s')) = None)"
proof -
  let ?cur = "sx_cur_timestamp (ds_ext s)"
  obtain prepared p1 where p1: "sink_prepare B (ds_properties s) period clock ?cur input data (ds_port s) = (prepared, p1)"
    by fastforce
  note pf = sink_prepare_facts [OF assms(1-4) p1]
  have "sink_ok (ds_port s') \<and> port_frame (ds_port s) (ds_port s') \<and>
    ((status = SPA_STATUS_OK \<and> p_io (ds_port s') = p_io (ds_port s))
      \<or> (status = SPA_STATUS_NEED_DATA \<and> p_io (ds_port s') = map_option (\<lambda>io. io\<lparr> io_status := SPA_STATUS_NEED_DATA \<rparr>) (p_io (ds_port s))
         \<and> xp_pending_offset (p_ext (ds_port s')) = 0 \<and> xp_pending_buffer (p_ext (ds_port s')) = None))"
  proof (cases prepared)
    case None
    then have e: "status = fst (release_input B p1)" "ds_port s' = snd (release_input B p1)"
      using assms(5) p1 by (auto simp: sink_transfer_def release_port_def case_prod_beta Let_def)
    show ?thesis using e release_facts [OF pf(1)] pf(4) port_frame_trans [OF pf(3)] by auto
  next
    case (Some dr)
    obtain d resumed where dr: "dr = (d, resumed)" by fastforce
    have run: "sink_running p1" using pf(5) Some by simp
    define w where "w = sink_write B (ds_following s) matching retuned stride clock ?cur d resumed p1"
    have wf: "sink_running (snd w)" "port_frame p1 (snd w)" "p_io (snd w) = p_io p1"
      using sink_write_facts [OF run] by (simp_all add: w_def)
    have c: "sink_conclude B matching ?cur (as_u32 (length d)) (fst (fst w)) (snd (fst w)) (snd w) = (status, ds_port s')"
      using assms(5) p1 Some dr by (auto simp: sink_transfer_def w_def case_prod_beta Let_def)
    have fr: "port_frame (ds_port s) (snd w)" using pf(3) wf(2) by (rule port_frame_trans)
    have okw: "sink_ok (snd w)" using wf(1) by (simp add: sink_running_def)
    from okw c show ?thesis
    proof (cases rule: sink_conclude_cases)
      case kept
      then have "sink_ok (ds_port s')"
        using okw wf(1) by (auto simp: sink_ok_def sat_add32_def as_u32_def split: if_splits)
      then show ?thesis using kept wf(3) pf(4) port_frame_trans [OF fr kept(5)] by simp
    next
      case released
      then show ?thesis using wf(3) pf(4) port_frame_trans [OF fr released(7)] by simp
    qed
  qed
  then show "sink_ok (ds_port s')" "port_frame (ds_port s) (ds_port s')"
    "(status = SPA_STATUS_OK \<and> p_io (ds_port s') = p_io (ds_port s))
      \<or> (status = SPA_STATUS_NEED_DATA \<and> p_io (ds_port s') = map_option (\<lambda>io. io\<lparr> io_status := SPA_STATUS_NEED_DATA \<rparr>) (p_io (ds_port s))
         \<and> xp_pending_offset (p_ext (ds_port s')) = 0 \<and> xp_pending_buffer (p_ext (ds_port s')) = None)" by blast+
qed


text \<open>The buffer a sequence of cycles delivers: the retained offset counts the bytes of this buffer the
  device holds at the end of what it has accepted.\<close>

definition delivering :: "byte list \<Rightarrow> 'd sink_port \<Rightarrow> bool" where
  "delivering data port \<longleftrightarrow> (\<exists>before. accepted (p_dsp port) = before @ take (xp_pending_offset (p_ext port)) data)
     \<and> xp_pending_offset (p_ext port) \<le> length data"

lemma prepare_keeps_retained:
  assumes "sink_running port" "xp_pending_offset (p_ext port) \<noteq> 0"
  obtains p1 where "sink_prepare B properties period clock cur input data port = (Some (data, None), p1)"
    "sink_running p1" "accepted (p_dsp p1) = accepted (p_dsp port)" "port_frame port p1" "p_io p1 = p_io port"
    "xp_pending_offset (p_ext p1) = xp_pending_offset (p_ext port)" "xp_pending_buffer (p_ext p1) = xp_pending_buffer (p_ext port)"
proof -
  let ?m = "measured_underruns B port"
  have run: "pb_is_running B (p_dsp port)" using assms(1) by (simp add: sink_running_def)
  have m: "sink_running (snd ?m)" "accepted (p_dsp (snd ?m)) = accepted (p_dsp port)" "port_frame port (snd ?m)"
    using measured_underruns_running [OF assms(1)] by simp_all
  define p1 where "p1 = (if \<not> xp_resuming (p_ext port) \<and> xd_events (fst ?m) > 0
      then detect_underrun B period (fst ?m) cur (clk_nsec clock) (snd ?m) else snd ?m)"
  have eq: "sink_prepare B properties period clock cur input data port = (Some (data, None), p1)"
    using run assms(2) by (simp add: sink_prepare_def p1_def case_prod_beta Let_def)
  show thesis
    by (rule that [OF eq])
      (use detect_underrun_facts [OF m(1), of period "fst ?m" cur "clk_nsec clock"] m port_frame_trans [OF m(3)]
       in \<open>auto simp: p1_def\<close>)
qed

lemma latch_or_retryable: "\<not> retryable_partial out \<Longrightarrow> io_requires_rebuild (wo_status out)"
  by (cases "wo_status out") (auto simp: retryable_partial_def)

text \<open>Once the device has taken a prefix of a buffer, the next cycle hands it the bytes that follow,
  before any level correction or recovery could come between.\<close>

lemma transfer_continues:
  assumes run: "sink_running (ds_port s)" and off: "xp_pending_offset (p_ext (ds_port s)) = off" "off \<noteq> 0" "off \<le> length data"
    and len: "length data < 4294967296"
    and tr: "sink_transfer B matching retuned period stride clock data (drop off data) s = (status, s')"
  obtains (kept) n where "status = SPA_STATUS_OK" "off + n \<le> length data"
      "accepted (p_dsp (ds_port s')) = accepted (p_dsp (ds_port s)) @ take n (drop off data)"
      "xp_pending_offset (p_ext (ds_port s')) = off + n" "xp_pending_buffer (p_ext (ds_port s')) = xp_pending_buffer (p_ext (ds_port s))"
      "p_io (ds_port s') = p_io (ds_port s)" "pb_is_running B (p_dsp (ds_port s'))" "sink_ok (ds_port s')"
  | (finished) n d where "status = SPA_STATUS_NEED_DATA" "off + n \<le> length data"
      "accepted d = accepted (p_dsp (ds_port s)) @ take n (drop off data)"
      "p_dsp (ds_port s') = snd (pb_end_buffer_sequence B d)"
      "off + n = length data \<or> p_rebuild_required (ds_port s')"
proof -
  let ?tail = "drop off data" and ?cur = "sx_cur_timestamp (ds_ext s)"
  obtain p1 where p1: "sink_prepare B (ds_properties s) period clock ?cur data ?tail (ds_port s) = (Some (?tail, None), p1)"
    "sink_running p1" "accepted (p_dsp p1) = accepted (p_dsp (ds_port s))" "port_frame (ds_port s) p1" "p_io p1 = p_io (ds_port s)"
    "xp_pending_offset (p_ext p1) = off" "xp_pending_buffer (p_ext p1) = xp_pending_buffer (p_ext (ds_port s))"
    using prepare_keeps_retained [OF run] off by (metis (no_types, lifting))
  define w where "w = on_dsp (pb_write B ?tail) p1"
  define n where "n = wo_bytes (fst w)"
  have o1: "ok (p_dsp p1)" "\<not> pb_is_closed B (p_dsp p1)" using running_open [OF p1(2)] by simp_all
  have wr: "sink_write B (ds_following s) matching retuned stride clock ?cur ?tail None p1 = ((1, fst w), snd w)"
    using p1(6) off(2) by (simp add: sink_write_def write_retained_tail_def w_def case_prod_beta)
  have n: "n \<le> length ?tail" using write_le [OF o1, of ?tail] by (simp add: n_def w_def)
  have acc: "accepted (p_dsp (snd w)) = accepted (p_dsp (ds_port s)) @ take n ?tail"
    using write_accepts [OF o1, of ?tail] p1(3) by (simp add: n_def w_def)
  have okw: "sink_ok (snd w)" "pb_is_running B (p_dsp (snd w))"
    using write_sink [of p1 ?tail] p1(2) o1(2) by (simp_all add: w_def sink_running_def)
  have lt: "as_u32 (length ?tail) = length ?tail" "as_u32 n = n"
    using len n by (simp_all add: as_u32_id)
  have on: "off + n \<le> length data" using n off(3) by simp
  have c: "sink_conclude B matching ?cur (length ?tail) 1 (fst w) (snd w) = (status, ds_port s')"
    using tr p1(1) wr lt(1) by (auto simp: sink_transfer_def case_prod_beta Let_def)
  from okw(1) c show thesis
  proof (cases rule: sink_conclude_cases)
    case k: kept
    have "would_block (fst w) \<Longrightarrow> n = 0" by (simp add: n_def would_block_def)
    then have "xp_pending_offset (p_ext (ds_port s')) = off + n"
      using k(6) p1(6) lt(2) on len by (auto simp: w_def n_def sat_add32_def)
    then show thesis
      by (intro kept [of n]) (use k on acc p1 okw in \<open>simp_all add: w_def sink_ok_def\<close>)
  next
    case f: released
    have "off + n = length data \<or> p_rebuild_required (ds_port s')"
    proof (cases "n < length ?tail")
      case True
      then have r: "io_requires_rebuild (wo_status (fst w))" using f(3) latch_or_retryable by (simp add: n_def)
      have wb: "\<not> would_block (fst w)" by (rule f(2))
      define q where "q = publish_rate_match matching 1 (latch_rebuild_required (wo_status (fst w))
         (if xp_resuming (p_ext (snd w)) \<and> xp_pending_offset (p_ext (snd w)) \<noteq> 0 then upd_ext (\<lambda>x. x\<lparr> xp_resuming := False \<rparr>) (snd w) else snd w))"
      have q: "p_rebuild_required q" "sink_ok q"
        using r okw(1) by (simp_all add: q_def publish_rate_match_def latch_rebuild_required_def sink_ok_def)
      have nr: "\<not> retryable_partial (fst w)" using True f(3) by (auto simp: n_def)
      have "ds_port s' = snd (release_input B (q\<lparr> p_warn_limit := snd (rate_limit_check ?cur (p_warn_limit q)) \<rparr>))"
        using c wb nr True by (simp add: sink_conclude_def retain_partial_write_def q_def n_def case_prod_beta Let_def)
      moreover have "sink_ok (q\<lparr> p_warn_limit := x \<rparr>)" for x using q(2) by (simp add: sink_ok_def)
      ultimately show ?thesis
        using q(1) end_input_facts(7) by (simp add: release_input_def need_data_def)
    next
      case False
      then show ?thesis using n off(3) by simp
    qed
    then show thesis by (intro finished [of n "p_dsp (snd w)"]) (use f on acc in auto)
  qed
qed

text \<open>The cycle from the data block on.\<close>

lemma sink_block_ok:
  assumes "sink_ok (ds_port s)" "\<not> pb_is_closed B (p_dsp (ds_port s))" "pok (ds_properties s)" "stride_rate (ds_port s) \<noteq> None"
    and "sink_block B stride cfg_rate i b s = (status, s')"
  shows "sink_ok (ds_port s')"
    "(status = SPA_STATUS_OK \<and> p_io (ds_port s') = p_io (ds_port s))
      \<or> (status = SPA_STATUS_NEED_DATA \<and> p_io (ds_port s') = map_option (\<lambda>io. io\<lparr> io_status := SPA_STATUS_NEED_DATA \<rparr>) (p_io (ds_port s))
         \<and> xp_pending_offset (p_ext (ds_port s')) = 0 \<and> xp_pending_buffer (p_ext (ds_port s')) = None)"
proof -
  define out where "out port st \<longleftrightarrow> sink_ok port \<and> ((st = SPA_STATUS_OK \<and> p_io port = p_io (ds_port s))
      \<or> (st = SPA_STATUS_NEED_DATA \<and> p_io port = map_option (\<lambda>io. io\<lparr> io_status := SPA_STATUS_NEED_DATA \<rparr>) (p_io (ds_port s))
         \<and> xp_pending_offset (p_ext port) = 0 \<and> xp_pending_buffer (p_ext port) = None))" for port and st :: "32 word"
  have rel: "out (ds_port (snd (release_port B t))) (fst (release_port B t))"
    if "sink_ok (ds_port t)" "p_io (ds_port t) = p_io (ds_port s)" for t :: "('d, 'p, 'w) sink_state"
    using release_facts [OF that(1)] that(2) by (simp add: out_def release_port_def case_prod_beta)
  let ?in = "input_slice b"
  let ?pp = "prepare_pending_write B i (length ?in) (ds_port s)"
  note pp = prepare_pending_write_facts [OF assms(1), of i "length ?in"]
  define t where "t = (if ck_stride (db_chunk b) = as_i32 stride then s\<lparr> ds_port := snd ?pp \<rparr>
      else s\<lparr> ds_port := snd ?pp, ds_panic := True \<rparr>)"
  have t: "ds_port t = snd ?pp" "ds_properties t = ds_properties s" "ds_position t = ds_position s" by (simp_all add: t_def)
  have "out (ds_port s') status"
  proof (cases "as_u32 (length (drop (fst ?pp) ?in)) = 0")
    case True
    then show ?thesis using assms(5) rel [of "s\<lparr> ds_port := snd ?pp \<rparr>"] pp(1,3)
      by (auto simp: sink_block_def case_prod_beta Let_def)
  next
    case ne: False
    show ?thesis
    proof (cases "ds_position s")
      case None
      then have "(status, s') = release_port B t"
        using assms(5) ne by (simp add: sink_block_def t_def case_prod_beta Let_def split: if_splits)
      then show ?thesis using rel [of t] pp(1,3) t(1) by (metis fst_conv snd_conv)
    next
      case (Some position)
      define clock where "clock = pos_clock position"
      define period where "period = device_period_bytes (clk_target_duration clock) cfg_rate (fr_denom (clk_target_rate clock)) stride"
      define r where "r = retune_period B period stride (as_u32 (length (drop (fst ?pp) ?in))) (sx_cur_timestamp (ds_ext s)) (ds_port t)"
      define u where "u = t\<lparr> ds_port := snd r \<rparr>"
      define q where "q = (if fst r = RRebuild then queue_rebuild u else (False, u))"
      have okt: "sink_ok (ds_port t)" "\<not> pb_is_closed B (p_dsp (ds_port t))" using pp(1,4) t(1) assms(2) by simp_all
      note rf = retune_period_facts [OF okt, of period stride "as_u32 (length (drop (fst ?pp) ?in))" "sx_cur_timestamp (ds_ext s)", folded r_def]
      have uq: "ds_port (snd q) = (if fst q then (snd r)\<lparr> p_rebuild_pending := True \<rparr> else snd r)" "ds_properties (snd q) = ds_properties s"
        using queue_rebuild_port [of u] t(2) by (auto simp: q_def u_def same_node_def)
      have eq: "(status, s') = (if fst q then release_port B (upd_port (\<lambda>port. port\<lparr> p_was_matching := False \<rparr>) (snd q))
          else sink_transfer B (ds_following t \<and> \<not> same_clock position (ds_clock_name t)) (fst r = Retuned) period stride clock ?in
                 (drop (fst ?pp) ?in) (snd q))"
        unfolding assms(5) [symmetric] using ne Some
        by (simp add: sink_block_def q_def u_def r_def t_def period_def clock_def case_prod_beta Let_def)
      show ?thesis
      proof (cases "fst q")
        case True
        let ?v = "upd_port (\<lambda>port. port\<lparr> p_was_matching := False \<rparr>) (snd q)"
        have "sink_ok (ds_port ?v)" "p_io (ds_port ?v) = p_io (ds_port s)"
          using rf(1,4) uq(1) True pp(3) t(1) by (simp_all add: sink_ok_def)
        then show ?thesis using rel [of ?v] eq True by (metis fst_conv snd_conv)
      next
        case False
        have p: "ds_port (snd q) = snd r" using uq(1) False by simp
        have sr: "stride_rate (ds_port (snd q)) \<noteq> None"
          using assms(4) pp(2) rf(3) t(1) p by (simp add: stride_rate_def port_frame_def)
        have pio: "p_io (ds_port (snd q)) = p_io (ds_port s)" using rf(4) p pp(3) t(1) by simp
        have tr: "sink_transfer B (ds_following t \<and> \<not> same_clock position (ds_clock_name t)) (fst r = Retuned) period stride clock ?in
                 (drop (fst ?pp) ?in) (snd q) = (status, s')" using eq False by simp
        have "sink_ok (ds_port (snd q))" "\<not> pb_is_closed B (p_dsp (ds_port (snd q)))" "pok (ds_properties (snd q))"
          using rf(1,2) p uq(2) assms(3) by simp_all
        from sink_transfer_ok [OF this sr tr] show ?thesis using pio by (auto simp: out_def)
      qed
    qed
  qed
  then show "sink_ok (ds_port s')"
    "(status = SPA_STATUS_OK \<and> p_io (ds_port s') = p_io (ds_port s))
      \<or> (status = SPA_STATUS_NEED_DATA \<and> p_io (ds_port s') = map_option (\<lambda>io. io\<lparr> io_status := SPA_STATUS_NEED_DATA \<rparr>) (p_io (ds_port s))
         \<and> xp_pending_offset (p_ext (ds_port s')) = 0 \<and> xp_pending_buffer (p_ext (ds_port s')) = None)"
    by (auto simp: out_def)
qed

end


section \<open>The sink node on a backend and its wake driver\<close>

text \<open>Registering a stream with the wake driver is the one operation the shared code runs on the device
  behind the direction's back. It must leave the device as it is.\<close>

locale sink_node = playback_backend B ok accepted pok
  for B :: "('d, 'p) playback_ops" and ok :: "'d \<Rightarrow> bool" and accepted :: "'d \<Rightarrow> byte list" and pok :: "'p \<Rightarrow> bool" +
  fixes W :: "('d, 'w) wake_ops"
    and ident :: "'d \<Rightarrow> 'i"
  assumes register_keeps: "ident (fst (snd (wk_register_wake W d w i b))) = ident d"
      "ok (fst (snd (wk_register_wake W d w i b))) = ok d"
      "pb_is_running B (fst (snd (wk_register_wake W d w i b))) = pb_is_running B d"
      "pb_is_closed B (fst (snd (wk_register_wake W d w i b))) = pb_is_closed B d"
      "accepted (fst (snd (wk_register_wake W d w i b))) = accepted d"
begin

text \<open>All of the device the protocol and the contract can see.\<close>

definition face :: "'d \<Rightarrow> 'i \<times> bool \<times> bool \<times> bool \<times> byte list" where
  "face d = (ident d, ok d, pb_is_running B d, pb_is_closed B d, accepted d)"

lemma swapped_sel:
  "ds_port (sink_on_device_swapped s) = clear_pending_write (upd_ext (\<lambda>x. x\<lparr> xp_xrun_timestamp := 0, xp_resuming := False,
       xp_rebuild_after_start := False \<rparr>) (reset_stream_epoch (ds_port s)))"
  by (simp add: sink_on_device_swapped_def)

lemma sink_direction_laws:
  "node_direction (sink_direction B W new_device configure) face"
proof
  show "face (fst (snd (wk_register_wake (dn_wake (sink_direction B W new_device configure)) d w i b))) = face d" for d w i b
    by (simp add: sink_direction_def face_def register_keeps)
  show "data_frame face s (dn_on_device_swapped (sink_direction B W new_device configure) s)" for s
    by (simp add: sink_direction_def sink_on_device_swapped_def data_frame_def has_timer_def
        clear_pending_write_def reset_stream_epoch_def)
qed

end

text \<open>Every device outside the port: in the mailbox, in the work slot, or deferred.\<close>

definition other_devices :: "('d, 'p, 'x, 's, 'w) data_state \<Rightarrow> 'd multiset" where
  "other_devices s = held swap_devices (sh_slot (ds_shared s))
     + held work_devices (ws_value (ds_rebuild_work s)) + held work_devices (ds_deferred_work s)"

lemma owned_split: "owned_devices s = add_mset (p_dsp (ds_port s)) (other_devices s)"
  by (simp add: owned_devices_def other_devices_def)

lemma queue_rebuild_others:
  "other_devices (snd (queue_rebuild s)) = other_devices s" "p_dsp (ds_port (snd (queue_rebuild s))) = p_dsp (ds_port s)"
  "ds_panic (snd (queue_rebuild s)) = ds_panic s" "same_node s (snd (queue_rebuild s))"
  "p_io (ds_port (snd (queue_rebuild s))) = p_io (ds_port s)" "p_ext (ds_port (snd (queue_rebuild s))) = p_ext (ds_port s)"
proof -
  have o: "owned_devices (snd (queue_rebuild s)) = owned_devices s" and p: "ds_panic (snd (queue_rebuild s)) = ds_panic s"
    using queue_rebuild_owned by blast+
  have d: "p_dsp (ds_port (snd (queue_rebuild s))) = p_dsp (ds_port s)" and n: "same_node s (snd (queue_rebuild s))"
    and i: "p_io (ds_port (snd (queue_rebuild s))) = p_io (ds_port s)" "p_ext (ds_port (snd (queue_rebuild s))) = p_ext (ds_port s)"
    using queue_rebuild_port [of s] by (auto split: if_splits)
  from o d show "other_devices (snd (queue_rebuild s)) = other_devices s" by (simp add: owned_split)
  show "p_dsp (ds_port (snd (queue_rebuild s))) = p_dsp (ds_port s)"
    "ds_panic (snd (queue_rebuild s)) = ds_panic s" "same_node s (snd (queue_rebuild s))"
    "p_io (ds_port (snd (queue_rebuild s))) = p_io (ds_port s)" "p_ext (ds_port (snd (queue_rebuild s))) = p_ext (ds_port s)"
    by (fact d p n i)+
qed

text \<open>What the device phase of a cycle leaves alone in the data state.\<close>

definition loop_frame :: "('d, 'p, 'x, 's, 'w) data_state \<Rightarrow> ('d, 'p, 'x, 's, 'w) data_state \<Rightarrow> bool" where
  "loop_frame s s' \<longleftrightarrow> other_devices s' = other_devices s \<and> ds_shared s' = ds_shared s
     \<and> has_timer s' = has_timer s \<and> ds_properties s' = ds_properties s \<and> ds_started s' = ds_started s
     \<and> ds_rebuild_takeover s' = ds_rebuild_takeover s"

lemma loop_frame_refl [simp]: "loop_frame s s"
  by (simp add: loop_frame_def)

lemma loop_frame_trans: "loop_frame s s' \<Longrightarrow> loop_frame s' s'' \<Longrightarrow> loop_frame s s''"
  by (simp add: loop_frame_def)

lemma port_only_frame [simp]: "loop_frame s (s\<lparr> ds_port := port \<rparr>)"
  by (simp add: loop_frame_def other_devices_def has_timer_def)

lemma release_port_frame: "loop_frame s (snd (release_port B s))" "ds_panic (snd (release_port B s)) = ds_panic s"
  by (simp_all add: release_port_def case_prod_beta)

lemma queue_rebuild_frame: "loop_frame s (snd (queue_rebuild s))"
  using queue_rebuild_others [of s] by (simp add: loop_frame_def same_node_def has_timer_def)

lemma sink_transfer_port_only:
  "loop_frame s (snd (sink_transfer B m r p st c i d s))" "ds_panic (snd (sink_transfer B m r p st c i d s)) = ds_panic s"
  by (auto simp: sink_transfer_def release_port_def case_prod_beta Let_def split: option.splits)

lemma sink_block_frame:
  "loop_frame s (snd (sink_block B stride rate i b s))"
  "ds_panic (snd (sink_block B stride rate i b s)) = (ds_panic s
     \<or> (ck_stride (db_chunk b) \<noteq> as_i32 stride
        \<and> as_u32 (length (drop (fst (prepare_pending_write B i (length (input_slice b)) (ds_port s))) (input_slice b))) \<noteq> 0))"
proof -
  let ?pp = "prepare_pending_write B i (length (input_slice b)) (ds_port s)"
  let ?bad = "ck_stride (db_chunk b) \<noteq> as_i32 stride"
  define t where "t = (if ?bad then s\<lparr> ds_port := snd ?pp, ds_panic := True \<rparr> else s\<lparr> ds_port := snd ?pp \<rparr>)"
  have t: "loop_frame s t" "ds_panic t = (ds_panic s \<or> ?bad)"
    by (auto simp: t_def loop_frame_def other_devices_def has_timer_def)
  have p: "loop_frame t (t\<lparr> ds_port := x \<rparr>)" "ds_panic (t\<lparr> ds_port := x \<rparr>) = ds_panic t" for x by simp_all
  have g: "loop_frame s (snd (sink_block B stride rate i b s)) \<and> ds_panic (snd (sink_block B stride rate i b s))
     = (ds_panic s \<or> (?bad \<and> as_u32 (length (drop (fst ?pp) (input_slice b))) \<noteq> 0))"
  proof (cases "as_u32 (length (drop (fst ?pp) (input_slice b))) = 0 \<or> ds_position s = None")
    case True
    then show ?thesis
      using release_port_frame [where B = B and s = "s\<lparr> ds_port := snd ?pp \<rparr>"] release_port_frame [where B = B and s = t] t
        loop_frame_trans [OF port_only_frame [of s "snd ?pp"]] loop_frame_trans [OF t(1)]
      by (auto simp: sink_block_def t_def case_prod_beta Let_def)
  next
    case False
    then obtain position where pos: "ds_position s = Some position" by auto
    define r where "r = retune_period B (device_period_bytes (clk_target_duration (pos_clock position)) rate
        (fr_denom (clk_target_rate (pos_clock position))) stride) stride (as_u32 (length (drop (fst ?pp) (input_slice b))))
        (sx_cur_timestamp (ds_ext s)) (snd ?pp)"
    define q where "q = (if fst r = RRebuild then queue_rebuild (t\<lparr> ds_port := snd r \<rparr>) else (False, t\<lparr> ds_port := snd r \<rparr>))"
    have q: "loop_frame s (snd q)" "ds_panic (snd q) = (ds_panic s \<or> ?bad)"
      using loop_frame_trans [OF t(1) loop_frame_trans [OF p(1) queue_rebuild_frame]] loop_frame_trans [OF t(1) p(1)]
        t(2) by (auto simp: q_def queue_rebuild_others(3))
    let ?v = "upd_port (\<lambda>port. port\<lparr> p_was_matching := False \<rparr>) (snd q)"
    have e: "sink_block B stride rate i b s = (if fst q then release_port B ?v
        else sink_transfer B (ds_following t \<and> \<not> same_clock position (ds_clock_name t)) (fst r = Retuned)
          (device_period_bytes (clk_target_duration (pos_clock position)) rate (fr_denom (clk_target_rate (pos_clock position))) stride)
          stride (pos_clock position) (input_slice b) (drop (fst ?pp) (input_slice b)) (snd q))"
      using False pos by (cases ?bad) (auto simp: sink_block_def q_def r_def t_def case_prod_beta Let_def)
    have v: "loop_frame s ?v" "ds_panic ?v = ds_panic (snd q)" using loop_frame_trans [OF q(1) port_only_frame] by simp_all
    show ?thesis unfolding e
      using loop_frame_trans [OF v(1) release_port_frame(1)] release_port_frame(2) [of B ?v] v(2) q
        loop_frame_trans [OF q(1) sink_transfer_port_only(1)] False by (auto simp: sink_transfer_port_only(2))
  qed
  then show "loop_frame s (snd (sink_block B stride rate i b s))"
    "ds_panic (snd (sink_block B stride rate i b s)) = (ds_panic s
     \<or> (?bad \<and> as_u32 (length (drop (fst ?pp) (input_slice b))) \<noteq> 0))" by blast+
qed

context sink_node
begin

text \<open>A node in good order: every device it owns is, its level target is within its goal, the mailbox
  holds what a worker deposits, a timer exists, and no assertion has failed.\<close>

definition node_ok :: "('d, 'p, 'w) sink_state \<Rightarrow> bool" where
  "node_ok s \<longleftrightarrow> (\<forall>d \<in># owned_devices s. ok d)
     \<and> xp_target_delay (p_ext (ds_port s)) \<le> xp_target_goal (p_ext (ds_port s))
     \<and> mailbox_ok (sh_slot (ds_shared s)) \<and> has_timer s \<and> pok (ds_properties s) \<and> \<not> ds_panic s"

lemma node_ok_split:
  "node_ok s \<longleftrightarrow> sink_ok (ds_port s) \<and> (\<forall>d \<in># other_devices s. ok d)
     \<and> mailbox_ok (sh_slot (ds_shared s)) \<and> has_timer s \<and> pok (ds_properties s) \<and> \<not> ds_panic s"
  by (auto simp: node_ok_def sink_ok_def owned_split)

lemma node_ok_frame:
  assumes "node_ok s" "loop_frame s s'" "sink_ok (ds_port s')" "\<not> ds_panic s'"
  shows "node_ok s'"
  using assms by (simp add: node_ok_split loop_frame_def)

lemma stamp_ok: "node_ok s \<Longrightarrow> node_ok (sink_stamp s) \<and> ds_port (sink_stamp s) = ds_port s
    \<and> ds_position (sink_stamp s) = ds_position s"
  by (auto simp: sink_stamp_def try_now_ns_def node_ok_def owned_devices_def has_timer_def Let_def split: list.splits)

lemma release_ok:
  "node_ok s \<Longrightarrow> node_ok (snd (release_port B s))"
  using release_facts(1) [of "ds_port s"] node_ok_frame [OF _ release_port_frame(1) [of s B]] release_port_frame(2) [of B s]
  by (auto simp: node_ok_split release_port_def case_prod_beta)

text \<open>The poll keeps the node in good order: the device it may swap in is one the node owned before.\<close>

lemma poll_ok:
  fixes new_device :: "string \<Rightarrow> 'd" and configure :: "stream_config \<Rightarrow> 'p \<Rightarrow> 'd \<Rightarrow> (int + configure_outcome) \<times> 'd"
  assumes s: "node_ok s"
  shows "node_ok (snd (poll_rebuild (sink_direction B W new_device configure) s))"
    "p_io (ds_port (snd (poll_rebuild (sink_direction B W new_device configure) s))) = p_io (ds_port s)"
proof -
  define D where "D = (sink_direction B W new_device configure :: ('d, 'p, sink_port_ext, sink_data_ext, 'w) direction)"
  define s' where "s' = snd (poll_rebuild D s)"
  have nd: "node_direction D face" unfolding D_def by (rule sink_direction_laws)
  have mb: "mailbox_ok (sh_slot (ds_shared s))" "has_timer s" using s by (simp_all add: node_ok_def)
  have cons: "owned_streams face s' = owned_streams face s" "ds_panic s' = ds_panic s"
    using node_direction.poll_conserves [OF nd mb] by (simp_all add: s'_def)
  have oks: "\<forall>d \<in># owned_devices s'. ok d"
  proof
    fix d assume "d \<in># owned_devices s'"
    then have "face d \<in># owned_streams face s'" by (simp add: owned_streams_def)
    then have "face d \<in># owned_streams face s" using cons(1) by simp
    then obtain e where "e \<in># owned_devices s" "face e = face d" unfolding owned_streams_def by auto
    then show "ok d" using s by (auto simp: face_def node_ok_def)
  qed
  have hk: "p_io (ds_port (dn_on_device_swapped D t)) = p_io (ds_port t)"
    "xp_target_delay (p_ext (ds_port (dn_on_device_swapped D t))) = xp_target_delay (p_ext (ds_port t))
     \<and> xp_target_goal (p_ext (ds_port (dn_on_device_swapped D t))) = xp_target_goal (p_ext (ds_port t))" for t
    by (simp_all add: D_def sink_direction_def sink_on_device_swapped_def clear_pending_write_def)
  have h: "p_io (ds_port s') = p_io (ds_port s) \<and> (xp_target_delay (p_ext (ds_port s')) = xp_target_delay (p_ext (ds_port s))
     \<and> xp_target_goal (p_ext (ds_port s')) = xp_target_goal (p_ext (ds_port s)))"
    unfolding s'_def
    by (rule poll_rebuild_hook [where R = "\<lambda>x y. xp_target_delay y = xp_target_delay x \<and> xp_target_goal y = xp_target_goal x"])
      (use hk in simp_all)
  have fr: "mailbox_ok (sh_slot (ds_shared s'))" "has_timer s'" "ds_properties s' = ds_properties s"
    using node_direction.poll_frame [OF nd mb(1)] mb(2) by (simp_all add: s'_def)
  show "node_ok (snd (poll_rebuild (sink_direction B W new_device configure) s))"
    "p_io (ds_port (snd (poll_rebuild (sink_direction B W new_device configure) s))) = p_io (ds_port s)"
    using oks h fr cons(2) s unfolding D_def [symmetric] s'_def [symmetric] by (simp_all add: node_ok_def)
qed

lemma release_port_out:
  assumes "node_ok s" "release_port B s = (status, s')"
  shows "node_ok s'" "status = SPA_STATUS_NEED_DATA"
    "p_io (ds_port s') = map_option (\<lambda>io. io\<lparr> io_status := SPA_STATUS_NEED_DATA \<rparr>) (p_io (ds_port s))"
    "xp_pending_offset (p_ext (ds_port s')) = 0" "xp_pending_buffer (p_ext (ds_port s')) = None"
proof -
  have o: "sink_ok (ds_port s)" using assms(1) by (simp add: node_ok_split)
  show "node_ok s'" using release_ok [OF assms(1)] assms(2) by simp
  show "status = SPA_STATUS_NEED_DATA"
    "p_io (ds_port s') = map_option (\<lambda>io. io\<lparr> io_status := SPA_STATUS_NEED_DATA \<rparr>) (p_io (ds_port s))"
    "xp_pending_offset (p_ext (ds_port s')) = 0" "xp_pending_buffer (p_ext (ds_port s')) = None"
    using release_facts [OF o] assms(2) by (auto simp: release_port_def case_prod_beta)
qed

lemma clr_ok:
  "node_ok s \<Longrightarrow> node_ok (upd_port (upd_ext (\<lambda>x. x\<lparr> xp_rebuild_after_start := False \<rparr>)) s)"
  by (rule node_ok_frame [OF _ port_only_frame]) (simp_all add: node_ok_split sink_ok_def)

text \<open>The whole cycle.\<close>

lemma process_ports_ok:
  fixes new_device :: "string \<Rightarrow> 'd" and configure :: "stream_config \<Rightarrow> 'p \<Rightarrow> 'd \<Rightarrow> (int + configure_outcome) \<times> 'd"
  assumes s: "node_ok s"
    and strides: "\<And>t stride rate i b. stride_rate (ds_port t) = Some (stride, rate) \<Longrightarrow>
        t = snd (poll_rebuild (sink_direction B W new_device configure) (sink_stamp s)) \<Longrightarrow>
        valid_data_block (ds_port t) i = Some b \<Longrightarrow> ck_stride (db_chunk b) = as_i32 stride"
    and run: "sink_process_ports (sink_direction B W new_device configure) B s = (status, s')"
  shows "node_ok s'"
    "(status = SPA_STATUS_HAVE_DATA \<and> freewheeling s
        \<and> p_io (ds_port s') = map_option (\<lambda>io. io\<lparr> io_status := SPA_STATUS_NEED_DATA \<rparr>) (p_io (ds_port s)))
      \<or> (status = SPA_STATUS_OK \<and> p_io (ds_port s') = p_io (ds_port s))
      \<or> (status = SPA_STATUS_NEED_DATA \<and> p_io (ds_port s') = map_option (\<lambda>io. io\<lparr> io_status := SPA_STATUS_NEED_DATA \<rparr>) (p_io (ds_port s))
         \<and> xp_pending_offset (p_ext (ds_port s')) = 0 \<and> xp_pending_buffer (p_ext (ds_port s')) = None)"
proof -
  define D where "D = (sink_direction B W new_device configure :: ('d, 'p, sink_port_ext, sink_data_ext, 'w) direction)"
  define out where "out t st \<longleftrightarrow> node_ok t \<and> ((st = SPA_STATUS_OK \<and> p_io (ds_port t) = p_io (ds_port s))
      \<or> (st = SPA_STATUS_NEED_DATA \<and> p_io (ds_port t) = map_option (\<lambda>io. io\<lparr> io_status := SPA_STATUS_NEED_DATA \<rparr>) (p_io (ds_port s))
         \<and> xp_pending_offset (p_ext (ds_port t)) = 0 \<and> xp_pending_buffer (p_ext (ds_port t)) = None))"
    for t :: "('d, 'p, 'w) sink_state" and st :: "32 word"
  have st: "node_ok (sink_stamp s)" "ds_port (sink_stamp s) = ds_port s" "freewheeling (sink_stamp s) = freewheeling s"
    using stamp_ok [OF s] by (simp_all add: freewheeling_def)
  show "node_ok s'" and "(status = SPA_STATUS_HAVE_DATA \<and> freewheeling s
        \<and> p_io (ds_port s') = map_option (\<lambda>io. io\<lparr> io_status := SPA_STATUS_NEED_DATA \<rparr>) (p_io (ds_port s)))
      \<or> (status = SPA_STATUS_OK \<and> p_io (ds_port s') = p_io (ds_port s))
      \<or> (status = SPA_STATUS_NEED_DATA \<and> p_io (ds_port s') = map_option (\<lambda>io. io\<lparr> io_status := SPA_STATUS_NEED_DATA \<rparr>) (p_io (ds_port s))
         \<and> xp_pending_offset (p_ext (ds_port s')) = 0 \<and> xp_pending_buffer (p_ext (ds_port s')) = None)"
  proof (atomize (full), cases "freewheeling s")
    case True
    let ?t = "sink_stamp s"
    have e: "status = SPA_STATUS_HAVE_DATA" "s' = upd_port (consume_freewheel_input B) ?t"
      using run True st(3) by (simp_all add: sink_process_ports_def Let_def)
    have o: "sink_ok (ds_port ?t)" using st(1) by (simp add: node_ok_split)
    have "node_ok s'" unfolding e(2)
      by (rule node_ok_frame [OF st(1) port_only_frame])
        (use end_input_facts(1) [OF o] st(1) in \<open>simp_all add: consume_freewheel_input_def need_data_def sink_ok_def node_ok_def\<close>)
    then show "node_ok s' \<and> ((status = SPA_STATUS_HAVE_DATA \<and> freewheeling s
        \<and> p_io (ds_port s') = map_option (\<lambda>io. io\<lparr> io_status := SPA_STATUS_NEED_DATA \<rparr>) (p_io (ds_port s)))
      \<or> (status = SPA_STATUS_OK \<and> p_io (ds_port s') = p_io (ds_port s))
      \<or> (status = SPA_STATUS_NEED_DATA \<and> p_io (ds_port s') = map_option (\<lambda>io. io\<lparr> io_status := SPA_STATUS_NEED_DATA \<rparr>) (p_io (ds_port s))
         \<and> xp_pending_offset (p_ext (ds_port s')) = 0 \<and> xp_pending_buffer (p_ext (ds_port s')) = None))"
      using e True end_input_facts(3) [OF o] st(2) by (simp add: consume_freewheel_input_def need_data_def)
  next
    case fw: False
    define t where "t = snd (poll_rebuild D (sink_stamp s))"
    have t: "node_ok t" "p_io (ds_port t) = p_io (ds_port s)"
      using poll_ok [OF st(1), of new_device configure] st(2) by (simp_all add: t_def D_def)
    have skip: "fst (poll_rebuild D (sink_stamp s)) \<Longrightarrow> (status, s') = release_port B t"
      using run fw st(3) by (simp add: sink_process_ports_def D_def t_def case_prod_beta Let_def)
    have rel: "out s' status" if "(status, s') = release_port B u" "node_ok u" "p_io (ds_port u) = p_io (ds_port s)" for u
      using release_port_out [OF that(2) that(1) [symmetric]] that(3) by (simp add: out_def)
    have qo: "node_ok (snd (queue_rebuild t))" "p_io (ds_port (snd (queue_rebuild t))) = p_io (ds_port s)"
      using node_ok_frame [OF t(1) queue_rebuild_frame] queue_rebuild_others [of t] t
      by (auto simp: node_ok_split sink_ok_def)
    have "out s' status"
    proof (cases "fst (poll_rebuild D (sink_stamp s))")
      case True
      then show ?thesis using rel [OF skip t] by blast
    next
      case go: False
      show ?thesis
      proof (cases "stride_rate (ds_port t)")
        case None
        then show ?thesis using run fw st(3) go t
          by (simp add: sink_process_ports_def D_def [symmetric] t_def [symmetric] out_def case_prod_beta Let_def)
      next
        case (Some sr)
        obtain stride rate where sr: "stride_rate (ds_port t) = Some (stride, rate)" using Some by (cases sr) auto
        let ?id = "case p_io (ds_port t) of Some io \<Rightarrow> io_buffer_id io | None \<Rightarrow> u32_max"
        let ?clr = "\<lambda>u :: ('d, 'p, 'w) sink_state. upd_port (upd_ext (\<lambda>x. x\<lparr> xp_rebuild_after_start := False \<rparr>)) u"
        have eq: "(status, s') = (if p_buffers (ds_port t) = [] \<or> p_io (ds_port t) = None then (SPA_STATUS_OK, t)
             else if pb_is_closed B (p_dsp (ds_port t)) then release_port B (snd (queue_rebuild t))
             else if xp_rebuild_after_start (p_ext (ds_port t))
             then release_port B (if fst (queue_rebuild t) then ?clr (snd (queue_rebuild t)) else snd (queue_rebuild t))
             else if map_option io_status (p_io (ds_port t)) \<noteq> Some SPA_STATUS_HAVE_DATA then release_port B t
             else (case valid_data_block (ds_port t) ?id of None \<Rightarrow> release_port B t
               | Some b \<Rightarrow> sink_block B stride rate ?id b t))"
          unfolding run [symmetric] D_def [symmetric] using fw st(3) go sr
          by (simp add: sink_process_ports_def t_def [symmetric] case_prod_beta Let_def cong: option.case_cong)
        have clr: "node_ok (?clr (snd (queue_rebuild t)))" "p_io (ds_port (?clr (snd (queue_rebuild t)))) = p_io (ds_port s)"
          using clr_ok [OF qo(1)] qo(2) by simp_all
        consider (a) "p_buffers (ds_port t) = [] \<or> p_io (ds_port t) = None"
          | (b) u where "(status, s') = release_port B u" "node_ok u" "p_io (ds_port u) = p_io (ds_port s)"
          | (c) b where "\<not> pb_is_closed B (p_dsp (ds_port t))" "valid_data_block (ds_port t) ?id = Some b"
              "(status, s') = sink_block B stride rate ?id b t"
          using eq t qo clr by (auto split: if_splits option.splits)
        then show ?thesis
        proof cases
          case a
          then show ?thesis using eq t by (simp add: out_def)
        next
          case (b u)
          then show ?thesis using rel by blast
        next
          case (c b)
          have o: "sink_ok (ds_port t)" "pok (ds_properties t)" "stride_rate (ds_port t) \<noteq> None"
            using t(1) sr by (simp_all add: node_ok_split)
          note bo = sink_block_ok [OF o(1) c(1) o(2,3) c(3) [symmetric]]
          have str: "ck_stride (db_chunk b) = as_i32 stride" by (rule strides [OF sr _ c(2)]) (simp add: t_def D_def)
          have fr: "loop_frame t s'" "ds_panic s' = ds_panic t"
            using sink_block_frame [where s = t and B = B and stride = stride and rate = rate and i = ?id and b = b] c(3) str by (metis snd_conv)+
          have "node_ok s'" using node_ok_frame [OF t(1) fr(1) bo(1)] fr(2) t(1) by (simp add: node_ok_def)
          then show ?thesis using bo(2) t(2) by (auto simp: out_def)
        qed
      qed
    qed
    then show "node_ok s' \<and> ((status = SPA_STATUS_HAVE_DATA \<and> freewheeling s
        \<and> p_io (ds_port s') = map_option (\<lambda>io. io\<lparr> io_status := SPA_STATUS_NEED_DATA \<rparr>) (p_io (ds_port s)))
      \<or> (status = SPA_STATUS_OK \<and> p_io (ds_port s') = p_io (ds_port s))
      \<or> (status = SPA_STATUS_NEED_DATA \<and> p_io (ds_port s') = map_option (\<lambda>io. io\<lparr> io_status := SPA_STATUS_NEED_DATA \<rparr>) (p_io (ds_port s))
         \<and> xp_pending_offset (p_ext (ds_port s')) = 0 \<and> xp_pending_buffer (p_ext (ds_port s')) = None))"
      by (auto simp: out_def)
  qed
qed

end

end
