(* ===== verification/OssSink.thy ===== *)
theory OssSink
  imports OssWake SinkNode
begin

text \<open>
  The playback node over the FreeBSD backend: \<open>sink_node\<close> is interpreted on the operations of
  \<open>DspWriter\<close> (theory \<open>OssPlayback\<close>) and of the kqueue wake driver (theory \<open>OssWake\<close>), so the facts the
  sink rests on are discharged by the model of the backend it runs on. \<open>sc\<close> is the build switch
  \<open>scaled\<close> of the ring policy, \<open>raw\<close> the descriptor number of a stream, and the two factory
  functions of the direction (a fresh closed device, and opening and configuring one) are arguments.
\<close>

type_synonym oss_sink_state = "(dsp_writer, oss_properties, oss_wake_driver) sink_state"

text \<open>All of a stream but its wake threshold and what the kernel is going to answer to plain ioctls.\<close>

definition stream_face :: "dsp_writer \<Rightarrow> dsp_writer" where
  "stream_face w = w\<lparr> w_wake_threshold := 0, w_kernel := (w_kernel w)\<lparr> k_ints := (\<lambda>_. []), k_trace := [] \<rparr> \<rparr>"

abbreviation oss_playback_wake :: "(dsp_writer \<Rightarrow> nat) \<Rightarrow> (dsp_writer, oss_wake_driver) wake_ops" where
  "oss_playback_wake raw \<equiv> oss_wake_ops (writer_register_wake raw)"

definition oss_sink_direction ::
    "bool \<Rightarrow> (dsp_writer \<Rightarrow> nat) \<Rightarrow> (string \<Rightarrow> dsp_writer)
       \<Rightarrow> (stream_config \<Rightarrow> oss_properties \<Rightarrow> dsp_writer \<Rightarrow> (int + configure_outcome) \<times> dsp_writer)
       \<Rightarrow> (dsp_writer, oss_properties, sink_port_ext, sink_data_ext, oss_wake_driver) direction" where
  "oss_sink_direction sc raw new_device configure =
     sink_direction (oss_playback sc) (oss_playback_wake raw) new_device configure"

lemma install_threshold_kernel:
  "install_wake_threshold c t n k = (r, c', k') \<Longrightarrow> k'\<lparr> k_ints := (\<lambda>_. []), k_trace := [] \<rparr> = k\<lparr> k_ints := (\<lambda>_. []), k_trace := [] \<rparr>"
  by (auto simp: install_wake_threshold_def set_low_water_def ioctl_int_def Let_def split: prod.splits if_splits)

lemma register_face: "stream_face (fst (snd (writer_register_wake raw w driver i b))) = stream_face w"
proof (cases "w_fd w")
  case False
  then show ?thesis by (simp add: writer_register_wake_def)
next
  case True
  obtain r c k where e: "install_wake_threshold (w_wake_threshold w) (playback_wake_threshold b) (wb_quantum_bytes b) (w_kernel w) = (r, c, k)"
    by (cases "install_wake_threshold (w_wake_threshold w) (playback_wake_threshold b) (wb_quantum_bytes b) (w_kernel w)") auto
  show ?thesis using True e install_threshold_kernel [OF e]
    by (cases r) (simp_all add: writer_register_wake_def stream_face_def case_prod_beta Let_def)
qed

text \<open>What the kernel took of a stream since its ring was last reset.\<close>

definition stream_taken :: "dsp_writer \<Rightarrow> byte list" where
  "stream_taken w = k_ring (w_kernel w)"

interpretation oss_sink: sink_node "oss_playback sc" writer_ok stream_taken properties_ok "oss_playback_wake raw" stream_face
  for sc raw
proof -
  have t: "stream_taken = (\<lambda>w. k_ring (w_kernel w))" by (simp add: fun_eq_iff stream_taken_def)
  have "playback_backend (oss_playback sc) writer_ok stream_taken properties_ok"
    unfolding t by (rule oss.playback_backend_axioms)
  moreover have "sink_node_axioms (oss_playback sc) writer_ok stream_taken (oss_playback_wake raw) stream_face"
    by unfold_locales (simp_all add: oss_wake_ops_def register_face writer_register_keeps stream_taken_def)
  ultimately show "sink_node (oss_playback sc) writer_ok stream_taken properties_ok (oss_playback_wake raw) stream_face"
    by (rule sink_node.intro)
qed

section \<open>The node in good order\<close>

definition oss_node_ok :: "oss_sink_state \<Rightarrow> bool" where
  "oss_node_ok s \<longleftrightarrow> (\<forall>w \<in># owned_devices s. writer_ok w)
     \<and> xp_target_delay (p_ext (ds_port s)) \<le> xp_target_goal (p_ext (ds_port s))
     \<and> mailbox_ok (sh_slot (ds_shared s)) \<and> has_timer s \<and> properties_ok (ds_properties s) \<and> \<not> ds_panic s"

lemma oss_node_ok_iff: "oss_sink.node_ok s = oss_node_ok s"
  by (simp add: oss_node_ok_def oss_sink.node_ok_def)

section \<open>A sample node\<close>

definition sample_sink_port :: "dsp_writer sink_port" where
  "sample_sink_port = \<lparr> p_config = Some \<lparr> sc_format = FMT_S16_LE, sc_rate = 48000, sc_channels = 2, sc_positions = [3, 4],
       sc_flags = 0, sc_stride = 4 \<rparr>,
     p_buffers = [Some \<lparr> sb_n_datas = 1, sb_data_0 = Some \<lparr> sd_memptr = True, sd_maxsize = 8, sd_data = Some [1, 2, 3, 4, 5, 6, 7, 8],
       sd_chunk = Some \<lparr> ck_offset = 0, ck_size = 8, ck_stride = 4, ck_flags = 0 \<rparr> \<rparr> \<rparr>],
     p_io = Some \<lparr> io_status = SPA_STATUS_HAVE_DATA, io_buffer_id = 0 \<rparr>, p_rate_match = None, p_dsp = sample_writer,
     p_dll = dll_default, p_setup_period = 0, p_bw_adapt = bw_adapt_default, p_delivery_quantum_bytes = 0,
     p_rebuild_pending = False, p_generation = 3, p_stream_token = 1, p_was_matching = False,
     p_warn_limit = rate_limit_new, p_pending_xrun = None, p_stream_wake = None, p_rebuild_required = False,
     p_xrun_tracker = tracker_default, p_ext = sink_port_ext_default \<rparr>"

definition sample_sink :: oss_sink_state where
  "sample_sink = \<lparr> ds_clock_reads = [Some 60000000], ds_clock = Some sample_clock,
     ds_position = Some \<lparr> pos_clock = sample_clock \<rparr>, ds_clock_name = [112], ds_main_loop = True,
     ds_stream_path = ''dsp0'', ds_timer_fd = Some (0, True), ds_timer_expired = [],
     ds_wake_driver = None, ds_wake_failed_stream = None, ds_ready_dispatching = False,
     ds_next_time = 50000000, ds_callbacks = Some 9, ds_port = sample_sink_port, ds_properties = properties_new True,
     ds_shared = \<lparr> sh_alive = True, sh_started = True, sh_generation = 3, sh_slot = None \<rparr>,
     ds_rebuild_work = \<lparr> ws_value = None, ws_closed = False, ws_stopping = False, ws_active = False \<rparr>,
     ds_deferred_work = None, ds_rebuild_takeover = False, ds_publication_epoch = 0,
     ds_pending_main_event = None, ds_started = True, ds_following = False,
     ds_ext = \<lparr> sx_cur_timestamp = 0, sx_old_timestamp = 0 \<rparr>, ds_panic = False \<rparr>"

lemma sample_sink_ok: "oss_node_ok sample_sink"
  using sample_writer_ok
  by (simp add: oss_node_ok_def sample_sink_def sample_sink_port_def owned_devices_def held_def mailbox_ok_def has_timer_def
      sink_port_ext_default_def properties_new_def properties_ok_def)

section \<open>One cycle\<close>

text \<open>C16. Every process cycle of the playback node leaves it in good order - every device it owns with
  its stream invariant, the level target within its goal, no assertion failed - and answers the host
  exactly one of three ways: it keeps the buffer (status OK, the io area as the host left it, the rest of
  the buffer due in the next cycle), it asks for the next one (NEED_DATA in the result and in the io
  area, nothing retained), or, freewheeling, it consumes the buffer without touching the device. This
  needs the host to announce the negotiated frame size as the stride of its chunks.\<close>

theorem sink_cycle_is_safe:
  assumes "oss_node_ok s"
    and "\<And>t stride rate i b. stride_rate (ds_port t) = Some (stride, rate) \<Longrightarrow>
        t = snd (poll_rebuild (oss_sink_direction sc raw new_device configure) (sink_stamp s)) \<Longrightarrow>
        valid_data_block (ds_port t) i = Some b \<Longrightarrow> ck_stride (db_chunk b) = as_i32 stride"
    and "sink_process_ports (oss_sink_direction sc raw new_device configure) (oss_playback sc) s = (status, s')"
  shows "oss_node_ok s'
    \<and> ((status = SPA_STATUS_HAVE_DATA \<and> freewheeling s
        \<and> p_io (ds_port s') = map_option (\<lambda>io. io\<lparr> io_status := SPA_STATUS_NEED_DATA \<rparr>) (p_io (ds_port s)))
      \<or> (status = SPA_STATUS_OK \<and> p_io (ds_port s') = p_io (ds_port s))
      \<or> (status = SPA_STATUS_NEED_DATA \<and> p_io (ds_port s') = map_option (\<lambda>io. io\<lparr> io_status := SPA_STATUS_NEED_DATA \<rparr>) (p_io (ds_port s))
         \<and> xp_pending_offset (p_ext (ds_port s')) = 0 \<and> xp_pending_buffer (p_ext (ds_port s')) = None))"
proof -
  have ok: "oss_sink.node_ok s" using assms(1) by (simp add: oss_node_ok_iff)
  note run = assms(3) [unfolded oss_sink_direction_def] and str = assms(2) [unfolded oss_sink_direction_def]
  have "oss_sink.node_ok s'"
    by (rule oss_sink.process_ports_ok(1) [OF ok _ run]) (rule str; assumption)
  moreover note oss_sink.process_ports_ok(2) [OF ok _ run]
  ultimately show ?thesis unfolding oss_node_ok_iff using str by blast
qed

lemma sample_poll:
  "ds_port (snd (poll_rebuild D (sink_stamp sample_sink))) = sample_sink_port"
  by (simp add: poll_rebuild_def flush_deferred_work_def swap_ready_def sink_stamp_def try_now_ns_def sample_sink_def
      case_prod_beta Let_def)

theorem sink_cycle_is_safe_witness:
  "oss_node_ok (snd (sink_process_ports (oss_sink_direction False (\<lambda>_. 7) (\<lambda>_. refusing_writer) (\<lambda>_ _ d. (Inl 16, d)))
     (oss_playback False) sample_sink))"
proof (rule sink_cycle_is_safe [OF sample_sink_ok _ prod.collapse [symmetric], THEN conjunct1])
  fix t stride rate i b
  assume "stride_rate (ds_port t) = Some (stride, rate)" "valid_data_block (ds_port t) i = Some b"
    "t = snd (poll_rebuild (oss_sink_direction False (\<lambda>_. 7) (\<lambda>_. refusing_writer) (\<lambda>_ _ d. (Inl 16, d))) (sink_stamp sample_sink))"
  moreover from this have "i = 0"
    using sample_poll [of "oss_sink_direction False (\<lambda>_. 7) (\<lambda>_. refusing_writer) (\<lambda>_ _ d. (Inl 16, d))"]
    by (auto simp: sample_sink_port_def valid_data_block_def split: if_splits)
  ultimately show "ck_stride (db_chunk b) = as_i32 stride"
    using sample_poll [of "oss_sink_direction False (\<lambda>_. 7) (\<lambda>_. refusing_writer) (\<lambda>_ _ d. (Inl 16, d))"]
    by (auto simp: sample_sink_port_def stride_rate_def valid_data_block_def as_i32_def split: if_splits)
qed

section \<open>Rebuilds\<close>

text \<open>C17. Polling for a rebuild completion neither loses nor duplicates a native stream: the streams held
  by the port, the mailbox, the worker's slot and the deferred work - with their kernel state and
  what was accepted so far - are the same before and after, whether the poll adopts a device, refuses a
  stale one, retires a dead one for a retry or falls back to a placeholder; and no assertion fails.\<close>

theorem poll_conserves_streams:
  assumes "mailbox_ok (sh_slot (ds_shared s))" "has_timer s"
  shows "image_mset stream_face (owned_devices (snd (poll_rebuild (oss_sink_direction sc raw new_device configure) s)))
      = image_mset stream_face (owned_devices s)
    \<and> ds_panic (snd (poll_rebuild (oss_sink_direction sc raw new_device configure) s)) = ds_panic s"
proof -
  let ?s' = "snd (poll_rebuild (oss_sink_direction sc raw new_device configure) s)"
  have "owned_streams (oss_sink.face sc) ?s' = owned_streams (oss_sink.face sc) s \<and> ds_panic ?s' = ds_panic s"
    unfolding oss_sink_direction_def by (rule node_direction.poll_conserves [OF oss_sink.sink_direction_laws assms])
  moreover have "image_mset stream_face M = image_mset fst (image_mset (oss_sink.face sc) M)" for M
    by (simp add: multiset.map_comp comp_def oss_sink.face_def)
  ultimately show ?thesis by (simp add: owned_streams_def)
qed

definition sample_completion :: "u64 \<Rightarrow> oss_sink_state" where
  "sample_completion g = sample_sink\<lparr> ds_shared := (ds_shared sample_sink)\<lparr> sh_slot :=
     Some \<lparr> dv_port_idx = 0, dv_generation = g, dv_outcome = SwapFailed refusing_writer \<rparr> \<rparr> \<rparr>"

theorem poll_conserves_streams_witness:
  "image_mset stream_face (owned_devices (snd (poll_rebuild (oss_sink_direction False (\<lambda>_. 7) (\<lambda>_. refusing_writer)
       (\<lambda>_ _ d. (Inl 16, d))) (sample_completion 3)))) = {# stream_face sample_writer, stream_face refusing_writer #}"
proof -
  have "mailbox_ok (sh_slot (ds_shared (sample_completion 3)))" "has_timer (sample_completion 3)"
    by (simp_all add: sample_completion_def mailbox_ok_def has_timer_def sample_sink_def)
  from poll_conserves_streams [OF this, of False "\<lambda>_. 7" "\<lambda>_. refusing_writer" "\<lambda>_ _ d. (Inl 16, d)"] show ?thesis
    by (simp add: owned_devices_def held_def swap_devices_def sample_completion_def sample_sink_def sample_sink_port_def)
qed

section \<open>The retained host buffer\<close>

text \<open>The transfers of the cycles that follow a partial write, as long as the host leaves its buffer where it
  is: each hands the device what it has not taken yet. What the cycles do before their transfer - finding
  the retained buffer again, retuning the period, polling for a rebuild - is not repeated here.\<close>

fun retry_cycles ::
    "bool \<Rightarrow> u32 \<Rightarrow> byte list \<Rightarrow> (bool \<times> bool \<times> u32 \<times> spa_io_clock) list \<Rightarrow> oss_sink_state \<Rightarrow> 32 word \<times> oss_sink_state" where
  "retry_cycles sc stride data [] s = (SPA_STATUS_OK, s)"
| "retry_cycles sc stride data ((matching, retuned, period, clock) # cs) s =
     (let (status, s) = sink_transfer (oss_playback sc) matching retuned period stride clock data
            (drop (xp_pending_offset (p_ext (ds_port s))) data) s
      in if status = SPA_STATUS_OK then retry_cycles sc stride data cs s else (status, s))"

definition handed_over :: "byte list \<Rightarrow> byte list \<Rightarrow> nat \<Rightarrow> 32 word \<Rightarrow> oss_sink_state \<Rightarrow> bool" where
  "handed_over before data off status s' \<longleftrightarrow>
   (status = SPA_STATUS_OK \<and> off \<le> xp_pending_offset (p_ext (ds_port s'))
      \<and> xp_pending_offset (p_ext (ds_port s')) \<le> length data
      \<and> k_ring (w_kernel (p_dsp (ds_port s'))) = before @ take (xp_pending_offset (p_ext (ds_port s'))) data)
   \<or> (status = SPA_STATUS_NEED_DATA \<and> (\<exists>w m. p_dsp (ds_port s') = snd (writer_end_buffer_sequence w)
      \<and> k_ring (w_kernel w) = before @ take m data \<and> off \<le> m \<and> m \<le> length data
      \<and> (m = length data \<or> p_rebuild_required (ds_port s'))))"

lemma handed_over_later:
  assumes "handed_over before data off' status s'" "off \<le> off'"
  shows "handed_over before data off status s'"
proof -
  have "handed_over before data off status s'" if "status = SPA_STATUS_OK"
    using assms that by (simp add: handed_over_def)
  moreover have "handed_over before data off status s'"
    if "status = SPA_STATUS_NEED_DATA" "p_dsp (ds_port s') = snd (writer_end_buffer_sequence w)"
    "k_ring (w_kernel w) = before @ take m data" "off' \<le> m" "m \<le> length data"
    "m = length data \<or> p_rebuild_required (ds_port s')" for w m
    using assms(2) that unfolding handed_over_def
    by (intro disjI2 [of _ "_ \<and> _"] conjI exI [of _ w] exI [of _ m]) simp_all
  ultimately show ?thesis using assms(1) unfolding handed_over_def by blast
qed

lemma retry_delivers:
  "oss_sink.sink_running sc (ds_port s) \<Longrightarrow> 0 < xp_pending_offset (p_ext (ds_port s)) \<Longrightarrow>
   xp_pending_offset (p_ext (ds_port s)) \<le> length data \<Longrightarrow> length data < 4294967296 \<Longrightarrow>
   k_ring (w_kernel (p_dsp (ds_port s))) = before @ take (xp_pending_offset (p_ext (ds_port s))) data \<Longrightarrow>
   retry_cycles sc stride data cs s = (status, s') \<Longrightarrow>
   handed_over before data (xp_pending_offset (p_ext (ds_port s))) status s'"
proof (induction sc stride data cs s rule: retry_cycles.induct)
  case (1 sc stride data s)
  then show ?case by (simp add: handed_over_def)
next
  case (2 sc stride data matching retuned period clock cs s)
  let ?off = "xp_pending_offset (p_ext (ds_port s))"
  obtain st t where tr: "sink_transfer (oss_playback sc) matching retuned period stride clock data (drop ?off data) s = (st, t)"
    by fastforce
  have take_more: "take ?off data @ take n (drop ?off data) = take (?off + n) data" for n by (simp add: take_add)
  have nz: "?off \<noteq> 0" using 2(3) by simp
  from 2(2) refl nz 2(4,5) tr show ?case
  proof (cases rule: oss_sink.transfer_continues)
    case (kept n)
    have step: "k_ring (w_kernel (p_dsp (ds_port t))) = before @ take (?off + n) data"
      using kept(3) 2(6) take_more by (simp add: stream_taken_def)
    have rest: "retry_cycles sc stride data cs t = (status, s')" using 2(7) tr kept(1) by simp
    have "handed_over before data (xp_pending_offset (p_ext (ds_port t))) status s'"
      by (rule 2(1) [OF tr [symmetric] refl kept(1) _ _ _ 2(5) _ rest])
        (use kept step 2(3) in \<open>simp_all add: oss_sink.sink_running_def\<close>)
    then show ?thesis by (rule handed_over_later) (simp add: kept(4))
  next
    case (finished n d)
    have "status = SPA_STATUS_NEED_DATA" "s' = t" using 2(7) tr finished(1) by simp_all
    moreover have "k_ring (w_kernel d) = before @ take (?off + n) data" using finished(3) 2(6) take_more by (simp add: stream_taken_def)
    ultimately show ?thesis using finished(2,4,5) by (auto simp: handed_over_def intro!: exI [of _ d] exI [of _ "?off + n"])
  qed
qed

text \<open>C18. A host buffer the device took only partly is delivered exactly once and in order: however many
  transfers it takes, whatever the device answers to each - partial writes, errors, underruns - and
  whatever role, period and clock its cycle has, the kernel receives the bytes of the buffer one after the
  other with nothing skipped, repeated or put between them, and the buffer goes back to the host only when
  the kernel has all of it or the stream is latched for a rebuild.\<close>

theorem retained_buffer_is_delivered_once:
  assumes "writer_ok (p_dsp (ds_port s))" "w_state (p_dsp (ds_port s)) = Running"
    "xp_target_delay (p_ext (ds_port s)) \<le> xp_target_goal (p_ext (ds_port s))"
    "off = xp_pending_offset (p_ext (ds_port s))" "0 < off" "off \<le> length data" "length data < 2 ^ 32"
    "k_ring (w_kernel (p_dsp (ds_port s))) = before @ take off data"
    "retry_cycles sc stride data cycles s = (status, s')"
  shows "(status = SPA_STATUS_OK \<and> off \<le> xp_pending_offset (p_ext (ds_port s'))
      \<and> xp_pending_offset (p_ext (ds_port s')) \<le> length data
      \<and> k_ring (w_kernel (p_dsp (ds_port s'))) = before @ take (xp_pending_offset (p_ext (ds_port s'))) data)
   \<or> (status = SPA_STATUS_NEED_DATA \<and> (\<exists>w m. p_dsp (ds_port s') = snd (writer_end_buffer_sequence w)
      \<and> k_ring (w_kernel w) = before @ take m data \<and> off \<le> m \<and> m \<le> length data
      \<and> (m = length data \<or> p_rebuild_required (ds_port s'))))"
proof -
  have "oss_sink.sink_running sc (ds_port s)"
    using assms(1-3) by (simp add: oss_sink.sink_running_def oss_sink.sink_ok_def)
  from retry_delivers [OF this] assms have "handed_over before data off status s'" by simp
  then show ?thesis unfolding handed_over_def .
qed

definition sample_partial :: oss_sink_state where
  "sample_partial = sample_sink\<lparr> ds_port := sample_sink_port\<lparr> p_ext := sink_port_ext_default
     \<lparr> xp_pending_offset := 2, xp_pending_buffer := Some 0 \<rparr> \<rparr> \<rparr>"

theorem retained_buffer_is_delivered_once_witness:
  "let (status, s') = retry_cycles False 4 [7, 7, 1, 2, 3, 4, 5, 6] [(False, False, 4096, sample_clock)] sample_partial
   in (if status = SPA_STATUS_OK then k_ring (w_kernel (p_dsp (ds_port s'))) = take (xp_pending_offset (p_ext (ds_port s'))) [7, 7, 1, 2, 3, 4, 5, 6]
       else status = SPA_STATUS_NEED_DATA)"
proof -
  let ?r = "retry_cycles False 4 [7, 7, 1, 2, 3, 4, 5, 6] [(False, False, 4096, sample_clock)] sample_partial"
  have "writer_ok (p_dsp (ds_port sample_partial))" using sample_writer_ok
    by (simp add: sample_partial_def sample_sink_port_def)
  from retained_buffer_is_delivered_once [OF this _ _ refl, of "[7, 7, 1, 2, 3, 4, 5, 6]" "[]" False 4
      "[(False, False, 4096, sample_clock)]" "fst ?r" "snd ?r"]
  show ?thesis unfolding case_prod_beta Let_def
    by (simp add: sample_partial_def sample_sink_def sample_sink_port_def sample_writer_def sample_kernel_def writer_new_def
        sink_port_ext_default_def del: retry_cycles.simps split: if_splits) auto
qed

end
