(* ===== verification/OssFormat.thy ===== *)
theory OssFormat
  imports OssConfig FormatNeg OssSink
begin

text \<open>
  Format negotiation of the playback node over the FreeBSD backend: the direction of
  node/sink/mod.rs with the real factory functions, a fresh closed \<open>DspWriter\<close> and
  \<open>configure_playback\<close> (crates/freebsd-oss/src/freebsd\_oss/backend.rs). \<open>k\<close> is what the kernel is going
  to answer on the descriptor of the stream the install opens, \<open>dq\<close> the delivery quantum it reads.
\<close>

definition oss_try_open_configure ::
    "bool \<Rightarrow> delivery_quantum \<Rightarrow> stream_config \<Rightarrow> oss_properties \<Rightarrow> dsp_writer \<Rightarrow> (int + configure_outcome) \<times> dsp_writer" where
  "oss_try_open_configure scaled dq config properties stream = configure_playback scaled dq config stream"

definition oss_playback_direction ::
    "bool \<Rightarrow> (dsp_writer \<Rightarrow> nat) \<Rightarrow> delivery_quantum \<Rightarrow> oss_kernel
       \<Rightarrow> (dsp_writer, oss_properties, sink_port_ext, sink_data_ext, oss_wake_driver) direction" where
  "oss_playback_direction scaled raw dq k =
     oss_sink_direction scaled raw (\<lambda>_. writer_new dq k) (oss_try_open_configure scaled dq)"

section \<open>Facts about an install\<close>

lemma fresh_writer: "k_trace k = [] \<Longrightarrow> writer_base (writer_new dq k) \<and> w_state (writer_new dq k) = Closed"
  by (simp add: writer_new_def writer_base_def)

lemma configure_contract:
  assumes "writer_base w" "w_state w = Closed" "1 \<le> sc_channels config" "sc_channels config \<le> 64"
    and "configure_playback scaled dq config w = (c, w')"
  shows "writer_ok w' \<and> (case c of Inl _ \<Rightarrow> w_state w' = Closed
    | Inr out \<Rightarrow> w_state w' = Setup \<and> adopts config (w_stride w') (feeder_rate_round (w_kernel w)) out)"
  using playback_configuration_is_what_runs [OF assms(1-3), of scaled dq] assms(4,5) by (cases c) simp_all

lemma rounding_le: "feeder_rate_round k \<le> 500"
  by (simp add: feeder_rate_round_def)

text \<open>Whatever the opens of an install answer, the device that ends up in the port is in order: closed
  after a failure, set up with the adopted configuration after a success.\<close>

lemma install_opened:
  assumes "node_direction.opened (oss_playback_direction scaled raw dq k) config props (c, d)"
    and "k_trace k = []" "1 \<le> sc_channels config" "sc_channels config \<le> 64"
  shows "writer_ok d \<and> (case c of Inl _ \<Rightarrow> w_state d = Closed
    | Inr out \<Rightarrow> w_state d = Setup \<and> (\<exists>hz \<le> 500. adopts config (w_stride d) hz out))"
proof -
  have nd: "node_direction (oss_playback_direction scaled raw dq k) (oss_sink.face scaled)"
    unfolding oss_playback_direction_def oss_sink_direction_def by (rule oss_sink.sink_direction_laws)
  have sel: "dn_try_open_configure (oss_playback_direction scaled raw dq k) = (\<lambda>config _. configure_playback scaled dq config)"
    "dn_new (oss_playback_direction scaled raw dq k) = (\<lambda>_. writer_new dq k)"
    by (simp_all add: oss_playback_direction_def oss_sink_direction_def sink_direction_def oss_try_open_configure_def fun_eq_iff)
  note fresh = fresh_writer [OF assms(2), of dq]
  let ?new = "configure_playback scaled dq config (writer_new dq k)"
  have "(c, d) = ?new \<or> (\<exists>d0. ?new = (Inl EBUSY_code, d0) \<and> (c, d) = configure_playback scaled dq config d0)"
    using assms(1) unfolding node_direction.opened_def [OF nd] sel by blast
  then obtain w where w: "writer_base w" "w_state w = Closed" "configure_playback scaled dq config w = (c, d)"
  proof
    assume "(c, d) = ?new"
    then show thesis using that [of "writer_new dq k"] fresh by simp
  next
    assume "\<exists>d0. ?new = (Inl EBUSY_code, d0) \<and> (c, d) = configure_playback scaled dq config d0"
    then obtain d0 where d0: "?new = (Inl EBUSY_code, d0)" "configure_playback scaled dq config d0 = (c, d)" by metis
    have "writer_ok d0 \<and> w_state d0 = Closed"
      using configure_contract [OF _ _ assms(3,4) d0(1)] fresh by simp
    then show thesis using that [of d0] d0(2) by (simp add: writer_ok_def)
  qed
  show ?thesis using configure_contract [OF w(1,2) assms(3,4) w(3)] rounding_le [of "w_kernel w"]
    by (auto split: sum.splits)
qed

lemma face_sel: "stream_face d = stream_face e \<Longrightarrow> w_state d = w_state e \<and> w_stride d = w_stride e"
  by (cases d; cases e) (simp add: stream_face_def)

text \<open>What an install leaves of the node: the node in order if its device is, and one of three outcomes.\<close>

lemma oss_direction_laws: "node_direction (oss_playback_direction scaled raw dq k) (oss_sink.face scaled)"
  unfolding oss_playback_direction_def oss_sink_direction_def by (rule oss_sink.sink_direction_laws)

lemma oss_face: "oss_sink.face scaled d = oss_sink.face scaled e \<Longrightarrow> stream_face d = stream_face e \<and> writer_ok d = writer_ok e"
  by (simp add: oss_sink.face_def)

lemmas install_facts = node_direction.install_device_spec [OF oss_direction_laws,
  where R = "\<lambda>x y. xp_target_delay y = xp_target_delay x \<and> xp_target_goal y = xp_target_goal x"]

lemma swap_keeps_targets:
  "xp_target_delay (p_ext (ds_port (dn_on_device_swapped (oss_playback_direction scaled raw dq k) u))) = xp_target_delay (p_ext (ds_port u))
 \<and> xp_target_goal (p_ext (ds_port (dn_on_device_swapped (oss_playback_direction scaled raw dq k) u))) = xp_target_goal (p_ext (ds_port u))"
  by (simp add: oss_playback_direction_def oss_sink_direction_def sink_direction_def sink_on_device_swapped_def clear_pending_write_def)

lemma installed_node_ok:
  assumes run: "install_device (oss_playback_direction scaled raw dq k) worker_idles config s = (res, retired, s')"
    and s: "oss_node_ok s" "\<not> ds_rebuild_takeover s" and w: "writer_ok (p_dsp (ds_port s'))"
  shows "oss_node_ok s'"
proof -
  note inst = install_facts [OF run s(2) swap_keeps_targets, simplified]
  have "owned_devices s' = add_mset (p_dsp (ds_port s')) (held work_devices (ws_value (ds_rebuild_work s)))"
    by (simp add: owned_devices_def inst(3) inst(4) inst(5))
  moreover have "\<forall>w \<in># held work_devices (ws_value (ds_rebuild_work s)). writer_ok w"
    using s(1) by (simp add: oss_node_ok_def owned_devices_def)
  moreover have "has_timer s" "\<not> ds_panic s" using s(1) by (simp_all add: oss_node_ok_def)
  moreover have "has_timer s'" "\<not> ds_panic s'" "properties_ok (ds_properties s')" "mailbox_ok (sh_slot (ds_shared s'))"
    using calculation(3,4) inst(4) inst(6) inst(7) inst(8) s(1) by (simp_all add: oss_node_ok_def mailbox_ok_def)
  moreover have "xp_target_delay (p_ext (ds_port s')) \<le> xp_target_goal (p_ext (ds_port s'))"
    using inst(2) s(1) by (simp add: oss_node_ok_def)
  ultimately show ?thesis using w by (simp only: oss_node_ok_def) simp
qed

lemma installed_outcome:
  assumes run: "install_device (oss_playback_direction scaled raw dq k) worker_idles config s = (res, retired, s')"
    and s: "oss_node_ok s" "\<not> ds_rebuild_takeover s" and k: "k_trace k = []" and ch: "1 \<le> sc_channels config" "sc_channels config \<le> 64"
  obtains (running) out hz where "p_config (ds_port s') = Some (co_actual_config out)" "w_state (p_dsp (ds_port s')) = Setup" "hz \<le> 500"
      "adopts config (w_stride (p_dsp (ds_port s'))) hz out" "res = 0 \<or> res = 1" "writer_ok (p_dsp (ds_port s'))"
    | (closed) "p_config (ds_port s') = None" "w_state (p_dsp (ds_port s')) = Closed" "writer_ok (p_dsp (ds_port s'))"
    | (kept) "res = EIO_code" "p_config (ds_port s') = p_config (ds_port s)"
      "stream_face (p_dsp (ds_port s')) = stream_face (p_dsp (ds_port s))" "writer_ok (p_dsp (ds_port s'))"
proof -
  let ?D = "oss_playback_direction scaled raw dq k" and ?face = "oss_sink.face scaled"
  note inst = install_facts(1) [OF run s(2) swap_keeps_targets, simplified]
  show thesis
  proof (rule disjE [OF inst])
    assume a: "\<not> worker_idles \<and> res = EIO_code \<and> ?face (p_dsp (ds_port s')) = ?face (p_dsp (ds_port s))
      \<and> p_config (ds_port s') = p_config (ds_port s)"
    have "writer_ok (p_dsp (ds_port s))" using s(1) by (simp add: oss_node_ok_def owned_devices_def)
    then show thesis using kept a oss_face [of scaled "p_dsp (ds_port s')" "p_dsp (ds_port s)"] by blast
  next
    assume "\<exists>c d. node_direction.opened ?D config (ds_properties s) (c, d) \<and> ?face (p_dsp (ds_port s')) = ?face d
      \<and> p_config (ds_port s') = (case c of Inl _ \<Rightarrow> None | Inr out \<Rightarrow> Some (co_actual_config out))
      \<and> res = (case c of Inl err \<Rightarrow> err | Inr out \<Rightarrow> if adjustment_is_empty (co_adjusted out) then 0 else 1)"
    then obtain c d where cd: "node_direction.opened ?D config (ds_properties s) (c, d)" "?face (p_dsp (ds_port s')) = ?face d"
      "p_config (ds_port s') = (case c of Inl _ \<Rightarrow> None | Inr out \<Rightarrow> Some (co_actual_config out))"
      "res = (case c of Inl err \<Rightarrow> err | Inr out \<Rightarrow> if adjustment_is_empty (co_adjusted out) then 0 else 1)"
      by metis
    note op = install_opened [OF cd(1) k ch]
    have f: "writer_ok (p_dsp (ds_port s'))" "w_state (p_dsp (ds_port s')) = w_state d" "w_stride (p_dsp (ds_port s')) = w_stride d"
      using oss_face [OF cd(2)] face_sel op by blast+
    show thesis
    proof (cases c)
      case (Inl err)
      then show ?thesis using closed cd(3) op f by simp
    next
      case (Inr out)
      then obtain hz where "w_state d = Setup" "hz \<le> 500" "adopts config (w_stride d) hz out" using op by auto
      then show ?thesis using running [of out hz] cd(3,4) Inr f by simp
    qed
  qed
qed

section \<open>The negotiated stream\<close>

text \<open>C29. Whatever Format object the host sets, however the device and the kernel answer, and whether or
  not the rebuild worker comes to rest, the playback node stays in good order and its takeover ends. One
  of three things has happened. A stream is set up in the port with the configuration the port now
  reports: the capabilities advertised at the time admit it up to the kernel's rate rounding, its frame
  size is the one the native stream counts in, its rate is published, and the host is told 0 or 1. Or
  the port holds a closed device and no configuration. Or it has kept its device and configuration, and
  the host is told an error.\<close>

theorem negotiated_format_is_what_runs:
  assumes s: "oss_node_ok s" "\<not> ds_rebuild_takeover s" and k: "k_trace k = []"
    and caps: "caps_usable (ms_caps m)" and pos: "\<forall>raw. pf_info p = Some raw \<longrightarrow> length (rf_position raw) = 64"
  shows "case port_set_format (oss_playback_direction scaled raw dq k) validate_config probe worker_idles flags (Some p) (m, s)
    of (res, _, m', s') \<Rightarrow>
       oss_node_ok s' \<and> \<not> ds_rebuild_takeover s'
     \<and> ((\<exists>config rate. (res = 0 \<or> res = 1) \<and> p_config (ds_port s') = Some config \<and> w_state (p_dsp (ds_port s')) = Setup
          \<and> sc_stride config = w_stride (p_dsp (ds_port s')) \<and> ms_port_rate m' = Some (1, sc_rate config)
          \<and> caps_admits (ms_caps m) (sc_format config) (sc_channels config) (config_positions config) rate
          \<and> \<bar>int (sc_rate config) - int rate\<bar> \<le> 500)
        \<or> p_config (ds_port s') = None \<and> w_state (p_dsp (ds_port s')) = Closed
        \<or> res < 0 \<and> p_config (ds_port s') = p_config (ds_port s) \<and> stream_face (p_dsp (ds_port s')) = stream_face (p_dsp (ds_port s)))"
proof -
  let ?D = "oss_playback_direction scaled raw dq k"
  obtain res retired m' s' where run: "port_set_format ?D validate_config probe worker_idles flags (Some p) (m, s) = (res, retired, m', s')"
    by (metis surj_pair)
  from run show ?thesis
  proof (cases rule: port_set_format_cases)
    case refused
    then show ?thesis using run s by simp
  next
    case (installed r snapped config res0 m1)
    have r: "1 \<le> rf_channels r" "rf_channels r \<le> 64" "length (rf_position r) = 64"
      using installed(1) pos by (auto simp: decode_format_def split: option.splits bool.splits if_splits)
    note req = requested_config_admitted [OF installed(2) caps r]
    note ok = installed_node_ok [OF installed(3) s] and idle = install_facts(9) [OF installed(3) s(2) swap_keeps_targets, simplified]
    from installed(3) s k conjunct1 [OF conjunct2 [OF req]] conjunct2 [OF conjunct2 [OF req]] show ?thesis
    proof (cases rule: installed_outcome)
      case (running out hz)
      have "config_positions (co_actual_config out) = config_positions config"
        using running(4) by (simp add: adopts_def config_positions_def)
      then have "caps_admits (ms_caps m) (sc_format (co_actual_config out)) (sc_channels (co_actual_config out))
          (config_positions (co_actual_config out)) (sc_rate config)"
        using req running(4) by (simp add: adopts_def)
      moreover have "\<bar>int (sc_rate (co_actual_config out)) - int (sc_rate config)\<bar> \<le> 500"
        "sc_stride (co_actual_config out) = w_stride (p_dsp (ds_port s'))"
        using running(3,4) by (auto simp: adopts_def)
      moreover have "res = 0 \<or> res = 1" using installed(4) running(5) by auto
      moreover have "ms_port_rate m' = Some (1, sc_rate (co_actual_config out))"
        using installed(5) running(1) by (simp add: publish_format_state_def Let_def)
      ultimately show ?thesis using run running(1,2) ok [OF running(6)] idle by auto
    next
      case closed
      then show ?thesis using run ok [OF closed(3)] idle by simp
    next
      case kept
      then show ?thesis using run ok [OF kept(4)] idle installed(4) by simp
    qed
  qed
qed

definition sample_caps :: stream_caps where
  "sample_caps = \<lparr>caps_configurations = [\<lparr>cfg_formats = [FMT_S16_LE, FMT_S32_LE],
       cfg_channels = DiscreteLayouts [\<lparr>ly_channels = 2, ly_positions = Some [3, 4]\<rparr>], cfg_rates = RateRange 8000 192000,
       cfg_preferred_rate = None, cfg_rate_tolerance = 25, cfg_conversion = ConvKernel,
       cfg_flags = \<lparr>cf_layout_reorder = True, cf_opaque_layout = True\<rparr>\<rparr>], caps_preferred = 0\<rparr>"

definition sample_main :: main_state where
  "sample_main = \<lparr>ms_caps = sample_caps, ms_caps_fallback = False, ms_enum_format_flags = 2, ms_format_flags = 4,
     ms_buffers_flags = 0, ms_port_rate = None, ms_publication_epoch = 0\<rparr>"

definition sample_request :: parsed_format where
  "sample_request = \<lparr>pf_raw_audio = Some True, pf_info = Some \<lparr>rf_format = FMT_S16_LE, rf_flags = 0, rf_rate = 48000,
     rf_channels = 2, rf_position = [4, 3] @ replicate 62 0\<rparr>\<rparr>"

theorem negotiated_format_is_what_runs_witness:
  "case port_set_format (oss_playback_direction False (\<lambda>_. 7) dq_unavailable accepting_kernel) validate_config None True 4
      (Some sample_request) (sample_main, sample_sink)
    of (res, _, m', s') \<Rightarrow>
       oss_node_ok s' \<and> \<not> ds_rebuild_takeover s'
     \<and> ((\<exists>config rate. (res = 0 \<or> res = 1) \<and> p_config (ds_port s') = Some config \<and> w_state (p_dsp (ds_port s')) = Setup
          \<and> sc_stride config = w_stride (p_dsp (ds_port s')) \<and> ms_port_rate m' = Some (1, sc_rate config)
          \<and> caps_admits (ms_caps sample_main) (sc_format config) (sc_channels config) (config_positions config) rate
          \<and> \<bar>int (sc_rate config) - int rate\<bar> \<le> 500)
        \<or> p_config (ds_port s') = None \<and> w_state (p_dsp (ds_port s')) = Closed
        \<or> res < 0 \<and> p_config (ds_port s') = p_config (ds_port sample_sink)
            \<and> stream_face (p_dsp (ds_port s')) = stream_face (p_dsp (ds_port sample_sink)))"
  by (rule negotiated_format_is_what_runs)
    (use sample_sink_ok in \<open>simp_all add: sample_sink_def accepting_kernel_def sample_kernel_def sample_main_def sample_caps_def
      sample_request_def caps_usable_def configuration_usable_def layout_usable_def\<close>)

end
