(* ===== verification/Mailbox.thy ===== *)
theory Mailbox
  imports RebuildWork
begin

text \<open>
  The two preallocated one-message cells of crates/core/src/node/rebuild/worker.rs at the level of their
  compare-and-swap protocol: the completion mailbox (\<open>exchange\<close> and \<open>take_swap\<close> of \<open>NodeShared\<close>) and the
  work slot (\<open>try_submit\<close>, \<open>take\<close> and \<open>close\<close> of \<open>RebuildWorkSlot\<close>). Threads take turns; a turn is one access to
  the state byte or to the value, so a value is moved out and in by separate turns and another thread can
  run between any two. Theory \<open>RebuildWork\<close> has the same operations as single steps on an atomic cell:
  the theorems here say that every interleaving of the protocol is a history of those. Memory orderings
  are taken as making a thread's writes visible in program order; both cells use the same state values.
\<close>

section \<open>The cell\<close>

abbreviation (input) SLOT_EMPTY :: nat where "SLOT_EMPTY \<equiv> 0"
abbreviation (input) SLOT_FULL :: nat where "SLOT_FULL \<equiv> 1"
abbreviation (input) SLOT_BUSY :: nat where "SLOT_BUSY \<equiv> 2"
abbreviation (input) WORK_CLOSED :: nat where "WORK_CLOSED \<equiv> 3"

record 'm slot_cell =
  sl_state :: nat
  sl_value :: "'m option"

definition slot_new :: "'m slot_cell" where
  "slot_new = \<lparr> sl_state = SLOT_EMPTY, sl_value = None \<rparr>"

datatype 'm slot_op = Exchange "'m option" | Take | Submit 'm | Close

text \<open>\<open>Panicked\<close> is the failed assertion of an exchange on a closed cell, \<open>Returned\<close> the command handed back.\<close>

datatype 'm slot_result = Previous "'m option" | Taken "'m option" | Accepted | Returned 'm | Shut | Panicked

text \<open>Where a thread is in an operation: about to load or to swap the state, to move the value out, to
  move the new value in, or to store the final state.\<close>

datatype 'm slot_stage =
    Idle
  | ExLoad "'m option"
  | ExSwap "'m option" nat
  | ExRead "'m option"
  | ExWrite "'m option" "'m option"
  | ExStore "'m option" "'m option"
  | TkSwap
  | TkRead
  | TkWrite "'m option"
  | TkStore "'m option"
  | SbSwap 'm
  | SbWrite 'm
  | SbStore 'm
  | ClSwap
  | Finished "'m slot_result"

fun begin_op :: "'m slot_op \<Rightarrow> 'm slot_stage" where
  "begin_op (Exchange new) = ExLoad new"
| "begin_op Take = TkSwap"
| "begin_op (Submit work) = SbSwap work"
| "begin_op Close = ClSwap"

text \<open>One turn of each operation; \<open>spurious\<close> is a weak compare-and-swap that fails for no reason.\<close>

fun exchange_turn :: "bool \<Rightarrow> 'm slot_stage \<Rightarrow> 'm slot_cell \<Rightarrow> 'm slot_stage \<times> 'm slot_cell" where
  "exchange_turn spurious (ExLoad new) c =
     (if sl_state c = SLOT_BUSY then (ExLoad new, c)
      else if sl_state c = SLOT_EMPTY \<or> sl_state c = SLOT_FULL then (ExSwap new (sl_state c), c)
      else (Finished Panicked, c))"
| "exchange_turn spurious (ExSwap new cur) c =
     (if sl_state c = cur \<and> \<not> spurious then (ExRead new, c\<lparr> sl_state := SLOT_BUSY \<rparr>) else (ExLoad new, c))"
| "exchange_turn spurious (ExRead new) c = (ExWrite new (sl_value c), c)"
| "exchange_turn spurious (ExWrite new prev) c = (ExStore new prev, c\<lparr> sl_value := new \<rparr>)"
| "exchange_turn spurious (ExStore new prev) c =
     (Finished (Previous prev), c\<lparr> sl_state := if new \<noteq> None then SLOT_FULL else SLOT_EMPTY \<rparr>)"
| "exchange_turn spurious stage c = (stage, c)"

fun take_turn :: "'m slot_stage \<Rightarrow> 'm slot_cell \<Rightarrow> 'm slot_stage \<times> 'm slot_cell" where
  "take_turn TkSwap c =
     (if sl_state c = SLOT_FULL then (TkRead, c\<lparr> sl_state := SLOT_BUSY \<rparr>) else (Finished (Taken None), c))"
| "take_turn TkRead c = (TkWrite (sl_value c), c)"
| "take_turn (TkWrite m) c = (TkStore m, c\<lparr> sl_value := None \<rparr>)"
| "take_turn (TkStore m) c = (Finished (Taken m), c\<lparr> sl_state := SLOT_EMPTY \<rparr>)"
| "take_turn stage c = (stage, c)"

fun submit_turn :: "'m slot_stage \<Rightarrow> 'm slot_cell \<Rightarrow> 'm slot_stage \<times> 'm slot_cell" where
  "submit_turn (SbSwap work) c =
     (if sl_state c = SLOT_EMPTY then (SbWrite work, c\<lparr> sl_state := SLOT_BUSY \<rparr>) else (Finished (Returned work), c))"
| "submit_turn (SbWrite work) c = (SbStore work, c\<lparr> sl_value := Some work \<rparr>)"
| "submit_turn (SbStore work) c = (Finished Accepted, c\<lparr> sl_state := SLOT_FULL \<rparr>)"
| "submit_turn stage c = (stage, c)"

fun close_turn :: "'m slot_stage \<Rightarrow> 'm slot_cell \<Rightarrow> 'm slot_stage \<times> 'm slot_cell" where
  "close_turn ClSwap c =
     (if sl_state c = SLOT_EMPTY then (Finished Shut, c\<lparr> sl_state := WORK_CLOSED \<rparr>)
      else if sl_state c = WORK_CLOSED then (Finished Shut, c) else (ClSwap, c))"
| "close_turn stage c = (stage, c)"

definition slot_turn :: "bool \<Rightarrow> 'm slot_stage \<Rightarrow> 'm slot_cell \<Rightarrow> 'm slot_stage \<times> 'm slot_cell" where
  "slot_turn spurious stage c =
     (case stage of
        Idle \<Rightarrow> (stage, c)
      | Finished _ \<Rightarrow> (stage, c)
      | TkSwap \<Rightarrow> take_turn stage c | TkRead \<Rightarrow> take_turn stage c
      | TkWrite _ \<Rightarrow> take_turn stage c | TkStore _ \<Rightarrow> take_turn stage c
      | SbSwap _ \<Rightarrow> submit_turn stage c | SbWrite _ \<Rightarrow> submit_turn stage c | SbStore _ \<Rightarrow> submit_turn stage c
      | ClSwap \<Rightarrow> close_turn stage c
      | _ \<Rightarrow> exchange_turn spurious stage c)"

text \<open>\<open>swap_ready\<close>: the plain load of the state before a take.\<close>

definition slot_ready :: "'m slot_cell \<Rightarrow> bool" where
  "slot_ready c \<longleftrightarrow> sl_state c = SLOT_FULL"

section \<open>Threads\<close>

text \<open>An entry of the history: the thread, its operation and result, and whether another thread held the
  cell when the operation gave up. An operation enters the history at the turn that makes it visible: the
  final store of the state, or the compare-and-swap of an operation that does not write.\<close>

type_synonym 'm slot_entry = "nat \<times> 'm slot_op \<times> 'm slot_result \<times> bool"

fun turn_entry :: "'m slot_stage \<Rightarrow> 'm slot_cell \<Rightarrow> ('m slot_op \<times> 'm slot_result \<times> bool) option" where
  "turn_entry (ExStore new prev) c = Some (Exchange new, Previous prev, False)"
| "turn_entry (TkStore m) c = Some (Take, Taken m, False)"
| "turn_entry (SbStore work) c = Some (Submit work, Accepted, False)"
| "turn_entry TkSwap c = (if sl_state c = SLOT_FULL then None else Some (Take, Taken None, sl_state c = SLOT_BUSY))"
| "turn_entry (SbSwap work) c =
     (if sl_state c = SLOT_EMPTY then None else Some (Submit work, Returned work, sl_state c = SLOT_BUSY))"
| "turn_entry ClSwap c =
     (if sl_state c = SLOT_EMPTY \<or> sl_state c = WORK_CLOSED then Some (Close, Shut, False) else None)"
| "turn_entry _ c = None"

record 'm slot_system =
  ss_cell :: "'m slot_cell"
  ss_stage :: "nat \<Rightarrow> 'm slot_stage"
  ss_history :: "'m slot_entry list"

definition slot_start :: "'m slot_system" where
  "slot_start = \<lparr> ss_cell = slot_new, ss_stage = (\<lambda>_. Idle), ss_history = [] \<rparr>"

datatype 'm slot_act = Call nat "'m slot_op" | Turn nat bool

text \<open>A thread begins an operation when it is not in one, or takes its next turn. The history is newest first.\<close>

fun slot_step :: "'m slot_act \<Rightarrow> 'm slot_system \<Rightarrow> 'm slot_system" where
  "slot_step (Call t oper) y =
     (case ss_stage y t of
        Idle \<Rightarrow> y\<lparr> ss_stage := (ss_stage y)(t := begin_op oper) \<rparr>
      | Finished _ \<Rightarrow> y\<lparr> ss_stage := (ss_stage y)(t := begin_op oper) \<rparr>
      | _ \<Rightarrow> y)"
| "slot_step (Turn t spurious) y =
     (let (stage, c) = slot_turn spurious (ss_stage y t) (ss_cell y)
      in \<lparr> ss_cell = c, ss_stage = (ss_stage y)(t := stage),
           ss_history = (case turn_entry (ss_stage y t) (ss_cell y) of
              Some (oper, result, contended) \<Rightarrow> (t, oper, result, contended) # ss_history y | None \<Rightarrow> ss_history y) \<rparr>)"

definition slot_run :: "'m slot_act list \<Rightarrow> 'm slot_system" where
  "slot_run acts = fold slot_step acts slot_start"

section \<open>Who holds the cell\<close>

fun holds :: "'m slot_stage \<Rightarrow> bool" where
  "holds (ExRead _) = True" | "holds (ExWrite _ _) = True" | "holds (ExStore _ _) = True"
| "holds TkRead = True" | "holds (TkWrite _) = True" | "holds (TkStore _) = True"
| "holds (SbWrite _) = True" | "holds (SbStore _) = True"
| "holds _ = False"

text \<open>What a holder relies on.\<close>

fun stage_fits :: "'m slot_stage \<Rightarrow> 'm option \<Rightarrow> bool" where
  "stage_fits (ExSwap new cur) v = (cur = SLOT_EMPTY \<or> cur = SLOT_FULL)"
| "stage_fits (ExWrite new prev) v = (v = prev)"
| "stage_fits (ExStore new prev) v = (v = new)"
| "stage_fits TkRead v = (v \<noteq> None)"
| "stage_fits (TkWrite m) v = (v = m \<and> m \<noteq> None)"
| "stage_fits (TkStore m) v = (v = None \<and> m \<noteq> None)"
| "stage_fits (SbWrite work) v = (v = None)"
| "stage_fits (SbStore work) v = (v = Some work)"
| "stage_fits _ v = True"

definition cell_fits :: "'m slot_cell \<Rightarrow> bool" where
  "cell_fits c \<longleftrightarrow> sl_state c \<le> WORK_CLOSED \<and> (sl_state c = SLOT_FULL \<longrightarrow> sl_value c \<noteq> None)
     \<and> (sl_state c = SLOT_EMPTY \<or> sl_state c = WORK_CLOSED \<longrightarrow> sl_value c = None)"

text \<open>The result of a finished operation is the thread's newest entry.\<close>

definition last_result :: "nat \<Rightarrow> 'm slot_entry list \<Rightarrow> 'm slot_result option" where
  "last_result t es = map_option (\<lambda>(_, _, r, _). r) (List.find (\<lambda>e. fst e = t) es)"

fun stage_recorded :: "'m slot_stage \<Rightarrow> 'm slot_result option \<Rightarrow> bool" where
  "stage_recorded (Finished Panicked) r = True"
| "stage_recorded (Finished result) r = (r = Some result)"
| "stage_recorded _ r = True"

definition protocol_ok :: "'m slot_system \<Rightarrow> bool" where
  "protocol_ok y \<longleftrightarrow>
     (\<forall>t u. holds (ss_stage y t) \<longrightarrow> holds (ss_stage y u) \<longrightarrow> t = u)
   \<and> ((\<exists>t. holds (ss_stage y t)) \<longleftrightarrow> sl_state (ss_cell y) = SLOT_BUSY)
   \<and> cell_fits (ss_cell y)
   \<and> (\<forall>t. stage_fits (ss_stage y t) (sl_value (ss_cell y)))
   \<and> (\<forall>t. stage_recorded (ss_stage y t) (last_result t (ss_history y)))"

lemma stage_fits_free: "\<not> holds st \<Longrightarrow> stage_fits st v = stage_fits st v'"
  by (cases st) auto

text \<open>One turn of one thread, seen from the cell.\<close>

lemma turn_cell:
  assumes "slot_turn spurious st c = (st', c')" "cell_fits c" "stage_fits st (sl_value c)"
    "holds st \<Longrightarrow> sl_state c = SLOT_BUSY"
  shows "cell_fits c'" "stage_fits st' (sl_value c')" "holds st \<or> sl_value c' = sl_value c"
    "holds st' \<Longrightarrow> sl_state c' = SLOT_BUSY" "holds st' \<Longrightarrow> \<not> holds st \<Longrightarrow> sl_state c \<noteq> SLOT_BUSY"
    "holds st \<Longrightarrow> \<not> holds st' \<Longrightarrow> sl_state c' \<noteq> SLOT_BUSY"
    "\<not> holds st \<Longrightarrow> \<not> holds st' \<Longrightarrow> sl_state c' = SLOT_BUSY \<longleftrightarrow> sl_state c = SLOT_BUSY"
  using assms by (cases st; auto simp: slot_turn_def cell_fits_def split: if_splits)+

lemma turn_recorded:
  assumes "slot_turn spurious st c = (st', c')" "stage_recorded st r"
  shows "stage_recorded st' (case turn_entry st c of Some (oper, result, contended) \<Rightarrow> Some result | None \<Rightarrow> r)"
  using assms by (cases st) (auto simp: slot_turn_def split: if_splits)

lemma last_result_Cons: "last_result u ((t, oper, r, b) # es) = (if u = t then Some r else last_result u es)"
  by (simp add: last_result_def)

lemma begin_op_plain: "\<not> holds (begin_op oper)" "stage_fits (begin_op oper) v" "stage_recorded (begin_op oper) r"
  by (cases oper; simp)+

lemma slot_start_ok: "protocol_ok slot_start"
  by (simp add: protocol_ok_def slot_start_def slot_new_def cell_fits_def)

lemma slot_call_ok: "protocol_ok y \<Longrightarrow> protocol_ok (slot_step (Call t oper) y)"
proof -
  assume ok: "protocol_ok y"
  define z where "z = y\<lparr> ss_stage := (ss_stage y)(t := begin_op oper) \<rparr>"
  have "protocol_ok z" if "\<not> holds (ss_stage y t)"
    using ok that unfolding protocol_ok_def z_def by (auto simp: begin_op_plain)
  moreover have "slot_step (Call t oper) y = z \<and> \<not> holds (ss_stage y t) \<or> slot_step (Call t oper) y = y"
    by (cases "ss_stage y t") (simp_all add: z_def)
  ultimately show ?thesis using ok by auto
qed

lemma slot_turn_ok:
  assumes ok: "protocol_ok y"
  shows "protocol_ok (slot_step (Turn t spurious) y)"
proof -
  obtain st' c' where tu: "slot_turn spurious (ss_stage y t) (ss_cell y) = (st', c')" by fastforce
  let ?st = "ss_stage y t" and ?c = "ss_cell y"
  define es where "es = (case turn_entry ?st ?c of
      Some (oper, result, contended) \<Rightarrow> (t, oper, result, contended) # ss_history y | None \<Rightarrow> ss_history y)"
  have z: "slot_step (Turn t spurious) y = \<lparr> ss_cell = c', ss_stage = (ss_stage y)(t := st'), ss_history = es \<rparr>"
    using tu by (simp add: es_def)
  have excl: "\<And>u v. holds (ss_stage y u) \<Longrightarrow> holds (ss_stage y v) \<Longrightarrow> u = v"
    and busy: "(\<exists>u. holds (ss_stage y u)) \<longleftrightarrow> sl_state ?c = SLOT_BUSY"
    and fits: "cell_fits ?c" "\<And>u. stage_fits (ss_stage y u) (sl_value ?c)"
    and rec: "\<And>u. stage_recorded (ss_stage y u) (last_result u (ss_history y))"
    using ok unfolding protocol_ok_def by blast+
  have held: "holds ?st \<Longrightarrow> sl_state ?c = SLOT_BUSY" using busy by blast
  note tc = turn_cell [OF tu fits(1) fits(2) held]
  have others: "\<not> holds (ss_stage y u)" if "u \<noteq> t" "holds ?st \<or> holds st'" for u
    using that excl [of u t] busy tc(5) by blast
  have "stage_fits (ss_stage y u) (sl_value c')" if "u \<noteq> t" for u
    using tc(3) others [OF that] fits(2) [of u] stage_fits_free [of "ss_stage y u" "sl_value c'" "sl_value ?c"] by metis
  moreover have "(\<exists>u. holds (((ss_stage y)(t := st')) u)) \<longleftrightarrow> sl_state c' = SLOT_BUSY"
  proof (cases "holds st'")
    case True
    then show ?thesis using tc(4) by auto
  next
    case False
    show ?thesis
    proof (cases "holds ?st")
      case True
      then show ?thesis using False tc(6) others by auto
    next
      case free: False
      have "(\<exists>u. holds (((ss_stage y)(t := st')) u)) \<longleftrightarrow> (\<exists>u. holds (ss_stage y u))"
        using False free by (metis fun_upd_apply)
      then show ?thesis using busy tc(7) False free by simp
    qed
  qed
  moreover have "stage_recorded st' (last_result t es)"
    using turn_recorded [OF tu rec [of t]] by (auto simp: es_def last_result_Cons split: option.splits)
  moreover have "last_result u es = last_result u (ss_history y)" if "u \<noteq> t" for u
    using that by (auto simp: es_def last_result_Cons split: option.split)
  ultimately show ?thesis
    unfolding z protocol_ok_def using tc(1,2) excl others rec by auto
qed

lemma slot_step_ok: "protocol_ok y \<Longrightarrow> protocol_ok (slot_step act y)"
  by (cases act) (simp_all only: slot_call_ok slot_turn_ok)

lemma slot_run_ok: "protocol_ok (slot_run acts)"
proof -
  have "protocol_ok y \<Longrightarrow> protocol_ok (fold slot_step acts y)" for y :: "'a slot_system"
    by (induction acts arbitrary: y) (simp_all add: slot_step_ok del: slot_step.simps)
  then show ?thesis by (simp add: slot_run_def slot_start_ok)
qed

section \<open>Refinement of an atomic cell\<close>

text \<open>A history is one of an atomic cell when each entry, oldest first, is a step of the cell with the
  recorded result.\<close>

fun atomic_history ::
    "('m slot_op \<times> 'm slot_result \<times> bool \<Rightarrow> 'c \<Rightarrow> 'c option) \<Rightarrow> 'm slot_entry list \<Rightarrow> 'c \<Rightarrow> 'c option" where
  "atomic_history f [] c = Some c"
| "atomic_history f ((t, entry) # es) c = Option.bind (atomic_history f es c) (f entry)"

fun stage_op :: "'m slot_stage \<Rightarrow> 'm slot_op option" where
  "stage_op Idle = None"
| "stage_op (ExLoad new) = Some (Exchange new)"
| "stage_op (ExSwap new cur) = Some (Exchange new)"
| "stage_op (ExRead new) = Some (Exchange new)"
| "stage_op (ExWrite new prev) = Some (Exchange new)"
| "stage_op (ExStore new prev) = Some (Exchange new)"
| "stage_op TkSwap = Some Take" | "stage_op TkRead = Some Take"
| "stage_op (TkWrite m) = Some Take" | "stage_op (TkStore m) = Some Take"
| "stage_op (SbSwap work) = Some (Submit work)"
| "stage_op (SbWrite work) = Some (Submit work)"
| "stage_op (SbStore work) = Some (Submit work)"
| "stage_op ClSwap = Some Close"
| "stage_op (Finished r) = None"

lemma begin_op_op: "stage_op (begin_op oper) = Some oper"
  by (cases oper) simp_all

lemma turn_op: "slot_turn spurious st c = (st', c') \<Longrightarrow> stage_op st' = None \<or> stage_op st' = stage_op st"
  by (cases st) (auto simp: slot_turn_def split: if_splits)

lemma entry_op: "turn_entry st c = Some (oper, result, contended) \<Longrightarrow> stage_op st = Some oper"
  by (cases st) (auto split: if_splits)

text \<open>Which thread may do which operation.\<close>

definition only_ops :: "(nat \<Rightarrow> 'm slot_op \<Rightarrow> bool) \<Rightarrow> 'm slot_system \<Rightarrow> bool" where
  "only_ops permitted y \<longleftrightarrow> (\<forall>t. pred_option (permitted t) (stage_op (ss_stage y t)))"

fun act_permitted :: "(nat \<Rightarrow> 'm slot_op \<Rightarrow> bool) \<Rightarrow> 'm slot_act \<Rightarrow> bool" where
  "act_permitted permitted (Call t oper) = permitted t oper"
| "act_permitted permitted (Turn t spurious) = True"

lemma step_only_ops: "only_ops permitted y \<Longrightarrow> act_permitted permitted act \<Longrightarrow> only_ops permitted (slot_step act y)"
proof (cases act)
  case (Call t oper)
  assume "only_ops permitted y" "act_permitted permitted act"
  then show ?thesis using Call
    by (cases "ss_stage y t") (auto simp: only_ops_def begin_op_op)
next
  case (Turn t spurious)
  assume ok: "only_ops permitted y"
  obtain st' c' where tu: "slot_turn spurious (ss_stage y t) (ss_cell y) = (st', c')" by fastforce
  have "pred_option (permitted t) (stage_op st')"
    using ok turn_op [OF tu] unfolding only_ops_def by (metis option.pred_inject(1))
  then show ?thesis using ok Turn tu by (simp add: only_ops_def)
qed

text \<open>What the cell still stands for while a thread is inside it: its operation has not happened before the
  final store.\<close>

fun before :: "'m slot_stage \<Rightarrow> 'm option \<Rightarrow> 'm option" where
  "before (ExStore new prev) v = prev"
| "before (TkStore m) v = m"
| "before (SbStore work) v = None"
| "before _ v = v"

fun holder_agrees :: "'m slot_op \<Rightarrow> 'm option \<Rightarrow> bool" where
  "holder_agrees (Submit work) v = (v = None)"
| "holder_agrees Take v = (v \<noteq> None)"
| "holder_agrees (Exchange new) v = True"
| "holder_agrees Close v = False"

lemma holder_before:
  "holds st \<Longrightarrow> stage_fits st v \<Longrightarrow> \<exists>oper. stage_op st = Some oper \<and> holder_agrees oper (before st v)"
  by (cases st) auto

definition stands_for :: "'m slot_system \<Rightarrow> 'm option \<Rightarrow> bool" where
  "stands_for y v \<longleftrightarrow> (\<forall>t. holds (ss_stage y t) \<longrightarrow> v = before (ss_stage y t) (sl_value (ss_cell y)))
     \<and> (sl_state (ss_cell y) \<noteq> SLOT_BUSY \<longrightarrow> v = sl_value (ss_cell y))"

text \<open>What an atomic cell with contents and a closed mark has to promise for the operations used on it. The
  last two laws are about an operation that gave up because another thread was in the cell.\<close>

locale atomic_cell =
  fixes f :: "'m slot_op \<times> 'm slot_result \<times> bool \<Rightarrow> 'c \<Rightarrow> 'c option"
    and cell :: "'m option \<Rightarrow> bool \<Rightarrow> 'c"
    and permitted :: "nat \<Rightarrow> 'm slot_op \<Rightarrow> bool"
  assumes exchange: "permitted t (Exchange new) \<Longrightarrow> f (Exchange new, Previous v, False) (cell v False) = Some (cell new False)"
    and take: "permitted t Take \<Longrightarrow> f (Take, Taken v, False) (cell v b) = Some (cell None b)"
    and submit: "permitted t (Submit w) \<Longrightarrow> f (Submit w, Accepted, False) (cell None False) = Some (cell (Some w) False)"
    and refused: "permitted t (Submit w) \<Longrightarrow> v \<noteq> None \<or> b \<Longrightarrow> f (Submit w, Returned w, False) (cell v b) = Some (cell v b)"
    and close: "permitted t Close \<Longrightarrow> f (Close, Shut, False) (cell None b) = Some (cell None True)"
    and take_missed: "permitted t Take \<Longrightarrow> permitted u oper \<Longrightarrow> t \<noteq> u \<Longrightarrow> holder_agrees oper v \<Longrightarrow>
      f (Take, Taken None, True) (cell v False) = Some (cell v False)"
    and submit_missed: "permitted t (Submit w) \<Longrightarrow> permitted u oper \<Longrightarrow> t \<noteq> u \<Longrightarrow> holder_agrees oper v \<Longrightarrow>
      f (Submit w, Returned w, True) (cell v False) = Some (cell v False)"
begin

definition in_step :: "'m slot_system \<Rightarrow> bool" where
  "in_step y \<longleftrightarrow> (\<exists>v. stands_for y v
     \<and> atomic_history f (ss_history y) (cell None False) = Some (cell v (sl_state (ss_cell y) = WORK_CLOSED)))"

text \<open>A turn of a thread outside the cell before and after.\<close>

lemma outside_turn:
  assumes "slot_turn spurious st c = (st', c')" "cell_fits c" "\<not> holds st" "\<not> holds st'"
    "pred_option (permitted t) (stage_op st)" "sl_state c \<noteq> SLOT_BUSY \<Longrightarrow> v = sl_value c"
    "sl_state c = SLOT_BUSY \<Longrightarrow> \<exists>u oper. t \<noteq> u \<and> permitted u oper \<and> holder_agrees oper v"
  shows "case turn_entry st c of
      None \<Rightarrow> sl_state c' = WORK_CLOSED \<longleftrightarrow> sl_state c = WORK_CLOSED
    | Some entry \<Rightarrow> f entry (cell v (sl_state c = WORK_CLOSED)) = Some (cell v (sl_state c' = WORK_CLOSED))"
proof -
  have states: "sl_state c \<noteq> SLOT_FULL \<Longrightarrow> sl_state c \<noteq> SLOT_BUSY \<Longrightarrow> v = None"
    "sl_state c \<noteq> SLOT_EMPTY \<Longrightarrow> sl_state c \<noteq> SLOT_BUSY \<Longrightarrow> v \<noteq> None \<or> sl_state c = WORK_CLOSED"
    using assms(2,6) by (auto simp: cell_fits_def)
  show ?thesis
  proof (cases st)
    case TkSwap
    then show ?thesis using assms(1,4,5,7) states(1) take [of t None] take_missed [of t]
      by (cases "sl_state c = SLOT_BUSY") (auto simp: slot_turn_def split: if_splits)
  next
    case (SbSwap w)
    then show ?thesis
      using assms(1,4,5,7) states(2) refused [of t w v "sl_state c = WORK_CLOSED"] submit_missed [of t w]
      by (cases "sl_state c = SLOT_BUSY") (auto simp: slot_turn_def split: if_splits)
  next
    case ClSwap
    then show ?thesis using assms(1,5) states(1) close [of t] by (auto simp: slot_turn_def split: if_splits)
  qed (use assms(1,3,4) in \<open>auto simp: slot_turn_def split: if_splits\<close>)
qed

text \<open>A turn that enters the cell, stays in it, or leaves it.\<close>

lemma entering_turn:
  assumes "slot_turn spurious st c = (st', c')" "stage_fits st (sl_value c)" "\<not> holds st" "holds st'"
  shows "turn_entry st c = None" "before st' (sl_value c') = sl_value c" "sl_state c \<noteq> WORK_CLOSED" "sl_state c' = SLOT_BUSY"
  using assms by (cases st; auto simp: slot_turn_def split: if_splits)+

lemma staying_turn:
  assumes "slot_turn spurious st c = (st', c')" "stage_fits st (sl_value c)" "holds st" "holds st'"
  shows "turn_entry st c = None" "before st' (sl_value c') = before st (sl_value c)" "sl_state c' = sl_state c"
  using assms by (cases st; auto simp: slot_turn_def split: if_splits)+

lemma leaving_turn:
  assumes "slot_turn spurious st c = (st', c')" "stage_fits st (sl_value c)" "holds st" "\<not> holds st'"
    "pred_option (permitted t) (stage_op st)"
  shows "\<exists>entry. turn_entry st c = Some entry \<and> f entry (cell (before st (sl_value c)) False) = Some (cell (sl_value c') False)"
    "sl_state c' \<noteq> WORK_CLOSED"
proof -
  show "\<exists>entry. turn_entry st c = Some entry \<and> f entry (cell (before st (sl_value c)) False) = Some (cell (sl_value c') False)"
    using assms by (cases st) (auto simp: slot_turn_def intro: exchange take submit split: if_splits)
  show "sl_state c' \<noteq> WORK_CLOSED" using assms(1,3,4) by (cases st) (auto simp: slot_turn_def split: if_splits)
qed

lemma turn_in_step:
  assumes ok: "protocol_ok y" and ops: "only_ops permitted y" and inv: "in_step y"
  shows "in_step (slot_step (Turn t spurious) y)"
proof -
  let ?st = "ss_stage y t" and ?c = "ss_cell y"
  obtain st' c' where tu: "slot_turn spurious ?st ?c = (st', c')" by fastforce
  define z where "z = slot_step (Turn t spurious) y"
  have z: "ss_cell z = c'" "ss_stage z = (ss_stage y)(t := st')"
    "ss_history z = (case turn_entry ?st ?c of Some entry \<Rightarrow> (t, entry) # ss_history y | None \<Rightarrow> ss_history y)"
    using tu by (auto simp: z_def split: option.split)
  obtain v where v: "stands_for y v"
    and hist: "atomic_history f (ss_history y) (cell None False) = Some (cell v (sl_state ?c = WORK_CLOSED))"
    using inv unfolding in_step_def by blast
  have excl: "\<And>u w. holds (ss_stage y u) \<Longrightarrow> holds (ss_stage y w) \<Longrightarrow> u = w"
    and busy: "(\<exists>u. holds (ss_stage y u)) \<longleftrightarrow> sl_state ?c = SLOT_BUSY"
    and fits: "cell_fits ?c" "\<And>u. stage_fits (ss_stage y u) (sl_value ?c)"
    using ok unfolding protocol_ok_def by blast+
  have held: "holds ?st \<Longrightarrow> sl_state ?c = SLOT_BUSY" using busy by blast
  have perm: "pred_option (permitted u) (stage_op (ss_stage y u))" for u using ops by (simp add: only_ops_def)
  note tc = turn_cell [OF tu fits(1) fits(2) held]
  have alone: "\<not> holds (ss_stage y u)" if "u \<noteq> t" "holds ?st \<or> holds st'" for u
    using that excl [of u t] busy tc(5) by blast
  have step: "in_step z" if "stands_for z w"
    "case turn_entry ?st ?c of None \<Rightarrow> cell v (sl_state ?c = WORK_CLOSED) = cell w (sl_state c' = WORK_CLOSED)
      | Some entry \<Rightarrow> f entry (cell v (sl_state ?c = WORK_CLOSED)) = Some (cell w (sl_state c' = WORK_CLOSED))" for w
    unfolding in_step_def using that hist by (intro exI [of _ w]) (auto simp: z split: option.splits)
  consider (outside) "\<not> holds ?st" "\<not> holds st'" | (enter) "\<not> holds ?st" "holds st'"
    | (stay) "holds ?st" "holds st'" | (leave) "holds ?st" "\<not> holds st'" by blast
  then have "in_step z"
  proof cases
    case outside
    have val: "sl_value c' = sl_value ?c" using tc(3) outside by simp
    have st: "sl_state c' = SLOT_BUSY \<longleftrightarrow> sl_state ?c = SLOT_BUSY" using tc(7) outside by blast
    have "stands_for z v" using v outside unfolding stands_for_def z val st by auto
    moreover have "\<exists>u oper. t \<noteq> u \<and> permitted u oper \<and> holder_agrees oper v" if b: "sl_state ?c = SLOT_BUSY"
    proof -
      obtain u where u: "holds (ss_stage y u)" using busy b by blast
      obtain oper where "stage_op (ss_stage y u) = Some oper" "holder_agrees oper (before (ss_stage y u) (sl_value ?c))"
        using holder_before [OF u fits(2)] by blast
      then show ?thesis using u outside(1) perm [of u] v unfolding stands_for_def by (metis option.pred_inject(2))
    qed
    moreover have "sl_state ?c \<noteq> SLOT_BUSY \<Longrightarrow> v = sl_value ?c" using v unfolding stands_for_def by blast
    ultimately show "in_step z" using step [of v] outside_turn [OF tu fits(1) outside perm [of t], of v]
      by (auto split: option.splits)
  next
    case enter
    note en = entering_turn [OF tu fits(2) enter]
    have "v = sl_value ?c" using v tc(5) enter unfolding stands_for_def by blast
    then have "stands_for z v" using enter alone en(2,4) unfolding stands_for_def z by auto
    then show "in_step z" using step [of v] en by simp
  next
    case stay
    note sy = staying_turn [OF tu fits(2) stay]
    have "v = before ?st (sl_value ?c)" using v stay(1) unfolding stands_for_def by blast
    then have "stands_for z v" using stay alone sy(2,3) held unfolding stands_for_def z by auto
    then show "in_step z" using step [of v] sy by simp
  next
    case leave
    note le = leaving_turn [OF tu fits(2) leave perm]
    have "v = before ?st (sl_value ?c)" using v leave(1) unfolding stands_for_def by blast
    moreover have "stands_for z (sl_value c')" using leave alone unfolding stands_for_def z by auto
    ultimately show "in_step z" using step [of "sl_value c'"] le held leave(1) by auto
  qed
  then show ?thesis by (simp only: z_def)
qed

lemma step_in_step:
  assumes "protocol_ok y" "only_ops permitted y" "in_step y"
  shows "in_step (slot_step act y)"
proof (cases act)
  case (Call t oper)
  have "in_step (y\<lparr> ss_stage := (ss_stage y)(t := begin_op oper) \<rparr>)" if "\<not> holds (ss_stage y t)"
  proof -
    obtain v where "stands_for y v" "atomic_history f (ss_history y) (cell None False) = Some (cell v (sl_state (ss_cell y) = WORK_CLOSED))"
      using assms(3) unfolding in_step_def by blast
    then show ?thesis using begin_op_plain(1) [of oper] unfolding in_step_def stands_for_def
      by (intro exI [of _ v]) auto
  qed
  then show ?thesis using assms(3) Call by (cases "ss_stage y t") simp_all
next
  case (Turn t spurious)
  then show ?thesis using turn_in_step [OF assms] by simp
qed

lemma run_in_step:
  assumes "list_all (act_permitted permitted) acts"
  shows "in_step (slot_run acts)"
proof -
  have "protocol_ok y \<Longrightarrow> only_ops permitted y \<Longrightarrow> in_step y \<Longrightarrow> in_step (fold slot_step acts y)" for y
    using assms
  proof (induction acts arbitrary: y)
    case Nil
    then show ?case by simp
  next
    case (Cons act acts)
    show ?case
      using Cons.IH [of "slot_step act y"] slot_step_ok [OF Cons.prems(1), of act] step_only_ops [OF Cons.prems(2), of act]
        step_in_step [OF Cons.prems(1-3), of act] Cons.prems(4) by simp
  qed
  from this [of slot_start] show ?thesis
    by (simp add: slot_run_def slot_start_ok only_ops_def)
      (simp add: slot_start_def slot_new_def in_step_def stands_for_def)
qed

end

section \<open>The mailbox\<close>

fun mailbox_op :: "nat \<Rightarrow> 'm slot_op \<Rightarrow> bool" where
  "mailbox_op t (Exchange new) = True"
| "mailbox_op t Take = True"
| "mailbox_op t (Submit work) = False"
| "mailbox_op t Close = False"

text \<open>An entry as a step of \<open>exchange\<close> or \<open>take_swap\<close> of theory \<open>RebuildWork\<close>; a take that met another thread
  in the cell may leave it alone.\<close>

fun mailbox_atomic ::
    "('d, 'p) device_swap slot_op \<times> ('d, 'p) device_swap slot_result \<times> bool \<Rightarrow> ('d, 'p) node_shared \<Rightarrow> ('d, 'p) node_shared option" where
  "mailbox_atomic (Exchange new, Previous prev, contended) sh =
     (if fst (exchange new sh) = prev then Some (snd (exchange new sh)) else None)"
| "mailbox_atomic (Take, Taken result, contended) sh =
     (if contended \<and> result = None then Some sh
      else if fst (take_swap sh) = result then Some (snd (take_swap sh)) else None)"
| "mailbox_atomic entry sh = None"

interpretation mailbox_cell: atomic_cell mailbox_atomic "\<lambda>v b. sh\<lparr> sh_slot := v \<rparr>" mailbox_op for sh
  by unfold_locales (simp_all add: exchange_def take_swap_def)

text \<open>A cell on which nothing closes is never closed, and no exchange fails its assertion.\<close>

definition never_closed :: "'m slot_system \<Rightarrow> bool" where
  "never_closed y \<longleftrightarrow> sl_state (ss_cell y) \<noteq> WORK_CLOSED \<and> (\<forall>t. ss_stage y t \<noteq> Finished Panicked)"

lemma slot_turn_open:
  assumes "slot_turn spurious st c = (st', c')" "cell_fits c" "sl_state c \<noteq> WORK_CLOSED" "stage_op st \<noteq> Some Close"
    "st \<noteq> Finished Panicked"
  shows "sl_state c' \<noteq> WORK_CLOSED \<and> st' \<noteq> Finished Panicked"
  using assms by (cases st) (auto simp: slot_turn_def cell_fits_def split: if_splits)

lemma slot_step_open:
  assumes "protocol_ok y" "only_ops mailbox_op y" "never_closed y"
  shows "never_closed (slot_step act y)"
proof (cases act)
  case (Call t oper)
  have "begin_op oper \<noteq> Finished Panicked" by (cases oper) simp_all
  then show ?thesis using assms(3) Call by (cases "ss_stage y t") (auto simp: never_closed_def)
next
  case (Turn t spurious)
  obtain st' c' where tu: "slot_turn spurious (ss_stage y t) (ss_cell y) = (st', c')" by fastforce
  have "cell_fits (ss_cell y)" using assms(1) by (simp add: protocol_ok_def)
  moreover have "stage_op (ss_stage y t) \<noteq> Some Close" using assms(2) unfolding only_ops_def
    by (metis mailbox_op.simps(4) option.pred_inject(2))
  ultimately have "sl_state c' \<noteq> WORK_CLOSED \<and> st' \<noteq> Finished Panicked"
    using slot_turn_open [OF tu] assms(3) by (simp add: never_closed_def)
  then show ?thesis using assms(3) Turn tu by (simp add: never_closed_def)
qed

lemma slot_run_open:
  assumes "list_all (act_permitted mailbox_op) acts"
  shows "never_closed (slot_run acts)"
proof -
  have "protocol_ok y \<Longrightarrow> only_ops mailbox_op y \<Longrightarrow> never_closed y \<Longrightarrow> never_closed (fold slot_step acts y)"
    for y :: "'a slot_system" using assms
  proof (induction acts arbitrary: y)
    case Nil
    then show ?case by simp
  next
    case (Cons act acts)
    show ?case
      using Cons.IH [of "slot_step act y"] slot_step_ok [OF Cons.prems(1), of act] step_only_ops [OF Cons.prems(2), of act]
        slot_step_open [OF Cons.prems(1-3), of act] Cons.prems(4) by simp
  qed
  from this [of slot_start] show ?thesis
    by (simp add: slot_run_def slot_start_ok only_ops_def) (simp add: slot_start_def slot_new_def never_closed_def)
qed

lemma finished_recorded: "stage_recorded (Finished r) x \<Longrightarrow> r \<noteq> Panicked \<Longrightarrow> x = Some r"
  by (cases r) simp_all

text \<open>C24. The completion mailbox behaves as one atomic cell, however the turns of any number of writers and
  takers interleave: the operations, in the order in which they took effect or gave up, are a run of the
  atomic \<open>exchange\<close> and \<open>take_swap\<close>, which ends in the contents of the cell when no thread is inside it,
  and in which a take may also find nothing while another thread is inside; and what an operation
  returned to its thread is what that run gave it. So a deposited completion is handed out exactly once,
  to its taker or back to a writer. The value is only touched under \<open>SLOT_BUSY\<close>, by one thread at a time,
  and at rest the hint of \<open>swap_ready\<close> is exact.\<close>

theorem mailbox_protocol_is_atomic:
  assumes "list_all (act_permitted mailbox_op) acts" "sh_slot sh = None"
  shows "let y = slot_run acts
   in (\<exists>v. atomic_history mailbox_atomic (ss_history y) sh = Some (sh\<lparr> sh_slot := v \<rparr>)
        \<and> (sl_state (ss_cell y) \<noteq> SLOT_BUSY \<longrightarrow> v = sl_value (ss_cell y)
             \<and> slot_ready (ss_cell y) = swap_ready (sh\<lparr> sh_slot := v \<rparr>)))
    \<and> (\<forall>t. case ss_stage y t of Finished r \<Rightarrow> last_result t (ss_history y) = Some r | _ \<Rightarrow> True)
    \<and> (\<forall>t u. holds (ss_stage y t) \<and> holds (ss_stage y u) \<longrightarrow> t = u)
    \<and> (sl_state (ss_cell y) = SLOT_BUSY \<longleftrightarrow> (\<exists>t. holds (ss_stage y t)))"
proof -
  define y where "y = slot_run acts"
  have ok: "protocol_ok y" unfolding y_def by (rule slot_run_ok)
  have no: "never_closed y" unfolding y_def by (rule slot_run_open [OF assms(1)])
  have "sh\<lparr> sh_slot := None \<rparr> = sh" using assms(2) by simp
  then obtain v where v: "stands_for y v" "atomic_history mailbox_atomic (ss_history y) sh = Some (sh\<lparr> sh_slot := v \<rparr>)"
    using mailbox_cell.run_in_step [OF assms(1), of sh] by (auto simp: y_def mailbox_cell.in_step_def)
  have "v = sl_value (ss_cell y) \<and> slot_ready (ss_cell y) = swap_ready (sh\<lparr> sh_slot := v \<rparr>)"
    if "sl_state (ss_cell y) \<noteq> SLOT_BUSY"
    using that v(1) ok no unfolding stands_for_def protocol_ok_def never_closed_def cell_fits_def slot_ready_def swap_ready_def
    by auto
  moreover have "case ss_stage y t of Finished r \<Rightarrow> last_result t (ss_history y) = Some r | _ \<Rightarrow> True" for t
  proof (cases "ss_stage y t")
    case (Finished r)
    have "stage_recorded (ss_stage y t) (last_result t (ss_history y))" using ok unfolding protocol_ok_def by blast
    moreover have "r \<noteq> Panicked" using no Finished unfolding never_closed_def by metis
    ultimately show ?thesis using finished_recorded Finished by simp
  qed simp_all
  ultimately show ?thesis using ok v(2) unfolding y_def [symmetric] Let_def protocol_ok_def by blast
qed

definition sample_swap :: "(nat, nat) device_swap" where
  "sample_swap = \<lparr> dv_port_idx = 0, dv_generation = 3, dv_outcome = Aborted \<rparr>"

definition sample_shared :: "(nat, nat) node_shared" where
  "sample_shared = \<lparr> sh_alive = True, sh_started = True, sh_generation = 3, sh_slot = None \<rparr>"

text \<open>A deposit that a take of the data loop interrupts: the take misses, and the next one succeeds.\<close>

definition sample_acts :: "(nat, nat) device_swap slot_act list" where
  "sample_acts = Call 1 (Exchange (Some sample_swap)) # replicate 3 (Turn 1 False) @ [Call 0 Take, Turn 0 False]
     @ replicate 2 (Turn 1 False) @ [Call 0 Take] @ replicate 4 (Turn 0 False)"

theorem mailbox_protocol_is_atomic_witness:
  "ss_history (slot_run sample_acts) =
     [(0, Take, Taken (Some sample_swap), False), (1, Exchange (Some sample_swap), Previous None, False),
      (0, Take, Taken None, True)]
   \<and> atomic_history mailbox_atomic (ss_history (slot_run sample_acts)) sample_shared = Some sample_shared"
proof -
  have h: "ss_history (slot_run sample_acts) =
     [(0, Take, Taken (Some sample_swap), False), (1, Exchange (Some sample_swap), Previous None, False),
      (0, Take, Taken None, True)]"
    "sl_value (ss_cell (slot_run sample_acts)) = None" "sl_state (ss_cell (slot_run sample_acts)) = SLOT_EMPTY"
    by (simp_all add: slot_run_def sample_acts_def slot_start_def slot_new_def slot_turn_def numeral_eq_Suc)
  have p: "list_all (act_permitted mailbox_op) sample_acts" by (simp add: sample_acts_def numeral_eq_Suc)
  have s: "sh_slot sample_shared = None" "sample_shared\<lparr> sh_slot := None \<rparr> = sample_shared" by (simp_all add: sample_shared_def)
  from mailbox_protocol_is_atomic [OF p s(1)] show ?thesis using h s(2) by (auto simp: Let_def)
qed

section \<open>The data loop never waits\<close>

text \<open>A take is over after four turns, whatever the other threads do to the cell between them.\<close>

lemma take_is_wait_free:
  "\<exists>r. fst (slot_turn b4 (fst (slot_turn b3 (fst (slot_turn b2 (fst (slot_turn b1 TkSwap c1)) c2)) c3)) c4) = Finished (Taken r)"
  by (auto simp: slot_turn_def)

text \<open>So is a submission after three.\<close>

lemma submit_is_wait_free:
  "fst (slot_turn b3 (fst (slot_turn b2 (fst (slot_turn b1 (SbSwap work) c1)) c2)) c3) \<in> {Finished Accepted, Finished (Returned work)}"
  by (auto simp: slot_turn_def)

section \<open>The work slot\<close>

text \<open>The data loop (thread 0) is the only producer and the worker (thread 1) the only consumer; the main
  thread closes.\<close>

fun work_op :: "nat \<Rightarrow> 'm slot_op \<Rightarrow> bool" where
  "work_op t (Exchange new) = False"
| "work_op t Take = (t = 1)"
| "work_op t (Submit work) = (t = 0)"
| "work_op t Close = (t \<noteq> 0 \<and> t \<noteq> 1)"

fun work_atomic ::
    "('d, 'p) rebuild_work slot_op \<times> ('d, 'p) rebuild_work slot_result \<times> bool \<Rightarrow> ('d, 'p) work_slot \<Rightarrow> ('d, 'p) work_slot option" where
  "work_atomic (Submit work, Accepted, contended) slot =
     (if fst (try_submit work slot) = None then Some (snd (try_submit work slot)) else None)"
| "work_atomic (Submit work, Returned back, contended) slot =
     (if fst (try_submit work slot) = Some back then Some (snd (try_submit work slot)) else None)"
| "work_atomic (Take, Taken result, contended) slot =
     (if fst (slot_take slot) = result then Some (snd (slot_take slot)) else None)"
| "work_atomic (Close, Shut, contended) slot = slot_close slot"
| "work_atomic entry slot = None"

interpretation work_cell: atomic_cell work_atomic "\<lambda>v b. slot\<lparr> ws_value := v, ws_closed := b \<rparr>" work_op for slot
proof (unfold_locales, goal_cases)
  case (6 t u oper v)
  then show ?case by (cases oper) (auto simp: slot_take_def)
next
  case (7 t w u oper v)
  then show ?case by (cases oper) (auto simp: try_submit_def)
qed (auto simp: try_submit_def slot_take_def slot_close_def)

text \<open>The work slot is atomic without reservation: the data loop's submissions, the worker's takes and the
  final close are a run of \<open>try_submit\<close>, \<open>slot_take\<close> and \<open>slot_close\<close>. A submission that meets the worker
  inside the slot is handed back as by a full slot, which it still stands for, and a take that meets the
  data loop finds it empty.\<close>

lemma work_slot_protocol_is_atomic:
  assumes "list_all (act_permitted work_op) acts" "ws_value slot = None" "\<not> ws_closed slot"
  shows "\<exists>v. stands_for (slot_run acts) v \<and> atomic_history work_atomic (ss_history (slot_run acts)) slot
    = Some (slot\<lparr> ws_value := v, ws_closed := (sl_state (ss_cell (slot_run acts)) = WORK_CLOSED) \<rparr>)"
proof -
  have "slot\<lparr> ws_value := None, ws_closed := False \<rparr> = slot" using assms(2,3) by simp
  then show ?thesis using work_cell.run_in_step [OF assms(1), of slot] by (simp add: work_cell.in_step_def)
qed

end
