(* ===== verification/RebuildSystem.thy ===== *)
theory RebuildSystem
  imports NodeControl
begin

text \<open>
  One node's three threads - the data loop, the rebuild worker (node/rebuild/worker.rs) and the main
  thread running the commands of node/commands.rs and node/rebuild.rs - as a step relation. A step is one
  access to a shared cell with what the thread does up to the next one: the data loop polls or queues
  rebuilds or does something that leaves the protocol alone; the worker takes a command, checks whether
  a request is current, opens a device (with any result, or unwinding) and deposits its answer; the
  main thread fences the data loop, drains, waits, drains again, and finishes. \<open>sy_made\<close> and \<open>sy_closed\<close>
  count the devices created and destroyed. The mailbox and the work slot are the atomic cells that theory
  \<open>Mailbox\<close> derives from their compare-and-swap protocols; a poll whose take meets a writer inside the
  mailbox is a step of its own. Sleeping and waking are left out: parking, unparking and the condition
  variable of \<open>wait_idle\<close> decide when a thread takes a step that its condition allows, never what the step
  does.
\<close>

section \<open>State\<close>

datatype ('d, 'p) worker_stage =
    WIdle
  | WTaken "('d, 'p) rebuild_work"
  | WBegun "('d, 'p) rebuild_request"
  | WOpened "('d, 'p) rebuild_request" "int + configure_outcome" 'd
  | WAnswer "('d, 'p) device_swap option"
  | WExited

text \<open>The main thread outside a command; in a command, with the deferred work and the devices in its
  hands: fenced, drained once, past the wait, drained twice; or shutting the worker down.\<close>

datatype ('d, 'p) main_stage =
    MIdle
  | MFenced "('d, 'p) rebuild_work option" "'d list"
  | MDrained "'d list"
  | MWaited "'d list"
  | MQuiet "'d list"
  | MStopping
  | MClosed
  | MJoined

record ('d, 'p, 'x, 's, 'w) system =
  sy_data :: "('d, 'p, 'x, 's, 'w) data_state"
  sy_worker :: "('d, 'p) worker_stage"
  sy_main :: "('d, 'p) main_stage"
  sy_made :: "'d multiset"
  sy_closed :: "'d multiset"

definition with_slot :: "('d, 'p) work_slot \<Rightarrow> ('d, 'p, 'x, 's, 'w) data_state \<Rightarrow> ('d, 'p, 'x, 's, 'w) data_state" where
  "with_slot slot s = s\<lparr> ds_rebuild_work := slot \<rparr>"

definition with_shared :: "('d, 'p) node_shared \<Rightarrow> ('d, 'p, 'x, 's, 'w) data_state \<Rightarrow> ('d, 'p, 'x, 's, 'w) data_state" where
  "with_shared shared s = s\<lparr> ds_shared := shared \<rparr>"

section \<open>The worker loop\<close>

text \<open>One turn of \<open>rebuild_worker_loop\<close>, of \<open>run_rebuild_work\<close> and of \<open>rebuild_task\<close>: the next stage, the
  data state, the device it created and the devices it dropped. The command is taken and \<open>active\<close> set under
  one lock; a stopping worker drops the command instead of running it. \<open>None\<close> when the worker sleeps or
  has ended.\<close>

definition worker_answer :: "('d, 'p) rebuild_request \<Rightarrow> ('d, 'p) swap_outcome \<Rightarrow> ('d, 'p) worker_stage" where
  "worker_answer request outcome =
     WAnswer (Some \<lparr> dv_port_idx = rq_port_idx request, dv_generation = rq_generation request, dv_outcome = outcome \<rparr>)"

fun worker_turn ::
    "(int + configure_outcome) \<times> 'd \<Rightarrow> ('d, 'p) worker_stage \<Rightarrow> ('d, 'p, 'x, 's, 'w) data_state
       \<Rightarrow> (('d, 'p) worker_stage \<times> ('d, 'p, 'x, 's, 'w) data_state \<times> 'd multiset \<times> 'd multiset) option" where
  "worker_turn opened WIdle s =
     (case slot_take (ds_rebuild_work s) of
        (Some work, slot) \<Rightarrow> Some (WTaken work, with_slot (slot\<lparr> ws_active := True \<rparr>) s, {#}, {#})
      | (None, slot) \<Rightarrow> if ws_closed slot then Some (WExited, s, {#}, {#}) else None)"
| "worker_turn opened (WTaken work) s =
     (if ws_stopping (ds_rebuild_work s) then Some (WAnswer None, s, {#}, work_devices work)
      else case work of
        Rebuild request \<Rightarrow>
          if sh_alive (ds_shared s)
          then Some (WBegun (request\<lparr> rq_retire_first := None \<rparr>), s, {#}, request_devices request)
          else Some (WAnswer None, s, {#}, request_devices request)
      | RetireDevice d \<Rightarrow> Some (WAnswer None, s, {#}, {#d#})
      | RetireSwap sw \<Rightarrow> Some (WAnswer None, s, {#}, swap_devices sw))"
| "worker_turn opened (WBegun request) s =
     (if rebuild_request_is_current (ds_shared s) (rq_generation request)
      then Some (WOpened request (fst opened) (snd opened), s, {#snd opened#}, {#})
      else Some (worker_answer request Aborted, s, {#}, {#}))"
| "worker_turn opened (WOpened request res dsp) s =
     (if rebuild_request_is_current (ds_shared s) (rq_generation request)
      then Some (worker_answer request (open_outcome request (res, dsp)), s, {#}, {#})
      else Some (worker_answer request Aborted, s, {#}, {#dsp#}))"
| "worker_turn opened (WAnswer (Some swap)) s =
     Some (WAnswer None, with_shared (deposit swap (ds_shared s)) s, {#}, held swap_devices (sh_slot (ds_shared s)))"
| "worker_turn opened (WAnswer None) s =
     Some (WIdle, with_slot ((ds_rebuild_work s)\<lparr> ws_active := False \<rparr>) s, {#}, {#})"
| "worker_turn opened WExited s = None"

section \<open>The main thread\<close>

text \<open>\<open>wait_idle\<close>'s condition, and the steps of a command around the data-loop closures.\<close>

definition worker_idle :: "('d, 'p) work_slot \<Rightarrow> bool" where
  "worker_idle slot \<longleftrightarrow> \<not> ws_active slot \<and> ws_value slot = None"

inductive main_step ::
    "('d, 'p, 'x, 's, 'w) direction
       \<Rightarrow> ('d, 'p) main_stage \<Rightarrow> ('d, 'p, 'x, 's, 'w) data_state
       \<Rightarrow> ('d, 'p) main_stage \<Rightarrow> ('d, 'p, 'x, 's, 'w) data_state \<Rightarrow> 'd multiset \<Rightarrow> 'd multiset \<Rightarrow> bool"
  for D where
  start: "snd (send_start D accepted s) = s' \<Longrightarrow> main_step D MIdle s MIdle s' {#} {#}"
| stop_flag: "main_step D MIdle s MIdle (with_shared ((ds_shared s)\<lparr> sh_started := False \<rparr>) s) {#} {#}"
| pause: "pause_loop D s = (deferred, s') \<Longrightarrow> main_step D MIdle s (MFenced deferred []) s' {#} {#}"
| suspend: "suspend_loop D placeholder s = ((retired, deferred), s') \<Longrightarrow>
     main_step D MIdle s (MFenced deferred [retired]) s' {#placeholder#} {#}"
| takeover: "begin_takeover D s = (deferred, s') \<Longrightarrow> main_step D MIdle s (MFenced deferred []) s' {#} {#}"
| drain: "main_step D (MFenced deferred ds) s (MDrained ds) (with_shared (discard_swap (ds_shared s)) s) {#}
     (held work_devices deferred + held swap_devices (sh_slot (ds_shared s)))"
| waited: "worker_idle (ds_rebuild_work s) \<Longrightarrow> main_step D (MDrained ds) s (MWaited ds) s {#} {#}"
| drain_again: "main_step D (MWaited ds) s (MQuiet ds) (with_shared (discard_swap (ds_shared s)) s) {#}
     (held swap_devices (sh_slot (ds_shared s)))"
| retire: "main_step D (MQuiet ds) s (MQuiet ds) (upd_port (\<lambda>port. port\<lparr> p_dsp := closed_device \<rparr>) s)
     {#closed_device#} {#p_dsp (ds_port s)#}"
| install: "install_swap D new_dsp outcome s = (old, s') \<Longrightarrow>
     main_step D (MQuiet ds) s MIdle s' {#new_dsp#} (add_mset old (mset ds))"
| release: "main_step D (MQuiet ds) s MIdle (release_rebuild_takeover s) {#} (mset ds)"
| stop: "main_step D MIdle s MStopping (with_slot ((ds_rebuild_work s)\<lparr> ws_stopping := True \<rparr>)
     (with_shared ((ds_shared s)\<lparr> sh_alive := False \<rparr>) s)) {#} {#}"
| close: "slot_close (ds_rebuild_work s) = Some slot \<Longrightarrow> main_step D MStopping s MClosed (with_slot slot s) {#} {#}"

section \<open>The system\<close>

text \<open>\<open>data_missed\<close> is a poll that flushes the deferred work and then finds nothing because a writer is inside
  the mailbox; \<open>worker_unwinds\<close> is an open that panics, so the new device is dropped and the guard deposits
  \<open>Aborted\<close>.\<close>

inductive sys_step ::
    "('d, 'p, 'x, 's, 'w) direction \<Rightarrow> ('d \<Rightarrow> 'i) \<Rightarrow> ('d, 'p, 'x, 's, 'w) system \<Rightarrow> ('d, 'p, 'x, 's, 'w) system \<Rightarrow> bool"
  for D ident where
  data_poll: "sys_step D ident y (y\<lparr> sy_data := snd (poll_rebuild D (sy_data y)) \<rparr>)"
| data_queue: "sys_step D ident y (y\<lparr> sy_data := snd (queue_rebuild (sy_data y)) \<rparr>)"
| data_missed: "\<not> ds_rebuild_takeover (sy_data y) \<Longrightarrow>
     sys_step D ident y (y\<lparr> sy_data := snd (flush_deferred_work (sy_data y)) \<rparr>)"
| data_other: "data_frame ident (sy_data y) s \<Longrightarrow> sys_step D ident y (y\<lparr> sy_data := s \<rparr>)"
| worker: "worker_turn opened (sy_worker y) (sy_data y) = Some (stage, s, made, dropped) \<Longrightarrow>
     sys_step D ident y (y\<lparr> sy_data := s, sy_worker := stage, sy_made := sy_made y + made, sy_closed := sy_closed y + dropped \<rparr>)"
| worker_unwinds: "sy_worker y = WOpened request res dsp \<Longrightarrow>
     sys_step D ident y (y\<lparr> sy_worker := worker_answer request Aborted, sy_closed := sy_closed y + {#dsp#} \<rparr>)"
| main: "main_step D (sy_main y) (sy_data y) stage s made dropped \<Longrightarrow>
     sys_step D ident y (y\<lparr> sy_data := s, sy_main := stage, sy_made := sy_made y + made, sy_closed := sy_closed y + dropped \<rparr>)"
| join: "sy_main y = MClosed \<Longrightarrow> sy_worker y = WExited \<Longrightarrow> sys_step D ident y (y\<lparr> sy_main := MJoined \<rparr>)"

text \<open>A node right after \<open>init\<close>: a device in the port, every cell empty.\<close>

definition sys_start :: "('d, 'p, 'x, 's, 'w) data_state \<Rightarrow> ('d, 'p, 'x, 's, 'w) system" where
  "sys_start s = \<lparr> sy_data = s, sy_worker = WIdle, sy_main = MIdle, sy_made = {#p_dsp (ds_port s)#}, sy_closed = {#} \<rparr>"

definition fresh_node :: "('d, 'p, 'x, 's, 'w) data_state \<Rightarrow> bool" where
  "fresh_node s \<longleftrightarrow> sh_slot (ds_shared s) = None \<and> ds_deferred_work s = None \<and> \<not> ds_rebuild_takeover s
     \<and> ds_rebuild_work s = \<lparr> ws_value = None, ws_closed = False, ws_stopping = False, ws_active = False \<rparr>
     \<and> has_timer s \<and> \<not> ds_panic s"

section \<open>Who holds which device\<close>

fun worker_devices :: "('d, 'p) worker_stage \<Rightarrow> 'd multiset" where
  "worker_devices WIdle = {#}"
| "worker_devices (WTaken work) = work_devices work"
| "worker_devices (WBegun request) = request_devices request"
| "worker_devices (WOpened request res dsp) = add_mset dsp (request_devices request)"
| "worker_devices (WAnswer swap) = held swap_devices swap"
| "worker_devices WExited = {#}"

fun main_devices :: "('d, 'p) main_stage \<Rightarrow> 'd multiset" where
  "main_devices (MFenced deferred ds) = held work_devices deferred + mset ds"
| "main_devices (MDrained ds) = mset ds"
| "main_devices (MWaited ds) = mset ds"
| "main_devices (MQuiet ds) = mset ds"
| "main_devices _ = {#}"

definition live_devices :: "('d, 'p, 'x, 's, 'w) system \<Rightarrow> 'd multiset" where
  "live_devices y = owned_devices (sy_data y) + worker_devices (sy_worker y) + main_devices (sy_main y)"

section \<open>The invariant\<close>

definition in_command :: "('d, 'p) main_stage \<Rightarrow> bool" where
  "in_command m \<longleftrightarrow> (case m of MFenced _ _ \<Rightarrow> True | MDrained _ \<Rightarrow> True | MWaited _ \<Rightarrow> True | MQuiet _ \<Rightarrow> True | _ \<Rightarrow> False)"

definition past_wait :: "('d, 'p) main_stage \<Rightarrow> bool" where
  "past_wait m \<longleftrightarrow> (case m of MWaited _ \<Rightarrow> True | MQuiet _ \<Rightarrow> True | _ \<Rightarrow> False)"

fun work_ok :: "('d, 'p) rebuild_work \<Rightarrow> bool" where
  "work_ok (Rebuild r) = (rq_port_idx r = 0)"
| "work_ok _ = True"

text \<open>The cells: completions and requests are for the only port, and a closed slot is empty.\<close>

definition cells_ok :: "('d, 'p, 'x, 's, 'w) data_state \<Rightarrow> bool" where
  "cells_ok s \<longleftrightarrow> mailbox_ok (sh_slot (ds_shared s)) \<and> pred_option work_ok (ws_value (ds_rebuild_work s))
     \<and> pred_option work_ok (ds_deferred_work s) \<and> (ws_closed (ds_rebuild_work s) \<longrightarrow> ws_value (ds_rebuild_work s) = None)
     \<and> has_timer s \<and> \<not> ds_panic s"

fun stage_ok :: "('d, 'p) worker_stage \<Rightarrow> bool" where
  "stage_ok (WTaken work) = work_ok work"
| "stage_ok (WBegun request) = (rq_port_idx request = 0 \<and> rq_retire_first request = None)"
| "stage_ok (WOpened request res dsp) = (rq_port_idx request = 0 \<and> rq_retire_first request = None)"
| "stage_ok (WAnswer swap) = mailbox_ok swap"
| "stage_ok _ = True"

definition sys_ok :: "('d, 'p, 'x, 's, 'w) system \<Rightarrow> bool" where
  "sys_ok y \<longleftrightarrow> cells_ok (sy_data y) \<and> stage_ok (sy_worker y)
     \<and> ds_rebuild_takeover (sy_data y) = in_command (sy_main y)
     \<and> (in_command (sy_main y) \<longrightarrow> ds_deferred_work (sy_data y) = None)
     \<and> ws_active (ds_rebuild_work (sy_data y)) = (sy_worker y \<noteq> WIdle \<and> sy_worker y \<noteq> WExited)
     \<and> (past_wait (sy_main y) \<longrightarrow> sy_worker y = WIdle \<and> ws_value (ds_rebuild_work (sy_data y)) = None)
     \<and> (case sy_main y of MQuiet _ \<Rightarrow> sh_slot (ds_shared (sy_data y)) = None | _ \<Rightarrow> True)
     \<and> ws_closed (ds_rebuild_work (sy_data y)) = (sy_main y = MClosed \<or> sy_main y = MJoined)
     \<and> (sy_worker y = WExited \<longrightarrow> ws_closed (ds_rebuild_work (sy_data y)))
     \<and> (sy_main y = MJoined \<longrightarrow> sy_worker y = WExited)"

section \<open>The data loop keeps the cells in order\<close>

definition ctl :: "('d, 'p, 'x, 's, 'w) data_state \<Rightarrow> bool \<times> bool \<times> bool \<times> bool" where
  "ctl s = (ds_rebuild_takeover s, ws_active (ds_rebuild_work s), ws_closed (ds_rebuild_work s), ws_stopping (ds_rebuild_work s))"

lemma submit_cells:
  "cells_ok s \<Longrightarrow> ds_deferred_work s = None \<Longrightarrow> work_ok work \<Longrightarrow>
     cells_ok (submit_or_defer work s) \<and> ctl (submit_or_defer work s) = ctl s"
  by (auto simp: cells_ok_def submit_or_defer_def try_submit_def has_timer_def ctl_def Let_def)

lemma flush_cells: "cells_ok s \<Longrightarrow> cells_ok (snd (flush_deferred_work s)) \<and> ctl (snd (flush_deferred_work s)) = ctl s"
  by (cases "ds_deferred_work s") (auto simp: cells_ok_def flush_deferred_work_def try_submit_def has_timer_def ctl_def Let_def)

lemma queue_port_cells:
  "cells_ok s \<Longrightarrow> ds_deferred_work s = None \<Longrightarrow>
     cells_ok (snd (queue_port_rebuild s)) \<and> ctl (snd (queue_port_rebuild s)) = ctl s"
  using submit_cells [of s]
  by (auto simp: queue_port_rebuild_def port_rebuild_request_def cells_ok_def has_timer_def ctl_def split: option.splits)

lemma queue_cells: "cells_ok s \<Longrightarrow> cells_ok (snd (queue_rebuild s)) \<and> ctl (snd (queue_rebuild s)) = ctl s"
  using flush_cells [of s] queue_port_cells [of "snd (flush_deferred_work s)"]
  by (cases s rule: flush_cases) (auto simp: queue_rebuild_def case_prod_beta Let_def)

context node_direction
begin

lemma frame_cells:
  "data_frame ident s s' \<Longrightarrow> cells_ok s \<Longrightarrow>
     cells_ok s' \<and> ctl s' = ctl s \<and> ds_deferred_work s' = ds_deferred_work s"
  by (simp add: data_frame_def cells_ok_def ctl_def)

lemma replace_cells:
  assumes "replace_device D dsp config quantum s = (old, s')" "cells_ok s"
  shows "cells_ok s' \<and> ctl s' = ctl s \<and> ds_deferred_work s' = ds_deferred_work s"
  using replace_device_spec [OF assms(1)] assms(2) by (simp add: cells_ok_def ctl_def)

lemma poll_completion_cells:
  assumes "cells_ok s" "ds_deferred_work s = None"
  shows "cells_ok (snd (poll_rebuild_completion D s)) \<and> ctl (snd (poll_rebuild_completion D s)) = ctl s"
proof (cases "sh_slot (ds_shared s)")
  case None
  then show ?thesis using assms(1) by (simp add: poll_rebuild_completion_def take_swap_def cells_ok_def has_timer_def ctl_def)
next
  case (Some sw)
  let ?t = "s\<lparr> ds_shared := (ds_shared s)\<lparr> sh_slot := None \<rparr> \<rparr>"
  have idx: "dv_port_idx sw = 0" using assms(1) Some by (simp add: cells_ok_def mailbox_ok_def)
  have t: "cells_ok ?t" "ds_deferred_work ?t = None" "ctl ?t = ctl s"
    using assms by (simp_all add: cells_ok_def mailbox_ok_def has_timer_def ctl_def)
  show ?thesis
  proof (cases "dv_generation sw = p_generation (ds_port s)")
    case False
    then show ?thesis using submit_cells [OF t(1,2), of "RetireSwap sw"] t(3) idx Some
      by (simp add: poll_rebuild_completion_def take_swap_def Let_def)
  next
    case gen: True
    have rep: "cells_ok (submit_or_defer (RetireDevice (fst r)) (snd r)) \<and> ctl (submit_or_defer (RetireDevice (fst r)) (snd r)) = ctl s"
      if "r = replace_device D dsp config quantum ?t" for r dsp config quantum
      using replace_cells [OF prod.collapse [symmetric] t(1), of dsp config quantum, folded that] t(2,3)
        submit_cells [of "snd r" "RetireDevice (fst r)"] by simp
    show ?thesis
    proof (cases "dv_outcome sw")
      case (Installed dsp config applied)
      then show ?thesis using gen idx Some rep [OF refl]
        by (simp add: poll_rebuild_completion_def take_swap_def case_prod_beta Let_def)
    next
      case Aborted
      then show ?thesis using gen idx Some t
        by (simp add: poll_rebuild_completion_def take_swap_def cells_ok_def has_timer_def ctl_def)
    next
      case (RetireAndRetry request placeholder)
      let ?p = "upd_port (\<lambda>port. port\<lparr> p_dsp := placeholder \<rparr>) (upd_port reset_stream_epoch ?t)"
      let ?w = "if ds_started ?p then update_driver_wake D ?p else ?p"
      let ?r = "request\<lparr> rq_retire_first := Some (p_dsp (ds_port s)) \<rparr>"
      have r: "work_ok (Rebuild ?r)" using assms(1) Some RetireAndRetry by (simp add: cells_ok_def mailbox_ok_def)
      have p: "cells_ok ?p" "ctl ?p = ctl s" "ds_deferred_work ?p = None"
        using t by (simp_all add: cells_ok_def has_timer_def ctl_def)
      have w: "cells_ok ?w" "ctl ?w = ctl s" "ds_deferred_work ?w = None"
        using frame_cells [OF started_wake_frame p(1)] p(2,3) by simp_all
      have "snd (poll_rebuild_completion D s) = submit_or_defer (Rebuild ?r) ?w"
        using RetireAndRetry gen idx Some by (simp add: poll_rebuild_completion_def take_swap_def Let_def reset_stream_epoch_def)
      then show ?thesis using submit_cells [OF w(1,3) r] w(2) by simp
    next
      case (SwapFailed placeholder)
      then show ?thesis using gen idx Some rep [OF refl, of placeholder None None]
        by (simp add: poll_rebuild_completion_def take_swap_def case_prod_beta Let_def cells_ok_def has_timer_def ctl_def)
    qed
  qed
qed

lemma poll_cells: "cells_ok s \<Longrightarrow> cells_ok (snd (poll_rebuild D s)) \<and> ctl (snd (poll_rebuild D s)) = ctl s"
  using flush_cells [of s] poll_completion_cells [of "snd (flush_deferred_work s)"]
  by (cases s rule: flush_cases) (auto simp: poll_rebuild_def case_prod_beta Let_def)

end

text \<open>A data loop taken over neither consumes nor submits.\<close>

lemma taken_over: "ds_rebuild_takeover s \<Longrightarrow> snd (poll_rebuild D s) = s" "ds_rebuild_takeover s \<Longrightarrow> snd (queue_rebuild s) = s"
  by (simp_all add: poll_rebuild_def queue_rebuild_def)


section \<open>The commands fence the data loop\<close>

locale node_hooks = node_direction D ident
  for D :: "('d, 'p, 'x, 's, 'w) direction" and ident :: "'d \<Rightarrow> 'i" +
  assumes pause_frame: "data_frame ident s (dn_on_pause_loop D s)"
    and suspend_frame: "data_frame ident s (dn_on_suspend_loop D s)"
    and start_frame: "data_frame ident s (dn_on_start_loop D s)"
begin

definition fenced :: "('d, 'p, 'x, 's, 'w) data_state \<Rightarrow> ('d, 'p, 'x, 's, 'w) data_state \<Rightarrow> bool" where
  "fenced s s' \<longleftrightarrow> cells_ok s' \<and> ds_rebuild_takeover s' \<and> ds_deferred_work s' = None
     \<and> ds_rebuild_work s' = ds_rebuild_work s \<and> sh_slot (ds_shared s') = sh_slot (ds_shared s)"

lemma fence_generation_sel [simp]:
  "sh_slot (ds_shared (fence_generation s)) = sh_slot (ds_shared s)"
  "ds_rebuild_work (fence_generation s) = ds_rebuild_work s" "ds_deferred_work (fence_generation s) = ds_deferred_work s"
  "ds_rebuild_takeover (fence_generation s) = ds_rebuild_takeover s" "p_dsp (ds_port (fence_generation s)) = p_dsp (ds_port s)"
  "has_timer (fence_generation s) = has_timer s" "ds_panic (fence_generation s) = ds_panic s"
  by (simp_all add: fence_generation_def store_generation_def has_timer_def)

text \<open>What the closures before the fence leave alone.\<close>

definition fence_base :: "('d, 'p, 'x, 's, 'w) data_state \<Rightarrow> ('d, 'p, 'x, 's, 'w) data_state \<Rightarrow> bool" where
  "fence_base s t \<longleftrightarrow> ident (p_dsp (ds_port t)) = ident (p_dsp (ds_port s)) \<and> sh_slot (ds_shared t) = sh_slot (ds_shared s)
     \<and> ds_rebuild_work t = ds_rebuild_work s \<and> ds_deferred_work t = ds_deferred_work s
     \<and> ds_rebuild_takeover t = ds_rebuild_takeover s \<and> has_timer t = has_timer s \<and> (has_timer s \<longrightarrow> ds_panic t = ds_panic s)"

lemma frame_base: "data_frame ident s t \<Longrightarrow> fence_base s t"
  by (simp add: data_frame_def fence_base_def)

lemma base_trans: "fence_base s t \<Longrightarrow> fence_base t u \<Longrightarrow> fence_base s u"
  by (simp add: fence_base_def)

lemma started_base [simp]: "fence_base s (s\<lparr> ds_started := b \<rparr>)"
  by (simp add: fence_base_def has_timer_def)

lemma started_flag_base: "fence_base s t \<Longrightarrow> fence_base s (t\<lparr> ds_shared := (ds_shared t)\<lparr> sh_started := b \<rparr> \<rparr>)"
  by (simp add: fence_base_def has_timer_upd)

lemma base_cells: "fence_base s t \<Longrightarrow> cells_ok s \<Longrightarrow> cells_ok t \<and> ctl t = ctl s \<and> owned_streams ident t = owned_streams ident s"
  by (simp add: fence_base_def cells_ok_def ctl_def owned_streams_unfold)

lemma fence_from_base:
  assumes "fence_base s t" "cells_ok s"
  shows "fenced s (fence_generation (t\<lparr> ds_rebuild_takeover := True, ds_deferred_work := None \<rparr>))"
    "owned_streams ident (fence_generation (t\<lparr> ds_rebuild_takeover := True, ds_deferred_work := None \<rparr>))
       + image_mset ident (held work_devices (ds_deferred_work t)) = owned_streams ident s"
proof -
  have "has_timer (t\<lparr> ds_rebuild_takeover := True, ds_deferred_work := None \<rparr>) = has_timer t" by (simp add: has_timer_def)
  then show "fenced s (fence_generation (t\<lparr> ds_rebuild_takeover := True, ds_deferred_work := None \<rparr>))"
    "owned_streams ident (fence_generation (t\<lparr> ds_rebuild_takeover := True, ds_deferred_work := None \<rparr>))
       + image_mset ident (held work_devices (ds_deferred_work t)) = owned_streams ident s"
    using assms by (simp_all add: fenced_def fence_base_def cells_ok_def owned_streams_unfold)
qed

lemma pause_fences:
  assumes "pause_loop D s = (deferred, s')" "cells_ok s"
  shows "fenced s s'" "owned_streams ident s' + image_mset ident (held work_devices deferred) = owned_streams ident s"
proof -
  let ?s1 = "s\<lparr> ds_started := False \<rparr>"
  let ?s2 = "if ds_started s then dn_on_pause_loop D ?s1 else ?s1"
  let ?t = "update_driver_wake D ?s2"
  have h: "fence_base ?s1 ?s2" using frame_base [OF pause_frame] by (simp add: fence_base_def)
  have t: "fence_base s ?t"
    by (rule base_trans [OF base_trans [OF started_base h] frame_base [OF update_driver_wake_frame]])
  have "s' = fence_generation (?t\<lparr> ds_rebuild_takeover := True, ds_deferred_work := None \<rparr>)" "deferred = ds_deferred_work ?t"
    using assms(1) by (auto simp: pause_loop_def Let_def)
  then show "fenced s s'" "owned_streams ident s' + image_mset ident (held work_devices deferred) = owned_streams ident s"
    using fence_from_base [OF t assms(2)] by simp_all
qed

lemma takeover_fences:
  assumes "begin_takeover D s = (deferred, s')" "cells_ok s" "\<not> ds_rebuild_takeover s"
  shows "fenced s s'" "owned_streams ident s' + image_mset ident (held work_devices deferred) = owned_streams ident s"
proof -
  let ?f = "fence_generation (s\<lparr> ds_rebuild_takeover := True, ds_deferred_work := None \<rparr>)"
  have r: "fence_base s s" by (simp add: fence_base_def)
  have e: "s' = (if ds_started ?f then update_driver_wake D ?f else ?f)" "deferred = ds_deferred_work s"
    using assms(1,3) by (auto simp: begin_takeover_def fence_generation_def Let_def)
  have b: "fence_base ?f s'" unfolding e(1) by (rule frame_base [OF started_wake_frame])
  note f = fence_from_base [OF r assms(2)]
  show "fenced s s'" using b f(1) by (simp add: fence_base_def fenced_def cells_ok_def)
  then show "owned_streams ident s' + image_mset ident (held work_devices deferred) = owned_streams ident s"
    using b f(2) e(2) by (simp add: fence_base_def owned_streams_unfold)
qed

lemma suspend_fences:
  assumes "suspend_loop D placeholder s = ((retired, deferred), s')" "cells_ok s"
  shows "fenced s s'"
    "owned_streams ident s' + image_mset ident (held work_devices deferred) + {#ident retired#}
       = add_mset (ident placeholder) (owned_streams ident s)"
proof -
  let ?t = "dn_on_suspend_loop D (update_driver_wake D (invalidate_device_wake D (s\<lparr> ds_started := False \<rparr>)))"
  let ?u = "?t\<lparr> ds_rebuild_takeover := True, ds_deferred_work := None \<rparr>"
  let ?v = "store_generation (?u\<lparr> ds_port := snd (take_suspended_device placeholder (ds_port ?u)) \<rparr>)"
  have t: "fence_base s ?t"
    by (rule base_trans [OF base_trans [OF base_trans [OF started_base] ] ])
      (rule frame_base [OF invalidate_frame], rule frame_base [OF update_driver_wake_frame], rule frame_base [OF suspend_frame])
  have e: "s' = dn_on_device_swapped D ?v" "retired = p_dsp (ds_port ?t)" "deferred = ds_deferred_work ?t"
    using assms(1) by (auto simp: suspend_loop_def take_suspended_device_def Let_def)
  have b: "fence_base ?v s'" unfolding e(1) by (rule frame_base [OF swapped_frame])
  have v: "sh_slot (ds_shared ?v) = sh_slot (ds_shared ?t)" "ds_rebuild_work ?v = ds_rebuild_work ?t"
    "ds_deferred_work ?v = None" "ds_rebuild_takeover ?v" "has_timer ?v = has_timer ?t" "ds_panic ?v = ds_panic ?t"
    "p_dsp (ds_port ?v) = placeholder"
    by (simp_all add: store_generation_def take_suspended_device_def reset_stream_epoch_def has_timer_def Let_def)
  show "fenced s s'" "owned_streams ident s' + image_mset ident (held work_devices deferred) + {#ident retired#}
       = add_mset (ident placeholder) (owned_streams ident s)"
    using b t v assms(2) unfolding e(2,3)
    by (simp_all add: fence_base_def fenced_def cells_ok_def owned_streams_unfold)
qed

lemma start_base:
  assumes "cells_ok s"
  shows "cells_ok (snd (send_start D accepted s))" "ctl (snd (send_start D accepted s)) = ctl s"
    "owned_streams ident (snd (send_start D accepted s)) = owned_streams ident s"
    "ds_deferred_work (snd (send_start D accepted s)) = ds_deferred_work s"
    "ds_rebuild_work (snd (send_start D accepted s)) = ds_rebuild_work s"
proof -
  let ?c = "s\<lparr> ds_clock := map_option (\<lambda>c. c\<lparr> clk_delay := 0, clk_rate_diff := 1 \<rparr>) (ds_clock s) \<rparr>"
  let ?h = "(dn_on_start_loop D ?c)\<lparr> ds_started := True \<rparr>"
  let ?f = "?h\<lparr> ds_following := node_is_follower ?h \<rparr>"
  let ?t = "update_driver_wake D ?f"
  have h: "fence_base ?c ?h" by (rule base_trans [OF frame_base [OF start_frame] started_base])
  have hf: "fence_base ?h ?f" by (simp add: fence_base_def has_timer_def)
  have ft: "fence_base ?f ?t" by (rule frame_base [OF update_driver_wake_frame])
  have "fence_base ?c ?t" by (rule base_trans [OF base_trans [OF h hf] ft])
  then have "fence_base s ?t" by (simp add: fence_base_def has_timer_def)
  then have u: "fence_base s (?t\<lparr> ds_shared := (ds_shared ?t)\<lparr> sh_started := True \<rparr> \<rparr>)"
    by (rule started_flag_base)
  have "fence_base s (snd (send_start D accepted s))"
  proof (cases "\<not> accepted \<or> p_config (ds_port s) = None \<or> p_buffers (ds_port s) = []")
    case True
    then have "snd (send_start D accepted s) = s" by (auto simp: send_start_def start_loop_def)
    then show ?thesis by (simp add: fence_base_def)
  next
    case False
    then have "snd (send_start D accepted s) = ?t\<lparr> ds_shared := (ds_shared ?t)\<lparr> sh_started := True \<rparr> \<rparr>"
      by (simp only: send_start_def start_loop_def Let_def de_Morgan_disj not_not if_True if_False prod.case snd_conv not_True_eq_False simp_thms)
    then show ?thesis using u by (simp only:)
  qed
  then have r: "fence_base s r" if "r = snd (send_start D accepted s)" for r using that by simp
  show "cells_ok (snd (send_start D accepted s))" "ctl (snd (send_start D accepted s)) = ctl s"
    "owned_streams ident (snd (send_start D accepted s)) = owned_streams ident s"
    using base_cells [OF r [OF refl] assms] by blast+
  show "ds_deferred_work (snd (send_start D accepted s)) = ds_deferred_work s"
    "ds_rebuild_work (snd (send_start D accepted s)) = ds_rebuild_work s"
    using r [OF refl] by (simp_all only: fence_base_def)
qed

end


section \<open>The invariant holds in every reachable system\<close>

definition accounted :: "('d \<Rightarrow> 'i) \<Rightarrow> ('d, 'p, 'x, 's, 'w) system \<Rightarrow> bool" where
  "accounted ident y \<longleftrightarrow> image_mset ident (live_devices y) + image_mset ident (sy_closed y) = image_mset ident (sy_made y)"

lemma accounted_unfold:
  "accounted ident y \<longleftrightarrow> owned_streams ident (sy_data y) + image_mset ident (worker_devices (sy_worker y))
     + image_mset ident (main_devices (sy_main y)) + image_mset ident (sy_closed y) = image_mset ident (sy_made y)"
  by (simp add: accounted_def live_devices_def owned_streams_def)

lemma data_keeps_sys_ok:
  assumes "sys_ok y" "cells_ok s" "ctl s = ctl (sy_data y)"
    "ds_rebuild_takeover (sy_data y) \<Longrightarrow> ds_deferred_work s = ds_deferred_work (sy_data y)
       \<and> ds_rebuild_work s = ds_rebuild_work (sy_data y) \<and> sh_slot (ds_shared s) = sh_slot (ds_shared (sy_data y))"
  shows "sys_ok (y\<lparr> sy_data := s \<rparr>)"
proof -
  have m: "in_command (sy_main y) \<Longrightarrow> ds_rebuild_takeover (sy_data y)" "past_wait (sy_main y) \<Longrightarrow> in_command (sy_main y)"
    using assms(1) by (auto simp: sys_ok_def in_command_def past_wait_def split: main_stage.splits)
  show ?thesis
    using assms(1-3) assms(4) [OF m(1)] m(2)
    by (cases "sy_main y") (auto simp: sys_ok_def ctl_def in_command_def past_wait_def)
qed

lemma take_cells:
  assumes "cells_ok s" "ws_value (ds_rebuild_work s) = Some work"
  shows "cells_ok (with_slot ((ds_rebuild_work s)\<lparr> ws_value := None, ws_active := a \<rparr>) s)" "work_ok work"
  using assms by (simp_all add: cells_ok_def with_slot_def has_timer_def)

lemma worker_turn_ok:
  assumes "worker_turn opened (sy_worker y) (sy_data y) = Some (stage, s, made, dropped)" "sys_ok y"
  shows "sys_ok (y\<lparr> sy_data := s, sy_worker := stage, sy_made := sy_made y + made, sy_closed := sy_closed y + dropped \<rparr>)"
proof -
  have busy: "sy_worker y = WIdle" if "past_wait (sy_main y)" using assms(2) that by (simp add: sys_ok_def)
  have quiet: "past_wait (sy_main y)" if "sy_main y = MQuiet ds" for ds using that by (simp add: past_wait_def)
  show ?thesis
  proof (cases "sy_worker y")
    case WIdle
    then show ?thesis using assms
      by (cases "sy_main y"; cases "ws_value (ds_rebuild_work (sy_data y))")
        (auto simp: sys_ok_def slot_take_def with_slot_def cells_ok_def has_timer_def past_wait_def in_command_def split: if_splits)
  next
    case (WTaken work)
    then have nw: "\<not> past_wait (sy_main y)" using busy by auto
    show ?thesis using assms WTaken nw
      by (cases "sy_main y"; cases work)
        (auto simp: sys_ok_def mailbox_ok_def past_wait_def in_command_def split: if_splits)
  next
    case (WBegun request)
    then have nw: "\<not> past_wait (sy_main y)" using busy by auto
    show ?thesis using assms WBegun nw
      by (cases "sy_main y") (auto simp: sys_ok_def mailbox_ok_def worker_answer_def past_wait_def in_command_def split: if_splits)
  next
    case (WOpened request res dsp)
    then have nw: "\<not> past_wait (sy_main y)" using busy by auto
    show ?thesis using assms WOpened nw
      by (cases "sy_main y") (auto simp: sys_ok_def mailbox_ok_def worker_answer_def past_wait_def in_command_def open_outcome_def split: if_splits sum.splits)
  next
    case (WAnswer swap)
    then have nw: "\<not> past_wait (sy_main y)" using busy by auto
    show ?thesis using assms WAnswer nw
      by (cases "sy_main y"; cases swap)
        (auto simp: sys_ok_def cells_ok_def mailbox_ok_def deposit_def exchange_def with_shared_def with_slot_def has_timer_def past_wait_def in_command_def)
  next
    case WExited
    then show ?thesis using assms by simp
  qed
qed

lemma worker_turn_accounted:
  assumes "worker_turn opened (sy_worker y) (sy_data y) = Some (stage, s, made, dropped)" "sys_ok y" "accounted ident y"
  shows "accounted ident (y\<lparr> sy_data := s, sy_worker := stage, sy_made := sy_made y + made, sy_closed := sy_closed y + dropped \<rparr>)"
proof -
  have so: "stage_ok (sy_worker y)" using assms(2) by (simp add: sys_ok_def)
  show ?thesis
  proof (cases "sy_worker y")
    case WIdle
    then show ?thesis using assms(1,3)
      by (cases "ws_value (ds_rebuild_work (sy_data y))")
        (auto simp: accounted_unfold slot_take_def with_slot_def owned_streams_unfold ac_simps split: if_splits)
  next
    case (WTaken work)
    then show ?thesis using assms(1,3)
      by (cases work) (auto simp: accounted_unfold ac_simps split: if_splits)
  next
    case (WBegun request)
    then show ?thesis using assms(1,3) so by (auto simp: accounted_unfold worker_answer_def swap_devices_def split: if_splits)
  next
    case (WOpened request res dsp)
    then show ?thesis using assms(1,3) so
      by (auto simp: accounted_unfold worker_answer_def swap_devices_def open_outcome_def split: if_splits sum.splits)
  next
    case (WAnswer swap)
    then show ?thesis using assms(1,3)
      by (cases swap) (auto simp: accounted_unfold deposit_def exchange_def with_shared_def with_slot_def owned_streams_unfold ac_simps)
  next
    case WExited
    then show ?thesis using assms(1) by simp
  qed
qed

lemma discard_cells: "cells_ok s \<Longrightarrow> cells_ok (with_shared (discard_swap (ds_shared s)) s)"
  by (simp add: cells_ok_def mailbox_ok_def with_shared_def discard_swap_def exchange_def has_timer_def)

lemma discard_sel [simp]:
  "sh_slot (ds_shared (with_shared (discard_swap (ds_shared s)) s)) = None"
  "ds_rebuild_work (with_shared sh s) = ds_rebuild_work s" "ds_deferred_work (with_shared sh s) = ds_deferred_work s"
  "ds_rebuild_takeover (with_shared sh s) = ds_rebuild_takeover s"
  by (simp_all add: with_shared_def discard_swap_def exchange_def)

lemma discard_owned:
  "owned_streams ident (with_shared (discard_swap (ds_shared s)) s) + image_mset ident (held swap_devices (sh_slot (ds_shared s)))
     = owned_streams ident s"
  by (simp add: owned_streams_unfold with_shared_def discard_swap_def exchange_def)

text \<open>An exchange of parts does not change a total.\<close>

lemma mset_balance:
  assumes "A + H + R = P + B" "B + W + C = (M :: 'a multiset)"
  shows "A + W + (H + R) + C = M + P"
proof (rule multiset_eqI)
  fix x
  show "count (A + W + (H + R) + C) x = count (M + P) x"
    using arg_cong [OF assms(1), of "\<lambda>N. count N x"] arg_cong [OF assms(2), of "\<lambda>N. count N x"] by simp
qed

context node_hooks
begin

lemma fenced_sys_ok:
  assumes "sys_ok y" "sy_main y = MIdle" "fenced (sy_data y) s"
  shows "sys_ok (y\<lparr> sy_data := s, sy_main := MFenced deferred ds, sy_made := m, sy_closed := c \<rparr>)"
  using assms by (auto simp: sys_ok_def fenced_def in_command_def past_wait_def)

lemma install_facts:
  assumes "install_swap D new_dsp outcome s = (old, s')" "cells_ok s"
  shows "cells_ok s'" "\<not> ds_rebuild_takeover s'" "ds_rebuild_work s' = ds_rebuild_work s"
    "add_mset (ident old) (owned_streams ident s') = add_mset (ident new_dsp) (owned_streams ident s)"
proof -
  obtain c q t where r: "replace_device D new_dsp c q s = (old, t)" and s': "s' = t\<lparr> ds_rebuild_takeover := False \<rparr>"
    using assms(1) by (auto simp: install_swap_def Let_def split: prod.splits)
  have h: "has_timer s' = has_timer t" by (simp add: s' has_timer_def)
  show "cells_ok s'" using replace_cells [OF r assms(2)] h by (auto simp: cells_ok_def s')
  show "\<not> ds_rebuild_takeover s'" "ds_rebuild_work s' = ds_rebuild_work s" using replace_device_spec(7) [OF r] by (simp_all add: s')
  show "add_mset (ident old) (owned_streams ident s') = add_mset (ident new_dsp) (owned_streams ident s)"
    using replace_device_streams [OF r] by (simp add: s' owned_streams_unfold)
qed

lemma main_step_ok:
  assumes "main_step D (sy_main y) (sy_data y) stage s made dropped" "sys_ok y"
  shows "sys_ok (y\<lparr> sy_data := s, sy_main := stage, sy_made := sy_made y + made, sy_closed := sy_closed y + dropped \<rparr>)"
proof -
  have c: "cells_ok (sy_data y)" using assms(2) by (simp add: sys_ok_def)
  show ?thesis using assms(1)
proof (cases rule: main_step.cases)
  case (start accepted)
  then show ?thesis using start_base [of "sy_data y" accepted] assms(2)
    by (auto simp: sys_ok_def in_command_def past_wait_def ctl_def)
next
  case stop_flag
  then show ?thesis using assms(2)
    by (auto simp: sys_ok_def in_command_def past_wait_def cells_ok_def with_shared_def has_timer_def)
next
  case (pause deferred)
  then show ?thesis by (simp only: fenced_sys_ok [OF assms(2) \<open>sy_main y = MIdle\<close> pause_fences(1) [OF \<open>pause_loop D (sy_data y) = (deferred, s)\<close> c]])
next
  case (suspend placeholder retired deferred)
  then show ?thesis by (simp only: fenced_sys_ok [OF assms(2) \<open>sy_main y = MIdle\<close> suspend_fences(1) [OF \<open>suspend_loop D placeholder (sy_data y) = ((retired, deferred), s)\<close> c]])
next
  case (takeover deferred)
  then have t: "\<not> ds_rebuild_takeover (sy_data y)" using assms(2) by (simp add: sys_ok_def in_command_def)
  show ?thesis using takeover by (simp only: fenced_sys_ok [OF assms(2) \<open>sy_main y = MIdle\<close> takeover_fences(1) [OF \<open>begin_takeover D (sy_data y) = (deferred, s)\<close> c t]])
next
  case (drain deferred ds)
  then show ?thesis using discard_cells [of "sy_data y"] assms(2) by (auto simp: sys_ok_def in_command_def past_wait_def)
next
  case (waited ds)
  then show ?thesis using assms(2) by (auto simp: sys_ok_def in_command_def past_wait_def worker_idle_def)
next
  case (drain_again ds)
  then show ?thesis using discard_cells [of "sy_data y"] assms(2) by (auto simp: sys_ok_def in_command_def past_wait_def)
next
  case (retire ds closed_device)
  then show ?thesis using assms(2) by (auto simp: sys_ok_def in_command_def past_wait_def cells_ok_def has_timer_def)
next
  case (install new_dsp outcome old ds)
  note f = install_facts [OF \<open>install_swap D new_dsp outcome (sy_data y) = (old, s)\<close> c]
  show ?thesis using install f assms(2) by (auto simp: sys_ok_def in_command_def past_wait_def)
next
  case (release ds)
  then show ?thesis using assms(2)
    by (auto simp: sys_ok_def in_command_def past_wait_def cells_ok_def has_timer_def release_rebuild_takeover_def)
next
  case stop
  then show ?thesis using assms(2)
    by (auto simp: sys_ok_def in_command_def past_wait_def cells_ok_def with_shared_def with_slot_def has_timer_def)
next
  case (close slot)
  then show ?thesis using assms(2)
    by (auto simp: sys_ok_def in_command_def past_wait_def cells_ok_def with_slot_def has_timer_def slot_close_def split: if_splits)
qed
qed

lemma main_step_accounted:
  assumes "main_step D (sy_main y) (sy_data y) stage s made dropped" "sys_ok y" "accounted ident y"
  shows "accounted ident (y\<lparr> sy_data := s, sy_main := stage, sy_made := sy_made y + made, sy_closed := sy_closed y + dropped \<rparr>)"
proof -
  have c: "cells_ok (sy_data y)" using assms(2) by (simp add: sys_ok_def)
  show ?thesis using assms(1)
  proof (cases rule: main_step.cases)
    case (start accepted)
    then show ?thesis using start_base(3) [OF c, of accepted] assms(3) by (simp add: accounted_unfold)
  next
    case stop_flag
    then show ?thesis using assms(3) by (simp add: accounted_unfold owned_streams_unfold with_shared_def)
  next
    case (pause deferred)
    then show ?thesis using assms(3) by (simp add: accounted_unfold ac_simps flip: pause_fences(2) [OF \<open>pause_loop D (sy_data y) = (deferred, s)\<close> c])
  next
    case (suspend placeholder retired deferred)
    have "owned_streams ident s + image_mset ident (held work_devices deferred) + {#ident retired#}
        = {#ident placeholder#} + owned_streams ident (sy_data y)"
      using suspend_fences(2) [OF \<open>suspend_loop D placeholder (sy_data y) = ((retired, deferred), s)\<close> c] by simp
    from mset_balance [OF this, of "image_mset ident (worker_devices (sy_worker y))" "image_mset ident (sy_closed y)" "image_mset ident (sy_made y)"]
    show ?thesis using suspend assms(3) by (simp add: accounted_unfold)
  next
    case (takeover deferred)
    then have t: "\<not> ds_rebuild_takeover (sy_data y)" using assms(2) by (simp add: sys_ok_def in_command_def)
    show ?thesis using takeover assms(3) by (simp add: accounted_unfold ac_simps flip: takeover_fences(2) [OF \<open>begin_takeover D (sy_data y) = (deferred, s)\<close> c t])
  next
    case (drain deferred ds)
    then show ?thesis using assms(3) by (simp add: accounted_unfold ac_simps flip: discard_owned [of ident "sy_data y"])
  next
    case (waited ds)
    then show ?thesis using assms(3) by (simp add: accounted_unfold)
  next
    case (drain_again ds)
    then show ?thesis using assms(3) by (simp add: accounted_unfold ac_simps flip: discard_owned [of ident "sy_data y"])
  next
    case (retire ds closed_device)
    then show ?thesis using assms(3) by (simp add: accounted_unfold owned_streams_unfold ac_simps)
  next
    case (install new_dsp outcome old ds)
    have "owned_streams ident s + {#} + {#ident old#} = {#ident new_dsp#} + owned_streams ident (sy_data y)"
      using install_facts(4) [OF \<open>install_swap D new_dsp outcome (sy_data y) = (old, s)\<close> c] by simp
    from mset_balance [OF this, of "image_mset ident (worker_devices (sy_worker y)) + image_mset ident (mset ds)"
        "image_mset ident (sy_closed y)" "image_mset ident (sy_made y)"]
    show ?thesis using install assms(3) by (simp add: accounted_unfold ac_simps)
  next
    case (release ds)
    then show ?thesis using assms(3) by (simp add: accounted_unfold owned_streams_unfold release_rebuild_takeover_def ac_simps)
  next
    case stop
    then show ?thesis using assms(3) by (simp add: accounted_unfold owned_streams_unfold with_shared_def with_slot_def ac_simps)
  next
    case (close slot)
    then show ?thesis using assms(3) by (auto simp: accounted_unfold owned_streams_unfold with_slot_def slot_close_def split: if_splits)
  qed
qed

lemma sys_step_ok: "sys_step D ident y z \<Longrightarrow> sys_ok y \<Longrightarrow> accounted ident y \<Longrightarrow> sys_ok z \<and> accounted ident z"
proof (induction rule: sys_step.induct)
  case (data_poll y)
  then have c: "cells_ok (sy_data y)" by (simp add: sys_ok_def)
  then have "owned_streams ident (snd (poll_rebuild D (sy_data y))) = owned_streams ident (sy_data y)"
    using poll_conserves [of "sy_data y"] by (simp add: cells_ok_def)
  then show ?case using data_keeps_sys_ok [OF data_poll(1), of "snd (poll_rebuild D (sy_data y))"] poll_cells [OF c]
      taken_over(1) [of "sy_data y" D] data_poll(2) by (simp add: accounted_unfold)
next
  case (data_queue y)
  then have c: "cells_ok (sy_data y)" by (simp add: sys_ok_def)
  have "owned_streams ident (snd (queue_rebuild (sy_data y))) = owned_streams ident (sy_data y)"
    by (simp add: owned_streams_def queue_rebuild_owned)
  then show ?case using data_keeps_sys_ok [OF data_queue(1), of "snd (queue_rebuild (sy_data y))"] queue_cells [OF c]
      taken_over(2) [of "sy_data y"] data_queue(2) by (simp add: accounted_unfold)
next
  case (data_missed y)
  then have c: "cells_ok (sy_data y)" by (simp add: sys_ok_def)
  have "owned_streams ident (snd (flush_deferred_work (sy_data y))) = owned_streams ident (sy_data y)"
    by (simp add: owned_streams_def flush_owned)
  then show ?case using data_keeps_sys_ok [OF data_missed(2), of "snd (flush_deferred_work (sy_data y))"] flush_cells [OF c]
      data_missed(1,3) by (simp add: accounted_unfold)
next
  case (data_other y s)
  then have c: "cells_ok (sy_data y)" by (simp add: sys_ok_def)
  have "owned_streams ident s = owned_streams ident (sy_data y)" using data_other(1) by (rule data_frame_streams)
  then show ?case using data_keeps_sys_ok [OF data_other(2), of s] frame_cells [OF data_other(1) c] data_other(1,3)
    by (simp add: accounted_unfold data_frame_def)
next
  case (worker opened y stage s made dropped)
  then show ?case using worker_turn_ok worker_turn_accounted by blast
next
  case (worker_unwinds y request res dsp)
  then show ?case
    by (cases "sy_main y")
      (auto simp: sys_ok_def worker_answer_def mailbox_ok_def past_wait_def accounted_unfold swap_devices_def)
next
  case (main y stage s made dropped)
  then show ?case using main_step_ok main_step_accounted by blast
next
  case (join y)
  then show ?case by (auto simp: sys_ok_def in_command_def past_wait_def accounted_unfold)
qed

lemma start_ok: "fresh_node s \<Longrightarrow> sys_ok (sys_start s) \<and> accounted ident (sys_start s)"
  by (simp add: fresh_node_def sys_ok_def sys_start_def cells_ok_def mailbox_ok_def in_command_def past_wait_def
      accounted_unfold owned_streams_unfold)

text \<open>On an idle node nothing stands between a takeover and its end.\<close>

lemma takeover_reaches_quiet:
  assumes "fresh_node s"
  obtains y where "(sys_step D ident)\<^sup>*\<^sup>* (sys_start s) y" "sy_main y = MQuiet []"
proof -
  let ?y0 = "sys_start s"
  obtain deferred s1 where t: "begin_takeover D s = (deferred, s1)" by fastforce
  have ok: "sys_ok ?y0" using start_ok [OF assms] by blast
  have nt: "\<not> ds_rebuild_takeover s" "cells_ok s" using ok assms by (simp_all add: sys_ok_def sys_start_def fresh_node_def)
  have idle: "worker_idle (ds_rebuild_work s1)"
    using takeover_fences(1) [OF t nt(2,1)] assms by (simp add: fenced_def fresh_node_def worker_idle_def)
  define y1 where "y1 = ?y0\<lparr> sy_data := s1, sy_main := MFenced deferred [], sy_made := sy_made ?y0 + {#}, sy_closed := sy_closed ?y0 + {#} \<rparr>"
  have m: "sy_main y1 = MFenced deferred []" "sy_data y1 = s1" by (simp_all add: y1_def)
  have s1: "sys_step D ident ?y0 y1" unfolding y1_def
    by (rule sys_step.main) (simp add: sys_start_def main_step.takeover [OF t])
  obtain y2 where s2: "sys_step D ident y1 y2" and m2: "sy_main y2 = MDrained []" "ds_rebuild_work (sy_data y2) = ds_rebuild_work s1"
    using sys_step.main [of D y1, unfolded m, OF main_step.drain] by fastforce
  have w: "worker_idle (ds_rebuild_work (sy_data y2))" using idle m2(2) by simp
  obtain y3 where s3: "sys_step D ident y2 y3" and m3: "sy_main y3 = MWaited []"
    using sys_step.main [of D y2, unfolded m2(1), OF main_step.waited [OF w]] by fastforce
  obtain y4 where s4: "sys_step D ident y3 y4" and m4: "sy_main y4 = MQuiet []"
    using sys_step.main [of D y3, unfolded m3, OF main_step.drain_again] by fastforce
  have "(sys_step D ident)\<^sup>*\<^sup>* ?y0 y4" using s1 s2 s3 s4 by (meson converse_rtranclp_into_rtranclp rtranclp.rtrancl_refl)
  then show thesis using that m4 by blast
qed

lemma reachable_ok:
  assumes "(sys_step D ident)\<^sup>*\<^sup>* (sys_start s) y" "fresh_node s"
  shows "sys_ok y \<and> accounted ident y"
  using assms(1)
proof (induction rule: rtranclp_induct)
  case base
  then show ?case by (rule start_ok [OF assms(2)])
next
  case (step y z)
  then show ?case using sys_step_ok by blast
qed

end

section \<open>The worker's turns\<close>

text \<open>The turns of one request, with the data state each of them finds: until there is an answer.\<close>

fun task_turns ::
    "(int + configure_outcome) \<times> 'd \<Rightarrow> ('d, 'p) worker_stage \<Rightarrow> ('d, 'p, 'x, 's, 'w) data_state list
       \<Rightarrow> ('d, 'p) worker_stage \<times> 'd multiset" where
  "task_turns opened stage [] = (stage, {#})"
| "task_turns opened stage (s # ss) =
     (case stage of
        WAnswer answer \<Rightarrow> (stage, {#})
      | _ \<Rightarrow> (case worker_turn opened stage s of
                None \<Rightarrow> (stage, {#})
              | Some (stage, _, _, dropped) \<Rightarrow> let (final, more) = task_turns opened stage ss in (final, dropped + more)))"

text \<open>A bound on the turns left: a command in the slot takes six, the one being run fewer.\<close>

fun stage_rank :: "('d, 'p) worker_stage \<Rightarrow> nat" where
  "stage_rank (WTaken _) = 5"
| "stage_rank (WBegun _) = 4"
| "stage_rank (WOpened _ _ _) = 3"
| "stage_rank (WAnswer (Some _)) = 2"
| "stage_rank (WAnswer None) = 1"
| "stage_rank _ = 0"

definition turns_left :: "('d, 'p, 'x, 's, 'w) system \<Rightarrow> nat" where
  "turns_left y = stage_rank (sy_worker y) + (if ws_value (ds_rebuild_work (sy_data y)) = None then 0 else 6)"

fun worker_run :: "((int + configure_outcome) \<times> 'd) list \<Rightarrow> ('d, 'p, 'x, 's, 'w) system \<Rightarrow> ('d, 'p, 'x, 's, 'w) system" where
  "worker_run [] y = y"
| "worker_run (opened # rest) y =
     (case worker_turn opened (sy_worker y) (sy_data y) of
        None \<Rightarrow> y
      | Some (stage, s, made, dropped) \<Rightarrow>
          worker_run rest (y\<lparr> sy_data := s, sy_worker := stage, sy_made := sy_made y + made, sy_closed := sy_closed y + dropped \<rparr>))"

lemma turn_decreases:
  assumes "worker_turn opened (sy_worker y) (sy_data y) = Some (stage, s, made, dropped)" "sys_ok y" "in_command (sy_main y)"
  shows "turns_left (y\<lparr> sy_data := s, sy_worker := stage, sy_made := m, sy_closed := c \<rparr>) < turns_left y"
proof -
  have "\<not> ws_closed (ds_rebuild_work (sy_data y))" using assms(2,3) by (auto simp: sys_ok_def in_command_def)
  then show ?thesis using assms(1)
    by (cases "(opened, sy_worker y, sy_data y)" rule: worker_turn.cases)
      (auto simp: turns_left_def slot_take_def with_slot_def with_shared_def worker_answer_def
        split: option.splits if_splits rebuild_work.splits)
qed

lemma no_turn_idle:
  assumes "worker_turn opened (sy_worker y) (sy_data y) = None" "sys_ok y" "in_command (sy_main y)"
  shows "worker_idle (ds_rebuild_work (sy_data y))"
proof -
  have a: "ws_active (ds_rebuild_work (sy_data y)) = (sy_worker y \<noteq> WIdle \<and> sy_worker y \<noteq> WExited)"
    "sy_worker y \<noteq> WExited" using assms(2,3) by (auto simp: sys_ok_def in_command_def)
  then show ?thesis using assms(1)
    by (cases "(opened, sy_worker y, sy_data y)" rule: worker_turn.cases)
      (auto simp: worker_idle_def slot_take_def split: option.splits if_splits rebuild_work.splits)
qed

lemma no_turns_left_idle: "turns_left y = 0 \<Longrightarrow> sys_ok y \<Longrightarrow> in_command (sy_main y) \<Longrightarrow> worker_idle (ds_rebuild_work (sy_data y))"
  by (cases "sy_worker y" rule: stage_rank.cases) (auto simp: turns_left_def worker_idle_def sys_ok_def split: if_splits)

lemma worker_run_idles:
  "sys_ok y \<Longrightarrow> in_command (sy_main y) \<Longrightarrow> turns_left y \<le> length answers \<Longrightarrow>
     worker_idle (ds_rebuild_work (sy_data (worker_run answers y)))"
proof (induction answers y rule: worker_run.induct)
  case (1 y)
  then show ?case using no_turns_left_idle by simp
next
  case (2 opened rest y)
  show ?case
  proof (cases "worker_turn opened (sy_worker y) (sy_data y)")
    case None
    then show ?thesis using no_turn_idle [OF None 2(2,3)] by simp
  next
    case (Some r)
    obtain stage s made dropped where r: "r = (stage, s, made, dropped)" by (cases r)
    let ?z = "y\<lparr> sy_data := s, sy_worker := stage, sy_made := sy_made y + made, sy_closed := sy_closed y + dropped \<rparr>"
    have t: "worker_turn opened (sy_worker y) (sy_data y) = Some (stage, s, made, dropped)" using Some r by simp
    have "sys_ok ?z" using worker_turn_ok [OF t 2(2)] .
    moreover have "turns_left ?z \<le> length rest" using turn_decreases [OF t 2(2,3), where m = "sy_made y + made" and c = "sy_closed y + dropped"] 2(4) by simp
    ultimately show ?thesis using 2(1) [OF t refl refl refl] 2(3) t by simp
  qed
qed

lemma turns_left_bound: "turns_left y \<le> 11"
  by (cases "sy_worker y" rule: stage_rank.cases) (simp_all add: turns_left_def)

end
