(* ===== verification/SourceNode.thy ===== *)
theory SourceNode
  imports SinkNode CaptureIface
begin

text \<open>
  The capture node (crates/core/src/node/source/mod.rs and source/buffer.rs) over any backend \<open>C\<close>:
  fill geometry, retuning, priming, the bounded silence-padded read, overrun recovery and the process
  cycle. \<open>EMPTY_CYCLE\<close> (-1) is \<open>None\<close>. A cycle's bytes are a list; the code writes them at the front of
  the host's block, and what its reads may leave behind them is outside the published chunk. The
  servo's relock, the device access inside a port and the freewheel flag are those of the sink.
\<close>

section \<open>State\<close>

record source_port_ext =
  cx_primed :: bool
  cx_active_buffers :: nat
  cx_target_fill :: u32
  cx_read_peak :: u32
  cx_ring_size :: u32
  cx_retune_pending :: bool
  cx_was_freewheeling :: bool

type_synonym 'd source_port = "('d, source_port_ext) port"
type_synonym ('d, 'p, 'w) source_state = "('d, 'p, source_port_ext, unit, 'w) data_state"

definition source_port_ext_default :: source_port_ext where
  "source_port_ext_default = \<lparr> cx_primed = False, cx_active_buffers = 0, cx_target_fill = 0, cx_read_peak = 0,
     cx_ring_size = 0, cx_retune_pending = False, cx_was_freewheeling = False \<rparr>"

section \<open>Measurements and silence\<close>

definition source_measured_fill :: "('d, 'p) capture_ops \<Rightarrow> 'd source_port \<Rightarrow> u32 \<times> 'd source_port" where
  "source_measured_fill C port =
     (case wake_queue_fill port of
        Some fill \<Rightarrow> (fill, port)
      | None \<Rightarrow> on_dsp (cb_queued_bytes C) port)"

definition source_measured_overruns :: "('d, 'p) capture_ops \<Rightarrow> 'd source_port \<Rightarrow> xrun_delta \<times> 'd source_port" where
  "source_measured_overruns C port =
     (case take_wake_xruns port of
        (Some delta, port) \<Rightarrow> (delta, port)
      | (None, port) \<Rightarrow> let (observation, port) = on_dsp (cb_overruns C) port in take_polled_xruns observation port)"

definition port_silence :: "('d, 'x) port \<Rightarrow> nat \<Rightarrow> byte list" where
  "port_silence port n =
     silence_fill (case p_config port of Some c \<Rightarrow> silence_for_config c | None \<Rightarrow> silence_zero 1) n"

section \<open>Geometry and priming\<close>

definition source_commit_geometry :: "u32 \<Rightarrow> capture_geometry \<Rightarrow> 'd source_port \<Rightarrow> bool \<times> 'd source_port" where
  "source_commit_geometry period geometry port =
     (if period = 0 then (False, port)
      else let port = port\<lparr> p_setup_period := period,
                 p_delivery_quantum_bytes := cg_quantum_bytes geometry,
                 p_ext := (p_ext port)\<lparr> cx_ring_size := cg_capacity_bytes geometry,
                   cx_target_fill := cg_target_fill_bytes geometry,
                   cx_read_peak := cg_peak_fill_bytes geometry \<rparr> \<rparr>;
               port = relock port;
               (stride, rate) = (case stride_rate port of Some sr \<Rightarrow> sr | None \<Rightarrow> (1, 0))
           in (True, port\<lparr> p_bw_adapt := bw_configure stride (cg_quantum_bytes geometry) period
                       (sat_mul32 rate stride) (p_bw_adapt port) \<rparr>))"

definition source_retune_period :: "('d, 'p) capture_ops \<Rightarrow> u32 \<Rightarrow> 'd source_port \<Rightarrow> bool \<times> 'd source_port" where
  "source_retune_period C period_in_bytes port =
     (let pending = (\<lambda>b port. upd_ext (\<lambda>x. x\<lparr> cx_retune_pending := b \<rparr>) port)
      in case stride_rate port of
        None \<Rightarrow> (False, pending False port)
      | Some (stride, device_rate) \<Rightarrow>
          let request = \<lparr> cr_period_bytes = period_in_bytes, cr_graph_rate = 0, cr_stride = stride,
                cr_device_rate = device_rate \<rparr>;
              (retune, port) = on_dsp (cb_retune_buffer C request (cx_primed (p_ext port))) port
          in case retune of
               CRUnchanged \<Rightarrow> (False, pending False port)
             | CRPending \<Rightarrow> (False, pending True port)
             | CRApplied geometry \<Rightarrow> (False, snd (source_commit_geometry period_in_bytes geometry (pending False port)))
             | CRReprime \<Rightarrow> (False, reset_stream_epoch (upd_ext (\<lambda>x. x\<lparr> cx_primed := False \<rparr>) (pending False port)))
             | CRRebuild \<Rightarrow> (True, pending True port))"

definition prime_capture ::
    "('d, 'p) capture_ops \<Rightarrow> u32 \<Rightarrow> u32 \<Rightarrow> 'p \<Rightarrow> nat \<Rightarrow> 'd source_port \<Rightarrow> byte list option \<times> 'd source_port" where
  "prime_capture C period_in_bytes graph_rate properties len port =
     (case stride_rate port of
        None \<Rightarrow> (None, port)
      | Some (stride, rate) \<Rightarrow>
          let (geometry, port) = on_dsp (cb_prime_buffer C \<lparr> cr_period_bytes = period_in_bytes,
                cr_graph_rate = graph_rate, cr_stride = stride, cr_device_rate = rate \<rparr> properties len) port;
              port = port\<lparr> p_rebuild_required := p_rebuild_required port \<or> cg_device_lost geometry,
                           p_ext := (p_ext port)\<lparr> cx_primed := True \<rparr> \<rparr>;
              (_, port) = source_commit_geometry period_in_bytes geometry port;
              port = port\<lparr> p_dsp := cb_clear_overrun_observation C (p_dsp port) \<rparr>
          in (Some (port_silence port (min period_in_bytes (as_u32 len))), port))"

section \<open>The servo and the read\<close>

definition source_follower_servo :: "u32 \<Rightarrow> u64 \<Rightarrow> u32 \<Rightarrow> 'd source_port \<Rightarrow> real \<times> 'd source_port" where
  "source_follower_servo queued now stride port =
     (let port = (if \<not> p_was_matching port then relock port else port);
          err_raw = real (cx_target_fill (p_ext port)) - real queued;
          snap = max (p_setup_period port) (p_delivery_quantum_bytes port div 2 + p_setup_period port div 2)
      in if \<bar>err_raw\<bar> > real snap then (1, relock port)
         else let max_err = servo_max_err (p_setup_period port) stride;
                  err = clamp err_raw (- max_err) max_err;
                  (corr, dll) = dll_update err (p_dll port);
                  (adapt, dll) = update_fill err now (p_bw_adapt port, dll)
              in (corr, port\<lparr> p_dll := dll, p_bw_adapt := adapt \<rparr>))"

definition read_request :: "u32 \<Rightarrow> u32 \<Rightarrow> u32 \<Rightarrow> 'd source_port \<Rightarrow> u32" where
  "read_request queued maxsize stride port =
     (let want = (if p_setup_period port \<noteq> 0
                  then sat_add32 (p_setup_period port) (sat_sub queued (cx_read_peak (p_ext port))) else queued)
      in min (min want queued) maxsize div stride * stride)"

definition bounded_read ::
    "('d, 'p) capture_ops \<Rightarrow> u32 \<Rightarrow> nat \<Rightarrow> u32 \<Rightarrow> 'd source_port \<Rightarrow> byte list \<times> 'd source_port" where
  "bounded_read C queued len stride port =
     (let maxsize = as_u32 len;
          ispace = read_request queued maxsize stride port;
          (bytes, port) =
            (if ispace > 0
             then let ((outcome, buf), port) = on_dsp (cb_read C ispace) port;
                      port = latch_rebuild_required (ro_status outcome) port
                  in (take (as_u32 (ro_bytes outcome)) buf, port)
             else ([], port));
          nread = length bytes;
          period = min (p_setup_period port) maxsize;
          out = (if period > 0 then max nread period else nread)
      in (bytes @ port_silence port (out - nread), port))"

section \<open>Overruns\<close>

definition source_recover_overrun ::
    "('d, 'p) capture_ops \<Rightarrow> xrun_delta \<Rightarrow> u32 option \<Rightarrow> u64 \<Rightarrow> 'd source_port \<Rightarrow> 'd source_port" where
  "source_recover_overrun C overrun pre_read_fill now port =
     (let (res, port) = on_dsp (cb_recover_overrun C (xd_events overrun) pre_read_fill) port
      in case res of
           None \<Rightarrow> port
         | Some reset_epoch \<Rightarrow>
             let port = port\<lparr> p_warn_limit := snd (rate_limit_check now (p_warn_limit port)),
                   p_pending_xrun := Some (pending_xrun_of (now div 1000) overrun (p_config port)) \<rparr>;
                 rebuild_required = p_rebuild_required port;
                 port = (if reset_epoch
                         then (reset_stream_epoch port)\<lparr> p_rebuild_required := rebuild_required \<rparr> else port)
             in relock (upd_ext (\<lambda>x. x\<lparr> cx_primed := False \<rparr>) port))"

section \<open>The process cycle\<close>

text \<open>What the cycle hands to the graph: freewheeling silence, the priming silence, nothing, or a
  bounded read; the rate correction; and the fill the read path saw.\<close>

definition source_produce ::
    "('d, 'p) capture_ops \<Rightarrow> bool \<Rightarrow> bool \<Rightarrow> u32 \<Rightarrow> u32 \<Rightarrow> u32 \<Rightarrow> nat \<Rightarrow> ('d, 'p, 'w) source_state
       \<Rightarrow> (byte list option \<times> real \<times> u32 option) \<times> ('d, 'p, 'w) source_state" where
  "source_produce C freewheel matching period_in_bytes graph_rate stride len s =
     (let port = ds_port s
      in if freewheel \<and> period_in_bytes > 0
         then ((Some (port_silence port (min period_in_bytes (as_u32 len))), 1, None), s)
         else if \<not> cx_primed (p_ext port) \<and> period_in_bytes > 0
         then let (out, port) = prime_capture C period_in_bytes graph_rate (ds_properties s) len port
              in ((out, 1, None), s\<lparr> ds_port := port \<rparr>)
         else if \<not> cb_is_running C (p_dsp port) then ((None, 1, None), s)
         else let (queued, port) = source_measured_fill C port;
                  s = s\<lparr> ds_port := port \<rparr>;
                  (corr, s) =
                    (if matching \<and> period_in_bytes > 0 \<and> p_setup_period port \<noteq> 0 \<and> \<not> cx_retune_pending (p_ext port)
                     then let (now, s) = try_now_ns s;
                              (corr, port) = source_follower_servo queued (case now of Some n \<Rightarrow> n | None \<Rightarrow> 0) stride (ds_port s)
                          in (corr, s\<lparr> ds_port := port \<rparr>)
                     else (1, s));
                  (out, port) = bounded_read C queued len stride (ds_port s)
              in ((Some out, corr, Some queued), s\<lparr> ds_port := port \<rparr>))"

definition source_publish_rate_match :: "bool \<Rightarrow> real \<Rightarrow> ('d, 'x) port \<Rightarrow> ('d, 'x) port" where
  "source_publish_rate_match matching corr port =
     port\<lparr> p_rate_match := map_option (\<lambda>rm. rm\<lparr> rm_active := matching,
             rm_rate := (if matching then clamp (1 / corr) (99 / 100) (101 / 100) else 1) \<rparr>) (p_rate_match port) \<rparr>"

text \<open>The chunk and the bytes reach the host's buffer; \<open>publish\<close> panics on a size beyond the block.\<close>

definition put_block :: "u32 \<Rightarrow> byte list \<Rightarrow> spa_chunk \<Rightarrow> ('d, 'x) port \<Rightarrow> ('d, 'x) port" where
  "put_block buffer_id bytes chunk port =
     port\<lparr> p_buffers := (p_buffers port)[buffer_id := map_option (\<lambda>buf. buf\<lparr> sb_data_0 := map_option
        (\<lambda>d. d\<lparr> sd_data := map_option (\<lambda>old. bytes @ drop (length bytes) old) (sd_data d), sd_chunk := Some chunk \<rparr>)
        (sb_data_0 buf) \<rparr>) (p_buffers port ! buffer_id)] \<rparr>"

definition source_deliver ::
    "u32 \<Rightarrow> u32 \<Rightarrow> data_block \<Rightarrow> byte list option \<Rightarrow> ('d, 'p, 'w) source_state \<Rightarrow> 32 word \<times> ('d, 'p, 'w) source_state" where
  "source_deliver buffer_id stride data_0 out s =
     (let answer = (\<lambda>st port. port\<lparr> p_io := map_option (\<lambda>io. io\<lparr> io_buffer_id := buffer_id, io_status := st \<rparr>) (p_io port) \<rparr>)
      in case out of
           Some bytes \<Rightarrow>
             (case publish (length bytes) stride data_0 of
                None \<Rightarrow> (SPA_STATUS_HAVE_DATA, s\<lparr> ds_panic := True \<rparr>)
              | Some block \<Rightarrow> (SPA_STATUS_HAVE_DATA,
                  upd_port (\<lambda>port. answer SPA_STATUS_HAVE_DATA (put_block buffer_id bytes (db_chunk block) port)) s))
         | None \<Rightarrow> (SPA_STATUS_OK, upd_port (answer SPA_STATUS_OK) s))"

definition source_settle_overruns ::
    "('d, 'p) capture_ops \<Rightarrow> bool \<Rightarrow> u32 option \<Rightarrow> ('d, 'p, 'w) source_state \<Rightarrow> ('d, 'p, 'w) source_state" where
  "source_settle_overruns C freewheel pre_read_fill s =
     (let (overruns, port) = (if cb_is_running C (p_dsp (ds_port s)) \<and> \<not> freewheel
                              then source_measured_overruns C (ds_port s) else (xrun_delta_default, ds_port s));
          s = s\<lparr> ds_port := port \<rparr>
      in if xd_events overruns > 0
         then let (now, s) = try_now_ns s
              in upd_port (source_recover_overrun C overruns pre_read_fill (case now of Some n \<Rightarrow> n | None \<Rightarrow> 0)) s
         else upd_port (\<lambda>port. port\<lparr> p_dsp := cb_clear_overrun_observation C (p_dsp port) \<rparr>) s)"

definition source_transfer ::
    "('d, 'p) capture_ops \<Rightarrow> bool \<Rightarrow> u32 \<Rightarrow> u32 \<Rightarrow> u32 \<Rightarrow> u32 \<Rightarrow> data_block \<Rightarrow> ('d, 'p, 'w) source_state
       \<Rightarrow> 32 word \<times> ('d, 'p, 'w) source_state" where
  "source_transfer C matching period_in_bytes graph_rate stride buffer_id data_0 s =
     (let freewheel = freewheeling s;
          s = upd_port (\<lambda>port. upd_ext (\<lambda>x. x\<lparr> cx_primed := cx_primed x \<and> \<not> (cx_was_freewheeling x \<and> \<not> freewheel),
                                          cx_was_freewheeling := freewheel \<rparr>) port) s;
          ((out, corr, pre_read_fill), s) =
            source_produce C freewheel matching period_in_bytes graph_rate stride (length (output_slice data_0)) s;
          s = upd_port (\<lambda>port. (if out \<noteq> None then source_publish_rate_match matching corr port else port)
                               \<lparr> p_was_matching := matching \<rparr>) s;
          s = source_settle_overruns C freewheel pre_read_fill s
      in source_deliver buffer_id stride data_0 out s)"

definition source_block ::
    "('d, 'p) capture_ops \<Rightarrow> u32 \<Rightarrow> u32 \<Rightarrow> u32 \<Rightarrow> data_block \<Rightarrow> ('d, 'p, 'w) source_state
       \<Rightarrow> 32 word \<times> ('d, 'p, 'w) source_state" where
  "source_block C stride rate buffer_id data_0 s =
     (let matching = (ds_following s \<and> \<not> (case ds_position s of Some p \<Rightarrow> same_clock p (ds_clock_name s) | None \<Rightarrow> False));
          (graph_rate, period_in_bytes) =
            (case ds_position s of
               None \<Rightarrow> (0, 0)
             | Some p \<Rightarrow> let clock = pos_clock p; denom = fr_denom (clk_target_rate clock)
                         in if denom > 0 then (denom, device_period_bytes (clk_target_duration clock) rate denom stride)
                            else (0, 0));
          (rebuild, port) = source_retune_period C period_in_bytes (ds_port s);
          s = s\<lparr> ds_port := port \<rparr>;
          (pending, s) = (if rebuild then queue_rebuild s else (False, s))
      in if pending then (SPA_STATUS_OK, s)
         else source_transfer C matching period_in_bytes graph_rate stride buffer_id data_0 s)"

definition source_process_ports ::
    "('d, 'p, source_port_ext, unit, 'w) direction \<Rightarrow> ('d, 'p) capture_ops
       \<Rightarrow> ('d, 'p, 'w) source_state \<Rightarrow> 32 word \<times> ('d, 'p, 'w) source_state" where
  "source_process_ports D C s =
     (let (skip, s) = poll_rebuild D s
      in if skip then (SPA_STATUS_OK, s)
      else case stride_rate (ds_port s) of
        None \<Rightarrow> (SPA_STATUS_OK, s)
      | Some (stride, rate) \<Rightarrow>
          case p_io (ds_port s) of
            None \<Rightarrow> (SPA_STATUS_OK, s)
          | Some io \<Rightarrow>
              if p_buffers (ds_port s) = [] then (SPA_STATUS_OK, s)
              else if cb_is_closed C (p_dsp (ds_port s)) then (SPA_STATUS_OK, snd (queue_rebuild s))
              else if io_status io = SPA_STATUS_HAVE_DATA then (SPA_STATUS_HAVE_DATA, s)
              else if io_status io \<noteq> SPA_STATUS_OK \<and> io_status io \<noteq> SPA_STATUS_NEED_DATA then (SPA_STATUS_OK, s)
              else let fresh = (io_buffer_id io = u32_max);
                       buffer_id = (if fresh then as_u32 (cx_active_buffers (p_ext (ds_port s))) else io_buffer_id io);
                       s = (if fresh then upd_port (upd_ext (\<lambda>x. x\<lparr> cx_active_buffers := cx_active_buffers x + 1 \<rparr>)) s else s)
              in case valid_data_block (ds_port s) buffer_id of
                   None \<Rightarrow> (SPA_STATUS_OK, s)
                 | Some data_0 \<Rightarrow> source_block C stride rate buffer_id data_0 s)"

section \<open>The direction hooks\<close>

definition source_on_device_swapped :: "('d, 'p, 'w) source_state \<Rightarrow> ('d, 'p, 'w) source_state" where
  "source_on_device_swapped s =
     upd_port (\<lambda>port. let port = reset_stream_epoch port
       in upd_ext (\<lambda>x. x\<lparr> cx_primed := False, cx_active_buffers := 0 \<rparr>) (port\<lparr> p_dll := dll_init (p_dll port) \<rparr>)) s"

definition source_on_buffers_swapped :: "('d, 'p, 'w) source_state \<Rightarrow> ('d, 'p, 'w) source_state" where
  "source_on_buffers_swapped s = upd_port (upd_ext (\<lambda>x. x\<lparr> cx_active_buffers := 0 \<rparr>)) s"

definition source_on_start_loop :: "('d, 'p, 'w) source_state \<Rightarrow> ('d, 'p, 'w) source_state" where
  "source_on_start_loop s = upd_port (\<lambda>port. relock (upd_ext (\<lambda>x. x\<lparr> cx_primed := False \<rparr>) port)) s"

definition source_on_suspend_loop :: "('d, 'p, 'w) source_state \<Rightarrow> ('d, 'p, 'w) source_state" where
  "source_on_suspend_loop s = upd_port (upd_ext (\<lambda>x. x\<lparr> cx_primed := False \<rparr>)) s"

definition source_on_role_flip :: "('d, 'p, 'w) source_state \<Rightarrow> ('d, 'p, 'w) source_state" where
  "source_on_role_flip s = upd_port (\<lambda>port. (relock port)\<lparr> p_was_matching := False \<rparr>) s"

definition source_servo_err :: "'d source_port \<Rightarrow> u32 \<Rightarrow> real" where
  "source_servo_err port fill = real (cx_target_fill (p_ext port)) - real fill"

definition source_wake_buffer_state :: "'d source_port \<Rightarrow> wake_buffer_state" where
  "source_wake_buffer_state port =
     \<lparr> wb_frame_stride = (case stride_rate port of Some (stride, _) \<Rightarrow> stride | None \<Rightarrow> 1),
       wb_period_bytes = p_setup_period port, wb_quantum_bytes = p_delivery_quantum_bytes port,
       wb_capacity_bytes = cx_ring_size (p_ext port), wb_target_fill_bytes = cx_target_fill (p_ext port) \<rparr>"

definition source_direction ::
    "('d, 'p) capture_ops \<Rightarrow> ('d, 'w) wake_ops \<Rightarrow> (string \<Rightarrow> 'd)
       \<Rightarrow> (stream_config \<Rightarrow> 'p \<Rightarrow> 'd \<Rightarrow> (int + configure_outcome) \<times> 'd)
       \<Rightarrow> ('d, 'p, source_port_ext, unit, 'w) direction" where
  "source_direction C W new_device configure =
     \<lparr> dn_wake = W, dn_is_running = cb_is_running C, dn_new = new_device, dn_try_open_configure = configure,
       dn_servo_ready = (\<lambda>port. cx_primed (p_ext port)), dn_servo_fill = source_measured_fill C,
       dn_servo_hold = (\<lambda>port. False), dn_servo_err = source_servo_err,
       dn_wake_buffer_state = source_wake_buffer_state,
       dn_on_device_swapped = source_on_device_swapped, dn_on_buffers_swapped = source_on_buffers_swapped,
       dn_on_start_loop = source_on_start_loop, dn_on_pause_loop = (\<lambda>s. s),
       dn_on_suspend_loop = source_on_suspend_loop, dn_on_role_flip = source_on_role_flip \<rparr>"

section \<open>Facts about the phases of a cycle\<close>

text \<open>The host's side of the port and its protocol fields.\<close>

definition host_side :: "('d, 'x) port \<Rightarrow> ('d, 'x) port \<Rightarrow> bool" where
  "host_side port port' \<longleftrightarrow> p_io port' = p_io port \<and> port_frame port port'"

lemma host_side_refl [simp]: "host_side port port"
  by (simp add: host_side_def)

lemma host_side_trans: "host_side a b \<Longrightarrow> host_side b c \<Longrightarrow> host_side a c"
  unfolding host_side_def using port_frame_trans by metis

lemma host_side_simps [simp]:
  "host_side port (upd_ext f port)" "host_side port (relock port)" "host_side port (reset_stream_epoch port)"
  "host_side port (snd (on_dsp g port))" "host_side port (latch_rebuild_required st port)"
  "host_side port (port\<lparr> p_dsp := d \<rparr>)" "host_side port (port\<lparr> p_was_matching := b \<rparr>)"
  "host_side port (latch_rebuild_required st (port\<lparr> p_dsp := d \<rparr>))" "host_side port (source_publish_rate_match m r port)" "host_side port (snd (take_wake_xruns port))"
  "host_side port (snd (take_polled_xruns ob port))"
  by (simp_all add: host_side_def port_frame_def latch_rebuild_required_def source_publish_rate_match_def relock_def
      reset_stream_epoch_def take_wake_xruns_def take_polled_xruns_def case_prod_beta split: option.split)

lemma source_fill_host [simp]: "host_side port (snd (source_measured_fill C port))"
  by (simp add: source_measured_fill_def split: option.split)

lemma source_fill_sel [simp]:
  "p_ext (snd (source_measured_fill C port)) = p_ext port" "p_config (snd (source_measured_fill C port)) = p_config port"
  "p_setup_period (snd (source_measured_fill C port)) = p_setup_period port"
  by (simp_all add: source_measured_fill_def split: option.split)

lemma source_overruns_host [simp]: "host_side port (snd (source_measured_overruns C port))"
proof (cases "take_wake_xruns port")
  case (Pair d p)
  then have "host_side port p" using host_side_simps(10) [of port] by simp
  then show ?thesis using Pair host_side_trans [OF host_side_trans [OF _ host_side_simps(4)] host_side_simps(11)]
    by (auto simp: source_measured_overruns_def case_prod_beta Let_def split: option.split)
qed

lemma source_commit_sel [simp]:
  "p_dsp (snd (source_commit_geometry p g port)) = p_dsp port" "p_config (snd (source_commit_geometry p g port)) = p_config port"
  "p_io (snd (source_commit_geometry p g port)) = p_io port" "p_buffers (snd (source_commit_geometry p g port)) = p_buffers port"
  "p_generation (snd (source_commit_geometry p g port)) = p_generation port"
  "p_stream_token (snd (source_commit_geometry p g port)) = p_stream_token port"
  "p_rebuild_pending (snd (source_commit_geometry p g port)) = p_rebuild_pending port"
  "host_side port (snd (source_commit_geometry p g port))"
  by (simp_all add: source_commit_geometry_def host_side_def port_frame_def relock_def case_prod_beta Let_def)

lemma source_servo_sel [simp]:
  "p_dsp (snd (source_follower_servo q n st port)) = p_dsp port" "p_config (snd (source_follower_servo q n st port)) = p_config port"
  "p_setup_period (snd (source_follower_servo q n st port)) = p_setup_period port"
  "p_ext (snd (source_follower_servo q n st port)) = p_ext port"
  "host_side port (snd (source_follower_servo q n st port))"
  by (simp_all add: source_follower_servo_def host_side_def port_frame_def relock_def case_prod_beta Let_def)

lemma length_port_silence [simp]: "length (port_silence port n) = n"
  by (simp add: port_silence_def silence_fill_def)

lemma port_silence_cong: "p_config port' = p_config port \<Longrightarrow> port_silence port' n = port_silence port n"
  by (simp add: port_silence_def)

lemma read_request_bounds:
  "read_request queued maxsize stride port \<le> maxsize" "read_request queued maxsize stride port \<le> queued"
  "stride dvd read_request queued maxsize stride port"
proof -
  let ?w = "if p_setup_period port \<noteq> 0 then sat_add32 (p_setup_period port) (sat_sub queued (cx_read_peak (p_ext port))) else queued"
  have "read_request queued maxsize stride port \<le> min (min ?w queued) maxsize"
    by (simp only: read_request_def Let_def div_times_less_eq_dividend)
  then show "read_request queued maxsize stride port \<le> maxsize" "read_request queued maxsize stride port \<le> queued" by simp_all
  show "stride dvd read_request queued maxsize stride port" by (simp add: read_request_def)
qed

context capture_backend
begin

lemma bounded_read_facts:
  assumes "ok (p_dsp port)" "\<not> cb_is_closed C (p_dsp port)" "bounded_read C queued len st port = (out, port')"
  obtains n where "out = take n out @ port_silence port (length out - n)" "n \<le> length out" "stride (p_dsp port) dvd n"
    "length out = (if 0 < min (p_setup_period port) (as_u32 len) then max n (min (p_setup_period port) (as_u32 len)) else n)"
    "n \<le> read_request queued (as_u32 len) st port" "length out \<le> as_u32 len" "ok (p_dsp port')" "\<not> cb_is_closed C (p_dsp port')"
    "host_side port port'" "stride (p_dsp port') = stride (p_dsp port)"
    "0 < n \<Longrightarrow> \<exists>i. stride (p_dsp port) dvd i \<and> take n out = take n (drop i (consumed (p_dsp port')))"
    "0 < read_request queued (as_u32 len) st port \<Longrightarrow>
       p_dsp port' = snd (cb_read C (read_request queued (as_u32 len) st port) (p_dsp port))
     \<and> n = ro_bytes (fst (fst (cb_read C (read_request queued (as_u32 len) st port) (p_dsp port))))
     \<and> take n out = take n (snd (fst (cb_read C (read_request queued (as_u32 len) st port) (p_dsp port))))"
    "read_request queued (as_u32 len) st port = 0 \<Longrightarrow> p_dsp port' = p_dsp port"
proof -
  let ?req = "read_request queued (as_u32 len) st port"
  let ?rd = "cb_read C ?req (p_dsp port)"
  let ?n = "if 0 < ?req then as_u32 (ro_bytes (fst (fst ?rd))) else 0"
  note rd = read_ok [OF assms(1,2)] read_running [OF assms(1,2)] read_stride [OF assms(1,2)]
  have le: "ro_bytes (fst (fst ?rd)) \<le> length (snd (fst ?rd))" "length (snd (fst ?rd)) \<le> ?req"
    using read_le [OF assms(1,2)] read_len [OF assms(1,2)] by blast+
  have req: "?req \<le> as_u32 len" "as_u32 len < 4294967296" using read_request_bounds(1) by (simp_all add: as_u32_def)
  have lt: "ro_bytes (fst (fst ?rd)) < 4294967296" using le req by linarith
  then have n: "?n = (if 0 < ?req then ro_bytes (fst (fst ?rd)) else 0)"
    using as_u32_id [OF lt] by auto
  have nle: "?n \<le> ?req" using n le by auto
  define bytes where "bytes = (if 0 < ?req then take ?n (snd (fst ?rd)) else [])"
  define p1 where "p1 = (if 0 < ?req then latch_rebuild_required (ro_status (fst (fst ?rd))) (port\<lparr> p_dsp := snd ?rd \<rparr>) else port)"
  have lb: "length bytes = ?n" using n le by (auto simp: bytes_def)
  have cfg: "p_config p1 = p_config port" "p_setup_period p1 = p_setup_period port"
    by (simp_all add: p1_def latch_rebuild_required_def)
  let ?per = "min (p_setup_period port) (as_u32 len)"
  let ?out = "if 0 < ?per then max ?n ?per else ?n"
  have eq: "out = bytes @ port_silence port (?out - ?n)" "port' = p1"
    using assms(3) lb cfg
    by (auto simp: bounded_read_def on_dsp_def bytes_def p1_def case_prod_beta Let_def port_silence_def)
  have lo: "length out = ?out" unfolding eq(1) using lb by auto
  have tk: "take ?n out = bytes" unfolding eq(1) using lb by simp
  show thesis
  proof (rule that [of ?n])
    show "out = take ?n out @ port_silence port (length out - ?n)" unfolding tk lo by (rule eq(1))
    show "?n \<le> length out" unfolding lo by simp
    show "stride (p_dsp port) dvd ?n" using read_frames [OF assms(1,2), of ?req] n by auto
    show "length out = (if 0 < ?per then max ?n ?per else ?n)" by (rule lo)
    show "?n \<le> ?req" by (rule nle)
    show "length out \<le> as_u32 len" unfolding lo using nle req(1) by auto
    show "ok (p_dsp port')" "\<not> cb_is_closed C (p_dsp port')" "stride (p_dsp port') = stride (p_dsp port)"
      using rd assms(1,2) not_both by (auto simp: eq(2) p1_def latch_rebuild_required_def)
    show "host_side port port'" unfolding eq(2) p1_def
      by simp
    show "p_dsp port' = snd ?rd \<and> ?n = ro_bytes (fst (fst ?rd)) \<and> take ?n out = take ?n (snd (fst ?rd))" if "0 < ?req"
    proof -
      have "p_dsp port' = snd ?rd" using that by (simp add: eq(2) p1_def latch_rebuild_required_def)
      moreover have "?n = ro_bytes (fst (fst ?rd))" using that n by simp
      moreover have "take ?n out = take ?n (snd (fst ?rd))" using that unfolding tk bytes_def by simp
      ultimately show ?thesis by blast
    qed
    show "p_dsp port' = p_dsp port" if "?req = 0" using that by (simp add: eq(2) p1_def)
    show "0 < ?n \<Longrightarrow> \<exists>i. stride (p_dsp port) dvd i \<and> take ?n out = take ?n (drop i (consumed (p_dsp port')))"
    proof -
      assume pos: "0 < ?n"
      then have r: "0 < ?req" "0 < ro_bytes (fst (fst ?rd))" using n by (auto split: if_splits)
      have d: "p_dsp port' = snd ?rd" using r(1) by (simp add: eq(2) p1_def latch_rebuild_required_def)
      have b: "bytes = take ?n (snd (fst ?rd))" "?n = ro_bytes (fst (fst ?rd))" using r(1) n by (simp_all add: bytes_def)
      from read_whole_frames [OF assms(1,2) r(2)] obtain i where "stride (p_dsp port) dvd i"
        "take (ro_bytes (fst (fst ?rd))) (snd (fst ?rd)) = take (ro_bytes (fst (fst ?rd))) (drop i (consumed (snd ?rd)))" by blast
      moreover have "take ?n out = take (ro_bytes (fst (fst ?rd))) (snd (fst ?rd))" using tk b(1) b(2) by (simp only:)
      ultimately show ?thesis unfolding d b(2) by (intro exI [of _ i] conjI) (simp_all only: b(2))
    qed
  qed
qed

lemma prime_capture_facts:
  assumes "ok (p_dsp port)" "\<not> cb_is_closed C (p_dsp port)" "prime_capture C period rate props len port = (out, port')"
  shows "ok (p_dsp port')" "\<not> cb_is_closed C (p_dsp port')" "host_side port port'"
    "out = Some bytes \<Longrightarrow> bytes = port_silence port (min period (as_u32 len))"
proof -
  show "ok (p_dsp port')" "\<not> cb_is_closed C (p_dsp port')"
    using assms prime_ok [OF assms(1,2)] prime_running [OF assms(1,2)] clear_ok clear_frame not_both
    by (auto simp: prime_capture_def case_prod_beta Let_def split: option.splits)
  show "host_side port port'"
  proof (cases "stride_rate port")
    case None
    then show ?thesis using assms(3) by (simp add: prime_capture_def)
  next
    case (Some sr)
    obtain g d x dev req where e: "port' = (snd (source_commit_geometry period g
        (port\<lparr> p_dsp := d, p_rebuild_required := x, p_ext := (p_ext port)\<lparr> cx_primed := True \<rparr> \<rparr>)))\<lparr> p_dsp := dev \<rparr>"
      using assms(3) Some by (auto simp: prime_capture_def case_prod_beta Let_def on_dsp_def)
    have "host_side port (port\<lparr> p_dsp := d, p_rebuild_required := x, p_ext := (p_ext port)\<lparr> cx_primed := True \<rparr> \<rparr>)"
      by (simp add: host_side_def port_frame_def)
    from host_side_trans [OF host_side_trans [OF this source_commit_sel(8)] host_side_simps(6)] show ?thesis
      unfolding e .
  qed
  show "out = Some bytes \<Longrightarrow> bytes = port_silence port (min period (as_u32 len))"
    using assms(3) by (auto simp: prime_capture_def case_prod_beta Let_def port_silence_def split: option.splits)
qed

lemma source_retune_facts:
  assumes "ok (p_dsp port)" "source_retune_period C period port = (b, port')"
  shows "ok (p_dsp port')" "cb_is_closed C (p_dsp port') = cb_is_closed C (p_dsp port)" "host_side port port'"
proof -
  have "ok (p_dsp port') \<and> cb_is_closed C (p_dsp port') = cb_is_closed C (p_dsp port) \<and> host_side port port'"
    using assms retune_ok [OF assms(1)] retune_closed
    by (auto simp: source_retune_period_def case_prod_beta Let_def on_dsp_def reset_stream_epoch_def
        host_side_def port_frame_def split: option.splits capture_retune.splits)
  then show "ok (p_dsp port')" "cb_is_closed C (p_dsp port') = cb_is_closed C (p_dsp port)" "host_side port port'" by blast+
qed

lemma recover_overrun_facts:
  assumes "ok (p_dsp port)" "\<not> cb_is_closed C (p_dsp port)"
  shows "ok (p_dsp (source_recover_overrun C ov f now port))" "\<not> cb_is_closed C (p_dsp (source_recover_overrun C ov f now port))"
    "host_side port (source_recover_overrun C ov f now port)"
  using recover_ok [OF assms(1)] recover_closed assms(2)
  by (auto simp: source_recover_overrun_def case_prod_beta Let_def on_dsp_def reset_stream_epoch_def relock_def
      host_side_def port_frame_def split: option.split)

end


lemma clock_read_frame: "loop_frame s (snd (try_now_ns s))" "ds_panic (snd (try_now_ns s)) = ds_panic s"
  by (auto simp: try_now_ns_def loop_frame_def other_devices_def has_timer_def split: list.split)

lemma publish_some: "sz \<le> db_maxsize b \<Longrightarrow> \<exists>b'. publish sz stride b = Some b'
    \<and> db_chunk b' = \<lparr> ck_offset = 0, ck_size = sz, ck_stride = as_i32 stride, ck_flags = 0 \<rparr>"
  by (simp add: publish_def)

lemma output_slice_le: "length (output_slice b) \<le> db_maxsize b"
  by (simp add: output_slice_def)

section \<open>The source node on a backend and its wake driver\<close>

locale source_node = capture_backend C ok stride consumed
  for C :: "('d, 'p) capture_ops" and ok :: "'d \<Rightarrow> bool" and stride :: "'d \<Rightarrow> nat" and consumed :: "'d \<Rightarrow> byte list" +
  fixes W :: "('d, 'w) wake_ops"
    and ident :: "'d \<Rightarrow> 'i"
  assumes register_keeps: "ident (fst (snd (wk_register_wake W d w i b))) = ident d"
      "ok (fst (snd (wk_register_wake W d w i b))) = ok d"
begin

definition face :: "'d \<Rightarrow> 'i \<times> bool" where
  "face d = (ident d, ok d)"

lemma source_direction_laws: "node_direction (source_direction C W new_device configure) face"
proof
  show "face (fst (snd (wk_register_wake (dn_wake (source_direction C W new_device configure)) d w i b))) = face d" for d w i b
    by (simp add: source_direction_def face_def register_keeps)
  show "data_frame face s (dn_on_device_swapped (source_direction C W new_device configure) s)" for s
    by (simp add: source_direction_def source_on_device_swapped_def data_frame_def has_timer_def reset_stream_epoch_def Let_def)
qed

definition node_ok :: "('d, 'p, 'w) source_state \<Rightarrow> bool" where
  "node_ok s \<longleftrightarrow> (\<forall>d \<in># owned_devices s. ok d) \<and> mailbox_ok (sh_slot (ds_shared s)) \<and> has_timer s \<and> \<not> ds_panic s"

lemma node_ok_split:
  "node_ok s \<longleftrightarrow> ok (p_dsp (ds_port s)) \<and> (\<forall>d \<in># other_devices s. ok d)
     \<and> mailbox_ok (sh_slot (ds_shared s)) \<and> has_timer s \<and> \<not> ds_panic s"
  by (auto simp: node_ok_def owned_split)

lemma node_ok_frame:
  "node_ok s \<Longrightarrow> loop_frame s s' \<Longrightarrow> ok (p_dsp (ds_port s')) \<Longrightarrow> ds_panic s' = ds_panic s \<Longrightarrow> node_ok s'"
  by (simp add: node_ok_split loop_frame_def)

lemma node_ok_port: "node_ok s \<Longrightarrow> p_dsp port = p_dsp (ds_port s) \<Longrightarrow> node_ok (s\<lparr> ds_port := port \<rparr>)"
  by (rule node_ok_frame [OF _ port_only_frame]) (simp_all add: node_ok_split)

lemma poll_ok:
  fixes new_device :: "string \<Rightarrow> 'd" and configure :: "stream_config \<Rightarrow> 'p \<Rightarrow> 'd \<Rightarrow> (int + configure_outcome) \<times> 'd"
  assumes s: "node_ok s"
  shows "node_ok (snd (poll_rebuild (source_direction C W new_device configure) s))"
    "p_io (ds_port (snd (poll_rebuild (source_direction C W new_device configure) s))) = p_io (ds_port s)"
proof -
  define D where "D = (source_direction C W new_device configure :: ('d, 'p, source_port_ext, unit, 'w) direction)"
  define s' where "s' = snd (poll_rebuild D s)"
  have nd: "node_direction D face" unfolding D_def by (rule source_direction_laws)
  have mb: "mailbox_ok (sh_slot (ds_shared s))" "has_timer s" using s by (simp_all add: node_ok_def)
  have cons: "owned_streams face s' = owned_streams face s" "ds_panic s' = ds_panic s"
    using node_direction.poll_conserves [OF nd mb] by (simp_all add: s'_def)
  have oks: "\<forall>d \<in># owned_devices s'. ok d"
  proof
    fix d assume "d \<in># owned_devices s'"
    then have "face d \<in># owned_streams face s'" by (simp add: owned_streams_def)
    then have "face d \<in># owned_streams face s" using cons(1) by simp
    then obtain e where "e \<in># owned_devices s" "face e = face d" unfolding owned_streams_def by auto
    then show "ok d" using s by (auto simp: face_def node_ok_def)
  qed
  have "p_io (ds_port s') = p_io (ds_port s) \<and> True"
    unfolding s'_def
    by (rule poll_rebuild_hook [where R = "\<lambda>x y. True"])
      (simp_all add: D_def source_direction_def source_on_device_swapped_def reset_stream_epoch_def Let_def)
  moreover have fr: "mailbox_ok (sh_slot (ds_shared s'))" "has_timer s'"
    using node_direction.poll_frame [OF nd mb(1)] mb(2) by (simp_all add: s'_def)
  ultimately show "node_ok (snd (poll_rebuild (source_direction C W new_device configure) s))"
    "p_io (ds_port (snd (poll_rebuild (source_direction C W new_device configure) s))) = p_io (ds_port s)"
    using oks cons(2) s unfolding D_def [symmetric] s'_def [symmetric] by (simp_all add: node_ok_def)
qed

text \<open>The device phase: in good order before, in good order after, with the host's side untouched and at
  most a block's worth of bytes.\<close>

lemma produce_facts:
  fixes s :: "('d, 'p, 'w) source_state"
  assumes "ok (p_dsp (ds_port s))" "\<not> cb_is_closed C (p_dsp (ds_port s))"
    "source_produce C fw m per rate st len s = ((out, corr, pre), s')"
  shows "loop_frame s s'" "ds_panic s' = ds_panic s" "ok (p_dsp (ds_port s'))" "\<not> cb_is_closed C (p_dsp (ds_port s'))"
    "host_side (ds_port s) (ds_port s')" "out = Some bytes \<Longrightarrow> length bytes \<le> as_u32 len"
proof -
  have "loop_frame s s' \<and> ds_panic s' = ds_panic s \<and> ok (p_dsp (ds_port s')) \<and> \<not> cb_is_closed C (p_dsp (ds_port s'))
    \<and> host_side (ds_port s) (ds_port s') \<and> (\<forall>bytes. out = Some bytes \<longrightarrow> length bytes \<le> as_u32 len)"
  proof (cases "fw \<and> per > 0")
    case True
    then show ?thesis using assms by (auto simp: source_produce_def Let_def)
  next
    case nf: False
    show ?thesis
    proof (cases "\<not> cx_primed (p_ext (ds_port s)) \<and> per > 0")
      case True
      obtain o1 p1 where pc: "prime_capture C per rate (ds_properties s) len (ds_port s) = (o1, p1)" by fastforce
      then have "out = o1" "s' = s\<lparr> ds_port := p1 \<rparr>" using assms(3) nf True by (simp_all add: source_produce_def)
      then show ?thesis using prime_capture_facts [OF assms(1,2) pc] by auto
    next
      case np: False
      show ?thesis
      proof (cases "cb_is_running C (p_dsp (ds_port s))")
        case False
        then show ?thesis using assms nf np by (auto simp: source_produce_def Let_def)
      next
        case run: True
        obtain q p1 where f: "source_measured_fill C (ds_port s) = (q, p1)" by fastforce
        have p1: "ok (p_dsp p1)" "cb_is_running C (p_dsp p1)"
          using f assms(1) run queued_ok queued_running
          by (auto simp: source_measured_fill_def on_dsp_def case_prod_beta split: option.splits)
        have h1: "host_side (ds_port s) p1" using f source_fill_host by (metis snd_conv)
        define t where "t = (if m \<and> per > 0 \<and> p_setup_period p1 \<noteq> 0 \<and> \<not> cx_retune_pending (p_ext p1)
          then let (now, s) = try_now_ns (s\<lparr> ds_port := p1 \<rparr>);
                   (corr, port) = source_follower_servo q (case now of Some n \<Rightarrow> n | None \<Rightarrow> 0) st (ds_port s)
               in (corr, s\<lparr> ds_port := port \<rparr>)
          else (1, s\<lparr> ds_port := p1 \<rparr>))"
        have tn: "ds_port (snd (try_now_ns (s\<lparr> ds_port := p1 \<rparr>))) = p1" by (simp add: try_now_port)
        have t: "loop_frame s (snd t)" "ds_panic (snd t) = ds_panic s" "p_dsp (ds_port (snd t)) = p_dsp p1"
          "host_side p1 (ds_port (snd t))"
          using loop_frame_trans [OF port_only_frame [of s p1] loop_frame_trans [OF clock_read_frame(1) port_only_frame]]
            clock_read_frame(2) [of "s\<lparr> ds_port := p1 \<rparr>"] tn
          by (auto simp: t_def case_prod_beta Let_def)
        obtain o1 p2 where br: "bounded_read C q len st (ds_port (snd t)) = (o1, p2)" by fastforce
        have e: "out = Some o1" "s' = (snd t)\<lparr> ds_port := p2 \<rparr>"
          using assms(3) nf np run f br by (auto simp: source_produce_def t_def case_prod_beta Let_def)
        have "ok (p_dsp (ds_port (snd t)))" "\<not> cb_is_closed C (p_dsp (ds_port (snd t)))"
          using p1 t(3) not_both by simp_all
        from bounded_read_facts [OF this br] have b: "length o1 \<le> as_u32 len" "ok (p_dsp p2)" "\<not> cb_is_closed C (p_dsp p2)"
          "host_side (ds_port (snd t)) p2" by metis+
        show ?thesis
          using b t(2) loop_frame_trans [OF t(1) port_only_frame] host_side_trans [OF h1 host_side_trans [OF t(4) b(4)]]
          by (simp add: e)
      qed
    qed
  qed
  then show "loop_frame s s'" "ds_panic s' = ds_panic s" "ok (p_dsp (ds_port s'))" "\<not> cb_is_closed C (p_dsp (ds_port s'))"
    "host_side (ds_port s) (ds_port s')" "out = Some bytes \<Longrightarrow> length bytes \<le> as_u32 len" by blast+
qed

lemma settle_overruns_facts:
  fixes s :: "('d, 'p, 'w) source_state"
  assumes "ok (p_dsp (ds_port s))" "\<not> cb_is_closed C (p_dsp (ds_port s))"
  shows "loop_frame s (source_settle_overruns C fw pre s)" "ds_panic (source_settle_overruns C fw pre s) = ds_panic s"
    "ok (p_dsp (ds_port (source_settle_overruns C fw pre s)))" "host_side (ds_port s) (ds_port (source_settle_overruns C fw pre s))"
proof -
  define m where "m = (if cb_is_running C (p_dsp (ds_port s)) \<and> \<not> fw
     then source_measured_overruns C (ds_port s) else (xrun_delta_default, ds_port s))"
  have m: "host_side (ds_port s) (snd m)" by (simp add: m_def)
  have md: "ok (p_dsp (snd m)) \<and> \<not> cb_is_closed C (p_dsp (snd m))"
  proof (cases "cb_is_running C (p_dsp (ds_port s)) \<and> \<not> fw")
    case True
    then show ?thesis using overruns_ok [OF assms(1)] overruns_running not_both assms take_wake_sel(1) [of "ds_port s"]
      by (auto simp: m_def source_measured_overruns_def case_prod_beta Let_def split: option.split)
  next
    case False
    then show ?thesis using assms by (auto simp: m_def)
  qed
  let ?s = "s\<lparr> ds_port := snd m \<rparr>"
  let ?n = "case fst (try_now_ns ?s) of Some n \<Rightarrow> n | None \<Rightarrow> 0"
  have eq: "source_settle_overruns C fw pre s =
    (if xd_events (fst m) > 0 then upd_port (source_recover_overrun C (fst m) pre ?n) (snd (try_now_ns ?s))
     else ?s\<lparr> ds_port := (snd m)\<lparr> p_dsp := cb_clear_overrun_observation C (p_dsp (snd m)) \<rparr> \<rparr>)"
    by (simp add: source_settle_overruns_def m_def case_prod_beta Let_def)
  have tn: "ds_port (snd (try_now_ns ?s)) = snd m" by (simp add: try_now_port)
  note rec = recover_overrun_facts [OF conjunct1 [OF md] conjunct2 [OF md], of "fst m" pre ?n]
  show "loop_frame s (source_settle_overruns C fw pre s)" unfolding eq
    using loop_frame_trans [OF port_only_frame [of s "snd m"] loop_frame_trans [OF clock_read_frame(1) port_only_frame]]
    by simp
  show "ds_panic (source_settle_overruns C fw pre s) = ds_panic s" unfolding eq
    using clock_read_frame(2) [of ?s] by simp
  show "ok (p_dsp (ds_port (source_settle_overruns C fw pre s)))" unfolding eq using rec tn md clear_ok by simp
  show "host_side (ds_port s) (ds_port (source_settle_overruns C fw pre s))" unfolding eq
    using host_side_trans [OF m rec(3)] host_side_trans [OF m host_side_simps(6)] tn by simp
qed

text \<open>The answer the host gets: the buffer as it left it, or its own buffer id with data or without.\<close>

definition answered :: "('d, 'x) port \<Rightarrow> u32 \<Rightarrow> 32 word \<Rightarrow> ('d, 'x) port \<Rightarrow> bool" where
  "answered port i st port' \<longleftrightarrow>
     p_io port' = map_option (\<lambda>io. io\<lparr> io_buffer_id := i, io_status := st \<rparr>) (p_io port)
     \<and> (st = SPA_STATUS_HAVE_DATA \<or> st = SPA_STATUS_OK)"

lemma transfer_facts:
  fixes s :: "('d, 'p, 'w) source_state"
  assumes "node_ok s" "\<not> cb_is_closed C (p_dsp (ds_port s))"
    and "source_transfer C m per rate st i b s = (status, s')"
  shows "node_ok s'" "answered (ds_port s) i status (ds_port s')"
proof -
  let ?fw = "freewheeling s"
  let ?s1 = "upd_port (\<lambda>port. upd_ext (\<lambda>x. x\<lparr> cx_primed := cx_primed x \<and> \<not> (cx_was_freewheeling x \<and> \<not> ?fw),
                                          cx_was_freewheeling := ?fw \<rparr>) port) s"
  define r where "r = source_produce C ?fw m per rate st (length (output_slice b)) ?s1"
  define out where "out = fst (fst r)"
  define corr where "corr = fst (snd (fst r))"
  define pre where "pre = snd (snd (fst r))"
  define s2 where "s2 = snd r"
  have pr: "source_produce C ?fw m per rate st (length (output_slice b)) ?s1 = ((out, corr, pre), s2)"
    unfolding r_def [symmetric] by (simp add: out_def corr_def pre_def s2_def)
  have o1: "ok (p_dsp (ds_port ?s1))" "\<not> cb_is_closed C (p_dsp (ds_port ?s1))" using assms(1,2) by (simp_all add: node_ok_split)
  note p = produce_facts [OF o1 pr]
  let ?f = "\<lambda>port. (if out \<noteq> None then source_publish_rate_match m corr port else port)\<lparr> p_was_matching := m \<rparr>"
  let ?s3 = "upd_port ?f s2"
  have o3: "ok (p_dsp (ds_port ?s3))" "\<not> cb_is_closed C (p_dsp (ds_port ?s3))"
    using p(3,4) by (simp_all add: source_publish_rate_match_def)
  have h3: "host_side (ds_port s2) (ds_port ?s3)" by (simp add: host_side_def port_frame_def source_publish_rate_match_def)
  define s4 where "s4 = source_settle_overruns C ?fw pre ?s3"
  note q = settle_overruns_facts [OF o3, of ?fw pre, folded s4_def]
  have n4: "node_ok s4"
    by (rule node_ok_frame [OF assms(1)])
      (use loop_frame_trans [OF port_only_frame loop_frame_trans [OF p(1) loop_frame_trans [OF port_only_frame q(1)]]] q(2,3) p(2)
       in simp_all)
  have io: "p_io (ds_port s4) = p_io (ds_port s)"
    using p(5) h3 q(4) by (simp add: host_side_def)
  have eq: "source_deliver i st b out s4 = (status, s')"
    using assms(3) pr by (simp add: source_transfer_def s4_def Let_def)
  show "node_ok s'" "answered (ds_port s) i status (ds_port s')"
  proof (atomize (full), cases out)
    case None
    then have "status = SPA_STATUS_OK" "s' = upd_port (\<lambda>port. port\<lparr> p_io := map_option (\<lambda>io. io\<lparr> io_buffer_id := i, io_status := SPA_STATUS_OK \<rparr>) (p_io port) \<rparr>) s4"
      using eq by (simp_all add: source_deliver_def)
    then show "node_ok s' \<and> answered (ds_port s) i status (ds_port s')"
      using node_ok_port [OF n4] io by (simp add: answered_def)
  next
    case (Some bytes)
    have "length bytes \<le> db_maxsize b"
      using p(6) [OF Some] as_u32_le [of "length (output_slice b)"] output_slice_le [of b] by linarith
    from publish_some [OF this, of st] obtain b' where b': "publish (length bytes) st b = Some b'" by blast
    have "status = SPA_STATUS_HAVE_DATA" "s' = upd_port (\<lambda>port. (put_block i bytes (db_chunk b') port)
        \<lparr> p_io := map_option (\<lambda>io. io\<lparr> io_buffer_id := i, io_status := SPA_STATUS_HAVE_DATA \<rparr>) (p_io port) \<rparr>) s4"
      using eq Some b' by (simp_all add: source_deliver_def put_block_def)
    then show "node_ok s' \<and> answered (ds_port s) i status (ds_port s')"
      using node_ok_port [OF n4] io by (simp add: answered_def put_block_def)
  qed
qed

lemma process_ports_ok:
  fixes new_device :: "string \<Rightarrow> 'd" and configure :: "stream_config \<Rightarrow> 'p \<Rightarrow> 'd \<Rightarrow> (int + configure_outcome) \<times> 'd"
  assumes s: "node_ok s"
    and run: "source_process_ports (source_direction C W new_device configure) C s = (status, s')"
  shows "node_ok s'"
    "(p_io (ds_port s') = p_io (ds_port s) \<and> (status = SPA_STATUS_OK
        \<or> (status = SPA_STATUS_HAVE_DATA \<and> map_option io_status (p_io (ds_port s)) = Some SPA_STATUS_HAVE_DATA)))
      \<or> (\<exists>i. answered (ds_port s) i status (ds_port s'))"
proof -
  define D where "D = (source_direction C W new_device configure :: ('d, 'p, source_port_ext, unit, 'w) direction)"
  define t where "t = snd (poll_rebuild D s)"
  have t: "node_ok t" "p_io (ds_port t) = p_io (ds_port s)"
    using poll_ok [OF s, of new_device configure] by (simp_all add: t_def D_def)
  define out where "out x st \<longleftrightarrow> node_ok x \<and> ((p_io (ds_port x) = p_io (ds_port s) \<and> (st = SPA_STATUS_OK
        \<or> (st = SPA_STATUS_HAVE_DATA \<and> map_option io_status (p_io (ds_port s)) = Some SPA_STATUS_HAVE_DATA)))
      \<or> (\<exists>i. answered (ds_port s) i st (ds_port x)))" for x :: "('d, 'p, 'w) source_state" and st
  have queue: "node_ok (snd (queue_rebuild u))" "p_io (ds_port (snd (queue_rebuild u))) = p_io (ds_port u)"
    "p_dsp (ds_port (snd (queue_rebuild u))) = p_dsp (ds_port u)"
    if "node_ok u" for u :: "('d, 'p, 'w) source_state"
    using node_ok_frame [OF that queue_rebuild_frame] queue_rebuild_others [of u] that by (auto simp: node_ok_split)
  have block: "out (snd (source_block C st rate i b u)) (fst (source_block C st rate i b u))"
    if u: "node_ok u" "p_io (ds_port u) = p_io (ds_port s)" "\<not> cb_is_closed C (p_dsp (ds_port u))" for st rate i b u
  proof -
    define m where "m = (ds_following u \<and> \<not> (case ds_position u of Some p \<Rightarrow> same_clock p (ds_clock_name u) | None \<Rightarrow> False))"
    define gp where "gp = (case ds_position u of
               None \<Rightarrow> (0, 0)
             | Some p \<Rightarrow> let clock = pos_clock p; denom = fr_denom (clk_target_rate clock)
                         in if denom > 0 then (denom, device_period_bytes (clk_target_duration clock) rate denom st)
                            else (0, 0))"
    define rp where "rp = source_retune_period C (snd gp) (ds_port u)"
    define v where "v = u\<lparr> ds_port := snd rp \<rparr>"
    define w where "w = (if fst rp then queue_rebuild v else (False, v))"
    have e: "source_block C st rate i b u = (if fst w then (SPA_STATUS_OK, snd w)
        else source_transfer C m (snd gp) (fst gp) st i b (snd w))"
      unfolding w_def v_def rp_def gp_def m_def source_block_def by (simp add: case_prod_beta Let_def)
    have o: "ok (p_dsp (ds_port u))" using u(1) by (simp add: node_ok_split)
    note rf = source_retune_facts [OF o prod.collapse [symmetric], of "snd gp", folded rp_def]
    have v: "node_ok v" "p_io (ds_port v) = p_io (ds_port s)" "\<not> cb_is_closed C (p_dsp (ds_port v))"
      using node_ok_frame [OF u(1) port_only_frame, of "snd rp"] rf u(2,3) by (simp_all add: v_def host_side_def)
    have w: "node_ok (snd w)" "p_io (ds_port (snd w)) = p_io (ds_port s)" "\<not> cb_is_closed C (p_dsp (ds_port (snd w)))"
      using v queue [OF v(1)] by (simp_all add: w_def)
    show ?thesis
      using w transfer_facts [OF w(1,3) prod.collapse [symmetric], where m = m and per = "snd gp" and rate = "fst gp" and st = st and i = i and b = b]
      unfolding e by (auto simp: out_def answered_def)
  qed
  have base: "out t SPA_STATUS_OK" using t by (simp add: out_def)
  have "out s' status"
  proof (cases "fst (poll_rebuild D s) \<or> stride_rate (ds_port t) = None \<or> p_io (ds_port t) = None \<or> p_buffers (ds_port t) = []")
    case True
    then have "status = SPA_STATUS_OK" "s' = t"
      using run unfolding D_def [symmetric] by (auto simp: source_process_ports_def t_def case_prod_beta Let_def split: option.splits if_splits)
    then show ?thesis using base by simp
  next
    case False
    then obtain st rate io where f: "\<not> fst (poll_rebuild D s)" "stride_rate (ds_port t) = Some (st, rate)" "p_io (ds_port t) = Some io"
      "p_buffers (ds_port t) \<noteq> []" by auto
    let ?fresh = "io_buffer_id io = u32_max"
    let ?i = "if ?fresh then as_u32 (cx_active_buffers (p_ext (ds_port t))) else io_buffer_id io"
    let ?u = "if ?fresh then upd_port (upd_ext (\<lambda>x. x\<lparr> cx_active_buffers := cx_active_buffers x + 1 \<rparr>)) t else t"
    have eq: "(status, s') = (if cb_is_closed C (p_dsp (ds_port t)) then (SPA_STATUS_OK, snd (queue_rebuild t))
        else if io_status io = SPA_STATUS_HAVE_DATA then (SPA_STATUS_HAVE_DATA, t)
        else if io_status io \<noteq> SPA_STATUS_OK \<and> io_status io \<noteq> SPA_STATUS_NEED_DATA then (SPA_STATUS_OK, t)
        else case valid_data_block (ds_port ?u) ?i of None \<Rightarrow> (SPA_STATUS_OK, ?u)
             | Some data_0 \<Rightarrow> source_block C st rate ?i data_0 ?u)"
      unfolding run [symmetric] D_def [symmetric] using f
      by (simp add: source_process_ports_def t_def [symmetric] case_prod_beta Let_def cong: option.case_cong)
    have u: "node_ok ?u" "p_io (ds_port ?u) = p_io (ds_port s)" "p_dsp (ds_port ?u) = p_dsp (ds_port t)"
      using node_ok_port [OF t(1)] t by simp_all
    show ?thesis
    proof (cases "cb_is_closed C (p_dsp (ds_port t)) \<or> io_status io = SPA_STATUS_HAVE_DATA
        \<or> (io_status io \<noteq> SPA_STATUS_OK \<and> io_status io \<noteq> SPA_STATUS_NEED_DATA) \<or> valid_data_block (ds_port ?u) ?i = None")
      case True
      then show ?thesis using eq t queue [OF t(1)] u f(3)
        by (auto simp: out_def split: if_splits)
    next
      case False
      then obtain b where b: "valid_data_block (ds_port ?u) ?i = Some b" by auto
      have "(status, s') = source_block C st rate ?i b ?u" using eq False b by (auto split: if_splits)
      then show ?thesis using block [OF u(1,2), of st rate ?i b] u(3) False by (metis fst_conv snd_conv)
    qed
  qed
  then show "node_ok s'" "(p_io (ds_port s') = p_io (ds_port s) \<and> (status = SPA_STATUS_OK
        \<or> (status = SPA_STATUS_HAVE_DATA \<and> map_option io_status (p_io (ds_port s)) = Some SPA_STATUS_HAVE_DATA)))
      \<or> (\<exists>i. answered (ds_port s) i status (ds_port s'))" by (simp_all add: out_def)
qed

end

end
