(* ===== verification/OssSource.thy ===== *)
theory OssSource
  imports OssWake SourceNode OssCapture
begin

text \<open>
  The capture node over the FreeBSD backend: \<open>source_node\<close> is interpreted on the operations of \<open>Dsp\<close>
  (theory \<open>OssCapture\<close>) and of the kqueue wake driver (theory \<open>OssWake\<close>). \<open>sc\<close> is the build switch
  \<open>scaled\<close> of the ring policy, \<open>raw\<close> the descriptor number of a stream.
\<close>

type_synonym oss_source_state = "(dsp, oss_properties, oss_wake_driver) source_state"

abbreviation oss_capture_wake :: "(dsp \<Rightarrow> nat) \<Rightarrow> (dsp, oss_wake_driver) wake_ops" where
  "oss_capture_wake raw \<equiv> oss_wake_ops (dsp_register_wake raw)"

definition oss_source_direction ::
    "bool \<Rightarrow> (dsp \<Rightarrow> nat) \<Rightarrow> (string \<Rightarrow> dsp)
       \<Rightarrow> (stream_config \<Rightarrow> oss_properties \<Rightarrow> dsp \<Rightarrow> (int + configure_outcome) \<times> dsp)
       \<Rightarrow> (dsp, oss_properties, source_port_ext, unit, oss_wake_driver) direction" where
  "oss_source_direction sc raw new_device configure =
     source_direction (oss_capture sc) (oss_capture_wake raw) new_device configure"

text \<open>What the kernel handed out of a stream since its ring was last reset.\<close>

definition stream_given :: "dsp \<Rightarrow> byte list" where
  "stream_given d = k_ring (d_kernel d)"

interpretation oss_source: source_node "oss_capture sc" dsp_ok d_stride stream_given "oss_capture_wake raw" stream_given
  for sc raw
proof -
  have t: "stream_given = (\<lambda>d. k_ring (d_kernel d))" by (simp add: fun_eq_iff stream_given_def)
  have "capture_backend (oss_capture sc) dsp_ok d_stride stream_given"
    unfolding t by (rule oss_cap.capture_backend_axioms)
  moreover have "source_node_axioms dsp_ok (oss_capture_wake raw) stream_given"
    by unfold_locales (simp_all add: oss_wake_ops_def dsp_register_keeps stream_given_def)
  ultimately show "source_node (oss_capture sc) dsp_ok d_stride stream_given (oss_capture_wake raw) stream_given"
    by (rule source_node.intro)
qed

section \<open>The node in good order\<close>

definition oss_source_ok :: "oss_source_state \<Rightarrow> bool" where
  "oss_source_ok s \<longleftrightarrow> (\<forall>d \<in># owned_devices s. dsp_ok d) \<and> mailbox_ok (sh_slot (ds_shared s)) \<and> has_timer s \<and> \<not> ds_panic s"

lemma oss_source_ok_iff: "oss_source.node_ok s = oss_source_ok s"
  by (simp add: oss_source_ok_def oss_source.node_ok_def)

section \<open>A sample node\<close>

definition sample_source_port :: "dsp source_port" where
  "sample_source_port = \<lparr> p_config = Some \<lparr> sc_format = FMT_S16_LE, sc_rate = 48000, sc_channels = 2, sc_positions = [3, 4],
       sc_flags = 0, sc_stride = 4 \<rparr>,
     p_buffers = [Some \<lparr> sb_n_datas = 1, sb_data_0 = Some \<lparr> sd_memptr = True, sd_maxsize = 8, sd_data = Some [0, 0, 0, 0, 0, 0, 0, 0],
       sd_chunk = Some \<lparr> ck_offset = 0, ck_size = 0, ck_stride = 0, ck_flags = 0 \<rparr> \<rparr> \<rparr>],
     p_io = Some \<lparr> io_status = SPA_STATUS_NEED_DATA, io_buffer_id = 0 \<rparr>, p_rate_match = None, p_dsp = sample_dsp,
     p_dll = dll_default, p_setup_period = 8, p_bw_adapt = bw_adapt_default, p_delivery_quantum_bytes = 0,
     p_rebuild_pending = False, p_generation = 3, p_stream_token = 1, p_was_matching = False,
     p_warn_limit = rate_limit_new, p_pending_xrun = None, p_stream_wake = None, p_rebuild_required = False,
     p_xrun_tracker = tracker_default, p_ext = source_port_ext_default\<lparr> cx_primed := True \<rparr> \<rparr>"

definition sample_source :: oss_source_state where
  "sample_source = \<lparr> ds_clock_reads = [Some 60000000], ds_clock = Some sample_clock,
     ds_position = Some \<lparr> pos_clock = sample_clock \<rparr>, ds_clock_name = [112], ds_main_loop = True,
     ds_stream_path = ''dsp0'', ds_timer_fd = Some (0, True), ds_timer_expired = [],
     ds_wake_driver = None, ds_wake_failed_stream = None, ds_ready_dispatching = False,
     ds_next_time = 50000000, ds_callbacks = Some 9, ds_port = sample_source_port, ds_properties = properties_new True,
     ds_shared = \<lparr> sh_alive = True, sh_started = True, sh_generation = 3, sh_slot = None \<rparr>,
     ds_rebuild_work = \<lparr> ws_value = None, ws_closed = False, ws_stopping = False, ws_active = False \<rparr>,
     ds_deferred_work = None, ds_rebuild_takeover = False, ds_publication_epoch = 0,
     ds_pending_main_event = None, ds_started = True, ds_following = False,
     ds_ext = (), ds_panic = False \<rparr>"

lemma sample_source_ok: "oss_source_ok sample_source"
  using sample_dsp_ok
  by (simp add: oss_source_ok_def sample_source_def sample_source_port_def owned_devices_def held_def mailbox_ok_def has_timer_def)

section \<open>The block handed to the graph\<close>

text \<open>C19. The block a capture cycle publishes is what the device handed out during this very read, and
  silence. When the queue has room for a request the device is read once with exactly that request, and
  not at all otherwise. Of the bytes \<open>given\<close> by the kernel during the read, the rest of an earlier torn
  frame (\<open>d_skip\<close> bytes) is dropped and the whole frames that follow, all of them and in order, open the
  block; the head of a torn last frame stays hidden. Then comes midpoint silence of the negotiated format
  up to the period. The block is never longer than the host's, never shorter than a period that fits
  there, and the read takes no more than the queue holds.\<close>

theorem captured_block_is_audio_then_silence:
  assumes "dsp_ok (p_dsp port)" "\<not> dsp_is_closed (p_dsp port)"
    "bounded_read (oss_capture sc) queued len stride port = (out, port')"
  shows "\<exists>given n. k_ring (d_kernel (p_dsp port')) = k_ring (d_kernel (p_dsp port)) @ given
    \<and> p_dsp port' = (if 0 < read_request queued (as_u32 len) stride port
         then snd (dsp_read (read_request queued (as_u32 len) stride port) (p_dsp port)) else p_dsp port)
    \<and> n = length (drop (d_skip (p_dsp port)) given) div d_stride (p_dsp port) * d_stride (p_dsp port)
    \<and> out = take n (drop (d_skip (p_dsp port)) given) @ port_silence port (length out - n)
    \<and> n \<le> length out \<and> n \<le> queued
    \<and> length out = max n (min (p_setup_period port) (as_u32 len)) \<and> length out \<le> as_u32 len
    \<and> dsp_ok (p_dsp port')"
proof -
  let ?d = "p_dsp port" and ?req = "read_request queued (as_u32 len) stride port"
  have live: "\<not> cb_is_closed (oss_capture sc) ?d" "d_state ?d \<noteq> Closed" using assms(2) by (simp_all add: dsp_is_closed_def)
  from oss_source.bounded_read_facts [OF assms(1) live(1) assms(3)] obtain n where
    n: "out = take n out @ port_silence port (length out - n)" "n \<le> length out"
      "length out = (if 0 < min (p_setup_period port) (as_u32 len) then max n (min (p_setup_period port) (as_u32 len)) else n)"
      "n \<le> ?req" "length out \<le> as_u32 len" "dsp_ok (p_dsp port')"
      "0 < ?req \<Longrightarrow> p_dsp port' = snd (dsp_read ?req ?d) \<and> n = ro_bytes (fst (fst (dsp_read ?req ?d)))
         \<and> take n out = take n (snd (fst (dsp_read ?req ?d)))"
      "?req = 0 \<Longrightarrow> p_dsp port' = ?d"
    by (simp only: oss_capture_sel) blast
  have "n \<le> queued" using n(4) read_request_bounds(2) [of queued "as_u32 len" stride port] by linarith
  moreover have "length out = max n (min (p_setup_period port) (as_u32 len))" using n(3) by (auto split: if_splits)
  moreover obtain given where "k_ring (d_kernel (p_dsp port')) = k_ring (d_kernel ?d) @ given"
    "n = length (drop (d_skip ?d) given) div d_stride ?d * d_stride ?d"
    "take n out = take n (drop (d_skip ?d) given)"
  proof (cases "0 < ?req")
    case True
    obtain r data d' where rd: "dsp_read ?req ?d = ((r, data), d')" by (metis prod.collapse)
    obtain given where g: "k_ring (d_kernel d') = k_ring (d_kernel ?d) @ given"
      "ro_bytes r = length (drop (d_skip ?d) given) div d_stride ?d * d_stride ?d"
      "take (ro_bytes r) data = take (ro_bytes r) (drop (d_skip ?d) given)"
      using dsp_read_given [OF assms(1) live(2) rd] by blast
    have e: "p_dsp port' = d'" "n = ro_bytes r" "take n out = take n data" using n(7) [OF True] unfolding rd fst_conv snd_conv by blast+
    show thesis
    proof (rule that [of given])
      show "k_ring (d_kernel (p_dsp port')) = k_ring (d_kernel ?d) @ given" unfolding e(1) by (rule g(1))
      show "n = length (drop (d_skip ?d) given) div d_stride ?d * d_stride ?d" unfolding e(2) by (rule g(2))
      show "take n out = take n (drop (d_skip ?d) given)" unfolding e(3) unfolding e(2) by (rule g(3))
    qed
  next
    case False
    then show thesis using n(4,8) that [of "[]"] by simp
  qed
  moreover have "p_dsp port' = (if 0 < ?req then snd (dsp_read ?req ?d) else ?d)" using n(7,8) by (cases "0 < ?req") simp_all
  ultimately show ?thesis using n(1,2,5,6) by (intro exI [of _ given] exI [of _ n]) metis
qed

theorem captured_block_is_audio_then_silence_witness:
  "fst (bounded_read (oss_capture False) 4 8 4 sample_source_port) = [1, 2, 3, 4, 0, 0, 0, 0]"
proof -
  let ?P = sample_source_port
  have d: "dsp_ok (p_dsp ?P)" "\<not> dsp_is_closed (p_dsp ?P)"
    using sample_dsp_ok sample_dsp_open by (simp_all add: sample_source_port_def)
  have s: "d_skip (p_dsp ?P) = 0" "d_stride (p_dsp ?P) = 4" "k_ring (d_kernel (p_dsp ?P)) = []"
    "min (p_setup_period ?P) (as_u32 8) = 8" "read_request 4 (as_u32 8) 4 ?P = 4"
    by (simp_all add: sample_source_port_def sample_dsp_def dsp_new_def as_u32_def read_request_def source_port_ext_default_def
        sat_add32_def)
  have r: "k_ring (d_kernel (snd (dsp_read 4 (p_dsp ?P)))) = [1, 2, 3, 4]"
    by (simp add: sample_source_port_def sample_dsp_def dsp_new_def dsp_read_def discard_torn.simps assert_d_def on_kernel_def
        sys_read_def pop_def Let_def)
  have z: "port_silence ?P m = replicate m 0" for m
    by (simp add: port_silence_def sample_source_port_def silence_fill_def silence_for_config_def silence_zero_def
        silence_fill_at_def map_replicate_const)
  obtain out port' where e: "bounded_read (oss_capture False) 4 8 4 ?P = (out, port')" by fastforce
  from captured_block_is_audio_then_silence [OF d e, unfolded s] obtain given n where
    g: "k_ring (d_kernel (p_dsp port')) = [] @ given"
      "p_dsp port' = (if (0::nat) < 4 then snd (dsp_read 4 (p_dsp ?P)) else p_dsp ?P)"
      "n = length (drop 0 given) div 4 * 4" "out = take n (drop 0 given) @ port_silence ?P (length out - n)"
      "length out = max n 8" by blast
  have "p_dsp port' = snd (dsp_read 4 (p_dsp ?P))" using g(2) by simp
  then have "given = [1, 2, 3, 4]" using g(1) r by simp
  then have n: "n = 4" "drop 0 given = [1, 2, 3, 4]" using g(3) by simp_all
  then have "length out = 8" using g(5) by simp
  then have "out = [1, 2, 3, 4] @ replicate 4 0" using g(4) unfolding n z by simp
  then show ?thesis unfolding e by (simp add: numeral_eq_Suc)
qed

section \<open>One cycle\<close>

text \<open>C20. Every process cycle of the capture node leaves it in good order - every device it owns with its
  stream invariant, no assertion failed, no chunk published beyond its block - and leaves the io area
  either as the host left it (nothing to do, or its data not consumed yet) or with the id of the
  host's buffer and the status it returns, HAVE_DATA when the block was filled and OK when not.\<close>

theorem source_cycle_is_safe:
  assumes "oss_source_ok s"
    and "source_process_ports (oss_source_direction sc raw new_device configure) (oss_capture sc) s = (status, s')"
  shows "oss_source_ok s'
    \<and> ((p_io (ds_port s') = p_io (ds_port s) \<and> (status = SPA_STATUS_OK
          \<or> (status = SPA_STATUS_HAVE_DATA \<and> map_option io_status (p_io (ds_port s)) = Some SPA_STATUS_HAVE_DATA)))
       \<or> (\<exists>i. p_io (ds_port s') = map_option (\<lambda>io. io\<lparr> io_buffer_id := i, io_status := status \<rparr>) (p_io (ds_port s))
          \<and> (status = SPA_STATUS_HAVE_DATA \<or> status = SPA_STATUS_OK)))"
proof -
  have ok: "oss_source.node_ok s" using assms(1) by (simp add: oss_source_ok_iff)
  note run = oss_source.process_ports_ok [OF ok assms(2) [unfolded oss_source_direction_def]]
  show ?thesis using run unfolding oss_source_ok_iff oss_source.answered_def by blast
qed

theorem source_cycle_is_safe_witness:
  "oss_source_ok (snd (source_process_ports (oss_source_direction False (\<lambda>_. 7) (\<lambda>_. sample_dsp) (\<lambda>_ _ d. (Inl 16, d)))
     (oss_capture False) sample_source))"
  by (rule source_cycle_is_safe [OF sample_source_ok prod.collapse [symmetric], THEN conjunct1])

end
