(* ===== verification/NodeSystem.thy ===== *)
theory NodeSystem
  imports RebuildSystem OssSink OssSource
begin

text \<open>
  The rebuild system of theory \<open>RebuildSystem\<close> for both directions: the hooks of the sink and of the
  source touch only their port, so every reachable system of either, over any backend and wake driver,
  keeps its invariant. Devices are counted: the identity used is the trivial one.
\<close>

definition same_claim :: "('d, 'x) port \<Rightarrow> ('d, 'x) port \<Rightarrow> bool" where
  "same_claim port port' \<longleftrightarrow> p_generation port' = p_generation port \<and> p_config port' = p_config port
     \<and> p_rebuild_pending port' = p_rebuild_pending port"

lemma pause_claim: "same_claim port (pause_playback B port)"
  by (simp add: same_claim_def pause_playback_def reset_unpreserved_pause_def finish_input_sequence_def clear_pending_write_def on_dsp_def reset_stream_epoch_def Let_def case_prod_beta)

lemma resume_claim: "same_claim port (sink_resume_port B r port)"
  by (simp add: same_claim_def sink_resume_port_def on_dsp_def reset_stream_epoch_def relock_def Let_def case_prod_beta split: sum.split)

lemma port_hook_frame: "same_claim (ds_port s) port \<Longrightarrow> data_frame (\<lambda>_. ()) s (s\<lparr> ds_port := port \<rparr>)"
  by (simp add: same_claim_def data_frame_def has_timer_def)

interpretation sink_sys: node_hooks "sink_direction B W new_device configure" "\<lambda>_. ()" for B W new_device configure
proof (unfold_locales, goal_cases)
  case (3 s)
  show ?case using port_hook_frame [OF pause_claim, of s B] by (simp add: sink_direction_def sink_on_pause_loop_def)
next
  case (5 s)
  show ?case using port_hook_frame [OF resume_claim, of s B "\<not> ds_started s"]
    by (simp add: sink_direction_def sink_on_start_loop_def data_frame_def has_timer_def)
qed (simp_all add: sink_direction_def data_frame_def has_timer_def sink_on_device_swapped_def
      sink_on_suspend_loop_def clear_pending_write_def reset_stream_epoch_def)

interpretation source_sys: node_hooks "source_direction C W new_device configure" "\<lambda>_. ()" for C W new_device configure
  by unfold_locales
    (simp_all add: source_direction_def data_frame_def has_timer_def source_on_device_swapped_def
      source_on_suspend_loop_def source_on_start_loop_def relock_def reset_stream_epoch_def Let_def)

abbreviation sink_system ::
    "('d, 'p) playback_ops \<Rightarrow> ('d, 'w) wake_ops \<Rightarrow> (string \<Rightarrow> 'd) \<Rightarrow> (stream_config \<Rightarrow> 'p \<Rightarrow> 'd \<Rightarrow> (int + configure_outcome) \<times> 'd)
       \<Rightarrow> ('d, 'p, sink_port_ext, sink_data_ext, 'w) system \<Rightarrow> ('d, 'p, sink_port_ext, sink_data_ext, 'w) system \<Rightarrow> bool" where
  "sink_system B W new_device configure \<equiv> sys_step (sink_direction B W new_device configure) (\<lambda>_. ())"

abbreviation source_system ::
    "('d, 'p) capture_ops \<Rightarrow> ('d, 'w) wake_ops \<Rightarrow> (string \<Rightarrow> 'd) \<Rightarrow> (stream_config \<Rightarrow> 'p \<Rightarrow> 'd \<Rightarrow> (int + configure_outcome) \<times> 'd)
       \<Rightarrow> ('d, 'p, source_port_ext, unit, 'w) system \<Rightarrow> ('d, 'p, source_port_ext, unit, 'w) system \<Rightarrow> bool" where
  "source_system C W new_device configure \<equiv> sys_step (source_direction C W new_device configure) (\<lambda>_. ())"

section \<open>What a command may rely on\<close>

text \<open>What the second drain of a command leaves: nothing of the rebuild protocol outside the port.\<close>

definition no_rebuild_left :: "('d, 'p, 'x, 's, 'w) system \<Rightarrow> bool" where
  "no_rebuild_left y \<longleftrightarrow> sh_slot (ds_shared (sy_data y)) = None \<and> ws_value (ds_rebuild_work (sy_data y)) = None
     \<and> ds_deferred_work (sy_data y) = None \<and> sy_worker y = WIdle \<and> ds_rebuild_takeover (sy_data y)
     \<and> owned_devices (sy_data y) = {# p_dsp (ds_port (sy_data y)) #}"

lemma quiet_system: "sys_ok y \<Longrightarrow> sy_main y = MQuiet ds \<Longrightarrow> no_rebuild_left y"
  by (simp add: sys_ok_def no_rebuild_left_def in_command_def past_wait_def owned_devices_def)

lemma joined_system: "sys_ok y \<Longrightarrow> sy_main y = MJoined \<Longrightarrow> sy_worker y = WExited \<and> ws_value (ds_rebuild_work (sy_data y)) = None"
  by (simp add: sys_ok_def cells_ok_def)

text \<open>C21. Pause, Suspend and the synchronous install take a node over completely, in whatever order the
  data loop, the rebuild worker and the main thread run: once the main thread has drained the mailbox
  for the second time, no completion, command, deferred command or running task of the rebuild protocol
  is left, and the device in the port is the only one the data loop owns; a worker that has been joined
  has ended with its slot empty; and the single-producer assertion of the slot never fails.\<close>

theorem commands_quiesce_rebuilds:
  assumes "(sink_system B W new_device configure)\<^sup>*\<^sup>* (sys_start s) y" "fresh_node s"
  shows "(case sy_main y of
           MQuiet ds \<Rightarrow> no_rebuild_left y
         | MJoined \<Rightarrow> sy_worker y = WExited \<and> ws_value (ds_rebuild_work (sy_data y)) = None
         | _ \<Rightarrow> True)
       \<and> \<not> ds_panic (sy_data y)"
proof -
  have ok: "sys_ok y" using sink_sys.reachable_ok [OF assms] by blast
  have "\<not> ds_panic (sy_data y)" using ok unfolding sys_ok_def cells_ok_def by blast
  then show ?thesis using quiet_system [OF ok] joined_system [OF ok] by (cases "sy_main y") simp_all
qed

text \<open>C22. No device object is lost or destroyed twice, in whatever order the threads of a capture node
  run: those in the port, in a cell, in the worker's hands or in the main thread's, and those destroyed,
  are together as many as were ever created. A device is therefore never leaked by a superseded
  rebuild, a replaced completion, a takeover or the shutdown of the worker.\<close>

theorem no_device_is_lost:
  assumes "(source_system C W new_device configure)\<^sup>*\<^sup>* (sys_start s) y" "fresh_node s"
  shows "size (owned_devices (sy_data y)) + size (worker_devices (sy_worker y)) + size (main_devices (sy_main y))
     + size (sy_closed y) = size (sy_made y)"
proof -
  have "accounted (\<lambda>_. ()) y" using source_sys.reachable_ok [OF assms] by blast
  then have "size (image_mset (\<lambda>_. ()) (live_devices y) + image_mset (\<lambda>_. ()) (sy_closed y)) = size (image_mset (\<lambda>_. ()) (sy_made y))"
    by (simp only: accounted_def)
  then show ?thesis by (simp add: live_devices_def)
qed

text \<open>C23. The wait of a command ends: from any state a node reaches inside one, the worker needs at most
  eleven turns - whatever its device opens return - to be idle with an empty slot, and what the data loop
  does meanwhile cannot give it more work. (A command in the slot takes six turns, the one being run at
  most five.)\<close>

theorem wait_for_the_worker_ends:
  assumes "(sink_system B W new_device configure)\<^sup>*\<^sup>* (sys_start s) y" "fresh_node s" "in_command (sy_main y)"
    and "11 \<le> length answers"
  shows "worker_idle (ds_rebuild_work (sy_data (worker_run answers y)))
     \<and> snd (poll_rebuild (sink_direction B W new_device configure) (sy_data y)) = sy_data y
     \<and> snd (queue_rebuild (sy_data y)) = sy_data y"
proof -
  have ok: "sys_ok y" using sink_sys.reachable_ok [OF assms(1,2)] by blast
  then have "ds_rebuild_takeover (sy_data y)" using assms(3) by (simp add: sys_ok_def)
  then show ?thesis using worker_run_idles [OF ok assms(3), of answers] turns_left_bound [of y] assms(4) taken_over
    by auto
qed

text \<open>The turns of the worker's loop for a rebuild command, each finding the shared state another thread may
  have left, end with the completion of \<open>rebuild_task\<close> on the three states it looked at, and drop the
  devices that task closes.\<close>

lemma worker_turns_agree_with_the_task:
  assumes "\<not> ws_stopping (ds_rebuild_work s0)"
  shows "task_turns (dn_try_open_configure D (rq_config request) (rq_properties request) (dn_new D (rq_path request)))
           (WTaken (Rebuild request)) [s0, s1, s2]
     = (WAnswer (fst (rebuild_task D (ds_shared s0) (ds_shared s1) (ds_shared s2) Returns request)),
        mset (closed_devices (snd (rebuild_task D (ds_shared s0) (ds_shared s1) (ds_shared s2) Returns request))))"
  using assms
  by (cases "rq_retire_first request")
    (auto simp: rebuild_task_def worker_answer_def guard_complete_def request_devices_def open_outcome_def Let_def
      split: sum.splits prod.splits)

section \<open>Witnesses\<close>

lemma sample_nodes_fresh: "fresh_node sample_sink" "fresh_node sample_source"
  by (simp_all add: fresh_node_def sample_sink_def sample_source_def has_timer_def)

abbreviation sample_wake :: "(dsp_writer, oss_wake_driver) wake_ops" where
  "sample_wake \<equiv> oss_playback_wake (\<lambda>_. 7)"

abbreviation busy_open :: "stream_config \<Rightarrow> oss_properties \<Rightarrow> 'd \<Rightarrow> (int + configure_outcome) \<times> 'd" where
  "busy_open \<equiv> (\<lambda>_ _ d. (Inl (-16), d))"

theorem commands_quiesce_rebuilds_witness:
  "\<exists>y. (sink_system (oss_playback False) sample_wake (\<lambda>_. refusing_writer) busy_open)\<^sup>*\<^sup>* (sys_start sample_sink) y
     \<and> sy_main y = MQuiet [] \<and> no_rebuild_left y"
proof -
  obtain y where y: "(sink_system (oss_playback False) sample_wake (\<lambda>_. refusing_writer) busy_open)\<^sup>*\<^sup>* (sys_start sample_sink) y"
    "sy_main y = MQuiet []" using sink_sys.takeover_reaches_quiet [OF sample_nodes_fresh(1)] by blast
  then show ?thesis using commands_quiesce_rebuilds [OF y(1) sample_nodes_fresh(1)] by auto
qed

theorem no_device_is_lost_witness:
  "\<exists>y. (source_system (oss_capture False) (oss_capture_wake (\<lambda>_. 7)) (\<lambda>_. sample_dsp) busy_open)\<^sup>*\<^sup>* (sys_start sample_source) y
     \<and> sy_main y = MQuiet [] \<and> size (owned_devices (sy_data y)) + size (worker_devices (sy_worker y)) + size (sy_closed y) = size (sy_made y)"
proof -
  obtain y where y: "(source_system (oss_capture False) (oss_capture_wake (\<lambda>_. 7)) (\<lambda>_. sample_dsp) busy_open)\<^sup>*\<^sup>* (sys_start sample_source) y"
    "sy_main y = MQuiet []" using source_sys.takeover_reaches_quiet [OF sample_nodes_fresh(2)] by blast
  then show ?thesis using no_device_is_lost [OF y(1) sample_nodes_fresh(2)] by auto
qed

theorem wait_for_the_worker_ends_witness:
  "\<exists>y. (sink_system (oss_playback False) sample_wake (\<lambda>_. refusing_writer) busy_open)\<^sup>*\<^sup>* (sys_start sample_sink) y
     \<and> in_command (sy_main y) \<and> worker_idle (ds_rebuild_work (sy_data (worker_run (replicate 11 (Inl 16, refusing_writer)) y)))"
proof -
  obtain y where y: "(sink_system (oss_playback False) sample_wake (\<lambda>_. refusing_writer) busy_open)\<^sup>*\<^sup>* (sys_start sample_sink) y"
    "sy_main y = MQuiet []" using sink_sys.takeover_reaches_quiet [OF sample_nodes_fresh(1)] by blast
  have c: "in_command (sy_main y)" using y(2) by (simp add: in_command_def)
  show ?thesis using wait_for_the_worker_ends [OF y(1) sample_nodes_fresh(1) c, of "replicate 11 (Inl 16, refusing_writer)"] y(1) c by auto
qed

end
