(* ===== verification/OssHotplug.thy ===== *)
theory OssHotplug
  imports OssWake
begin

text \<open>
  The hotplug monitor (the second half of crates/freebsd-oss/src/freebsd\_oss/event.rs and
  sys/devd.rs): a kernel queue that outlives the devd connection it watches. \<open>hm_opens\<close> are the
  answers the next attempts to connect to devd are going to give, and a connection carries the
  results its receives are going to give. Lines are strings of bytes; the decoders look at ASCII only.
  The catalog is an argument: it belongs to the device component.
\<close>

section \<open>What a devd line says\<close>

datatype catalog_signal = Attached | Detached string

datatype catalog_refresh = RefreshFull | RefreshDetached string

definition refresh_of :: "catalog_signal option \<Rightarrow> bool \<Rightarrow> catalog_refresh option" where
  "refresh_of signal reconnected =
     (if reconnected then Some RefreshFull
      else case signal of
        Some Attached \<Rightarrow> Some RefreshFull
      | Some (Detached subject) \<Rightarrow> Some (RefreshDetached subject)
      | None \<Rightarrow> None)"

definition merge_catalog_signal :: "catalog_signal option \<Rightarrow> catalog_signal option \<Rightarrow> catalog_signal option" where
  "merge_catalog_signal current nxt =
     (case (current, nxt) of
        (_, None) \<Rightarrow> current
      | (None, _) \<Rightarrow> nxt
      | (Some (Detached a), Some (Detached b)) \<Rightarrow> if a = b then Some (Detached a) else Some Attached
      | _ \<Rightarrow> Some Attached)"

definition strip_prefix :: "string \<Rightarrow> string \<Rightarrow> string option" where
  "strip_prefix p s = (if take (length p) s = p then Some (drop (length p) s) else None)"

definition leading_digits :: "string \<Rightarrow> string" where
  "leading_digits s = takeWhile (\<lambda>c. digit_value c \<noteq> None) s"

text \<open>The regular expressions: the name of the unit is the alternative that matches with every digit
  that follows it.\<close>

definition unit_name :: "string \<Rightarrow> string option" where
  "unit_name s =
     (let named = (\<lambda>p. case strip_prefix p s of None \<Rightarrow> None
                      | Some rest \<Rightarrow> if leading_digits rest = [] then None else Some (p @ leading_digits rest))
      in case named ''pcm'' of Some n \<Rightarrow> Some n | None \<Rightarrow> named ''uaudio'')"

definition decode_catalog_signal :: "string \<Rightarrow> catalog_signal option" where
  "decode_catalog_signal line =
     (case line of
        [] \<Rightarrow> None
      | c # rest \<Rightarrow>
          if c = CHR ''+'' \<or> c = CHR ''-''
          then case unit_name rest of
                 None \<Rightarrow> None
               | Some subject \<Rightarrow> if c = CHR ''-'' then Some (Detached subject) else Some Attached
          else None)"

definition decode_mixer_event :: "string \<Rightarrow> u32 option" where
  "decode_mixer_event line =
     (case strip_prefix ''!system=SND subsystem=CONN type='' line of
        None \<Rightarrow> None
      | Some rest \<Rightarrow>
          case (case strip_prefix ''IN'' rest of Some r \<Rightarrow> Some r | None \<Rightarrow> strip_prefix ''OUT'' rest) of
            None \<Rightarrow> None
          | Some rest \<Rightarrow>
              case strip_prefix '' cdev=dsp'' rest of
                None \<Rightarrow> None
              | Some rest \<Rightarrow> if leading_digits rest = [] then None else parse_u32 (leading_digits rest))"

section \<open>The devd connection\<close>

datatype devd_recv = RecvLine string | RecvRetry | RecvFailed

record devd_socket =
  sk_fd :: nat
  sk_recvs :: "devd_recv list"

text \<open>A packet of length 0 is the end of the connection.\<close>

definition socket_read_event :: "(string \<Rightarrow> 'a \<Rightarrow> 'a) \<Rightarrow> devd_socket \<Rightarrow> 'a \<Rightarrow> bool \<times> devd_socket \<times> 'a" where
  "socket_read_event apply_line sock acc =
     (let (r, rest) = pop RecvFailed (sk_recvs sock); sock = sock\<lparr> sk_recvs := rest \<rparr>
      in case r of
           RecvLine line \<Rightarrow> if line = [] then (False, sock, acc) else (True, sock, apply_line line acc)
         | RecvRetry \<Rightarrow> (True, sock, acc)
         | RecvFailed \<Rightarrow> (False, sock, acc))"

section \<open>The monitor\<close>

abbreviation (input) DEVD_RETRY_TIMER_IDENT :: nat where "DEVD_RETRY_TIMER_IDENT \<equiv> 2"
abbreviation (input) DEVD_RETRY_MIN_MS :: nat where "DEVD_RETRY_MIN_MS \<equiv> 1000"
abbreviation (input) DEVD_RETRY_MAX_MS :: nat where "DEVD_RETRY_MAX_MS \<equiv> 30000"

record hotplug_monitor =
  hm_queue :: kqueue
  hm_socket :: "devd_socket option"
  hm_socket_key :: nat
  hm_retry_delay_ms :: u32
  hm_opens :: "devd_socket option list"

definition take_retry_delay :: "u32 \<Rightarrow> u32 \<times> u32" where
  "take_retry_delay delay_ms = (delay_ms, min (sat_mul32 delay_ms 2) DEVD_RETRY_MAX_MS)"

definition kevent_read_error_is_fatal :: "int \<Rightarrow> bool" where
  "kevent_read_error_is_fatal e \<longleftrightarrow> e = EBADF_code"

definition install_socket :: "devd_socket \<Rightarrow> hotplug_monitor \<Rightarrow> (int + unit) \<times> hotplug_monitor" where
  "install_socket sock m =
     (let m = m\<lparr> hm_socket_key := next_key (hm_socket_key m) \<rparr>;
          (result, q) = submit_change \<lparr> kc_ident = sk_fd sock, kc_filter = EvRead, kc_action = AddLevel,
             kc_data = 0, kc_key = hm_socket_key m \<rparr> (hm_queue m);
          m = m\<lparr> hm_queue := q \<rparr>
      in case result of
           Inl e \<Rightarrow> (Inl e, m)
         | Inr _ \<Rightarrow> (Inr (), m\<lparr> hm_socket := Some sock, hm_retry_delay_ms := DEVD_RETRY_MIN_MS \<rparr>))"

definition arm_retry :: "hotplug_monitor \<Rightarrow> (int + unit) \<times> hotplug_monitor" where
  "arm_retry m =
     (let (delay_ms, later) = take_retry_delay (hm_retry_delay_ms m);
          (result, q) = submit_change \<lparr> kc_ident = DEVD_RETRY_TIMER_IDENT, kc_filter = EvTimer, kc_action = AddOneshot,
             kc_data = int delay_ms, kc_key = 0 \<rparr> (hm_queue m)
      in (result, m\<lparr> hm_retry_delay_ms := later, hm_queue := q \<rparr>))"

definition devd_open :: "hotplug_monitor \<Rightarrow> devd_socket option \<times> hotplug_monitor" where
  "devd_open m = (let (s, rest) = pop None (hm_opens m) in (s, m\<lparr> hm_opens := rest \<rparr>))"

definition monitor_open :: "kqueue \<Rightarrow> devd_socket option list \<Rightarrow> int + hotplug_monitor" where
  "monitor_open queue opens =
     (let m = \<lparr> hm_queue = queue, hm_socket = None, hm_socket_key = 0, hm_retry_delay_ms = DEVD_RETRY_MIN_MS,
                hm_opens = opens \<rparr>;
          (sock, m) = devd_open m;
          (installed, m) = (case sock of
             Some sock \<Rightarrow> let (r, m) = install_socket sock m in (r = Inr (), m)
           | None \<Rightarrow> (False, m))
      in if installed then Inr m
         else case arm_retry m of (Inl e, _) \<Rightarrow> Inl e | (Inr _, m) \<Rightarrow> Inr m)"

definition reconnect :: "hotplug_monitor \<Rightarrow> (int + bool) \<times> hotplug_monitor" where
  "reconnect m =
     (let (sock, m) = devd_open m;
          retry = (\<lambda>m. case arm_retry m of (Inl e, m) \<Rightarrow> (Inl e, m) | (Inr _, m) \<Rightarrow> (Inr False, m))
      in case sock of
           None \<Rightarrow> retry m
         | Some sock \<Rightarrow>
             case install_socket sock m of
               (Inl _, m) \<Rightarrow> retry (m\<lparr> hm_socket := None \<rparr>)
             | (Inr _, m) \<Rightarrow> (Inr True, m))"

definition handle_socket_loss :: "hotplug_monitor \<Rightarrow> bool \<times> hotplug_monitor" where
  "handle_socket_loss m = (let (r, m) = arm_retry (m\<lparr> hm_socket := None \<rparr>) in (r = Inr (), m))"

definition matches_retry_timer :: "kevent \<Rightarrow> bool" where
  "matches_retry_timer ev \<longleftrightarrow> ke_filter ev = EvTimer \<and> ke_ident ev = DEVD_RETRY_TIMER_IDENT"

definition matches_socket :: "kevent \<Rightarrow> hotplug_monitor \<Rightarrow> bool" where
  "matches_socket ev m \<longleftrightarrow> (case hm_socket m of
     Some sock \<Rightarrow> ke_filter ev = EvRead \<and> ke_ident ev = sk_fd sock \<and> ke_udata ev = hm_socket_key m
   | None \<Rightarrow> False)"

text \<open>One event of the batch: whether the loop goes on, whether a connection was restored, and the
  accumulator of the caller's closure.\<close>

definition handle_event ::
    "(string \<Rightarrow> 'a \<Rightarrow> 'a) \<Rightarrow> kevent \<Rightarrow> 'a \<Rightarrow> hotplug_monitor \<Rightarrow> bool \<times> bool \<times> 'a \<times> hotplug_monitor" where
  "handle_event apply_line ev acc m =
     (if ke_error ev
      then if matches_socket ev m
           then let (ok, m) = handle_socket_loss m in (ok, False, acc, m)
           else if matches_retry_timer ev
           then let (r, m) = arm_retry m in (r = Inr (), False, acc, m)
           else (True, False, acc, m)
      else if matches_retry_timer ev
      then case reconnect m of
             (Inr restored, m) \<Rightarrow> (True, restored, acc, m)
           | (Inl _, m) \<Rightarrow> (False, False, acc, m)
      else if \<not> matches_socket ev m then (True, False, acc, m)
      else let (socket_alive, m, acc) = (case hm_socket m of
                 Some sock \<Rightarrow> let (live, sock, acc) = socket_read_event apply_line sock acc
                              in (live, m\<lparr> hm_socket := Some sock \<rparr>, acc)
               | None \<Rightarrow> (False, m, acc))
           in if socket_alive then (True, False, acc, m)
              else let (ok, m) = handle_socket_loss m in (ok, False, acc, m))"

fun handle_events ::
    "(string \<Rightarrow> 'a \<Rightarrow> 'a) \<Rightarrow> kevent list \<Rightarrow> bool \<Rightarrow> 'a \<Rightarrow> hotplug_monitor \<Rightarrow> (bool \<times> bool) \<times> 'a \<times> hotplug_monitor" where
  "handle_events apply_line [] reconnected acc m = ((True, reconnected), acc, m)"
| "handle_events apply_line (ev # evs) reconnected acc m =
     (let (go, restored, acc, m) = handle_event apply_line ev acc m; reconnected = (reconnected \<or> restored)
      in if go then handle_events apply_line evs reconnected acc m else ((False, reconnected), acc, m))"

definition read_event ::
    "(string \<Rightarrow> 'a \<Rightarrow> 'a) \<Rightarrow> 'a \<Rightarrow> hotplug_monitor \<Rightarrow> (bool \<times> bool) \<times> 'a \<times> hotplug_monitor" where
  "read_event apply_line acc m =
     (let (answer, q) = kevent_read 4 (hm_queue m); m = m\<lparr> hm_queue := q \<rparr>
      in case answer of
           Inl e \<Rightarrow> ((\<not> kevent_read_error_is_fatal e, False), acc, m)
         | Inr evs \<Rightarrow> handle_events apply_line evs False acc m)"

definition read_catalog_rescan ::
    "(string list \<Rightarrow> 'c \<Rightarrow> 'r \<times> 'c) \<Rightarrow> 'c \<Rightarrow> hotplug_monitor \<Rightarrow> (bool \<times> 'r option) \<times> 'c \<times> hotplug_monitor" where
  "read_catalog_rescan rescan catalog m =
     (let ((alive, reconnected), signal, m) =
            read_event (\<lambda>line signal. merge_catalog_signal signal (decode_catalog_signal line)) None m
      in case refresh_of signal reconnected of
           Some RefreshFull \<Rightarrow> let (r, catalog) = rescan [] catalog in ((alive, Some r), catalog, m)
         | Some (RefreshDetached subject) \<Rightarrow> let (r, catalog) = rescan [subject] catalog in ((alive, Some r), catalog, m)
         | None \<Rightarrow> ((alive, None), catalog, m))"

definition read_mixer_event :: "hotplug_monitor \<Rightarrow> (bool \<times> u32 option \<times> bool) \<times> hotplug_monitor" where
  "read_mixer_event m =
     (let ((alive, reconnected), unit, m) =
            read_event (\<lambda>line unit. case decode_mixer_event line of Some d \<Rightarrow> Some d | None \<Rightarrow> unit) None m
      in ((alive, unit, reconnected), m))"

section \<open>The monitor never goes deaf\<close>

text \<open>The monitor either watches its connection, under the key it compares events with, or has a retry
  timer in the queue; and the retry delay stays in its range.\<close>

definition watching :: "hotplug_monitor \<Rightarrow> bool" where
  "watching m \<longleftrightarrow> (case hm_socket m of
     Some s \<Rightarrow> kq_knotes (hm_queue m) (sk_fd s, EvRead) = Some (hm_socket_key m) | None \<Rightarrow> False)"

definition retrying :: "hotplug_monitor \<Rightarrow> bool" where
  "retrying m \<longleftrightarrow> kq_knotes (hm_queue m) (DEVD_RETRY_TIMER_IDENT, EvTimer) \<noteq> None"

definition delay_ok :: "hotplug_monitor \<Rightarrow> bool" where
  "delay_ok m \<longleftrightarrow> DEVD_RETRY_MIN_MS \<le> hm_retry_delay_ms m \<and> hm_retry_delay_ms m \<le> DEVD_RETRY_MAX_MS"

definition hotplug_ok :: "hotplug_monitor \<Rightarrow> bool" where
  "hotplug_ok m \<longleftrightarrow> (watching m \<or> (hm_socket m = None \<and> retrying m)) \<and> delay_ok m"

lemma arm_retry_facts:
  assumes "arm_retry m = (r, m')"
  shows "hm_socket m' = hm_socket m" "watching m \<Longrightarrow> watching m'" "delay_ok m \<Longrightarrow> delay_ok m'"
    "r = Inr () \<Longrightarrow> retrying m'" "retrying m \<Longrightarrow> retrying m'"
proof -
  let ?c = "\<lparr> kc_ident = DEVD_RETRY_TIMER_IDENT, kc_filter = EvTimer, kc_action = AddOneshot,
             kc_data = int (hm_retry_delay_ms m), kc_key = 0 \<rparr>"
  obtain r' q where s: "submit_change ?c (hm_queue m) = (r', q)" by fastforce
  have m': "r = r'" "m' = m\<lparr> hm_retry_delay_ms := min (sat_mul32 (hm_retry_delay_ms m) 2) DEVD_RETRY_MAX_MS, hm_queue := q \<rparr>"
    using assms s by (auto simp: arm_retry_def take_retry_delay_def)
  have k: "kq_knotes q = (case r' of Inr _ \<Rightarrow> (kq_knotes (hm_queue m))((2, EvTimer) := Some 0) | Inl _ \<Rightarrow> kq_knotes (hm_queue m))"
    using submit_knotes(1) [of ?c "hm_queue m"] s by (simp add: Let_def split: sum.split)
  show "hm_socket m' = hm_socket m" by (simp add: m')
  show "watching m \<Longrightarrow> watching m'" using k by (cases r') (auto simp: watching_def m' split: option.splits)
  show "delay_ok m \<Longrightarrow> delay_ok m'" by (auto simp: delay_ok_def m' sat_mul32_def)
  show "r = Inr () \<Longrightarrow> retrying m'" "retrying m \<Longrightarrow> retrying m'"
    using k by (cases r'; simp add: retrying_def m')+
qed

lemma install_socket_facts:
  assumes "install_socket sock m = (r, m')"
  shows "r = Inr () \<Longrightarrow> watching m'" "delay_ok m \<Longrightarrow> delay_ok m'"
proof -
  let ?c = "\<lparr> kc_ident = sk_fd sock, kc_filter = EvRead, kc_action = AddLevel, kc_data = 0, kc_key = next_key (hm_socket_key m) \<rparr>"
  obtain r' q where s: "submit_change ?c (hm_queue m) = (r', q)" by fastforce
  have k: "r' = Inr y \<Longrightarrow> kq_knotes q = (kq_knotes (hm_queue m))((sk_fd sock, EvRead) := Some (next_key (hm_socket_key m)))" for y
    using submit_knotes(1) [of ?c "hm_queue m"] s by (simp add: Let_def)
  show "r = Inr () \<Longrightarrow> watching m'" "delay_ok m \<Longrightarrow> delay_ok m'"
    using assms s k by (cases r'; auto simp: install_socket_def watching_def delay_ok_def Let_def)+
qed

lemma devd_open_facts:
  "devd_open m = (s, m') \<Longrightarrow> watching m' = watching m \<and> delay_ok m' = delay_ok m \<and> hm_socket m' = hm_socket m"
  by (auto simp: devd_open_def watching_def delay_ok_def case_prod_beta Let_def split: option.splits)

lemma socket_loss_ok:
  assumes "delay_ok m" "handle_socket_loss m = (True, m')"
  shows "hotplug_ok m'"
proof -
  obtain r n where a: "arm_retry (m\<lparr> hm_socket := None \<rparr>) = (r, n)" by fastforce
  have "r = Inr ()" "m' = n" using assms(2) a by (auto simp: handle_socket_loss_def)
  then show ?thesis using arm_retry_facts [OF a] assms(1) by (simp add: hotplug_ok_def delay_ok_def)
qed

lemma reconnect_ok:
  assumes "delay_ok m" "watching m \<or> hm_socket m = None" "reconnect m = (Inr restored, m')"
  shows "hotplug_ok m'"
proof -
  obtain s n where o: "devd_open m = (s, n)" by fastforce
  note of = devd_open_facts [OF o]
  show ?thesis
  proof (cases s)
    case None
    obtain r k where a: "arm_retry n = (r, k)" by fastforce
    have "r = Inr ()" "m' = k" using assms(3) o None a by (auto simp: reconnect_def split: sum.splits)
    then show ?thesis using arm_retry_facts [OF a] of assms(1,2) by (auto simp: hotplug_ok_def)
  next
    case (Some sock)
    obtain r k where i: "install_socket sock n = (r, k)" by fastforce
    show ?thesis
    proof (cases r)
      case (Inr y)
      then have "m' = k" using assms(3) o Some i by (auto simp: reconnect_def)
      then show ?thesis using install_socket_facts [OF i] Inr of assms(1) by (simp add: hotplug_ok_def)
    next
      case (Inl e)
      obtain r2 k2 where a: "arm_retry (k\<lparr> hm_socket := None \<rparr>) = (r2, k2)" by fastforce
      have "r2 = Inr ()" "m' = k2" using assms(3) o Some i Inl a by (auto simp: reconnect_def split: sum.splits)
      then show ?thesis using arm_retry_facts [OF a] install_socket_facts(2) [OF i] of assms(1)
        by (simp add: hotplug_ok_def delay_ok_def)
    qed
  qed
qed

text \<open>While a batch is being worked through, the timer whose event is still in it counts as armed.\<close>

definition pending_ok :: "kevent list \<Rightarrow> hotplug_monitor \<Rightarrow> bool" where
  "pending_ok evs m \<longleftrightarrow> delay_ok m
     \<and> (watching m \<or> (hm_socket m = None \<and> (retrying m \<or> (\<exists>ev \<in> set evs. matches_retry_timer ev))))"

lemma hotplug_pending: "hotplug_ok m \<Longrightarrow> pending_ok evs m" "pending_ok [] m = hotplug_ok m"
  by (auto simp: hotplug_ok_def pending_ok_def)

lemma socket_read_fd: "socket_read_event f sock acc = (live, sock', acc') \<Longrightarrow> sk_fd sock' = sk_fd sock"
  by (auto simp: socket_read_event_def Let_def split: prod.splits devd_recv.splits if_splits)

lemma handle_event_ok:
  assumes "pending_ok (ev # evs) m" "handle_event f ev acc m = (True, restored, acc', m')"
  shows "pending_ok evs m'"
proof -
  have d: "delay_ok m" and w: "watching m \<or> hm_socket m = None" using assms(1) by (auto simp: pending_ok_def)
  have none: "\<not> matches_socket ev m" if "hm_socket m = None" using that by (simp add: matches_socket_def)
  consider (loss) "handle_socket_loss m = (True, m')"
    | (lost) n where "delay_ok n" "handle_socket_loss n = (True, m')"
    | (arm) "matches_retry_timer ev" "arm_retry m = (Inr (), m')"
    | (timer) r where "reconnect m = (Inr r, m')"
    | (skip) "m' = m" "\<not> matches_retry_timer ev"
    | (read) sock sock' where "hm_socket m = Some sock" "m' = m\<lparr> hm_socket := Some sock' \<rparr>" "sk_fd sock' = sk_fd sock"
  proof (cases "ke_error ev")
    case True
    then show thesis using assms(2) that(1,3,5)
      by (auto simp: handle_event_def Let_def split: if_splits prod.splits)
  next
    case False
    show thesis
    proof (cases "matches_retry_timer ev \<or> \<not> matches_socket ev m")
      case True
      then show thesis using assms(2) False that(4,5)
        by (auto simp: handle_event_def split: if_splits prod.splits sum.splits)
    next
      case sock: False
      then obtain s where s: "hm_socket m = Some s" by (auto simp: matches_socket_def split: option.splits)
      obtain live s' a where r: "socket_read_event f s acc = (live, s', a)" using prod_cases3 by blast
      show thesis
      proof (cases live)
        case True
        then have "m' = m\<lparr> hm_socket := Some s' \<rparr>" using assms(2) False sock s r by (simp add: handle_event_def)
        then show thesis using that(6) s socket_read_fd [OF r] by blast
      next
        case dead: False
        have "handle_socket_loss (m\<lparr> hm_socket := Some s' \<rparr>) = (True, m')"
          using assms(2) False sock s r dead by (auto simp: handle_event_def Let_def split: prod.splits)
        then show thesis using that(2) [of "m\<lparr> hm_socket := Some s' \<rparr>"] d by (simp add: delay_ok_def)
      qed
    qed
  qed
  then show ?thesis
  proof cases
    case loss
    then show ?thesis using socket_loss_ok [OF d] hotplug_pending(1) by blast
  next
    case (lost n)
    then show ?thesis using socket_loss_ok hotplug_pending(1) by blast
  next
    case arm
    then show ?thesis using arm_retry_facts [OF arm(2)] d w by (auto simp: pending_ok_def)
  next
    case (timer r)
    then show ?thesis using reconnect_ok [OF d w] hotplug_pending(1) by blast
  next
    case skip
    then show ?thesis using assms(1) by (auto simp: pending_ok_def)
  next
    case (read sock sock')
    then have "watching m'" using w by (simp add: watching_def)
    then show ?thesis using d read(2) by (simp add: pending_ok_def delay_ok_def)
  qed
qed

lemma handle_events_ok:
  "pending_ok evs m \<Longrightarrow> handle_events f evs rec acc m = ((True, rec'), acc', m') \<Longrightarrow> hotplug_ok m'"
proof (induction f evs rec acc m rule: handle_events.induct)
  case (1 f rec acc m)
  then show ?case by (simp add: hotplug_pending(2))
next
  case (2 f ev evs rec acc m)
  obtain go restored a n where h: "handle_event f ev acc m = (go, restored, a, n)" using prod_cases4 by blast
  have go: "go" "handle_events f evs (rec \<or> restored) a n = ((True, rec'), acc', m')"
    using 2(3) h by (auto simp: Let_def split: if_splits)
  have "pending_ok evs n" using handle_event_ok [OF 2(2), of f acc restored a n] h go(1) by simp
  then show ?case using 2(1) [OF h [symmetric] refl refl refl refl go(1)] go(2) by simp
qed

section \<open>Properties\<close>

text \<open>C15. The monitor never goes deaf: as long as it reports itself alive, it is watching a devd
  connection under the key it will accept events for, or a retry timer is armed in its queue; a
  restart of devd, a failed connect, a failed registration, an error event and any mixture of them in one
  batch only move it between the two, and the retry delay stays between one and thirty seconds.\<close>

theorem monitor_never_goes_deaf:
  assumes "hotplug_ok m" "read_event f acc m = ((alive, reconnected), acc', m')"
  shows "alive \<le> hotplug_ok m'"
proof -
  obtain a q where r: "kevent_read 4 (hm_queue m) = (a, q)" by fastforce
  have same: "watching (m\<lparr> hm_queue := q \<rparr>) = watching m" "delay_ok (m\<lparr> hm_queue := q \<rparr>) = delay_ok m"
    using kevent_read_knotes(1) [of EvRead 4 "hm_queue m"] r by (simp_all add: watching_def delay_ok_def split: option.split)
  show ?thesis
  proof (cases a)
    case (Inl e)
    then have "kq_knotes q = kq_knotes (hm_queue m)" using kevent_read_knotes(3) [of 4 "hm_queue m" e] r by simp
    then show ?thesis using assms r Inl same by (auto simp: read_event_def hotplug_ok_def retrying_def)
  next
    case (Inr evs)
    have "kq_knotes q (2, EvTimer) = (if 2 \<in> set (timers_of evs) then None else kq_knotes (hm_queue m) (2, EvTimer))"
      using kevent_read_knotes(2) [of 4 "hm_queue m" evs 2] r Inr by simp
    moreover have "2 \<in> set (timers_of evs) \<longleftrightarrow> (\<exists>ev \<in> set evs. matches_retry_timer ev)"
      by (auto simp: timers_of_def matches_retry_timer_def image_iff)
    ultimately have "pending_ok evs (m\<lparr> hm_queue := q \<rparr>)"
      using assms(1) same by (auto simp: hotplug_ok_def pending_ok_def retrying_def)
    from handle_events_ok [OF this, of f False acc reconnected acc' m'] show ?thesis
      using assms(2) r Inr by (cases alive) (auto simp: read_event_def)
  qed
qed

definition sample_monitor :: hotplug_monitor where
  "sample_monitor = (case monitor_open (accepting_queue\<lparr> kq_batches := [Inr [\<lparr> ke_ident = 9, ke_filter = EvRead, ke_error = False,
       ke_eof = True, ke_data = 0, ke_udata = 1, ke_ext0 = 0, ke_ext1 = 0 \<rparr>]] \<rparr>)
       [Some \<lparr> sk_fd = 9, sk_recvs = [RecvLine []] \<rparr>] of Inr m \<Rightarrow> m)"

theorem monitor_never_goes_deaf_witness:
  "let ((alive, _), _, m) = read_event (\<lambda>_ n. n + 1) (0 :: nat) sample_monitor
   in alive \<and> hotplug_ok m \<and> hm_socket m = None \<and> hm_retry_delay_ms m = 2000"
proof -
  have ok: "hotplug_ok sample_monitor"
    by (simp add: sample_monitor_def monitor_open_def accepting_queue_def devd_open_def install_socket_def submit_change_def
        apply_change_def pop_def next_key_def hotplug_ok_def watching_def delay_ok_def Let_def)
  let ?r = "read_event (\<lambda>_ n. n + 1) (0 :: nat) sample_monitor"
  have e: "fst (fst ?r)" "hm_socket (snd (snd ?r)) = None" "hm_retry_delay_ms (snd (snd ?r)) = 2000"
    by (simp_all add: sample_monitor_def monitor_open_def accepting_queue_def devd_open_def install_socket_def submit_change_def
        apply_change_def pop_def next_key_def read_event_def kevent_read_def handle_event_def matches_retry_timer_def
        matches_socket_def socket_read_event_def handle_socket_loss_def arm_retry_def take_retry_delay_def sat_mul32_def
        timers_of_def Let_def)
  have "fst (fst ?r) \<le> hotplug_ok (snd (snd ?r))"
    by (rule monitor_never_goes_deaf [OF ok, of "\<lambda>_ n. n + 1" 0 _ "snd (fst ?r)" "fst (snd ?r)"]) simp
  then show ?thesis using e by (simp add: case_prod_beta Let_def)
qed

text \<open>What a batch of signals amounts to, without the merging: a reconnection or an attachment asks for a
  full rescan, detachments of one unit for a rescan of that unit, detachments of several for a full
  one.\<close>

definition batch_refresh :: "catalog_signal option list \<Rightarrow> bool \<Rightarrow> catalog_refresh option" where
  "batch_refresh signals reconnected =
     (if reconnected then Some RefreshFull
      else case List.map_filter id signals of
        [] \<Rightarrow> None
      | Attached # _ \<Rightarrow> Some RefreshFull
      | Detached subject # rest \<Rightarrow> if list_all ((=) (Detached subject)) rest then Some (RefreshDetached subject)
                                  else Some RefreshFull)"

lemma merge_simps [simp]:
  "merge_catalog_signal c None = c" "merge_catalog_signal None c = c"
  "merge_catalog_signal (Some Attached) c = Some Attached" "merge_catalog_signal (Some (Detached a)) (Some Attached) = Some Attached"
  "merge_catalog_signal (Some (Detached a)) (Some (Detached b)) = (if a = b then Some (Detached a) else Some Attached)"
  by (simp_all add: merge_catalog_signal_def split: option.split catalog_signal.split)

lemma merge_attached: "fold (\<lambda>s c. merge_catalog_signal c s) signals (Some Attached) = Some Attached"
  by (induction signals) simp_all

lemma merge_detached:
  "fold (\<lambda>s c. merge_catalog_signal c s) signals (Some (Detached a)) =
     (if list_all ((=) (Detached a)) (List.map_filter id signals) then Some (Detached a) else Some Attached)"
proof (induction signals)
  case Nil
  then show ?case by simp
next
  case (Cons s signals)
  show ?case
  proof (cases s)
    case None
    then show ?thesis using Cons by simp
  next
    case (Some sig)
    then show ?thesis using Cons by (cases sig) (auto simp: merge_attached)
  qed
qed

lemma merge_signals:
  "fold (\<lambda>s c. merge_catalog_signal c s) signals None =
     (case List.map_filter id signals of
        [] \<Rightarrow> None
      | Attached # _ \<Rightarrow> Some Attached
      | Detached a # rest \<Rightarrow> if list_all ((=) (Detached a)) rest then Some (Detached a) else Some Attached)"
proof (induction signals)
  case Nil
  then show ?case by simp
next
  case (Cons s signals)
  show ?case
  proof (cases s)
    case None
    then show ?thesis using Cons by simp
  next
    case (Some sig)
    then show ?thesis by (cases sig) (simp_all add: merge_attached merge_detached id_def)
  qed
qed

text \<open>No hotplug event is lost to batching: the one refresh a batch ends in covers every line of it,
  and it is the narrow one, of a single unit, exactly when every relevant line announced that unit's
  detachment and the connection was not re-established.\<close>

theorem batched_signals_are_all_covered:
  "refresh_of (fold (\<lambda>line signal. merge_catalog_signal signal (decode_catalog_signal line)) lines None) reconnected
     = batch_refresh (map decode_catalog_signal lines) reconnected"
proof -
  have "fold (\<lambda>line signal. merge_catalog_signal signal (decode_catalog_signal line)) lines None
      = fold (\<lambda>s c. merge_catalog_signal c s) (map decode_catalog_signal lines) None"
    by (simp add: fold_map comp_def)
  then show ?thesis
    by (simp add: refresh_of_def batch_refresh_def merge_signals split: list.split catalog_signal.split)
qed

end
