(* ===== verification/OssDevices.thy ===== *)
theory OssDevices
  imports OssConfig OssHotplug FormatNeg
begin

text \<open>
  Capability discovery (crates/freebsd-oss/src/freebsd\_oss/devices.rs): what a snapshot of sndstat(4)
  says about a device, the rates of an exclusive endpoint, the capabilities a probe advertises, and the
  delivery quantum. The packed list sndstat answers is the record list it unpacks to, each field that may
  be missing an option; the engine records of the mixer descriptor and what the transient DSP descriptor
  answers are arguments. The diagnostics of a busy device are left out.
\<close>

section \<open>What the kernel answers\<close>

record nv_channel =
  nc_caps :: "u64 option"
  nc_hwbuf_blksz :: "u64 option"
  nc_hwbuf_rate :: "u64 option"
  nc_hwbuf_format :: "u64 option"

record nv_provider =
  np_pvchan_flag :: "bool option"
  np_rvchan_flag :: "bool option"
  np_pvchan :: "u64 option"
  np_rvchan :: "u64 option"
  np_pvchanrate :: "u64 option"
  np_rvchanrate :: "u64 option"
  np_bitperfect :: "bool option"
  np_channel_info :: "nv_channel list"

record nv_direction =
  nd_formats :: "u64 option"
  nd_min_rate :: "u64 option"
  nd_max_rate :: "u64 option"
  nd_min_chn :: "u64 option"
  nd_max_chn :: "u64 option"

record nv_device =
  nv_from_user :: "bool option"
  nv_devnode :: "string option"
  nv_nameunit :: "string option"
  nv_pchan :: "u64 option"
  nv_rchan :: "u64 option"
  nv_info_play :: "nv_direction option"
  nv_info_rec :: "nv_direction option"
  nv_provider_info :: "nv_provider option"

text \<open>The fields of \<open>oss_audioinfo\<close> the code reads.\<close>

record oss_audioinfo =
  ai_card_number :: int
  ai_caps :: "32 word"
  ai_min_rate :: int
  ai_max_rate :: int
  ai_min_channels :: int
  ai_max_channels :: int
  ai_nrates :: u32
  ai_rates :: "u32 list"

text \<open>A transient DSP descriptor: the answers to GETFMTS, to ENGINEINFO on the descriptor itself, to
  SETCHANNELS with 1 and with the kernel's maximum, and to SPEED with 8000 and with 192000.\<close>

record probe_fd =
  pr_formats :: "int option"
  pr_engine_info :: "oss_audioinfo option"
  pr_min_channels :: "int option"
  pr_max_channels :: "int option"
  pr_low_rate :: "int option"
  pr_high_rate :: "int option"

abbreviation (input) PCM_CAP_INPUT :: "32 word" where "PCM_CAP_INPUT \<equiv> 0x00010000"
abbreviation (input) PCM_CAP_OUTPUT :: "32 word" where "PCM_CAP_OUTPUT \<equiv> 0x00020000"
abbreviation (input) PCM_CAP_VIRTUAL :: "32 word" where "PCM_CAP_VIRTUAL \<equiv> 0x00040000"

definition nv_number :: "u64 option \<Rightarrow> u64" where
  "nv_number v = (case v of Some n \<Rightarrow> n | None \<Rightarrow> 0)"

definition nv_flag :: "bool option \<Rightarrow> bool" where
  "nv_flag v = (v = Some True)"

section \<open>Native device information\<close>

record sndstat_info =
  nf_formats :: u32
  nf_min_rate :: u32
  nf_max_rate :: u32
  nf_min_chn :: u32
  nf_max_chn :: u32
  nf_exclusive :: "bool option"
  nf_vchan_rate :: u32
  nf_bitperfect :: bool

definition exclusive_of :: "bool option \<Rightarrow> u64 option \<Rightarrow> bool option" where
  "exclusive_of flag number =
     (case flag of
        Some enabled \<Rightarrow> Some (\<not> enabled)
      | None \<Rightarrow> (case number of Some n \<Rightarrow> if n > 0 then Some False else None | None \<Rightarrow> None))"

definition info_of_device :: "bool \<Rightarrow> nv_device \<Rightarrow> nv_direction \<Rightarrow> sndstat_info" where
  "info_of_device play dev info =
     (let num = (\<lambda>v. as_u32 (nv_number v));
          (exclusive, vchan_rate, bitperfect) =
            (case nv_provider_info dev of
               None \<Rightarrow> (None, 0, False)
             | Some p \<Rightarrow>
                 (exclusive_of (if play then np_pvchan_flag p else np_rvchan_flag p)
                    (if play then np_pvchan p else np_rvchan p),
                  num (if play then np_pvchanrate p else np_rvchanrate p), nv_flag (np_bitperfect p)))
      in \<lparr>nf_formats = num (nd_formats info), nf_min_rate = num (nd_min_rate info),
          nf_max_rate = num (nd_max_rate info), nf_min_chn = num (nd_min_chn info),
          nf_max_chn = num (nd_max_chn info), nf_exclusive = exclusive, nf_vchan_rate = vchan_rate,
          nf_bitperfect = bitperfect\<rparr>)"

text \<open>The first kernel device of that name decides, even where it lacks the direction.\<close>

fun find_dsp_info :: "string \<Rightarrow> bool \<Rightarrow> nv_device list \<Rightarrow> sndstat_info option" where
  "find_dsp_info devnode play [] = None"
| "find_dsp_info devnode play (dev # devs) =
     (if nv_flag (nv_from_user dev) \<or> nv_devnode dev \<noteq> Some devnode then find_dsp_info devnode play devs
      else map_option (info_of_device play dev) (if play then nv_info_play dev else nv_info_rec dev))"

definition sndstat_dsp_info :: "nv_device list option \<Rightarrow> string \<Rightarrow> bool \<Rightarrow> sndstat_info option" where
  "sndstat_dsp_info snapshot devnode play =
     (case snapshot of None \<Rightarrow> None | Some devs \<Rightarrow> find_dsp_info devnode play devs)"

text \<open>Unit numbers with the directions that have channels, user-registered devices left out.\<close>

fun pcm_devices :: "nv_device list \<Rightarrow> (u32 \<times> bool \<times> bool) list" where
  "pcm_devices [] = []"
| "pcm_devices (dev # devs) =
     (if nv_flag (nv_from_user dev) then pcm_devices devs
      else case (case nv_nameunit dev of None \<Rightarrow> None
                 | Some nu \<Rightarrow> (case strip_prefix ''pcm'' nu of None \<Rightarrow> None | Some u \<Rightarrow> parse_u32 u)) of
             None \<Rightarrow> pcm_devices devs
           | Some unit \<Rightarrow> (unit, nv_number (nv_pchan dev) > 0, nv_number (nv_rchan dev) > 0) # pcm_devices devs)"

definition sndstat_pcm_devices :: "nv_device list option \<Rightarrow> (u32 \<times> bool \<times> bool) list option" where
  "sndstat_pcm_devices snapshot = map_option pcm_devices snapshot"

section \<open>Capabilities\<close>

definition caps_from_sndstat :: "u32 \<Rightarrow> sndstat_info \<Rightarrow> u32 list \<Rightarrow> stream_caps" where
  "caps_from_sndstat rate_round nv rates =
     \<lparr>caps_configurations =
        [\<lparr>cfg_formats = formats_from_native_mask (word_of_nat (nf_formats nv)) (nf_bitperfect nv),
          cfg_channels = channel_layouts (max (nf_min_chn nv) 1) (max (max (nf_max_chn nv) (nf_min_chn nv)) 1),
          cfg_rates = (if rates = []
                       then RateRange (max (nf_min_rate nv) 1) (max (max (nf_max_rate nv) (nf_min_rate nv)) 1)
                       else DiscreteRates rates),
          cfg_preferred_rate = None, cfg_rate_tolerance = rate_round,
          cfg_conversion = (if nf_bitperfect nv then ConvNone else ConvKernel),
          cfg_flags = \<lparr>cf_layout_reorder = \<not> nf_bitperfect nv, cf_opaque_layout = True\<rparr>\<rparr>],
      caps_preferred = 0\<rparr>"

text \<open>The number of the unit whose mixer descriptor answers for the device.\<close>

definition mixer_control_unit :: "string \<Rightarrow> u32 option" where
  "mixer_control_unit path =
     (case strip_prefix ''dsp'' (trim_start_matches ''/dev/'' path) of None \<Rightarrow> None | Some u \<Rightarrow> parse_u32 u)"

definition collect_native_rates :: "u32 \<Rightarrow> bool \<Rightarrow> oss_audioinfo list \<Rightarrow> u32 list" where
  "collect_native_rates unit play infos =
     (let direction = (if play then PCM_CAP_OUTPUT else PCM_CAP_INPUT);
          relevant = filter (\<lambda>ai. ai_card_number ai = as_c_int unit \<and> ai_caps ai AND direction \<noteq> 0
                                \<and> ai_caps ai AND PCM_CAP_VIRTUAL = 0) infos;
          rates = concat (map (\<lambda>ai. take (min (ai_nrates ai) 20) (ai_rates ai)) relevant)
      in remdups_adj (sort (filter (\<lambda>r. r > 0) rates)))"

text \<open>\<open>engines\<close> are the answers of the mixer descriptor up to the first failure; None if it does not
  open.\<close>

definition native_rates :: "oss_audioinfo list option \<Rightarrow> string \<Rightarrow> bool \<Rightarrow> u32 list" where
  "native_rates engines path play =
     (case mixer_control_unit path of
        None \<Rightarrow> []
      | Some unit \<Rightarrow> (case engines of None \<Rightarrow> [] | Some infos \<Rightarrow> collect_native_rates unit play (take 4096 infos)))"

definition exclusive_rate_fallback :: "sndstat_info \<Rightarrow> u32 list \<Rightarrow> u32 list" where
  "exclusive_rate_fallback nv rates =
     (if rates = []
      then (let lo = max (nf_min_rate nv) 1; hi = max (max (nf_max_rate nv) (nf_min_rate nv)) 1
            in if hi \<noteq> lo then [lo, hi] else [lo])
      else rates)"

definition pick :: "int option \<Rightarrow> int \<Rightarrow> int" where
  "pick probed ai_val = (case probed of Some v \<Rightarrow> if v \<ge> 1 then v else ai_val | None \<Rightarrow> ai_val)"

definition probed_caps :: "u32 \<Rightarrow> sndstat_info option \<Rightarrow> probe_fd \<Rightarrow> stream_caps option" where
  "probed_caps rate_round native fd =
     (let (ai_min_ch, ai_max_ch, ai_min_rt, ai_max_rt, caps) =
            (case pr_engine_info fd of
               None \<Rightarrow> (0, 0, 0, 0, 0)
             | Some ai \<Rightarrow> (ai_min_channels ai, ai_max_channels ai, ai_min_rate ai, ai_max_rate ai, ai_caps ai));
          direct = (caps \<noteq> 0 \<and> caps AND PCM_CAP_VIRTUAL = 0);
          min_channels = pick (pr_min_channels fd) ai_min_ch;
          probed = pick (pr_max_channels fd) ai_max_ch;
          max_channels = (if direct then max probed ai_max_ch else probed);
          min_rate = pick (pr_low_rate fd) ai_min_rt;
          max_rate = pick (pr_high_rate fd) ai_max_rt
      in case pr_formats fd of
           None \<Rightarrow> None
         | Some formats \<Rightarrow>
             if min_channels < 1 \<or> max_channels < min_channels \<or> min_rate < 1 \<or> max_rate < min_rate then None
             else Some
               \<lparr>caps_configurations =
                  [\<lparr>cfg_formats = formats_from_native_mask (word_of_int formats) False,
                    cfg_channels = channel_layouts (nat min_channels) (nat max_channels),
                    cfg_rates = RateRange (nat min_rate) (nat max_rate),
                    cfg_preferred_rate =
                      (case native of
                         None \<Rightarrow> None
                       | Some nv \<Rightarrow> let r = nf_vchan_rate nv
                                   in if r \<noteq> 0 \<and> nat min_rate \<le> r \<and> r \<le> nat max_rate then Some r else None),
                    cfg_rate_tolerance = rate_round, cfg_conversion = ConvKernel,
                    cfg_flags = \<lparr>cf_layout_reorder = True, cf_opaque_layout = True\<rparr>\<rparr>],
                caps_preferred = 0\<rparr>)"

text \<open>\<open>open_dsp\<close> is the transient descriptor, None if the open fails.\<close>

definition probe_caps ::
    "u32 \<Rightarrow> nv_device list option \<Rightarrow> oss_audioinfo list option \<Rightarrow> probe_fd option \<Rightarrow> string \<Rightarrow> bool \<Rightarrow> stream_caps option" where
  "probe_caps rate_round snapshot engines open_dsp path play =
     (let native = sndstat_dsp_info snapshot (trim_start_matches ''/dev/'' path) play;
          probe = (if CHR 0x00 \<in> set path then None
                   else case open_dsp of
                          None \<Rightarrow> map_option (\<lambda>nv. caps_from_sndstat rate_round nv []) native
                        | Some fd \<Rightarrow> probed_caps rate_round native fd)
      in case native of
           None \<Rightarrow> probe
         | Some nv \<Rightarrow>
             if nf_bitperfect nv \<or> nf_exclusive nv = Some True
             then Some (caps_from_sndstat rate_round nv (exclusive_rate_fallback nv (native_rates engines path play)))
             else probe)"

section \<open>The delivery quantum\<close>

definition channel_quantum :: "bool \<Rightarrow> nv_channel \<Rightarrow> delivery_quantum option" where
  "channel_quantum play chan =
     (let caps = word_of_nat (nv_number (nc_caps chan)) :: 64 word;
          blksz = nv_number (nc_hwbuf_blksz chan);
          rate = nv_number (nc_hwbuf_rate chan);
          stride = afmt_frame_bytes (word_of_nat (as_u32 (nv_number (nc_hwbuf_format chan))))
      in if caps AND 0x40000 \<noteq> 0 \<or> caps AND (if play then 0x20000 else 0x10000) = 0 then None
         else if blksz > 0 \<and> rate > 0 \<and> stride > 0
         then Some \<lparr>dq_frames = min (blksz div stride) u32_max, dq_rate = min rate u32_max, dq_quality = QEstimated\<rparr>
         else None)"

definition largest_quantum :: "bool \<Rightarrow> nv_channel list \<Rightarrow> delivery_quantum" where
  "largest_quantum play chans =
     fold (\<lambda>chan quantum. case channel_quantum play chan of
             Some candidate \<Rightarrow> if duration_ns candidate > duration_ns quantum then candidate else quantum
           | None \<Rightarrow> quantum) chans dq_unavailable"

fun find_delivery_quantum :: "string \<Rightarrow> bool \<Rightarrow> nv_device list \<Rightarrow> delivery_quantum" where
  "find_delivery_quantum devnode play [] = dq_unavailable"
| "find_delivery_quantum devnode play (dev # devs) =
     (if nv_flag (nv_from_user dev) \<or> nv_devnode dev \<noteq> Some devnode then find_delivery_quantum devnode play devs
      else case nv_provider_info dev of
             None \<Rightarrow> dq_unavailable
           | Some p \<Rightarrow> largest_quantum play (np_channel_info p))"

definition read_delivery_quantum :: "nv_device list option \<Rightarrow> string \<Rightarrow> bool \<Rightarrow> delivery_quantum" where
  "read_delivery_quantum snapshot devnode play =
     (case snapshot of
        None \<Rightarrow> dq_unavailable
      | Some devs \<Rightarrow> find_delivery_quantum (trim_start_matches ''/dev/'' devnode) play devs)"

section \<open>Facts about the capabilities\<close>

lemma channel_counts_between:
  assumes "lo \<le> hi"
  shows "channel_counts lo hi \<noteq> [] \<and> (\<forall>c \<in> set (channel_counts lo hi). lo \<le> c \<and> c \<le> hi)"
  using assms by (auto simp: channel_counts_def Let_def)

lemma channel_layouts_usable:
  assumes "1 \<le> lo" "lo \<le> hi" "hi \<le> 64"
  shows "\<exists>ls. channel_layouts lo hi = DiscreteLayouts ls \<and> ls \<noteq> [] \<and> (\<forall>l \<in> set ls. layout_usable l)"
proof -
  have "layout_usable \<lparr>ly_channels = c, ly_positions = channel_positions c\<rparr>" if "c \<in> set (channel_counts lo hi)" for c
  proof -
    have "lo \<le> c" "c \<le> hi" using channel_counts_between [OF assms(2)] that by auto
    then show ?thesis using assms advertised_positions by (auto simp: layout_usable_def split: option.split)
  qed
  then show ?thesis using channel_counts_between [OF assms(2)] by (auto simp: channel_layouts_def)
qed

lemma all_formats_nonempty: "all_formats \<noteq> []"
  by (simp add: all_formats_def FORMAT_MAP_def)

lemma mask_formats: "formats_from_native_mask m convertless \<noteq> [] \<or> convertless"
  using all_formats_nonempty by (simp add: formats_from_native_mask_def Let_def)

text \<open>The bounds of the C integers and of the kernel's channel counts.\<close>

definition widths_ok :: "nv_device list option \<Rightarrow> probe_fd option \<Rightarrow> bool" where
  "widths_ok snapshot open_dsp \<longleftrightarrow>
     (\<forall>devs. snapshot = Some devs \<longrightarrow> (\<forall>dev \<in> set devs. \<forall>info. nv_info_play dev = Some info \<or> nv_info_rec dev = Some info \<longrightarrow>
        as_u32 (nv_number (nd_min_chn info)) \<le> 64 \<and> as_u32 (nv_number (nd_max_chn info)) \<le> 64))
   \<and> (\<forall>fd. open_dsp = Some fd \<longrightarrow>
        (\<forall>v. pr_max_channels fd = Some v \<longrightarrow> v \<le> 64) \<and> (\<forall>v. pr_high_rate fd = Some v \<longrightarrow> v < 2147483648)
      \<and> (\<forall>ai. pr_engine_info fd = Some ai \<longrightarrow> ai_max_channels ai \<le> 64 \<and> ai_max_rate ai < 2147483648))"

lemma found_info:
  assumes "find_dsp_info devnode play devs = Some nv"
  shows "\<exists>dev \<in> set devs. \<exists>info. (nv_info_play dev = Some info \<or> nv_info_rec dev = Some info) \<and> nv = info_of_device play dev info"
  using assms by (induction devs) (auto split: if_splits)

lemma info_numbers:
  "nf_min_chn (info_of_device play dev info) = as_u32 (nv_number (nd_min_chn info))"
  "nf_max_chn (info_of_device play dev info) = as_u32 (nv_number (nd_max_chn info))"
  "nf_min_rate (info_of_device play dev info) \<le> u32_max" "nf_max_rate (info_of_device play dev info) \<le> u32_max"
proof -
  have u: "n mod 4294967296 \<le> 4294967295" for n :: nat
    using mod_less_divisor [of 4294967296 n] by linarith
  show "nf_min_chn (info_of_device play dev info) = as_u32 (nv_number (nd_min_chn info))"
    "nf_max_chn (info_of_device play dev info) = as_u32 (nv_number (nd_max_chn info))"
    "nf_min_rate (info_of_device play dev info) \<le> u32_max" "nf_max_rate (info_of_device play dev info) \<le> u32_max"
    by (simp_all add: info_of_device_def Let_def as_u32_def u split: option.split)
qed

text \<open>A configuration a client can negotiate with, or one of a convertless device without a usable native
  format.\<close>

definition advertises :: "stream_caps \<Rightarrow> bool" where
  "advertises caps \<longleftrightarrow> (\<exists>c. caps_configurations caps = [c] \<and> configuration_usable c
     \<and> (cfg_formats c = [] \<longrightarrow> cfg_conversion c = ConvNone))"

lemma sndstat_caps_advertise:
  assumes "nf_min_chn nv \<le> 64" "nf_max_chn nv \<le> 64" "nf_min_rate nv \<le> u32_max" "nf_max_rate nv \<le> u32_max"
  shows "advertises (caps_from_sndstat tol nv rates)"
proof -
  have ch: "\<exists>ls. channel_layouts (max (nf_min_chn nv) 1) (max (max (nf_max_chn nv) (nf_min_chn nv)) 1) = DiscreteLayouts ls
      \<and> ls \<noteq> [] \<and> (\<forall>l \<in> set ls. layout_usable l)"
    by (rule channel_layouts_usable) (use assms in auto)
  have rt: "rates_usable (if rates = [] then RateRange (max (nf_min_rate nv) 1) (max (max (nf_max_rate nv) (nf_min_rate nv)) 1)
      else DiscreteRates rates)"
    using assms by auto
  show ?thesis using ch rt mask_formats [of "word_of_nat (nf_formats nv)" "nf_bitperfect nv"]
    by (auto simp: advertises_def caps_from_sndstat_def configuration_usable_def)
qed

lemma probed_caps_advertise:
  assumes "probed_caps tol native fd = Some caps" "widths_ok None (Some fd)"
  shows "advertises caps"
proof -
  obtain mn mx rl rh e where e: "(case pr_engine_info fd of None \<Rightarrow> (0, 0, 0, 0, 0)
      | Some ai \<Rightarrow> (ai_min_channels ai, ai_max_channels ai, ai_min_rate ai, ai_max_rate ai, ai_caps ai)) = (mn, mx, rl, rh, e)"
    by (rule prod_cases5)
  have b: "mx \<le> 64" "rh < 2147483648"
    using e assms(2) by (auto simp: widths_ok_def split: option.splits)
  define c1 where "c1 = pick (pr_min_channels fd) mn"
  define c2 where "c2 = (if e \<noteq> 0 \<and> e AND PCM_CAP_VIRTUAL = 0 then max (pick (pr_max_channels fd) mx) mx else pick (pr_max_channels fd) mx)"
  define r1 where "r1 = pick (pr_low_rate fd) rl"
  define r2 where "r2 = pick (pr_high_rate fd) rh"
  have c2: "c2 \<le> 64" and r2: "r2 < 2147483648"
    using b assms(2) by (auto simp: c2_def r2_def pick_def widths_ok_def split: option.splits)
  obtain formats pref where ok: "\<not> (c1 < 1 \<or> c2 < c1 \<or> r1 < 1 \<or> r2 < r1)" and caps: "caps = \<lparr>caps_configurations =
                  [\<lparr>cfg_formats = formats_from_native_mask formats False, cfg_channels = channel_layouts (nat c1) (nat c2),
                    cfg_rates = RateRange (nat r1) (nat r2), cfg_preferred_rate = pref,
                    cfg_rate_tolerance = tol, cfg_conversion = ConvKernel,
                    cfg_flags = \<lparr>cf_layout_reorder = True, cf_opaque_layout = True\<rparr>\<rparr>], caps_preferred = 0\<rparr>"
    using assms(1) unfolding probed_caps_def e
    by (auto simp: Let_def c1_def [symmetric] c2_def [symmetric] r1_def [symmetric] r2_def [symmetric] split: option.splits if_splits)
  have "\<exists>ls. channel_layouts (nat c1) (nat c2) = DiscreteLayouts ls \<and> ls \<noteq> [] \<and> (\<forall>l \<in> set ls. layout_usable l)"
    by (rule channel_layouts_usable) (use ok c2 in auto)
  then show ?thesis using ok r2 mask_formats [of formats False]
    by (auto simp: caps advertises_def configuration_usable_def)
qed

lemma exclusive_caps_discrete:
  "\<exists>c. caps_configurations (caps_from_sndstat tol nv (exclusive_rate_fallback nv rates)) = [c]
     \<and> cfg_rates c = DiscreteRates (exclusive_rate_fallback nv rates) \<and> exclusive_rate_fallback nv rates \<noteq> []"
  by (simp add: caps_from_sndstat_def exclusive_rate_fallback_def Let_def)

section \<open>The probe\<close>

text \<open>C28. Whatever sndstat, the mixer descriptor and the transient descriptor answer - within the ranges of
  their types and at most 64 channels - capabilities the probe returns are one configuration with usable
  channel layouts and rates, and with sample formats unless the device is convertless and has none this
  code knows; and an exclusive or bitperfect endpoint never advertises a dense range of rates.\<close>

theorem probed_capabilities_are_usable:
  assumes "probe_caps tol snapshot engines open_dsp path play = Some caps" "widths_ok snapshot open_dsp"
  shows "\<exists>c. caps_configurations caps = [c] \<and> configuration_usable c \<and> (cfg_formats c = [] \<longrightarrow> cfg_conversion c = ConvNone)
    \<and> (\<forall>nv. sndstat_dsp_info snapshot (trim_start_matches ''/dev/'' path) play = Some nv
           \<and> (nf_bitperfect nv \<or> nf_exclusive nv = Some True)
         \<longrightarrow> (\<exists>rates. rates \<noteq> [] \<and> cfg_rates c = DiscreteRates rates))"
proof -
  define native where "native = sndstat_dsp_info snapshot (trim_start_matches ''/dev/'' path) play"
  have info: "advertises (caps_from_sndstat tol nv rates)" if n: "native = Some nv" for nv rates
  proof -
    obtain devs where d: "snapshot = Some devs" "find_dsp_info (trim_start_matches ''/dev/'' path) play devs = Some nv"
      using n by (auto simp: native_def sndstat_dsp_info_def split: option.splits)
    obtain dev info where "dev \<in> set devs" "nv_info_play dev = Some info \<or> nv_info_rec dev = Some info"
      "nv = info_of_device play dev info" using found_info [OF d(2)] by blast
    then show ?thesis using assms(2) d(1)
      by (intro sndstat_caps_advertise) (auto simp: widths_ok_def info_numbers)
  qed
  have w: "open_dsp = Some fd \<Longrightarrow> widths_ok None (Some fd)" for fd using assms(2) by (simp add: widths_ok_def)
  show ?thesis
  proof (cases "\<exists>nv. native = Some nv \<and> (nf_bitperfect nv \<or> nf_exclusive nv = Some True)")
    case True
    then obtain nv where nv: "native = Some nv" "nf_bitperfect nv \<or> nf_exclusive nv = Some True" by blast
    then have c: "caps = caps_from_sndstat tol nv (exclusive_rate_fallback nv (native_rates engines path play))"
      using assms(1) by (auto simp: probe_caps_def native_def)
    show ?thesis using info [OF nv(1)] exclusive_caps_discrete unfolding c advertises_def by (metis list.inject)
  next
    case False
    then have "(if CHR 0x00 \<in> set path then None
                   else case open_dsp of
                          None \<Rightarrow> map_option (\<lambda>nv. caps_from_sndstat tol nv []) native
                        | Some fd \<Rightarrow> probed_caps tol native fd) = Some caps"
      using assms(1) unfolding probe_caps_def native_def [symmetric] by (auto simp: Let_def split: option.splits if_splits)
    then have "advertises caps" using info probed_caps_advertise w by (auto split: if_splits option.splits)
    then show ?thesis using False unfolding advertises_def native_def by blast
  qed
qed

theorem probed_capabilities_are_usable_witness:
  "let dev = \<lparr>nv_from_user = None, nv_devnode = Some ''dsp0'', nv_nameunit = Some ''pcm0'', nv_pchan = Some 1, nv_rchan = None,
         nv_info_play = Some \<lparr>nd_formats = Some 0x1000, nd_min_rate = Some 44100, nd_max_rate = Some 96000,
           nd_min_chn = Some 2, nd_max_chn = Some 8\<rparr>, nv_info_rec = None,
         nv_provider_info = Some \<lparr>np_pvchan_flag = Some False, np_rvchan_flag = None, np_pvchan = None, np_rvchan = None,
           np_pvchanrate = None, np_rvchanrate = None, np_bitperfect = Some True, np_channel_info = []\<rparr>\<rparr>;
       caps = the (probe_caps 25 (Some [dev]) None None ''/dev/dsp0'' True)
   in \<exists>c. caps_configurations caps = [c] \<and> configuration_usable c \<and> (cfg_formats c = [] \<longrightarrow> cfg_conversion c = ConvNone)
    \<and> (\<forall>nv. sndstat_dsp_info (Some [dev]) (trim_start_matches ''/dev/'' ''/dev/dsp0'') True = Some nv
           \<and> (nf_bitperfect nv \<or> nf_exclusive nv = Some True)
         \<longrightarrow> (\<exists>rates. rates \<noteq> [] \<and> cfg_rates c = DiscreteRates rates))"
  unfolding Let_def
  by (rule probed_capabilities_are_usable [where open_dsp = None and engines = None and tol = 25])
    (simp_all add: probe_caps_def sndstat_dsp_info_def info_of_device_def nv_flag_def nv_number_def exclusive_of_def as_u32_def
      widths_ok_def trim_start_matches.simps)

end
