(* ===== verification/OssCatalog.thy ===== *)
theory OssCatalog
  imports OssDevices
begin

text \<open>
  The catalog of PCM devices (crates/freebsd-oss/src/freebsd\_oss/devices.rs, \<open>DeviceCatalog\<close>): devices
  are grouped by the driver that owns them, every group is one object the monitor announces, and a rescan
  retracts and announces what has changed. A \<open>BTreeMap\<close> is the list of its entries in key order. What
  sndstat and the sysctls answer are arguments; the regular expression that shortens a USB description
  is the argument \<open>shorten\<close>. The texts of the diagnostics are left out.
\<close>

section \<open>Groups\<close>

type_synonym device_groups = "(string \<times> u32 list) list"

record sysctl =
  sy_string :: "string \<Rightarrow> string option"
  sy_u32 :: "string \<Rightarrow> u32 option"

text \<open>The order of strings: byte by byte.\<close>

fun str_less :: "string \<Rightarrow> string \<Rightarrow> bool" where
  "str_less xs [] = False"
| "str_less [] (y # ys) = True"
| "str_less (x # xs) (y # ys) = (if x = y then str_less xs ys else (of_char x :: nat) < of_char y)"

lemma find_in: "List.find P xs = Some x \<Longrightarrow> x \<in> set xs \<and> P x"
  by (auto simp: find_Some_iff)

text \<open>\<open>entry(parent).or_default()\<close>, and the push.\<close>

fun group_push :: "string \<Rightarrow> u32 \<Rightarrow> device_groups \<Rightarrow> device_groups" where
  "group_push parent index [] = [(parent, [index])]"
| "group_push parent index ((key, indexes) # groups) =
     (if key = parent then (key, indexes @ [index]) # groups
      else if str_less parent key then (parent, [index]) # (key, indexes) # groups
      else (key, indexes) # group_push parent index groups)"

definition pcm_sysctl :: "u32 \<Rightarrow> string \<Rightarrow> string" where
  "pcm_sysctl index leaf = ''dev.pcm.'' @ show_nat index @ leaf"

definition group_pcm_devices_by_parent :: "sysctl \<Rightarrow> u32 list \<Rightarrow> device_groups" where
  "group_pcm_devices_by_parent sysctl indexes =
     fold (\<lambda>index groups. case sy_string sysctl (pcm_sysctl index ''.%parent'') of
             Some parent \<Rightarrow> group_push parent index groups | None \<Rightarrow> groups) indexes []"

definition read_sndstat :: "nv_device list option \<Rightarrow> errno + u32 list" where
  "read_sndstat snapshot = (case sndstat_pcm_devices snapshot of Some devs \<Rightarrow> Inr (map fst devs) | None \<Rightarrow> Inl ENXIO)"

definition read_device_groups :: "nv_device list option \<Rightarrow> sysctl \<Rightarrow> errno + device_groups" where
  "read_device_groups snapshot sysctl =
     (case read_sndstat snapshot of Inl e \<Rightarrow> Inl e | Inr indexes \<Rightarrow> Inr (group_pcm_devices_by_parent sysctl indexes))"

section \<open>Snapshots\<close>

record group_snapshot =
  gs_key :: string
  gs_object_id :: u32
  gs_properties :: "(string \<times> string) list"

fun join :: "string \<Rightarrow> string list \<Rightarrow> string" where
  "join sep [] = []"
| "join sep [s] = s"
| "join sep (s # t # ts) = s @ sep @ join sep (t # ts)"

definition snapshot_of_group :: "string \<Rightarrow> u32 list \<Rightarrow> group_snapshot option" where
  "snapshot_of_group key indexes =
     (case indexes of
        [] \<Rightarrow> None
      | object_id # _ \<Rightarrow>
          Some \<lparr>gs_key = DEVICE_API @ '':'' @ key, gs_object_id = object_id,
                gs_properties = [(PARENT_DEVICE, key), (DEVICE_INDEXES, join '','' (map show_nat indexes))]\<rparr>)"

definition snapshots :: "device_groups \<Rightarrow> group_snapshot list" where
  "snapshots groups = List.map_filter (\<lambda>(key, indexes). snapshot_of_group key indexes) groups"

section \<open>Rescanning\<close>

datatype catalog_change = CatAdded group_snapshot | CatRemoved u32

record catalog_rescan =
  cr_changes :: "catalog_change list"
  cr_error :: "errno option"

definition subject_key :: "string \<Rightarrow> device_groups \<Rightarrow> string option" where
  "subject_key subject groups =
     (case (case strip_prefix ''pcm'' subject of Some u \<Rightarrow> parse_u32 u | None \<Rightarrow> None) of
        Some unit \<Rightarrow> map_option fst (List.find (\<lambda>(_, indexes). unit \<in> set indexes) groups)
      | None \<Rightarrow> if map_of groups subject \<noteq> None then Some subject else None)"

definition remove_key :: "string \<Rightarrow> device_groups \<Rightarrow> device_groups" where
  "remove_key key groups = filter (\<lambda>(k, _). k \<noteq> key) groups"

definition detach_group :: "string \<Rightarrow> catalog_change list \<times> device_groups \<Rightarrow> catalog_change list \<times> device_groups" where
  "detach_group subject cg =
     (let (changes, groups) = cg
      in case subject_key subject groups of
           None \<Rightarrow> (changes, groups)
         | Some key \<Rightarrow>
             (case map_of groups key of
                None \<Rightarrow> (changes, groups)
              | Some indexes \<Rightarrow>
                  (case indexes of [] \<Rightarrow> changes | object_id # _ \<Rightarrow> changes @ [CatRemoved object_id], remove_key key groups)))"

definition removed_changes :: "device_groups \<Rightarrow> device_groups \<Rightarrow> catalog_change list" where
  "removed_changes old_groups groups =
     List.map_filter (\<lambda>(key, indexes).
       if map_of groups key \<noteq> Some indexes
       then (case indexes of [] \<Rightarrow> None | object_id # _ \<Rightarrow> Some (CatRemoved object_id)) else None) old_groups"

definition added_changes :: "device_groups \<Rightarrow> device_groups \<Rightarrow> catalog_change list" where
  "added_changes old_groups groups =
     List.map_filter (\<lambda>(key, indexes).
       if map_of old_groups key \<noteq> Some indexes then map_option CatAdded (snapshot_of_group key indexes) else None) groups"

definition rescan_with :: "errno + device_groups \<Rightarrow> string list \<Rightarrow> device_groups \<Rightarrow> catalog_rescan \<times> device_groups" where
  "rescan_with read detached groups =
     (let (changes, old_groups) = fold detach_group detached ([], groups)
      in case read of
           Inl error \<Rightarrow> (\<lparr>cr_changes = changes, cr_error = Some error\<rparr>, old_groups)
         | Inr new_groups \<Rightarrow>
             (\<lparr>cr_changes = changes @ removed_changes old_groups new_groups @ added_changes old_groups new_groups,
               cr_error = None\<rparr>, new_groups))"

definition rescan :: "nv_device list option \<Rightarrow> sysctl \<Rightarrow> string list \<Rightarrow> device_groups \<Rightarrow> catalog_rescan \<times> device_groups" where
  "rescan snapshot sysctl detached groups = rescan_with (read_device_groups snapshot sysctl) detached groups"

definition catalog_scan :: "nv_device list option \<Rightarrow> sysctl \<Rightarrow> errno + device_groups" where
  "catalog_scan snapshot sysctl = read_device_groups snapshot sysctl"

section \<open>The devices of a group\<close>

record pcm_device =
  pd_index :: u32
  pd_desc :: string
  pd_location :: string
  pd_play :: bool
  pd_rec :: bool

definition read_pcm_device_description :: "(string \<Rightarrow> string option) \<Rightarrow> sysctl \<Rightarrow> u32 \<Rightarrow> string option" where
  "read_pcm_device_description shorten sysctl index =
     (case sy_string sysctl (pcm_sysctl index ''.%parent'') of
        None \<Rightarrow> None
      | Some parent \<Rightarrow>
          (case (case strip_prefix ''uaudio'' parent of None \<Rightarrow> None
                 | Some unit_str \<Rightarrow> (case parse_u32 unit_str of None \<Rightarrow> None
                     | Some unit \<Rightarrow> sy_string sysctl (''dev.uaudio.'' @ show_nat unit @ ''.%desc''))) of
             Some desc \<Rightarrow> (case shorten desc of Some p \<Rightarrow> Some p | None \<Rightarrow> Some desc)
           | None \<Rightarrow> sy_string sysctl (pcm_sysctl index ''.%desc'')))"

definition device_directions :: "(u32 \<times> bool \<times> bool) list option \<Rightarrow> sysctl \<Rightarrow> u32 \<Rightarrow> bool \<times> bool" where
  "device_directions chans sysctl index =
     (case (case chans of None \<Rightarrow> None | Some c \<Rightarrow> List.find (\<lambda>(unit, _). unit = index) c) of
        Some (_, dirs) \<Rightarrow> dirs
      | None \<Rightarrow>
          (case sy_u32 sysctl (pcm_sysctl index ''.mode'') of
             Some mode \<Rightarrow> (mode AND 2 \<noteq> 0, mode AND 4 \<noteq> 0)
           | None \<Rightarrow> (False, False)))"

definition list_audio_devices ::
    "(string \<Rightarrow> string option) \<Rightarrow> nv_device list option \<Rightarrow> sysctl \<Rightarrow> u32 list \<Rightarrow> pcm_device list" where
  "list_audio_devices shorten snapshot sysctl indexes =
     List.map_filter (\<lambda>index.
       case read_pcm_device_description shorten sysctl index of
         None \<Rightarrow> None
       | Some desc \<Rightarrow>
           (case sy_string sysctl (pcm_sysctl index ''.%location'') of
              None \<Rightarrow> None
            | Some location \<Rightarrow>
                (let (play, rec) = device_directions (sndstat_pcm_devices snapshot) sysctl index
                 in Some \<lparr>pd_index = index, pd_desc = desc, pd_location = location, pd_play = play, pd_rec = rec\<rparr>))) indexes"

fun common_prefix :: "string \<Rightarrow> string \<Rightarrow> string" where
  "common_prefix (a # as) (b # bs) = (if a = b then a # common_prefix as bs else [])"
| "common_prefix _ _ = []"

definition trim_dangling :: "string \<Rightarrow> string" where
  "trim_dangling s = rev (dropWhile (\<lambda>c. c = CHR '' '' \<or> c = CHR ''('') (rev s))"

definition common_description :: "pcm_device list \<Rightarrow> string" where
  "common_description devices =
     (case devices of
        [] \<Rightarrow> []
      | d # ds \<Rightarrow> trim_dangling (fold (\<lambda>device description. common_prefix description (pd_desc device)) ds (pd_desc d)))"

datatype stream_direction = Playback | Capture

record endpoint_snapshot =
  es_key :: string
  es_object_id :: u32
  es_direction :: stream_direction
  es_name :: string
  es_description :: string
  es_locator :: "string \<times> string"

definition endpoint_of :: "string \<Rightarrow> pcm_device \<Rightarrow> stream_direction \<Rightarrow> endpoint_snapshot" where
  "endpoint_of description device direction =
     (let name = ''pcm'' @ show_nat (pd_index device) @ ''.'' @ (if direction = Playback then ''play'' else ''rec'')
      in \<lparr>es_key = DEVICE_API @ '':'' @ name,
          es_object_id = pd_index device * 2 + (if direction = Capture then 1 else 0),
          es_direction = direction, es_name = name, es_description = description,
          es_locator = (DEVICE_API, stream_path (pd_index device))\<rparr>)"

definition device_endpoints :: "string \<Rightarrow> pcm_device \<Rightarrow> endpoint_snapshot list" where
  "device_endpoints description device =
     (let text = (if pd_desc device = description \<and> pd_location device \<noteq> []
                  then pd_desc device @ '' @ '' @ pd_location device else pd_desc device)
      in (if pd_play device then [endpoint_of text device Playback] else [])
       @ (if pd_rec device then [endpoint_of text device Capture] else []))"

record device_snapshot =
  dv_description :: string
  dv_endpoints :: "endpoint_snapshot list"

definition snapshot_of_devices :: "pcm_device list \<Rightarrow> device_snapshot option" where
  "snapshot_of_devices devices =
     (if devices = [] then None
      else let description = common_description devices
           in Some \<lparr>dv_description = description, dv_endpoints = concat (map (device_endpoints description) devices)\<rparr>)"

end
