(* ===== verification/CatalogView.thy ===== *)
theory CatalogView
  imports OssCatalog
begin

text \<open>
  What the changes of a rescan mean to somebody who follows them: a view of the announced groups, replaying
  changes on it, and the proof that the changes of any sequence of rescans carry the view of the first catalog
  to the view of the last. The second half shows that the groups a scan builds are in order and that what is
  announced of a group is what the device object reads back.
\<close>

section \<open>What a listener sees\<close>

text \<open>
  The objects a listener knows, by id. A change is accepted when a retracted id is known and an announced one
  is not; a listener that is handed the changes of a rescan must accept them all.
\<close>

type_synonym catalog_view = "u32 \<rightharpoonup> group_snapshot"

definition view_of :: "device_groups \<Rightarrow> catalog_view" where
  "view_of groups = map_of (map (\<lambda>s. (gs_object_id s, s)) (snapshots groups))"

definition apply_catalog_change :: "catalog_change \<Rightarrow> catalog_view \<Rightarrow> catalog_view option" where
  "apply_catalog_change change m =
     (case change of
        CatAdded s \<Rightarrow> if m (gs_object_id s) = None then Some (m(gs_object_id s \<mapsto> s)) else None
      | CatRemoved i \<Rightarrow> if m i = None then None else Some (m(i := None)))"

fun replay :: "catalog_change list \<Rightarrow> catalog_view \<Rightarrow> catalog_view option" where
  "replay [] m = Some m"
| "replay (c # cs) m = (case apply_catalog_change c m of Some m' \<Rightarrow> replay cs m' | None \<Rightarrow> None)"

lemma replay_append: "replay (cs @ ds) m = (case replay cs m of Some m' \<Rightarrow> replay ds m' | None \<Rightarrow> None)"
  by (induction cs arbitrary: m) (auto split: option.splits)

lemma replay_removals:
  assumes "distinct ids" "\<forall>i\<in>set ids. m i \<noteq> None"
  shows "replay (map CatRemoved ids) m = Some (m |` (- set ids))"
  using assms
proof (induction ids arbitrary: m)
  case (Cons i ids)
  have "m(i := None) |` (- set ids) = m |` (- set (i # ids))" by (auto simp: restrict_map_def fun_eq_iff)
  moreover have "replay (map CatRemoved ids) (m(i := None)) = Some (m(i := None) |` (- set ids))"
    using Cons.prems by (intro Cons.IH) auto
  moreover have "m i \<noteq> None" using Cons.prems by simp
  ultimately show ?case by (simp add: apply_catalog_change_def)
qed (simp add: restrict_map_def)

lemma replay_additions:
  assumes "distinct (map gs_object_id ss)" "\<forall>s\<in>set ss. m (gs_object_id s) = None"
  shows "replay (map CatAdded ss) m = Some (m ++ map_of (map (\<lambda>s. (gs_object_id s, s)) ss))"
  using assms
proof (induction ss arbitrary: m)
  case (Cons s ss)
  let ?l = "map (\<lambda>s. (gs_object_id s, s)) ss"
  have "gs_object_id s \<notin> dom (map_of ?l)" using Cons.prems(1) by (auto simp: dom_map_of_conv_image_fst image_image)
  then have "m(gs_object_id s \<mapsto> s) ++ map_of ?l = m ++ map_of (map (\<lambda>s. (gs_object_id s, s)) (s # ss))"
    by (simp add: map_add_upd_left)
  moreover have "replay (map CatAdded ss) (m(gs_object_id s \<mapsto> s)) = Some (m(gs_object_id s \<mapsto> s) ++ map_of ?l)"
    using Cons.prems by (intro Cons.IH) (auto dest: image_eqI[where f = gs_object_id, OF sym])
  moreover have "m (gs_object_id s) = None" using Cons.prems by simp
  ultimately show ?case unfolding list.map replay.simps apply_catalog_change_def by (simp only: catalog_change.case simp_thms if_True option.case)
qed simp

section \<open>Groups in order\<close>

text \<open>
  Every group has a name of its own and at least one unit, and no unit is in two groups.
\<close>

definition groups_ok :: "device_groups \<Rightarrow> bool" where
  "groups_ok groups \<longleftrightarrow>
     distinct (map fst groups) \<and> (\<forall>g\<in>set groups. snd g \<noteq> []) \<and> distinct (concat (map snd groups))"

lemma snapshot_of_group_Cons:
  "snapshot_of_group key (i # is) = Some \<lparr>gs_key = DEVICE_API @ '':'' @ key, gs_object_id = i,
     gs_properties = [(PARENT_DEVICE, key), (DEVICE_INDEXES, join '','' (map show_nat (i # is)))]\<rparr>"
  by (simp add: snapshot_of_group_def)

definition first_unit :: "string \<times> u32 list \<Rightarrow> u32" where
  "first_unit g = hd (snd g)"

definition announced :: "string \<times> u32 list \<Rightarrow> group_snapshot" where
  "announced g = the (snapshot_of_group (fst g) (snd g))"

lemma announced_id: "snd g \<noteq> [] \<Longrightarrow> gs_object_id (announced g) = first_unit g"
  by (cases "snd g") (auto simp: announced_def first_unit_def snapshot_of_group_def)

lemma snapshot_of_announced: "snd g \<noteq> [] \<Longrightarrow> snapshot_of_group (fst g) (snd g) = Some (announced g)"
  by (cases "snd g") (auto simp: announced_def snapshot_of_group_def)

lemma map_filter_const:
  assumes "\<forall>x\<in>set xs. f x = (if P x then Some (g x) else None)"
  shows "List.map_filter f xs = map g (filter P xs)"
  using assms by (induction xs) (auto simp: List.map_filter_def)

lemma snapshots_announced:
  assumes "\<forall>g\<in>set groups. snd g \<noteq> []"
  shows "snapshots groups = map announced groups"
proof -
  have "List.map_filter (\<lambda>(key, indexes). snapshot_of_group key indexes) groups = map announced (filter (\<lambda>_. True) groups)"
    using assms by (intro map_filter_const) (auto simp: case_prod_unfold snapshot_of_announced)
  then show ?thesis by (simp add: snapshots_def)
qed

lemma distinct_first_units: "groups_ok groups \<Longrightarrow> distinct (map first_unit groups)"
proof (induction groups)
  case (Cons g gs)
  have ne: "\<forall>h\<in>set (g # gs). snd h \<noteq> []" and d: "distinct (concat (map snd (g # gs)))"
    using Cons.prems by (auto simp: groups_ok_def)
  have "first_unit g \<notin> set (map first_unit gs)"
  proof
    assume "first_unit g \<in> set (map first_unit gs)"
    then obtain h where h: "h \<in> set gs" "first_unit h = first_unit g" by auto
    then have "first_unit g \<in> set (snd h)" using ne by (auto simp: first_unit_def) (metis hd_in_set)
    moreover have "first_unit g \<in> set (snd g)" using ne by (auto simp: first_unit_def)
    ultimately show False using d h(1) by auto
  qed
  then show ?case using Cons by (auto simp: groups_ok_def)
qed simp

lemma same_first_unit:
  assumes "groups_ok groups" "g \<in> set groups" "h \<in> set groups" "first_unit g = first_unit h"
  shows "g = h"
  using distinct_first_units[OF assms(1)] assms(2-4) by (auto simp: distinct_map inj_on_def)

lemma view_of_map:
  assumes "\<forall>g\<in>set groups. snd g \<noteq> []"
  shows "view_of groups = map_of (map (\<lambda>g. (first_unit g, announced g)) groups)"
proof -
  have "map (\<lambda>s. (gs_object_id s, s)) (map announced groups) = map (\<lambda>g. (first_unit g, announced g)) groups"
    using assms by (simp add: announced_id)
  then show ?thesis unfolding view_of_def snapshots_announced[OF assms] by (simp only:)
qed

lemma view_of_Some:
  assumes "groups_ok groups"
  shows "view_of groups i = Some s \<longleftrightarrow> (\<exists>g\<in>set groups. first_unit g = i \<and> announced g = s)"
proof -
  have ne: "\<forall>g\<in>set groups. snd g \<noteq> []" using assms by (simp add: groups_ok_def)
  have "distinct (map fst (map (\<lambda>g. (first_unit g, announced g)) groups))"
    using distinct_first_units[OF assms] by (simp add: comp_def)
  from map_of_eq_Some_iff[OF this] show ?thesis by (auto simp: view_of_map[OF ne])
qed

lemma view_of_None:
  "groups_ok groups \<Longrightarrow> view_of groups i = None \<longleftrightarrow> (\<forall>g\<in>set groups. first_unit g \<noteq> i)"
  using view_of_Some by (metis not_None_eq)

lemma groups_ok_filter: "groups_ok groups \<Longrightarrow> groups_ok (filter P groups)"
proof (induction groups)
  case (Cons g gs)
  then show ?case by (auto simp: groups_ok_def)
qed simp

lemma group_of_key:
  assumes "groups_ok groups" "g \<in> set groups"
  shows "map_of groups (fst g) = Some (snd g)"
  using assms by (simp add: groups_ok_def)

section \<open>A rescan moves the view\<close>

lemma removed_changes_eq:
  assumes "groups_ok old" "groups_ok new"
  shows "removed_changes old new = map CatRemoved (map first_unit (filter (\<lambda>g. g \<notin> set new) old))"
proof -
  have "removed_changes old new = map (\<lambda>g. CatRemoved (first_unit g)) (filter (\<lambda>g. g \<notin> set new) old)"
    unfolding removed_changes_def
  proof (rule map_filter_const, rule ballI)
    fix g assume g: "g \<in> set old"
    obtain key i rest where [simp]: "g = (key, i # rest)" using assms(1) g by (cases g; cases "snd g") (auto simp: groups_ok_def)
    have "map_of new key = Some (i # rest) \<longleftrightarrow> g \<in> set new" using assms(2) by (simp add: groups_ok_def)
    then show "(case g of (key, indexes) \<Rightarrow> if map_of new key \<noteq> Some indexes
          then (case indexes of [] \<Rightarrow> None | object_id # _ \<Rightarrow> Some (CatRemoved object_id)) else None)
        = (if g \<notin> set new then Some (CatRemoved (first_unit g)) else None)" by (simp add: first_unit_def)
  qed
  then show ?thesis by (simp add: comp_def)
qed

lemma added_changes_eq:
  assumes "groups_ok old" "groups_ok new"
  shows "added_changes old new = map CatAdded (map announced (filter (\<lambda>g. g \<notin> set old) new))"
proof -
  have "added_changes old new = map (\<lambda>g. CatAdded (announced g)) (filter (\<lambda>g. g \<notin> set old) new)"
    unfolding added_changes_def
  proof (rule map_filter_const, rule ballI)
    fix g assume g: "g \<in> set new"
    then have ne: "snd g \<noteq> []" using assms(2) by (simp add: groups_ok_def)
    have "map_of old (fst g) = Some (snd g) \<longleftrightarrow> g \<in> set old" using assms(1) by (simp add: groups_ok_def)
    then show "(case g of (key, indexes) \<Rightarrow> if map_of old key \<noteq> Some indexes
          then map_option CatAdded (snapshot_of_group key indexes) else None)
        = (if g \<notin> set old then Some (CatAdded (announced g)) else None)"
      by (simp add: case_prod_unfold snapshot_of_announced[OF ne])
  qed
  then show ?thesis by (simp add: comp_def)
qed

text \<open>What survives is what is in both; the rest of the new groups is announced.\<close>

lemma removed_view:
  assumes "groups_ok old" and new: "groups_ok new"
  shows "replay (removed_changes old new) (view_of old) = Some (view_of (filter (\<lambda>g. g \<in> set new) old))"
proof -
  let ?gone = "filter (\<lambda>g. g \<notin> set new) old"
  have sub: "groups_ok ?gone" "groups_ok (filter (\<lambda>g. g \<in> set new) old)" using assms(1) groups_ok_filter by blast+
  have "replay (removed_changes old new) (view_of old) = Some (view_of old |` (- set (map first_unit ?gone)))"
    unfolding removed_changes_eq[OF assms]
    using distinct_first_units[OF sub(1)] by (intro replay_removals) (auto simp: view_of_None[OF assms(1)])
  moreover have "view_of old |` (- set (map first_unit ?gone)) = view_of (filter (\<lambda>g. g \<in> set new) old)"
  proof
    fix i
    show "(view_of old |` (- set (map first_unit ?gone))) i = view_of (filter (\<lambda>g. g \<in> set new) old) i"
    proof (cases "\<exists>g\<in>set old. first_unit g = i")
      case True
      then obtain g where g: "g \<in> set old" "first_unit g = i" by blast
      have v: "view_of old i = Some (announced g)" using g by (auto simp: view_of_Some[OF assms(1)])
      have u: "h = g" if "h \<in> set old" "first_unit h = i" for h using same_first_unit[OF assms(1) that(1) g(1)] that(2) g(2) by simp
      show ?thesis
      proof (cases "g \<in> set new")
        case True
        have "view_of (filter (\<lambda>g. g \<in> set new) old) i = Some (announced g)"
          unfolding view_of_Some[OF sub(2)] using True g by (intro bexI[of _ g]) auto
        moreover have "i \<notin> set (map first_unit ?gone)" using u True by auto
        ultimately show ?thesis using v by (simp add: restrict_map_def)
      next
        case False
        have "view_of (filter (\<lambda>g. g \<in> set new) old) i = None" using False u by (auto simp: view_of_None[OF sub(2)])
        moreover have "i \<in> set (map first_unit ?gone)" using g False by auto
        ultimately show ?thesis by (simp add: restrict_map_def)
      qed
    next
      case False
      then have "view_of old i = None" "view_of (filter (\<lambda>g. g \<in> set new) old) i = None"
        by (auto simp: view_of_None[OF assms(1)] view_of_None[OF sub(2)])
      then show ?thesis by (simp add: restrict_map_def)
    qed
  qed
  ultimately show ?thesis by (simp only:)
qed

lemma added_view:
  assumes "groups_ok old" "groups_ok new"
  shows "replay (added_changes old new) (view_of (filter (\<lambda>g. g \<in> set new) old)) = Some (view_of new)"
proof -
  let ?kept = "filter (\<lambda>g. g \<in> set new) old" and ?fresh = "filter (\<lambda>g. g \<notin> set old) new"
  have ok: "groups_ok ?kept" "groups_ok ?fresh" using assms groups_ok_filter by blast+
  have ne: "\<forall>g\<in>set ?fresh. snd g \<noteq> []" using assms(2) by (simp add: groups_ok_def)
  have ids: "map gs_object_id (map announced ?fresh) = map first_unit ?fresh" using ne by (simp add: announced_id)
  have clash: False if "g \<in> set ?fresh" "h \<in> set ?kept" "first_unit g = first_unit h" for g h
    using that same_first_unit[OF assms(2), of g h] by auto
  have pairs: "map (\<lambda>s. (gs_object_id s, s)) (map announced ?fresh) = map (\<lambda>g. (first_unit g, announced g)) ?fresh"
    using ne by (simp add: announced_id)
  have "replay (added_changes old new) (view_of ?kept)
      = Some (view_of ?kept ++ map_of (map (\<lambda>s. (gs_object_id s, s)) (map announced ?fresh)))"
    unfolding added_changes_eq[OF assms]
  proof (rule replay_additions)
    show "distinct (map gs_object_id (map announced ?fresh))" unfolding ids by (rule distinct_first_units[OF ok(2)])
    show "\<forall>s\<in>set (map announced ?fresh). view_of ?kept (gs_object_id s) = None"
    proof
      fix s assume "s \<in> set (map announced ?fresh)"
      then obtain g where g: "g \<in> set ?fresh" "s = announced g" by auto
      then have "gs_object_id s = first_unit g" using ne announced_id by blast
      then show "view_of ?kept (gs_object_id s) = None" using clash[OF g(1)] by (metis view_of_None[OF ok(1)])
    qed
  qed
  also have "view_of ?kept ++ map_of (map (\<lambda>s. (gs_object_id s, s)) (map announced ?fresh)) = view_of ?kept ++ view_of ?fresh"
    unfolding pairs view_of_map[OF ne] by (rule refl)
  also have "view_of ?kept ++ view_of ?fresh = view_of new"
  proof
    fix i
    show "(view_of ?kept ++ view_of ?fresh) i = view_of new i"
    proof (cases "view_of new i")
      case None
      then have "view_of ?fresh i = None" "view_of ?kept i = None"
        by (auto simp: view_of_None[OF assms(2)] view_of_None[OF ok(1)] view_of_None[OF ok(2)])
      then show ?thesis using None by (simp add: map_add_def)
    next
      case (Some s)
      then obtain g where g: "g \<in> set new" "first_unit g = i" "announced g = s" by (auto simp: view_of_Some[OF assms(2)])
      show ?thesis
      proof (cases "g \<in> set old")
        case True
        then have "view_of ?kept i = Some s" unfolding view_of_Some[OF ok(1)] using g by (intro bexI[of _ g]) auto
        moreover have "view_of ?fresh i = None" unfolding view_of_None[OF ok(2)] 
          proof
            fix h assume h: "h \<in> set ?fresh"
            have "g \<in> set ?kept" using True g(1) by simp
            from clash[OF h this] show "first_unit h \<noteq> i" using g(2) by metis
          qed
        ultimately show ?thesis using Some by (simp add: map_add_def)
      next
        case False
        then have "view_of ?fresh i = Some s" unfolding view_of_Some[OF ok(2)] using g by (intro bexI[of _ g]) auto
        then show ?thesis using Some by (simp add: map_add_def)
      qed
    qed
  qed
  finally show ?thesis .
qed

lemma diff_moves_view:
  "groups_ok old \<Longrightarrow> groups_ok new \<Longrightarrow>
     replay (removed_changes old new @ added_changes old new) (view_of old) = Some (view_of new)"
  by (simp add: replay_append removed_view added_view)

subsection \<open>Groups named by devd\<close>

lemma remove_key_ok: "groups_ok groups \<Longrightarrow> groups_ok (remove_key key groups)"
  unfolding remove_key_def by (rule groups_ok_filter)

lemma removed_group_view:
  assumes "groups_ok groups" "g \<in> set groups"
  shows "view_of (remove_key (fst g) groups) = (view_of groups)(first_unit g := None)"
proof
  have ok: "groups_ok (remove_key (fst g) groups)" using assms(1) by (rule remove_key_ok)
  have only: "h = g" if "h \<in> set groups" "fst h = fst g" for h
    using group_of_key[OF assms(1) that(1)] group_of_key[OF assms] that(2) by (simp add: prod_eq_iff)
  have members: "h \<in> set (remove_key (fst g) groups) \<longleftrightarrow> h \<in> set groups \<and> h \<noteq> g" for h
  proof -
    have "h \<in> set (remove_key (fst g) groups) \<longleftrightarrow> h \<in> set groups \<and> fst h \<noteq> fst g"
      by (simp add: remove_key_def case_prod_unfold)
    then show ?thesis using only by metis
  qed
  fix i
  show "view_of (remove_key (fst g) groups) i = ((view_of groups)(first_unit g := None)) i"
  proof (cases "i = first_unit g")
    case True
    have "view_of (remove_key (fst g) groups) i = None"
      unfolding view_of_None[OF ok] using same_first_unit[OF assms(1) _ assms(2)] True members by blast
    then show ?thesis using True by simp
  next
    case False
    have "view_of (remove_key (fst g) groups) i = Some s \<longleftrightarrow> view_of groups i = Some s" for s
      unfolding view_of_Some[OF ok] view_of_Some[OF assms(1)] using members False by metis
    then have "view_of (remove_key (fst g) groups) i = view_of groups i" by (metis not_None_eq)
    then show ?thesis using False by simp
  qed
qed

lemma subject_key_known:
  assumes "subject_key subject groups = Some key"
  shows "\<exists>indexes. (key, indexes) \<in> set groups"
proof (cases "case strip_prefix ''pcm'' subject of Some u \<Rightarrow> parse_u32 u | None \<Rightarrow> None")
  case None
  then show ?thesis using assms by (auto simp: subject_key_def split: if_splits dest: map_of_SomeD)
next
  case (Some unit)
  then obtain g where "List.find (\<lambda>(_, indexes). unit \<in> set indexes) groups = Some g" "key = fst g"
    using assms by (auto simp: subject_key_def)
  then show ?thesis by (metis find_in prod.collapse)
qed

lemma detach_group_view:
  assumes "groups_ok groups"
  obtains ds groups' where "\<And>cs. detach_group subject (cs, groups) = (cs @ ds, groups')" "groups_ok groups'"
    "replay ds (view_of groups) = Some (view_of groups')"
proof (cases "subject_key subject groups")
  case None
  then show thesis using that[of "[]" groups] assms by (simp add: detach_group_def)
next
  case (Some key)
  then obtain indexes where g: "(key, indexes) \<in> set groups" using subject_key_known by blast
  then have m: "map_of groups key = Some indexes" using assms by (simp add: groups_ok_def)
  obtain i rest where i: "indexes = i # rest" using g assms by (cases indexes) (auto simp: groups_ok_def)
  have v: "view_of (remove_key key groups) = (view_of groups)(i := None)"
    using removed_group_view[OF assms g] by (simp add: first_unit_def i)
  have "view_of groups i \<noteq> None" unfolding view_of_None[OF assms] using g by (force simp: first_unit_def i)
  then show thesis
    using that[of "[CatRemoved i]" "remove_key key groups"] remove_key_ok[OF assms] Some m i v
    by (simp add: detach_group_def apply_catalog_change_def)
qed

lemma detach_groups_view:
  assumes "groups_ok groups"
  obtains ds groups' where "\<And>cs. fold detach_group detached (cs, groups) = (cs @ ds, groups')" "groups_ok groups'"
    "replay ds (view_of groups) = Some (view_of groups')"
  using assms
proof (induction detached arbitrary: groups thesis)
  case Nil
  show ?case by (rule Nil(1)[of "[]" groups]) (simp_all add: Nil(2))
next
  case (Cons subject rest)
  obtain ds1 g1 where 1: "\<And>cs. detach_group subject (cs, groups) = (cs @ ds1, g1)" "groups_ok g1"
    "replay ds1 (view_of groups) = Some (view_of g1)" using detach_group_view[OF Cons.prems(2)] by blast
  obtain ds2 g2 where 2: "\<And>cs. fold detach_group rest (cs, g1) = (cs @ ds2, g2)" "groups_ok g2"
    "replay ds2 (view_of g1) = Some (view_of g2)" using Cons.IH[OF _ 1(2)] by blast
  show ?case by (rule Cons.prems(1)[of "ds1 @ ds2" g2]) (simp_all add: 1 2 replay_append)
qed

text \<open>A group is retracted as soon as devd names it or one of its units.\<close>

lemma detached_unit_retracted:
  assumes "groups_ok groups" "g \<in> set groups" "unit \<in> set (snd g)" "strip_prefix ''pcm'' subject = Some u" "parse_u32 u = Some unit"
  shows "detach_group subject (cs, groups) = (cs @ [CatRemoved (first_unit g)], remove_key (fst g) groups)"
proof -
  have only: "h = g" if "h \<in> set groups" "unit \<in> set (snd h)" for h
  proof -
    have "snd h = snd g"
    proof (rule ccontr)
      have d: "distinct (concat (map snd groups))" using assms(1) by (simp add: groups_ok_def)
      have "snd h \<in> set (map snd groups)" "snd g \<in> set (map snd groups)" using that(1) assms(2) by auto
      moreover assume "snd h \<noteq> snd g"
      ultimately have "set (snd h) \<inter> set (snd g) = {}" using d unfolding distinct_concat_iff by blast
      then show False using that(2) assms(3) by blast
    qed
    then show ?thesis using same_first_unit[OF assms(1) that(1) assms(2)] by (simp add: first_unit_def)
  qed
  have "List.find (\<lambda>(_, indexes). unit \<in> set indexes) groups = Some g"
  proof (cases "List.find (\<lambda>(_, indexes). unit \<in> set indexes) groups")
    case None
    then show ?thesis using assms(2,3) unfolding find_None_iff case_prod_unfold by blast
  next
    case (Some h)
    then have "h \<in> set groups" "unit \<in> set (snd h)" by (auto simp: find_Some_iff case_prod_unfold)
    then show ?thesis using only Some by simp
  qed
  then have "subject_key subject groups = Some (fst g)" using assms(4,5) by (simp add: subject_key_def)
  moreover obtain i rest where "snd g = i # rest" using assms(3) by (cases "snd g") auto
  ultimately show ?thesis using group_of_key[OF assms(1,2)] by (simp add: detach_group_def first_unit_def)
qed

section \<open>Scanned groups are in order\<close>

lemma of_char_less_cases: "x \<noteq> y \<Longrightarrow> (of_char x :: nat) < of_char y \<or> (of_char y :: nat) < of_char x"
  by (metis linorder_neqE_nat of_char_eq_iff)

lemma str_less_trans: "str_less xs ys \<Longrightarrow> str_less ys zs \<Longrightarrow> str_less xs zs"
proof (induction xs ys arbitrary: zs rule: str_less.induct)
  case (2 y ys)
  then show ?case by (cases zs) auto
next
  case (3 x xs y ys)
  then show ?case by (cases zs) (auto split: if_splits)
qed simp

lemma str_less_irrefl: "\<not> str_less xs xs"
  by (induction xs) auto

lemma str_less_total: "xs \<noteq> ys \<Longrightarrow> str_less xs ys \<or> str_less ys xs"
proof (induction xs ys rule: str_less.induct)
  case (1 xs)
  then show ?case by (cases xs) auto
next
  case (3 x xs y ys)
  then show ?case using of_char_less_cases[of x y] by auto
qed simp

definition sorted_groups :: "device_groups \<Rightarrow> bool" where
  "sorted_groups groups \<longleftrightarrow> sorted_wrt str_less (map fst groups)"

lemma sorted_groups_distinct: "sorted_groups groups \<Longrightarrow> distinct (map fst groups)"
proof (induction groups)
  case (Cons g gs)
  have "fst g \<notin> set (map fst gs)"
    using Cons.prems str_less_irrefl by (auto simp: sorted_groups_def)
  then show ?case using Cons by (auto simp: sorted_groups_def)
qed simp

lemma group_push_keys: "set (map fst (group_push p i groups)) = insert p (set (map fst groups))"
  by (induction p i groups rule: group_push.induct) auto

lemma group_push_sorted: "sorted_groups groups \<Longrightarrow> sorted_groups (group_push p i groups)"
proof (induction p i groups rule: group_push.induct)
  case (2 p i key indexes groups)
  have "sorted_groups (group_push p i groups)" if "key \<noteq> p" "\<not> str_less p key"
    using 2 that by (auto simp: sorted_groups_def)
  moreover have "str_less key k" if "k \<in> set (map fst (group_push p i groups))" "key \<noteq> p" "\<not> str_less p key" for k
    using 2(2) that(2,3) that(1)[unfolded group_push_keys] str_less_total[of key p] by (auto simp: sorted_groups_def)
  ultimately show ?case
    using 2(2) str_less_trans[of p key] by (auto simp: sorted_groups_def simp del: set_map)
qed (simp add: sorted_groups_def)

lemma group_push_units: "mset (concat (map snd (group_push p i groups))) = add_mset i (mset (concat (map snd groups)))"
  by (induction p i groups rule: group_push.induct) auto

lemma group_push_nonempty: "\<forall>g\<in>set groups. snd g \<noteq> [] \<Longrightarrow> \<forall>g\<in>set (group_push p i groups). snd g \<noteq> []"
  by (induction p i groups rule: group_push.induct) auto

lemma grouped_ok:
  assumes "distinct indexes"
  shows "groups_ok (group_pcm_devices_by_parent sysctl indexes)"
proof -
  let ?f = "\<lambda>index groups. case sy_string sysctl (pcm_sysctl index ''.%parent'') of
             Some parent \<Rightarrow> group_push parent index groups | None \<Rightarrow> groups"
  have "sorted_groups (fold ?f indexes gs) \<and> (\<forall>g\<in>set (fold ?f indexes gs). snd g \<noteq> [])
      \<and> mset (concat (map snd (fold ?f indexes gs))) \<subseteq># mset (concat (map snd gs)) + mset indexes"
    if "sorted_groups gs" "\<forall>g\<in>set gs. snd g \<noteq> []" for gs
    using that
  proof (induction indexes arbitrary: gs)
    case (Cons i indexes)
    let ?gs = "?f i gs"
    have ok: "sorted_groups ?gs" "\<forall>g\<in>set ?gs. snd g \<noteq> []"
      using Cons.prems group_push_sorted group_push_nonempty by (auto split: option.split)
    have "mset (concat (map snd ?gs)) \<subseteq># add_mset i (mset (concat (map snd gs)))"
      by (auto simp: group_push_units split: option.split)
    then have "mset (concat (map snd ?gs)) + mset indexes \<subseteq># mset (concat (map snd gs)) + mset (i # indexes)"
      by simp
    then show ?case using Cons.IH[OF ok] by (simp only: fold_simps) (meson subset_mset.order_trans)
  qed simp
  from this[of "[]"] have k: "sorted_groups (group_pcm_devices_by_parent sysctl indexes)"
    "\<forall>g\<in>set (group_pcm_devices_by_parent sysctl indexes). snd g \<noteq> []"
    "mset (concat (map snd (group_pcm_devices_by_parent sysctl indexes))) \<subseteq># mset indexes"
    by (simp_all add: group_pcm_devices_by_parent_def sorted_groups_def)
  have "distinct (concat (map snd (group_pcm_devices_by_parent sysctl indexes)))"
    using assms mset_subset_eq_count[OF k(3)] unfolding distinct_count_atmost_1
    by (metis count_greater_zero_iff le_zero_eq less_one linorder_not_less not_in_iff order_antisym_conv nat_less_le set_mset_mset zero_less_one)
  then show ?thesis using k(1,2) sorted_groups_distinct by (simp add: groups_ok_def)
qed

lemma scanned_ok:
  assumes "read_device_groups snapshot sysctl = Inr groups" "\<forall>devs. snapshot = Some devs \<longrightarrow> distinct (map fst (pcm_devices devs))"
  shows "groups_ok groups"
  using assms by (cases snapshot) (auto simp: read_device_groups_def read_sndstat_def sndstat_pcm_devices_def grouped_ok)

section \<open>Histories\<close>

lemma rescan_with_view:
  assumes "groups_ok groups" "\<And>new. read = Inr new \<Longrightarrow> groups_ok new" "rescan_with read detached groups = (r, groups')"
  shows "groups_ok groups' \<and> replay (cr_changes r) (view_of groups) = Some (view_of groups')"
proof -
  obtain ds g where d: "\<And>cs. fold detach_group detached (cs, groups) = (cs @ ds, g)" "groups_ok g"
    "replay ds (view_of groups) = Some (view_of g)" using detach_groups_view[OF assms(1)] by blast
  show ?thesis
  proof (cases read)
    case (Inl e)
    then show ?thesis using assms(3) d by (auto simp: rescan_with_def)
  next
    case (Inr new)
    then have "r = \<lparr>cr_changes = ds @ removed_changes g new @ added_changes g new, cr_error = None\<rparr>" "groups' = new"
      using assms(3) d(1)[of "[]"] by (auto simp: rescan_with_def)
    then show ?thesis using d(3) diff_moves_view[OF d(2) assms(2)[OF Inr]] assms(2)[OF Inr]
      by (simp add: replay_append)
  qed
qed

lemma detached_retracted:
  assumes "groups_ok groups" "g \<in> set groups" "unit \<in> set (snd g)" "parse_u32 u = Some unit" "''pcm'' @ u \<in> set detached"
  shows "CatRemoved (first_unit g) \<in> set (fst (fold detach_group detached (cs, groups)))"
  using assms
proof (induction detached arbitrary: cs groups)
  case (Cons subject rest)
  obtain ds1 g1 where 1: "\<And>cs. detach_group subject (cs, groups) = (cs @ ds1, g1)" "groups_ok g1"
    using detach_group_view[OF Cons.prems(1)] by blast
  obtain ds2 g2 where 2: "\<And>cs. fold detach_group rest (cs, g1) = (cs @ ds2, g2)"
    using detach_groups_view[OF 1(2)] by blast
  show ?case
  proof (cases "g \<in> set g1")
    case True
    have "subject \<noteq> ''pcm'' @ u"
    proof
      assume "subject = ''pcm'' @ u"
      then have "g1 = remove_key (fst g) groups"
        using detached_unit_retracted[OF Cons.prems(1-3), of subject u "[]"] Cons.prems(4) 1(1)[of "[]"]
        by (simp add: strip_prefix_def)
      then show False using True by (auto simp: remove_key_def)
    qed
    then have "''pcm'' @ u \<in> set rest" using Cons.prems(5) by auto
    then show ?thesis using Cons.IH[OF 1(2) True Cons.prems(3,4)] 1(1) by (simp del: 2)
  next
    case False
    have "CatRemoved (first_unit g) \<in> set ds1"
    proof (cases "subject_key subject groups")
      case None
      then show ?thesis using 1(1)[of "[]"] False Cons.prems(2) by (simp add: detach_group_def)
    next
      case (Some key)
      obtain indexes where m: "(key, indexes) \<in> set groups" using subject_key_known[OF Some] by blast
      then have mk: "map_of groups key = Some indexes" using Cons.prems(1) by (simp add: groups_ok_def)
      have g1: "g1 = remove_key key groups" using 1(1)[of "[]"] Some mk by (simp add: detach_group_def)
      then have "fst g = key" using False Cons.prems(2) by (cases g) (auto simp: remove_key_def)
      then have "indexes = snd g" using group_of_key[OF Cons.prems(1,2)] mk by simp
      moreover obtain i rest where "snd g = i # rest" using Cons.prems(3) by (cases "snd g") auto
      ultimately show ?thesis using 1(1)[of "[]"] Some mk by (auto simp: detach_group_def first_unit_def)
    qed
    then show ?thesis using 1(1) 2 by simp
  qed
qed simp

text \<open>A catalog through a sequence of rescans, with all the changes in order.\<close>

fun catalog_history :: "(nv_device list option \<times> sysctl \<times> string list) list \<Rightarrow> device_groups \<Rightarrow> catalog_change list \<times> device_groups" where
  "catalog_history [] groups = ([], groups)"
| "catalog_history ((snapshot, sysctl, detached) # events) groups =
     (let (r, groups1) = rescan snapshot sysctl detached groups;
          (changes, groups2) = catalog_history events groups1
      in (cr_changes r @ changes, groups2))"

definition units_distinct :: "nv_device list option \<Rightarrow> bool" where
  "units_distinct snapshot = (case snapshot of None \<Rightarrow> True | Some devs \<Rightarrow> distinct (map fst (pcm_devices devs)))"

lemma history_view:
  assumes "groups_ok groups" "\<forall>(snapshot, sysctl, detached)\<in>set events. units_distinct snapshot"
    "catalog_history events groups = (changes, final)"
  shows "groups_ok final \<and> replay changes (view_of groups) = Some (view_of final)"
  using assms
proof (induction events arbitrary: groups changes)
  case (Cons e events)
  obtain snapshot sysctl detached where e: "e = (snapshot, sysctl, detached)" by (cases e)
  obtain r g1 where r: "rescan snapshot sysctl detached groups = (r, g1)" by fastforce
  obtain cs where cs: "catalog_history events g1 = (cs, final)" "changes = cr_changes r @ cs"
    using Cons.prems(3) by (auto simp: e r split: prod.splits)
  have "units_distinct snapshot" using Cons.prems(2) by (simp add: e)
  then have "groups_ok g1 \<and> replay (cr_changes r) (view_of groups) = Some (view_of g1)"
    using r scanned_ok[of snapshot sysctl] unfolding rescan_def units_distinct_def
    by (intro rescan_with_view[OF Cons.prems(1)]) (auto split: option.splits)
  then show ?case using Cons.IH[OF _ _ cs(1)] Cons.prems(2) by (simp add: cs(2) replay_append)
qed simp

section \<open>Properties\<close>

text \<open>C32. From the groups of the first scan on, the changes of every rescan, replayed in order, turn what was
  announced into exactly the groups the catalog now holds: no change retracts an id that was not announced or
  announces one that still is, whatever sndstat and the sysctls answer, and whether or not a read fails. A group
  devd has named one of whose units as detached is retracted, even when the new scan shows the same group again.\<close>

theorem rescans_keep_listeners_in_step:
  assumes "catalog_scan snapshot sysctl = Inr groups" "units_distinct snapshot"
    and "\<forall>(snapshot, sysctl, detached)\<in>set events. units_distinct snapshot"
    and "catalog_history events groups = (changes, final)"
  shows "replay changes (view_of groups) = Some (view_of final)
    \<and> (\<forall>read detached. \<forall>(key, indexes)\<in>set final. \<forall>unit\<in>set indexes.
          unit \<le> u32_max \<longrightarrow> ''pcm'' @ show_nat unit \<in> set detached \<longrightarrow>
          CatRemoved (hd indexes) \<in> set (cr_changes (fst (rescan_with read detached final))))"
proof -
  have "groups_ok groups"
    using assms(1,2) scanned_ok unfolding catalog_scan_def units_distinct_def by (auto split: option.splits)
  from history_view[OF this assms(3,4)] have ok: "groups_ok final" and rep: "replay changes (view_of groups) = Some (view_of final)"
    by auto
  have "CatRemoved (hd indexes) \<in> set (cr_changes (fst (rescan_with read detached final)))"
    if "(key, indexes) \<in> set final" "unit \<in> set indexes" "unit \<le> u32_max" "''pcm'' @ show_nat unit \<in> set detached"
    for read detached key indexes unit
  proof -
    have "CatRemoved (hd indexes) \<in> set (fst (fold detach_group detached ([], final)))"
      using detached_retracted[OF ok that(1) _ parse_show_u32[OF that(3)] that(4)] that(2) by (simp add: first_unit_def)
    then show ?thesis by (auto simp: rescan_with_def split: sum.split prod.split)
  qed
  then show ?thesis using rep by blast
qed

definition sample_pcm :: "string \<Rightarrow> nv_device" where
  "sample_pcm name = \<lparr>nv_from_user = None, nv_devnode = None, nv_nameunit = Some name, nv_pchan = Some 1, nv_rchan = None,
     nv_info_play = None, nv_info_rec = None, nv_provider_info = None\<rparr>"

definition sample_sysctl :: sysctl where
  "sample_sysctl = \<lparr>sy_string = (\<lambda>name. if name = ''dev.pcm.2.%parent'' then Some ''uaudio0'' else Some ''hdaa0''), sy_u32 = (\<lambda>_. None)\<rparr>"

lemma sample_units:
  "pcm_devices [sample_pcm ''pcm0'', sample_pcm ''pcm1''] = [(0, True, False), (1, True, False)]"
  "pcm_devices [sample_pcm ''pcm0'', sample_pcm ''pcm2''] = [(0, True, False), (2, True, False)]"
  by (simp_all add: sample_pcm_def nv_flag_def nv_number_def strip_prefix_def parse_u32_def digit_value_def)

lemma digit_chars: "char_of (48 :: nat) = CHR ''0''" "char_of (49 :: nat) = CHR ''1''" "char_of (50 :: nat) = CHR ''2''"
  by code_simp+

lemma sample_names:
  "pcm_sysctl 0 ''.%parent'' = ''dev.pcm.0.%parent''" "pcm_sysctl (Suc 0) ''.%parent'' = ''dev.pcm.1.%parent''" "pcm_sysctl 2 ''.%parent'' = ''dev.pcm.2.%parent''"
  by (simp_all add: pcm_sysctl_def show_nat.simps digit_chars)

lemma sample_scans:
  "read_device_groups (Some [sample_pcm ''pcm0'', sample_pcm ''pcm1'']) sample_sysctl = Inr [(''hdaa0'', [0, 1])]"
  "read_device_groups (Some [sample_pcm ''pcm0'', sample_pcm ''pcm2'']) sample_sysctl = Inr [(''hdaa0'', [0]), (''uaudio0'', [2])]"
  unfolding read_device_groups_def read_sndstat_def sndstat_pcm_devices_def
  by (simp_all only: option.map option.case sample_units)
    (simp_all add: group_pcm_devices_by_parent_def sample_names sample_sysctl_def)

lemma sample_history:
  "catalog_history [(Some [sample_pcm ''pcm0'', sample_pcm ''pcm2''], sample_sysctl, [''pcm1''])] [(''hdaa0'', [0, 1])]
     = ([CatRemoved 0, CatAdded (announced (''hdaa0'', [0])), CatAdded (announced (''uaudio0'', [2]))],
        [(''hdaa0'', [0]), (''uaudio0'', [2])])"
  by (simp add: rescan_def sample_scans rescan_with_def detach_group_def subject_key_def remove_key_def strip_prefix_def
      parse_u32_def digit_value_def removed_changes_def added_changes_def List.map_filter_def announced_def snapshot_of_group_def)

theorem rescans_keep_listeners_in_step_witness:
  "replay [CatRemoved 0, CatAdded (announced (''hdaa0'', [0])), CatAdded (announced (''uaudio0'', [2]))] (view_of [(''hdaa0'', [0, 1])])
     = Some (view_of [(''hdaa0'', [0]), (''uaudio0'', [2])])"
proof -
  have "catalog_scan (Some [sample_pcm ''pcm0'', sample_pcm ''pcm1'']) sample_sysctl = Inr [(''hdaa0'', [0, 1])]"
    by (simp only: catalog_scan_def sample_scans)
  from rescans_keep_listeners_in_step[OF this _ _ sample_history] show ?thesis
    unfolding units_distinct_def by (simp only: option.case sample_units) (simp add: sample_units del: pcm_devices.simps)
qed

section \<open>What is announced is what is read back\<close>

lemma digit_not_comma: "d < 10 \<Longrightarrow> char_of (48 + d :: nat) \<noteq> CHR '',''"
proof
  assume d: "d < 10" and eq: "char_of (48 + d :: nat) = CHR '',''"
  have "of_char (char_of (48 + d :: nat)) = (of_char (CHR '','') :: nat)" using eq by simp
  then show False using d by simp
qed

lemma show_nat_no_comma: "CHR '','' \<notin> set (show_nat n)"
proof (induction n rule: show_nat.induct)
  case (1 n)
  show ?case
  proof (cases "n < 10")
    case True
    then show ?thesis using digit_not_comma[of n] by (auto simp: show_nat.simps[of n] simp del: One_nat_def dest: sym)
  next
    case False
    have "n mod 10 < 10" by simp
    from digit_not_comma[OF this] 1[OF False] False show ?thesis by (auto simp: show_nat.simps[of n] dest: sym)
  qed
qed

lemma split_on_absent: "c \<notin> set s \<Longrightarrow> split_on c s = [s]"
  by (induction s) auto

lemma split_on_sep: "c \<notin> set s \<Longrightarrow> split_on c (s @ c # t) = s # split_on c t"
  by (induction s) auto

lemma split_join:
  "ss \<noteq> [] \<Longrightarrow> \<forall>s\<in>set ss. c \<notin> set s \<Longrightarrow> split_on c (join [c] ss) = ss"
  by (induction "[c]" ss rule: join.induct) (auto simp: split_on_absent split_on_sep)

lemma parse_shown: "\<forall>i\<in>set is. i \<le> u32_max \<Longrightarrow> List.map_filter parse_u32 (map show_nat is) = is"
  by (induction "is") (auto simp: List.map_filter_def parse_show_u32)

text \<open>C33. What the monitor announces of a group of units is what the device object makes of it: folding the
  announced properties through the parser of the device's creation arguments gives the name of the owning
  driver and exactly the units of the group, in order, and the arguments are complete.\<close>

theorem announced_group_is_read_back:
  assumes "snapshot_of_group key indexes = Some s" "\<forall>i\<in>set indexes. i \<le> u32_max"
  shows "fold (\<lambda>(k, v). device_init_parse k v) (gs_properties s) device_init_default
       = \<lparr>di_parent_name = Some key, di_units = indexes\<rparr>
    \<and> device_init_is_complete (fold (\<lambda>(k, v). device_init_parse k v) (gs_properties s) device_init_default)
    \<and> gs_object_id s \<in> set indexes"
proof -
  obtain i rest where i: "indexes = i # rest" using assms(1) by (cases indexes) (auto simp: snapshot_of_group_def)
  have "split_on (CHR '','') (join '','' (map show_nat indexes)) = map show_nat indexes"
    by (rule split_join) (simp_all add: i show_nat_no_comma)
  then have units: "List.map_filter parse_u32 (split_on (CHR '','') (join '','' (map show_nat indexes))) = indexes"
    using parse_shown[OF assms(2)] by simp
  have s: "gs_properties s = [(PARENT_DEVICE, key), (DEVICE_INDEXES, join '','' (map show_nat indexes))]" "gs_object_id s = i"
    using assms(1) by (auto simp: snapshot_of_group_def i)
  have "fold (\<lambda>(k, v). device_init_parse k v) (gs_properties s) device_init_default = \<lparr>di_parent_name = Some key, di_units = indexes\<rparr>"
    unfolding s(1) by (simp add: device_init_parse_def device_init_default_def units)
  then show ?thesis by (simp add: device_init_is_complete_def s(2) i)
qed

theorem announced_group_is_read_back_witness:
  "let s = announced (''hdaa0'', [0, 12])
   in fold (\<lambda>(k, v). device_init_parse k v) (gs_properties s) device_init_default = \<lparr>di_parent_name = Some ''hdaa0'', di_units = [0, 12]\<rparr>"
proof -
  have "snapshot_of_group ''hdaa0'' [0, 12] = Some (announced (''hdaa0'', [0, 12]))" by (simp add: announced_def snapshot_of_group_def)
  from announced_group_is_read_back[OF this] show ?thesis unfolding Let_def by simp
qed

end
