(* ===== verification/Monitor.thy ===== *)
theory Monitor
  imports CatalogView OssHotplug
begin

text \<open>
  The device monitor (crates/core/src/monitor/mod.rs) and the notification queue it drains
  (\<open>LocalNotificationQueue\<close> and \<open>ListenerList\<close> in crates/core/src/spa/hooks.rs). Everything runs on the main
  loop, but a listener may call back into the monitor from inside a callback, so the call stack is part of the
  state: one frame per activation that is not finished, the innermost first. A listener callback is arbitrary:
  inside it a listener may be added or removed, or the loop may be entered and a hotplug event handled, any
  number of times and to any depth, before it returns.

  Listeners are numbered; one registered again is a new one. All of them carry the current event table (an
  older or emptier table is skipped by \<open>emit\<close>). The list traversal with a woven cursor is the list of hooks
  still to be visited: removing a hook removes it there too, and hooks joined at the tail of a list that is
  being walked are visited. Logging is left out, and so is the abort when the loop refuses to detach the source.
\<close>

section \<open>Notifications\<close>

datatype monitor_object_event = Added group_snapshot | Removed u32

datatype listener_event = EvInfo | EvObject monitor_object_event

type_synonym listener = nat
type_synonym batch = nat

datatype monitor_notification = NObject monitor_object_event | NActivateListeners batch

text \<open>\<open>Pending\<close>, the state of \<open>LocalNotificationQueue\<close>.\<close>

record pending =
  pn_queue :: "monitor_notification list"
  pn_dispatching :: bool

definition defer_when_busy :: "monitor_notification \<Rightarrow> pending \<Rightarrow> bool \<times> pending" where
  "defer_when_busy n p =
     (if pn_dispatching p \<or> pn_queue p \<noteq> [] then (True, p\<lparr>pn_queue := pn_queue p @ [n]\<rparr>) else (False, p))"

definition begin_dispatch :: "pending \<Rightarrow> bool \<times> pending" where
  "begin_dispatch p = (if pn_dispatching p then (False, p) else (True, p\<lparr>pn_dispatching := True\<rparr>))"

definition enqueue_all :: "monitor_notification list \<Rightarrow> pending \<Rightarrow> pending" where
  "enqueue_all ns p = p\<lparr>pn_queue := pn_queue p @ ns\<rparr>"

definition dispatch_guard_drop :: "pending \<Rightarrow> pending" where
  "dispatch_guard_drop p = p\<lparr>pn_dispatching := False\<rparr>"

section \<open>The monitor's own state\<close>

record runtime =
  rt_catalog :: device_groups
  rt_hotplug :: "hotplug_monitor option"
  rt_registered :: bool

definition catalog_notifications :: "catalog_rescan \<Rightarrow> monitor_object_event list" where
  "catalog_notifications r = map (\<lambda>c. case c of CatAdded s \<Rightarrow> Added s | CatRemoved i \<Rightarrow> Removed i) (cr_changes r)"

text \<open>The scoped mutation of \<open>on_hotplug_event\<close>; None where there is no monitor.\<close>

definition on_hotplug_event ::
    "nv_device list option \<Rightarrow> sysctl \<Rightarrow> runtime \<Rightarrow> (monitor_object_event list \<times> runtime) option" where
  "on_hotplug_event snapshot sysctl rt =
     (case rt_hotplug rt of
        None \<Rightarrow> None
      | Some m \<Rightarrow>
          (let ((alive, result), catalog, m) = read_catalog_rescan (rescan snapshot sysctl) (rt_catalog rt) m;
               notifications = (case result of Some r \<Rightarrow> catalog_notifications r | None \<Rightarrow> []);
               rt = rt\<lparr>rt_catalog := catalog, rt_hotplug := Some m\<rparr>
           in Some (notifications, if alive then rt else rt\<lparr>rt_hotplug := None, rt_registered := False\<rparr>)))"

text \<open>\<open>init\<close>: the support items, the scan, the connection to devd and the result of registering its source.\<close>

definition monitor_init ::
    "bool \<Rightarrow> bool \<Rightarrow> nv_device list option \<Rightarrow> sysctl \<Rightarrow> int + hotplug_monitor \<Rightarrow> int \<Rightarrow> int + runtime" where
  "monitor_init has_log has_loop snapshot sysctl opened registered =
     (if \<not> has_log \<or> \<not> has_loop then Inl EINVAL_code
      else case catalog_scan snapshot sysctl of
        Inl e \<Rightarrow> Inl (- errno_code e)
      | Inr catalog \<Rightarrow>
          Inr (case opened of
                 Inl _ \<Rightarrow> \<lparr>rt_catalog = catalog, rt_hotplug = None, rt_registered = False\<rparr>
               | Inr m \<Rightarrow> \<lparr>rt_catalog = catalog, rt_hotplug = (if registered < 0 then None else Some m),
                            rt_registered = (0 \<le> registered)\<rparr>))"

section \<open>Activations\<close>

datatype hook_list = Active | Deferred batch

text \<open>
  \<open>FEmit event rest\<close> walks a list, \<open>rest\<close> still to visit; \<open>FCallback\<close> is a listener's code; \<open>FInitial\<close> is
  \<open>add_listener\<close> between isolating the new listener in a list (the others are in \<open>saved\<close>) and joining them again,
  with the events still to emit and whether it owns the dispatch; \<open>FDrain\<close> is the draining loop.
\<close>

datatype frame =
    FEmit hook_list listener_event "listener list"
  | FCallback
  | FInitial hook_list "listener list" listener "listener_event list" bool
  | FDrain

record mon_system =
  ms_hooks :: "hook_list \<Rightarrow> listener list"
  ms_pending :: pending
  ms_runtime :: runtime
  ms_stack :: "frame list"
  ms_batches :: nat
  ms_listeners :: nat
  ms_seen :: "listener \<Rightarrow> listener_event list"

definition mon_start :: "runtime \<Rightarrow> mon_system" where
  "mon_start rt = \<lparr>ms_hooks = (\<lambda>_. []), ms_pending = \<lparr>pn_queue = [], pn_dispatching = False\<rparr>, ms_runtime = rt,
     ms_stack = [], ms_batches = 0, ms_listeners = 0, ms_seen = (\<lambda>_. [])\<rparr>"

text \<open>\<open>append_from\<close>, the list under a traversal included.\<close>

fun extend_walk :: "hook_list \<Rightarrow> listener list \<Rightarrow> frame \<Rightarrow> frame" where
  "extend_walk l ls (FEmit l' e rest) = FEmit l' e (if l' = l then rest @ ls else rest)"
| "extend_walk l ls f = f"

definition append_from :: "hook_list \<Rightarrow> batch \<Rightarrow> mon_system \<Rightarrow> mon_system" where
  "append_from l b s =
     s\<lparr>ms_hooks := (ms_hooks s)(l := ms_hooks s l @ ms_hooks s (Deferred b), Deferred b := []),
       ms_stack := map (extend_walk l (ms_hooks s (Deferred b))) (ms_stack s)\<rparr>"

text \<open>
  \<open>with_new_listener\<close> up to the first callback: the activation barrier if there is older work, the isolation
  of the listener in its list (\<open>with_isolated_listener\<close>), and the start of the initial callbacks, which take the
  dispatch where nobody has it.
\<close>

definition isolate :: "hook_list \<Rightarrow> listener \<Rightarrow> (hook_list \<Rightarrow> listener list) \<Rightarrow> listener list \<times> (hook_list \<Rightarrow> listener list)" where
  "isolate l new hooks = (hooks l, hooks(l := [new]))"

definition with_new_listener :: "listener_event list \<Rightarrow> mon_system \<Rightarrow> mon_system" where
  "with_new_listener initial s =
     (let new = ms_listeners s;
          (deferred, p) = defer_when_busy (NActivateListeners (ms_batches s)) (ms_pending s);
          l = (if deferred then Deferred (ms_batches s) else Active);
          (saved, hooks) = isolate l new (ms_hooks s);
          (owner, p) = begin_dispatch p
      in s\<lparr>ms_hooks := hooks, ms_pending := p, ms_listeners := new + 1,
           ms_batches := ms_batches s + (if deferred then 1 else 0),
           ms_stack := FInitial l saved new initial owner # ms_stack s\<rparr>)"

definition add_listener :: "mon_system \<Rightarrow> mon_system" where
  "add_listener s =
     (let objects = map (\<lambda>g. EvObject (Added g)) (snapshots (rt_catalog (ms_runtime s)))
      in with_new_listener (EvInfo # objects) s)"

fun drop_hook :: "listener \<Rightarrow> frame \<Rightarrow> frame" where
  "drop_hook x (FEmit l e rest) = FEmit l e (filter (\<lambda>y. y \<noteq> x) rest)"
| "drop_hook x (FInitial l saved new es owner) = FInitial l (filter (\<lambda>y. y \<noteq> x) saved) new es owner"
| "drop_hook x f = f"

definition remove_listener :: "listener \<Rightarrow> mon_system \<Rightarrow> mon_system" where
  "remove_listener x s = s\<lparr>ms_hooks := (\<lambda>l. filter (\<lambda>y. y \<noteq> x) (ms_hooks s l)), ms_stack := map (drop_hook x) (ms_stack s)\<rparr>"

text \<open>\<open>on_hotplug_event\<close> up to the first callback of \<open>dispatch_all\<close>.\<close>

definition hotplug :: "nv_device list option \<Rightarrow> sysctl \<Rightarrow> mon_system \<Rightarrow> mon_system" where
  "hotplug snapshot sysctl s =
     (case on_hotplug_event snapshot sysctl (ms_runtime s) of
        None \<Rightarrow> s
      | Some (notifications, rt) \<Rightarrow>
          (let (owner, p) = begin_dispatch (enqueue_all (map NObject notifications) (ms_pending s))
           in s\<lparr>ms_runtime := rt, ms_pending := p, ms_stack := (if owner then [FDrain] else []) @ ms_stack s\<rparr>))"

text \<open>The next hook of a traversal.\<close>

definition emit_step :: "hook_list \<Rightarrow> listener_event \<Rightarrow> listener list \<Rightarrow> frame list \<Rightarrow> mon_system \<Rightarrow> mon_system" where
  "emit_step l e rest fs s =
     (case rest of
        x # rest \<Rightarrow> s\<lparr>ms_seen := (ms_seen s)(x := ms_seen s x @ [e]), ms_stack := FCallback # FEmit l e rest # fs\<rparr>
      | [] \<Rightarrow> s\<lparr>ms_stack := fs\<rparr>)"

text \<open>The next initial event, one traversal each; after the last one the list is joined again.\<close>

definition initial_step ::
    "hook_list \<Rightarrow> listener list \<Rightarrow> listener \<Rightarrow> listener_event list \<Rightarrow> bool \<Rightarrow> frame list \<Rightarrow> mon_system \<Rightarrow> mon_system" where
  "initial_step l saved new es owner fs s =
     (case es of
        e # es \<Rightarrow> s\<lparr>ms_stack := FEmit l e (ms_hooks s l) # FInitial l saved new es owner # fs\<rparr>
      | [] \<Rightarrow> s\<lparr>ms_hooks := (ms_hooks s)(l := saved @ ms_hooks s l), ms_stack := (if owner then [FDrain] else []) @ fs\<rparr>)"

text \<open>What the monitor does with a notification that is drained.\<close>

definition dispatch_notification :: "monitor_notification \<Rightarrow> mon_system \<Rightarrow> mon_system" where
  "dispatch_notification n s =
     (case n of
        NObject ev \<Rightarrow> s\<lparr>ms_stack := FEmit Active (EvObject ev) (ms_hooks s Active) # ms_stack s\<rparr>
      | NActivateListeners b \<Rightarrow> append_from Active b s)"

definition drain_step :: "frame list \<Rightarrow> mon_system \<Rightarrow> mon_system" where
  "drain_step fs s =
     (case pn_queue (ms_pending s) of
        [] \<Rightarrow> s\<lparr>ms_pending := dispatch_guard_drop (ms_pending s), ms_stack := fs\<rparr>
      | n # q \<Rightarrow> dispatch_notification n (s\<lparr>ms_pending := (ms_pending s)\<lparr>pn_queue := q\<rparr>\<rparr>))"

text \<open>One step of the innermost activation that is not a callback.\<close>

definition advance :: "mon_system \<Rightarrow> mon_system option" where
  "advance s =
     (case ms_stack s of
        FEmit l e rest # fs \<Rightarrow> Some (emit_step l e rest fs s)
      | FInitial l saved new es owner # fs \<Rightarrow> Some (initial_step l saved new es owner fs s)
      | FDrain # fs \<Rightarrow> Some (drain_step fs s)
      | _ \<Rightarrow> None)"

lemmas advance_defs = advance_def emit_step_def initial_step_def drain_step_def dispatch_notification_def
lemmas add_listener_defs = add_listener_def with_new_listener_def isolate_def Let_def

text \<open>What can happen: the host, or a listener inside a callback, calls the monitor; a callback returns; or the
  innermost activation goes on.\<close>

datatype mon_action =
    DoAdd
  | DoRemove listener
  | DoHotplug "nv_device list option" sysctl
  | DoReturn
  | DoAdvance

definition host_turn :: "mon_system \<Rightarrow> bool" where
  "host_turn s = (case ms_stack s of [] \<Rightarrow> True | f # _ \<Rightarrow> f = FCallback)"

fun mon_step :: "mon_action \<Rightarrow> mon_system \<Rightarrow> mon_system option" where
  "mon_step DoAdd s = (if host_turn s then Some (add_listener s) else None)"
| "mon_step (DoRemove x) s = (if host_turn s then Some (remove_listener x s) else None)"
| "mon_step (DoHotplug snapshot sysctl) s =
     (if host_turn s \<and> units_distinct snapshot then Some (hotplug snapshot sysctl s) else None)"
| "mon_step DoReturn s = (case ms_stack s of FCallback # fs \<Rightarrow> Some (s\<lparr>ms_stack := fs\<rparr>) | _ \<Rightarrow> None)"
| "mon_step DoAdvance s = advance s"

fun mon_run :: "mon_action list \<Rightarrow> mon_system \<Rightarrow> mon_system option" where
  "mon_run [] s = Some s"
| "mon_run (a # as) s = (case mon_step a s of None \<Rightarrow> None | Some s' \<Rightarrow> mon_run as s')"

section \<open>What is told\<close>

fun changes_of :: "listener_event \<Rightarrow> catalog_change list" where
  "changes_of EvInfo = []"
| "changes_of (EvObject (Added g)) = [CatAdded g]"
| "changes_of (EvObject (Removed i)) = [CatRemoved i]"

text \<open>The objects a listener knows after these events, None if one of them contradicts what it was told before.\<close>

definition told :: "listener_event list \<Rightarrow> catalog_view option" where
  "told es = replay (concat (map changes_of es)) Map.empty"

definition queue_objects :: "monitor_notification list \<Rightarrow> listener_event list" where
  "queue_objects q = List.map_filter (\<lambda>n. case n of NObject e \<Rightarrow> Some (EvObject e) | NActivateListeners _ \<Rightarrow> None) q"

fun queue_after :: "batch \<Rightarrow> monitor_notification list \<Rightarrow> listener_event list" where
  "queue_after b [] = []"
| "queue_after b (NObject e # q) = queue_after b q"
| "queue_after b (NActivateListeners b' # q) = (if b' = b then queue_objects q else queue_after b q)"

fun frame_due :: "listener \<Rightarrow> frame \<Rightarrow> listener_event list" where
  "frame_due x (FEmit l e rest) = (if x \<in> set rest then [e] else [])"
| "frame_due x (FInitial l saved new es owner) = (if x = new then es else [])"
| "frame_due x _ = []"

definition due :: "listener \<Rightarrow> frame list \<Rightarrow> listener_event list" where
  "due x fs = concat (map (frame_due x) fs)"

fun saved_of :: "frame \<Rightarrow> listener list" where
  "saved_of (FInitial l saved new es owner) = saved"
| "saved_of _ = []"

abbreviation hooks_active :: "mon_system \<Rightarrow> listener list" where
  "hooks_active s \<equiv> concat (map saved_of (ms_stack s)) @ ms_hooks s Active"

definition registered :: "mon_system \<Rightarrow> listener \<Rightarrow> bool" where
  "registered s x \<longleftrightarrow> x \<in> set (hooks_active s) \<or> (\<exists>b. x \<in> set (ms_hooks s (Deferred b)))"

text \<open>How activations nest.\<close>

inductive activations :: "frame list \<Rightarrow> bool" where
  idle: "activations []"
| drain: "activations [FDrain]"
| first: "activations [FInitial Active saved new es True]"
| late: "activations (FCallback # fs) \<Longrightarrow> activations (FInitial (Deferred b) [] new es False # FCallback # fs)"
| walk_initial: "activations (FInitial l saved new es owner # fs) \<Longrightarrow>
    activations (FEmit l e rest # FInitial l saved new es owner # fs)"
| walk_drain: "activations [FEmit Active e rest, FDrain]"
| callback: "activations (FEmit l e rest # fs) \<Longrightarrow> activations (FCallback # FEmit l e rest # fs)"

inductive_cases drain_cases: "activations (FDrain # fs)"
inductive_cases initial_cases: "activations (FInitial l saved new es owner # fs)"
inductive_cases emit_cases: "activations (FEmit l e rest # fs)"
inductive_cases callback_cases: "activations (FCallback # fs)"

fun frame_ok :: "mon_system \<Rightarrow> frame \<Rightarrow> bool" where
  "frame_ok s (FEmit l e rest) \<longleftrightarrow> distinct rest \<and> (\<forall>x\<in>set rest. registered s x)"
| "frame_ok s (FInitial l saved new es owner) \<longleftrightarrow>
     set (ms_hooks s l) \<subseteq> {new} \<and> (registered s new \<longrightarrow> new \<in> set (ms_hooks s l)) \<and> new < ms_listeners s \<and> (\<forall>b. l = Deferred b \<longrightarrow> b < ms_batches s)"
| "frame_ok s f \<longleftrightarrow> True"

definition frames_ok :: "mon_system \<Rightarrow> bool" where
  "frames_ok s \<longleftrightarrow> activations (ms_stack s) \<and> (\<forall>f\<in>set (ms_stack s). frame_ok s f)"

definition lists_ok :: "mon_system \<Rightarrow> bool" where
  "lists_ok s \<longleftrightarrow> distinct (hooks_active s) \<and> (\<forall>b. distinct (ms_hooks s (Deferred b)))
     \<and> (\<forall>b. set (ms_hooks s (Deferred b)) \<inter> set (hooks_active s) = {})
     \<and> (\<forall>b b'. b \<noteq> b' \<longrightarrow> set (ms_hooks s (Deferred b)) \<inter> set (ms_hooks s (Deferred b')) = {})
     \<and> (\<forall>x. registered s x \<longrightarrow> x < ms_listeners s)"

definition queue_ok :: "mon_system \<Rightarrow> bool" where
  "queue_ok s \<longleftrightarrow> (let q = pn_queue (ms_pending s) in
     (pn_dispatching (ms_pending s) \<longleftrightarrow> ms_stack s \<noteq> []) \<and> (ms_stack s = [] \<longrightarrow> q = [])
     \<and> (\<forall>b. NActivateListeners b \<in> set q \<longrightarrow> b < ms_batches s)
     \<and> (\<forall>b. ms_hooks s (Deferred b) \<noteq> [] \<longrightarrow> NActivateListeners b \<in> set q))"

definition told_ok :: "mon_system \<Rightarrow> bool" where
  "told_ok s \<longleftrightarrow> (let q = pn_queue (ms_pending s); v = view_of (rt_catalog (ms_runtime s)) in
     groups_ok (rt_catalog (ms_runtime s))
     \<and> (\<forall>x. told (ms_seen s x) \<noteq> None) \<and> (\<forall>x. ms_listeners s \<le> x \<longrightarrow> ms_seen s x = [])
     \<and> (\<forall>x\<in>set (hooks_active s). told (ms_seen s x @ due x (ms_stack s) @ queue_objects q) = Some v)
     \<and> (\<forall>b. \<forall>x\<in>set (ms_hooks s (Deferred b)). told (ms_seen s x @ due x (ms_stack s) @ queue_after b q) = Some v))"

definition mon_ok :: "mon_system \<Rightarrow> bool" where
  "mon_ok s \<longleftrightarrow> frames_ok s \<and> lists_ok s \<and> queue_ok s \<and> told_ok s"

subsection \<open>Small facts\<close>

lemma told_append: "told (es @ fs) = (case told es of Some m \<Rightarrow> replay (concat (map changes_of fs)) m | None \<Rightarrow> None)"
  by (simp add: told_def replay_append)

lemma told_prefix: "told (es @ fs) \<noteq> None \<Longrightarrow> told es \<noteq> None"
  by (auto simp: told_append split: option.splits)

lemma told_extend:
  "told es = Some m \<Longrightarrow> replay (concat (map changes_of fs)) m = Some m' \<Longrightarrow> told (es @ fs) = Some m'"
  by (simp add: told_append)

lemma queue_objects_simps [simp]:
  "queue_objects [] = []" "queue_objects (NObject e # q) = EvObject e # queue_objects q"
  "queue_objects (NActivateListeners b # q) = queue_objects q" "queue_objects (q @ r) = queue_objects q @ queue_objects r"
  "queue_objects (map NObject es) = map EvObject es"
  by (simp_all add: queue_objects_def List.map_filter_def comp_def)

lemma queue_after_append:
  "queue_after b (q @ r) = (if NActivateListeners b \<in> set q then queue_after b q @ queue_objects r else queue_after b r)"
  by (induction b q rule: queue_after.induct) auto

lemma due_simps [simp]: "due x [] = []" "due x (f # fs) = frame_due x f @ due x fs"
  by (simp_all add: due_def)

lemma due_unknown:
  assumes "\<forall>f\<in>set fs. frame_ok s f" "\<not> registered s x" "ms_listeners s \<le> x"
  shows "due x fs = []"
  using assms(1)
proof (induction fs)
  case (Cons f fs)
  then show ?case using assms(2,3) by (cases f) auto
qed simp

lemma notifications_changes:
  "concat (map changes_of (map EvObject (catalog_notifications r))) = cr_changes r"
proof -
  have "concat (map changes_of (map EvObject (map (\<lambda>c. case c of CatAdded s \<Rightarrow> Added s | CatRemoved i \<Rightarrow> Removed i) cs))) = cs" for cs
    by (induction cs) (auto split: catalog_change.split)
  then show ?thesis by (simp only: catalog_notifications_def)
qed

lemma hotplug_view:
  assumes "on_hotplug_event snapshot sysctl rt = Some (ns, rt')" "groups_ok (rt_catalog rt)" "units_distinct snapshot"
  shows "groups_ok (rt_catalog rt') \<and>
    replay (concat (map changes_of (map EvObject ns))) (view_of (rt_catalog rt)) = Some (view_of (rt_catalog rt'))"
proof -
  have one: "groups_ok (snd r) \<and> replay (cr_changes (fst r)) (view_of (rt_catalog rt)) = Some (view_of (snd r))"
    if "r = rescan snapshot sysctl d (rt_catalog rt)" for d r
    using that scanned_ok[of snapshot sysctl] assms(3) unfolding rescan_def units_distinct_def
    by (intro rescan_with_view[OF assms(2), of "read_device_groups snapshot sysctl" d]) (auto split: option.splits)
  obtain m alive result catalog m' where m: "rt_hotplug rt = Some m"
    and r: "read_catalog_rescan (rescan snapshot sysctl) (rt_catalog rt) m = ((alive, result), catalog, m')"
    using assms(1) by (cases "rt_hotplug rt") (auto simp: on_hotplug_event_def split: prod.splits)
  have ns: "ns = (case result of Some r \<Rightarrow> catalog_notifications r | None \<Rightarrow> [])" and cat: "rt_catalog rt' = catalog"
    using assms(1) m r by (auto simp: on_hotplug_event_def Let_def)
  show ?thesis
  proof (cases result)
    case None
    then have "catalog = rt_catalog rt"
      using r by (auto simp: read_catalog_rescan_def Let_def split: prod.splits option.splits catalog_refresh.splits)
    then show ?thesis using assms(2) None ns cat by simp
  next
    case (Some r1)
    then have "\<exists>d. (r1, catalog) = rescan snapshot sysctl d (rt_catalog rt)"
      using r by (auto simp: read_catalog_rescan_def Let_def split: prod.splits option.splits catalog_refresh.splits) metis+
    then obtain d where "(r1, catalog) = rescan snapshot sysctl d (rt_catalog rt)" ..
    from one[OF this] show ?thesis by (simp add: ns Some cat notifications_changes del: map_map)
  qed
qed

lemma initial_view:
  assumes "groups_ok groups"
  shows "told (EvInfo # map (\<lambda>g. EvObject (Added g)) (snapshots groups)) = Some (view_of groups)"
proof -
  have c: "concat (map changes_of (map (\<lambda>g. EvObject (Added g)) gs)) = map CatAdded gs" for gs
    by (induction gs) auto
  have ne: "\<forall>g\<in>set groups. snd g \<noteq> []" using assms by (simp add: groups_ok_def)
  have "map gs_object_id (snapshots groups) = map first_unit groups"
    unfolding snapshots_announced[OF ne] using ne by (simp add: announced_id)
  then have "replay (map CatAdded (snapshots groups)) Map.empty
      = Some (Map.empty ++ map_of (map (\<lambda>s. (gs_object_id s, s)) (snapshots groups)))"
    using distinct_first_units[OF assms] by (intro replay_additions) simp_all
  then show ?thesis by (simp add: told_def c view_of_def del: map_map)
qed

end
