(* ===== verification/MonitorOrder.thy ===== *)
theory MonitorOrder
  imports Monitor
begin

text \<open>
  Every listener of the device monitor is told the changes of the catalog in order and exactly once, however
  callbacks re-enter the monitor: the invariant of \<open>Monitor\<close> is kept by every action, and dispatching ends.
\<close>

lemmas mon_ok_defs = mon_ok_def frames_ok_def lists_ok_def queue_ok_def told_ok_def Let_def

lemma mon_ok_frames:
  assumes "mon_ok s"
  shows "activations (ms_stack s)" "f \<in> set (ms_stack s) \<Longrightarrow> frame_ok s f"
  using assms by (simp_all add: mon_ok_def frames_ok_def)

lemma mon_ok_lists:
  assumes "mon_ok s"
  shows "distinct (hooks_active s)" "distinct (ms_hooks s (Deferred b))"
    "set (ms_hooks s (Deferred b)) \<inter> set (hooks_active s) = {}"
    "b \<noteq> b' \<Longrightarrow> set (ms_hooks s (Deferred b)) \<inter> set (ms_hooks s (Deferred b')) = {}"
    "registered s x \<Longrightarrow> x < ms_listeners s"
  using assms unfolding mon_ok_def lists_ok_def by blast+

lemma mon_ok_queue:
  assumes "mon_ok s"
  shows "pn_dispatching (ms_pending s) \<longleftrightarrow> ms_stack s \<noteq> []" "ms_stack s = [] \<Longrightarrow> pn_queue (ms_pending s) = []"
    "NActivateListeners b \<in> set (pn_queue (ms_pending s)) \<Longrightarrow> b < ms_batches s"
    "ms_hooks s (Deferred b) \<noteq> [] \<Longrightarrow> NActivateListeners b \<in> set (pn_queue (ms_pending s))"
  using assms unfolding mon_ok_def queue_ok_def Let_def by blast+

lemma mon_ok_told:
  assumes "mon_ok s"
  shows "groups_ok (rt_catalog (ms_runtime s))" "told (ms_seen s x) \<noteq> None" "ms_listeners s \<le> x \<Longrightarrow> ms_seen s x = []"
    "x \<in> set (hooks_active s) \<Longrightarrow> told (ms_seen s x @ due x (ms_stack s) @ queue_objects (pn_queue (ms_pending s)))
       = Some (view_of (rt_catalog (ms_runtime s)))"
    "x \<in> set (ms_hooks s (Deferred b)) \<Longrightarrow> told (ms_seen s x @ due x (ms_stack s) @ queue_after b (pn_queue (ms_pending s)))
       = Some (view_of (rt_catalog (ms_runtime s)))"
  using assms unfolding mon_ok_def told_ok_def Let_def by blast+

lemma mon_ok_batches:
  assumes "mon_ok s" "ms_batches s \<le> b"
  shows "ms_hooks s (Deferred b) = []"
  using mon_ok_queue(3,4)[OF assms(1), of b] assms(2) by (meson leD)

lemma mon_okI:
  assumes "activations (ms_stack s)" "\<And>f. f \<in> set (ms_stack s) \<Longrightarrow> frame_ok s f"
    and "distinct (hooks_active s)" "\<And>b. distinct (ms_hooks s (Deferred b))"
    "\<And>b. set (ms_hooks s (Deferred b)) \<inter> set (hooks_active s) = {}"
    "\<And>b b'. b \<noteq> b' \<Longrightarrow> set (ms_hooks s (Deferred b)) \<inter> set (ms_hooks s (Deferred b')) = {}"
    "\<And>x. registered s x \<Longrightarrow> x < ms_listeners s"
    and "pn_dispatching (ms_pending s) \<longleftrightarrow> ms_stack s \<noteq> []" "ms_stack s = [] \<Longrightarrow> pn_queue (ms_pending s) = []"
    "\<And>b. NActivateListeners b \<in> set (pn_queue (ms_pending s)) \<Longrightarrow> b < ms_batches s"
    "\<And>b. ms_hooks s (Deferred b) \<noteq> [] \<Longrightarrow> NActivateListeners b \<in> set (pn_queue (ms_pending s))"
    and "groups_ok (rt_catalog (ms_runtime s))" "\<And>x. told (ms_seen s x) \<noteq> None" "\<And>x. ms_listeners s \<le> x \<Longrightarrow> ms_seen s x = []"
    "\<And>x. x \<in> set (hooks_active s) \<Longrightarrow> told (ms_seen s x @ due x (ms_stack s) @ queue_objects (pn_queue (ms_pending s)))
       = Some (view_of (rt_catalog (ms_runtime s)))"
    "\<And>b x. x \<in> set (ms_hooks s (Deferred b)) \<Longrightarrow> told (ms_seen s x @ due x (ms_stack s) @ queue_after b (pn_queue (ms_pending s)))
       = Some (view_of (rt_catalog (ms_runtime s)))"
  shows "mon_ok s"
  using assms unfolding mon_ok_def frames_ok_def lists_ok_def queue_ok_def told_ok_def Let_def by blast

subsection \<open>Frames\<close>

lemma activations_tail: "activations (f # fs) \<Longrightarrow> activations fs"
  by (erule activations.cases) (auto intro: activations.intros)

lemma activations_drop: "activations fs \<Longrightarrow> activations (map (drop_hook x) fs)"
  by (induction rule: activations.induct) (auto intro: activations.intros)

lemma activations_rest: "activations (FEmit l e rest # fs) \<Longrightarrow> activations (FEmit l e rest' # fs)"
  by (erule emit_cases) (auto intro: activations.intros)

lemma activations_events: "activations (FInitial l saved new es owner # fs) \<Longrightarrow> activations (FInitial l saved new es' owner # fs)"
  by (erule initial_cases) (auto intro: activations.intros)

lemma due_drop:
  assumes "x \<noteq> y"
  shows "due x (map (drop_hook y) fs) = due x fs"
proof (induction fs)
  case (Cons f fs)
  then show ?case using assms by (cases f) auto
qed simp

lemma saved_drop: "concat (map saved_of (map (drop_hook x) fs)) = filter (\<lambda>y. y \<noteq> x) (concat (map saved_of fs))"
proof (induction fs)
  case (Cons f fs)
  then show ?case by (cases f) auto
qed simp

lemma frame_ok_mono:
  assumes "frame_ok s f" "\<And>x. registered s' x = registered s x" "\<And>l. ms_hooks s' l = ms_hooks s l"
    "ms_listeners s \<le> ms_listeners s'" "ms_batches s \<le> ms_batches s'"
  shows "frame_ok s' f"
  using assms by (cases f) (auto intro: less_le_trans)

section \<open>Adding a listener\<close>

lemma host_turn_cases:
  assumes "mon_ok s" "host_turn s"
  obtains "ms_stack s = []" "ms_pending s = \<lparr>pn_queue = [], pn_dispatching = False\<rparr>"
  | fs where "ms_stack s = FCallback # fs" "pn_dispatching (ms_pending s)"
proof (cases "ms_stack s")
  case Nil
  then have "ms_pending s = \<lparr>pn_queue = [], pn_dispatching = False\<rparr>"
    using mon_ok_queue(1,2)[OF assms(1)] by simp
  then show thesis using that(1) Nil by blast
next
  case (Cons f fs)
  then have "f = FCallback" "pn_dispatching (ms_pending s)" using assms(2) mon_ok_queue(1)[OF assms(1)] by (auto simp: host_turn_def)
  then show thesis using that(2) Cons by blast
qed

lemma add_idle_ok:
  assumes ok: "mon_ok s" and st: "ms_stack s = []" and p: "ms_pending s = \<lparr>pn_queue = [], pn_dispatching = False\<rparr>"
  shows "mon_ok (add_listener s)"
proof -
  define n where "n = ms_listeners s"
  define evs where "evs = EvInfo # map (\<lambda>g. EvObject (Added g)) (snapshots (rt_catalog (ms_runtime s)))"
  have eq: "add_listener s = s\<lparr>ms_hooks := (ms_hooks s)(Active := [n]), ms_pending := \<lparr>pn_queue = [], pn_dispatching = True\<rparr>,
      ms_listeners := n + 1, ms_stack := [FInitial Active (ms_hooks s Active) n evs True]\<rparr>"
    by (simp add: add_listener_defs p st defer_when_busy_def begin_dispatch_def n_def evs_def)
  have fresh: "\<not> registered s n" using mon_ok_lists(5)[OF ok] by (auto simp: n_def)
  then have no: "n \<notin> set (ms_hooks s Active)" "n \<notin> set (ms_hooks s (Deferred b))" for b
    by (auto simp: registered_def)
  have none: "ms_hooks s (Deferred b) = []" for b using mon_ok_queue(4)[OF ok, of b] p by auto
  have seen: "ms_seen s n = []" using mon_ok_told(3)[OF ok] by (simp add: n_def)
  have reg: "registered (add_listener s) x \<longleftrightarrow> x = n \<or> registered s x" for x by (auto simp: eq registered_def st)
  have told_new: "told evs = Some (view_of (rt_catalog (ms_runtime s)))"
    unfolding evs_def by (rule initial_view[OF mon_ok_told(1)[OF ok]])
  have told_old: "told (ms_seen s x) = Some (view_of (rt_catalog (ms_runtime s)))" if "x \<in> set (ms_hooks s Active)" for x
    using mon_ok_told(4)[OF ok, of x] that by (simp add: st p)
  show ?thesis
  proof (rule mon_okI)
    show "told (ms_seen (add_listener s) x @ due x (ms_stack (add_listener s)) @ queue_objects (pn_queue (ms_pending (add_listener s))))
        = Some (view_of (rt_catalog (ms_runtime (add_listener s))))" if "x \<in> set (hooks_active (add_listener s))" for x
      using that no(1) told_new told_old[of x] by (auto simp: eq seen)
    show "registered (add_listener s) x \<Longrightarrow> x < ms_listeners (add_listener s)" for x
      using reg mon_ok_lists(5)[OF ok] by (auto simp: eq n_def intro: less_SucI)
    show "ms_listeners (add_listener s) \<le> x \<Longrightarrow> ms_seen (add_listener s) x = []" for x
      using mon_ok_told(3)[OF ok, of x] by (simp add: eq n_def)
  qed (use mon_ok_lists[OF ok] mon_ok_told[OF ok] no in \<open>auto simp: eq none st n_def intro: activations.intros\<close>)
qed

lemma add_busy_ok:
  assumes ok: "mon_ok s" and st: "ms_stack s = FCallback # fs" and p: "pn_dispatching (ms_pending s)"
  shows "mon_ok (add_listener s)"
proof -
  define n where "n = ms_listeners s"
  define b where "b = ms_batches s"
  define q where "q = pn_queue (ms_pending s)"
  define evs where "evs = EvInfo # map (\<lambda>g. EvObject (Added g)) (snapshots (rt_catalog (ms_runtime s)))"
  have empty: "ms_hooks s (Deferred b) = []" using mon_ok_batches[OF ok] by (simp add: b_def)
  have eq: "add_listener s = s\<lparr>ms_hooks := (ms_hooks s)(Deferred b := [n]),
      ms_pending := (ms_pending s)\<lparr>pn_queue := q @ [NActivateListeners b]\<rparr>, ms_listeners := n + 1, ms_batches := b + 1,
      ms_stack := FInitial (Deferred b) [] n evs False # ms_stack s\<rparr>"
    using p by (simp add: add_listener_defs defer_when_busy_def begin_dispatch_def n_def evs_def b_def q_def empty[unfolded b_def])
  have fresh: "\<not> registered s n" using mon_ok_lists(5)[OF ok] by (auto simp: n_def)
  have ha: "hooks_active (add_listener s) = hooks_active s" by (simp add: eq)
  have no: "n \<notin> set (hooks_active s)" "n \<notin> set (ms_hooks s (Deferred b'))" for b'
    using fresh unfolding registered_def by blast+
  have seen: "ms_seen s n = []" using mon_ok_told(3)[OF ok] by (simp add: n_def)
  have due_new: "due n (ms_stack s) = []"
    using due_unknown[of "ms_stack s" s n] mon_ok_frames(2)[OF ok] fresh by (simp add: n_def)
  have reg: "registered (add_listener s) x \<longleftrightarrow> x = n \<or> registered s x" for x
    unfolding registered_def ha using empty by (auto simp: eq) (metis empty_iff list.set(1))
  have told_new: "told evs = Some (view_of (rt_catalog (ms_runtime s)))"
    unfolding evs_def by (rule initial_view[OF mon_ok_told(1)[OF ok]])
  have later: "b' < b" if "NActivateListeners b' \<in> set q" for b' using mon_ok_queue(3)[OF ok] that by (simp add: b_def q_def)
  have sub: "frame_ok (add_listener s) f" if "f \<in> set (ms_stack s)" for f
  proof (cases f)
    case (FEmit l e rest)
    then show ?thesis using mon_ok_frames(2)[OF ok that] reg by simp
  next
    case (FInitial l saved new es owner)
    then have f: "set (ms_hooks s l) \<subseteq> {new}" "registered s new \<longrightarrow> new \<in> set (ms_hooks s l)" "new < n" "\<forall>b'. l = Deferred b' \<longrightarrow> b' < b"
      using mon_ok_frames(2)[OF ok that] by (simp_all add: n_def b_def)
    then have "ms_hooks (add_listener s) l = ms_hooks s l" by (auto simp: eq)
    then show ?thesis using f FInitial reg[of new] by (auto simp: eq)
  qed simp_all
  show ?thesis
  proof (rule mon_okI)
    show "activations (ms_stack (add_listener s))" using mon_ok_frames(1)[OF ok] by (auto simp: eq st intro: activations.intros)
    show "frame_ok (add_listener s) f" if "f \<in> set (ms_stack (add_listener s))" for f
      using that sub[of f] by (auto simp: eq)
    show "told (ms_seen (add_listener s) x @ due x (ms_stack (add_listener s)) @ queue_objects (pn_queue (ms_pending (add_listener s))))
        = Some (view_of (rt_catalog (ms_runtime (add_listener s))))" if "x \<in> set (hooks_active (add_listener s))" for x
      using that no(1) mon_ok_told(4)[OF ok, of x] unfolding ha by (auto simp: eq q_def)
    show "told (ms_seen (add_listener s) x @ due x (ms_stack (add_listener s)) @ queue_after b' (pn_queue (ms_pending (add_listener s))))
        = Some (view_of (rt_catalog (ms_runtime (add_listener s))))" if "x \<in> set (ms_hooks (add_listener s) (Deferred b'))" for x b'
    proof (cases "b' = b")
      case True
      then have "x = n" using that by (simp add: eq)
      moreover have "queue_after b (q @ [NActivateListeners b]) = []" using later[of b] by (auto simp: queue_after_append)
      ultimately show ?thesis using True told_new by (simp add: eq seen due_new)
    next
      case False
      then have x: "x \<in> set (ms_hooks s (Deferred b'))" using that by (simp add: eq)
      then have "ms_hooks s (Deferred b') \<noteq> []" by auto
      then have "NActivateListeners b' \<in> set q" using mon_ok_queue(4)[OF ok] by (simp add: q_def)
      then have "queue_after b' (q @ [NActivateListeners b]) = queue_after b' q" by (simp add: queue_after_append)
      moreover have "x \<noteq> n" using x no(2) by blast
      ultimately show ?thesis using mon_ok_told(5)[OF ok x] by (simp add: eq q_def)
    qed
    show "registered (add_listener s) x \<Longrightarrow> x < ms_listeners (add_listener s)" for x
      using reg mon_ok_lists(5)[OF ok] by (auto simp: eq n_def intro: less_SucI)
    show "ms_listeners (add_listener s) \<le> x \<Longrightarrow> ms_seen (add_listener s) x = []" for x
      using mon_ok_told(3)[OF ok, of x] by (simp add: eq n_def)
    show "NActivateListeners b' \<in> set (pn_queue (ms_pending (add_listener s))) \<Longrightarrow> b' < ms_batches (add_listener s)" for b'
      using later[of b'] by (auto simp: eq intro: less_SucI)
    show "distinct (hooks_active (add_listener s))" unfolding ha by (rule mon_ok_lists(1)[OF ok])
    show "set (ms_hooks (add_listener s) (Deferred b')) \<inter> set (hooks_active (add_listener s)) = {}" for b'
      unfolding ha using mon_ok_lists(3)[OF ok, of b'] no(1) by (auto simp: eq)
    show "b1 \<noteq> b2 \<Longrightarrow> set (ms_hooks (add_listener s) (Deferred b1)) \<inter> set (ms_hooks (add_listener s) (Deferred b2)) = {}" for b1 b2
      using mon_ok_lists(4)[OF ok, of b1 b2] no(2) by (auto simp: eq)
    show "ms_hooks (add_listener s) (Deferred b') \<noteq> [] \<Longrightarrow> NActivateListeners b' \<in> set (pn_queue (ms_pending (add_listener s)))" for b'
      using mon_ok_queue(4)[OF ok, of b'] by (cases "b' = b") (auto simp: eq q_def)
  qed (use mon_ok_lists(2)[OF ok] mon_ok_told(1,2)[OF ok] mon_ok_queue(1)[OF ok] p in \<open>auto simp: eq\<close>)
qed

lemma add_ok: "mon_ok s \<Longrightarrow> host_turn s \<Longrightarrow> mon_ok (add_listener s)"
  using host_turn_cases add_idle_ok add_busy_ok by metis

section \<open>Removing a listener, hotplug events, returning\<close>

lemma remove_ok:
  assumes ok: "mon_ok s"
  shows "mon_ok (remove_listener y s)"
proof -
  let ?s = "remove_listener y s"
  have ha: "hooks_active ?s = filter (\<lambda>x. x \<noteq> y) (hooks_active s)"
    by (simp add: remove_listener_def saved_drop del: map_map)
  have set_ha: "set (hooks_active ?s) = set (hooks_active s) - {y}" unfolding ha by (simp only: set_filter) blast
  have h: "ms_hooks ?s l = filter (\<lambda>x. x \<noteq> y) (ms_hooks s l)" for l by (simp add: remove_listener_def)
  have rest: "ms_pending ?s = ms_pending s" "ms_runtime ?s = ms_runtime s" "ms_seen ?s = ms_seen s"
    "ms_listeners ?s = ms_listeners s" "ms_batches ?s = ms_batches s" "ms_stack ?s = map (drop_hook y) (ms_stack s)"
    by (simp_all add: remove_listener_def)
  have reg: "registered ?s x \<longleftrightarrow> x \<noteq> y \<and> registered s x" for x
    unfolding registered_def set_ha unfolding h by auto
  have fr: "frame_ok ?s (drop_hook y f)" if "frame_ok s f" for f
    using that by (cases f) (auto simp: reg rest h)
  show ?thesis
  proof (rule mon_okI)
    show "activations (ms_stack ?s)" unfolding rest by (rule activations_drop[OF mon_ok_frames(1)[OF ok]])
    show "f \<in> set (ms_stack ?s) \<Longrightarrow> frame_ok ?s f" for f using fr mon_ok_frames(2)[OF ok] by (auto simp: rest)
    show "ms_hooks ?s (Deferred b) \<noteq> [] \<Longrightarrow> NActivateListeners b \<in> set (pn_queue (ms_pending ?s))" for b
      using mon_ok_queue(4)[OF ok, of b] by (cases "ms_hooks s (Deferred b)") (auto simp: h rest)
    show "b \<noteq> b' \<Longrightarrow> set (ms_hooks ?s (Deferred b)) \<inter> set (ms_hooks ?s (Deferred b')) = {}" for b b'
      using mon_ok_lists(4)[OF ok, of b b'] by (auto simp: h)
    show "set (ms_hooks ?s (Deferred b)) \<inter> set (hooks_active ?s) = {}" for b
      unfolding set_ha unfolding h using mon_ok_lists(3)[OF ok, of b] by auto
    show "told (ms_seen ?s x @ due x (ms_stack ?s) @ queue_objects (pn_queue (ms_pending ?s))) = Some (view_of (rt_catalog (ms_runtime ?s)))"
      if "x \<in> set (hooks_active ?s)" for x
    proof -
      have "x \<noteq> y" "x \<in> set (hooks_active s)" using that unfolding set_ha by blast+
      then show ?thesis using mon_ok_told(4)[OF ok, of x] unfolding rest by (simp add: due_drop)
    qed
    show "told (ms_seen ?s x @ due x (ms_stack ?s) @ queue_after b (pn_queue (ms_pending ?s))) = Some (view_of (rt_catalog (ms_runtime ?s)))"
      if "x \<in> set (ms_hooks ?s (Deferred b))" for b x
      using that mon_ok_told(5)[OF ok, of x b] unfolding h rest by (simp add: due_drop)
    show "distinct (hooks_active ?s)" unfolding ha using mon_ok_lists(1)[OF ok] by (rule distinct_filter)
    show "registered ?s x \<Longrightarrow> x < ms_listeners ?s" for x unfolding reg using mon_ok_lists(5)[OF ok] by (simp add: rest)
  qed (use mon_ok_lists(2,4)[OF ok] mon_ok_queue[OF ok] mon_ok_told(1-3)[OF ok] in \<open>auto simp: rest h\<close>)
qed

lemma hotplug_ok_step:
  assumes ok: "mon_ok s" and turn: "host_turn s" and u: "units_distinct snapshot"
  shows "mon_ok (hotplug snapshot sysctl s)"
proof (cases "on_hotplug_event snapshot sysctl (ms_runtime s)")
  case None
  then show ?thesis using ok by (simp add: hotplug_def)
next
  case (Some r)
  obtain ns rt where r: "r = (ns, rt)" by (cases r)
  define q where "q = pn_queue (ms_pending s)"
  let ?s = "hotplug snapshot sysctl s"
  have v: "groups_ok (rt_catalog rt)" "replay (concat (map changes_of (map EvObject ns))) (view_of (rt_catalog (ms_runtime s)))
      = Some (view_of (rt_catalog rt))"
    using hotplug_view[OF _ mon_ok_told(1)[OF ok] u] Some r by blast+
  have eq: "?s = s\<lparr>ms_runtime := rt, ms_pending := \<lparr>pn_queue = q @ map NObject ns, pn_dispatching = True\<rparr>,
      ms_stack := (if ms_stack s = [] then [FDrain] else ms_stack s)\<rparr>"
    using mon_ok_queue(1)[OF ok]
    by (cases "ms_pending s") (auto simp: hotplug_def Some r Let_def begin_dispatch_def enqueue_all_def q_def)
  have ha: "hooks_active ?s = hooks_active s" by (simp add: eq)
  have reg: "registered ?s x = registered s x" for x unfolding registered_def ha by (simp add: eq)
  have due: "due x (ms_stack ?s) = due x (ms_stack s)" for x by (simp add: eq)
  show ?thesis
  proof (rule mon_okI)
    show "activations (ms_stack ?s)" using mon_ok_frames(1)[OF ok] by (simp add: eq activations.drain)
    show "frame_ok ?s f" if "f \<in> set (ms_stack ?s)" for f
    proof (cases "f = FDrain")
      case False
      then have "f \<in> set (ms_stack s)" using that by (auto simp: eq split: if_splits)
      from frame_ok_mono[OF mon_ok_frames(2)[OF ok this], of ?s] show ?thesis by (simp add: reg) (simp add: eq)
    qed simp
    show "told (ms_seen ?s x @ due x (ms_stack ?s) @ queue_objects (pn_queue (ms_pending ?s))) = Some (view_of (rt_catalog (ms_runtime ?s)))"
      if "x \<in> set (hooks_active ?s)" for x
      using told_extend[OF mon_ok_told(4)[OF ok, of x] v(2)] that unfolding ha due by (simp add: eq q_def)
    show "told (ms_seen ?s x @ due x (ms_stack ?s) @ queue_after b (pn_queue (ms_pending ?s))) = Some (view_of (rt_catalog (ms_runtime ?s)))"
      if "x \<in> set (ms_hooks ?s (Deferred b))" for b x
    proof -
      have x: "x \<in> set (ms_hooks s (Deferred b))" using that by (simp add: eq)
      then have "ms_hooks s (Deferred b) \<noteq> []" by auto
      then have "NActivateListeners b \<in> set q" using mon_ok_queue(4)[OF ok] by (simp add: q_def)
      then show ?thesis using told_extend[OF mon_ok_told(5)[OF ok x] v(2)] unfolding due
        by (simp add: eq queue_after_append q_def)
    qed
    show "distinct (hooks_active ?s)" unfolding ha by (rule mon_ok_lists(1)[OF ok])
    show "set (ms_hooks ?s (Deferred b)) \<inter> set (hooks_active ?s) = {}" for b
      unfolding ha using mon_ok_lists(3)[OF ok, of b] by (simp add: eq)
    show "registered ?s x \<Longrightarrow> x < ms_listeners ?s" for x unfolding reg using mon_ok_lists(5)[OF ok] by (simp add: eq)
  qed (use mon_ok_lists(2,4)[OF ok] mon_ok_queue[OF ok] mon_ok_told(2,3)[OF ok] v(1) in \<open>auto simp: eq q_def\<close>)
qed

text \<open>Steps that only touch the stack, the events seen and what is due.\<close>

lemma mon_ok_stack:
  assumes ok: "mon_ok s" and s': "s' = s\<lparr>ms_stack := st, ms_seen := seen\<rparr>"
    and act: "activations st" "\<And>f. f \<in> set st \<Longrightarrow> frame_ok s f"
    and saved: "concat (map saved_of st) = concat (map saved_of (ms_stack s))" and ne: "st \<noteq> []" "ms_stack s \<noteq> []"
    and due: "\<And>x. registered s x \<Longrightarrow> seen x @ due x st = ms_seen s x @ due x (ms_stack s)"
    and told: "\<And>x. told (seen x) \<noteq> None" "\<And>x. ms_listeners s \<le> x \<Longrightarrow> seen x = []"
  shows "mon_ok s'"
proof -
  have ha: "hooks_active s' = hooks_active s" by (simp add: s' saved)
  have reg: "registered s' x = registered s x" for x unfolding registered_def ha by (simp add: s')
  have r1: "registered s x" if "x \<in> set (hooks_active s)" for x using that unfolding registered_def by blast
  have r2: "registered s x" if "x \<in> set (ms_hooks s (Deferred b))" for x b using that unfolding registered_def by blast
  show ?thesis
  proof (rule mon_okI)
    show "frame_ok s' f" if "f \<in> set (ms_stack s')" for f
      using frame_ok_mono[OF act(2)[of f], of s'] that by (simp add: reg) (simp add: s')
    show "told (ms_seen s' x @ due x (ms_stack s') @ queue_objects (pn_queue (ms_pending s'))) = Some (view_of (rt_catalog (ms_runtime s')))"
      if "x \<in> set (hooks_active s')" for x
      using mon_ok_told(4)[OF ok, of x] due[OF r1, of x] that unfolding ha by (simp add: s' flip: append_assoc)
    show "told (ms_seen s' x @ due x (ms_stack s') @ queue_after b (pn_queue (ms_pending s'))) = Some (view_of (rt_catalog (ms_runtime s')))"
      if "x \<in> set (ms_hooks s' (Deferred b))" for b x
      using mon_ok_told(5)[OF ok, of x b] due[OF r2, of x b] that by (simp add: s' flip: append_assoc)
    show "distinct (hooks_active s')" unfolding ha by (rule mon_ok_lists(1)[OF ok])
    show "set (ms_hooks s' (Deferred b)) \<inter> set (hooks_active s') = {}" for b
      unfolding ha using mon_ok_lists(3)[OF ok, of b] by (simp add: s')
    show "registered s' x \<Longrightarrow> x < ms_listeners s'" for x unfolding reg using mon_ok_lists(5)[OF ok] by (simp add: s')
  qed (use mon_ok_lists(2,4)[OF ok] mon_ok_queue[OF ok] mon_ok_told(1)[OF ok] act(1) ne told in \<open>auto simp: s'\<close>)
qed

lemma return_ok:
  assumes ok: "mon_ok s" and st: "ms_stack s = FCallback # fs"
  shows "mon_ok (s\<lparr>ms_stack := fs\<rparr>)"
proof (rule mon_ok_stack[OF ok, where st = fs and seen = "ms_seen s"])
  have act: "activations (FCallback # fs)" using mon_ok_frames(1)[OF ok] by (simp add: st)
  then show "activations fs" by (rule activations_tail)
  show "fs \<noteq> []" using act by (auto elim: callback_cases)
qed (use mon_ok_frames[OF ok] mon_ok_told[OF ok] in \<open>auto simp: st\<close>)

section \<open>Going on\<close>

lemma advance_emit_ok:
  assumes ok: "mon_ok s" and st: "ms_stack s = FEmit l e (y # rest) # fs"
  shows "mon_ok (s\<lparr>ms_seen := (ms_seen s)(y := ms_seen s y @ [e]), ms_stack := FCallback # FEmit l e rest # fs\<rparr>)"
proof -
  have fr: "distinct (y # rest)" "\<forall>x\<in>set (y # rest). registered s x"
    using mon_ok_frames(2)[OF ok, of "FEmit l e (y # rest)"] by (simp_all add: st)
  have reg: "y < ms_listeners s" using fr(2) mon_ok_lists(5)[OF ok] by simp
  have "told ((ms_seen s y @ [e]) @ r) \<noteq> None" if "told (ms_seen s y @ due y (ms_stack s) @ r') = Some v" "r = due y fs @ r'" for r r' v
    using that by (simp add: st)
  then have one: "told (ms_seen s y @ [e]) \<noteq> None"
    using fr(2) mon_ok_told(4,5)[OF ok, of y] told_prefix unfolding registered_def by (metis list.set_intros(1))
  show ?thesis
  proof (rule mon_ok_stack[OF ok, where st = "FCallback # FEmit l e rest # fs" and seen = "(ms_seen s)(y := ms_seen s y @ [e])"])
    have "activations (FEmit l e (y # rest) # fs)" using mon_ok_frames(1)[OF ok] by (simp add: st)
    from activations_rest[OF this] show "activations (FCallback # FEmit l e rest # fs)" by (rule activations.callback)
    show "((ms_seen s)(y := ms_seen s y @ [e])) x @ due x (FCallback # FEmit l e rest # fs) = ms_seen s x @ due x (ms_stack s)" for x
      using fr(1) by (simp add: st)
    show "told (((ms_seen s)(y := ms_seen s y @ [e])) x) \<noteq> None" for x using one mon_ok_told(2)[OF ok, of x] by simp
    show "ms_listeners s \<le> x \<Longrightarrow> ((ms_seen s)(y := ms_seen s y @ [e])) x = []" for x
      using reg mon_ok_told(3)[OF ok, of x] by auto
    show "f \<in> set (FCallback # FEmit l e rest # fs) \<Longrightarrow> frame_ok s f" for f
      using fr mon_ok_frames(2)[OF ok, of f] by (auto simp: st)
  qed (simp_all add: st)
qed

lemma advance_emitted_ok:
  assumes ok: "mon_ok s" and st: "ms_stack s = FEmit l e [] # fs"
  shows "mon_ok (s\<lparr>ms_stack := fs\<rparr>)"
proof (rule mon_ok_stack[OF ok, where st = fs and seen = "ms_seen s"])
  have act: "activations (FEmit l e [] # fs)" using mon_ok_frames(1)[OF ok] by (simp add: st)
  then show "activations fs" by (rule activations_tail)
  show "fs \<noteq> []" using act by (auto elim: emit_cases)
qed (use mon_ok_frames(2)[OF ok] mon_ok_told(2,3)[OF ok] in \<open>auto simp: st\<close>)

lemma advance_initial_ok:
  assumes ok: "mon_ok s" and st: "ms_stack s = FInitial l saved new (e # es) owner # fs"
  shows "mon_ok (s\<lparr>ms_stack := FEmit l e (ms_hooks s l) # FInitial l saved new es owner # fs\<rparr>)"
proof -
  have fr: "set (ms_hooks s l) \<subseteq> {new}" "registered s new \<longrightarrow> new \<in> set (ms_hooks s l)"
    "new < ms_listeners s" "\<forall>b. l = Deferred b \<longrightarrow> b < ms_batches s"
    using mon_ok_frames(2)[OF ok, of "FInitial l saved new (e # es) owner"] by (simp_all add: st)
  have d: "distinct (ms_hooks s l)" using mon_ok_lists(1,2)[OF ok] by (cases l) auto
  have r: "\<forall>x\<in>set (ms_hooks s l). registered s x" unfolding registered_def by (cases l) auto
  show ?thesis
  proof (rule mon_ok_stack[OF ok, where st = "FEmit l e (ms_hooks s l) # FInitial l saved new es owner # fs" and seen = "ms_seen s"])
    have "activations (FInitial l saved new (e # es) owner # fs)" using mon_ok_frames(1)[OF ok] by (simp add: st)
    from activations_events[OF this] show "activations (FEmit l e (ms_hooks s l) # FInitial l saved new es owner # fs)"
      by (rule activations.walk_initial)
    show "registered s x \<Longrightarrow> ms_seen s x @ due x (FEmit l e (ms_hooks s l) # FInitial l saved new es owner # fs)
        = ms_seen s x @ due x (ms_stack s)" for x
      using fr(1,2) by (auto simp: st)
    show "f \<in> set (FEmit l e (ms_hooks s l) # FInitial l saved new es owner # fs) \<Longrightarrow> frame_ok s f" for f
      using fr d r mon_ok_frames(2)[OF ok, of f] by (auto simp: st)
  qed (use mon_ok_told(2,3)[OF ok] in \<open>simp_all add: st\<close>)
qed

lemma advance_join_ok:
  assumes ok: "mon_ok s" and st: "ms_stack s = FInitial l saved new [] owner # fs"
  shows "mon_ok (s\<lparr>ms_hooks := (ms_hooks s)(l := saved @ ms_hooks s l), ms_stack := (if owner then [FDrain] else []) @ fs\<rparr>)"
proof -
  have act: "activations (FInitial l saved new [] owner # fs)" using mon_ok_frames(1)[OF ok] by (simp add: st)
  then show ?thesis
  proof (rule initial_cases)
    assume c: "l = Active" "owner" "fs = []"
    let ?s = "s\<lparr>ms_hooks := (ms_hooks s)(l := saved @ ms_hooks s l), ms_stack := (if owner then [FDrain] else []) @ fs\<rparr>"
    have ha: "hooks_active ?s = hooks_active s" by (simp add: st c)
    have reg: "registered ?s x = registered s x" for x unfolding registered_def ha by (simp add: c)
    show ?thesis
    proof (rule mon_okI)
      show "told (ms_seen ?s x @ due x (ms_stack ?s) @ queue_objects (pn_queue (ms_pending ?s))) = Some (view_of (rt_catalog (ms_runtime ?s)))"
        if "x \<in> set (hooks_active ?s)" for x
        using that mon_ok_told(4)[OF ok, of x] unfolding ha by (simp add: st c)
      show "told (ms_seen ?s x @ due x (ms_stack ?s) @ queue_after b (pn_queue (ms_pending ?s))) = Some (view_of (rt_catalog (ms_runtime ?s)))"
        if "x \<in> set (ms_hooks ?s (Deferred b))" for b x
        using that mon_ok_told(5)[OF ok, of x b] by (simp add: st c)
      show "distinct (hooks_active ?s)" unfolding ha by (rule mon_ok_lists(1)[OF ok])
      show "set (ms_hooks ?s (Deferred b)) \<inter> set (hooks_active ?s) = {}" for b
        unfolding ha using mon_ok_lists(3)[OF ok, of b] by (simp add: c)
      show "registered ?s x \<Longrightarrow> x < ms_listeners ?s" for x unfolding reg using mon_ok_lists(5)[OF ok] by simp
      show "activations (ms_stack ?s)" by (simp add: c activations.drain)
    qed (use mon_ok_lists(2,4)[OF ok] mon_ok_queue[OF ok] mon_ok_told(1-3)[OF ok] in \<open>auto simp: st c\<close>)
  next
    fix gs b
    assume c: "activations (FCallback # gs)" "l = Deferred b" "saved = []" "\<not> owner" "fs = FCallback # gs"
    have "mon_ok (s\<lparr>ms_stack := fs\<rparr>)"
      by (rule mon_ok_stack[OF ok, where st = fs and seen = "ms_seen s"])
        (use mon_ok_frames(2)[OF ok] mon_ok_told(2,3)[OF ok] c in \<open>auto simp: st\<close>)
    then show ?thesis using c by simp
  qed
qed

subsection \<open>Draining\<close>

lemma drain_alone: "mon_ok s \<Longrightarrow> ms_stack s = FDrain # fs \<Longrightarrow> fs = []"
  using mon_ok_frames(1)[of s] by (auto elim: drain_cases)

lemma drain_done_ok:
  assumes ok: "mon_ok s" and st: "ms_stack s = [FDrain]" and q: "pn_queue (ms_pending s) = []"
  shows "mon_ok (s\<lparr>ms_pending := dispatch_guard_drop (ms_pending s), ms_stack := []\<rparr>)"
proof -
  have none: "ms_hooks s (Deferred b) = []" for b using mon_ok_queue(4)[OF ok, of b] q by auto
  have reg: "registered (s\<lparr>ms_pending := p, ms_stack := []\<rparr>) x = registered s x" for x p
    unfolding registered_def by (simp add: st)
  show ?thesis
    by (rule mon_okI) (use mon_ok_lists[OF ok] mon_ok_told[OF ok] reg in
      \<open>auto simp: st q none dispatch_guard_drop_def intro: activations.intros\<close>)
qed

lemma drain_object_ok:
  assumes ok: "mon_ok s" and st: "ms_stack s = [FDrain]" and q: "pn_queue (ms_pending s) = NObject ev # q"
  shows "mon_ok (s\<lparr>ms_pending := (ms_pending s)\<lparr>pn_queue := q\<rparr>, ms_stack := [FEmit Active (EvObject ev) (ms_hooks s Active), FDrain]\<rparr>)"
    (is "mon_ok ?s")
proof -
  have ha: "hooks_active ?s = hooks_active s" "hooks_active s = ms_hooks s Active" by (simp_all add: st)
  have reg: "registered ?s x = registered s x" for x unfolding registered_def ha(1) by simp
  have act: "registered s x" if "x \<in> set (ms_hooks s Active)" for x using that unfolding registered_def by simp
  show ?thesis
  proof (rule mon_okI)
    show "frame_ok ?s f" if "f \<in> set (ms_stack ?s)" for f
      using that mon_ok_lists(1)[OF ok] act reg unfolding ha(2) by auto
    show "told (ms_seen ?s x @ due x (ms_stack ?s) @ queue_objects (pn_queue (ms_pending ?s))) = Some (view_of (rt_catalog (ms_runtime ?s)))"
      if "x \<in> set (hooks_active ?s)" for x
      using that mon_ok_told(4)[OF ok, of x] unfolding ha by (simp add: st q)
    show "told (ms_seen ?s x @ due x (ms_stack ?s) @ queue_after b (pn_queue (ms_pending ?s))) = Some (view_of (rt_catalog (ms_runtime ?s)))"
      if "x \<in> set (ms_hooks ?s (Deferred b))" for b x
    proof -
      have "x \<in> set (ms_hooks s (Deferred b))" using that by simp
      moreover from this have "x \<notin> set (ms_hooks s Active)" using mon_ok_lists(3)[OF ok, of b] unfolding ha(2) by blast
      ultimately show ?thesis using mon_ok_told(5)[OF ok, of x b] by (simp add: st q)
    qed
    show "distinct (hooks_active ?s)" unfolding ha(1) by (rule mon_ok_lists(1)[OF ok])
    show "set (ms_hooks ?s (Deferred b)) \<inter> set (hooks_active ?s) = {}" for b
      unfolding ha(1) using mon_ok_lists(3)[OF ok, of b] by simp
    show "registered ?s x \<Longrightarrow> x < ms_listeners ?s" for x unfolding reg using mon_ok_lists(5)[OF ok] by simp
    show "ms_hooks ?s (Deferred b) \<noteq> [] \<Longrightarrow> NActivateListeners b \<in> set (pn_queue (ms_pending ?s))" for b
      using mon_ok_queue(4)[OF ok, of b] by (simp add: q)
    show "NActivateListeners b \<in> set (pn_queue (ms_pending ?s)) \<Longrightarrow> b < ms_batches ?s" for b
      using mon_ok_queue(3)[OF ok, of b] by (simp add: q)
    show "activations (ms_stack ?s)" by (simp add: activations.walk_drain)
    show "pn_dispatching (ms_pending ?s) = (ms_stack ?s \<noteq> [])" using mon_ok_queue(1)[OF ok] by (simp add: st)
  qed (use mon_ok_lists(2,4)[OF ok] mon_ok_told(1-3)[OF ok] in simp_all)
qed

lemma drain_activate_ok:
  assumes ok: "mon_ok s" and st: "ms_stack s = [FDrain]" and q: "pn_queue (ms_pending s) = NActivateListeners b # q"
  shows "mon_ok (append_from Active b (s\<lparr>ms_pending := (ms_pending s)\<lparr>pn_queue := q\<rparr>\<rparr>))" (is "mon_ok ?s")
proof -
  have eq: "?s = s\<lparr>ms_hooks := (ms_hooks s)(Active := ms_hooks s Active @ ms_hooks s (Deferred b), Deferred b := []),
      ms_pending := (ms_pending s)\<lparr>pn_queue := q\<rparr>\<rparr>"
    by (simp add: append_from_def st)
  have ha: "hooks_active ?s = ms_hooks s Active @ ms_hooks s (Deferred b)" "hooks_active s = ms_hooks s Active"
    by (simp_all add: eq st)
  have others: "ms_hooks ?s (Deferred b') = (if b' = b then [] else ms_hooks s (Deferred b'))" for b' by (simp add: eq)
  have reg: "registered ?s x = registered s x" for x
    unfolding registered_def ha others by (auto split: if_splits)
  have rest: "ms_stack ?s = [FDrain]" "ms_seen ?s = ms_seen s" "ms_runtime ?s = ms_runtime s" "ms_listeners ?s = ms_listeners s"
    "ms_batches ?s = ms_batches s" "ms_pending ?s = (ms_pending s)\<lparr>pn_queue := q\<rparr>" by (simp_all add: eq st)
  have disj: "set (ms_hooks s (Deferred b')) \<inter> set (ms_hooks s Active) = {}" for b'
    using mon_ok_lists(3)[OF ok, of b'] unfolding ha(2) .
  show ?thesis
  proof (rule mon_okI)
    show "told (ms_seen ?s x @ due x (ms_stack ?s) @ queue_objects (pn_queue (ms_pending ?s))) = Some (view_of (rt_catalog (ms_runtime ?s)))"
      if x: "x \<in> set (hooks_active ?s)" for x
    proof -
      consider "x \<in> set (ms_hooks s Active)" | "x \<in> set (ms_hooks s (Deferred b))" using x unfolding ha(1) by auto
      then show ?thesis
      proof cases
        case 1
        then show ?thesis using mon_ok_told(4)[OF ok, of x] unfolding ha(2) by (simp add: st q rest)
      next
        case 2
        then show ?thesis using mon_ok_told(5)[OF ok, of x b] by (simp add: st q rest)
      qed
    qed
    show "told (ms_seen ?s x @ due x (ms_stack ?s) @ queue_after b' (pn_queue (ms_pending ?s))) = Some (view_of (rt_catalog (ms_runtime ?s)))"
      if "x \<in> set (ms_hooks ?s (Deferred b'))" for b' x
      using that mon_ok_told(5)[OF ok, of x b'] unfolding others by (simp add: st q rest split: if_splits)
    show "distinct (hooks_active ?s)" unfolding ha(1)
      using mon_ok_lists(1,2)[OF ok] disj[of b] unfolding ha(2) by auto
    show "set (ms_hooks ?s (Deferred b')) \<inter> set (hooks_active ?s) = {}" for b'
      unfolding ha(1) others using disj[of b'] mon_ok_lists(4)[OF ok, of b' b] by auto
    show "c \<noteq> c' \<Longrightarrow> set (ms_hooks ?s (Deferred c)) \<inter> set (ms_hooks ?s (Deferred c')) = {}" for c c'
      unfolding others using mon_ok_lists(4)[OF ok, of c c'] by auto
    show "registered ?s x \<Longrightarrow> x < ms_listeners ?s" for x unfolding reg using mon_ok_lists(5)[OF ok] by (simp add: rest)
    show "ms_hooks ?s (Deferred c) \<noteq> [] \<Longrightarrow> NActivateListeners c \<in> set (pn_queue (ms_pending ?s))" for c
      unfolding others using mon_ok_queue(4)[OF ok, of c] by (auto simp: q rest split: if_splits)
    show "NActivateListeners c \<in> set (pn_queue (ms_pending ?s)) \<Longrightarrow> c < ms_batches ?s" for c
      using mon_ok_queue(3)[OF ok, of c] by (simp add: q rest)
    show "distinct (ms_hooks ?s (Deferred c))" for c unfolding others using mon_ok_lists(2)[OF ok] by simp
    show "pn_dispatching (ms_pending ?s) = (ms_stack ?s \<noteq> [])" using mon_ok_queue(1)[OF ok] by (simp add: st rest)
  qed (use mon_ok_told(1-3)[OF ok] in \<open>auto simp: rest intro: activations.intros\<close>)
qed

lemma advance_ok:
  assumes ok: "mon_ok s" and adv: "advance s = Some s'"
  shows "mon_ok s'"
proof (cases "ms_stack s")
  case Nil
  then show ?thesis using adv by (simp add: advance_defs)
next
  case (Cons f fs)
  show ?thesis
  proof (cases f)
    case (FEmit l e rest)
    then show ?thesis using adv advance_emit_ok[OF ok] advance_emitted_ok[OF ok] Cons
      by (cases rest) (auto simp: advance_defs)
  next
    case FCallback
    then show ?thesis using adv Cons by (simp add: advance_defs)
  next
    case (FInitial l saved new es owner)
    then show ?thesis using adv advance_initial_ok[OF ok] advance_join_ok[OF ok] Cons
      by (cases es) (auto simp: advance_defs)
  next
    case FDrain
    have st: "ms_stack s = [FDrain]" using drain_alone[OF ok] Cons FDrain by blast
    show ?thesis
    proof (cases "pn_queue (ms_pending s)")
      case Nil
      then show ?thesis using adv drain_done_ok[OF ok st] by (simp add: advance_defs st)
    next
      case (Cons n q)
      then show ?thesis using adv drain_object_ok[OF ok st] drain_activate_ok[OF ok st]
        by (cases n) (auto simp: advance_defs st Let_def)
    qed
  qed
qed

lemma mon_step_ok: "mon_ok s \<Longrightarrow> mon_step a s = Some s' \<Longrightarrow> mon_ok s'"
  by (cases a) (auto simp: add_ok remove_ok hotplug_ok_step return_ok advance_ok split: if_splits list.splits frame.splits)

lemma mon_run_ok: "mon_ok s \<Longrightarrow> mon_run as s = Some s' \<Longrightarrow> mon_ok s'"
  by (induction "as" arbitrary: s) (auto split: option.splits dest: mon_step_ok)

lemma mon_start_ok: "groups_ok (rt_catalog rt) \<Longrightarrow> mon_ok (mon_start rt)"
  by (rule mon_okI) (auto simp: mon_start_def registered_def told_def intro: activations.intros)

lemma monitor_init_ok:
  "monitor_init has_log has_loop snapshot sysctl opened r = Inr rt \<Longrightarrow> units_distinct snapshot \<Longrightarrow> groups_ok (rt_catalog rt)"
  using scanned_ok[of snapshot sysctl]
  by (auto simp: monitor_init_def catalog_scan_def units_distinct_def split: if_splits sum.splits option.splits)

section \<open>Properties\<close>

text \<open>C30. However listeners come and go, whatever they call from inside their callbacks and however hotplug events
  are nested, no listener is ever told of a retraction of a group it does not know or of a group it already knows;
  and whenever the monitor is idle every listener still registered knows exactly the groups of the catalog, and
  none is left waiting in a batch.\<close>

theorem listeners_follow_the_catalog:
  assumes "monitor_init has_log has_loop snapshot sysctl opened r = Inr rt" "units_distinct snapshot"
    and "mon_run actions (mon_start rt) = Some s"
  shows "(\<forall>x. told (ms_seen s x) \<noteq> None)
    \<and> (ms_stack s = [] \<longrightarrow>
         (\<forall>x\<in>set (ms_hooks s Active). told (ms_seen s x) = Some (view_of (rt_catalog (ms_runtime s))))
       \<and> (\<forall>b. ms_hooks s (Deferred b) = []) \<and> pn_queue (ms_pending s) = [])"
proof -
  have ok: "mon_ok s" using mon_run_ok[OF mon_start_ok[OF monitor_init_ok[OF assms(1,2)]] assms(3)] .
  have "told (ms_seen s x) = Some (view_of (rt_catalog (ms_runtime s)))" if "ms_stack s = []" "x \<in> set (ms_hooks s Active)" for x
    using mon_ok_told(4)[OF ok, of x] mon_ok_queue(2)[OF ok] that by simp
  moreover have "ms_hooks s (Deferred b) = []" if "ms_stack s = []" for b
    using mon_ok_queue(2)[OF ok] mon_ok_queue(4)[OF ok, of b] that by auto
  ultimately show ?thesis using mon_ok_told(2)[OF ok] mon_ok_queue(2)[OF ok] by blast
qed

definition sample_runtime :: runtime where
  "sample_runtime = \<lparr>rt_catalog = [(''hdaa0'', [0, 1])], rt_hotplug = None, rt_registered = False\<rparr>"

text \<open>A second listener is added inside the first callback of the first one.\<close>

definition nested_add :: "mon_action list" where
  "nested_add = [DoAdd, DoAdvance, DoAdvance, DoAdd, DoAdvance, DoAdvance, DoReturn, DoAdvance, DoAdvance, DoAdvance, DoReturn,
     DoAdvance, DoAdvance, DoReturn, DoAdvance, DoAdvance, DoAdvance, DoReturn, DoAdvance, DoAdvance, DoAdvance, DoAdvance]"

lemma nested_add_runs:
  "\<exists>s. mon_run nested_add (mon_start sample_runtime) = Some s \<and> ms_stack s = [] \<and> ms_hooks s Active = [0, 1]
     \<and> ms_runtime s = sample_runtime"
  by (simp add: nested_add_def mon_start_def sample_runtime_def add_listener_defs defer_when_busy_def begin_dispatch_def
      snapshots_def snapshot_of_group_def List.map_filter_def advance_defs append_from_def dispatch_guard_drop_def host_turn_def Let_def)

lemma sample_init:
  "monitor_init True True (Some [sample_pcm ''pcm0'', sample_pcm ''pcm1'']) sample_sysctl (Inl 2) 0 = Inr sample_runtime"
  by (simp add: monitor_init_def catalog_scan_def sample_scans sample_runtime_def)

theorem listeners_follow_the_catalog_witness:
  "\<exists>s. mon_run nested_add (mon_start sample_runtime) = Some s
     \<and> told (ms_seen s 0) = Some (view_of [(''hdaa0'', [0, 1])]) \<and> told (ms_seen s 1) = Some (view_of [(''hdaa0'', [0, 1])])"
proof -
  obtain s where s: "mon_run nested_add (mon_start sample_runtime) = Some s" "ms_stack s = []" "ms_hooks s Active = [0, 1]"
    "ms_runtime s = sample_runtime" using nested_add_runs by blast
  have "units_distinct (Some [sample_pcm ''pcm0'', sample_pcm ''pcm1''])"
    unfolding units_distinct_def by (simp only: option.case sample_units) simp
  from listeners_follow_the_catalog[OF sample_init this s(1)] s show ?thesis by (simp add: sample_runtime_def)
qed

section \<open>Dispatching ends\<close>

text \<open>Callbacks that return without calling back, and everything the monitor has to do until then.\<close>

fun settle :: "nat \<Rightarrow> mon_system \<Rightarrow> mon_system" where
  "settle 0 s = s"
| "settle (Suc k) s =
     (case ms_stack s of
        [] \<Rightarrow> s
      | f # _ \<Rightarrow> (case mon_step (if f = FCallback then DoReturn else DoAdvance) s of Some s' \<Rightarrow> settle k s' | None \<Rightarrow> s))"

fun frame_work :: "nat \<Rightarrow> frame \<Rightarrow> nat" where
  "frame_work n (FEmit l e rest) = 2 * length rest + 1"
| "frame_work n FCallback = 1"
| "frame_work n (FInitial l saved new es owner) = (2 * n + 2) * length es + 2"
| "frame_work n FDrain = 1"

definition mon_work :: "mon_system \<Rightarrow> nat" where
  "mon_work s = sum_list (map (frame_work (ms_listeners s)) (ms_stack s))
     + (2 * ms_listeners s + 3) * length (pn_queue (ms_pending s))"

lemma hooks_bounded:
  assumes "mon_ok s"
  shows "length (ms_hooks s l) \<le> ms_listeners s"
proof -
  have "distinct (ms_hooks s l)" using mon_ok_lists(1,2)[OF assms] by (cases l) auto
  moreover have "registered s x" if "x \<in> set (ms_hooks s l)" for x
    using that unfolding registered_def by (cases l) auto
  then have "set (ms_hooks s l) \<subseteq> {..<ms_listeners s}" using mon_ok_lists(5)[OF assms] by blast
  then have "card (set (ms_hooks s l)) \<le> ms_listeners s" by (metis card_lessThan card_mono finite_lessThan)
  ultimately show ?thesis by (simp add: distinct_card)
qed

lemma settle_step:
  assumes ok: "mon_ok s" and st: "ms_stack s = f # fs"
  obtains s' where "mon_step (if f = FCallback then DoReturn else DoAdvance) s = Some s'" "mon_work s' < mon_work s"
    "rt_catalog (ms_runtime s') = rt_catalog (ms_runtime s)"
proof (cases f)
  case FCallback
  then show thesis by (intro that[of "s\<lparr>ms_stack := fs\<rparr>"]) (simp_all add: st mon_work_def)
next
  case (FEmit l e rest)
  then show thesis using that by (cases rest) (simp_all add: st mon_work_def advance_defs)
next
  case (FInitial l saved new es owner)
  then show thesis using that hooks_bounded[OF ok, of l] by (cases es) (simp_all add: st mon_work_def advance_defs)
next
  case FDrain
  have fs: "fs = []" using drain_alone[OF ok] st FDrain by blast
  show thesis
  proof (cases "pn_queue (ms_pending s)")
    case Nil
    then show thesis using that FDrain by (simp add: st fs mon_work_def advance_defs dispatch_guard_drop_def)
  next
    case (Cons n q)
    then show thesis using that FDrain hooks_bounded[OF ok, of Active]
      by (cases n) (simp_all add: st fs mon_work_def advance_defs append_from_def Let_def)
  qed
qed

lemma settle_idle:
  assumes "mon_ok s" "mon_work s \<le> k"
  shows "ms_stack (settle k s) = [] \<and> mon_ok (settle k s) \<and> rt_catalog (ms_runtime (settle k s)) = rt_catalog (ms_runtime s)"
  using assms
proof (induction k arbitrary: s)
  case 0
  have pos: "frame_work n f = 0 \<longleftrightarrow> False" for n f by (cases f) auto
  show ?case using 0 by (cases "ms_stack s") (auto simp: mon_work_def pos)
next
  case (Suc k)
  show ?case
  proof (cases "ms_stack s")
    case Nil
    then show ?thesis using Suc.prems(1) by simp
  next
    case (Cons f fs)
    obtain s' where s': "mon_step (if f = FCallback then DoReturn else DoAdvance) s = Some s'" "mon_work s' < mon_work s"
      "rt_catalog (ms_runtime s') = rt_catalog (ms_runtime s)" using settle_step[OF Suc.prems(1) Cons] by blast
    have "mon_ok s'" using mon_step_ok[OF Suc.prems(1) s'(1)] .
    moreover have "mon_work s' \<le> k" using s'(2) Suc.prems(2) by simp
    ultimately show ?thesis using Suc.IH[of s'] s'(1,3) by (simp only: settle.simps Cons list.case option.case)
  qed
qed

text \<open>C31. Dispatching ends: from any state the monitor can be in, once the callbacks stop calling back, at most
  \<open>mon_work\<close> steps finish every emission, registration and drain, and then every listener, those that were
  waiting behind a barrier included, knows exactly the catalog as it was.\<close>

theorem dispatching_ends:
  assumes "monitor_init has_log has_loop snapshot sysctl opened r = Inr rt" "units_distinct snapshot"
    and "mon_run actions (mon_start rt) = Some s"
  shows "ms_stack (settle (mon_work s) s) = []
    \<and> (\<forall>x\<in>set (ms_hooks (settle (mon_work s) s) Active).
          told (ms_seen (settle (mon_work s) s) x) = Some (view_of (rt_catalog (ms_runtime s))))"
proof -
  have "mon_ok s" using mon_run_ok[OF mon_start_ok[OF monitor_init_ok[OF assms(1,2)]] assms(3)] .
  from settle_idle[OF this order_refl] have e: "ms_stack (settle (mon_work s) s) = []" "mon_ok (settle (mon_work s) s)"
    "rt_catalog (ms_runtime (settle (mon_work s) s)) = rt_catalog (ms_runtime s)" by auto
  have "told (ms_seen (settle (mon_work s) s) x) = Some (view_of (rt_catalog (ms_runtime s)))"
    if "x \<in> set (ms_hooks (settle (mon_work s) s) Active)" for x
    using mon_ok_told(4)[OF e(2), of x] mon_ok_queue(2)[OF e(2,1)] that e by simp
  then show ?thesis using e(1) by blast
qed

theorem dispatching_ends_witness:
  "\<exists>s. mon_run [DoAdd, DoAdvance, DoAdvance, DoAdd] (mon_start sample_runtime) = Some s \<and> ms_stack s \<noteq> []
     \<and> ms_stack (settle (mon_work s) s) = []"
proof -
  have "\<exists>s. mon_run [DoAdd, DoAdvance, DoAdvance, DoAdd] (mon_start sample_runtime) = Some s \<and> ms_stack s \<noteq> []"
    by (simp add: mon_start_def sample_runtime_def add_listener_defs defer_when_busy_def begin_dispatch_def
      snapshots_def snapshot_of_group_def List.map_filter_def advance_defs host_turn_def Let_def)
  then obtain s where s: "mon_run [DoAdd, DoAdvance, DoAdvance, DoAdd] (mon_start sample_runtime) = Some s" "ms_stack s \<noteq> []" by blast
  have "units_distinct (Some [sample_pcm ''pcm0'', sample_pcm ''pcm1''])"
    unfolding units_distinct_def by (simp only: option.case sample_units) simp
  from dispatching_ends[OF sample_init this s(1)] s show ?thesis by blast
qed

end
