(* ===== verification/Mixer.thy ===== *)
theory Mixer
  imports Complex_Main OssCatalog OssHotplug
begin

text \<open>
  Hardware volume and recording sources (crates/freebsd-oss/src/freebsd\_oss/mixer.rs): the ioctls on
  \<open>/dev/mixerN\<close> and the controller that keeps the routes of a device in step with them. What the kernel answers to
  the ioctls of one open mixer is a script, consumed in order; None is a failed ioctl, and a mixer whose script is
  used up fails from then on. The writes a mixer accepted are recorded. Single-precision volumes are reals, so
  NaN is left out. A diagnostic keeps its level and loses its text.
\<close>

unbundle bit_operations_syntax

section \<open>The mixer device\<close>

abbreviation (input) SOUND_MIXER_VOLUME :: nat where "SOUND_MIXER_VOLUME \<equiv> 0"
abbreviation (input) SOUND_MIXER_PCM :: nat where "SOUND_MIXER_PCM \<equiv> 4"
abbreviation (input) SOUND_MIXER_LINE :: nat where "SOUND_MIXER_LINE \<equiv> 6"
abbreviation (input) SOUND_MIXER_MIC :: nat where "SOUND_MIXER_MIC \<equiv> 7"
abbreviation (input) SOUND_MIXER_RECLEV :: nat where "SOUND_MIXER_RECLEV \<equiv> 11"
abbreviation (input) SOUND_MIXER_IGAIN :: nat where "SOUND_MIXER_IGAIN \<equiv> 12"
abbreviation (input) SOUND_MIXER_NRDEVICES :: nat where "SOUND_MIXER_NRDEVICES \<equiv> 25"
abbreviation (input) SOUND_MIXER_MUTE :: nat where "SOUND_MIXER_MUTE \<equiv> 28"
abbreviation (input) SOUND_MIXER_RECSRC :: nat where "SOUND_MIXER_RECSRC \<equiv> 255"
abbreviation (input) SOUND_MIXER_DEVMASK :: nat where "SOUND_MIXER_DEVMASK \<equiv> 254"
abbreviation (input) SOUND_MIXER_RECMASK :: nat where "SOUND_MIXER_RECMASK \<equiv> 253"
abbreviation (input) SOUND_MIXER_INFO :: nat where "SOUND_MIXER_INFO \<equiv> 101"

definition SOUND_DEVICE_NAMES :: "string list" where
  "SOUND_DEVICE_NAMES =
     [''vol'', ''bass'', ''treble'', ''synth'', ''pcm'', ''speaker'', ''line'', ''mic'', ''cd'', ''mix'', ''pcm2'', ''rec'',
      ''igain'', ''ogain'', ''line1'', ''line2'', ''line3'', ''dig1'', ''dig2'', ''dig3'', ''phin'', ''phout'', ''video'',
      ''radio'', ''monitor'']"

definition mixer_source_priority :: "nat \<Rightarrow> int" where
  "mixer_source_priority source =
     (if source = SOUND_MIXER_MIC then 100 else if source = SOUND_MIXER_LINE then 90 else 80 - int source)"

record mixer =
  mx_devmask :: "32 word"
  mx_recmask :: "32 word"
  mx_answers :: "int option list"
  mx_written :: "(nat \<times> int) list"

definition mixer_read_int :: "nat \<Rightarrow> mixer \<Rightarrow> int option \<times> mixer" where
  "mixer_read_int dev m = (case mx_answers m of [] \<Rightarrow> (None, m) | a # as \<Rightarrow> (a, m\<lparr>mx_answers := as\<rparr>))"

definition mixer_write_int :: "nat \<Rightarrow> int \<Rightarrow> mixer \<Rightarrow> bool \<times> mixer" where
  "mixer_write_int dev value m =
     (case mx_answers m of
        [] \<Rightarrow> (False, m)
      | a # as \<Rightarrow> (if a = None then (False, m\<lparr>mx_answers := as\<rparr>)
                  else (True, m\<lparr>mx_answers := as, mx_written := mx_written m @ [(dev, value)]\<rparr>)))"

text \<open>\<open>opened unit\<close> is the script of the mixer the kernel opens for that unit.\<close>

definition mixer_open :: "(u32 \<Rightarrow> int option list option) \<Rightarrow> u32 \<Rightarrow> mixer option" where
  "mixer_open opened unit =
     (case opened unit of
        None \<Rightarrow> None
      | Some answers \<Rightarrow>
          (let (devmask, m) = mixer_read_int SOUND_MIXER_DEVMASK \<lparr>mx_devmask = 0, mx_recmask = 0, mx_answers = answers, mx_written = []\<rparr>
           in case devmask of
                None \<Rightarrow> None
              | Some devmask \<Rightarrow>
                  (let (recmask, m) = mixer_read_int SOUND_MIXER_RECMASK (m\<lparr>mx_devmask := word_of_int devmask\<rparr>)
                   in Some (m\<lparr>mx_recmask := word_of_int (case recmask of Some v \<Rightarrow> v | None \<Rightarrow> 0)
                                AND (push_bit SOUND_MIXER_NRDEVICES 1 - 1)\<rparr>))))"

definition mixer_has :: "mixer \<Rightarrow> nat \<Rightarrow> bool" where
  "mixer_has m dev = bit (mx_devmask m) dev"

definition output_control :: "mixer \<Rightarrow> nat option" where
  "output_control m = List.find (mixer_has m) [SOUND_MIXER_VOLUME, SOUND_MIXER_PCM]"

definition input_control :: "mixer \<Rightarrow> (nat \<times> bool) option \<times> mixer" where
  "input_control m =
     (if mixer_has m SOUND_MIXER_RECLEV then (Some (SOUND_MIXER_RECLEV, False), m)
      else
        let (recsrc, m) = mixer_read_int SOUND_MIXER_RECSRC m;
            named = (case recsrc of Some v \<Rightarrow> word_of_int v AND mx_recmask m AND mx_devmask m | None \<Rightarrow> 0)
        in case List.find (bit named) [0..<SOUND_MIXER_NRDEVICES] of
             Some dev \<Rightarrow> (Some (dev, True), m)
           | None \<Rightarrow> (if mixer_has m SOUND_MIXER_IGAIN then Some (SOUND_MIXER_IGAIN, False) else None, m))"

definition source_volume_control :: "nat \<Rightarrow> mixer \<Rightarrow> nat option" where
  "source_volume_control dev m = List.find (mixer_has m) [dev, SOUND_MIXER_RECLEV]"

definition mixer_recsrc :: "mixer \<Rightarrow> 32 word option \<times> mixer" where
  "mixer_recsrc m = (let (v, m) = mixer_read_int SOUND_MIXER_RECSRC m in (map_option word_of_int v, m))"

definition set_recsrc :: "32 word \<Rightarrow> mixer \<Rightarrow> bool \<times> mixer" where
  "set_recsrc muteds m = mixer_write_int SOUND_MIXER_RECSRC (sint muteds) m"

definition mixer_level :: "nat \<Rightarrow> mixer \<Rightarrow> (nat \<times> nat) option \<times> mixer" where
  "mixer_level dev m =
     (let (v, m) = mixer_read_int dev m
      in (case v of
            None \<Rightarrow> None
          | Some v \<Rightarrow> if v < 0 then None
                      else Some (unat ((word_of_int v :: 32 word) AND 127), unat (drop_bit 8 (word_of_int v :: 32 word) AND 127)), m))"

definition encode_levels :: "nat \<Rightarrow> nat \<Rightarrow> int" where
  "encode_levels left right = int (min left 100 OR push_bit 8 (min right 100))"

definition set_level :: "nat \<Rightarrow> nat \<Rightarrow> nat \<Rightarrow> mixer \<Rightarrow> bool \<times> mixer" where
  "set_level dev left right m = mixer_write_int dev (encode_levels left right) m"

definition mixer_muted :: "nat \<Rightarrow> mixer \<Rightarrow> bool option \<times> mixer" where
  "mixer_muted dev m =
     (let (muteds, m) = mixer_read_int SOUND_MIXER_MUTE m in (map_option (\<lambda>muteds. bit (word_of_int muteds :: 32 word) dev) muteds, m))"

definition set_muted :: "nat \<Rightarrow> bool \<Rightarrow> mixer \<Rightarrow> bool \<times> mixer" where
  "set_muted dev mute m =
     (let (muteds, m) = mixer_read_int SOUND_MIXER_MUTE m
      in case muteds of
           None \<Rightarrow> (False, m)
         | Some muteds \<Rightarrow>
             (let w = word_of_int muteds :: 32 word; b = push_bit dev 1
              in mixer_write_int SOUND_MIXER_MUTE (sint (if mute then w OR b else w AND NOT b)) m))"

definition modify_counter :: "mixer \<Rightarrow> int option \<times> mixer" where
  "modify_counter m = mixer_read_int SOUND_MIXER_INFO m"

section \<open>Routes\<close>

type_synonym route_key = nat

record route_volume =
  rv_values :: "real list"
  rv_channels :: "nat list"
  rv_base :: real
  rv_step :: real
  rv_hardware :: bool

record route_mute =
  rm_value :: bool
  rm_hardware :: bool

datatype route_availability = AvailYes | AvailNo | AvailUnknown

record route =
  ro_key :: route_key
  ro_node_id :: u32
  ro_direction :: stream_direction
  ro_name :: string
  ro_description :: string
  ro_priority :: int
  ro_availability :: route_availability
  ro_active :: bool
  ro_volume :: route_volume
  ro_mute :: route_mute
  ro_save :: bool

datatype selection_outcome = SelUnchanged | SelApplied | SelDeflected | SelFailed

datatype diagnostic_level = LevelInfo | LevelWarning

record route_change =
  ch_key :: "route_key option"
  ch_volume :: bool
  ch_mute :: bool
  ch_selection :: selection_outcome
  ch_refresh :: bool
  ch_diagnostic :: "diagnostic_level option"

definition route_change_default :: route_change where
  "route_change_default = \<lparr>ch_key = None, ch_volume = False, ch_mute = False, ch_selection = SelUnchanged,
     ch_refresh = False, ch_diagnostic = None\<rparr>"

datatype route_value_update = UpdVolume "real list" | UpdMute bool

record route_update =
  up_activate :: bool
  up_values :: "route_value_update list"

record route_binding =
  bi_mixer :: nat
  bi_volume_control :: "nat option"
  bi_mute_control :: "nat option"
  bi_follows_recsrc :: bool
  bi_source :: "nat option"

record mixer_handle =
  mh_mixer :: mixer
  mh_counter :: int

record route_controller =
  rc_bindings :: "route_binding list"
  rc_mixers :: "mixer_handle list"

definition capitalize :: "string \<Rightarrow> string" where
  "capitalize value =
     (case value of
        [] \<Rightarrow> []
      | c # cs \<Rightarrow> (let n = of_char c :: nat in if 97 \<le> n \<and> n \<le> 122 then char_of (n - 32) else c) # cs)"

definition level_to_volume :: "nat \<Rightarrow> real" where
  "level_to_volume level = (let value = real (min level 100) / 100 in value * value * value)"

definition volume_to_level :: "real \<Rightarrow> nat" where
  "volume_to_level volume = (if volume \<le> 0 then 0 else nat (round (root 3 (min volume 1) * 100)))"

definition route_volume_of :: "nat \<times> nat \<Rightarrow> bool \<Rightarrow> route_volume" where
  "route_volume_of levels hardware =
     \<lparr>rv_values = [level_to_volume (fst levels), level_to_volume (snd levels)], rv_channels = [3, 4], rv_base = 1,
      rv_step = 1 / 101, rv_hardware = hardware\<rparr>"

definition native_levels :: "route_volume \<Rightarrow> nat \<times> nat" where
  "native_levels volume =
     (let left = (case rv_values volume of x # _ \<Rightarrow> x | [] \<Rightarrow> 1);
          right = (case rv_values volume of _ # y # _ \<Rightarrow> y | _ \<Rightarrow> left)
      in (volume_to_level left, volume_to_level right))"

definition set_native_levels :: "nat \<times> nat \<Rightarrow> route_volume \<Rightarrow> route_volume" where
  "set_native_levels levels volume = volume\<lparr>rv_values := [level_to_volume (fst levels), level_to_volume (snd levels)]\<rparr>"

definition selected_recording_sources :: "32 word \<Rightarrow> 32 word \<Rightarrow> 32 word" where
  "selected_recording_sources recmask recsrc =
     (let selected = recsrc AND recmask
      in if selected \<noteq> 0 \<or> recmask = 0 then selected
         else push_bit (length (takeWhile (\<lambda>n. \<not> bit recmask n) [0..<32])) 1)"

fun sync_source_loop :: "nat \<Rightarrow> 32 word \<Rightarrow> nat \<Rightarrow> route list \<Rightarrow> route_binding list \<Rightarrow> nat list \<times> route list" where
  "sync_source_loop mixer selected pos (r # rs) (b # bs) =
     (let (changed, rest) = sync_source_loop mixer selected (pos + 1) rs bs
      in case bi_source b of
           None \<Rightarrow> (changed, r # rest)
         | Some source \<Rightarrow>
             if bi_mixer b \<noteq> mixer then (changed, r # rest)
             else let active = bit selected source
                  in if ro_active r \<noteq> active then (pos # changed, r\<lparr>ro_active := active\<rparr> # rest) else (changed, r # rest))"
| "sync_source_loop mixer selected pos rs bs = ([], rs)"

definition sync_source_routes :: "route list \<Rightarrow> route_binding list \<Rightarrow> nat \<Rightarrow> 32 word \<Rightarrow> nat list \<times> route list" where
  "sync_source_routes routes bindings mixer selected = sync_source_loop mixer selected 0 routes bindings"

definition external_selection_change :: "route \<Rightarrow> route_change" where
  "external_selection_change r =
     \<lparr>ch_key = Some (ro_key r), ch_volume = (ro_active r \<and> rv_hardware (ro_volume r)), ch_mute = (ro_active r \<and> rm_hardware (ro_mute r)),
      ch_selection = SelApplied, ch_refresh = True, ch_diagnostic = Some LevelInfo\<rparr>"

definition selection_notification_flags ::
    "route list \<Rightarrow> nat \<Rightarrow> nat option \<Rightarrow> bool \<Rightarrow> bool \<Rightarrow> nat \<times> bool \<times> bool" where
  "selection_notification_flags routes requested selected volume mute =
     (let changed = (case selected of Some p \<Rightarrow> p | None \<Rightarrow> requested);
          r = routes ! changed
      in if selected = Some requested then (changed, volume \<or> rv_hardware (ro_volume r), mute \<or> rm_hardware (ro_mute r))
         else if selected \<noteq> None then (changed, rv_hardware (ro_volume r), rm_hardware (ro_mute r))
         else if \<not> ro_active (routes ! requested) then (changed, False, False)
         else (changed, volume, mute))"

section \<open>Probing\<close>

text \<open>The units of a device, in order, with their directions.\<close>

fun add_unit :: "u32 \<Rightarrow> stream_direction \<Rightarrow> (u32 \<times> bool \<times> bool) list \<Rightarrow> (u32 \<times> bool \<times> bool) list" where
  "add_unit u d [] = [(u, d = Playback, d = Capture)]"
| "add_unit u d ((v, p, c) # devs) =
     (if v = u then (v, p \<or> d = Playback, c \<or> d = Capture) # devs
      else if u < v then (u, d = Playback, d = Capture) # (v, p, c) # devs
      else (v, p, c) # add_unit u d devs)"

definition probe_units :: "endpoint_snapshot list \<Rightarrow> (u32 \<times> bool \<times> bool) list" where
  "probe_units endpoints = fold (\<lambda>e. add_unit (es_object_id e div 2) (es_direction e)) endpoints []"

type_synonym probe_acc = "route list \<times> route_binding list \<times> nat \<times> nat"

definition opt_ioctl :: "(nat \<Rightarrow> mixer \<Rightarrow> 'a option \<times> mixer) \<Rightarrow> nat option \<Rightarrow> mixer \<Rightarrow> 'a option \<times> mixer" where
  "opt_ioctl f control m = (case control of Some c \<Rightarrow> f c m | None \<Rightarrow> (None, m))"

text \<open>One selectable recording source, with the levels and the mute read back.\<close>

definition source_route :: "route_key \<Rightarrow> nat \<Rightarrow> u32 \<Rightarrow> 32 word \<Rightarrow> nat \<Rightarrow> (nat \<times> nat) option \<Rightarrow> bool option \<Rightarrow> route" where
  "source_route key device_count unit selected source levels mute =
     (let source_name = SOUND_DEVICE_NAMES ! source;
          (name, description) =
            (if device_count = 1 then (''oss-input-'' @ source_name, capitalize source_name)
             else (''oss-input-pcm'' @ show_nat unit @ ''-'' @ source_name, capitalize source_name @ '' (pcm'' @ show_nat unit @ '')''))
      in \<lparr>ro_key = key, ro_node_id = unit * 2 + 1, ro_direction = Capture, ro_name = name, ro_description = description,
          ro_priority = mixer_source_priority source, ro_availability = AvailYes, ro_active = bit selected source,
          ro_volume = route_volume_of (case levels of Some l \<Rightarrow> l | None \<Rightarrow> (100, 100)) (levels \<noteq> None),
          ro_mute = \<lparr>rm_value = (case mute of Some b \<Rightarrow> b | None \<Rightarrow> False), rm_hardware = (mute \<noteq> None)\<rparr>, ro_save = False\<rparr>)"

definition source_binding :: "nat \<Rightarrow> nat \<Rightarrow> nat option \<Rightarrow> (nat \<times> nat) option \<Rightarrow> bool option \<Rightarrow> route_binding" where
  "source_binding mixer_index source candidate levels mute =
     \<lparr>bi_mixer = mixer_index, bi_volume_control = (if levels \<noteq> None then candidate else None),
      bi_mute_control = (if mute \<noteq> None then candidate else None), bi_follows_recsrc = False, bi_source = Some source\<rparr>"

definition probe_source :: "nat \<Rightarrow> nat \<Rightarrow> u32 \<Rightarrow> 32 word \<Rightarrow> nat \<Rightarrow> probe_acc \<times> mixer \<Rightarrow> probe_acc \<times> mixer" where
  "probe_source device_count mixer_index unit selected source st =
     (let ((routes, bindings, n_out, n_in), m) = st;
          candidate = source_volume_control source m;
          (levels, m) = opt_ioctl mixer_level candidate m;
          (mute, m) = opt_ioctl mixer_muted candidate m
      in ((routes @ [source_route (length routes) device_count unit selected source levels mute],
           bindings @ [source_binding mixer_index source candidate levels mute], n_out, n_in), m))"

text \<open>A direction with one control: its \<open>index\<close> route of that direction, with the levels and the mute read back.\<close>

definition control_name :: "nat \<Rightarrow> u32 \<Rightarrow> stream_direction \<Rightarrow> nat \<Rightarrow> string \<times> string" where
  "control_name device_count unit direction index =
     (if direction = Capture
      then if index = 1 \<and> device_count = 1 then (''oss-input'', ''Input'')
           else (''oss-input-pcm'' @ show_nat unit, ''Input (pcm'' @ show_nat unit @ '')'')
      else if index = 1 \<and> device_count = 1 then (''oss-output'', ''Output'')
           else (''oss-output-pcm'' @ show_nat unit, ''Output (pcm'' @ show_nat unit @ '')''))"

definition control_route :: "route_key \<Rightarrow> nat \<Rightarrow> u32 \<Rightarrow> stream_direction \<Rightarrow> nat \<Rightarrow> nat \<times> nat \<Rightarrow> bool option \<Rightarrow> route" where
  "control_route key device_count unit direction index levels mute =
     (let (name, description) = control_name device_count unit direction index
      in \<lparr>ro_key = key, ro_node_id = unit * 2 + (if direction = Capture then 1 else 0),
          ro_direction = direction, ro_name = name, ro_description = description, ro_priority = 100,
          ro_availability = AvailYes, ro_active = True, ro_volume = route_volume_of levels True,
          ro_mute = \<lparr>rm_value = (case mute of Some b \<Rightarrow> b | None \<Rightarrow> False), rm_hardware = (mute \<noteq> None)\<rparr>, ro_save = False\<rparr>)"

definition control_binding :: "nat \<Rightarrow> nat \<Rightarrow> bool \<Rightarrow> bool option \<Rightarrow> route_binding" where
  "control_binding mixer_index control follows mute =
     \<lparr>bi_mixer = mixer_index, bi_volume_control = Some control, bi_mute_control = map_option (\<lambda>_. control) mute,
      bi_follows_recsrc = follows, bi_source = None\<rparr>"

definition probe_control :: "nat \<Rightarrow> nat \<Rightarrow> u32 \<Rightarrow> stream_direction \<Rightarrow> probe_acc \<times> mixer \<Rightarrow> probe_acc \<times> mixer" where
  "probe_control device_count mixer_index unit direction st =
     (let (acc, m) = st; (routes, bindings, n_out, n_in) = acc;
          (picked, m) = (if direction = Capture then input_control m else (map_option (\<lambda>c. (c, False)) (output_control m), m))
      in case picked of
           None \<Rightarrow> (acc, m)
         | Some (control, follows) \<Rightarrow>
             (let (levels, m) = mixer_level control m
              in case levels of
                   None \<Rightarrow> (acc, m)
                 | Some levels \<Rightarrow>
                     (let (mute, m) = mixer_muted control m;
                          n_in = (if direction = Capture then n_in + 1 else n_in);
                          n_out = (if direction = Capture then n_out else n_out + 1);
                          index = (if direction = Capture then n_in else n_out)
                      in ((routes @ [control_route (length routes) device_count unit direction index levels mute],
                           bindings @ [control_binding mixer_index control follows mute], n_out, n_in), m))))"

definition probe_direction ::
    "nat \<Rightarrow> nat \<Rightarrow> u32 \<Rightarrow> 32 word \<Rightarrow> stream_direction \<times> bool \<Rightarrow> probe_acc \<times> mixer \<Rightarrow> probe_acc \<times> mixer" where
  "probe_direction device_count mixer_index unit probe_recsrc dir st =
     (let (direction, enabled) = dir; recmask = mx_recmask (snd st)
      in if \<not> enabled then st
         else if direction = Capture \<and> 2 \<le> length (filter (bit recmask) [0..<32])
         then fold (\<lambda>source st. if bit recmask source
                     then probe_source device_count mixer_index unit (selected_recording_sources recmask probe_recsrc) source st
                     else st) [0..<SOUND_MIXER_NRDEVICES] st
         else probe_control device_count mixer_index unit direction st)"

text \<open>One unit: its mixer joins the controller when a route uses it.\<close>

definition probe_unit ::
    "(u32 \<Rightarrow> int option list option) \<Rightarrow> nat \<Rightarrow> u32 \<times> bool \<times> bool \<Rightarrow> probe_acc \<times> mixer_handle list \<Rightarrow> probe_acc \<times> mixer_handle list" where
  "probe_unit opened device_count dev st =
     (let (unit, play, capture) = dev; (acc, mixers) = st
      in case mixer_open opened unit of
           None \<Rightarrow> st
         | Some m \<Rightarrow>
             (let (recsrc, m) = mixer_recsrc m;
                  recsrc = (case recsrc of Some v \<Rightarrow> v | None \<Rightarrow> 0);
                  (acc', m) = fold (probe_direction device_count (length mixers) unit recsrc)
                                [(Playback, play), (Capture, capture)] (acc, m)
              in if length (fst acc') = length (fst acc) then (acc', mixers)
                 else let (counter, m) = modify_counter m
                      in (acc', mixers @ [\<lparr>mh_mixer = m, mh_counter = (case counter of Some c \<Rightarrow> c | None \<Rightarrow> 0)\<rparr>])))"

definition route_probe :: "(u32 \<Rightarrow> int option list option) \<Rightarrow> endpoint_snapshot list \<Rightarrow> route_controller \<times> route list" where
  "route_probe opened endpoints =
     (let units = probe_units endpoints;
          ((routes, bindings, _, _), mixers) = fold (probe_unit opened (length units)) units (([], [], 0, 0), [])
      in (\<lparr>rc_bindings = bindings, rc_mixers = mixers\<rparr>, routes))"

section \<open>Following the hardware\<close>

text \<open>An operation on the mixer of a binding.\<close>

definition on_mixer :: "nat \<Rightarrow> (mixer \<Rightarrow> 'a \<times> mixer) \<Rightarrow> route_controller \<Rightarrow> 'a \<times> route_controller" where
  "on_mixer i f rc =
     (let h = rc_mixers rc ! i; (r, m) = f (mh_mixer h)
      in (r, rc\<lparr>rc_mixers := (rc_mixers rc)[i := h\<lparr>mh_mixer := m\<rparr>]\<rparr>))"

definition route_position :: "route list \<Rightarrow> route_key \<Rightarrow> nat option" where
  "route_position routes key = List.find (\<lambda>pos. ro_key (routes ! pos) = key) [0..<length routes]"

definition resolve_controls :: "nat \<Rightarrow> route_controller \<Rightarrow> route_controller" where
  "resolve_controls pos rc =
     (let b = rc_bindings rc ! pos
      in if \<not> bi_follows_recsrc b then rc
         else let (picked, rc) = on_mixer (bi_mixer b) input_control rc
              in case picked of
                   Some (control, True) \<Rightarrow>
                     (let (level, rc) = on_mixer (bi_mixer b) (mixer_level control) rc;
                          (mute, rc) = on_mixer (bi_mixer b) (mixer_muted control) rc
                      in rc\<lparr>rc_bindings := (rc_bindings rc)[pos := b\<lparr>bi_volume_control := map_option (\<lambda>_. control) level,
                               bi_mute_control := map_option (\<lambda>_. control) mute\<rparr>]\<rparr>)
                 | _ \<Rightarrow> rc)"

definition route_refresh :: "nat \<Rightarrow> route_controller \<times> route list \<Rightarrow> route_controller \<times> route list" where
  "route_refresh pos st =
     (let (rc, routes) = st;
          rc = resolve_controls pos rc;
          b = rc_bindings rc ! pos;
          r = routes ! pos;
          r = r\<lparr>ro_volume := (ro_volume r)\<lparr>rv_hardware := bi_volume_control b \<noteq> None\<rparr>,
                ro_mute := (ro_mute r)\<lparr>rm_hardware := bi_mute_control b \<noteq> None\<rparr>\<rparr>;
          (levels, rc) = on_mixer (bi_mixer b) (opt_ioctl mixer_level (bi_volume_control b)) rc;
          r = (case levels of Some l \<Rightarrow> r\<lparr>ro_volume := set_native_levels l (ro_volume r)\<rparr> | None \<Rightarrow> r);
          (mute, rc) = on_mixer (bi_mixer b) (opt_ioctl mixer_muted (bi_mute_control b)) rc;
          r = (case mute of Some v \<Rightarrow> r\<lparr>ro_mute := (ro_mute r)\<lparr>rm_value := v\<rparr>\<rparr> | None \<Rightarrow> r)
      in (rc, routes[pos := r]))"

definition sync_source :: "nat \<Rightarrow> route_controller \<times> route list \<Rightarrow> nat list option \<times> route_controller \<times> route list" where
  "sync_source mixer st =
     (let (rc, routes) = st
      in if \<not> list_ex (\<lambda>b. bi_mixer b = mixer \<and> bi_source b \<noteq> None) (rc_bindings rc) then (None, st)
         else let (recsrc, rc) = on_mixer mixer mixer_recsrc rc
              in case recsrc of
                   None \<Rightarrow> (None, rc, routes)
                 | Some recsrc \<Rightarrow>
                     (let selected = selected_recording_sources (mx_recmask (mh_mixer (rc_mixers rc ! mixer))) recsrc;
                          (changed, routes) = sync_source_routes routes (rc_bindings rc) mixer selected
                      in (Some changed,
                          fold (\<lambda>pos st. if ro_active (snd st ! pos) then route_refresh pos st else st) changed (rc, routes))))"

definition refresh_all :: "route_controller \<times> route list \<Rightarrow> route_controller \<times> route list" where
  "refresh_all st =
     (let st = fold (\<lambda>mixer st. snd (sync_source mixer st)) [0..<length (rc_mixers (fst st))] st
      in fold route_refresh [0..<length (snd st)] st)"

text \<open>The value diff of one route.\<close>

definition poll_route :: "nat \<Rightarrow> nat \<Rightarrow> route_change list \<times> route_controller \<times> route list \<Rightarrow> route_change list \<times> route_controller \<times> route list" where
  "poll_route mixer pos st =
     (let (changes, rc, routes) = st
      in if bi_mixer (rc_bindings rc ! pos) \<noteq> mixer then st
         else let before = routes ! pos;
                  (rc, routes) = route_refresh pos (rc, routes);
                  after = routes ! pos;
                  volume = (ro_volume before \<noteq> ro_volume after);
                  mute = (ro_mute before \<noteq> ro_mute after)
              in (if ro_active after \<and> (volume \<or> mute)
                  then changes @ [\<lparr>ch_key = Some (ro_key after), ch_volume = volume, ch_mute = mute, ch_selection = SelUnchanged,
                                   ch_refresh = True, ch_diagnostic = Some LevelInfo\<rparr>]
                  else changes, rc, routes))"

definition poll_mixer :: "nat \<Rightarrow> route_change list \<times> route_controller \<times> route list \<Rightarrow> route_change list \<times> route_controller \<times> route list" where
  "poll_mixer mixer st =
     (let (changes, rc, routes) = st; (counter, rc) = on_mixer mixer modify_counter rc
      in case counter of
           None \<Rightarrow> (changes, rc, routes)
         | Some counter \<Rightarrow>
             (let rc = rc\<lparr>rc_mixers := (rc_mixers rc)[mixer := (rc_mixers rc ! mixer)\<lparr>mh_counter := counter\<rparr>]\<rparr>;
                  (changed, rc, routes) = sync_source mixer (rc, routes);
                  selections = (case changed of Some ps \<Rightarrow> map (\<lambda>pos. external_selection_change (routes ! pos)) ps | None \<Rightarrow> [])
              in fold (poll_route mixer) [0..<length routes] (changes @ selections, rc, routes)))"

definition route_poll :: "route_controller \<times> route list \<Rightarrow> route_change list \<times> route_controller \<times> route list" where
  "route_poll st = fold poll_mixer [0..<length (rc_mixers (fst st))] ([], st)"

section \<open>Applying an update\<close>

text \<open>Selecting the recording source of a route.\<close>

definition apply_selection ::
    "nat \<Rightarrow> bool \<Rightarrow> route_controller \<times> route list \<Rightarrow> (nat option \<times> selection_outcome) \<times> route_controller \<times> route list" where
  "apply_selection pos activate st =
     (let (rc, routes) = st; b = rc_bindings rc ! pos
      in if \<not> (activate \<and> \<not> ro_active (routes ! pos)) then ((None, SelUnchanged), st)
         else case bi_source b of
           None \<Rightarrow> ((None, SelUnchanged), st)
         | Some source \<Rightarrow>
             (let (done, rc) = on_mixer (bi_mixer b) (set_recsrc (push_bit source 1)) rc
              in if \<not> done then ((None, SelFailed), rc, routes)
                 else let (_, rc, routes) = sync_source (bi_mixer b) (rc, routes);
                          selected = (if ro_active (routes ! pos) then Some pos
                            else List.find (\<lambda>c. bi_mixer (rc_bindings rc ! c) = bi_mixer b \<and> bi_source (rc_bindings rc ! c) \<noteq> None
                                     \<and> ro_active (routes ! c)) [0..<length (rc_bindings rc)])
                      in ((selected, if selected = Some pos then SelApplied else SelDeflected), rc, routes)))"

record value_outcome =
  vo_volume :: bool
  vo_mute :: bool
  vo_volume_failed :: bool
  vo_mute_failed :: bool

definition apply_value ::
    "nat \<Rightarrow> route_binding \<Rightarrow> route_value_update \<Rightarrow> value_outcome \<times> route_controller \<times> route list \<Rightarrow> value_outcome \<times> route_controller \<times> route list" where
  "apply_value pos b value st =
     (let (out, rc, routes) = st; r = routes ! pos
      in case value of
           UpdMute requested \<Rightarrow>
             if requested = rm_value (ro_mute r) then st
             else let set = routes[pos := r\<lparr>ro_mute := (ro_mute r)\<lparr>rm_value := requested\<rparr>\<rparr>]
                  in (case bi_mute_control b of
                        None \<Rightarrow> (out\<lparr>vo_mute := True\<rparr>, rc, set)
                      | Some control \<Rightarrow>
                          (let (done, rc) = on_mixer (bi_mixer b) (set_muted control requested) rc
                           in if done then (out\<lparr>vo_mute := True\<rparr>, rc, set) else (out\<lparr>vo_mute_failed := True\<rparr>, rc, routes)))
         | UpdVolume [] \<Rightarrow> st
         | UpdVolume (left # rest) \<Rightarrow>
             (let right = (case rest of y # _ \<Rightarrow> y | [] \<Rightarrow> left);
                  levels = (volume_to_level left, volume_to_level right)
              in if levels = native_levels (ro_volume r) then st
                 else let set = routes[pos := r\<lparr>ro_volume := set_native_levels levels (ro_volume r)\<rparr>]
                      in (case bi_volume_control b of
                            None \<Rightarrow> (out\<lparr>vo_volume := True\<rparr>, rc, set)
                          | Some control \<Rightarrow>
                              (let (done, rc) = on_mixer (bi_mixer b) (set_level control (fst levels) (snd levels)) rc
                               in if done then (out\<lparr>vo_volume := True\<rparr>, rc, set) else (out\<lparr>vo_volume_failed := True\<rparr>, rc, routes)))))"

definition route_apply :: "route_key \<Rightarrow> route_update \<Rightarrow> route_controller \<times> route list \<Rightarrow> route_change \<times> route_controller \<times> route list" where
  "route_apply key update st =
     (case route_position (snd st) key of
        None \<Rightarrow> (route_change_default, st)
      | Some pos \<Rightarrow>
          (let ((selected, selection), rc, routes) = apply_selection pos (up_activate update) st;
               rc = resolve_controls pos rc;
               b = rc_bindings rc ! pos;
               (out, rc, routes) = fold (apply_value pos b) (up_values update)
                  (\<lparr>vo_volume = False, vo_mute = False, vo_volume_failed = False, vo_mute_failed = False\<rparr>, rc, routes);
               (counter, rc) = on_mixer (bi_mixer b) modify_counter rc;
               rc = (case counter of
                       Some c \<Rightarrow> rc\<lparr>rc_mixers := (rc_mixers rc)[bi_mixer b := (rc_mixers rc ! bi_mixer b)\<lparr>mh_counter := c\<rparr>]\<rparr>
                     | None \<Rightarrow> rc);
               (changed, volume, mute) = selection_notification_flags routes pos selected (vo_volume out) (vo_mute out);
               warning = (selection = SelFailed \<or> vo_volume_failed out \<or> vo_mute_failed out)
           in (\<lparr>ch_key = Some (ro_key (routes ! changed)), ch_volume = volume, ch_mute = mute, ch_selection = selection,
                ch_refresh = (selection = SelApplied \<or> selection = SelDeflected \<or> volume \<or> mute),
                ch_diagnostic = (if warning then Some LevelWarning else if selection = SelDeflected then Some LevelInfo else None)\<rparr>,
               rc, routes)))"

section \<open>Watching\<close>

definition handles_native_unit :: "route list \<Rightarrow> u32 \<Rightarrow> bool" where
  "handles_native_unit routes unit = list_ex (\<lambda>r. ro_node_id r div 2 = unit) routes"

definition read_hotplug :: "route list \<Rightarrow> hotplug_monitor \<Rightarrow> (bool \<times> bool) \<times> hotplug_monitor" where
  "read_hotplug routes monitor =
     (let ((alive, unit, reconnected), monitor) = read_mixer_event monitor
      in ((alive, reconnected \<or> (case unit of Some u \<Rightarrow> handles_native_unit routes u | None \<Rightarrow> False)), monitor))"

record watch_policy =
  wp_poll_interval_ns :: "u64 option"
  wp_event_driven :: bool

definition route_watch_policy :: watch_policy where
  "route_watch_policy = \<lparr>wp_poll_interval_ns = Some 1000000000, wp_event_driven = True\<rparr>"

end
