(* ===== verification/MixerRoutes.thy ===== *)
theory MixerRoutes
  imports Mixer
begin

text \<open>
  The route controller of \<open>Mixer\<close>: its bindings and mixers stay parallel to the routes it announced, polling
  reports every change a listener could see, and a route only shows what the hardware accepted.
\<close>

section \<open>What operations keep\<close>

text \<open>The part of the controller and of the routes that no operation changes.\<close>

definition binding_frame :: "route_binding \<Rightarrow> nat \<times> bool \<times> nat option" where
  "binding_frame b = (bi_mixer b, bi_follows_recsrc b, bi_source b)"

definition route_frame ::
    "route \<Rightarrow> route_key \<times> u32 \<times> stream_direction \<times> string \<times> string \<times> int \<times> route_availability \<times> bool" where
  "route_frame r = (ro_key r, ro_node_id r, ro_direction r, ro_name r, ro_description r, ro_priority r, ro_availability r, ro_save r)"

definition same_frame :: "route_controller \<times> route list \<Rightarrow> route_controller \<times> route list \<Rightarrow> bool" where
  "same_frame st st' \<longleftrightarrow>
     map binding_frame (rc_bindings (fst st')) = map binding_frame (rc_bindings (fst st))
   \<and> length (rc_mixers (fst st')) = length (rc_mixers (fst st))
   \<and> map route_frame (snd st') = map route_frame (snd st)"

lemma same_frame_refl [simp]: "same_frame st st"
  by (simp add: same_frame_def)

lemma same_frame_trans: "same_frame a b \<Longrightarrow> same_frame b c \<Longrightarrow> same_frame a c"
  by (simp add: same_frame_def)

lemma same_frame_fold:
  assumes "\<And>x st. same_frame st (f x st)"
  shows "same_frame st (fold f xs st)"
proof (induction xs arbitrary: st)
  case (Cons x xs)
  show ?case unfolding fold_simps by (rule same_frame_trans[OF assms Cons])
qed simp

lemma same_frame_length:
  "same_frame st st' \<Longrightarrow> length (snd st') = length (snd st) \<and> length (rc_bindings (fst st')) = length (rc_bindings (fst st))"
  unfolding same_frame_def by (metis length_map)

lemma same_frame_mixer:
  assumes "same_frame st st'" "length (rc_bindings (fst st)) = length (snd st)" "pos < length (snd st)"
  shows "bi_mixer (rc_bindings (fst st') ! pos) = bi_mixer (rc_bindings (fst st) ! pos)"
proof -
  have "binding_frame (rc_bindings (fst st') ! pos) = binding_frame (rc_bindings (fst st) ! pos)"
    using assms same_frame_length[OF assms(1)] unfolding same_frame_def by (metis nth_map)
  then show ?thesis by (simp add: binding_frame_def)
qed

lemma same_frame_key:
  assumes "same_frame st st'" "pos < length (snd st)"
  shows "ro_key (snd st' ! pos) = ro_key (snd st ! pos)"
proof -
  have "route_frame (snd st' ! pos) = route_frame (snd st ! pos)"
    using assms same_frame_length[OF assms(1)] unfolding same_frame_def by (metis nth_map)
  then show ?thesis by (simp add: route_frame_def)
qed

lemma map_update_same: "f x = f (xs ! i) \<Longrightarrow> map f (xs[i := x]) = map f xs"
  by (metis map_update list_update_id)

lemma on_mixer_frame:
  assumes "on_mixer i f rc = (r, rc')"
  shows "rc_bindings rc' = rc_bindings rc" "length (rc_mixers rc') = length (rc_mixers rc)"
  using assms by (auto simp: on_mixer_def Let_def split: prod.splits)

lemma resolve_frame: "same_frame (rc, rs) (resolve_controls pos rc, rs)"
proof (cases "bi_follows_recsrc (rc_bindings rc ! pos)")
  case True
  let ?b = "rc_bindings rc ! pos"
  obtain p rc1 where 1: "on_mixer (bi_mixer ?b) input_control rc = (p, rc1)" by (cases "on_mixer (bi_mixer ?b) input_control rc")
  note f1 = on_mixer_frame[OF 1]
  show ?thesis
  proof (cases "\<exists>c. p = Some (c, True)")
    case c: True
    then obtain c where c: "p = Some (c, True)" by blast
    obtain l rc2 where 2: "on_mixer (bi_mixer ?b) (mixer_level c) rc1 = (l, rc2)" by (cases "on_mixer (bi_mixer ?b) (mixer_level c) rc1")
    obtain m rc3 where 3: "on_mixer (bi_mixer ?b) (mixer_muted c) rc2 = (m, rc3)" by (cases "on_mixer (bi_mixer ?b) (mixer_muted c) rc2")
    show ?thesis using True 1 2 3 c f1 on_mixer_frame[OF 2] on_mixer_frame[OF 3]
      by (simp add: resolve_controls_def Let_def same_frame_def map_update_same binding_frame_def)
  next
    case False
    then have "resolve_controls pos rc = rc1" using True 1
      by (auto simp: resolve_controls_def Let_def split: option.split)
    then show ?thesis using f1 by (simp add: same_frame_def)
  qed
qed (simp add: resolve_controls_def Let_def)

text \<open>Refreshing touches one route, and of that the volume and the mute.\<close>

lemma refresh_spec:
  obtains rc' r where "route_refresh pos (rc, rs) = (rc', rs[pos := r])" "same_frame (rc, rs) (rc', rs)"
    "route_frame r = route_frame (rs ! pos)" "ro_active r = ro_active (rs ! pos)"
proof -
  define rc0 where "rc0 = resolve_controls pos rc"
  define b where "b = rc_bindings rc0 ! pos"
  define r0 where "r0 = (rs ! pos)\<lparr>ro_volume := (ro_volume (rs ! pos))\<lparr>rv_hardware := bi_volume_control b \<noteq> None\<rparr>,
                ro_mute := (ro_mute (rs ! pos))\<lparr>rm_hardware := bi_mute_control b \<noteq> None\<rparr>\<rparr>"
  obtain l rc1 where 1: "on_mixer (bi_mixer b) (opt_ioctl mixer_level (bi_volume_control b)) rc0 = (l, rc1)"
    by (cases "on_mixer (bi_mixer b) (opt_ioctl mixer_level (bi_volume_control b)) rc0")
  define r1 where "r1 = (case l of Some l \<Rightarrow> r0\<lparr>ro_volume := set_native_levels l (ro_volume r0)\<rparr> | None \<Rightarrow> r0)"
  obtain m rc2 where 2: "on_mixer (bi_mixer b) (opt_ioctl mixer_muted (bi_mute_control b)) rc1 = (m, rc2)"
    by (cases "on_mixer (bi_mixer b) (opt_ioctl mixer_muted (bi_mute_control b)) rc1")
  define r2 where "r2 = (case m of Some v \<Rightarrow> r1\<lparr>ro_mute := (ro_mute r1)\<lparr>rm_value := v\<rparr>\<rparr> | None \<Rightarrow> r1)"
  have "route_refresh pos (rc, rs) = (rc2, rs[pos := r2])"
    unfolding route_refresh_def Let_def case_prod_conv rc0_def[symmetric] b_def[symmetric] r0_def[symmetric] 1 r1_def[symmetric] 2
    by (simp add: r2_def)
  moreover have "same_frame (rc, rs) (rc2, rs)"
    using resolve_frame[of rc rs pos] on_mixer_frame[OF 1] on_mixer_frame[OF 2] by (simp add: same_frame_def rc0_def)
  moreover have "route_frame r2 = route_frame (rs ! pos)" "ro_active r2 = ro_active (rs ! pos)"
    by (auto simp: r2_def r1_def r0_def route_frame_def split: option.split)
  ultimately show thesis by (rule that)
qed

lemma refresh_frame: "same_frame st (route_refresh pos st)"
proof -
  obtain rc rs where st: "st = (rc, rs)" by (cases st)
  show ?thesis unfolding st
    by (rule refresh_spec[of pos rc rs]) (simp add: same_frame_def map_update_same)
qed

lemma refresh_other: "p \<noteq> pos \<Longrightarrow> snd (route_refresh pos st) ! p = snd st ! p"
proof -
  obtain rc rs where st: "st = (rc, rs)" by (cases st)
  show "p \<noteq> pos \<Longrightarrow> ?thesis" unfolding st by (rule refresh_spec[of pos rc rs]) simp
qed

lemma refresh_active: "ro_active (snd (route_refresh pos st) ! p) = ro_active (snd st ! p)"
proof -
  obtain rc rs where st: "st = (rc, rs)" by (cases st)
  show ?thesis unfolding st
    by (rule refresh_spec[of pos rc rs], cases "p = pos \<and> pos < length rs") (auto simp: nth_list_update list_update_beyond)
qed

section \<open>Following the recording source\<close>

lemma sync_loop_spec:
  assumes "sync_source_loop mixer selected k rs bs = (changed, rs')" "length rs = length bs"
  shows "length rs' = length rs \<and> map route_frame rs' = map route_frame rs
    \<and> (\<forall>p<length rs. (k + p \<in> set changed \<longrightarrow> bi_mixer (bs ! p) = mixer \<and> ro_active (rs' ! p) \<noteq> ro_active (rs ! p))
                   \<and> (k + p \<notin> set changed \<longrightarrow> rs' ! p = rs ! p))
    \<and> (\<forall>q\<in>set changed. k \<le> q \<and> q < k + length rs)"
  using assms
proof (induction mixer selected k rs bs arbitrary: changed rs' rule: sync_source_loop.induct)
  case (1 mixer selected k r rs b bs)
  obtain ch rest where e: "sync_source_loop mixer selected (k + 1) rs bs = (ch, rest)"
    by (cases "sync_source_loop mixer selected (k + 1) rs bs")
  have len: "length rs = length bs" using 1(3) by simp
  have ih: "length rest = length rs" "map route_frame rest = map route_frame rs"
    "\<And>p. p < length rs \<Longrightarrow> (k + 1 + p \<in> set ch \<longrightarrow> bi_mixer (bs ! p) = mixer \<and> ro_active (rest ! p) \<noteq> ro_active (rs ! p))
       \<and> (k + 1 + p \<notin> set ch \<longrightarrow> rest ! p = rs ! p)"
    "\<And>q. q \<in> set ch \<Longrightarrow> k + 1 \<le> q \<and> q < k + 1 + length rs"
    using 1(1)[OF e len] by blast+
  obtain r' flip where r': "rs' = r' # rest" "changed = (if flip then [k] else []) @ ch" "route_frame r' = route_frame r"
    "flip \<longrightarrow> bi_mixer b = mixer \<and> ro_active r' \<noteq> ro_active r" "\<not> flip \<longrightarrow> r' = r"
  proof (cases "bi_source b")
    case None
    then show thesis using that[of r False] 1(2) e by simp
  next
    case (Some source)
    show thesis
    proof (cases "bi_mixer b = mixer \<and> ro_active r \<noteq> bit selected source")
      case True
      then show thesis using that[of "r\<lparr>ro_active := bit selected source\<rparr>" True] 1(2) e Some
        by (auto simp: route_frame_def Let_def)
    next
      case False
      then show thesis using that[of r False] 1(2) e Some by (auto simp: Let_def split: if_splits)
    qed
  qed
  have k: "k \<notin> set ch" using ih(4)[of k] by auto
  show ?case
  proof (intro conjI allI impI ballI)
    fix p assume p: "p < length (r # rs)"
    { assume q: "k + p \<in> set changed"
      show "bi_mixer ((b # bs) ! p) = mixer" using q ih(3)[of "p - 1"] k r' p by (cases p) (auto split: if_splits)
      show "ro_active (rs' ! p) \<noteq> ro_active ((r # rs) ! p)" using q ih(3)[of "p - 1"] k r' p by (cases p) (auto split: if_splits)
    }
    assume q: "k + p \<notin> set changed"
    show "rs' ! p = (r # rs) ! p" using q ih(3)[of "p - 1"] k r' p by (cases p) (auto split: if_splits)
  next
    fix q assume "q \<in> set changed"
    then show "k \<le> q" "q < k + length (r # rs)" using ih(4)[of q] r'(2) by (auto split: if_splits)
  qed (use ih r' in auto)
qed simp_all

lemma refresh_some_fold:
  fixes P :: "route_controller \<times> route list \<Rightarrow> nat \<Rightarrow> bool"
  assumes "p \<notin> set ps"
  shows "snd (fold (\<lambda>pos st. if P st pos then route_refresh pos st else st) ps st) ! p = snd st ! p"
  using assms
proof (induction ps arbitrary: st)
  case (Cons q ps)
  then show ?case using refresh_other[of p q st] by (simp del: split_paired_All)
qed simp

lemma refresh_active_fold:
  "ro_active (snd (fold (\<lambda>pos st. if P st pos then route_refresh pos st else st) ps st) ! p) = ro_active (snd st ! p)"
proof (induction ps arbitrary: st)
  case (Cons q ps)
  then show ?case by (simp add: refresh_active)
qed simp

text \<open>Following the source moves exactly the activity it reports; nothing else of another mixer changes.\<close>

lemma sync_source_spec:
  assumes "sync_source mixer st = (changed, st')" "length (rc_bindings (fst st)) = length (snd st)"
  shows "same_frame st st'"
    and "changed = None \<Longrightarrow> snd st' = snd st"
    and "changed = Some ps \<Longrightarrow> p < length (snd st) \<Longrightarrow>
      (p \<in> set ps \<longrightarrow> bi_mixer (rc_bindings (fst st) ! p) = mixer \<and> ro_active (snd st' ! p) \<noteq> ro_active (snd st ! p))
      \<and> (p \<notin> set ps \<longrightarrow> snd st' ! p = snd st ! p)"
    and "changed = Some ps \<Longrightarrow> p \<in> set ps \<Longrightarrow> p < length (snd st)"
proof -
  obtain rc rs where st: "st = (rc, rs)" by (cases st)
  have len: "length rs = length (rc_bindings rc)" using assms(2) by (simp add: st)
  have all: "same_frame st st' \<and> (changed = None \<longrightarrow> snd st' = snd st) \<and> (\<forall>ps. changed = Some ps \<longrightarrow>
      (\<forall>p<length rs. (p \<in> set ps \<longrightarrow> bi_mixer (rc_bindings rc ! p) = mixer \<and> ro_active (snd st' ! p) \<noteq> ro_active (rs ! p))
        \<and> (p \<notin> set ps \<longrightarrow> snd st' ! p = rs ! p)) \<and> (\<forall>p\<in>set ps. p < length rs))"
  proof (cases "list_ex (\<lambda>b. bi_mixer b = mixer \<and> bi_source b \<noteq> None) (rc_bindings rc)")
    case False
    then show ?thesis using assms(1) by (auto simp: sync_source_def st)
  next
    case True
    obtain recsrc rc1 where 1: "on_mixer mixer mixer_recsrc rc = (recsrc, rc1)" by (cases "on_mixer mixer mixer_recsrc rc")
    note f1 = on_mixer_frame[OF 1]
    show ?thesis
    proof (cases recsrc)
      case None
      then show ?thesis using assms(1) True 1 f1 by (auto simp: sync_source_def st same_frame_def)
    next
      case (Some v)
      let ?sel = "selected_recording_sources (mx_recmask (mh_mixer (rc_mixers rc1 ! mixer))) v"
      let ?f = "\<lambda>pos st. if ro_active (snd st ! pos) then route_refresh pos st else st"
      obtain ps rs1 where loop: "sync_source_loop mixer ?sel 0 rs (rc_bindings rc) = (ps, rs1)"
        by (cases "sync_source_loop mixer ?sel 0 rs (rc_bindings rc)")
      have st': "changed = Some ps" "st' = fold ?f ps (rc1, rs1)"
        using assms(1) True 1 Some loop f1 by (auto simp: sync_source_def st sync_source_routes_def)
      note l = sync_loop_spec[OF loop len]
      have "same_frame (rc1, rs1) st'" unfolding st'(2) by (rule same_frame_fold) (simp add: refresh_frame)
      moreover have "same_frame st (rc1, rs1)" using l f1 by (simp add: same_frame_def st)
      ultimately have fr: "same_frame st st'" by (rule same_frame_trans[rotated])
      have act: "ro_active (snd st' ! p) = ro_active (rs1 ! p)" for p
        unfolding st'(2) using refresh_active_fold[of "\<lambda>st pos. ro_active (snd st ! pos)" ps "(rc1, rs1)" p] by simp
      have oth: "snd st' ! p = rs1 ! p" if "p \<notin> set ps" for p
        unfolding st'(2) using refresh_some_fold[OF that, of "\<lambda>st pos. ro_active (snd st ! pos)" "(rc1, rs1)"] by simp
      show ?thesis using fr l act oth st'(1) by auto
    qed
  qed
  show "same_frame st st'" "changed = None \<Longrightarrow> snd st' = snd st" using all by blast+
  show "changed = Some ps \<Longrightarrow> p < length (snd st) \<Longrightarrow>
      (p \<in> set ps \<longrightarrow> bi_mixer (rc_bindings (fst st) ! p) = mixer \<and> ro_active (snd st' ! p) \<noteq> ro_active (snd st ! p))
      \<and> (p \<notin> set ps \<longrightarrow> snd st' ! p = snd st ! p)" "changed = Some ps \<Longrightarrow> p \<in> set ps \<Longrightarrow> p < length (snd st)"
    using all by (simp_all add: st)
qed

section \<open>Polling\<close>

text \<open>A change of a route somebody can see: its activity, or the volume or mute of an active route.\<close>

definition visible_change :: "route \<Rightarrow> route \<Rightarrow> bool" where
  "visible_change r r' \<longleftrightarrow> ro_active r \<noteq> ro_active r' \<or> ro_active r' \<and> (ro_volume r \<noteq> ro_volume r' \<or> ro_mute r \<noteq> ro_mute r')"

lemma poll_route_spec:
  assumes "poll_route mixer pos (ch, rc, rs) = (ch', rc', rs')"
  obtains new where "ch' = ch @ new" "same_frame (rc, rs) (rc', rs')" "\<And>p. p \<noteq> pos \<Longrightarrow> rs' ! p = rs ! p"
    "bi_mixer (rc_bindings rc ! pos) \<noteq> mixer \<Longrightarrow> rs' = rs" "ro_active (rs' ! pos) = ro_active (rs ! pos)"
    "visible_change (rs ! pos) (rs' ! pos) \<Longrightarrow> Some (ro_key (rs' ! pos)) \<in> ch_key ` set new"
    "\<forall>c\<in>set new. ch_key c = Some (ro_key (rs' ! pos)) \<and> ch_refresh c"
proof (cases "bi_mixer (rc_bindings rc ! pos) \<noteq> mixer")
  case True
  then show thesis using assms that[of "[]"] by (simp add: poll_route_def visible_change_def)
next
  case False
  obtain rc1 rs1 where 1: "route_refresh pos (rc, rs) = (rc1, rs1)" by (cases "route_refresh pos (rc, rs)")
  have fr: "same_frame (rc, rs) (rc1, rs1)" using refresh_frame[of "(rc, rs)" pos] by (simp add: 1)
  have oth: "rs1 ! p = rs ! p" if "p \<noteq> pos" for p using refresh_other[OF that, of "(rc, rs)"] by (simp add: 1)
  have act: "ro_active (rs1 ! pos) = ro_active (rs ! pos)" using refresh_active[of pos "(rc, rs)" pos] by (simp add: 1)
  let ?v = "ro_volume (rs ! pos) \<noteq> ro_volume (rs1 ! pos)" and ?m = "ro_mute (rs ! pos) \<noteq> ro_mute (rs1 ! pos)"
  let ?c = "\<lparr>ch_key = Some (ro_key (rs1 ! pos)), ch_volume = ?v, ch_mute = ?m, ch_selection = SelUnchanged,
      ch_refresh = True, ch_diagnostic = Some LevelInfo\<rparr>"
  have e: "rs' = rs1" "rc' = rc1" "ch' = ch @ (if ro_active (rs1 ! pos) \<and> (?v \<or> ?m) then [?c] else [])"
    using assms False 1 by (auto simp: poll_route_def Let_def)
  show thesis
    by (rule that[of "if ro_active (rs1 ! pos) \<and> (?v \<or> ?m) then [?c] else []"])
      (use False fr oth act in \<open>auto simp: e visible_change_def\<close>)
qed

lemma poll_routes_spec:
  assumes "fold (poll_route mixer) ps (ch, rc, rs) = (ch', rc', rs')" "distinct ps" "set ps \<subseteq> {..<length rs}"
    "length (rc_bindings rc) = length rs"
  shows "same_frame (rc, rs) (rc', rs') \<and> (\<forall>p. p \<notin> set ps \<longrightarrow> rs' ! p = rs ! p)
    \<and> (\<forall>p<length rs. bi_mixer (rc_bindings rc ! p) \<noteq> mixer \<longrightarrow> rs' ! p = rs ! p)
    \<and> (\<exists>new. ch' = ch @ new \<and> (\<forall>p\<in>set ps. visible_change (rs ! p) (rs' ! p) \<longrightarrow> Some (ro_key (rs ! p)) \<in> ch_key ` set new)
         \<and> (\<forall>c\<in>set new. \<exists>p<length rs. ch_key c = Some (ro_key (rs ! p)) \<and> ch_refresh c))"
  using assms
proof (induction ps arbitrary: ch rc rs)
  case Nil
  then show ?case by simp
next
  case (Cons q ps)
  obtain ch1 rc1 rs1 where 1: "poll_route mixer q (ch, rc, rs) = (ch1, rc1, rs1)" by (metis prod_cases3)
  obtain new1 where n1: "ch1 = ch @ new1" "same_frame (rc, rs) (rc1, rs1)" "\<And>p. p \<noteq> q \<Longrightarrow> rs1 ! p = rs ! p"
    "bi_mixer (rc_bindings rc ! q) \<noteq> mixer \<Longrightarrow> rs1 = rs"
    "visible_change (rs ! q) (rs1 ! q) \<Longrightarrow> Some (ro_key (rs1 ! q)) \<in> ch_key ` set new1"
    "\<forall>c\<in>set new1. ch_key c = Some (ro_key (rs1 ! q)) \<and> ch_refresh c" by (rule poll_route_spec[OF 1]) blast
  have q: "q < length rs" "q \<notin> set ps" using Cons.prems by simp_all
  have len: "length rs1 = length rs" "length (rc_bindings rc1) = length rs1"
    using same_frame_length[OF n1(2)] Cons.prems(4) by simp_all
  have key: "ro_key (rs1 ! p) = ro_key (rs ! p)" if "p < length rs" for p using same_frame_key[OF n1(2), of p] that by simp
  have mix: "bi_mixer (rc_bindings rc1 ! p) = bi_mixer (rc_bindings rc ! p)" if "p < length rs" for p
    using same_frame_mixer[OF n1(2), of p] that Cons.prems(4) by simp
  have "fold (poll_route mixer) ps (ch1, rc1, rs1) = (ch', rc', rs')" using Cons.prems(1) by (simp add: 1)
  from Cons.IH[OF this] Cons.prems(2,3) len obtain new2 where n2: "same_frame (rc1, rs1) (rc', rs')"
    "\<forall>p. p \<notin> set ps \<longrightarrow> rs' ! p = rs1 ! p" "\<forall>p<length rs1. bi_mixer (rc_bindings rc1 ! p) \<noteq> mixer \<longrightarrow> rs' ! p = rs1 ! p"
    "ch' = ch1 @ new2" "\<forall>p\<in>set ps. visible_change (rs1 ! p) (rs' ! p) \<longrightarrow> Some (ro_key (rs1 ! p)) \<in> ch_key ` set new2"
    "\<forall>c\<in>set new2. \<exists>p<length rs1. ch_key c = Some (ro_key (rs1 ! p)) \<and> ch_refresh c" by auto
  have vis: "Some (ro_key (rs ! p)) \<in> ch_key ` set (new1 @ new2)" if "p \<in> set (q # ps)" "visible_change (rs ! p) (rs' ! p)" for p
  proof (cases "p = q")
    case True
    then have "rs' ! p = rs1 ! q" using n2(2) q(2) by blast
    then show ?thesis using n1(5) that(2) True key[OF q(1)] by auto
  next
    case False
    then have "p \<in> set ps" "rs1 ! p = rs ! p" using that(1) n1(3) by auto
    then show ?thesis using n2(5) that(2) by auto
  qed
  have other: "rs' ! p = rs ! p" if "p < length rs" "bi_mixer (rc_bindings rc ! p) \<noteq> mixer" for p
  proof -
    have "rs1 ! p = rs ! p" using n1(3)[of p] n1(4) that(2) by (cases "p = q") auto
    then show ?thesis using n2(3) mix[OF that(1)] that len(1) by simp
  qed
  have keys: "\<forall>c\<in>set (new1 @ new2). \<exists>p<length rs. ch_key c = Some (ro_key (rs ! p)) \<and> ch_refresh c"
  proof
    fix c assume "c \<in> set (new1 @ new2)"
    then consider "c \<in> set new1" | "c \<in> set new2" by auto
    then show "\<exists>p<length rs. ch_key c = Some (ro_key (rs ! p)) \<and> ch_refresh c"
    proof cases
      case 1
      then show ?thesis using n1(6) key[OF q(1)] q(1) by auto
    next
      case 2
      then show ?thesis using n2(6) key len(1) by metis
    qed
  qed
  have "rs' ! p = rs ! p" if "p \<notin> set (q # ps)" for p using n2(2) n1(3)[of p] that by simp
  moreover have "same_frame (rc, rs) (rc', rs')" using n1(2) n2(1) by (rule same_frame_trans)
  moreover have "ch' = ch @ (new1 @ new2)" by (simp add: n1(1) n2(4))
  ultimately show ?case using vis other keys by blast
qed

lemma poll_mixer_spec:
  assumes "poll_mixer mixer (ch, rc, rs) = (ch', rc', rs')" "length (rc_bindings rc) = length rs"
  shows "same_frame (rc, rs) (rc', rs') \<and> (\<forall>p<length rs. bi_mixer (rc_bindings rc ! p) \<noteq> mixer \<longrightarrow> rs' ! p = rs ! p)
    \<and> (\<exists>new. ch' = ch @ new
         \<and> (\<forall>p<length rs. rs' ! p = rs ! p \<or> \<not> visible_change (rs ! p) (rs' ! p) \<or> Some (ro_key (rs ! p)) \<in> ch_key ` set new
              \<or> fst (on_mixer mixer modify_counter rc) = None)
         \<and> (\<forall>c\<in>set new. \<exists>p<length rs. ch_key c = Some (ro_key (rs ! p)) \<and> ch_refresh c))"
proof -
  obtain counter rc1 where 1: "on_mixer mixer modify_counter rc = (counter, rc1)" by (cases "on_mixer mixer modify_counter rc")
  note f1 = on_mixer_frame[OF 1]
  show ?thesis
  proof (cases counter)
    case None
    then have e: "ch' = ch" "rc' = rc1" "rs' = rs" using assms(1) 1 by (simp_all add: poll_mixer_def)
    show ?thesis unfolding e using f1 by (auto simp: same_frame_def)
  next
    case (Some counter)
    let ?rc1 = "rc1\<lparr>rc_mixers := (rc_mixers rc1)[mixer := (rc_mixers rc1 ! mixer)\<lparr>mh_counter := counter\<rparr>]\<rparr>"
    obtain changed rc2 rs2 where 2: "sync_source mixer (?rc1, rs) = (changed, rc2, rs2)" by (metis prod_cases3)
    let ?sel = "case changed of Some ps \<Rightarrow> map (\<lambda>pos. external_selection_change (rs2 ! pos)) ps | None \<Rightarrow> []"
    have 3: "fold (poll_route mixer) [0..<length rs2] (ch @ ?sel, rc2, rs2) = (ch', rc', rs')"
      using assms(1) 1 Some 2 by (simp add: poll_mixer_def Let_def)
    have len1: "length (rc_bindings (fst (?rc1, rs))) = length (snd (?rc1, rs))" using f1 assms(2) by simp
    note s = sync_source_spec[OF 2 len1, unfolded fst_conv snd_conv]
    have fr0: "same_frame (rc, rs) (?rc1, rs)" using f1 by (simp add: same_frame_def)
    have fr2: "same_frame (rc, rs) (rc2, rs2)" by (rule same_frame_trans[OF fr0 s(1)])
    have len: "length rs2 = length rs" "length (rc_bindings rc2) = length rs2"
      using same_frame_length[OF fr2] assms(2) by simp_all
    have key: "ro_key (rs2 ! p) = ro_key (rs ! p)" if "p < length rs" for p using same_frame_key[OF fr2, of p] that by simp
    have mix: "bi_mixer (rc_bindings rc2 ! p) = bi_mixer (rc_bindings rc ! p)" if "p < length rs" for p
      using same_frame_mixer[OF fr2, of p] that assms(2) by simp
    have sub: "set [0..<length rs2] \<subseteq> {..<length rs2}" by auto
    from poll_routes_spec[OF 3 distinct_upt sub len(2)] obtain new where n: "same_frame (rc2, rs2) (rc', rs')"
      "\<forall>p<length rs2. bi_mixer (rc_bindings rc2 ! p) \<noteq> mixer \<longrightarrow> rs' ! p = rs2 ! p" "ch' = (ch @ ?sel) @ new"
      "\<forall>p\<in>set [0..<length rs2]. visible_change (rs2 ! p) (rs' ! p) \<longrightarrow> Some (ro_key (rs2 ! p)) \<in> ch_key ` set new"
      "\<forall>c\<in>set new. \<exists>p<length rs2. ch_key c = Some (ro_key (rs2 ! p)) \<and> ch_refresh c" by blast
    have same2: "rs2 ! p = rs ! p" if "p < length rs" "\<And>ps. changed = Some ps \<Longrightarrow> p \<notin> set ps" for p
      using s(2) s(3)[of _ p] that by (cases changed) simp_all
    have other: "rs' ! p = rs ! p" if "p < length rs" "bi_mixer (rc_bindings rc ! p) \<noteq> mixer" for p
    proof -
      have "rs2 ! p = rs ! p" using same2[OF that(1)] s(3)[of _ p] that f1(1) by auto
      then show ?thesis using n(2) mix[OF that(1)] that len(1) by simp
    qed
    have vis: "Some (ro_key (rs ! p)) \<in> ch_key ` set (?sel @ new)" if "p < length rs" "visible_change (rs ! p) (rs' ! p)" for p
    proof (cases "\<exists>ps. changed = Some ps \<and> p \<in> set ps")
      case True
      then show ?thesis using key[OF that(1)] by (force simp: external_selection_change_def)
    next
      case False
      then have e: "rs2 ! p = rs ! p" using same2[OF that(1)] by blast
      have "p \<in> set [0..<length rs2]" using that(1) len(1) by simp
      then have "Some (ro_key (rs ! p)) \<in> ch_key ` set new" using n(4) that(2) unfolding e[symmetric] by blast
      then show ?thesis unfolding set_append image_Un by blast
    qed
    have keys: "\<exists>p<length rs. ch_key c = Some (ro_key (rs ! p)) \<and> ch_refresh c" if "c \<in> set (?sel @ new)" for c
    proof -
      consider ps p where "changed = Some ps" "p \<in> set ps" "c = external_selection_change (rs2 ! p)" | "c \<in> set new"
        using \<open>c \<in> set (?sel @ new)\<close> by (auto split: option.splits)
      then show ?thesis
      proof cases
        case 1
        then show ?thesis using s(4)[OF 1(1,2)] key by (auto simp: external_selection_change_def)
      next
        case 2
        then show ?thesis using n(5) key len(1) by metis
      qed
    qed
    have "same_frame (rc, rs) (rc', rs')" by (rule same_frame_trans[OF fr2 n(1)])
    moreover have "ch' = ch @ (?sel @ new)" by (simp add: n(3))
    ultimately show ?thesis using other vis keys by blast
  qed
qed

text \<open>A mixer whose modify counter cannot be read is passed over; the counters a poll reads, in order.\<close>

fun polled :: "nat list \<Rightarrow> route_change list \<times> route_controller \<times> route list \<Rightarrow> nat list" where
  "polled [] st = []"
| "polled (i # is) st =
     (if fst (on_mixer i modify_counter (fst (snd st))) = None then [] else [i]) @ polled is (poll_mixer i st)"

lemma poll_fold_spec:
  assumes "fold poll_mixer is (ch, rc, rs) = (ch', rc', rs')" "distinct is" "length (rc_bindings rc) = length rs"
  shows "same_frame (rc, rs) (rc', rs')
    \<and> (\<forall>p<length rs. bi_mixer (rc_bindings rc ! p) \<notin> set is \<longrightarrow> rs' ! p = rs ! p)
    \<and> (\<exists>new. ch' = ch @ new
         \<and> (\<forall>p<length rs. bi_mixer (rc_bindings rc ! p) \<in> set (polled is (ch, rc, rs)) \<longrightarrow> visible_change (rs ! p) (rs' ! p) \<longrightarrow>
              Some (ro_key (rs ! p)) \<in> ch_key ` set new)
         \<and> (\<forall>c\<in>set new. \<exists>p<length rs. ch_key c = Some (ro_key (rs ! p)) \<and> ch_refresh c))"
  using assms
proof (induction "is" arbitrary: ch rc rs)
  case Nil
  then show ?case by simp
next
  case (Cons i "is")
  obtain ch1 rc1 rs1 where 1: "poll_mixer i (ch, rc, rs) = (ch1, rc1, rs1)" by (metis prod_cases3)
  from poll_mixer_spec[OF 1 Cons.prems(3)] obtain new1 where n1: "same_frame (rc, rs) (rc1, rs1)"
    "\<forall>p<length rs. bi_mixer (rc_bindings rc ! p) \<noteq> i \<longrightarrow> rs1 ! p = rs ! p" "ch1 = ch @ new1"
    "\<forall>p<length rs. rs1 ! p = rs ! p \<or> \<not> visible_change (rs ! p) (rs1 ! p) \<or> Some (ro_key (rs ! p)) \<in> ch_key ` set new1
        \<or> fst (on_mixer i modify_counter rc) = None"
    "\<forall>c\<in>set new1. \<exists>p<length rs. ch_key c = Some (ro_key (rs ! p)) \<and> ch_refresh c" by blast
  have len: "length rs1 = length rs" "length (rc_bindings rc1) = length rs1"
    using same_frame_length[OF n1(1)] Cons.prems(3) by simp_all
  have key: "ro_key (rs1 ! p) = ro_key (rs ! p)" if "p < length rs" for p using same_frame_key[OF n1(1), of p] that by simp
  have mix: "bi_mixer (rc_bindings rc1 ! p) = bi_mixer (rc_bindings rc ! p)" if "p < length rs" for p
    using same_frame_mixer[OF n1(1), of p] that Cons.prems(3) by simp
  have "fold poll_mixer is (ch1, rc1, rs1) = (ch', rc', rs')" using Cons.prems(1) by (simp add: 1)
  from Cons.IH[OF this _ len(2)] Cons.prems(2) obtain new2 where n2: "same_frame (rc1, rs1) (rc', rs')"
    "\<forall>p<length rs1. bi_mixer (rc_bindings rc1 ! p) \<notin> set is \<longrightarrow> rs' ! p = rs1 ! p" "ch' = ch1 @ new2"
    "\<forall>p<length rs1. bi_mixer (rc_bindings rc1 ! p) \<in> set (polled is (ch1, rc1, rs1)) \<longrightarrow> visible_change (rs1 ! p) (rs' ! p) \<longrightarrow>
        Some (ro_key (rs1 ! p)) \<in> ch_key ` set new2"
    "\<forall>c\<in>set new2. \<exists>p<length rs1. ch_key c = Some (ro_key (rs1 ! p)) \<and> ch_refresh c" by auto
  have sub: "set (polled js st) \<subseteq> set js" for js st by (induction js st rule: polled.induct) auto
  have vis: "Some (ro_key (rs ! p)) \<in> ch_key ` set (new1 @ new2)"
    if p: "p < length rs" "bi_mixer (rc_bindings rc ! p) \<in> set (polled (i # is) (ch, rc, rs))" "visible_change (rs ! p) (rs' ! p)" for p
  proof (cases "bi_mixer (rc_bindings rc ! p) = i")
    case True
    have "i \<notin> set (polled is (ch1, rc1, rs1))" using subsetD[OF sub, of i "is" "(ch1, rc1, rs1)"] Cons.prems(2) by auto
    moreover have "i \<in> set (polled (i # is) (ch, rc, rs))" using p(2) True by simp
    ultimately have c: "fst (on_mixer i modify_counter rc) \<noteq> None" unfolding polled.simps by (simp only: 1 fst_conv snd_conv) (auto split: if_splits)
    have "bi_mixer (rc_bindings rc1 ! p) \<notin> set is" using True mix[OF p(1)] Cons.prems(2) by simp
    then have e: "rs' ! p = rs1 ! p" using n2(2) p(1) len(1) by simp
    have "\<not> visible_change (rs ! p) (rs ! p)" by (simp add: visible_change_def)
    then have "Some (ro_key (rs ! p)) \<in> ch_key ` set new1" using n1(4) p(1,3) e c by metis
    then show ?thesis by auto
  next
    case False
    then have "rs1 ! p = rs ! p" using n1(2) p(1) by blast
    moreover have "bi_mixer (rc_bindings rc1 ! p) \<in> set (polled is (ch1, rc1, rs1))"
      using p(2) False 1 mix[OF p(1)] by (auto split: if_splits)
    ultimately have "Some (ro_key (rs ! p)) \<in> ch_key ` set new2" using n2(4) p(1,3) len(1) by metis
    then show ?thesis by auto
  qed
  have keys: "\<exists>p<length rs. ch_key c = Some (ro_key (rs ! p)) \<and> ch_refresh c" if "c \<in> set (new1 @ new2)" for c
    using that n1(5) n2(5) key len(1) by (metis Un_iff set_append)
  have other: "rs' ! p = rs ! p" if "p < length rs" "bi_mixer (rc_bindings rc ! p) \<notin> set (i # is)" for p
    using n1(2) n2(2) that mix[OF that(1)] len(1) by simp
  have "ch' = ch @ (new1 @ new2)" by (simp add: n1(3) n2(3))
  moreover have "same_frame (rc, rs) (rc', rs')" by (rule same_frame_trans[OF n1(1) n2(1)])
  ultimately show ?case using vis keys other by blast
qed

section \<open>Applying updates\<close>

lemma apply_selection_frame:
  assumes "apply_selection pos activate st = (sel, st')" "length (rc_bindings (fst st)) = length (snd st)"
  shows "same_frame st st'"
proof -
  obtain rc rs where st: "st = (rc, rs)" by (cases st)
  show ?thesis
  proof (cases "activate \<and> \<not> ro_active (rs ! pos) \<and> bi_source (rc_bindings rc ! pos) \<noteq> None")
    case False
    then show ?thesis using assms(1) by (auto simp: apply_selection_def st Let_def split: option.splits)
  next
    case True
    let ?b = "rc_bindings rc ! pos"
    obtain source where source: "bi_source ?b = Some source" using True by blast
    obtain ok rc1 where 1: "on_mixer (bi_mixer ?b) (set_recsrc (push_bit source 1)) rc = (ok, rc1)"
      by (cases "on_mixer (bi_mixer ?b) (set_recsrc (push_bit source 1)) rc")
    obtain ch rc2 rs2 where 2: "sync_source (bi_mixer ?b) (rc1, rs) = (ch, rc2, rs2)" by (metis prod_cases3)
    note f1 = on_mixer_frame[OF 1]
    have "same_frame (rc, rs) (rc1, rs)" using f1 by (simp add: same_frame_def)
    moreover have "same_frame (rc1, rs) (rc2, rs2)" using sync_source_spec(1)[OF 2] f1 assms(2) by (simp add: st)
    moreover have "st' = (rc1, rs) \<or> st' = (rc2, rs2)"
      using assms(1) True source 1 2 by (auto simp: apply_selection_def st Let_def split: if_splits)
    ultimately show ?thesis unfolding st using same_frame_trans by blast
  qed
qed

text \<open>One value: the route shows a new level or mute only once the mixer has accepted it.\<close>

definition level_backed :: "route_binding \<Rightarrow> route_controller \<Rightarrow> route_volume \<Rightarrow> bool" where
  "level_backed b rc v = (case bi_volume_control b of
     None \<Rightarrow> True
   | Some control \<Rightarrow> (control, case native_levels v of (l, r) \<Rightarrow> encode_levels l r) \<in> set (mx_written (mh_mixer (rc_mixers rc ! bi_mixer b))))"

definition mute_backed :: "route_binding \<Rightarrow> route_controller \<Rightarrow> bool \<Rightarrow> bool" where
  "mute_backed b rc v = (case bi_mute_control b of
     None \<Rightarrow> True
   | Some control \<Rightarrow> \<exists>value. (SOUND_MIXER_MUTE, value) \<in> set (mx_written (mh_mixer (rc_mixers rc ! bi_mixer b)))
                       \<and> bit (word_of_int value :: 32 word) control = v)"

lemma volume_to_level_le: "volume_to_level v \<le> 100"
proof (cases "v \<le> 0")
  case False
  have "root 3 (min v 1) \<le> root 3 1" by (rule real_root_le_mono) simp_all
  then have "root 3 (min v 1) * 100 \<le> 100" by simp
  then have "round (root 3 (min v 1) * 100) \<le> round (100 :: real)" by (rule round_mono)
  then show ?thesis using False by (simp add: volume_to_level_def)
qed (simp add: volume_to_level_def)

lemma level_round_trip: "volume_to_level (level_to_volume l) = min l 100"
proof (cases "min l 100 = 0")
  case True
  then show ?thesis by (auto simp: volume_to_level_def level_to_volume_def)
next
  case False
  define x where "x = real (min l 100) / 100"
  have x: "0 < x" "x \<le> 1" "x * 100 = real (min l 100)" using False by (auto simp: x_def)
  have v: "level_to_volume l = x ^ 3" by (simp only: level_to_volume_def Let_def x_def[symmetric] power3_eq_cube)
  have le: "x ^ 3 \<le> 1" using x(1,2) by (intro power_le_one) simp_all
  have r: "root 3 (min (x ^ 3) 1) = x"
    unfolding min_absorb1[OF le] by (rule real_root_power_cancel) (use x(1) in simp_all)
  have pos: "\<not> x ^ 3 \<le> 0" using zero_less_power[OF x(1), of 3] by linarith
  have "round (real (min l 100)) = int (min l 100)" by (metis of_int_of_nat_eq round_of_int)
  then show ?thesis unfolding volume_to_level_def v if_not_P[OF pos] r x(3) by (simp only: nat_int)
qed

lemma native_levels_set: "native_levels (set_native_levels (l, r) v) = (min l 100, min r 100)"
  by (simp add: native_levels_def set_native_levels_def level_round_trip)

lemma on_mixer_written:
  assumes "on_mixer i f rc = (r, rc')" "i < length (rc_mixers rc)"
    "\<And>m r m'. f m = (r, m') \<Longrightarrow> set (mx_written m) \<subseteq> set (mx_written m')"
  shows "set (mx_written (mh_mixer (rc_mixers rc ! j))) \<subseteq> set (mx_written (mh_mixer (rc_mixers rc' ! j)))"
proof -
  obtain m' where m': "f (mh_mixer (rc_mixers rc ! i)) = (r, m')"
    "rc' = rc\<lparr>rc_mixers := (rc_mixers rc)[i := (rc_mixers rc ! i)\<lparr>mh_mixer := m'\<rparr>]\<rparr>"
    using assms(1) by (auto simp: on_mixer_def Let_def split: prod.splits)
  show ?thesis using assms(2) assms(3)[OF m'(1)] by (cases "j = i") (simp_all add: m'(2))
qed

lemma written_grows:
  "mixer_read_int d m = (v, m') \<Longrightarrow> mx_written m' = mx_written m"
  "mixer_write_int d x m = (ok, m') \<Longrightarrow> set (mx_written m) \<subseteq> set (mx_written m')"
  "set_muted c q m = (ok, m') \<Longrightarrow> set (mx_written m) \<subseteq> set (mx_written m')"
  "set_level c l r m = (ok, m') \<Longrightarrow> set (mx_written m) \<subseteq> set (mx_written m')"
  "modify_counter m = (cv, m') \<Longrightarrow> mx_written m' = mx_written m"
  by (auto simp: mixer_read_int_def mixer_write_int_def set_muted_def set_level_def modify_counter_def Let_def
      split: list.splits if_splits prod.splits option.splits)

lemma write_recorded: "mixer_write_int d x m = (True, m') \<Longrightarrow> (d, x) \<in> set (mx_written m')"
  by (auto simp: mixer_write_int_def split: list.splits if_splits)

lemma set_muted_recorded:
  assumes "set_muted c q m = (True, m')" "c < 32"
  shows "\<exists>value. (SOUND_MIXER_MUTE, value) \<in> set (mx_written m') \<and> bit (word_of_int value :: 32 word) c = q"
proof -
  obtain old m1 where r: "mixer_read_int SOUND_MIXER_MUTE m = (Some old, m1)"
    using assms(1) by (cases "mixer_read_int SOUND_MIXER_MUTE m"; cases "fst (mixer_read_int SOUND_MIXER_MUTE m)") (auto simp: set_muted_def)
  define w where "w = (let w = word_of_int old :: 32 word; b = push_bit c 1 in if q then w OR b else w AND NOT b)"
  have "mixer_write_int SOUND_MIXER_MUTE (sint w) m1 = (True, m')" using assms(1) r by (simp add: set_muted_def w_def Let_def)
  moreover have "bit (word_of_int (sint w) :: 32 word) c = q"
    using assms(2) by (simp add: w_def Let_def bit_or_iff bit_and_iff bit_not_iff bit_exp_iff possible_bit_word)
  ultimately show ?thesis using write_recorded by blast
qed

lemma backed_mono:
  assumes "set (mx_written (mh_mixer (rc_mixers rc ! bi_mixer b))) \<subseteq> set (mx_written (mh_mixer (rc_mixers rc' ! bi_mixer b)))"
  shows "level_backed b rc v \<Longrightarrow> level_backed b rc' v" "mute_backed b rc q \<Longrightarrow> mute_backed b rc' q"
  using assms by (auto simp: level_backed_def mute_backed_def split: option.splits)

definition applied :: "nat \<Rightarrow> route_binding \<Rightarrow> route_controller \<times> route list \<Rightarrow> value_outcome \<times> route_controller \<times> route list \<Rightarrow> bool" where
  "applied pos b base st \<longleftrightarrow>
     same_frame base (snd st) \<and> rc_bindings (fst (snd st)) = rc_bindings (fst base)
   \<and> (\<forall>p. p \<noteq> pos \<longrightarrow> snd (snd st) ! p = snd base ! p) \<and> ro_active (snd (snd st) ! pos) = ro_active (snd base ! pos)
   \<and> (ro_volume (snd (snd st) ! pos) = ro_volume (snd base ! pos)
      \<or> vo_volume (fst st) \<and> level_backed b (fst (snd st)) (ro_volume (snd (snd st) ! pos)))
   \<and> (ro_mute (snd (snd st) ! pos) = ro_mute (snd base ! pos)
      \<or> vo_mute (fst st) \<and> mute_backed b (fst (snd st)) (rm_value (ro_mute (snd (snd st) ! pos))))"

lemma applied_mixer:
  assumes "applied pos b base (out, rc, rs)" "on_mixer (bi_mixer b) f rc = (r, rc')" "bi_mixer b < length (rc_mixers rc)"
    "\<And>m r m'. f m = (r, m') \<Longrightarrow> set (mx_written m) \<subseteq> set (mx_written m')"
    "vo_volume out \<longrightarrow> vo_volume out'" "vo_mute out \<longrightarrow> vo_mute out'"
  shows "applied pos b base (out', rc', rs)"
  using assms(1,5,6) on_mixer_frame[OF assms(2)] backed_mono[OF on_mixer_written[OF assms(2,3,4)], where b = b]
  by (auto simp: applied_def same_frame_def)

lemma applied_set:
  assumes "applied pos b base (out', rc', rs)" "pos < length rs" "route_frame r' = route_frame (rs ! pos)"
    "ro_active r' = ro_active (rs ! pos)"
    "ro_volume r' = ro_volume (rs ! pos) \<or> vo_volume out' \<and> level_backed b rc' (ro_volume r')"
    "ro_mute r' = ro_mute (rs ! pos) \<or> vo_mute out' \<and> mute_backed b rc' (rm_value (ro_mute r'))"
  shows "applied pos b base (out', rc', rs[pos := r'])"
  using assms by (auto simp: applied_def same_frame_def map_update_same)

lemma apply_mute_applied:
  assumes ok': "applied pos b base (out, rc, rs)" and i: "bi_mixer b < length (rc_mixers rc)" and pos: "pos < length rs"
    and c: "\<forall>control. bi_mute_control b = Some control \<longrightarrow> control < 32"
  shows "applied pos b base (apply_value pos b (UpdMute q) (out, rc, rs))"
proof -
  show ?thesis
  proof (cases "q = rm_value (ro_mute (rs ! pos))")
    case True
    then show ?thesis using ok' by (simp add: apply_value_def Let_def)
  next
    case False
    let ?set = "rs[pos := (rs ! pos)\<lparr>ro_mute := (ro_mute (rs ! pos))\<lparr>rm_value := q\<rparr>\<rparr>]"
    show ?thesis
    proof (cases "bi_mute_control b")
      case None
      have "applied pos b base (out\<lparr>vo_mute := True\<rparr>, rc, rs)" using ok' by (auto simp: applied_def)
      from applied_set[OF this pos, of "(rs ! pos)\<lparr>ro_mute := (ro_mute (rs ! pos))\<lparr>rm_value := q\<rparr>\<rparr>"]
      have "applied pos b base (out\<lparr>vo_mute := True\<rparr>, rc, ?set)"
        using None by (simp add: route_frame_def mute_backed_def)
      then show ?thesis using False None by (simp add: apply_value_def Let_def)
    next
      case (Some control)
      obtain res rc1 where 1: "on_mixer (bi_mixer b) (set_muted control q) rc = (res, rc1)"
        by (cases "on_mixer (bi_mixer b) (set_muted control q) rc")
      show ?thesis
      proof (cases res)
        case True
        have a: "applied pos b base (out\<lparr>vo_mute := True\<rparr>, rc1, rs)"
          by (rule applied_mixer[OF ok' 1 i]) (use written_grows(3) in simp_all)
        obtain m' where "set_muted control q (mh_mixer (rc_mixers rc ! bi_mixer b)) = (True, m')"
          "mh_mixer (rc_mixers rc1 ! bi_mixer b) = m'"
          using 1 True i by (auto simp: on_mixer_def Let_def split: prod.splits)
        then have "mute_backed b rc1 q" using set_muted_recorded c Some by (simp add: mute_backed_def)
        with applied_set[OF a pos, of "(rs ! pos)\<lparr>ro_mute := (ro_mute (rs ! pos))\<lparr>rm_value := q\<rparr>\<rparr>"]
        have "applied pos b base (out\<lparr>vo_mute := True\<rparr>, rc1, ?set)" by (simp add: route_frame_def)
        then show ?thesis using False Some 1 True by (simp add: apply_value_def Let_def)
      next
        case fail: False
        have "applied pos b base (out\<lparr>vo_mute_failed := True\<rparr>, rc1, rs)"
          by (rule applied_mixer[OF ok' 1 i]) (use written_grows(3) in simp_all)
        then show ?thesis using False Some 1 fail by (simp add: apply_value_def Let_def)
      qed
    qed
  qed
qed

lemma apply_volume_applied:
  assumes ok': "applied pos b base (out, rc, rs)" and i: "bi_mixer b < length (rc_mixers rc)" and pos: "pos < length rs"
  shows "applied pos b base (apply_value pos b (UpdVolume vals) (out, rc, rs))"
proof (cases vals)
  case Nil
  then show ?thesis using ok' by (simp add: apply_value_def)
next
  case (Cons left rest)
  define l where "l = volume_to_level left"
  define r where "r = volume_to_level (case rest of y # _ \<Rightarrow> y | [] \<Rightarrow> left)"
  let ?v = "set_native_levels (l, r) (ro_volume (rs ! pos))"
  have nl: "native_levels ?v = (min l 100, min r 100)" by (rule native_levels_set)
  have enc: "encode_levels (min l 100) (min r 100) = encode_levels l r" by (simp add: encode_levels_def)
  show ?thesis
  proof (cases "(l, r) = native_levels (ro_volume (rs ! pos))")
    case True
    then show ?thesis using ok' unfolding l_def r_def by (simp add: apply_value_def Cons Let_def)
  next
    case False
    show ?thesis
    proof (cases "bi_volume_control b")
      case None
      have "applied pos b base (out\<lparr>vo_volume := True\<rparr>, rc, rs)" using ok' by (auto simp: applied_def)
      from applied_set[OF this pos, of "(rs ! pos)\<lparr>ro_volume := ?v\<rparr>"]
      have "applied pos b base (out\<lparr>vo_volume := True\<rparr>, rc, rs[pos := (rs ! pos)\<lparr>ro_volume := ?v\<rparr>])"
        using None by (simp add: route_frame_def level_backed_def)
      then show ?thesis using False None unfolding l_def r_def by (simp add: apply_value_def Cons Let_def)
    next
      case (Some control)
      obtain res rc1 where 1: "on_mixer (bi_mixer b) (set_level control l r) rc = (res, rc1)"
        by (cases "on_mixer (bi_mixer b) (set_level control l r) rc")
      show ?thesis
      proof (cases res)
        case True
        have a: "applied pos b base (out\<lparr>vo_volume := True\<rparr>, rc1, rs)"
          by (rule applied_mixer[OF ok' 1 i]) (use written_grows(4) in simp_all)
        obtain m' where "set_level control l r (mh_mixer (rc_mixers rc ! bi_mixer b)) = (True, m')"
          "mh_mixer (rc_mixers rc1 ! bi_mixer b) = m'"
          using 1 True i by (auto simp: on_mixer_def Let_def split: prod.splits)
        then have "level_backed b rc1 ?v" using write_recorded Some by (simp add: level_backed_def nl enc set_level_def)
        with applied_set[OF a pos, of "(rs ! pos)\<lparr>ro_volume := ?v\<rparr>"]
        have "applied pos b base (out\<lparr>vo_volume := True\<rparr>, rc1, rs[pos := (rs ! pos)\<lparr>ro_volume := ?v\<rparr>])"
          by (simp add: route_frame_def)
        then show ?thesis using False Some 1 True unfolding l_def r_def by (simp add: apply_value_def Cons Let_def)
      next
        case fail: False
        have "applied pos b base (out\<lparr>vo_volume_failed := True\<rparr>, rc1, rs)"
          by (rule applied_mixer[OF ok' 1 i]) (use written_grows(4) in simp_all)
        then show ?thesis using False Some 1 fail unfolding l_def r_def by (simp add: apply_value_def Cons Let_def)
      qed
    qed
  qed
qed

lemma apply_value_applied:
  assumes ok: "applied pos b base st" and i: "bi_mixer b < length (rc_mixers (fst base))" and pos: "pos < length (snd base)"
    and c: "\<forall>control. bi_mute_control b = Some control \<longrightarrow> control < 32"
  shows "applied pos b base (apply_value pos b v st)"
proof -
  obtain out rc rs where st: "st = (out, rc, rs)" by (metis prod_cases3)
  have ok': "applied pos b base (out, rc, rs)" using ok by (simp add: st)
  have len: "pos < length rs" "bi_mixer b < length (rc_mixers rc)"
    using ok' i pos same_frame_length[of base "(rc, rs)"] by (auto simp: applied_def same_frame_def)
  show ?thesis unfolding st
    by (cases v) (simp_all add: apply_mute_applied[OF ok' len(2,1) c] apply_volume_applied[OF ok' len(2,1)])
qed

section \<open>Sessions\<close>

text \<open>A mute control is a bit of the kernel's mute mask.\<close>

definition controls_ok :: "route_controller \<Rightarrow> bool" where
  "controls_ok rc \<longleftrightarrow> (\<forall>b\<in>set (rc_bindings rc). \<forall>c. bi_mute_control b = Some c \<longrightarrow> c < 32)"

lemma input_control_range: "input_control m = (Some (c, x), m') \<Longrightarrow> c < 32"
  by (auto simp: input_control_def Let_def split: if_splits option.splits prod.splits dest: find_in)

lemma resolve_controls_ok: "controls_ok rc \<Longrightarrow> controls_ok (resolve_controls pos rc)"
proof -
  assume ok: "controls_ok rc"
  let ?b = "rc_bindings rc ! pos"
  obtain p rc1 where 1: "on_mixer (bi_mixer ?b) input_control rc = (p, rc1)" by (cases "on_mixer (bi_mixer ?b) input_control rc")
  show ?thesis
  proof (cases "bi_follows_recsrc ?b \<and> (\<exists>c. p = Some (c, True))")
    case True
    then obtain c where c: "p = Some (c, True)" by blast
    obtain l rc2 where 2: "on_mixer (bi_mixer ?b) (mixer_level c) rc1 = (l, rc2)" by (cases "on_mixer (bi_mixer ?b) (mixer_level c) rc1")
    obtain m rc3 where 3: "on_mixer (bi_mixer ?b) (mixer_muted c) rc2 = (m, rc3)" by (cases "on_mixer (bi_mixer ?b) (mixer_muted c) rc2")
    have "\<exists>m m'. input_control m = (Some (c, True), m')" using 1 c by (auto simp: on_mixer_def Let_def split: prod.splits)
    then have "c < 32" using input_control_range by blast
    moreover have "rc_bindings (resolve_controls pos rc) = (rc_bindings rc)[pos := ?b\<lparr>bi_volume_control := map_option (\<lambda>_. c) l,
        bi_mute_control := map_option (\<lambda>_. c) m\<rparr>]"
      using True c 1 2 3 on_mixer_frame[OF 1] on_mixer_frame[OF 2] on_mixer_frame[OF 3] by (simp add: resolve_controls_def Let_def)
    ultimately show ?thesis using ok by (auto simp: controls_ok_def dest!: set_update_subset_insert[THEN subsetD])
  next
    case False
    then have "resolve_controls pos rc = rc \<or> resolve_controls pos rc = rc1"
      using 1 by (cases "bi_follows_recsrc ?b") (auto simp: resolve_controls_def Let_def split: option.split)
    then show ?thesis using ok on_mixer_frame[OF 1] by (auto simp: controls_ok_def)
  qed
qed

lemma refresh_controls_ok: "controls_ok (fst st) \<Longrightarrow> controls_ok (fst (route_refresh pos st))"
proof -
  assume ok: "controls_ok (fst st)"
  obtain rc rs where st: "st = (rc, rs)" by (cases st)
  have "rc_bindings (fst (route_refresh pos (rc, rs))) = rc_bindings (resolve_controls pos rc)"
    by (simp add: route_refresh_def Let_def on_mixer_def split: prod.split)
  then show ?thesis using resolve_controls_ok[of rc pos] ok by (simp add: st controls_ok_def)
qed

lemma fold_keeps: "(\<And>x st. P st \<Longrightarrow> P (f x st)) \<Longrightarrow> P st \<Longrightarrow> P (fold f xs st)"
proof (induction xs arbitrary: st)
  case (Cons x xs)
  show ?case unfolding fold_simps by (rule Cons.IH) (use Cons.prems in blast)+
qed simp

lemma sync_controls_ok:
  assumes "sync_source mixer (rc, rs) = (ch, rc', rs')" "controls_ok rc"
  shows "controls_ok rc'"
proof -
  obtain v rc1 where 1: "on_mixer mixer mixer_recsrc rc = (v, rc1)" by (cases "on_mixer mixer mixer_recsrc rc")
  have ok1: "controls_ok rc1" using assms(2) on_mixer_frame[OF 1] by (simp add: controls_ok_def)
  have "controls_ok (fst (fold (\<lambda>pos st. if ro_active (snd st ! pos) then route_refresh pos st else st) ps (rc1, rs1)))" for ps rs1
    by (rule fold_keeps[where P = "\<lambda>st. controls_ok (fst st)"]) (use ok1 refresh_controls_ok in simp_all)
  note folded = this
  show ?thesis
  proof (cases "list_ex (\<lambda>b. bi_mixer b = mixer \<and> bi_source b \<noteq> None) (rc_bindings rc) \<and> v \<noteq> None")
    case False
    then have "rc' = rc \<or> rc' = rc1" using assms(1) 1 by (auto simp: sync_source_def split: if_splits)
    then show ?thesis using assms(2) ok1 by blast
  next
    case True
    then obtain w where w: "v = Some w" by blast
    obtain ps rs1 where "sync_source_routes rs (rc_bindings rc1) mixer
        (selected_recording_sources (mx_recmask (mh_mixer (rc_mixers rc1 ! mixer))) w) = (ps, rs1)" by fastforce
    then have "(rc', rs') = fold (\<lambda>pos st. if ro_active (snd st ! pos) then route_refresh pos st else st) ps (rc1, rs1)"
      using assms(1) True 1 w by (simp add: sync_source_def)
    then show ?thesis using folded[of ps rs1] by (metis fst_conv)
  qed
qed

lemma poll_mixer_controls_ok:
  assumes "controls_ok (fst (snd st))"
  shows "controls_ok (fst (snd (poll_mixer mixer st)))"
proof -
  obtain ch rc rs where st: "st = (ch, rc, rs)" by (metis prod_cases3)
  obtain counter rc1 where 1: "on_mixer mixer modify_counter rc = (counter, rc1)" by (cases "on_mixer mixer modify_counter rc")
  have ok1: "controls_ok rc1" using assms on_mixer_frame[OF 1] by (simp add: controls_ok_def st)
  show ?thesis
  proof (cases counter)
    case None
    then show ?thesis using ok1 1 by (simp add: poll_mixer_def st)
  next
    case (Some c)
    let ?rc1 = "rc1\<lparr>rc_mixers := (rc_mixers rc1)[mixer := (rc_mixers rc1 ! mixer)\<lparr>mh_counter := c\<rparr>]\<rparr>"
    obtain changed rc2 rs2 where 2: "sync_source mixer (?rc1, rs) = (changed, rc2, rs2)" by (metis prod_cases3)
    have ok2: "controls_ok rc2" using sync_controls_ok[OF 2] ok1 by (simp add: controls_ok_def)
    have one: "controls_ok (fst (snd (poll_route mixer pos st)))" if "controls_ok (fst (snd st))" for pos st
    proof -
      obtain c1 rc1 rs1 where st: "st = (c1, rc1, rs1)" by (metis prod_cases3)
      obtain rc2 rs2 where "route_refresh pos (rc1, rs1) = (rc2, rs2)" by (cases "route_refresh pos (rc1, rs1)")
      then show ?thesis using that refresh_controls_ok[of "(rc1, rs1)" pos] by (simp add: poll_route_def Let_def st)
    qed
    have "controls_ok (fst (snd (fold (poll_route mixer) ps (x, rc2, rs2))))" for ps x
      by (rule fold_keeps[where P = "\<lambda>st. controls_ok (fst (snd st))"]) (use ok2 one in simp_all)
    then show ?thesis using Some 1 2 by (simp add: poll_mixer_def st Let_def)
  qed
qed

definition controller_ok :: "route_controller \<times> route list \<Rightarrow> bool" where
  "controller_ok st \<longleftrightarrow> length (rc_bindings (fst st)) = length (snd st)
     \<and> (\<forall>b\<in>set (rc_bindings (fst st)). bi_mixer b < length (rc_mixers (fst st))) \<and> controls_ok (fst st)"

lemma controller_ok_frame:
  assumes "controller_ok st" "same_frame st st'" "controls_ok (fst st')"
  shows "controller_ok st'"
proof -
  have "map bi_mixer (rc_bindings (fst st')) = map bi_mixer (rc_bindings (fst st))"
  proof -
    have "map bi_mixer bs = map fst (map binding_frame bs)" for bs by (simp add: binding_frame_def comp_def)
    then show ?thesis using assms(2) unfolding same_frame_def by metis
  qed
  then have "bi_mixer ` set (rc_bindings (fst st')) = bi_mixer ` set (rc_bindings (fst st))" by (metis set_map)
  then show ?thesis using assms same_frame_length[OF assms(2)] unfolding controller_ok_def same_frame_def
    by (metis (no_types, lifting) image_eqI image_iff)
qed

lemma route_poll_ok:
  assumes "controller_ok st" "route_poll st = (ch, st')"
  shows "same_frame st st'" "controller_ok st'"
proof -
  obtain rc rs where st: "st = (rc, rs)" by (cases st)
  obtain rc' rs' where st': "st' = (rc', rs')" by (cases st')
  have f: "fold poll_mixer [0..<length (rc_mixers rc)] ([], rc, rs) = (ch, rc', rs')"
    using assms(2) by (simp add: route_poll_def st st')
  have "length (rc_bindings rc) = length rs" using assms(1) by (simp add: controller_ok_def st)
  from poll_fold_spec[OF f distinct_upt this] show fr: "same_frame st st'" by (simp add: st st')
  have "controls_ok (fst (snd (fold poll_mixer [0..<length (rc_mixers rc)] ([], rc, rs))))"
    by (rule fold_keeps[where P = "\<lambda>st. controls_ok (fst (snd st))"])
      (use assms(1) poll_mixer_controls_ok in \<open>simp_all add: controller_ok_def st\<close>)
  then show "controller_ok st'" using controller_ok_frame[OF assms(1) fr] by (simp add: f st')
qed

lemma refresh_all_ok:
  assumes "controller_ok st"
  shows "same_frame st (refresh_all st)" "controller_ok (refresh_all st)"
proof -
  have sync: "same_frame st (snd (sync_source m st)) \<and> controller_ok (snd (sync_source m st))" if "controller_ok st" for m st
  proof -
    obtain ch rc' rs' where e: "sync_source m st = (ch, rc', rs')" by (metis prod_cases3)
    have fr: "same_frame st (rc', rs')" using sync_source_spec(1)[OF e] that by (simp add: controller_ok_def)
    moreover have "controls_ok rc'" using sync_controls_ok[of m "fst st" "snd st"] e that by (simp add: controller_ok_def)
    ultimately show ?thesis using controller_ok_frame[OF that fr] e by simp
  qed
  let ?st1 = "fold (\<lambda>mixer st. snd (sync_source mixer st)) [0..<length (rc_mixers (fst st))] st"
  have 1: "same_frame st ?st1 \<and> controller_ok ?st1"
  proof (rule fold_keeps[where P = "\<lambda>st'. same_frame st st' \<and> controller_ok st'"])
    fix m st' assume "same_frame st st' \<and> controller_ok st'"
    then show "same_frame st (snd (sync_source m st')) \<and> controller_ok (snd (sync_source m st'))"
      using sync[of st' m] same_frame_trans[of st st' "snd (sync_source m st')"] by blast
  qed (simp add: assms)
  have "same_frame st (fold route_refresh ps ?st1) \<and> controller_ok (fold route_refresh ps ?st1)" for ps
  proof (rule fold_keeps[where P = "\<lambda>st'. same_frame st st' \<and> controller_ok st'"])
    fix pos st' assume a: "same_frame st st' \<and> controller_ok st'"
    then have "controls_ok (fst (route_refresh pos st'))" using refresh_controls_ok by (simp add: controller_ok_def)
    then show "same_frame st (route_refresh pos st') \<and> controller_ok (route_refresh pos st')"
      using a controller_ok_frame[OF _ refresh_frame[of st' pos]] same_frame_trans[OF _ refresh_frame[of st' pos]] by blast
  qed (rule 1)
  then show "same_frame st (refresh_all st)" "controller_ok (refresh_all st)" by (simp_all add: refresh_all_def Let_def)
qed

lemma apply_selection_ok:
  assumes "apply_selection pos activate st = (sel, st')" "controller_ok st"
  shows "same_frame st st'" "controller_ok st'"
proof -
  show fr: "same_frame st st'" using apply_selection_frame[OF assms(1)] assms(2) by (simp add: controller_ok_def)
  obtain rc rs where st: "st = (rc, rs)" by (cases st)
  have "controls_ok (fst st')"
  proof (cases "activate \<and> \<not> ro_active (rs ! pos) \<and> bi_source (rc_bindings rc ! pos) \<noteq> None")
    case False
    then show ?thesis using assms by (auto simp: apply_selection_def st Let_def controller_ok_def split: option.splits)
  next
    case True
    let ?b = "rc_bindings rc ! pos"
    obtain source where source: "bi_source ?b = Some source" using True by blast
    obtain ok rc1 where 1: "on_mixer (bi_mixer ?b) (set_recsrc (push_bit source 1)) rc = (ok, rc1)"
      by (cases "on_mixer (bi_mixer ?b) (set_recsrc (push_bit source 1)) rc")
    obtain ch rc2 rs2 where 2: "sync_source (bi_mixer ?b) (rc1, rs) = (ch, rc2, rs2)" by (metis prod_cases3)
    have ok1: "controls_ok rc1" using assms(2) on_mixer_frame[OF 1] by (simp add: controller_ok_def controls_ok_def st)
    have "st' = (rc1, rs) \<or> st' = (rc2, rs2)"
      using assms(1) True source 1 2 by (auto simp: apply_selection_def st Let_def split: if_splits)
    then show ?thesis using ok1 sync_controls_ok[OF 2 ok1] by auto
  qed
  then show "controller_ok st'" using controller_ok_frame[OF assms(2) fr] by simp
qed

lemma apply_selection_unselected:
  assumes "apply_selection pos activate st = ((selected, selection), st')" "selection = SelUnchanged \<or> selection = SelFailed"
  shows "selected = None \<and> snd st' = snd st"
  using assms by (auto simp: apply_selection_def Let_def split: if_splits option.splits prod.splits)

lemma position_known: "route_position rs key = Some pos \<Longrightarrow> pos < length rs \<and> ro_key (rs ! pos) = key"
  unfolding route_position_def by (drule find_in) simp

text \<open>The values of an update, on the state in which the route's controls were resolved.\<close>

lemma apply_values_applied:
  assumes "controller_ok st" "pos < length (snd st)" "b = rc_bindings (fst st) ! pos"
  shows "applied pos b st (fold (apply_value pos b) vs (\<lparr>vo_volume = False, vo_mute = False, vo_volume_failed = False, vo_mute_failed = False\<rparr>, st))"
proof (rule fold_keeps[where P = "applied pos b st"])
  have b: "b \<in> set (rc_bindings (fst st))" using assms by (simp add: controller_ok_def)
  then have "bi_mixer b < length (rc_mixers (fst st))" "\<forall>c. bi_mute_control b = Some c \<longrightarrow> c < 32"
    using assms(1) by (auto simp: controller_ok_def controls_ok_def)
  then show "applied pos b st x \<Longrightarrow> applied pos b st (apply_value pos b v x)" for v x
    using apply_value_applied assms(2) by blast
qed (simp add: applied_def)

text \<open>What one request does, in one step after the selection: \<open>st1\<close> is the state after the selection, \<open>rc2\<close> and
  \<open>rs\<close> the final one.\<close>

lemma route_apply_known:
  assumes ok: "controller_ok st" and pos: "route_position (snd st) key = Some pos" and app: "route_apply key update st = (c, rc', rs')"
  obtains selected selection st1 out where
    "apply_selection pos (up_activate update) st = ((selected, selection), st1)" "controller_ok st1" "same_frame st st1"
    "controller_ok (rc', rs')" "same_frame st (rc', rs')" "ch_selection c = selection"
    "applied pos (rc_bindings rc' ! pos) (resolve_controls pos (fst st1), snd st1) (out, rc', rs')"
    "(ch_key c, ch_volume c, ch_mute c)
       = (case selection_notification_flags rs' pos selected (vo_volume out) (vo_mute out) of (p, v, m) \<Rightarrow> (Some (ro_key (rs' ! p)), v, m))"
proof -
  obtain selected selection rc1 rs1 where 1: "apply_selection pos (up_activate update) st = ((selected, selection), rc1, rs1)"
    by (metis prod_cases4 prod.exhaust)
  note s = apply_selection_ok[OF 1 ok]
  define rc2 where "rc2 = resolve_controls pos rc1"
  have fr2: "same_frame (rc1, rs1) (rc2, rs1)" unfolding rc2_def by (rule resolve_frame)
  have ok2: "controller_ok (rc2, rs1)"
    using controller_ok_frame[OF s(2) fr2] resolve_controls_ok[of rc1 pos] s(2) by (simp add: rc2_def controller_ok_def)
  have p: "pos < length rs1" using position_known[OF pos] same_frame_length[OF s(1)] by simp
  define b where "b = rc_bindings rc2 ! pos"
  let ?o0 = "\<lparr>vo_volume = False, vo_mute = False, vo_volume_failed = False, vo_mute_failed = False\<rparr>"
  obtain out rc3 rs3 where 3: "fold (apply_value pos b) (up_values update) (?o0, rc2, rs1) = (out, rc3, rs3)" by (metis prod_cases3)
  have a3: "applied pos b (rc2, rs1) (out, rc3, rs3)"
    using apply_values_applied[OF ok2, of pos b "up_values update"] p unfolding 3 by (simp add: b_def)
  obtain counter rc4 where 4: "on_mixer (bi_mixer b) modify_counter rc3 = (counter, rc4)" by (cases "on_mixer (bi_mixer b) modify_counter rc3")
  have bm: "bi_mixer b < length (rc_mixers rc3)"
    using ok2 p a3 by (auto simp: controller_ok_def b_def applied_def same_frame_def)
  have a4: "applied pos b (rc2, rs1) (out, rc4, rs3)"
    by (rule applied_mixer[OF a3 4 bm]) (use written_grows(5) in auto)
  define rc5 where "rc5 = (case counter of
      Some c \<Rightarrow> rc4\<lparr>rc_mixers := (rc_mixers rc4)[bi_mixer b := (rc_mixers rc4 ! bi_mixer b)\<lparr>mh_counter := c\<rparr>]\<rparr> | None \<Rightarrow> rc4)"
  have mx: "mh_mixer (rc_mixers rc5 ! j) = mh_mixer (rc_mixers rc4 ! j)" for j
    using bm on_mixer_frame[OF 4] by (cases "j = bi_mixer b") (auto simp: rc5_def split: option.split)
  have bl: "level_backed b rc5 v = level_backed b rc4 v" "mute_backed b rc5 q = mute_backed b rc4 q" for v q
    unfolding level_backed_def mute_backed_def mx by (rule refl)+
  have a5: "applied pos b (rc2, rs1) (out, rc5, rs3)"
    using a4 unfolding applied_def fst_conv snd_conv bl by (auto simp: same_frame_def rc5_def split: option.split)
  obtain p v m where f: "selection_notification_flags rs3 pos selected (vo_volume out) (vo_mute out) = (p, v, m)"
    by (metis prod_cases3)
  have "fst (snd (route_apply key update st)) = rc5 \<and> snd (snd (route_apply key update st)) = rs3
      \<and> ch_selection (fst (route_apply key update st)) = selection \<and> ch_key (fst (route_apply key update st)) = Some (ro_key (rs3 ! p))
      \<and> ch_volume (fst (route_apply key update st)) = v \<and> ch_mute (fst (route_apply key update st)) = m"
    unfolding route_apply_def pos option.case 1 Let_def case_prod_conv rc2_def[symmetric] b_def[symmetric] 3 4 rc5_def[symmetric] f
    by simp
  then have e: "rc' = rc5" "rs' = rs3" "ch_selection c = selection"
    "(ch_key c, ch_volume c, ch_mute c)
       = (case selection_notification_flags rs3 pos selected (vo_volume out) (vo_mute out) of (p, v, m) \<Rightarrow> (Some (ro_key (rs3 ! p)), v, m))"
    using app f by simp_all
  have b5: "rc_bindings rc5 ! pos = b" using a5 by (simp add: applied_def b_def)
  have fr5: "same_frame st (rc5, rs3)"
    using same_frame_trans[OF same_frame_trans[OF s(1) fr2]] a5 by (auto simp: applied_def)
  have "controls_ok rc5" using ok2 a5 by (simp add: controller_ok_def controls_ok_def applied_def)
  then have ok5: "controller_ok (rc5, rs3)" using controller_ok_frame[OF ok fr5] by simp
  show thesis
    by (rule that[OF 1 s(2) s(1)]) (use e a5 b5 fr5 ok5 in \<open>simp_all add: rc2_def\<close>)
qed

end
