(* ===== verification/MixerProbe.thy ===== *)
theory MixerProbe
  imports MixerRoutes
begin

text \<open>
  What probing the mixers of a device builds, and the properties of the route controller: in every session that
  starts with a probe its parts stay consistent, names and keys are unique and stable, polling reports every
  visible change and an update never shows a value the hardware has not accepted.
\<close>

section \<open>Probed controllers\<close>

text \<open>The name of a route: the kind of route it is and its unit. The session manager stores settings under it.\<close>

datatype route_kind = KOutput | KInput | KSource nat

fun route_name :: "nat \<Rightarrow> u32 \<Rightarrow> route_kind \<Rightarrow> string" where
  "route_name devs unit KOutput = (if devs = 1 then ''oss-output'' else ''oss-output-pcm'' @ show_nat unit)"
| "route_name devs unit KInput = (if devs = 1 then ''oss-input'' else ''oss-input-pcm'' @ show_nat unit)"
| "route_name devs unit (KSource s) =
     (if devs = 1 then ''oss-input-'' @ SOUND_DEVICE_NAMES ! s else ''oss-input-pcm'' @ show_nat unit @ ''-'' @ SOUND_DEVICE_NAMES ! s)"

lemma show_nat_digits: "c \<in> set (show_nat n) \<Longrightarrow> \<exists>d<10. c = char_of (48 + d :: nat)"
proof (induction n rule: show_nat.induct)
  case (1 n)
  show ?case
  proof (cases "n < 10")
    case True
    then show ?thesis using 1(2) by (auto simp: show_nat.simps[of n])
  next
    case False
    then consider "c \<in> set (show_nat (n div 10))" | "c = char_of (48 + n mod 10)" using 1(2) by (auto simp: show_nat.simps[of n])
    then show ?thesis
    proof cases
      case 1
      then show ?thesis using "1.IH"[OF False] by blast
    next
      case 2
      have "n mod 10 < 10" by simp
      then show ?thesis using 2 by blast
    qed
  qed
qed

lemma show_nat_no_dash: "CHR ''-'' \<notin> set (show_nat n)"
proof
  assume "CHR ''-'' \<in> set (show_nat n)"
  then obtain d where d: "d < 10" "CHR ''-'' = char_of (48 + d :: nat)" using show_nat_digits by blast
  have "(of_char (CHR ''-'') :: nat) = of_char (char_of (48 + d :: nat))" using d(2) by simp
  then show False using d(1) by simp
qed

lemma show_nat_value: "foldl (\<lambda>a c. a * 10 + (of_char c - 48)) (0 :: nat) (show_nat n) = n"
proof (induction n rule: show_nat.induct)
  case (1 n)
  show ?case
  proof (cases "n < 10")
    case True
    then show ?thesis by (simp add: show_nat.simps[of n])
  next
    case False
    then show ?thesis using 1 by (simp add: show_nat.simps[of n])
  qed
qed

lemma show_nat_inj: "show_nat m = show_nat n \<Longrightarrow> m = n"
  by (metis show_nat_value)

lemma sep_inj: "c \<notin> set xs \<Longrightarrow> c \<notin> set ys \<Longrightarrow> xs @ c # a = ys @ c # b \<Longrightarrow> xs = ys \<and> a = b"
proof (induction xs arbitrary: ys)
  case Nil
  then show ?case by (cases ys) auto
next
  case (Cons x xs)
  then show ?case by (cases ys) auto
qed

lemma device_names_distinct: "distinct SOUND_DEVICE_NAMES" "length SOUND_DEVICE_NAMES = 25"
  by (simp_all add: SOUND_DEVICE_NAMES_def)

lemma dash_absent: "show_nat a \<noteq> show_nat b @ CHR ''-'' # r" "show_nat b @ CHR ''-'' # r \<noteq> show_nat a"
  using show_nat_no_dash[of a] by (metis in_set_conv_decomp)+

lemma route_name_inj:
  assumes "route_name devs u k = route_name devs v l" "devs = 1 \<longrightarrow> u = v"
    "\<And>s. k = KSource s \<Longrightarrow> s < 25" "\<And>s. l = KSource s \<Longrightarrow> s < 25"
  shows "u = v \<and> k = l"
proof -
  have names: "s = t" if "SOUND_DEVICE_NAMES ! s = SOUND_DEVICE_NAMES ! t" "s < 25" "t < 25" for s t
    using nth_eq_iff_index_eq[OF device_names_distinct(1)] that by (simp add: device_names_distinct(2))
  have two: "a = b \<and> x = y" if "show_nat a @ CHR ''-'' # x = show_nat b @ CHR ''-'' # y" for a b x y
    using sep_inj[OF show_nat_no_dash show_nat_no_dash that] show_nat_inj by blast
  show ?thesis
  proof (cases "devs = 1")
    case True
    then have uv: "u = v" using assms(2) by simp
    show ?thesis
    proof (cases "\<exists>s t. k = KSource s \<and> l = KSource t")
      case src: True
      then obtain s t where st: "k = KSource s" "l = KSource t" by blast
      then have "SOUND_DEVICE_NAMES ! s = SOUND_DEVICE_NAMES ! t" using assms(1) True by simp
      then show ?thesis using names[of s t] assms(3,4) st uv by simp
    next
      case False
      then show ?thesis using assms(1) True uv by (cases k; cases l) simp_all
    qed
  next
    case False
    show ?thesis
    proof (cases k)
      case KOutput
      then have "l = KOutput" "show_nat u = show_nat v" using assms(1) False by (cases l; simp)+
      then show ?thesis using KOutput show_nat_inj by blast
    next
      case KInput
      then have "l = KInput" "show_nat u = show_nat v" using assms(1) False by (cases l; simp add: dash_absent)+
      then show ?thesis using KInput show_nat_inj by blast
    next
      case (KSource s)
      show ?thesis
      proof (cases l)
        case (KSource t)
        have "show_nat u @ CHR ''-'' # SOUND_DEVICE_NAMES ! s = show_nat v @ CHR ''-'' # SOUND_DEVICE_NAMES ! t"
          using assms(1) False \<open>k = KSource s\<close> KSource by simp
        from two[OF this] show ?thesis using names[of s t] assms(3,4) \<open>k = KSource s\<close> KSource by simp
      qed (use assms(1) False KSource in \<open>auto simp: dash_absent\<close>)
    qed
  qed
qed

text \<open>Probing one unit adds routes of that unit, all of different kinds.\<close>

definition acc_ok :: "nat \<Rightarrow> probe_acc \<Rightarrow> bool" where
  "acc_ok mixers acc \<longleftrightarrow> (case acc of (routes, bindings, n_out, n_in) \<Rightarrow>
     length bindings = length routes \<and> map ro_key routes = [0..<length routes]
   \<and> (\<forall>b\<in>set bindings. bi_mixer b < mixers \<and> (\<forall>c. bi_mute_control b = Some c \<longrightarrow> c < 32)))"

text \<open>\<open>grows acc kinds acc'\<close>: routes of these kinds were appended.\<close>

definition grows :: "nat \<Rightarrow> u32 \<Rightarrow> probe_acc \<Rightarrow> route_kind list \<Rightarrow> probe_acc \<Rightarrow> bool" where
  "grows devs unit acc kinds acc' \<longleftrightarrow>
     map ro_name (fst acc') = map ro_name (fst acc) @ map (route_name devs unit) kinds
   \<and> (\<exists>bs. fst (snd acc') = fst (snd acc) @ bs \<and> length bs = length kinds)"

lemma grows_refl: "grows devs unit acc [] acc"
  by (simp add: grows_def)

lemma grows_trans: "grows devs unit a ks b \<Longrightarrow> grows devs unit b ls c \<Longrightarrow> grows devs unit a (ks @ ls) c"
  by (auto simp: grows_def)

lemma read_masks:
  "mx_recmask (snd (mixer_read_int d m)) = mx_recmask m" "mx_recmask (snd (mixer_level d m)) = mx_recmask m"
  "mx_recmask (snd (mixer_muted d m)) = mx_recmask m"
  by (auto simp: mixer_read_int_def mixer_level_def mixer_muted_def Let_def split: list.split prod.split)

lemma opt_level_masks: "opt_ioctl mixer_level k m = (r, m') \<Longrightarrow> mx_recmask m' = mx_recmask m"
  using read_masks(2) by (auto simp: opt_ioctl_def split: option.splits) (metis snd_conv)

lemma opt_muted_masks: "opt_ioctl mixer_muted k m = (r, m') \<Longrightarrow> mx_recmask m' = mx_recmask m"
  using read_masks(3) by (auto simp: opt_ioctl_def split: option.splits) (metis snd_conv)

lemma find_range: "List.find P xs = Some c \<Longrightarrow> (\<forall>x\<in>set xs. x < n) \<Longrightarrow> c < n"
  by (auto dest: find_in)

lemma probe_source_spec:
  assumes "probe_source devs mi unit selected source (acc, m) = (acc', m')" "acc_ok (Suc mi) acc" "source < 25"
  shows "acc_ok (Suc mi) acc'" "grows devs unit acc [KSource source] acc'" "mx_recmask m' = mx_recmask m" "snd (snd acc') = snd (snd acc)"
    "length (fst acc) < length (fst acc')"
proof -
  obtain routes bindings n_out n_in where acc: "acc = (routes, bindings, n_out, n_in)" by (metis prod_cases4)
  let ?c = "source_volume_control source m"
  obtain levels m1 where 1: "opt_ioctl mixer_level ?c m = (levels, m1)" by (cases "opt_ioctl mixer_level ?c m")
  obtain mute m2 where 2: "opt_ioctl mixer_muted ?c m1 = (mute, m2)" by (cases "opt_ioctl mixer_muted ?c m1")
  have c: "x < 32" if "?c = Some x" for x
    using find_range[of "mixer_has m" "[source, 11]" x 32] that assms(3) unfolding source_volume_control_def by auto
  define r where "r = source_route (length routes) devs unit selected source levels mute"
  define b where "b = source_binding mi source ?c levels mute"
  have rb: "acc' = (routes @ [r], bindings @ [b], n_out, n_in)" "m' = m2"
    using assms(1) by (simp_all add: probe_source_def acc 1 2 Let_def r_def b_def)
  have name: "ro_name r = route_name devs unit (KSource source)" "ro_key r = length routes"
    by (cases "devs = 1"; simp add: r_def source_route_def Let_def)+
  show "acc_ok (Suc mi) acc'" using assms(2) c by (auto simp: acc_ok_def acc rb name b_def source_binding_def)
  show "grows devs unit acc [KSource source] acc'" using name(1) by (simp add: grows_def acc rb(1))
  show "mx_recmask m' = mx_recmask m" using opt_level_masks[OF 1] opt_muted_masks[OF 2] rb(2) by simp
  show "snd (snd acc') = snd (snd acc)" "length (fst acc) < length (fst acc')" by (simp_all add: rb(1) acc)
qed

lemma probe_sources_spec:
  assumes "fold (\<lambda>source st. if P source then probe_source devs mi unit selected source st else st) ss (acc, m) = (acc', m')"
    "acc_ok (Suc mi) acc" "\<forall>s\<in>set ss. s < 25"
  shows "acc_ok (Suc mi) acc' \<and> grows devs unit acc (map KSource (filter P ss)) acc' \<and> snd (snd acc') = snd (snd acc)
    \<and> mx_recmask m' = mx_recmask m"
  using assms
proof (induction ss arbitrary: acc m)
  case Nil
  then show ?case by (simp add: grows_refl)
next
  case (Cons s ss)
  show ?case
  proof (cases "P s")
    case True
    obtain acc1 m1 where 1: "probe_source devs mi unit selected s (acc, m) = (acc1, m1)"
      by (cases "probe_source devs mi unit selected s (acc, m)")
    have s: "s < 25" using Cons.prems(3) by simp
    note p = probe_source_spec[OF 1 Cons.prems(2) s]
    have "acc_ok (Suc mi) acc' \<and> grows devs unit acc1 (map KSource (filter P ss)) acc' \<and> snd (snd acc') = snd (snd acc1)
        \<and> mx_recmask m' = mx_recmask m1"
      using Cons.IH[of acc1 m1] Cons.prems(1,3) p(1) True 1 by simp
    then show ?thesis using p(3,4) True grows_trans[OF p(2), of "map KSource (filter P ss)" acc'] by simp
  next
    case False
    then show ?thesis using Cons by simp
  qed
qed

lemma probe_control_spec:
  assumes "probe_control devs mi unit dir (acc, m) = (acc', m')" "acc_ok (Suc mi) acc"
    "devs = 1 \<longrightarrow> (if dir = Capture then snd (snd (snd acc)) = 0 else fst (snd (snd acc)) = 0)"
  obtains ks where "acc_ok (Suc mi) acc'" "grows devs unit acc ks acc'" "ks = [] \<or> ks = [if dir = Capture then KInput else KOutput]"
    "dir = Playback \<Longrightarrow> snd (snd (snd acc')) = snd (snd (snd acc))"
proof -
  obtain routes bindings n_out n_in where acc: "acc = (routes, bindings, n_out, n_in)" by (metis prod_cases4)
  obtain picked m1 where 1: "(if dir = Capture then input_control m else (map_option (\<lambda>c. (c, False)) (output_control m), m)) = (picked, m1)"
    by fastforce
  show thesis
  proof (cases picked)
    case None
    then have "acc' = acc" using assms(1) 1 by (simp add: probe_control_def acc Let_def)
    then show thesis using that[of "[]"] assms(2) by (simp add: grows_refl)
  next
    case (Some cf)
    obtain control follows where cf: "cf = (control, follows)" by (cases cf)
    have range: "control < 32"
    proof (cases "dir = Capture")
      case True
      then show ?thesis using 1 Some cf input_control_range by simp
    next
      case False
      then show ?thesis using 1 Some cf by (auto simp: output_control_def split: if_splits)
    qed
    obtain levels m2 where 2: "mixer_level control m1 = (levels, m2)" by (cases "mixer_level control m1")
    show thesis
    proof (cases levels)
      case None
      then have "acc' = acc" using assms(1) 1 2 Some cf by (simp add: probe_control_def acc Let_def)
      then show thesis using that[of "[]"] assms(2) by (simp add: grows_refl)
    next
      case l: (Some lv)
      obtain mute m3 where 3: "mixer_muted control m2 = (mute, m3)" by (cases "mixer_muted control m2")
      let ?k = "if dir = Capture then KInput else KOutput"
      let ?nth = "if dir = Capture then n_in + 1 else n_out + 1"
      define r where "r = control_route (length routes) devs unit dir ?nth lv mute"
      define b where "b = control_binding mi control follows mute"
      have acc': "acc' = (routes @ [r], bindings @ [b], if dir = Capture then n_out else n_out + 1, if dir = Capture then n_in + 1 else n_in)"
        using assms(1) 1 2 3 Some cf l by (cases "dir = Capture") (auto simp: probe_control_def acc r_def b_def Let_def)
      have first: "devs = 1 \<longrightarrow> ?nth = 1" using assms(3) by (cases "dir = Capture") (auto simp: acc)
      have name: "ro_name r = route_name devs unit ?k"
        using first by (cases "dir = Capture"; cases "devs = 1") (simp_all add: r_def control_route_def control_name_def)
      have key: "ro_key r = length routes" by (simp add: r_def control_route_def Let_def split: prod.split)
      show thesis
      proof (rule that[of "[?k]"])
        show "acc_ok (Suc mi) acc'" using assms(2) key range by (auto simp: acc_ok_def acc acc' b_def control_binding_def)
        show "grows devs unit acc [?k] acc'" using name by (simp add: grows_def acc acc')
      qed (auto simp: acc' acc)
    qed
  qed
qed

text \<open>The kinds a direction can add.\<close>

definition direction_kinds :: "stream_direction \<Rightarrow> route_kind list \<Rightarrow> bool" where
  "direction_kinds dir ks \<longleftrightarrow> distinct ks \<and> (\<forall>s. KSource s \<in> set ks \<longrightarrow> s < 25)
     \<and> (if dir = Capture then KOutput \<notin> set ks else set ks \<subseteq> {KOutput})"

lemma probe_direction_spec:
  assumes "probe_direction devs mi unit recsrc (dir, enabled) (acc, m) = (acc', m')" "acc_ok (Suc mi) acc"
    "devs = 1 \<longrightarrow> (if dir = Capture then snd (snd (snd acc)) = 0 else fst (snd (snd acc)) = 0)"
  obtains ks where "acc_ok (Suc mi) acc'" "grows devs unit acc ks acc'" "direction_kinds dir ks"
    "dir = Playback \<Longrightarrow> snd (snd (snd acc')) = snd (snd (snd acc))"
proof (cases "enabled")
  case False
  then have "acc' = acc" using assms(1) by (simp add: probe_direction_def Let_def)
  then show thesis using that[of "[]"] assms(2) by (simp add: grows_refl direction_kinds_def)
next
  case True
  let ?P = "bit (mx_recmask m)"
  show thesis
  proof (cases "dir = Capture \<and> 2 \<le> length (filter ?P [0..<32])")
    case src: True
    let ?sel = "selected_recording_sources (mx_recmask m) recsrc"
    have "fold (\<lambda>source st. if ?P source then probe_source devs mi unit ?sel source st else st) [0..<25] (acc, m) = (acc', m')"
      using assms(1) True src by (simp add: probe_direction_def Let_def)
    from probe_sources_spec[OF this assms(2)] have s: "acc_ok (Suc mi) acc'"
      "grows devs unit acc (map KSource (filter ?P [0..<25])) acc'" "snd (snd acc') = snd (snd acc)" by auto
    have "direction_kinds dir (map KSource (filter ?P [0..<25]))" using src by (auto simp: direction_kinds_def distinct_map inj_on_def)
    then show thesis using that[OF s(1,2)] src by simp
  next
    case False
    then have "probe_control devs mi unit dir (acc, m) = (acc', m')" using assms(1) True by (auto simp: probe_direction_def Let_def)
    then obtain ks where k: "acc_ok (Suc mi) acc'" "grows devs unit acc ks acc'" "ks = [] \<or> ks = [if dir = Capture then KInput else KOutput]"
      "dir = Playback \<Longrightarrow> snd (snd (snd acc')) = snd (snd (snd acc))" by (rule probe_control_spec[OF _ assms(2,3)]) blast
    then show thesis using that[OF k(1,2) _ k(4)] by (auto simp: direction_kinds_def)
  qed
qed

lemma acc_ok_mono: "acc_ok k acc \<Longrightarrow> k \<le> l \<Longrightarrow> acc_ok l acc"
  by (auto simp: acc_ok_def intro: less_le_trans)

lemma acc_ok_same:
  assumes "acc_ok k acc" "acc_ok l acc'" "fst (snd acc') = fst (snd acc)"
  shows "acc_ok k acc'"
  using assms by (auto simp: acc_ok_def split: prod.splits)

lemma probe_unit_spec:
  assumes "probe_unit opened devs (unit, play, cap) (acc, mixers) = (acc', mixers')" "acc_ok (length mixers) acc"
    "devs = 1 \<longrightarrow> snd (snd acc) = (0, 0)"
  obtains ks where "acc_ok (length mixers') acc'" "grows devs unit acc ks acc'" "distinct ks" "\<And>s. KSource s \<in> set ks \<Longrightarrow> s < 25"
proof (cases "mixer_open opened unit")
  case None
  then have "acc' = acc" "mixers' = mixers" using assms(1) by (simp_all add: probe_unit_def)
  then show thesis using that[of "[]"] assms(2) by (simp add: grows_refl)
next
  case (Some m)
  obtain rs m1 where 1: "mixer_recsrc m = (rs, m1)" by (cases "mixer_recsrc m")
  let ?r = "case rs of Some v \<Rightarrow> v | None \<Rightarrow> 0" and ?mi = "length mixers"
  obtain acc1 m2 where 2: "probe_direction devs ?mi unit ?r (Playback, play) (acc, m1) = (acc1, m2)"
    by (cases "probe_direction devs ?mi unit ?r (Playback, play) (acc, m1)")
  obtain acc2 m3 where 3: "probe_direction devs ?mi unit ?r (Capture, cap) (acc1, m2) = (acc2, m3)"
    by (cases "probe_direction devs ?mi unit ?r (Capture, cap) (acc1, m2)")
  have ok: "acc_ok (Suc ?mi) acc" using acc_ok_mono[OF assms(2)] by simp
  have pre: "devs = 1 \<longrightarrow> (if Playback = Capture then snd (snd (snd acc)) = 0 else fst (snd (snd acc)) = 0)" using assms(3) by auto
  obtain ks where k: "acc_ok (Suc ?mi) acc1" "grows devs unit acc ks acc1" "direction_kinds Playback ks"
    "snd (snd (snd acc1)) = snd (snd (snd acc))"
    by (rule probe_direction_spec[OF 2 ok pre]) blast
  have pre2: "devs = 1 \<longrightarrow> (if Capture = Capture then snd (snd (snd acc1)) = 0 else fst (snd (snd acc1)) = 0)" using assms(3) k(4) by auto
  obtain ls where l: "acc_ok (Suc ?mi) acc2" "grows devs unit acc1 ls acc2" "direction_kinds Capture ls"
    by (rule probe_direction_spec[OF 3 k(1) pre2]) blast
  have g: "grows devs unit acc (ks @ ls) acc2" using grows_trans[OF k(2) l(2)] .
  have d: "distinct (ks @ ls)" "\<And>s. KSource s \<in> set (ks @ ls) \<Longrightarrow> s < 25" using k(3) l(3) by (auto simp: direction_kinds_def)
  have e: "acc' = acc2 \<and> mixers' = mixers \<and> length (fst acc2) = length (fst acc) \<or> acc' = acc2 \<and> length mixers' = Suc ?mi"
    using assms(1) Some 1 2 3 by (auto simp: probe_unit_def Let_def split: if_splits prod.splits)
  show thesis
  proof (cases "length (fst acc2) = length (fst acc)")
    case True
    have "length (fst acc2) = length (fst acc) + length (ks @ ls)" using g unfolding grows_def by (metis length_append length_map)
    then have "fst (snd acc2) = fst (snd acc)" using g True by (auto simp: grows_def)
    then have "acc_ok ?mi acc2" using acc_ok_same[OF assms(2) l(1)] by simp
    then have "acc_ok (length mixers') acc'" using e acc_ok_mono[of ?mi acc2 "length mixers'"] by auto
    then show thesis using that e g d by blast
  next
    case False
    then have "acc' = acc2" "length mixers' = Suc ?mi" using e by auto
    then show thesis using that[of "ks @ ls"] l(1) g d by simp
  qed
qed

lemma add_unit_sorted: "sorted_wrt (<) (map fst us) \<Longrightarrow> sorted_wrt (<) (map fst (add_unit u d us))"
proof (induction u d us rule: add_unit.induct)
  case (2 u d v p c devs)
  have keys: "set (map fst (add_unit u d devs)) = insert u (set (map fst devs))"
    by (induction u d devs rule: add_unit.induct) auto
  show ?case using 2 keys by (auto simp del: set_map)
qed simp

lemma probe_units_distinct: "distinct (map fst (probe_units endpoints))"
proof -
  have "sorted_wrt (<) (map fst (fold (\<lambda>e. add_unit (es_object_id e div 2) (es_direction e)) endpoints us))"
    if "sorted_wrt (<) (map fst us)" for us
    using that by (induction endpoints arbitrary: us) (auto simp: add_unit_sorted)
  from this[of "[]"] have "sorted_wrt (<) (map fst (probe_units endpoints))" by (simp add: probe_units_def)
  then show ?thesis by (simp add: strict_sorted_iff)
qed

lemma probe_fold_spec:
  assumes "fold (probe_unit opened devs) us (acc, mixers) = (acc', mixers')" "acc_ok (length mixers) acc" "distinct (map fst us)"
    "devs = 1 \<longrightarrow> length us \<le> 1 \<and> snd (snd acc) = (0, 0)"
  shows "acc_ok (length mixers') acc' \<and> (\<exists>pairs. map ro_name (fst acc') = map ro_name (fst acc) @ map (\<lambda>(u, k). route_name devs u k) pairs
    \<and> distinct pairs \<and> fst ` set pairs \<subseteq> fst ` set us \<and> (\<forall>(u, k)\<in>set pairs. \<forall>s. k = KSource s \<longrightarrow> s < 25))"
  using assms
proof (induction us arbitrary: acc mixers)
  case Nil
  then show ?case by (auto intro: exI[of _ "[]"])
next
  case (Cons x us)
  obtain unit play cap where x: "x = (unit, play, cap)" by (cases x)
  obtain acc1 mixers1 where 1: "probe_unit opened devs (unit, play, cap) (acc, mixers) = (acc1, mixers1)"
    by (cases "probe_unit opened devs (unit, play, cap) (acc, mixers)")
  have z: "devs = 1 \<longrightarrow> snd (snd acc) = (0, 0)" using Cons.prems(4) by simp
  obtain ks where k: "acc_ok (length mixers1) acc1" "grows devs unit acc ks acc1" "distinct ks" "\<And>s. KSource s \<in> set ks \<Longrightarrow> s < 25"
    by (rule probe_unit_spec[OF 1 Cons.prems(2) z]) blast
  have names: "map ro_name (fst acc1) = map ro_name (fst acc) @ map (\<lambda>(u, k). route_name devs u k) (map (Pair unit) ks)"
    using k(2) by (simp add: grows_def comp_def)
  have pd: "distinct (map (Pair unit) ks)" using k(3) by (simp add: distinct_map inj_on_def)
  show ?case
  proof (cases "us = []")
    case True
    then have "acc' = acc1" "mixers' = mixers1" using Cons.prems(1) 1 by (simp_all add: x)
    then show ?thesis using k(1,4) names pd by (intro conjI exI[of _ "map (Pair unit) ks"]) (auto simp: x)
  next
    case False
    then have dc: "devs \<noteq> 1" using Cons.prems(4) by (cases us) auto
    have "fold (probe_unit opened devs) us (acc1, mixers1) = (acc', mixers')" using Cons.prems(1) 1 by (simp add: x)
    from Cons.IH[OF this k(1)] Cons.prems(3) dc obtain pairs where p: "acc_ok (length mixers') acc'"
      "map ro_name (fst acc') = map ro_name (fst acc1) @ map (\<lambda>(u, k). route_name devs u k) pairs"
      "distinct pairs" "fst ` set pairs \<subseteq> fst ` set us" "\<forall>(u, k)\<in>set pairs. \<forall>s. k = KSource s \<longrightarrow> s < 25" by auto
    have "unit \<notin> fst ` set us" using Cons.prems(3) by (simp add: x)
    then have "\<forall>q\<in>set pairs. fst q \<noteq> unit" using p(4) by blast
    then have "distinct (map (Pair unit) ks @ pairs)" using pd p(3) by auto
    then show ?thesis using p k(4) names
      by (intro conjI exI[of _ "map (Pair unit) ks @ pairs"]) (auto simp: x)
  qed
qed

lemma probe_ok:
  assumes "route_probe opened endpoints = (rc, routes)"
  shows "controller_ok (rc, routes)" "map ro_key routes = [0..<length routes]" "distinct (map ro_name routes)"
proof -
  let ?us = "probe_units endpoints"
  obtain acc mixers where f: "fold (probe_unit opened (length ?us)) ?us (([], [], 0, 0), []) = (acc, mixers)"
    by (cases "fold (probe_unit opened (length ?us)) ?us (([], [], 0, 0), [])")
  obtain bindings n_out n_in where acc: "acc = (routes, bindings, n_out, n_in)" "rc = \<lparr>rc_bindings = bindings, rc_mixers = mixers\<rparr>"
    using assms f by (cases acc) (auto simp: route_probe_def Let_def)
  have start: "acc_ok (length ([] :: mixer_handle list)) ([], [], 0, 0)" by (simp add: acc_ok_def)
  from probe_fold_spec[OF f start probe_units_distinct] obtain pairs where p: "acc_ok (length mixers) acc"
    "map ro_name (fst acc) = map (\<lambda>(u, k). route_name (length ?us) u k) pairs" "distinct pairs"
    "fst ` set pairs \<subseteq> fst ` set ?us" "\<forall>(u, k)\<in>set pairs. \<forall>s. k = KSource s \<longrightarrow> s < 25" by auto
  show "controller_ok (rc, routes)" "map ro_key routes = [0..<length routes]"
    using p(1) by (auto simp: controller_ok_def controls_ok_def acc_ok_def acc)
  have "inj_on (\<lambda>(u, k). route_name (length ?us) u k) (set pairs)"
  proof (rule inj_onI, clarify)
    fix u k v l
    assume a: "(u, k) \<in> set pairs" "(v, l) \<in> set pairs" "route_name (length ?us) u k = route_name (length ?us) v l"
    have "length ?us = 1 \<longrightarrow> u = v"
    proof
      assume "length ?us = 1"
      then obtain w where "?us = [w]" by (cases ?us) auto
      then have s: "fst ` set pairs \<subseteq> {fst w}" using p(4) by simp
      have "u \<in> fst ` set pairs" "v \<in> fst ` set pairs"
        using image_eqI[OF _ a(1), of u fst] image_eqI[OF _ a(2), of v fst] by simp_all
      then show "u = v" using subsetD[OF s, of u] subsetD[OF s, of v] by simp
    qed
    from route_name_inj[OF a(3) this] show "u = v \<and> k = l" using bspec[OF p(5) a(1)] bspec[OF p(5) a(2)] by simp
  qed
  then show "distinct (map ro_name routes)" using p(2,3) by (simp add: acc distinct_map)
qed

section \<open>Sessions\<close>

datatype route_op = OpRefreshAll | OpPoll | OpApply route_key route_update

fun route_step :: "route_op \<Rightarrow> route_controller \<times> route list \<Rightarrow> route_controller \<times> route list" where
  "route_step OpRefreshAll st = refresh_all st"
| "route_step OpPoll st = snd (route_poll st)"
| "route_step (OpApply key update) st = snd (route_apply key update st)"

definition route_session :: "(u32 \<Rightarrow> int option list option) \<Rightarrow> endpoint_snapshot list \<Rightarrow> route_op list \<Rightarrow> route_controller \<times> route list" where
  "route_session opened endpoints ops = fold route_step ops (route_probe opened endpoints)"

lemma route_apply_ok:
  assumes "controller_ok st"
  shows "controller_ok (snd (route_apply key update st)) \<and> same_frame st (snd (route_apply key update st))"
proof (cases "route_position (snd st) key")
  case None
  then show ?thesis using assms by (simp add: route_apply_def)
next
  case (Some pos)
  obtain c rc' rs' where a: "route_apply key update st = (c, rc', rs')" by (metis prod_cases3)
  show ?thesis by (rule route_apply_known[OF assms Some a]) (simp add: a)
qed

lemma route_step_ok: "controller_ok st \<Longrightarrow> controller_ok (route_step op st) \<and> same_frame st (route_step op st)"
  using refresh_all_ok[of st] route_apply_ok[of st] route_poll_ok[of st "fst (route_poll st)" "snd (route_poll st)"]
  by (cases op) simp_all

lemma route_session_ok:
  "controller_ok (route_session opened endpoints ops) \<and> same_frame (route_probe opened endpoints) (route_session opened endpoints ops)"
  unfolding route_session_def
proof (rule fold_keeps[where P = "\<lambda>st. controller_ok st \<and> same_frame (route_probe opened endpoints) st"])
  fix op st assume a: "controller_ok st \<and> same_frame (route_probe opened endpoints) st"
  then show "controller_ok (route_step op st) \<and> same_frame (route_probe opened endpoints) (route_step op st)"
    using route_step_ok[of st op] same_frame_trans[of _ st "route_step op st"] by blast
next
  show "controller_ok (route_probe opened endpoints) \<and> same_frame (route_probe opened endpoints) (route_probe opened endpoints)"
    using probe_ok(1)[of opened endpoints "fst (route_probe opened endpoints)" "snd (route_probe opened endpoints)"] by simp
qed

text \<open>A mixer the kernel does not answer for is left alone, so a poll that reports nothing changed nothing one can see.\<close>

lemma poll_unpolled:
  assumes "fold poll_mixer is (ch, rc, rs) = (ch', rc', rs')" "distinct is" "length (rc_bindings rc) = length rs" "p < length rs"
    and "bi_mixer (rc_bindings rc ! p) \<notin> set (polled is (ch, rc, rs))"
  shows "rs' ! p = rs ! p"
  using assms
proof (induction "is" arbitrary: ch rc rs)
  case (Cons i "is")
  obtain ch1 rc1 rs1 where 1: "poll_mixer i (ch, rc, rs) = (ch1, rc1, rs1)" by (metis prod_cases3)
  note s = conjunct1[OF poll_mixer_spec[OF 1 Cons.prems(3)]]
    conjunct1[OF conjunct2[OF poll_mixer_spec[OF 1 Cons.prems(3)]], rule_format, OF Cons.prems(4)]
  have len: "length rs1 = length rs" "length (rc_bindings rc1) = length rs1"
    using same_frame_length[OF s(1)] Cons.prems(3) by simp_all
  have mix: "bi_mixer (rc_bindings rc1 ! p) = bi_mixer (rc_bindings rc ! p)"
    using same_frame_mixer[OF s(1), of p] Cons.prems(3,4) by simp
  have f: "fold poll_mixer is (ch1, rc1, rs1) = (ch', rc', rs')" using Cons.prems(1) by (simp add: 1)
  have out: "bi_mixer (rc_bindings rc1 ! p) \<notin> set (polled is (ch1, rc1, rs1))"
    using Cons.prems(5) by (auto simp: 1 mix)
  have rest: "rs' ! p = rs1 ! p" by (rule Cons.IH[OF f _ len(2) _ out]) (use Cons.prems(2,4) len(1) in simp_all)
  have "rs1 ! p = rs ! p"
  proof (cases "bi_mixer (rc_bindings rc ! p) = i")
    case True
    then have "fst (on_mixer i modify_counter rc) = None" using Cons.prems(5) by (auto split: if_splits)
    then show ?thesis using 1 by (auto simp: poll_mixer_def split: prod.splits)
  qed (rule s(2))
  then show ?case using rest by simp
qed simp

lemma silent_poll:
  assumes "controller_ok st" "route_poll st = ([], st')" "p < length (snd st)"
  shows "\<not> visible_change (snd st ! p) (snd st' ! p)"
proof -
  obtain rc rs where st: "st = (rc, rs)" by (cases st)
  obtain rc' rs' where st': "st' = (rc', rs')" by (cases st')
  have f: "fold poll_mixer [0..<length (rc_mixers rc)] ([], rc, rs) = ([], rc', rs')" using assms(2) by (simp add: route_poll_def st st')
  have l: "length (rc_bindings rc) = length rs" using assms(1) by (simp add: controller_ok_def st)
  have "\<not> visible_change (rs ! p) (rs ! p)" by (simp add: visible_change_def)
  then show ?thesis
    using poll_fold_spec[OF f distinct_upt l] poll_unpolled[OF f distinct_upt l] assms(3) by (auto simp: st st')
qed

text \<open>An update that did not move the recording source touches the route it names alone, and announces what an active
  route shows of it.\<close>

lemma unselected_update:
  assumes "controller_ok (rc, rs)" "route_position rs key = Some pos" "route_apply key update (rc, rs) = (c, rc', rs')"
    and "ch_selection c \<in> {SelUnchanged, SelFailed}"
  shows "\<forall>p. p \<noteq> pos \<longrightarrow> rs' ! p = rs ! p" "ro_active (rs' ! pos) = ro_active (rs ! pos)" "ch_key c = Some key"
    "ro_volume (rs' ! pos) \<noteq> ro_volume (rs ! pos) \<Longrightarrow>
       level_backed (rc_bindings rc' ! pos) rc' (ro_volume (rs' ! pos)) \<and> (ro_active (rs ! pos) \<longrightarrow> ch_volume c)"
    "ro_mute (rs' ! pos) \<noteq> ro_mute (rs ! pos) \<Longrightarrow>
       mute_backed (rc_bindings rc' ! pos) rc' (rm_value (ro_mute (rs' ! pos))) \<and> (ro_active (rs ! pos) \<longrightarrow> ch_mute c)"
proof -
  have pos: "route_position (snd (rc, rs)) key = Some pos" using assms(2) by simp
  obtain selected selection st1 out where a: "apply_selection pos (up_activate update) (rc, rs) = ((selected, selection), st1)"
    "same_frame (rc, rs) (rc', rs')" "ch_selection c = selection"
    "applied pos (rc_bindings rc' ! pos) (resolve_controls pos (fst st1), snd st1) (out, rc', rs')"
    "(ch_key c, ch_volume c, ch_mute c)
       = (case selection_notification_flags rs' pos selected (vo_volume out) (vo_mute out) of (p, v, m) \<Rightarrow> (Some (ro_key (rs' ! p)), v, m))"
    by (rule route_apply_known[OF assms(1) pos assms(3)]) blast
  have u: "selected = None" "snd st1 = rs" using apply_selection_unselected[OF a(1)] assms(4) a(3) by auto
  have key: "ro_key (rs' ! pos) = key" using same_frame_key[OF a(2), of pos] position_known[OF assms(2)] by simp
  have "ro_active (rs' ! pos) = ro_active (rs ! pos)" using a(4) u(2) by (simp add: applied_def)
  then have "ch_key c = Some key" "ro_active (rs ! pos) \<longrightarrow> ch_volume c = vo_volume out \<and> ch_mute c = vo_mute out"
    using a(5) u(1) key by (auto simp: selection_notification_flags_def Let_def split: if_splits)
  then show "\<forall>p. p \<noteq> pos \<longrightarrow> rs' ! p = rs ! p" "ro_active (rs' ! pos) = ro_active (rs ! pos)" "ch_key c = Some key"
    "ro_volume (rs' ! pos) \<noteq> ro_volume (rs ! pos) \<Longrightarrow>
       level_backed (rc_bindings rc' ! pos) rc' (ro_volume (rs' ! pos)) \<and> (ro_active (rs ! pos) \<longrightarrow> ch_volume c)"
    "ro_mute (rs' ! pos) \<noteq> ro_mute (rs ! pos) \<Longrightarrow>
       mute_backed (rc_bindings rc' ! pos) rc' (rm_value (ro_mute (rs' ! pos))) \<and> (ro_active (rs ! pos) \<longrightarrow> ch_mute c)"
    using a(4) u(2) by (auto simp: applied_def)
qed

section \<open>Properties\<close>

text \<open>C36. In every session - a probe of any device against any mixers, then any sequence of refreshes, polls and
  updates - every route has its binding and every binding its mixer, so no index is out of range; a route's key is
  its position; and the names under which the session manager stores settings are all different and stay what the
  probe made them.\<close>

theorem sessions_keep_routes_consistent:
  "let st = route_session opened endpoints ops; routes = snd st
   in length (rc_bindings (fst st)) = length routes
    \<and> list_all (\<lambda>b. bi_mixer b < length (rc_mixers (fst st))) (rc_bindings (fst st))
    \<and> map ro_key routes = [0..<length routes] \<and> distinct (map ro_name routes)
    \<and> map ro_name routes = map ro_name (snd (route_probe opened endpoints))"
proof -
  let ?p = "route_probe opened endpoints" and ?st = "route_session opened endpoints ops"
  note ok = route_session_ok[of opened endpoints ops]
  have fr: "map route_frame (snd ?st) = map route_frame (snd ?p)" using ok by (simp add: same_frame_def)
  have name: "map ro_name rs = map (\<lambda>f. fst (snd (snd (snd f)))) (map route_frame rs)" for rs by (simp add: route_frame_def)
  have key: "map ro_key rs = map fst (map route_frame rs)" for rs by (simp add: route_frame_def)
  have "map ro_name (snd ?st) = map ro_name (snd ?p)" "map ro_key (snd ?st) = map ro_key (snd ?p)" unfolding name key fr by simp_all
  moreover have "length (snd ?st) = length (snd ?p)" using fr by (metis length_map)
  ultimately show ?thesis
    using ok probe_ok(2,3)[of opened endpoints "fst ?p" "snd ?p"] unfolding Let_def
    by (simp add: controller_ok_def list_all_iff)
qed

text \<open>C34. A poll misses nothing a listener can see: in any session, if a route's activity changed, or the volume or
  the mute of a route that is active, and the kernel answered for its mixer, the poll reports a change with that
  route's key; and every change it reports names a route and asks for a refresh.\<close>

theorem polling_reports_every_visible_change:
  assumes "route_session opened endpoints ops = (rc, rs)" "route_poll (rc, rs) = (changes, rc', rs')"
    and "p < length rs" "bi_mixer (rc_bindings rc ! p) \<in> set (polled [0..<length (rc_mixers rc)] ([], rc, rs))"
    and "visible_change (rs ! p) (rs' ! p)"
  shows "Some (ro_key (rs ! p)) \<in> ch_key ` set changes
    \<and> (\<forall>c\<in>set changes. ch_refresh c \<and> (\<exists>q<length rs. ch_key c = Some (ro_key (rs ! q))))"
proof -
  have ok: "controller_ok (rc, rs)" using route_session_ok[of opened endpoints ops] assms(1) by simp
  have f: "fold poll_mixer [0..<length (rc_mixers rc)] ([], rc, rs) = (changes, rc', rs')"
    using assms(2) by (simp add: route_poll_def)
  have "length (rc_bindings rc) = length rs" using ok by (simp add: controller_ok_def)
  from poll_fold_spec[OF f distinct_upt this] show ?thesis using assms(3-5) by auto
qed

text \<open>C35. An update never fakes hardware state: unless it moved the recording source, it changes no route but the one
  it names, a new volume or mute of a route with a hardware control was accepted by the mixer with exactly the
  levels the route now shows, and whatever changed on an active route is announced under its key.\<close>

theorem updates_show_only_accepted_values:
  assumes "route_session opened endpoints ops = (rc, rs)" "route_position rs key = Some pos"
    and "route_apply key update (rc, rs) = (c, rc', rs')" "ch_selection c \<in> {SelUnchanged, SelFailed}"
  shows "(\<forall>p. p \<noteq> pos \<longrightarrow> rs' ! p = rs ! p) \<and> ro_active (rs' ! pos) = ro_active (rs ! pos) \<and> ch_key c = Some key
    \<and> (ro_volume (rs' ! pos) \<noteq> ro_volume (rs ! pos) \<longrightarrow>
         level_backed (rc_bindings rc' ! pos) rc' (ro_volume (rs' ! pos)) \<and> (ro_active (rs ! pos) \<longrightarrow> ch_volume c))
    \<and> (ro_mute (rs' ! pos) \<noteq> ro_mute (rs ! pos) \<longrightarrow>
         mute_backed (rc_bindings rc' ! pos) rc' (rm_value (ro_mute (rs' ! pos))) \<and> (ro_active (rs ! pos) \<longrightarrow> ch_mute c))"
proof -
  have "controller_ok (rc, rs)" using route_session_ok[of opened endpoints ops] assms(1) by simp
  note u = unselected_update[OF this assms(2-4)]
  show ?thesis using u(1-3) u(4,5) by blast
qed

subsection \<open>Witnesses\<close>

text \<open>One playback unit with a master volume; somebody else turns it up between the probe and the poll.\<close>

definition sample_mixers :: "u32 \<Rightarrow> int option list option" where
  "sample_mixers unit = Some [Some 1, None, None, Some 0x3232, Some 0, Some 1, Some 2, Some 0x6464, Some 0, Some 0x3C3C, Some 3]"

definition sample_endpoint :: endpoint_snapshot where
  "sample_endpoint = endpoint_of ''card'' \<lparr>pd_index = 0, pd_desc = ''card'', pd_location = [], pd_play = True, pd_rec = False\<rparr> Playback"

definition sample_controller :: "int option list \<Rightarrow> (nat \<times> int) list \<Rightarrow> int \<Rightarrow> route_controller" where
  "sample_controller answers written counter =
     \<lparr>rc_bindings = [\<lparr>bi_mixer = 0, bi_volume_control = Some 0, bi_mute_control = Some 0, bi_follows_recsrc = False, bi_source = None\<rparr>],
      rc_mixers = [\<lparr>mh_mixer = \<lparr>mx_devmask = 1, mx_recmask = 0, mx_answers = answers, mx_written = written\<rparr>, mh_counter = counter\<rparr>]\<rparr>"

definition sample_route :: "nat \<times> nat \<Rightarrow> route" where
  "sample_route levels = \<lparr>ro_key = 0, ro_node_id = 0, ro_direction = Playback, ro_name = ''oss-output'', ro_description = ''Output'',
     ro_priority = 100, ro_availability = AvailYes, ro_active = True, ro_volume = route_volume_of levels True,
     ro_mute = \<lparr>rm_value = False, rm_hardware = True\<rparr>, ro_save = False\<rparr>"

abbreviation (input) sample_answers :: "int option list" where
  "sample_answers \<equiv> [Some 2, Some 0x6464, Some 0, Some 0x3C3C, Some 3]"

lemma sample_probe:
  "route_session sample_mixers [sample_endpoint] [] = (sample_controller sample_answers [] 1, [sample_route (50, 50)])"
  unfolding route_session_def sample_endpoint_def endpoint_of_def sample_controller_def sample_route_def
  by (simp add: route_probe_def probe_units_def probe_unit_def mixer_open_def sample_mixers_def mixer_read_int_def
    mixer_recsrc_def probe_direction_def probe_control_def output_control_def mixer_has_def mixer_level_def mixer_muted_def modify_counter_def
    control_route_def control_name_def control_binding_def Let_def ex_bool_eq)

lemmas sample_eval = sample_controller_def sample_route_def on_mixer_def modify_counter_def mixer_read_int_def Let_def
  resolve_controls_def opt_ioctl_def mixer_level_def mixer_muted_def route_refresh_def sync_source_def

lemma sample_levels: "level_to_volume 50 \<noteq> level_to_volume 100" "level_to_volume 100 = 1" "volume_to_level 1 = 100"
  using level_round_trip[of 100] by (simp_all add: level_to_volume_def Let_def)

lemma sample_native: "native_levels (route_volume_of (50, 50) h) = (50, 50)"
  using level_round_trip[of 50] by (simp add: native_levels_def route_volume_of_def)

lemma sample_mixer_poll:
  "\<exists>changes rc'. route_poll (sample_controller sample_answers [] 1, [sample_route (50, 50)]) = (changes, rc', [sample_route (100, 100)])"
  by (simp add: route_poll_def poll_mixer_def poll_route_def sample_eval route_volume_of_def set_native_levels_def)

theorem polling_reports_every_visible_change_witness:
  "\<exists>changes rc'. route_poll (sample_controller sample_answers [] 1, [sample_route (50, 50)]) = (changes, rc', [sample_route (100, 100)])
     \<and> Some 0 \<in> ch_key ` set changes"
proof -
  obtain changes rc' where p: "route_poll (sample_controller sample_answers [] 1, [sample_route (50, 50)]) = (changes, rc', [sample_route (100, 100)])"
    using sample_mixer_poll by blast
  have a: "bi_mixer (rc_bindings (sample_controller sample_answers [] 1) ! 0)
      \<in> set (polled [0..<length (rc_mixers (sample_controller sample_answers [] 1))] ([], sample_controller sample_answers [] 1, [sample_route (50, 50)]))"
    by (simp add: sample_controller_def on_mixer_def modify_counter_def mixer_read_int_def)
  have v: "visible_change ([sample_route (50, 50)] ! 0) ([sample_route (100, 100)] ! 0)"
    using sample_levels(1) by (simp add: visible_change_def sample_route_def route_volume_of_def)
  have "0 < length [sample_route (50, 50)]" by simp
  note r = conjunct1[OF polling_reports_every_visible_change[OF sample_probe p this a v]]
  have "Some (ro_key ([sample_route (50, 50)] ! 0)) = Some 0" by (simp add: sample_route_def)
  then show ?thesis using p r by metis
qed

lemma sample_apply:
  "route_apply 0 \<lparr>up_activate = True, up_values = [UpdVolume [1]]\<rparr> (sample_controller sample_answers [] 1, [sample_route (50, 50)])
     = (\<lparr>ch_key = Some 0, ch_volume = True, ch_mute = False, ch_selection = SelUnchanged, ch_refresh = True, ch_diagnostic = None\<rparr>,
        sample_controller [Some 0, Some 0x3C3C, Some 3] [(0, encode_levels 100 100)] 0x6464, [sample_route (100, 100)])"
proof -
  have "native_levels \<lparr>rv_values = [level_to_volume 50, level_to_volume 50], rv_channels = [3, 4], rv_base = 1, rv_step = 1 / 101,
      rv_hardware = True\<rparr> = (50, 50)"
    using sample_native[of True] by (simp add: route_volume_of_def)
  then show ?thesis
    by (simp add: route_apply_def route_position_def apply_selection_def sample_eval route_volume_of_def set_native_levels_def
      apply_value_def selection_notification_flags_def sample_levels(3) set_level_def mixer_write_int_def)
qed

theorem updates_show_only_accepted_values_witness:
  "level_backed (rc_bindings (sample_controller [Some 0, Some 0x3C3C, Some 3] [(0, encode_levels 100 100)] 0x6464) ! 0)
     (sample_controller [Some 0, Some 0x3C3C, Some 3] [(0, encode_levels 100 100)] 0x6464) (ro_volume (sample_route (100, 100)))"
proof -
  have "route_position [sample_route (50, 50)] 0 = Some 0" by (simp add: route_position_def sample_route_def)
  moreover have "ro_volume (sample_route (100, 100)) \<noteq> ro_volume (sample_route (50, 50))"
    using sample_levels(1) by (simp add: sample_route_def route_volume_of_def)
  ultimately show ?thesis using updates_show_only_accepted_values[OF sample_probe _ sample_apply, of 0] by simp
qed

end
