(* ===== verification/DeviceParams.thy ===== *)
theory DeviceParams
  imports MixerProbe NodeControl
begin

text \<open>
  The parameters of a device object (crates/core/src/device/params.rs) and their enumeration
  (\<open>enum\_params\_loop\<close> in crates/core/src/spa/params.rs): Profile and Route pods as libspa's \<open>Value\<close> trees, decoding
  a request, building what is read back, and the addressing of routes. libspa's serialiser and parser stand
  between these trees and the bytes; a pod here is the tree its bytes parse to. The keys of an object are those of
  its type, one constructor per constant the code names.
\<close>

section \<open>Pods\<close>

datatype param_id = ParamEnumProfile | ParamProfile | ParamEnumRoute | ParamRoute | ParamOther nat

datatype object_type = TyParamProfile | TyParamRoute | TyProps | TyEventDevice | TyOther nat

datatype object_id = OidParam param_id | OidObjectConfig | OidEventProps

datatype pod_key =
    PkProfileIndex | PkProfileName | PkProfileDescription | PkProfilePriority | PkProfileAvailable
  | PkProfileClasses | PkProfileSave
  | PkRouteIndex | PkRouteDirection | PkRouteName | PkRouteDescription | PkRoutePriority | PkRouteAvailable
  | PkRouteProfiles | PkRouteDevices | PkRouteDevice | PkRouteProps | PkRouteProfile | PkRouteSave
  | PkMute | PkChannelVolumes | PkVolumeBase | PkVolumeStep | PkChannelMap | PkSoftVolumes | PkSoftMute
  | PkEventObject | PkEventProps | PkOther nat

datatype property_flags = PfEmpty | PfHardware | PfReadonly

datatype spa_value =
    PvBool bool | PvInt int | PvFloat real | PvString string | PvId nat
  | PvInts "int list" | PvFloats "real list" | PvIds "nat list"
  | PvStruct "spa_value list" | PvObject object_type object_id "pod_property list" | PvOther nat
and pod_property = PodProperty (pp_key: pod_key) (pp_flags: property_flags) (pp_value: spa_value)

definition pod_prop :: "pod_key \<Rightarrow> spa_value \<Rightarrow> pod_property" where
  "pod_prop key value = PodProperty key PfEmpty value"

abbreviation (input) SPA_DIRECTION_INPUT :: nat where "SPA_DIRECTION_INPUT \<equiv> 0"
abbreviation (input) SPA_DIRECTION_OUTPUT :: nat where "SPA_DIRECTION_OUTPUT \<equiv> 1"

fun availability_id :: "route_availability \<Rightarrow> nat" where
  "availability_id AvailUnknown = 0"
| "availability_id AvailNo = 1"
| "availability_id AvailYes = 2"

section \<open>Requests\<close>

text \<open>What \<open>set_param\<close> gets: no pod, bytes libspa refuses, or a value.\<close>

datatype pod_input = NullPod | BrokenPod | Pod spa_value

record profile_request =
  pq_index :: u32
  pq_save :: bool

definition decode_profile_property ::
    "pod_property \<Rightarrow> u32 option \<times> string option \<times> bool \<Rightarrow> u32 option \<times> string option \<times> bool" where
  "decode_profile_property p acc =
     (let (index, name, save) = acc
      in if pp_key p = PkProfileIndex
         then (case pp_value p of PvInt v \<Rightarrow> if 0 \<le> v \<and> v \<le> 1 then (Some (nat v), name, save) else acc | _ \<Rightarrow> acc)
         else if pp_key p = PkProfileName then (case pp_value p of PvString v \<Rightarrow> (index, Some v, save) | _ \<Rightarrow> acc)
         else if pp_key p = PkProfileSave then (case pp_value p of PvBool v \<Rightarrow> (index, name, v) | _ \<Rightarrow> acc)
         else acc)"

definition profile_named :: "string option \<Rightarrow> u32 option" where
  "profile_named name =
     (if name = Some ''off'' then Some 0 else if name = Some ''default'' then Some 1 else None)"

definition decode_profile_request :: "spa_value option \<Rightarrow> int + profile_request" where
  "decode_profile_request value =
     (case (case value of
              None \<Rightarrow> Some (Some 1, None, False)
            | Some (PvObject ty _ ps) \<Rightarrow>
                if ty = TyParamProfile then Some (fold decode_profile_property ps (None, None, False)) else None
            | Some _ \<Rightarrow> None) of
        None \<Rightarrow> Inl EINVAL_code
      | Some (index, name, save) \<Rightarrow>
          (case (if index = None then profile_named name else index) of
             Some i \<Rightarrow> Inr \<lparr>pq_index = i, pq_save = save\<rparr> | None \<Rightarrow> Inl EINVAL_code))"

datatype route_prop = PropMute bool | PropChannelVolumes "real list"

definition decode_route_prop :: "pod_property \<Rightarrow> route_prop option" where
  "decode_route_prop p =
     (if pp_key p = PkMute then (case pp_value p of PvBool m \<Rightarrow> Some (PropMute m) | _ \<Rightarrow> None)
      else if pp_key p = PkChannelVolumes
      then (case pp_value p of PvFloats v \<Rightarrow> if v \<noteq> [] then Some (PropChannelVolumes v) else None | _ \<Rightarrow> None)
      else None)"

definition decode_route_props :: "pod_property list \<Rightarrow> route_prop list" where
  "decode_route_props ps = List.map_filter decode_route_prop ps"

record route_request =
  rq_index :: "nat option"
  rq_name :: "string option"
  rq_device :: u32
  rq_save :: bool
  rq_props :: "route_prop list option"

record route_fields =
  rd_index :: "nat option"
  rd_name :: "string option"
  rd_device :: "u32 option"
  rd_save :: bool
  rd_props :: "route_prop list option"

definition decode_route_property :: "pod_property \<Rightarrow> route_fields \<Rightarrow> route_fields" where
  "decode_route_property p f =
     (if pp_key p = PkRouteIndex
      then (case pp_value p of PvInt v \<Rightarrow> if 0 \<le> v then f\<lparr>rd_index := Some (nat v)\<rparr> else f | _ \<Rightarrow> f)
      else if pp_key p = PkRouteName then (case pp_value p of PvString v \<Rightarrow> f\<lparr>rd_name := Some v\<rparr> | _ \<Rightarrow> f)
      else if pp_key p = PkRouteDevice
      then (case pp_value p of PvInt v \<Rightarrow> if 0 \<le> v then f\<lparr>rd_device := Some (nat v)\<rparr> else f | _ \<Rightarrow> f)
      else if pp_key p = PkRouteSave then (case pp_value p of PvBool v \<Rightarrow> f\<lparr>rd_save := v\<rparr> | _ \<Rightarrow> f)
      else if pp_key p = PkRouteProps
      then (case pp_value p of
              PvObject ty _ ps \<Rightarrow> if ty = TyProps then f\<lparr>rd_props := Some (decode_route_props ps)\<rparr> else f | _ \<Rightarrow> f)
      else f)"

definition decode_route_request :: "spa_value option \<Rightarrow> int + route_request" where
  "decode_route_request value =
     (case value of
        Some (PvObject ty _ ps) \<Rightarrow>
          if ty = TyParamRoute
          then (let f = fold decode_route_property ps \<lparr>rd_index = None, rd_name = None, rd_device = None, rd_save = False, rd_props = None\<rparr>
                in case rd_device f of
                     None \<Rightarrow> Inl EINVAL_code
                   | Some device \<Rightarrow> Inr \<lparr>rq_index = rd_index f, rq_name = rd_name f, rq_device = device,
                                         rq_save = rd_save f, rq_props = rd_props f\<rparr>)
          else Inl EINVAL_code
      | _ \<Rightarrow> Inl EINVAL_code)"

text \<open>The position a request addresses.\<close>

definition resolve_route_pos :: "route list \<Rightarrow> nat option \<Rightarrow> string option \<Rightarrow> u32 \<Rightarrow> nat option" where
  "resolve_route_pos routes index name device =
     (case (case index of
              None \<Rightarrow> None
            | Some i \<Rightarrow> if i < length routes \<and> ro_node_id (routes ! i) = device
                          \<and> (case name of Some nm \<Rightarrow> ro_name (routes ! i) = nm | None \<Rightarrow> True) then Some i else None) of
        Some i \<Rightarrow> Some i
      | None \<Rightarrow> (case name of
                  None \<Rightarrow> None
                | Some nm \<Rightarrow> List.find (\<lambda>i. ro_name (routes ! i) = nm \<and> ro_node_id (routes ! i) = device) [0..<length routes]))"

definition route_value_updates :: "route_prop list option \<Rightarrow> route_value_update list" where
  "route_value_updates props =
     List.map_filter (\<lambda>p. case p of PropMute m \<Rightarrow> Some (UpdMute m)
                                  | PropChannelVolumes v \<Rightarrow> if v \<noteq> [] then Some (UpdVolume v) else None)
       (case props of Some ps \<Rightarrow> ps | None \<Rightarrow> [])"

section \<open>What is read back\<close>

definition endpoint_ids :: "stream_direction \<Rightarrow> device_snapshot \<Rightarrow> int list" where
  "endpoint_ids d snapshot = map (\<lambda>e. as_i32 (es_object_id e)) (filter (\<lambda>e. es_direction e = d) (dv_endpoints snapshot))"

definition profile_classes :: "u32 \<Rightarrow> device_snapshot \<Rightarrow> spa_value list" where
  "profile_classes index snapshot =
     (let classes = filter (\<lambda>(_, ids). ids \<noteq> [])
            [(''Audio/Source'', endpoint_ids Capture snapshot), (''Audio/Sink'', endpoint_ids Playback snapshot)]
      in if index = 0 then [PvInt 0]
         else PvInt (as_i32 (length classes))
            # map (\<lambda>(cls, ids). PvStruct [PvString cls, PvInt (as_i32 (length ids)), PvString ''card.profile.devices'', PvInts ids]) classes)"

definition build_profile_info :: "param_id \<Rightarrow> u32 \<Rightarrow> device_snapshot \<Rightarrow> bool \<Rightarrow> bool \<Rightarrow> spa_value" where
  "build_profile_info pid index snapshot profile_save current =
     (let (name, description, priority) =
            (if index = 0 then (''off'', ''Off'', 0) else (''default'', ''Default'', 100))
      in PvObject TyParamProfile (OidParam pid)
           ([pod_prop PkProfileIndex (PvInt (as_i32 index)), pod_prop PkProfileName (PvString name),
             pod_prop PkProfileDescription (PvString description), pod_prop PkProfilePriority (PvInt priority),
             pod_prop PkProfileAvailable (PvId (availability_id AvailYes)),
             pod_prop PkProfileClasses (PvStruct (profile_classes index snapshot))]
            @ (if current then [pod_prop PkProfileSave (PvBool profile_save)] else [])))"

definition route_props_object :: "param_id \<Rightarrow> route \<Rightarrow> spa_value" where
  "route_props_object pid r =
     (let hw = rv_hardware (ro_volume r);
          volume_flag = (if hw then PfHardware else PfEmpty);
          mute_flag = (if rm_hardware (ro_mute r) then PfHardware else PfEmpty);
          volumes = rv_values (ro_volume r);
          soft = (if hw then replicate (length (rv_channels (ro_volume r))) 1 else volumes)
      in PvObject TyProps (OidParam pid)
           [PodProperty PkMute mute_flag (PvBool (rm_value (ro_mute r))),
            PodProperty PkChannelVolumes volume_flag (PvFloats volumes),
            PodProperty PkVolumeBase PfReadonly (PvFloat (rv_base (ro_volume r))),
            PodProperty PkVolumeStep PfReadonly (PvFloat (rv_step (ro_volume r))),
            pod_prop PkChannelMap (PvIds (rv_channels (ro_volume r))),
            pod_prop PkSoftVolumes (PvFloats soft)])"

definition build_route_info :: "param_id \<Rightarrow> route \<Rightarrow> nat \<Rightarrow> u32 \<Rightarrow> bool \<Rightarrow> spa_value" where
  "build_route_info pid r pos profile full =
     PvObject TyParamRoute (OidParam pid)
       ([pod_prop PkRouteIndex (PvInt (as_i32 pos)),
         pod_prop PkRouteDirection (PvId (if ro_direction r = Capture then SPA_DIRECTION_INPUT else SPA_DIRECTION_OUTPUT)),
         pod_prop PkRouteName (PvString (ro_name r)),
         pod_prop PkRouteDescription (PvString (ro_description r)),
         pod_prop PkRoutePriority (PvInt (ro_priority r)),
         pod_prop PkRouteAvailable (PvId (availability_id (ro_availability r))),
         pod_prop PkRouteProfiles (PvInts [1]),
         pod_prop PkRouteDevices (PvInts [as_i32 (ro_node_id r)])]
        @ (if full
           then [pod_prop PkRouteDevice (PvInt (as_i32 (ro_node_id r))),
                 pod_prop PkRouteProps (route_props_object pid r),
                 pod_prop PkRouteProfile (PvInt (as_i32 profile)),
                 pod_prop PkRouteSave (PvBool (ro_save r))]
           else []))"

section \<open>Enumeration\<close>

datatype param_step = Built spa_value | Skip | Stop int

text \<open>
  \<open>enum_params_loop\<close>: the result code and the emitted parameters with their indices. \<open>filter_pod\<close> is
  libspa's filter with the host's argument. The listeners are taken not to change the state meanwhile.
  Nothing in the loop bounds the index, so it is a partial function.
\<close>

partial_function (option) enum_params_loop ::
    "(u32 \<Rightarrow> param_step) \<Rightarrow> (spa_value \<Rightarrow> spa_value option) \<Rightarrow> u32 \<Rightarrow> u32 \<Rightarrow> (u32 \<times> spa_value) list
       \<Rightarrow> (int \<times> (u32 \<times> spa_value) list) option" where
  "enum_params_loop build filter_pod index left emitted =
     (if left = 0 then Some (0, emitted)
      else case build index of
        Stop res \<Rightarrow> Some (res, emitted)
      | Skip \<Rightarrow> enum_params_loop build filter_pod (index + 1) left emitted
      | Built pod \<Rightarrow>
          (case filter_pod pod of
             Some param \<Rightarrow> enum_params_loop build filter_pod (index + 1) (left - 1) (emitted @ [(index, param)])
           | None \<Rightarrow> enum_params_loop build filter_pod (index + 1) left emitted))"

text \<open>What the device has at an index.\<close>

definition device_param_step :: "device_snapshot \<Rightarrow> u32 \<Rightarrow> bool \<Rightarrow> route list \<Rightarrow> param_id \<Rightarrow> u32 \<Rightarrow> param_step" where
  "device_param_step snapshot profile profile_save routes pid index =
     (if pid = ParamRoute \<and> index < length routes \<and> \<not> ro_active (routes ! index) then Skip
      else case pid of
        ParamEnumProfile \<Rightarrow>
          if index = 0 \<or> index = 1 then Built (build_profile_info ParamEnumProfile index snapshot profile_save False) else Stop 0
      | ParamProfile \<Rightarrow>
          if index = 0 then Built (build_profile_info ParamProfile profile snapshot profile_save True) else Stop 0
      | ParamEnumRoute \<Rightarrow>
          if index < length routes then Built (build_route_info ParamEnumRoute (routes ! index) index profile False) else Stop 0
      | ParamRoute \<Rightarrow>
          if profile \<noteq> 0 \<and> index < length routes
          then Built (build_route_info ParamRoute (routes ! index) index profile True) else Stop 0
      | ParamOther _ \<Rightarrow> Stop ENOENT_code)"

end
