(* ===== verification/DeviceObject.thy ===== *)
theory DeviceObject
  imports DeviceParams OssHotplug
begin

text \<open>
  The device object (crates/core/src/device: mod.rs, params.rs, events.rs and watch.rs): its info block with the
  serials of its parameters, the object events of its nodes, setting Profile and Route, and the poll of the routes
  by timer and by devd. A handler returns its result code and the notifications it hands to the dispatch queue; that
  queue is the one of theory \<open>Monitor\<close> and delivers them in order. What the support library and the loop answer
  are arguments, logging is left out, and so is the abort when the loop refuses to detach a source.
\<close>

unbundle bit_operations_syntax

section \<open>The info block\<close>

abbreviation (input) SPA_PARAM_INFO_SERIAL :: "32 word" where "SPA_PARAM_INFO_SERIAL \<equiv> 1"
abbreviation (input) SPA_PARAM_INFO_READ :: "32 word" where "SPA_PARAM_INFO_READ \<equiv> 2"
abbreviation (input) SPA_PARAM_INFO_READWRITE :: "32 word" where "SPA_PARAM_INFO_READWRITE \<equiv> 6"
abbreviation (input) SPA_DEVICE_CHANGE_MASK_PROPS :: "64 word" where "SPA_DEVICE_CHANGE_MASK_PROPS \<equiv> 2"
abbreviation (input) SPA_DEVICE_CHANGE_MASK_PARAMS :: "64 word" where "SPA_DEVICE_CHANGE_MASK_PARAMS \<equiv> 4"
abbreviation (input) SPA_DEVICE_CHANGE_MASK_ALL :: "64 word" where "SPA_DEVICE_CHANGE_MASK_ALL \<equiv> 7"

record param_info =
  pi_id :: param_id
  pi_flags :: "32 word"

record device_info =
  de_change_mask :: "64 word"
  de_props :: "(string \<times> string) list"
  de_params :: "param_info list"

definition device_info_new :: device_info where
  "device_info_new = \<lparr>de_change_mask = 0, de_props = [], de_params = []\<rparr>"

definition info_add_prop :: "string \<Rightarrow> string \<Rightarrow> device_info \<Rightarrow> device_info" where
  "info_add_prop key value i =
     i\<lparr>de_props := de_props i @ [(key, value)], de_change_mask := de_change_mask i OR SPA_DEVICE_CHANGE_MASK_PROPS\<rparr>"

definition info_add_param :: "param_id \<Rightarrow> 32 word \<Rightarrow> device_info \<Rightarrow> device_info" where
  "info_add_param pid flags i =
     i\<lparr>de_params := de_params i @ [\<lparr>pi_id = pid, pi_flags = flags\<rparr>],
       de_change_mask := de_change_mask i OR SPA_DEVICE_CHANGE_MASK_PARAMS\<rparr>"

fun bump_params :: "param_id \<Rightarrow> param_info list \<Rightarrow> param_info list option" where
  "bump_params pid [] = None"
| "bump_params pid (p # ps) =
     (if pi_id p = pid then Some (p\<lparr>pi_flags := pi_flags p XOR SPA_PARAM_INFO_SERIAL\<rparr> # ps)
      else map_option ((#) p) (bump_params pid ps))"

definition bump_param :: "param_id \<Rightarrow> device_info \<Rightarrow> device_info" where
  "bump_param pid i =
     (case bump_params pid (de_params i) of
        None \<Rightarrow> i
      | Some ps \<Rightarrow> i\<lparr>de_params := ps, de_change_mask := de_change_mask i OR SPA_DEVICE_CHANGE_MASK_PARAMS\<rparr>)"

definition replace_change_mask :: "64 word \<Rightarrow> device_info \<Rightarrow> device_info" where
  "replace_change_mask w i = i\<lparr>de_change_mask := w\<rparr>"

definition initial_info :: "device_info \<Rightarrow> device_info" where
  "initial_info i = replace_change_mask SPA_DEVICE_CHANGE_MASK_ALL i"

text \<open>The snapshot handed out and the info that stays.\<close>

definition take_info :: "device_info \<Rightarrow> device_info \<times> device_info" where
  "take_info i = (i, replace_change_mask 0 i)"

section \<open>Notifications\<close>

datatype device_object_event = DevAdded endpoint_snapshot nat | DevRemoved u32

datatype device_notification = DnInfo device_info | DnObject device_object_event | DnEvent spa_value | DnDone int

definition object_events :: "device_snapshot \<Rightarrow> route list \<Rightarrow> bool \<Rightarrow> device_object_event list" where
  "object_events snapshot routes present =
     map (\<lambda>e. if present then DevAdded e (length (filter (\<lambda>r. ro_node_id r = es_object_id e) routes))
              else DevRemoved (es_object_id e)) (dv_endpoints snapshot)"

text \<open>The object a listener is shown: the factory and the properties; None retracts it.\<close>

definition emit_object :: "device_object_event \<Rightarrow> u32 \<times> (string \<times> (string \<times> string) list) option" where
  "emit_object event =
     (case event of
        DevRemoved i \<Rightarrow> (i, None)
      | DevAdded e routes_n \<Rightarrow>
          (es_object_id e,
           Some (if es_direction e = Capture then ''freebsd-oss.source'' else ''freebsd-oss.sink'',
                 [(''node.name'', es_name e), (''node.description'', es_description e), (STREAM_PATH, snd (es_locator e))]
                 @ (if 0 < routes_n
                    then [(''card.profile.device'', show_nat (es_object_id e)), (''device.routes'', show_nat routes_n)] else []))))"

definition build_object_config :: "u32 \<Rightarrow> (real list \<times> bool \<times> nat list) option \<Rightarrow> bool option \<Rightarrow> spa_value" where
  "build_object_config node_id volume mute =
     (let props =
            (case volume of
               None \<Rightarrow> []
             | Some (volumes, hw, channels) \<Rightarrow>
                 [pod_prop PkChannelVolumes (PvFloats volumes), pod_prop PkChannelMap (PvIds channels),
                  pod_prop PkSoftVolumes (PvFloats (if hw then replicate (length volumes) 1 else volumes))])
            @ (case mute of None \<Rightarrow> [] | Some m \<Rightarrow> [pod_prop PkMute (PvBool m), pod_prop PkSoftMute (PvBool m)])
      in PvObject TyEventDevice OidObjectConfig
           [pod_prop PkEventObject (PvInt (as_i32 node_id)), pod_prop PkEventProps (PvObject TyProps OidEventProps props)])"

section \<open>The device\<close>

record device_runtime =
  dr_info :: device_info
  dr_snapshot :: device_snapshot
  dr_profile :: u32
  dr_profile_save :: bool
  dr_routes :: "route list"
  dr_controller :: route_controller
  dr_timer :: bool
  dr_hotplug :: "hotplug_monitor option"

abbreviation dr_control :: "device_runtime \<Rightarrow> route_controller \<times> route list" where
  "dr_control rt \<equiv> (dr_controller rt, dr_routes rt)"

definition set_control :: "route_controller \<times> route list \<Rightarrow> device_runtime \<Rightarrow> device_runtime" where
  "set_control st rt = rt\<lparr>dr_controller := fst st, dr_routes := snd st\<rparr>"

definition queue_object_config :: "device_runtime \<Rightarrow> nat \<Rightarrow> bool \<Rightarrow> device_notification" where
  "queue_object_config rt pos emit_volume =
     (let r = dr_routes rt ! pos
      in DnEvent (if emit_volume
           then build_object_config (ro_node_id r) (Some (rv_values (ro_volume r), rv_hardware (ro_volume r), rv_channels (ro_volume r))) None
           else build_object_config (ro_node_id r) None (Some (rm_value (ro_mute r)))))"

definition queue_configs :: "device_runtime \<Rightarrow> route_change \<Rightarrow> device_notification list" where
  "queue_configs rt change =
     (case ch_key change of
        None \<Rightarrow> []
      | Some key \<Rightarrow>
          (case route_position (dr_routes rt) key of
             None \<Rightarrow> []
           | Some pos \<Rightarrow> (if ch_volume change then [queue_object_config rt pos True] else [])
                        @ (if ch_mute change then [queue_object_config rt pos False] else [])))"

text \<open>Flipping the serials of some parameters and announcing it.\<close>

definition announce_params :: "param_id list \<Rightarrow> device_runtime \<Rightarrow> device_notification \<times> device_runtime" where
  "announce_params pids rt =
     (let (shown, kept) = take_info (fold bump_param pids (replace_change_mask 0 (dr_info rt)))
      in (DnInfo shown, rt\<lparr>dr_info := kept\<rparr>))"

definition queue_route_change :: "device_runtime \<Rightarrow> device_notification \<times> device_runtime" where
  "queue_route_change rt = announce_params [ParamRoute] rt"

definition poll_routes :: "device_runtime \<Rightarrow> device_notification list \<times> device_runtime" where
  "poll_routes rt =
     (if dr_profile rt = 0 then ([], rt)
      else let (changes, st) = route_poll (dr_control rt); rt = set_control st rt
           in if changes = [] then ([], rt)
              else let (n, rt) = queue_route_change rt in (n # concat (map (queue_configs rt) changes), rt))"

text \<open>The timer's callback; \<open>read\<close> tells whether the timer could be read.\<close>

definition on_route_timeout :: "bool \<Rightarrow> device_runtime \<Rightarrow> device_notification list \<times> device_runtime" where
  "on_route_timeout read rt = (if dr_timer rt \<and> read then poll_routes rt else ([], rt))"

definition on_device_hotplug :: "device_runtime \<Rightarrow> device_notification list \<times> device_runtime" where
  "on_device_hotplug rt =
     (case dr_hotplug rt of
        None \<Rightarrow> ([], rt)
      | Some m \<Rightarrow>
          (let ((alive, nudged), m) = read_hotplug (dr_routes rt) m;
               rt = rt\<lparr>dr_hotplug := Some m\<rparr>;
               (ns, rt) = (if nudged then poll_routes rt else ([], rt))
           in (ns, if alive then rt else rt\<lparr>dr_hotplug := None\<rparr>)))"

section \<open>Setting parameters\<close>

definition set_profile_param :: "profile_request \<Rightarrow> device_runtime \<Rightarrow> (int \<times> device_notification list) \<times> device_runtime" where
  "set_profile_param request rt =
     (let index = pq_index request; save = pq_save request;
          save_changed = (dr_profile_save rt \<noteq> save);
          rt = rt\<lparr>dr_profile_save := save\<rparr>
      in if dr_profile rt \<noteq> index
         then let rt = rt\<lparr>dr_profile := index\<rparr>;
                  rt = (if index \<noteq> 0 then set_control (refresh_all (dr_control rt)) rt else rt);
                  objects = map DnObject (object_events (dr_snapshot rt) (dr_routes rt) (index \<noteq> 0));
                  (n, rt) = announce_params [ParamProfile, ParamEnumRoute, ParamRoute] rt
              in ((0, objects @ [n]), rt)
         else if save_changed then let (n, rt) = announce_params [ParamProfile] rt in ((0, [n]), rt)
         else ((0, []), rt))"

definition set_route_param :: "route_request \<Rightarrow> device_runtime \<Rightarrow> (int \<times> device_notification list) \<times> device_runtime" where
  "set_route_param request rt =
     (if dr_profile rt = 0 then ((EINVAL_code, []), rt)
      else case resolve_route_pos (dr_routes rt) (rq_index request) (rq_name request) (rq_device request) of
        None \<Rightarrow> ((EINVAL_code, []), rt)
      | Some pos \<Rightarrow>
          (let save_changed = (ro_save (dr_routes rt ! pos) \<noteq> rq_save request);
               rt = rt\<lparr>dr_routes := (dr_routes rt)[pos := (dr_routes rt ! pos)\<lparr>ro_save := rq_save request\<rparr>]\<rparr>;
               update = \<lparr>up_activate = \<not> ro_active (dr_routes rt ! pos), up_values = route_value_updates (rq_props request)\<rparr>;
               (change, st) = route_apply (ro_key (dr_routes rt ! pos)) update (dr_control rt);
               rt = set_control st rt;
               (ns, rt) = (if ch_refresh change \<or> save_changed
                           then let (n, rt) = queue_route_change rt in ([n], rt) else ([], rt))
           in ((0, ns @ queue_configs rt change), rt)))"

definition device_set_param :: "param_id \<Rightarrow> pod_input \<Rightarrow> device_runtime \<Rightarrow> (int \<times> device_notification list) \<times> device_runtime" where
  "device_set_param pid param rt =
     (if pid \<noteq> ParamProfile \<and> pid \<noteq> ParamRoute then ((ENOENT_code, []), rt)
      else if param = BrokenPod then ((EINVAL_code, []), rt)
      else let value = (case param of Pod v \<Rightarrow> Some v | _ \<Rightarrow> None)
           in if pid = ParamProfile
              then (case decode_profile_request value of Inr q \<Rightarrow> set_profile_param q rt | Inl e \<Rightarrow> ((e, []), rt))
              else (case decode_route_request value of Inr q \<Rightarrow> set_route_param q rt | Inl e \<Rightarrow> ((e, []), rt)))"

section \<open>Creation\<close>

text \<open>What the support library, the loop and devd answer while the watchers are armed.\<close>

record watch_answers =
  wa_loop :: bool
  wa_system :: bool
  wa_timer_created :: bool
  wa_timer_registered :: int
  wa_hotplug :: "int + hotplug_monitor"
  wa_hotplug_registered :: int

definition arm_route_watch :: "watch_answers \<Rightarrow> device_runtime \<Rightarrow> device_runtime" where
  "arm_route_watch wa rt =
     (if dr_routes rt = [] then rt
      else let policy = route_watch_policy;
               rt = (if wp_poll_interval_ns policy \<noteq> None \<and> wa_loop wa \<and> wa_system wa \<and> wa_timer_created wa
                     then rt\<lparr>dr_timer := (0 \<le> wa_timer_registered wa)\<rparr> else rt)
           in if wp_event_driven policy \<and> wa_loop wa
              then (case wa_hotplug wa of
                      Inr m \<Rightarrow> rt\<lparr>dr_hotplug := (if wa_hotplug_registered wa < 0 then None else Some m)\<rparr>
                    | Inl _ \<Rightarrow> rt)
              else rt)"

definition device_info_of :: "string option \<Rightarrow> string \<Rightarrow> device_info" where
  "device_info_of parent description =
     (let i = info_add_prop ''media.class'' ''Audio/Device'' (info_add_prop ''device.api'' DEVICE_API device_info_new);
          i = (case parent of Some p \<Rightarrow> info_add_prop ''device.name'' p i | None \<Rightarrow> i);
          i = info_add_prop ''device.description'' description i
      in info_add_param ParamRoute SPA_PARAM_INFO_READWRITE (info_add_param ParamEnumRoute SPA_PARAM_INFO_READ
           (info_add_param ParamProfile SPA_PARAM_INFO_READWRITE (info_add_param ParamEnumProfile SPA_PARAM_INFO_READ i))))"

definition parse_device_dict :: "(string \<times> string) list option \<Rightarrow> oss_device_init" where
  "parse_device_dict items =
     (case items of None \<Rightarrow> device_init_default
      | Some kvs \<Rightarrow> fold (\<lambda>(key, value). device_init_parse key value) kvs device_init_default)"

definition device_init ::
    "bool \<Rightarrow> watch_answers \<Rightarrow> (string \<times> string) list option \<Rightarrow> (string \<Rightarrow> string option) \<Rightarrow> nv_device list option \<Rightarrow> sysctl
       \<Rightarrow> (u32 \<Rightarrow> int option list option) \<Rightarrow> int + device_runtime" where
  "device_init has_log wa items shorten sndstat sysctl opened =
     (let init = parse_device_dict items
      in if \<not> has_log \<or> \<not> device_init_is_complete init then Inl EINVAL_code
         else case snapshot_of_devices (list_audio_devices shorten sndstat sysctl (di_units init)) of
           None \<Rightarrow> Inl EINVAL_code
         | Some snapshot \<Rightarrow>
             (let (rc, routes) = route_probe opened (dv_endpoints snapshot)
              in Inr (arm_route_watch wa
                   \<lparr>dr_info = device_info_of (di_parent_name init) (dv_description snapshot), dr_snapshot = snapshot, dr_profile = 1,
                     dr_profile_save = False, dr_routes = routes, dr_controller = rc, dr_timer = False, dr_hotplug = None\<rparr>)))"

section \<open>Sessions\<close>

datatype device_op = DevSetParam param_id pod_input | DevTimeout bool | DevHotplug | DevSync int

fun device_step :: "device_op \<Rightarrow> device_runtime \<Rightarrow> (int \<times> device_notification list) \<times> device_runtime" where
  "device_step (DevSetParam pid param) rt = device_set_param pid param rt"
| "device_step (DevTimeout read) rt = (let (ns, rt) = on_route_timeout read rt in ((0, ns), rt))"
| "device_step DevHotplug rt = (let (ns, rt) = on_device_hotplug rt in ((0, ns), rt))"
| "device_step (DevSync seq) rt = ((0, [DnDone seq]), rt)"

definition device_session :: "device_op list \<Rightarrow> device_runtime \<Rightarrow> device_runtime" where
  "device_session ops rt = fold (\<lambda>op rt. snd (device_step op rt)) ops rt"

text \<open>The initial events of a listener.\<close>

definition device_initial_events :: "device_runtime \<Rightarrow> device_notification list" where
  "device_initial_events rt =
     DnInfo (initial_info (dr_info rt)) # map DnObject (object_events (dr_snapshot rt) (dr_routes rt) (dr_profile rt \<noteq> 0))"

end
