(* ===== verification/DeviceFollow.thy ===== *)
theory DeviceFollow
  imports DeviceObject
begin

text \<open>
  What a listener of a device object can rely on. A follower keeps the objects it was shown and the parameters it
  read, and reads a parameter again exactly when the info block shows a new serial for it; whatever the host sets
  and the hardware does, it never holds a stale parameter or a wrong set of nodes.
\<close>

section \<open>Followers\<close>

abbreviation (input) DEVICE_PARAMS :: "param_id list" where
  "DEVICE_PARAMS \<equiv> [ParamEnumProfile, ParamProfile, ParamEnumRoute, ParamRoute]"

abbreviation dr_param_step :: "device_runtime \<Rightarrow> param_id \<Rightarrow> u32 \<Rightarrow> param_step" where
  "dr_param_step rt \<equiv> device_param_step (dr_snapshot rt) (dr_profile rt) (dr_profile_save rt) (dr_routes rt)"

definition device_enum_params ::
    "device_runtime \<Rightarrow> param_id \<Rightarrow> u32 \<Rightarrow> u32 \<Rightarrow> (spa_value \<Rightarrow> spa_value option) \<Rightarrow> (int \<times> (u32 \<times> spa_value) list) option" where
  "device_enum_params rt pid start routes_n filter_pod = enum_params_loop (dr_param_step rt pid) filter_pod start routes_n []"

text \<open>Reading all of a parameter.\<close>

definition read_param :: "device_runtime \<Rightarrow> param_id \<Rightarrow> (int \<times> (u32 \<times> spa_value) list) option" where
  "read_param rt pid = device_enum_params rt pid 0 u32_max Some"

definition info_flags :: "device_info \<Rightarrow> param_id \<Rightarrow> 32 word option" where
  "info_flags i = map_of (map (\<lambda>p. (pi_id p, pi_flags p)) (de_params i))"

record follower =
  fw_nodes :: "u32 \<rightharpoonup> nat"
  fw_flags :: "param_id \<Rightarrow> 32 word option"
  fw_params :: "param_id \<Rightarrow> (int \<times> (u32 \<times> spa_value) list) option"

text \<open>A notification is delivered when the handler that queued it is done: parameters are read from that state.\<close>

definition follow :: "device_runtime \<Rightarrow> device_notification \<Rightarrow> follower \<Rightarrow> follower" where
  "follow rt n fw =
     (case n of
        DnInfo i \<Rightarrow>
          if de_change_mask i AND SPA_DEVICE_CHANGE_MASK_PARAMS = 0 then fw
          else fw\<lparr>fw_flags := info_flags i,
                  fw_params := (\<lambda>pid. if info_flags i pid \<noteq> fw_flags fw pid then read_param rt pid else fw_params fw pid)\<rparr>
      | DnObject (DevAdded e routes_n) \<Rightarrow> fw\<lparr>fw_nodes := (fw_nodes fw)(es_object_id e \<mapsto> routes_n)\<rparr>
      | DnObject (DevRemoved i) \<Rightarrow> fw\<lparr>fw_nodes := (fw_nodes fw)(i := None)\<rparr>
      | _ \<Rightarrow> fw)"

definition follower_joins :: "device_runtime \<Rightarrow> follower" where
  "follower_joins rt =
     fold (follow rt) (device_initial_events rt) \<lparr>fw_nodes = Map.empty, fw_flags = (\<lambda>_. None), fw_params = (\<lambda>_. None)\<rparr>"

fun follow_session :: "device_op list \<Rightarrow> device_runtime \<times> follower \<Rightarrow> device_runtime \<times> follower" where
  "follow_session [] st = st"
| "follow_session (op # ops) (rt, fw) =
     (let ((res, ns), rt') = device_step op rt in follow_session ops (rt', fold (follow rt') ns fw))"

text \<open>The nodes of a device: its endpoints under the default profile, none under Off.\<close>

definition route_count :: "route list \<Rightarrow> u32 \<Rightarrow> nat" where
  "route_count routes i = length (filter (\<lambda>r. ro_node_id r = i) routes)"

definition device_nodes :: "device_runtime \<Rightarrow> u32 \<rightharpoonup> nat" where
  "device_nodes rt i =
     (if dr_profile rt \<noteq> 0 \<and> i \<in> es_object_id ` set (dv_endpoints (dr_snapshot rt)) then Some (route_count (dr_routes rt) i) else None)"

section \<open>Serials\<close>

lemma xor_one: "(w XOR 1 :: 32 word) \<noteq> w"
proof
  assume "w XOR 1 = w"
  then have "w XOR (w XOR 1) = w XOR w" by simp
  then show False by (simp add: xor.assoc[symmetric])
qed

abbreviation flags_of :: "param_info list \<Rightarrow> param_id \<Rightarrow> 32 word option" where
  "flags_of ps \<equiv> map_of (map (\<lambda>p. (pi_id p, pi_flags p)) ps)"

lemma bump_params_none: "bump_params pid ps = None \<longleftrightarrow> flags_of ps pid = None"
  by (induction ps) auto

lemma bump_params_some:
  "bump_params pid ps = Some ps' \<Longrightarrow> flags_of ps' q = (if q = pid then map_option (\<lambda>w. w XOR 1) (flags_of ps q) else flags_of ps q)"
proof (induction ps arbitrary: ps')
  case (Cons p ps)
  show ?case
  proof (cases "pi_id p = pid")
    case False
    then obtain qs where "bump_params pid ps = Some qs" "ps' = p # qs" using Cons.prems by auto
    then show ?thesis using Cons.IH[of qs] False by auto
  qed (use Cons.prems in auto)
qed simp

lemma bump_flags: "info_flags (bump_param pid i) q = (if q = pid then map_option (\<lambda>w. w XOR 1) (info_flags i q) else info_flags i q)"
proof (cases "bump_params pid (de_params i)")
  case None
  then show ?thesis using bump_params_none[of pid "de_params i"] by (auto simp: bump_param_def info_flags_def)
next
  case (Some ps)
  from bump_params_some[OF this] show ?thesis by (simp add: bump_param_def info_flags_def Some)
qed

lemma bump_all_flags:
  "distinct pids \<Longrightarrow> info_flags (fold bump_param pids i) q
     = (if q \<in> set pids then map_option (\<lambda>w. w XOR 1) (info_flags i q) else info_flags i q)"
  by (induction pids arbitrary: i) (auto simp: bump_flags)

lemma mask_flags [simp]: "info_flags (replace_change_mask w i) = info_flags i"
  by (simp add: info_flags_def replace_change_mask_def)

definition params_shown :: "device_info \<Rightarrow> bool" where
  "params_shown i \<longleftrightarrow> de_change_mask i AND SPA_DEVICE_CHANGE_MASK_PARAMS \<noteq> 0"

lemma bump_shown:
  assumes "info_flags i pid \<noteq> None \<or> params_shown i"
  shows "params_shown (bump_param pid i)"
proof (cases "bump_params pid (de_params i)")
  case None
  then show ?thesis using bump_params_none[of pid "de_params i"] assms by (auto simp: bump_param_def info_flags_def)
next
  case (Some ps)
  have "(w OR 4 :: 64 word) AND 4 = 4" for w by (rule bit_eqI) (auto simp: bit_or_iff bit_and_iff)
  then show ?thesis using Some by (simp add: bump_param_def params_shown_def)
qed

lemma bumped_shown:
  assumes "distinct pids" "pids \<noteq> []" "\<And>pid. pid \<in> set pids \<Longrightarrow> info_flags i pid \<noteq> None"
  shows "params_shown (fold bump_param pids i)"
  using assms
proof (induction pids arbitrary: i)
  case (Cons pid pids)
  have 1: "params_shown (bump_param pid i)" using Cons.prems(3)[of pid] by (simp add: bump_shown)
  have "params_shown (fold bump_param qs i)" if "params_shown i" for qs i
    using that by (induction qs arbitrary: i) (simp_all add: bump_shown)
  then show ?case using 1 by simp
qed simp

lemma announce_spec:
  assumes "announce_params pids rt = (n, rt')" "distinct pids" "pids \<noteq> []" "\<And>pid. pid \<in> set pids \<Longrightarrow> info_flags (dr_info rt) pid \<noteq> None"
  obtains i j where "n = DnInfo i" "params_shown i" "info_flags i = info_flags j" "rt' = rt\<lparr>dr_info := j\<rparr>"
    "\<And>q. info_flags j q = (if q \<in> set pids then map_option (\<lambda>w. w XOR 1) (info_flags (dr_info rt) q) else info_flags (dr_info rt) q)"
proof -
  let ?i = "fold bump_param pids (replace_change_mask 0 (dr_info rt))"
  have e: "n = DnInfo ?i" "rt' = rt\<lparr>dr_info := replace_change_mask 0 ?i\<rparr>"
    using assms(1) by (simp_all add: announce_params_def take_info_def)
  show thesis
    by (rule that[OF e(1) bumped_shown[OF assms(2,3)] _ e(2)]) (use assms(4) in \<open>simp_all add: bump_all_flags[OF assms(2)]\<close>)
qed

section \<open>What the pods of a route show\<close>

definition static_frame :: "route \<Rightarrow> u32 \<times> stream_direction \<times> string \<times> string \<times> int \<times> route_availability" where
  "static_frame r = (ro_node_id r, ro_direction r, ro_name r, ro_description r, ro_priority r, ro_availability r)"

definition same_pods :: "route list \<Rightarrow> route list \<Rightarrow> bool" where
  "same_pods rs rs' \<longleftrightarrow> map route_frame rs' = map route_frame rs \<and> list_all2 (\<lambda>r r'. \<not> visible_change r r') rs rs'"

lemma frames_static: "map route_frame rs' = map route_frame rs \<Longrightarrow> map static_frame rs' = map static_frame rs"
proof -
  assume a: "map route_frame rs' = map route_frame rs"
  have e: "map static_frame qs = map (\<lambda>(k, n, d, nm, ds, p, a, s). (n, d, nm, ds, p, a)) (map route_frame qs)" for qs
    by (simp add: static_frame_def route_frame_def)
  show ?thesis unfolding e a ..
qed

lemma static_nth:
  assumes "map static_frame rs' = map static_frame rs"
  shows "length rs' = length rs" "p < length rs \<Longrightarrow> static_frame (rs' ! p) = static_frame (rs ! p)"
  using assms map_eq_imp_length_eq[OF assms] by (simp, metis nth_map)

lemma static_steps:
  assumes "map static_frame rs' = map static_frame rs" "pid \<noteq> ParamRoute" "\<forall>n. pid \<noteq> ParamOther n"
    and "pid = ParamProfile \<Longrightarrow> profile' = profile \<and> save' = save"
  shows "device_param_step snapshot profile' save' rs' pid = device_param_step snapshot profile save rs pid"
proof -
  have "build_route_info ParamEnumRoute (rs' ! p) p profile' False = build_route_info ParamEnumRoute (rs ! p) p profile False" if "p < length rs" for p
    using static_nth(2)[OF assms(1) that] by (simp add: build_route_info_def static_frame_def)
  moreover have "build_profile_info ParamEnumProfile i snapshot save' False = build_profile_info ParamEnumProfile i snapshot save False" for i
    by (simp add: build_profile_info_def)
  ultimately show ?thesis using assms(2-4) static_nth(1)[OF assms(1)]
    by (cases pid) (auto simp: fun_eq_iff device_param_step_def)
qed

lemma same_pods_steps:
  assumes "same_pods rs rs'" "\<forall>n. pid \<noteq> ParamOther n"
  shows "device_param_step snapshot profile save rs' pid = device_param_step snapshot profile save rs pid"
proof (cases "pid = ParamRoute")
  case True
  have f: "map route_frame rs' = map route_frame rs" using assms(1) by (simp add: same_pods_def)
  then have l: "length rs' = length rs" by (metis length_map)
  have v: "\<not> visible_change (rs ! p) (rs' ! p)" "route_frame (rs' ! p) = route_frame (rs ! p)" if "p < length rs" for p
    using that assms(1) l nth_map[of p rs' route_frame] nth_map[of p rs route_frame] f
    by (simp_all add: same_pods_def list_all2_conv_all_nth)
  have b: "build_route_info ParamRoute (rs' ! p) p profile True = build_route_info ParamRoute (rs ! p) p profile True"
    if "p < length rs" "ro_active (rs ! p)" for p
  proof -
    have "ro_volume (rs' ! p) = ro_volume (rs ! p)" "ro_mute (rs' ! p) = ro_mute (rs ! p)"
      using v(1)[OF that(1)] that(2) by (auto simp: visible_change_def)
    then have "route_props_object ParamRoute (rs' ! p) = route_props_object ParamRoute (rs ! p)" by (simp only: route_props_object_def)
    then show ?thesis using v(2)[OF that(1)] by (simp add: build_route_info_def route_frame_def)
  qed
  have "device_param_step snapshot profile save rs' ParamRoute p = device_param_step snapshot profile save rs ParamRoute p" for p
  proof (cases "p < length rs")
    case in_range: True
    then have act: "ro_active (rs' ! p) = ro_active (rs ! p)" using v(1) by (simp add: visible_change_def)
    show ?thesis
    proof (cases "ro_active (rs ! p)")
      case True
      then show ?thesis unfolding device_param_step_def l b[OF in_range True] act by simp
    qed (simp add: device_param_step_def l act in_range)
  qed (simp add: device_param_step_def l)
  then show ?thesis unfolding True by (rule ext)
next
  case False
  have "map static_frame rs' = map static_frame rs" using assms(1) unfolding same_pods_def by (blast intro: frames_static)
  then show ?thesis by (rule static_steps[OF _ False assms(2)]) simp
qed

lemma read_param_cong: "dr_param_step rt' pid = dr_param_step rt pid \<Longrightarrow> read_param rt' pid = read_param rt pid"
  by (simp add: read_param_def device_enum_params_def)

section \<open>A follower in step\<close>

definition device_ok :: "device_runtime \<Rightarrow> bool" where
  "device_ok rt \<longleftrightarrow> controller_ok (dr_control rt) \<and> map ro_key (dr_routes rt) = [0..<length (dr_routes rt)]
     \<and> distinct (map ro_name (dr_routes rt)) \<and> (\<forall>pid\<in>set DEVICE_PARAMS. info_flags (dr_info rt) pid \<noteq> None)"

definition params_in_step :: "device_runtime \<Rightarrow> follower \<Rightarrow> bool" where
  "params_in_step rt fw \<longleftrightarrow> fw_flags fw = info_flags (dr_info rt) \<and> (\<forall>pid\<in>set DEVICE_PARAMS. fw_params fw pid = read_param rt pid)"

definition in_step :: "device_runtime \<Rightarrow> follower \<Rightarrow> bool" where
  "in_step rt fw \<longleftrightarrow> params_in_step rt fw \<and> fw_nodes fw = device_nodes rt"

lemma follow_info:
  assumes "params_in_step rt fw" "params_shown i" "info_flags i = info_flags (dr_info rt')"
    and "\<And>pid. pid \<in> set DEVICE_PARAMS \<Longrightarrow> info_flags i pid = info_flags (dr_info rt) pid \<Longrightarrow> dr_param_step rt' pid = dr_param_step rt pid"
  shows "params_in_step rt' (follow rt' (DnInfo i) fw)" "fw_nodes (follow rt' (DnInfo i) fw) = fw_nodes fw"
proof -
  have "read_param rt' pid = read_param rt pid" if "pid \<in> set DEVICE_PARAMS" "info_flags i pid = info_flags (dr_info rt) pid" for pid
    by (rule read_param_cong[OF assms(4)[OF that]])
  then show "params_in_step rt' (follow rt' (DnInfo i) fw)" "fw_nodes (follow rt' (DnInfo i) fw) = fw_nodes fw"
    using assms(1-3) by (auto simp: params_in_step_def follow_def params_shown_def)
qed

lemma params_unchanged:
  assumes "params_in_step rt fw" "info_flags (dr_info rt') = info_flags (dr_info rt)"
    and "\<And>pid. pid \<in> set DEVICE_PARAMS \<Longrightarrow> dr_param_step rt' pid = dr_param_step rt pid"
  shows "params_in_step rt' fw"
  using assms(1,2) read_param_cong[OF assms(3)] by (auto simp: params_in_step_def)

text \<open>Announcing parameters that cover everything that changed.\<close>

lemma announced_in_step:
  assumes "params_in_step rt fw" "announce_params pids rt1 = (n, rt2)" "distinct pids" "pids \<noteq> []" "set pids \<subseteq> set DEVICE_PARAMS"
    and "info_flags (dr_info rt1) = info_flags (dr_info rt)" "\<And>pid. pid \<in> set DEVICE_PARAMS \<Longrightarrow> info_flags (dr_info rt) pid \<noteq> None"
    and "\<And>pid. pid \<in> set DEVICE_PARAMS \<Longrightarrow> pid \<notin> set pids \<Longrightarrow> dr_param_step rt1 pid = dr_param_step rt pid"
  obtains j where "params_in_step rt2 (follow rt2 n fw)" "fw_nodes (follow rt2 n fw) = fw_nodes fw" "rt2 = rt1\<lparr>dr_info := j\<rparr>"
    "\<And>pid. pid \<in> set DEVICE_PARAMS \<Longrightarrow> info_flags j pid \<noteq> None"
proof -
  have fl: "pid \<in> set pids \<Longrightarrow> info_flags (dr_info rt1) pid \<noteq> None" for pid using assms(5-7) by auto
  obtain i j where i: "n = DnInfo i" "params_shown i" "info_flags i = info_flags j" "rt2 = rt1\<lparr>dr_info := j\<rparr>"
    "\<And>q. info_flags j q = (if q \<in> set pids then map_option (\<lambda>w. w XOR 1) (info_flags (dr_info rt1) q) else info_flags (dr_info rt1) q)"
    using announce_spec[OF assms(2,3,4) fl] by blast
  have same: "dr_param_step rt2 pid = dr_param_step rt1 pid" for pid by (simp add: i(4))
  have steps: "dr_param_step rt2 pid = dr_param_step rt pid"
    if "pid \<in> set DEVICE_PARAMS" "info_flags i pid = info_flags (dr_info rt) pid" for pid
  proof -
    have "pid \<notin> set pids" using that(2) fl[of pid] unfolding i(3,5) assms(6) by (auto simp: xor_one)
    then show ?thesis using assms(8)[OF that(1)] same by simp
  qed
  have i3: "info_flags i = info_flags (dr_info rt2)" by (simp add: i(3,4))
  have "params_in_step rt2 (follow rt2 n fw)" "fw_nodes (follow rt2 n fw) = fw_nodes fw"
    unfolding i(1) by (rule follow_info[OF assms(1) i(2) i3 steps]; assumption)+
  moreover have "info_flags j pid \<noteq> None" if "pid \<in> set DEVICE_PARAMS" for pid using assms(6) assms(7)[OF that] by (simp add: i(5))
  ultimately show thesis using that[OF _ _ i(4)] by blast
qed

end
