(* ===== verification/DeviceSync.thy ===== *)
theory DeviceSync
  imports DeviceFollow
begin

text \<open>
  Every operation of a device object keeps its followers in step.
\<close>

section \<open>Single notifications\<close>

fun object_step :: "device_object_event \<Rightarrow> (u32 \<rightharpoonup> nat) \<Rightarrow> (u32 \<rightharpoonup> nat)" where
  "object_step (DevAdded e n) m = m(es_object_id e \<mapsto> n)"
| "object_step (DevRemoved i) m = m(i := None)"

lemma follow_object: "follow rt (DnObject e) fw = fw\<lparr>fw_nodes := object_step e (fw_nodes fw)\<rparr>"
  by (cases e) (simp_all add: follow_def fun_upd_def)

lemma follow_objects: "fold (follow rt) (map DnObject es) fw = fw\<lparr>fw_nodes := fold object_step es (fw_nodes fw)\<rparr>"
  by (induction es arbitrary: fw) (simp_all add: follow_object)

definition no_state :: "device_notification list \<Rightarrow> bool" where
  "no_state ns \<longleftrightarrow> (\<forall>n\<in>set ns. (\<exists>p. n = DnEvent p) \<or> (\<exists>q. n = DnDone q))"

lemma follow_no_state: "no_state ns \<Longrightarrow> fold (follow rt) ns fw = fw"
  unfolding no_state_def by (induction ns arbitrary: fw) (auto simp: follow_def)

lemma configs_no_state: "no_state (queue_configs rt c)" "no_state (concat (map (queue_configs rt) cs))" "no_state []"
  by (auto simp: no_state_def queue_configs_def queue_object_config_def Let_def split: option.splits if_splits)

lemma route_count_static:
  assumes "map static_frame rs' = map static_frame rs"
  shows "route_count rs' i = route_count rs i"
proof -
  have e: "route_count qs i = length (filter (\<lambda>n. n = i) (map fst (map static_frame qs)))" for qs
    by (simp add: route_count_def filter_map comp_def static_frame_def)
  show ?thesis unfolding e assms ..
qed

lemma object_events_nodes:
  "fold object_step (object_events snapshot rs present) m
     = (\<lambda>i. if i \<in> es_object_id ` set (dv_endpoints snapshot) then (if present then Some (route_count rs i) else None) else m i)"
proof -
  have "fold object_step (map (\<lambda>e. if present then DevAdded e (route_count rs (es_object_id e)) else DevRemoved (es_object_id e)) es) m
      = (\<lambda>i. if i \<in> es_object_id ` set es then (if present then Some (route_count rs i) else None) else m i)" for es
    by (induction es arbitrary: m) (auto simp: fun_eq_iff)
  then show ?thesis unfolding object_events_def route_count_def by simp
qed

section \<open>Transitions\<close>

definition transition :: "device_runtime \<Rightarrow> device_notification list \<Rightarrow> device_runtime \<Rightarrow> bool" where
  "transition rt ns rt' \<longleftrightarrow> device_ok rt' \<and> (\<forall>fw. in_step rt fw \<longrightarrow> in_step rt' (fold (follow rt') ns fw))"

lemma transition_quiet:
  assumes "device_ok rt'" "info_flags (dr_info rt') = info_flags (dr_info rt)" "no_state ns"
    and "\<And>pid. pid \<in> set DEVICE_PARAMS \<Longrightarrow> dr_param_step rt' pid = dr_param_step rt pid" "device_nodes rt' = device_nodes rt"
  shows "transition rt ns rt'"
  using assms(1,5) params_unchanged[OF _ assms(2,4)] by (simp add: transition_def in_step_def follow_no_state[OF assms(3)])

lemma transition_announced:
  assumes "device_ok rt" "announce_params pids rt1 = (n, rt2)" "distinct pids" "pids \<noteq> []" "set pids \<subseteq> set DEVICE_PARAMS"
    and "dr_info rt1 = dr_info rt" "device_ok rt1"
    and "\<And>pid. pid \<in> set DEVICE_PARAMS \<Longrightarrow> pid \<notin> set pids \<Longrightarrow> dr_param_step rt1 pid = dr_param_step rt pid"
    and "fold object_step es (device_nodes rt) = device_nodes rt1" "no_state ns"
  shows "transition rt (map DnObject es @ n # ns) rt2"
proof -
  have fl: "info_flags (dr_info rt) pid \<noteq> None" if "pid \<in> set DEVICE_PARAMS" for pid
    using assms(1) that unfolding device_ok_def by blast
  have *: "in_step rt2 (fold (follow rt2) (map DnObject es @ n # ns) fw) \<and> device_ok rt2" if "in_step rt fw" for fw
  proof -
    let ?fw = "fw\<lparr>fw_nodes := device_nodes rt1\<rparr>"
    have p: "params_in_step rt ?fw" using that by (simp add: in_step_def params_in_step_def)
    obtain j where j: "params_in_step rt2 (follow rt2 n ?fw)" "fw_nodes (follow rt2 n ?fw) = fw_nodes ?fw" "rt2 = rt1\<lparr>dr_info := j\<rparr>"
      "\<And>pid. pid \<in> set DEVICE_PARAMS \<Longrightarrow> info_flags j pid \<noteq> None"
      using announced_in_step[OF p assms(2-5) _ fl assms(8)] assms(6) by auto
    have "fold (follow rt2) (map DnObject es @ n # ns) fw = follow rt2 n ?fw"
      using that assms(9) by (simp add: follow_objects follow_no_state[OF assms(10)] in_step_def)
    moreover have "device_nodes rt2 = device_nodes rt1" by (simp add: fun_eq_iff device_nodes_def j(3))
    moreover have "device_ok rt2" using assms(7) j(3,4) by (simp add: device_ok_def)
    ultimately show ?thesis using j(1,2) by (simp add: in_step_def)
  qed
  have "in_step rt \<lparr>fw_nodes = device_nodes rt, fw_flags = info_flags (dr_info rt), fw_params = read_param rt\<rparr>"
    by (simp add: in_step_def params_in_step_def)
  from *[OF this] show ?thesis using * by (simp add: transition_def)
qed

text \<open>Fields a follower does not see.\<close>

lemma follow_cong:
  assumes "dr_snapshot rt' = dr_snapshot rt" "dr_profile rt' = dr_profile rt" "dr_profile_save rt' = dr_profile_save rt" "dr_routes rt' = dr_routes rt"
  shows "follow rt' = follow rt" "read_param rt' = read_param rt" "device_nodes rt' = device_nodes rt"
proof -
  show r: "read_param rt' = read_param rt" by (rule ext) (simp add: read_param_def device_enum_params_def assms)
  show "follow rt' = follow rt" by (intro ext) (simp only: follow_def r)
  show "device_nodes rt' = device_nodes rt" by (rule ext) (simp add: device_nodes_def assms)
qed

lemma transition_cong:
  assumes "transition rt ns rt1" "dr_snapshot rt' = dr_snapshot rt1" "dr_profile rt' = dr_profile rt1" "dr_profile_save rt' = dr_profile_save rt1"
    and "dr_control rt' = dr_control rt1" "dr_info rt' = dr_info rt1"
  shows "transition rt ns rt'"
  using assms follow_cong[of rt' rt1] by (simp add: transition_def in_step_def params_in_step_def device_ok_def)

section \<open>The routes\<close>

lemma control_ok:
  assumes "device_ok rt" "same_frame (dr_control rt) st" "controller_ok st"
  shows "device_ok (set_control st rt)"
proof -
  have f: "map route_frame (snd st) = map route_frame (dr_routes rt)" using assms(2) by (simp add: same_frame_def)
  have n: "map ro_name rs = map (\<lambda>f. fst (snd (snd (snd f)))) (map route_frame rs)" for rs by (simp add: route_frame_def)
  have k: "map ro_key rs = map fst (map route_frame rs)" for rs by (simp add: route_frame_def)
  have "map ro_name (snd st) = map ro_name (dr_routes rt)" "map ro_key (snd st) = map ro_key (dr_routes rt)" unfolding n k f by simp_all
  moreover have "length (snd st) = length (dr_routes rt)" using f by (metis length_map)
  ultimately show ?thesis using assms(1,3) by (simp add: device_ok_def set_control_def)
qed

lemma control_static:
  "same_frame (dr_control rt) st \<Longrightarrow> map static_frame (snd st) = map static_frame (dr_routes rt)"
  by (rule frames_static) (simp add: same_frame_def)

lemma nodes_static:
  assumes "map static_frame (dr_routes rt') = map static_frame (dr_routes rt)" "dr_snapshot rt' = dr_snapshot rt" "dr_profile rt' = dr_profile rt"
  shows "device_nodes rt' = device_nodes rt"
  by (rule ext) (simp add: device_nodes_def assms(2,3) route_count_static[OF assms(1)])

text \<open>Announcing the Route parameter after the routes changed in a way only it shows.\<close>

lemma transition_routes:
  assumes "device_ok rt" "device_ok rt1" "announce_params [ParamRoute] rt1 = (n, rt2)" "no_state ns"
    and "map static_frame (dr_routes rt1) = map static_frame (dr_routes rt)"
    and "dr_info rt1 = dr_info rt" "dr_snapshot rt1 = dr_snapshot rt" "dr_profile rt1 = dr_profile rt" "dr_profile_save rt1 = dr_profile_save rt"
  shows "transition rt (n # ns) rt2"
proof -
  have steps: "dr_param_step rt1 pid = dr_param_step rt pid" if "pid \<in> set DEVICE_PARAMS" "pid \<notin> set [ParamRoute]" for pid
    unfolding assms(7-9) by (rule static_steps[OF assms(5)]) (use that in auto)
  have n: "fold object_step [] (device_nodes rt) = device_nodes rt1" using nodes_static[OF assms(5,7,8)] by simp
  from transition_announced[OF assms(1,3) _ _ _ assms(6,2) steps n assms(4)] show ?thesis by simp
qed

lemma same_pods_of:
  assumes "same_frame st st'" "\<And>p. p < length (snd st) \<Longrightarrow> \<not> visible_change (snd st ! p) (snd st' ! p)"
  shows "same_pods (snd st) (snd st')"
  using assms same_frame_length[OF assms(1)] by (simp add: same_pods_def same_frame_def list_all2_conv_all_nth)

lemma transition_same_pods:
  assumes "device_ok rt" "same_frame (dr_control rt) st" "controller_ok st" "same_pods (dr_routes rt) (snd st)" "no_state ns"
  shows "transition rt ns (set_control st rt)"
proof (rule transition_quiet[OF control_ok[OF assms(1-3)] _ assms(5)])
  fix pid assume "pid \<in> set DEVICE_PARAMS"
  then show "dr_param_step (set_control st rt) pid = dr_param_step rt pid"
    using same_pods_steps[OF assms(4), of pid] by (auto simp: set_control_def)
next
  show "device_nodes (set_control st rt) = device_nodes rt"
    by (rule nodes_static) (use control_static[OF assms(2)] in \<open>simp_all add: set_control_def\<close>)
qed (simp add: set_control_def)

section \<open>Polling\<close>

lemma poll_transition:
  assumes "device_ok rt" "poll_routes rt = (ns, rt')"
  shows "transition rt ns rt'"
proof (cases "dr_profile rt = 0")
  case True
  then have "ns = []" "rt' = rt" using assms(2) by (simp_all add: poll_routes_def)
  then show ?thesis using assms(1) by (simp add: transition_def)
next
  case False
  obtain changes st where p: "route_poll (dr_control rt) = (changes, st)" by (cases "route_poll (dr_control rt)")
  have c: "controller_ok (dr_control rt)" using assms(1) by (simp add: device_ok_def)
  note ok = route_poll_ok[OF c p]
  show ?thesis
  proof (cases "changes = []")
    case True
    then have e: "ns = []" "rt' = set_control st rt" using assms(2) False p by (simp_all add: poll_routes_def Let_def)
    have "same_pods (snd (dr_control rt)) (snd st)"
      by (rule same_pods_of[OF ok(1)]) (rule silent_poll[OF c], use p True in simp_all)
    then show ?thesis unfolding e using transition_same_pods[OF assms(1) ok] configs_no_state(3) by simp
  next
    case changed: False
    obtain n rt2 where a: "announce_params [ParamRoute] (set_control st rt) = (n, rt2)" by (cases "announce_params [ParamRoute] (set_control st rt)")
    have e: "ns = n # concat (map (queue_configs rt2) changes)" "rt' = rt2"
      using assms(2) False p changed a by (auto simp: poll_routes_def queue_route_change_def Let_def)
    show ?thesis unfolding e
      by (rule transition_routes[OF assms(1) control_ok[OF assms(1) ok] a configs_no_state(2)])
        (use control_static[OF ok(1)] in \<open>simp_all add: set_control_def\<close>)
  qed
qed

section \<open>The other handlers\<close>

lemma timeout_transition:
  assumes "device_ok rt" "on_route_timeout read rt = (ns, rt')"
  shows "transition rt ns rt'"
  using assms poll_transition[OF assms(1), of ns rt'] by (auto simp: on_route_timeout_def transition_def split: if_splits)

lemma hotplug_transition:
  assumes "device_ok rt" "on_device_hotplug rt = (ns, rt')"
  shows "transition rt ns rt'"
proof (cases "dr_hotplug rt")
  case None
  then show ?thesis using assms by (simp add: on_device_hotplug_def transition_def)
next
  case (Some m)
  obtain alive nudged m' where r: "read_hotplug (dr_routes rt) m = ((alive, nudged), m')" by (metis prod.exhaust)
  let ?rt1 = "rt\<lparr>dr_hotplug := Some m'\<rparr>"
  obtain ns2 rt2 where p: "(if nudged then poll_routes ?rt1 else ([], ?rt1)) = (ns2, rt2)" by (metis prod.exhaust)
  have ok1: "device_ok ?rt1" using assms(1) by (simp add: device_ok_def)
  have t: "transition ?rt1 ns2 rt2"
    using p poll_transition[OF ok1, of ns2 rt2] ok1 by (auto simp: transition_def split: if_splits)
  have s: "in_step ?rt1 fw = in_step rt fw" for fw using follow_cong[of ?rt1 rt] by (simp add: in_step_def params_in_step_def)
  have e: "ns = ns2" "rt' = (if alive then rt2 else rt2\<lparr>dr_hotplug := None\<rparr>)"
    using assms(2) Some r p by (auto simp: on_device_hotplug_def Let_def split: prod.splits)
  have "transition rt ns2 rt2" using t by (simp add: transition_def s)
  then show ?thesis unfolding e(1) by (rule transition_cong) (simp_all add: e(2))
qed

lemma profile_transition:
  assumes "device_ok rt" "set_profile_param request rt = ((res, ns), rt')"
  shows "transition rt ns rt'"
proof (cases "dr_profile rt = pq_index request")
  case same: True
  let ?rt1 = "rt\<lparr>dr_profile_save := pq_save request\<rparr>"
  have ok1: "device_ok ?rt1" using assms(1) by (simp add: device_ok_def)
  have steps: "dr_param_step ?rt1 pid = dr_param_step rt pid" if "pid \<in> set DEVICE_PARAMS" "pid \<notin> set [ParamProfile]" for pid
  proof (cases "pid = ParamRoute")
    case True
    then show ?thesis by (simp add: fun_eq_iff device_param_step_def)
  next
    case False
    show ?thesis
      using static_steps[of "dr_routes rt" "dr_routes rt" pid "dr_profile rt" "dr_profile rt" "pq_save request" "dr_profile_save rt" "dr_snapshot rt"]
        that False by auto
  qed
  have n: "fold object_step [] (device_nodes rt) = device_nodes ?rt1" by (simp add: fun_eq_iff device_nodes_def)
  show ?thesis
  proof (cases "dr_profile_save rt = pq_save request")
    case True
    then have "?rt1 = rt" by (cases rt) simp
    then have "ns = []" "rt' = rt" using assms(2) same True by (auto simp: set_profile_param_def Let_def)
    then show ?thesis using assms(1) by (simp add: transition_def)
  next
    case False
    obtain n rt2 where a: "announce_params [ParamProfile] ?rt1 = (n, rt2)" by (cases "announce_params [ParamProfile] ?rt1")
    have e: "ns = [n]" "rt' = rt2" using assms(2) same False a by (simp_all add: set_profile_param_def Let_def)
    from transition_announced[OF assms(1) a _ _ _ _ ok1 steps n configs_no_state(3)] show ?thesis by (simp add: e)
  qed
next
  case changed: False
  let ?rt0 = "rt\<lparr>dr_profile_save := pq_save request, dr_profile := pq_index request\<rparr>"
  define rt1 where "rt1 = (if pq_index request \<noteq> 0 then set_control (refresh_all (dr_control ?rt0)) ?rt0 else ?rt0)"
  define es where "es = object_events (dr_snapshot rt1) (dr_routes rt1) (pq_index request \<noteq> 0)"
  obtain n rt2 where a: "announce_params [ParamProfile, ParamEnumRoute, ParamRoute] rt1 = (n, rt2)"
    by (cases "announce_params [ParamProfile, ParamEnumRoute, ParamRoute] rt1")
  have e: "ns = map DnObject es @ [n]" "rt' = rt2"
    using assms(2) changed a unfolding set_profile_param_def Let_def es_def rt1_def by (auto simp: split: prod.splits)
  have c: "controller_ok (dr_control ?rt0)" using assms(1) by (simp add: device_ok_def)
  have ok0: "device_ok ?rt0" using assms(1) by (simp add: device_ok_def)
  have ok1: "device_ok rt1"
    unfolding rt1_def using ok0 control_ok[OF ok0 refresh_all_ok[OF c]] by (cases "pq_index request = 0") simp_all
  have f: "dr_info rt1 = dr_info rt" "dr_snapshot rt1 = dr_snapshot rt" "dr_profile rt1 = pq_index request"
    by (simp_all add: rt1_def set_control_def)
  have steps: "dr_param_step rt1 pid = dr_param_step rt pid"
    if "pid \<in> set DEVICE_PARAMS" "pid \<notin> set [ParamProfile, ParamEnumRoute, ParamRoute]" for pid
  proof -
    have "pid = ParamEnumProfile" using that by auto
    then show ?thesis by (simp add: fun_eq_iff device_param_step_def build_profile_info_def f(2))
  qed
  have nodes: "fold object_step es (device_nodes rt) = device_nodes rt1"
    unfolding es_def object_events_nodes by (auto simp: fun_eq_iff device_nodes_def f)
  from transition_announced[OF assms(1) a _ _ _ f(1) ok1 steps nodes configs_no_state(3)] show ?thesis by (simp add: e)
qed

lemma apply_refresh:
  assumes "route_position (snd st) key = Some pos" "route_apply key update st = (c, st')"
  shows "ch_refresh c \<longleftrightarrow> ch_selection c = SelApplied \<or> ch_selection c = SelDeflected \<or> ch_volume c \<or> ch_mute c"
  using assms by (auto simp: route_apply_def Let_def split: prod.splits)

lemma silent_apply:
  assumes "controller_ok st" "route_apply key update st = (c, st')" "\<not> ch_refresh c"
  shows "same_pods (snd st) (snd st')"
proof (cases "route_position (snd st) key")
  case None
  then show ?thesis using assms(2) by (auto simp: route_apply_def same_pods_def visible_change_def list_all2_same)
next
  case (Some pos)
  obtain rc rs rc' rs' where st: "st = (rc, rs)" "st' = (rc', rs')" by (cases st, cases st')
  have sel: "ch_selection c \<in> {SelUnchanged, SelFailed}" and quiet: "\<not> ch_volume c" "\<not> ch_mute c"
    using apply_refresh[OF Some assms(2)] assms(3) by (cases "ch_selection c"; simp)+
  have "route_position rs key = Some pos" "controller_ok (rc, rs)" "route_apply key update (rc, rs) = (c, rc', rs')"
    using Some assms(1,2) by (simp_all add: st)
  note u = unselected_update[OF this(2,1,3) sel]
  have v: "\<not> visible_change (rs ! p) (rs' ! p)" for p
    using u quiet by (cases "p = pos") (auto simp: visible_change_def eq_commute[of "ro_volume (rs ! pos)"] eq_commute[of "ro_mute (rs ! pos)"])
  have "same_frame st st'" using route_apply_ok[OF assms(1), of key update] assms(2) by simp
  from same_pods_of[OF this] v show ?thesis by (simp add: st)
qed

lemma resolved_in_range: "resolve_route_pos routes index name device = Some pos \<Longrightarrow> pos < length routes"
  by (auto simp: resolve_route_pos_def split: option.splits if_splits dest: find_in)

lemma route_transition:
  assumes "device_ok rt" "set_route_param request rt = ((res, ns), rt')"
  shows "transition rt ns rt'"
proof (cases "dr_profile rt = 0 \<or> resolve_route_pos (dr_routes rt) (rq_index request) (rq_name request) (rq_device request) = None")
  case True
  then have "ns = []" "rt' = rt" using assms(2) by (auto simp: set_route_param_def split: if_splits option.splits)
  then show ?thesis using assms(1) by (simp add: transition_def)
next
  case False
  then obtain pos where pos: "resolve_route_pos (dr_routes rt) (rq_index request) (rq_name request) (rq_device request) = Some pos" by blast
  have l: "pos < length (dr_routes rt)" by (rule resolved_in_range[OF pos])
  define rt1 where "rt1 = rt\<lparr>dr_routes := (dr_routes rt)[pos := (dr_routes rt ! pos)\<lparr>ro_save := rq_save request\<rparr>]\<rparr>"
  define update where "update = \<lparr>up_activate = \<not> ro_active (dr_routes rt1 ! pos), up_values = route_value_updates (rq_props request)\<rparr>"
  obtain c st where a: "route_apply (ro_key (dr_routes rt1 ! pos)) update (dr_control rt1) = (c, st)"
    by (cases "route_apply (ro_key (dr_routes rt1 ! pos)) update (dr_control rt1)")
  have st1: "map static_frame (dr_routes rt1) = map static_frame (dr_routes rt)"
    "map ro_key (dr_routes rt1) = map ro_key (dr_routes rt)" "map ro_name (dr_routes rt1) = map ro_name (dr_routes rt)"
    by (simp_all add: rt1_def map_update_same static_frame_def)
  have ok1: "device_ok rt1" using assms(1) st1(2,3) by (simp add: device_ok_def rt1_def controller_ok_def)
  have c1: "controller_ok (dr_control rt1)" using ok1 by (simp add: device_ok_def)
  have s: "same_frame (dr_control rt1) st" "controller_ok st" using route_apply_ok[OF c1, of "ro_key (dr_routes rt1 ! pos)" update] a by simp_all
  show ?thesis
  proof (cases "ch_refresh c \<or> ro_save (dr_routes rt ! pos) \<noteq> rq_save request")
    case True
    obtain n rt2 where n: "announce_params [ParamRoute] (set_control st rt1) = (n, rt2)" by (cases "announce_params [ParamRoute] (set_control st rt1)")
    have e: "ns = n # queue_configs rt2 c" "rt' = rt2"
      using assms(2) False pos True a n unfolding rt1_def update_def by (auto simp: set_route_param_def queue_route_change_def Let_def)
    show ?thesis unfolding e
      by (rule transition_routes[OF assms(1) control_ok[OF ok1 s] n configs_no_state(1)])
        (use control_static[OF s(1)] st1(1) in \<open>simp_all add: set_control_def rt1_def\<close>)
  next
    case quiet: False
    then have "(dr_routes rt ! pos)\<lparr>ro_save := rq_save request\<rparr> = dr_routes rt ! pos" by (cases "dr_routes rt ! pos") simp
    then have rt1: "rt1 = rt" by (cases rt) (simp add: rt1_def)
    have "ns = queue_configs (set_control st rt1) c" "rt' = set_control st rt1"
      using assms(2) False pos quiet a unfolding rt1_def update_def by (auto simp: set_route_param_def Let_def)
    then have e: "ns = queue_configs (set_control st rt) c" "rt' = set_control st rt" unfolding rt1 by this+
    have "same_pods (dr_routes rt) (snd st)" using silent_apply[OF c1 a] quiet by (simp add: rt1)
    then show ?thesis unfolding e using transition_same_pods[OF assms(1)] s configs_no_state(1) by (simp add: rt1)
  qed
qed

lemma step_transition:
  assumes "device_ok rt" "device_step op rt = ((res, ns), rt')"
  shows "transition rt ns rt'"
proof (cases op)
  case (DevSetParam pid param)
  then show ?thesis
    using assms profile_transition[OF assms(1)] route_transition[OF assms(1)] unfolding DevSetParam
    by (auto simp: device_set_param_def Let_def transition_def split: if_splits sum.splits)
next
  case (DevTimeout read)
  then show ?thesis using assms timeout_transition[OF assms(1)] by (auto split: prod.splits)
next
  case DevHotplug
  then show ?thesis using assms hotplug_transition[OF assms(1)] by (auto split: prod.splits)
next
  case (DevSync seq)
  then have "ns = [DnDone seq]" "rt' = rt" using assms(2) by auto
  then show ?thesis using assms(1) by (simp add: transition_def follow_def)
qed

end
