(* ===== verification/DeviceProps.thy ===== *)
theory DeviceProps
  imports DeviceSync
begin

text \<open>
  The properties of the device object: its followers stay in step in every session, a route that is read and written
  back changes nothing, a route's name decides what a request addresses, and enumerating page by page gives what
  one enumeration gives.
\<close>

section \<open>Sessions\<close>

lemma init_ok:
  assumes "device_init has_log wa items shorten sndstat sysctl opened = Inr rt"
  shows "device_ok rt"
proof -
  obtain snapshot rc routes where p: "route_probe opened (dv_endpoints snapshot) = (rc, routes)"
    and rt: "rt = arm_route_watch wa \<lparr>dr_info = device_info_of (di_parent_name (parse_device_dict items)) (dv_description snapshot),
      dr_snapshot = snapshot, dr_profile = 1, dr_profile_save = False, dr_routes = routes, dr_controller = rc, dr_timer = False, dr_hotplug = None\<rparr>"
    using assms by (auto simp: device_init_def Let_def split: if_splits option.splits prod.splits)
  have same: "dr_control rt = (rc, routes)" "dr_info rt = device_info_of (di_parent_name (parse_device_dict items)) (dv_description snapshot)"
    by (auto simp: rt arm_route_watch_def Let_def split: sum.splits)
  have "info_flags (device_info_of par desc) pid \<noteq> None" if "pid \<in> set DEVICE_PARAMS" for par desc pid
    using that by (auto simp: device_info_of_def info_add_param_def info_add_prop_def info_flags_def device_info_new_def Let_def split: option.split)
  then show ?thesis using probe_ok[OF p] same unfolding device_ok_def by simp
qed

lemma session_ok: "device_ok rt \<Longrightarrow> device_ok (device_session ops rt)"
proof (induction ops arbitrary: rt)
  case (Cons op ops)
  obtain res ns rt' where s: "device_step op rt = ((res, ns), rt')" by (metis prod.exhaust)
  have "device_ok rt'" using step_transition[OF Cons.prems s] by (simp add: transition_def)
  from Cons.IH[OF this] show ?case by (simp add: device_session_def s)
qed (simp add: device_session_def)

lemma joins_in_step:
  assumes "device_ok rt"
  shows "in_step rt (follower_joins rt)"
proof -
  let ?fw = "follow rt (DnInfo (initial_info (dr_info rt))) \<lparr>fw_nodes = Map.empty, fw_flags = (\<lambda>_. None), fw_params = (\<lambda>_. None)\<rparr>"
  have f: "info_flags (dr_info rt) pid \<noteq> None" if "pid \<in> set DEVICE_PARAMS" for pid
    using assms that unfolding device_ok_def by blast
  have "(7 AND 4 :: 64 word) \<noteq> 0" by simp
  then have p: "params_in_step rt ?fw" "fw_nodes ?fw = Map.empty"
    using f by (auto simp: follow_def params_in_step_def initial_info_def replace_change_mask_def info_flags_def)
  have e: "follower_joins rt = ?fw\<lparr>fw_nodes := fold object_step (object_events (dr_snapshot rt) (dr_routes rt) (dr_profile rt \<noteq> 0)) Map.empty\<rparr>"
    by (simp only: follower_joins_def device_initial_events_def fold_simps follow_objects p(2))
  have n: "fold object_step (object_events (dr_snapshot rt) (dr_routes rt) (dr_profile rt \<noteq> 0)) Map.empty = device_nodes rt"
    unfolding object_events_nodes by (auto simp: fun_eq_iff device_nodes_def)
  have "params_in_step rt (fw\<lparr>fw_nodes := m\<rparr>)" if "params_in_step rt fw" for fw m using that by (simp add: params_in_step_def)
  then show ?thesis unfolding e n using p(1) by (simp add: in_step_def)
qed

lemma follow_in_step:
  assumes "device_ok rt" "in_step rt fw"
  shows "in_step (fst (follow_session ops (rt, fw))) (snd (follow_session ops (rt, fw)))"
  using assms
proof (induction ops arbitrary: rt fw)
  case (Cons op ops)
  obtain res ns rt' where s: "device_step op rt = ((res, ns), rt')" by (metis prod.exhaust)
  have "device_ok rt'" "in_step rt' (fold (follow rt') ns fw)"
    using step_transition[OF Cons.prems(1) s] Cons.prems(2) by (simp_all add: transition_def)
  from Cons.IH[OF this] show ?case by (simp add: s)
qed simp

text \<open>C37. A listener of the device object is never out of step. Whatever was set, polled or heard from devd before it joined
  and after, a listener that takes the announced objects and reads a parameter again only when the info block shows
  a new serial for it knows exactly what the device would answer now: every parameter it holds is the one that is
  enumerated, and its nodes are the endpoints of the device, each with the number of its routes, or none under
  the Off profile.\<close>

theorem followers_track_the_device:
  "case device_init has_log wa items shorten sndstat sysctl opened of
     Inl _ \<Rightarrow> True
   | Inr rt0 \<Rightarrow>
       (let rt1 = device_session ops_before rt0; (rt, fw) = follow_session ops_after (rt1, follower_joins rt1)
        in list_all (\<lambda>pid. fw_params fw pid = read_param rt pid) DEVICE_PARAMS \<and> fw_nodes fw = device_nodes rt)"
proof (cases "device_init has_log wa items shorten sndstat sysctl opened")
  case (Inr rt0)
  let ?rt1 = "device_session ops_before rt0"
  have ok: "device_ok ?rt1" by (rule session_ok[OF init_ok[OF Inr]])
  obtain rt fw where f: "follow_session ops_after (?rt1, follower_joins ?rt1) = (rt, fw)" by (metis prod.exhaust)
  from follow_in_step[OF ok joins_in_step[OF ok], of ops_after] have "in_step rt fw" by (simp add: f)
  then show ?thesis by (simp add: Inr Let_def f in_step_def params_in_step_def)
qed simp

section \<open>Addressing a route\<close>

lemma resolve_named:
  assumes "distinct (map ro_name routes)"
  shows "resolve_route_pos routes index (Some nm) device = Some pos
    \<longleftrightarrow> pos < length routes \<and> ro_name (routes ! pos) = nm \<and> ro_node_id (routes ! pos) = device"
proof -
  have u: "p = q" if "p < length routes" "q < length routes" "ro_name (routes ! p) = ro_name (routes ! q)" for p q
    using assms that by (metis distinct_conv_nth length_map nth_map)
  define P where "P i \<longleftrightarrow> ro_name (routes ! i) = nm \<and> ro_node_id (routes ! i) = device" for i
  have found: "List.find P [0..<length routes] = Some pos \<longleftrightarrow> pos < length routes \<and> P pos"
  proof
    assume "List.find P [0..<length routes] = Some pos"
    from find_in[OF this] show "pos < length routes \<and> P pos" by simp
  next
    assume a: "pos < length routes \<and> P pos"
    then have "List.find P [0..<length routes] \<noteq> None" unfolding find_None_iff by auto
    then obtain q where q: "List.find P [0..<length routes] = Some q" by blast
    from find_in[OF q] have "q < length routes \<and> P q" by simp
    then have "q = pos" by (intro u) (use a in \<open>simp_all add: P_def\<close>)
    then show "List.find P [0..<length routes] = Some pos" using q by blast
  qed
  show ?thesis
  proof (cases "\<exists>i. index = Some i \<and> i < length routes \<and> ro_node_id (routes ! i) = device \<and> ro_name (routes ! i) = nm")
    case True
    then obtain i where i: "index = Some i" "i < length routes" "ro_node_id (routes ! i) = device" "ro_name (routes ! i) = nm" by blast
    then have r: "resolve_route_pos routes index (Some nm) device = Some i" by (simp add: resolve_route_pos_def)
    show ?thesis unfolding r
    proof
      assume "Some i = Some pos"
      then show "pos < length routes \<and> ro_name (routes ! pos) = nm \<and> ro_node_id (routes ! pos) = device" using i by simp
    next
      assume "pos < length routes \<and> ro_name (routes ! pos) = nm \<and> ro_node_id (routes ! pos) = device"
      then have "i = pos" by (intro u) (use i in simp_all)
      then show "Some i = Some pos" by simp
    qed
  next
    case False
    then have "resolve_route_pos routes index (Some nm) device = List.find P [0..<length routes]"
      by (auto simp: resolve_route_pos_def P_def[abs_def] split: option.split)
    then show ?thesis using found P_def by simp
  qed
qed

text \<open>C39. A stored route never lands on its sibling. In every session a request that names a route addresses exactly the
  route of that name on that node, whatever index it carries along, and no route when there is none; and setting
  it is refused just then.\<close>

theorem names_decide_the_route:
  "case device_init has_log wa items shorten sndstat sysctl opened of
     Inl _ \<Rightarrow> True
   | Inr rt0 \<Rightarrow>
       (let rt = device_session ops rt0; routes = dr_routes rt; found = resolve_route_pos routes (rq_index q) (rq_name q) (rq_device q)
        in case rq_name q of
             None \<Rightarrow> True
           | Some nm \<Rightarrow>
               (found = Some pos) = (pos < length routes \<and> ro_name (routes ! pos) = nm \<and> ro_node_id (routes ! pos) = rq_device q)
               \<and> (fst (fst (set_route_param q rt)) = EINVAL_code) = (dr_profile rt = 0 \<or> found = None))"
proof (cases "device_init has_log wa items shorten sndstat sysctl opened")
  case (Inr rt0)
  let ?rt = "device_session ops rt0"
  have "device_ok ?rt" by (rule session_ok[OF init_ok[OF Inr]])
  then have d: "distinct (map ro_name (dr_routes ?rt))" by (simp add: device_ok_def)
  have "fst (fst (set_route_param q ?rt)) = (if dr_profile ?rt = 0
      \<or> resolve_route_pos (dr_routes ?rt) (rq_index q) (rq_name q) (rq_device q) = None then EINVAL_code else 0)"
    by (auto simp: set_route_param_def Let_def split: option.split prod.split)
  then show ?thesis using resolve_named[OF d] by (auto simp: Inr Let_def split: option.split)
qed simp

section \<open>Restoring a route\<close>

text \<open>What the mixers of a controller were written.\<close>

definition written :: "route_controller \<Rightarrow> (nat \<times> int) list list" where
  "written rc = map (\<lambda>h. mx_written (mh_mixer h)) (rc_mixers rc)"

lemma reads_write_nothing:
  "mx_written (snd (mixer_read_int d m)) = mx_written m" "mx_written (snd (input_control m)) = mx_written m"
  "mx_written (snd (mixer_level d m)) = mx_written m" "mx_written (snd (mixer_muted d m)) = mx_written m"
  "mx_written (snd (modify_counter m)) = mx_written m"
proof -
  show r: "mx_written (snd (mixer_read_int d m)) = mx_written m" for d m by (simp add: mixer_read_int_def split: list.split)
  show "mx_written (snd (mixer_level d m)) = mx_written m" "mx_written (snd (mixer_muted d m)) = mx_written m"
    "mx_written (snd (modify_counter m)) = mx_written m"
    using r by (simp_all add: mixer_level_def mixer_muted_def modify_counter_def Let_def split: prod.split) (metis snd_conv)+
  obtain v m' where v: "mixer_read_int SOUND_MIXER_RECSRC m = (v, m')" by (cases "mixer_read_int SOUND_MIXER_RECSRC m")
  have "snd (input_control m) = m \<or> snd (input_control m) = m'" by (auto simp: input_control_def Let_def v split: option.split)
  then show "mx_written (snd (input_control m)) = mx_written m" using r[of SOUND_MIXER_RECSRC m] v by auto
qed

lemma on_mixer_written_same:
  assumes "on_mixer i f rc = (r, rc')" "\<And>m. mx_written (snd (f m)) = mx_written m"
  shows "written rc' = written rc"
proof -
  have "written rc' = (written rc)[i := mx_written (snd (f (mh_mixer (rc_mixers rc ! i))))]"
    using assms(1) by (auto simp: on_mixer_def written_def Let_def map_update split: prod.splits)
  then show ?thesis
    by (cases "i < length (rc_mixers rc)") (simp_all add: assms(2) written_def list_update_beyond map_update_same list_update_same_conv)
qed

lemma resolve_written: "written (resolve_controls pos rc) = written rc"
proof (cases "bi_follows_recsrc (rc_bindings rc ! pos)")
  case True
  let ?b = "rc_bindings rc ! pos"
  obtain p rc1 where 1: "on_mixer (bi_mixer ?b) input_control rc = (p, rc1)" by (cases "on_mixer (bi_mixer ?b) input_control rc")
  note w1 = on_mixer_written_same[OF 1 reads_write_nothing(2)]
  show ?thesis
  proof (cases "\<exists>c. p = Some (c, True)")
    case c: True
    then obtain c where c: "p = Some (c, True)" by blast
    obtain l rc2 where 2: "on_mixer (bi_mixer ?b) (mixer_level c) rc1 = (l, rc2)" by (cases "on_mixer (bi_mixer ?b) (mixer_level c) rc1")
    obtain m rc3 where 3: "on_mixer (bi_mixer ?b) (mixer_muted c) rc2 = (m, rc3)" by (cases "on_mixer (bi_mixer ?b) (mixer_muted c) rc2")
    have "written rc3 = written rc"
      using w1 on_mixer_written_same[OF 2 reads_write_nothing(3)] on_mixer_written_same[OF 3 reads_write_nothing(4)] by simp
    then show ?thesis using True 1 2 3 c by (simp add: resolve_controls_def Let_def written_def)
  next
    case False
    then have "resolve_controls pos rc = rc1" using True 1 by (auto simp: resolve_controls_def Let_def split: option.split)
    then show ?thesis using w1 by simp
  qed
qed (simp add: resolve_controls_def Let_def)

definition neutral :: "route \<Rightarrow> route_value_update \<Rightarrow> bool" where
  "neutral r v \<longleftrightarrow> (case v of UpdMute m \<Rightarrow> m = rm_value (ro_mute r) | UpdVolume vs \<Rightarrow> vs = rv_values (ro_volume r))"

lemma neutral_value: "neutral (rs ! pos) v \<Longrightarrow> apply_value pos b v (out, rc, rs) = (out, rc, rs)"
  by (cases v) (auto simp: neutral_def apply_value_def native_levels_def Let_def split: list.split)

lemma neutral_values: "list_all (neutral (rs ! pos)) vs \<Longrightarrow> fold (apply_value pos b) vs (out, rc, rs) = (out, rc, rs)"
  by (induction vs) (simp_all add: neutral_value)

lemma neutral_apply:
  assumes "route_position rs key = Some pos" "ro_active (rs ! pos)" "list_all (neutral (rs ! pos)) vs"
  obtains c rc' where "route_apply key \<lparr>up_activate = False, up_values = vs\<rparr> (rc, rs) = (c, rc', rs)"
    "\<not> ch_refresh c" "\<not> ch_volume c" "\<not> ch_mute c" "written rc' = written rc"
proof -
  define rc1 where "rc1 = resolve_controls pos rc"
  define b where "b = rc_bindings rc1 ! pos"
  obtain counter rc2 where 2: "on_mixer (bi_mixer b) modify_counter rc1 = (counter, rc2)" by (cases "on_mixer (bi_mixer b) modify_counter rc1")
  have w2: "written rc2 = written rc"
    using on_mixer_written_same[OF 2 reads_write_nothing(5)] resolve_written[of pos rc] by (simp add: rc1_def)
  define rc3 where "rc3 = (case counter of
      Some c \<Rightarrow> rc2\<lparr>rc_mixers := (rc_mixers rc2)[bi_mixer b := (rc_mixers rc2 ! bi_mixer b)\<lparr>mh_counter := c\<rparr>]\<rparr> | None \<Rightarrow> rc2)"
  have w3: "written rc3 = written rc"
    using w2 by (auto simp: rc3_def written_def map_update_same split: option.split)
  let ?r = "route_apply key \<lparr>up_activate = False, up_values = vs\<rparr> (rc, rs)"
  have "snd ?r = (rc3, rs) \<and> \<not> ch_refresh (fst ?r) \<and> \<not> ch_volume (fst ?r) \<and> \<not> ch_mute (fst ?r)"
    using assms(2) neutral_values[OF assms(3)] 2[unfolded b_def rc1_def] unfolding rc3_def b_def rc1_def
    by (simp add: route_apply_def assms(1) apply_selection_def Let_def selection_notification_flags_def)
  then have "\<exists>c. ?r = (c, rc3, rs) \<and> \<not> ch_refresh c \<and> \<not> ch_volume c \<and> \<not> ch_mute c" by (metis prod.collapse)
  then show thesis using that w3 by blast
qed

lemma read_back_i32: "n < 2 ^ 31 \<Longrightarrow> as_i32 n = int n"
  by (simp add: as_i32_def)

lemma read_back_decodes:
  assumes "pos < 2 ^ 31" "ro_node_id r < 2 ^ 31"
  shows "decode_route_request (Some (build_route_info ParamRoute r pos profile True))
    = Inr \<lparr>rq_index = Some pos, rq_name = Some (ro_name r), rq_device = ro_node_id r, rq_save = ro_save r,
        rq_props = Some (PropMute (rm_value (ro_mute r)) #
          (if rv_values (ro_volume r) = [] then [] else [PropChannelVolumes (rv_values (ro_volume r))]))\<rparr>"
  using read_back_i32[OF assms(1)] read_back_i32[OF assms(2)]
  by (simp add: decode_route_request_def build_route_info_def decode_route_property_def pod_prop_def route_props_object_def
      decode_route_props_def decode_route_prop_def List.map_filter_def Let_def)

lemma position_of_key:
  assumes "map ro_key routes = [0..<length routes]" "pos < length routes"
  shows "ro_key (routes ! pos) = pos" "route_position routes pos = Some pos"
proof -
  have k: "ro_key (routes ! i) = i" if "i < length routes" for i
    using arg_cong[OF assms(1), of "\<lambda>xs. xs ! i"] that by simp
  show "ro_key (routes ! pos) = pos" by (rule k[OF assms(2)])
  have "route_position routes pos \<noteq> None" using k[OF assms(2)] assms(2) by (auto simp: route_position_def find_None_iff)
  then obtain q where q: "route_position routes pos = Some q" by blast
  from position_known[OF q] have "q = pos" using k[of q] by simp
  then show "route_position routes pos = Some pos" using q by simp
qed

lemma restored_route:
  assumes "device_ok rt" "dr_profile rt \<noteq> 0" "pos < length (dr_routes rt)" "ro_active (dr_routes rt ! pos)"
    and "pos < 2 ^ 31" "ro_node_id (dr_routes rt ! pos) < 2 ^ 31"
  obtains rc' where "device_set_param ParamRoute (Pod (build_route_info ParamRoute (dr_routes rt ! pos) pos (dr_profile rt) True)) rt
      = ((0, []), rt\<lparr>dr_controller := rc'\<rparr>)" "written rc' = written (dr_controller rt)"
proof -
  let ?r = "dr_routes rt ! pos"
  define props where "props = Some (PropMute (rm_value (ro_mute ?r)) #
          (if rv_values (ro_volume ?r) = [] then [] else [PropChannelVolumes (rv_values (ro_volume ?r))]))"
  let ?q = "\<lparr>rq_index = Some pos, rq_name = Some (ro_name ?r), rq_device = ro_node_id ?r, rq_save = ro_save ?r, rq_props = props\<rparr>"
  have d: "decode_route_request (Some (build_route_info ParamRoute ?r pos (dr_profile rt) True)) = Inr ?q"
    unfolding props_def by (rule read_back_decodes[OF assms(5,6)])
  have keys: "map ro_key (dr_routes rt) = [0..<length (dr_routes rt)]" "distinct (map ro_name (dr_routes rt))"
    using assms(1) by (simp_all add: device_ok_def)
  note k = position_of_key[OF keys(1) assms(3)]
  have res: "resolve_route_pos (dr_routes rt) (Some pos) (Some (ro_name ?r)) (ro_node_id ?r) = Some pos"
    using assms(3) by (simp add: resolve_route_pos_def)
  have "list_all (neutral ?r) (route_value_updates props)"
    by (simp add: props_def route_value_updates_def List.map_filter_def neutral_def)
  from neutral_apply[OF k(2) assms(4) this, of "dr_controller rt"] obtain c rc' where
    a: "route_apply pos \<lparr>up_activate = False, up_values = route_value_updates props\<rparr> (dr_control rt) = (c, rc', dr_routes rt)"
      "\<not> ch_refresh c" "\<not> ch_volume c" "\<not> ch_mute c" "written rc' = written (dr_controller rt)" .
  have same: "?r\<lparr>ro_save := ro_save ?r\<rparr> = ?r" "rt\<lparr>dr_routes := dr_routes rt\<rparr> = rt" by (cases ?r, simp, cases rt, simp)
  have up: "rt\<lparr>dr_controller := rc', dr_routes := dr_routes rt\<rparr> = rt\<lparr>dr_controller := rc'\<rparr>" by (cases rt) simp
  have "set_route_param ?q rt = ((0, []), rt\<lparr>dr_controller := rc'\<rparr>)"
    using assms(2,4) a k(1)
    by (simp add: set_route_param_def res same set_control_def up queue_configs_def Let_def split: option.split)
  then show thesis using that a(5) d by (simp add: device_set_param_def)
qed

text \<open>C38. Restoring what was saved is a no-op. In every session, whatever Route pod the device shows at an index, setting
  exactly that pod succeeds, announces nothing, leaves every route as it is and writes nothing to any mixer. The
  bounds say that the index and the node id survive the pod's 32-bit integers.\<close>

theorem restoring_a_read_route_changes_nothing:
  assumes "device_init has_log wa items shorten sndstat sysctl opened = Inr rt0" "device_session ops rt0 = rt"
    and "dr_param_step rt ParamRoute pos = Built pod" "pos < 2 ^ 31" "ro_node_id (dr_routes rt ! pos) < 2 ^ 31"
  shows "\<exists>rc. device_step (DevSetParam ParamRoute (Pod pod)) rt = ((0, []), rt\<lparr>dr_controller := rc\<rparr>)
    \<and> map (\<lambda>h. mx_written (mh_mixer h)) (rc_mixers rc) = map (\<lambda>h. mx_written (mh_mixer h)) (rc_mixers (dr_controller rt))"
proof -
  have ok: "device_ok rt" using session_ok[OF init_ok[OF assms(1)], of ops] assms(2) by simp
  have p: "dr_profile rt \<noteq> 0" "pos < length (dr_routes rt)" "ro_active (dr_routes rt ! pos)"
    "pod = build_route_info ParamRoute (dr_routes rt ! pos) pos (dr_profile rt) True"
    using assms(3) by (auto simp: device_param_step_def split: if_splits)
  obtain rc where "device_set_param ParamRoute (Pod pod) rt = ((0, []), rt\<lparr>dr_controller := rc\<rparr>)" "written rc = written (dr_controller rt)"
    unfolding p(4) using restored_route[OF ok p(1-3) assms(4,5)] by blast
  then show ?thesis by (auto simp: written_def)
qed

section \<open>Page by page\<close>

definition param_entry :: "(spa_value \<Rightarrow> spa_value option) \<Rightarrow> (u32 \<Rightarrow> param_step) \<Rightarrow> u32 \<Rightarrow> (u32 \<times> spa_value) option" where
  "param_entry filter_pod build i = (case build i of Built pod \<Rightarrow> map_option (Pair i) (filter_pod pod) | _ \<Rightarrow> None)"

abbreviation param_entries :: "(spa_value \<Rightarrow> spa_value option) \<Rightarrow> (u32 \<Rightarrow> param_step) \<Rightarrow> u32 \<Rightarrow> u32 \<Rightarrow> (u32 \<times> spa_value) list" where
  "param_entries filter_pod build start stop \<equiv> List.map_filter (param_entry filter_pod build) [start..<stop]"

text \<open>A host that asks for \<open>per\_page\<close> entries at a time and goes on behind the last one until it gets none.\<close>

fun read_pages ::
    "nat \<Rightarrow> (u32 \<Rightarrow> param_step) \<Rightarrow> (spa_value \<Rightarrow> spa_value option) \<Rightarrow> u32 \<Rightarrow> u32 \<Rightarrow> (u32 \<times> spa_value) list option" where
  "read_pages 0 build filter_pod per_page start = None"
| "read_pages (Suc n) build filter_pod per_page start =
     (case enum_params_loop build filter_pod start per_page [] of
        None \<Rightarrow> None
      | Some (res, page) \<Rightarrow>
          if page = [] then Some []
          else map_option (\<lambda>rest. page @ rest) (read_pages n build filter_pod per_page (fst (last page) + 1)))"

lemma entries_cons:
  "start < stop \<Longrightarrow> param_entries f build start stop
     = (case param_entry f build start of Some e \<Rightarrow> [e] | None \<Rightarrow> []) @ param_entries f build (Suc start) stop"
  by (simp add: upt_conv_Cons List.map_filter_simps split: option.split)

lemma enum_loop_entries:
  assumes "\<And>i r. start \<le> i \<Longrightarrow> i < stop \<Longrightarrow> build i \<noteq> Stop r" "build stop = Stop res" "start \<le> stop"
  shows "enum_params_loop build f start left emitted
    = Some (if left \<le> length (param_entries f build start stop) then 0 else res, emitted @ take left (param_entries f build start stop))"
  using assms
proof (induction "stop - start" arbitrary: start left emitted)
  case 0
  then have "start = stop" by simp
  then show ?case using 0(3) by (subst enum_params_loop.simps) (simp add: List.map_filter_simps)
next
  case (Suc n)
  have l: "start < stop" using Suc.hyps(2) by simp
  note IH = Suc.hyps(1)[of "Suc start", OF _ _ Suc.prems(2)]
  have ns: "build start \<noteq> Stop r" for r using Suc.prems(1) l by simp
  have next_loop: "enum_params_loop build f (start + 1) left' em
      = Some (if left' \<le> length (param_entries f build (Suc start) stop) then 0 else res, em @ take left' (param_entries f build (Suc start) stop))" for left' em
    using IH[of left' em] Suc.prems(1) Suc.hyps(2) l by simp
  show ?case
    by (subst enum_params_loop.simps, cases left; cases "build start"; cases "f (case build start of Built p \<Rightarrow> p | _ \<Rightarrow> undefined)")
      (use ns next_loop in \<open>auto simp: entries_cons[OF l] param_entry_def\<close>)
qed

lemma entries_split:
  assumes "take k (param_entries f build a b) \<noteq> []"
  shows "\<exists>c. a < c \<and> c \<le> b \<and> c = fst (last (take k (param_entries f build a b))) + 1
    \<and> param_entries f build c b = drop k (param_entries f build a b)"
  using assms
proof (induction "b - a" arbitrary: a k)
  case 0
  then show ?case by (simp add: List.map_filter_simps)
next
  case (Suc n)
  have l: "a < b" using Suc.hyps(2) by simp
  have n: "n = b - Suc a" using Suc.hyps(2) by simp
  note IH = Suc.hyps(1)[OF n]
  show ?case
  proof (cases "param_entry f build a")
    case None
    then have e: "param_entries f build a b = param_entries f build (Suc a) b" using entries_cons[OF l] by simp
    obtain c where "Suc a < c" "c \<le> b" "c = fst (last (take k (param_entries f build (Suc a) b))) + 1"
      "param_entries f build c b = drop k (param_entries f build (Suc a) b)"
      using IH[of k] Suc.prems unfolding e by blast
    then show ?thesis unfolding e by (intro exI[of _ c]) simp
  next
    case (Some x)
    then have e: "param_entries f build a b = x # param_entries f build (Suc a) b" using entries_cons[OF l] by simp
    have x: "fst x = a" using Some by (auto simp: param_entry_def split: param_step.splits)
    obtain j where k: "k = Suc j" using Suc.prems by (cases k) simp_all
    show ?thesis
    proof (cases "take j (param_entries f build (Suc a) b) = []")
      case True
      then have "drop j (param_entries f build (Suc a) b) = param_entries f build (Suc a) b" by auto
      then show ?thesis unfolding e k take_Suc_Cons drop_Suc_Cons True using l x by (intro exI[of _ "Suc a"]) simp
    next
      case False
      obtain c where c: "Suc a < c" "c \<le> b" "c = fst (last (take j (param_entries f build (Suc a) b))) + 1"
        "param_entries f build c b = drop j (param_entries f build (Suc a) b)"
        using IH[OF False] by blast
      have "last (x # take j (param_entries f build (Suc a) b)) = last (take j (param_entries f build (Suc a) b))"
        using False by (rule last_ConsR)
      then show ?thesis unfolding e k take_Suc_Cons drop_Suc_Cons using c by (intro exI[of _ c]) simp
    qed
  qed
qed

lemma read_pages_entries:
  assumes "\<And>i r. i < stop \<Longrightarrow> build i \<noteq> Stop r" "build stop = Stop res" "start \<le> stop"
    and "length (param_entries f build start stop) < n"
  shows "read_pages n build f (Suc k) start = Some (param_entries f build start stop)"
  using assms(3,4)
proof (induction n arbitrary: start)
  case (Suc n)
  let ?es = "param_entries f build start stop"
  have loop: "enum_params_loop build f start (Suc k) [] = Some (if Suc k \<le> length ?es then 0 else res, take (Suc k) ?es)"
    using enum_loop_entries[of start stop build res f "Suc k" "[]"] assms(1,2) Suc.prems(1) by simp
  show ?case
  proof (cases "take (Suc k) ?es = []")
    case True
    then show ?thesis using loop by simp
  next
    case False
    obtain c where c: "start < c" "c \<le> stop" "c = fst (last (take (Suc k) ?es)) + 1" "param_entries f build c stop = drop (Suc k) ?es"
      using entries_split[OF False] by blast
    have "length ?es - Suc k < length ?es" using False by (intro diff_less) simp_all
    then have "length (param_entries f build c stop) < n" using Suc.prems(2) unfolding c(4) length_drop by linarith
    from Suc.IH[OF c(2) this] have "read_pages n build f (Suc k) c = Some (drop (Suc k) ?es)" by (simp add: c(4))
    then show ?thesis using False loop append_take_drop_id[of "Suc k" ?es] unfolding c(3) by simp
  qed
qed simp

lemma device_stops: "\<exists>stop res. dr_param_step rt pid stop = Stop res \<and> (\<forall>i r. i < stop \<longrightarrow> dr_param_step rt pid i \<noteq> Stop r)"
proof -
  define P where "P i \<longleftrightarrow> (\<exists>r. dr_param_step rt pid i = Stop r)" for i
  have "P (length (dr_routes rt) + 2)" by (cases pid) (simp_all add: P_def device_param_step_def)
  then have "P (LEAST i. P i)" by (rule LeastI)
  moreover have "\<not> P i" if "i < (LEAST i. P i)" for i using not_less_Least[OF that] .
  ultimately show ?thesis unfolding P_def by blast
qed

text \<open>C40. Enumerating a parameter always ends, and it does not matter how the host pages through it: for every parameter,
  filter and state there is one list of entries such that asking for any number of them from the start gives that
  many of its first, with the result code of the end only where the host asked for more, and reading pages of any
  size, each from behind the last entry of the one before, gives the whole list.\<close>

theorem pages_make_up_the_enumeration:
  "\<exists>entries res. (\<forall>n. device_enum_params rt pid 0 n filter_pod = Some (if n \<le> length entries then 0 else res, take n entries))
     \<and> (\<forall>per_page extra. read_pages (length entries + 1 + extra) (dr_param_step rt pid) filter_pod (Suc per_page) 0 = Some entries)"
proof -
  obtain stop res where s: "dr_param_step rt pid stop = Stop res" "\<And>i r. i < stop \<Longrightarrow> dr_param_step rt pid i \<noteq> Stop r"
    using device_stops by blast
  let ?es = "param_entries filter_pod (dr_param_step rt pid) 0 stop"
  have 1: "device_enum_params rt pid 0 n filter_pod = Some (if n \<le> length ?es then 0 else res, take n ?es)" for n
    using enum_loop_entries[of 0 stop "dr_param_step rt pid" res filter_pod n "[]"] s by (simp add: device_enum_params_def)
  have 2: "read_pages (length ?es + 1 + extra) (dr_param_step rt pid) filter_pod (Suc per_page) 0 = Some ?es" for per_page extra
    by (rule read_pages_entries[of stop "dr_param_step rt pid" res]) (use s in simp_all)
  show ?thesis by (intro exI conjI allI) (rule 1, rule 2)
qed

section \<open>A sample device\<close>

text \<open>One playback unit with a master volume, no loop to poll on.\<close>

definition sample_device_sysctl :: sysctl where
  "sample_device_sysctl = \<lparr>sy_string = (\<lambda>_. Some ''card''), sy_u32 = (\<lambda>_. Some 2)\<rparr>"

definition sample_watch :: watch_answers where
  "sample_watch = \<lparr>wa_loop = False, wa_system = False, wa_timer_created = False, wa_timer_registered = 0,
     wa_hotplug = Inl 0, wa_hotplug_registered = 0\<rparr>"

definition sample_snapshot :: device_snapshot where
  "sample_snapshot = \<lparr>dv_description = ''card'',
     dv_endpoints = [endpoint_of ''card @ card'' \<lparr>pd_index = 0, pd_desc = ''card'', pd_location = ''card'', pd_play = True, pd_rec = False\<rparr> Playback]\<rparr>"

definition sample_device :: device_runtime where
  "sample_device = \<lparr>dr_info = device_info_of None ''card'', dr_snapshot = sample_snapshot, dr_profile = 1, dr_profile_save = False,
     dr_routes = [sample_route (50, 50)], dr_controller = sample_controller sample_answers [] 1, dr_timer = False, dr_hotplug = None\<rparr>"

lemma sample_devices:
  "list_audio_devices Some None sample_device_sysctl [0]
     = [\<lparr>pd_index = 0, pd_desc = ''card'', pd_location = ''card'', pd_play = True, pd_rec = False\<rparr>]"
proof -
  have "read_pcm_device_description Some sample_device_sysctl 0 = Some ''card''"
    by (simp add: read_pcm_device_description_def sample_device_sysctl_def strip_prefix_def)
  moreover have "device_directions (sndstat_pcm_devices None) sample_device_sysctl 0 = (True, False)"
    by (simp add: device_directions_def sndstat_pcm_devices_def sample_device_sysctl_def)
  moreover have "sy_string sample_device_sysctl n = Some ''card''" for n by (simp add: sample_device_sysctl_def)
  ultimately show ?thesis by (simp add: list_audio_devices_def List.map_filter_def)
qed

lemma sample_device_snapshot:
  "snapshot_of_devices (list_audio_devices Some None sample_device_sysctl [0]) = Some sample_snapshot"
  unfolding sample_devices
  by (simp add: snapshot_of_devices_def common_description_def trim_dangling_def device_endpoints_def sample_snapshot_def Let_def)

lemma sample_device_init:
  "device_init True sample_watch (Some [(DEVICE_INDEXES, ''0'')]) Some None sample_device_sysctl sample_mixers = Inr sample_device"
proof -
  have d: "parse_device_dict (Some [(DEVICE_INDEXES, ''0'')]) = \<lparr>di_parent_name = None, di_units = [0]\<rparr>"
    by (simp add: parse_device_dict_def device_init_parse_def device_init_default_def List.map_filter_def parse_u32_def digit_value_def)
  have "route_probe sample_mixers (dv_endpoints sample_snapshot) = (sample_controller sample_answers [] 1, [sample_route (50, 50)])"
    unfolding sample_snapshot_def endpoint_of_def sample_controller_def sample_route_def
    by (simp add: route_probe_def probe_units_def probe_unit_def mixer_open_def sample_mixers_def mixer_read_int_def
      mixer_recsrc_def probe_direction_def probe_control_def output_control_def mixer_has_def mixer_level_def mixer_muted_def modify_counter_def
      control_route_def control_name_def control_binding_def Let_def ex_bool_eq)
  then show ?thesis
    by (simp add: device_init_def d device_init_is_complete_def sample_device_snapshot arm_route_watch_def sample_watch_def sample_device_def
        sample_snapshot_def)
qed

theorem restoring_a_read_route_changes_nothing_witness:
  "\<exists>rc. device_step (DevSetParam ParamRoute (Pod (build_route_info ParamRoute (sample_route (50, 50)) 0 1 True))) sample_device
     = ((0, []), sample_device\<lparr>dr_controller := rc\<rparr>)"
proof -
  have "device_session [] sample_device = sample_device" by (simp add: device_session_def)
  moreover have "dr_param_step sample_device ParamRoute 0 = Built (build_route_info ParamRoute (sample_route (50, 50)) 0 1 True)"
    by (simp add: device_param_step_def sample_device_def sample_route_def)
  moreover have "ro_node_id (dr_routes sample_device ! 0) < 2 ^ 31" by (simp add: sample_device_def sample_route_def)
  ultimately show ?thesis
    using restoring_a_read_route_changes_nothing[OF sample_device_init, of "[]" sample_device 0] by auto
qed

end
