(* ===== verification/Spec2Isabelle.thy ===== *)
theory Spec2Isabelle
  imports OssPlayback OssCapture OssIdentity OssFormat Mailbox NodeSystem MonitorOrder DeviceProps
begin

text \<open>
  A verification library for pw-oss, the FreeBSD OSS plugin of PipeWire. Paths below are relative to src/crates.

  \<^bold>\<open>The program.\<close> PipeWire loads the plugin and creates four kinds of objects. A \<^emph>\<open>monitor\<close> (core/src/monitor) announces the
  groups of PCM units it finds and follows devd. A \<^emph>\<open>device\<close> (core/src/device) stands for one group: it announces a node per
  endpoint and offers Profile and Route parameters over the mixers of its units. A \<^emph>\<open>node\<close>, a playback sink or a capture
  source (core/src/node), moves audio: its data loop runs a process cycle per graph period, wakes itself by a timer or
  by the stream, tracks the device with a delay-locked loop, and hands broken streams to a worker thread that
  opens new ones. The crate core is generic over a \<^emph>\<open>backend\<close> (core/src/backend/mod.rs); freebsd-oss implements it with the DSP
  streams, kqueue, sndstat, devd and the mixer ioctls.

  \<^bold>\<open>Which theory models what.\<close>

  Shared: \<open>Prelude\<close> holds machine integers, clamps, hint collections and list lemmas.

  The vocabulary of the backend contract: \<open>Backend\<close> (backend/mod.rs: identities, xrun tracker, I/O outcomes, configurations,
  silence patterns, capability sets), \<open>PlaybackIface\<close> and \<open>CaptureIface\<close> (the operation traits as records of functions, and the
  locales \<open>playback\_backend\<close> and \<open>capture\_backend\<close> with the laws a node relies on), \<open>Direction\<close> (node/direction.rs and the trait of a
  wake driver).

  The FreeBSD backend: \<open>OssBuffer\<close> (buffer.rs, the ring policy), \<open>OssAbi\<close> (abi.rs and sys/mod.rs, the system calls),
  \<open>OssIdentity\<close> (identity.rs), \<open>OssPlayback\<close> and \<open>OssCapture\<close> (\<open>DspWriter\<close> and \<open>Dsp\<close> of dsp.rs), \<open>OssConfig\<close> (backend.rs: formats, channel order,
  configuring a stream), \<open>OssDevices\<close> and \<open>OssCatalog\<close> (devices.rs: probing, grouping, rescans), \<open>OssWake\<close> and \<open>OssHotplug\<close> (event.rs:
  the kqueue wake driver; devd), \<open>Mixer\<close> with \<open>MixerRoutes\<close> and \<open>MixerProbe\<close> (mixer.rs: ioctls, routes, probing).

  The node: \<open>Dll\<close> (dll.rs), \<open>NodeState\<close> (state.rs), \<open>RebuildWork\<close> (rebuild/worker.rs: mailbox and work slot as atomic
  cells, the worker's task), \<open>Mailbox\<close> (the same two cells as compare-and-swap protocols of interleaved threads),
  \<open>Timing\<close> (timing.rs), \<open>Rebuild\<close> (rebuild.rs), \<open>SinkNode\<close> and \<open>SourceNode\<close> (sink, source: the process cycles over any backend),
  \<open>NodeControl\<close> (process.rs, commands.rs), \<open>FormatNeg\<close> (format.rs and the Format half of ports.rs). \<open>OssSink\<close>, \<open>OssSource\<close> and
  \<open>OssFormat\<close> put the FreeBSD backend into them; \<open>RebuildSystem\<close> and \<open>NodeSystem\<close> compose data loop, worker and main thread as a step
  relation.

  The monitor: \<open>CatalogView\<close> (what the changes of a rescan mean to a listener), \<open>Monitor\<close> and \<open>MonitorOrder\<close> (monitor/mod.rs and
  the notification queue of spa/hooks.rs, with callbacks that call back).

  The device: \<open>DeviceParams\<close> (device/params.rs and the enumeration loop of spa/params.rs), \<open>DeviceObject\<close> (mod.rs, events.rs,
  watch.rs and \<open>DeviceInfo\<close> of spa/info.rs), \<open>DeviceFollow\<close>, \<open>DeviceSync\<close> and \<open>DeviceProps\<close> (its followers and properties).

  \<^bold>\<open>How the code is modelled.\<close> A struct is a record and an enum a datatype with its constructors; an operation is a function
  from the state to its result and the new state; a handler includes every call of the code that changes state. u32,
  u64 and usize are naturals whose saturating, wrapping and truncating operations are written out at their width; bit
  masks are words; f32 and f64 are reals, so rounding and NaN are left out. Error codes are negative integers, results
  are sums or options. A failed assertion sets a flag nothing clears, and the safety theorems show it stays unset.
  The kernel, kqueue, devd and the mixers answer from scripts the model consumes in order; a script that is used up
  fails, so every statement holds for all answers. The sndstat snapshot and the sysctls are arguments. \<open>MAX\_PORTS\<close> is 1, so
  the ports of a node are one record. Host io areas are options, a null area is None. The build switch of the ring
  policy is the argument \<open>scaled\<close> (or \<open>sc\<close>). The data loop accepts every closure, and whether the worker is idle is an argument
  where the threads are not composed. Callbacks of the monitor are arbitrary: the stack of unfinished activations is
  part of the state. A parameter object is the tree libspa parses or serialises. Logging and diagnostic texts
  are left out everywhere.

  \<^bold>\<open>What the lemmas show.\<close> Each component has an invariant that all its operations keep (\<open>writer\_ok\<close>, \<open>dsp\_ok\<close>, \<open>properties\_ok\<close>,
  \<open>node\_ok\<close>, \<open>hotplug\_ok\<close>, \<open>groups\_ok\<close>, \<open>mon\_ok\<close>, \<open>controller\_ok\<close>, \<open>device\_ok\<close>), the behaviour of each operation on all its branches, and
  the properties on top. The streams: real writes are exactly once and in order, silence stays in phase, reads are
  whole frames, ring targets fit. The nodes: a cycle keeps the node in order, a retained host buffer is delivered
  once, a captured block is audio and then silence, and the node never goes deaf. Rebuilds: under every
  interleaving of the three threads no stream is lost and commands leave nothing of the protocol behind; a device is opened
  only for a current request; and the two cells the threads share are atomic although their protocols are not. Negotiation: what is enumerated is admitted, what is admitted is programmable, what runs is what was
  negotiated. The catalog: replaying announced changes gives the current view, refined to the monitor's listeners under
  every re-entrancy. The device: a follower is never stale, a restored route is a no-op, paging agrees with one
  enumeration. The locales are interpreted on the models of the code: \<open>oss\<close> and \<open>oss\_cap\<close> (the streams), \<open>oss\_sink\<close> and \<open>oss\_source\<close> (the
  nodes over them), \<open>sink\_sys\<close> and \<open>source\_sys\<close> (the rebuild protocol), \<open>mailbox\_cell\<close> and \<open>work\_cell\<close> (the atomic cells, by the model's
  \<open>exchange\<close>, \<open>take\_swap\<close>, \<open>try\_submit\<close>, \<open>slot\_take\<close> and \<open>slot\_close\<close>).

  \<^bold>\<open>Bounds and termination.\<close> The retry and drain loops of the streams are functions with a measure. Waiting for the
  worker ends after at most eleven of its turns from any state of a command; that is proved, not assumed. The
  dispatch loop of the monitor ends within \<open>mon\_work\<close> steps once callbacks stop calling back. The parameter enumeration is a
  partial function, and it is proved to end for every parameter of the device. \<open>read\_pages\<close> takes fuel, one more than there are
  entries, which is one page each at worst and the empty page at the end.

  \<^bold>\<open>Not modelled.\<close> The remaining parameters and info events of a node (node/params.rs, events.rs and the rest of
  ports.rs), which marshal for libspa, and its factory; the foreign-function wrappers of spa/ and nv.rs, which are unsafe access to
  C structures; get\_interface, clear and the factory tables of the objects; the search for the process that keeps a device
  busy, which only feeds a log line; the fake backends and the tests. Of the threads, the memory orderings (a thread's writes are
  seen in program order) and sleeping: parking, unparking and the condition variable that \<open>wait\_idle\<close> sleeps on decide when a
  thread takes a step, not what it does, so that a wake-up is never lost is not shown. Listeners of the device are taken not to
  change it during one enumeration, and its queue is not replayed under re-entrancy again: it is the queue of the monitor.
\<close>

end
